(* ===== verification/Prelude.thy ===== *)
theory Prelude
  imports "HOL-Library.Word"
begin

text \<open>
  Shared vocabulary of the development: the machine-integer types of the RV32 target, the
  collections of facts that the component proofs use, and generic lemmas on words, lists and
  function updates that more than one component needs.
\<close>

unbundle bit_operations_syntax

section \<open>Integer types of the target\<close>

type_synonym u8 = "8 word"
type_synonym u16 = "16 word"
type_synonym u32 = "32 word"
type_synonym u64 = "64 word"

text \<open>
  \<open>rt_sizes\<close> collects the facts about sizes and offsets; \<open>rt_simps\<close> the
  field-by-field effect of the kernel operations, filled by the theory that declares each
  operation.
\<close>

named_theorems rt_sizes "arithmetic of sizes and alignment"
named_theorems rt_simps "field effects of kernel operations"

section \<open>Words\<close>

lemma bit_single_bit: "bit (push_bit k (1 :: 'a::len word)) n \<longleftrightarrow> n = k \<and> k < LENGTH('a)"
  by (auto simp add: bit_simps possible_bit_def simp del: push_bit_of_1)

text \<open>The ranges of the machine words.\<close>

lemma unat_u32: "unat (w :: u32) < 4294967296"
  using unsigned_less[of w] by simp

lemma unat_u64: "unat (w :: u64) < 18446744073709551616"
  using unsigned_less[of w] by simp

lemma unat_inc_no_wrap:
  assumes "x < (y :: 'a::len word)"
  shows "unat (x + 1) = unat x + 1"
proof -
  from assms have "x \<noteq> - 1"
    using word_not_simps(3) by blast
  then have "1 + x \<noteq> 0"
    by (metis add.commute add_eq_0_iff)
  then show ?thesis
    by (metis Suc_eq_plus1 add.commute unatSuc)
qed

lemma unat_dec_pos: "x \<noteq> 0 \<Longrightarrow> unat (x - 1) = unat (x :: 'a::len word) - 1"
  by (metis unat_minus_one)

lemma unat_of_nat_small: "n < 2 ^ LENGTH('a) \<Longrightarrow> unat (of_nat n :: 'a::len word) = n"
  by (simp add: unat_of_nat take_bit_nat_eq_self)

section \<open>Lists and updates\<close>

lemma distinct_removeAll_split:
  "distinct (xs @ x # ys) \<Longrightarrow> removeAll x (xs @ x # ys) = xs @ ys"
  by simp

lemma hd_removeAll_ne: "xs \<noteq> [] \<Longrightarrow> distinct xs \<Longrightarrow> removeAll (hd xs) xs = tl xs"
  by (cases xs) auto

section \<open>Outcomes of C code\<close>

text \<open>
  Code with an unbounded loop or with memory accesses that can leave their object is
  modelled with an outcome: it is done with a value, it has run out of the fuel given to
  its loops, or it has done what C leaves undefined (an access out of bounds, a null
  pointer). Claims that code returns are claims that the outcome is \<open>Done\<close>.
\<close>

datatype 'a exec = Done 'a | Out_Of_Fuel | Fault

primrec exec_bind :: "'a exec \<Rightarrow> ('a \<Rightarrow> 'b exec) \<Rightarrow> 'b exec" where
  "exec_bind (Done x) f = f x"
| "exec_bind Out_Of_Fuel f = Out_Of_Fuel"
| "exec_bind Fault f = Fault"

text \<open>The value of a signed 32-bit expression, whose overflow C leaves undefined.\<close>

definition c_int :: "int \<Rightarrow> int exec" where
  "c_int v = (if - (2 ^ 31) \<le> v \<and> v < 2 ^ 31 then Done v else Fault)"

lemma c_int_in_range [simp]: "- 2147483648 \<le> v \<Longrightarrow> v < 2147483648 \<Longrightarrow> c_int v = Done v"
  by (simp add: c_int_def)

lemma c_int_underflow [simp]: "v < - 2147483648 \<Longrightarrow> c_int v = Fault"
  by (simp add: c_int_def)

text \<open>The write of a list by index, with the bounds of the C array.\<close>

definition store_at :: "nat \<Rightarrow> 'a \<Rightarrow> 'a list \<Rightarrow> 'a list exec" where
  "store_at i v xs = (if i < length xs then Done (xs[i := v]) else Fault)"

definition load_at :: "nat \<Rightarrow> 'a list \<Rightarrow> 'a exec" where
  "load_at i xs = (if i < length xs then Done (xs ! i) else Fault)"

lemma store_at_in_bounds [simp]: "i < length xs \<Longrightarrow> store_at i v xs = Done (xs[i := v])"
  by (simp add: store_at_def)

lemma load_at_in_bounds [simp]: "i < length xs \<Longrightarrow> load_at i xs = Done (xs ! i)"
  by (simp add: load_at_def)

text \<open>The read of \<open>n\<close> elements from an index on, as by a callee that is given their address.\<close>

definition load_range :: "nat \<Rightarrow> nat \<Rightarrow> 'a list \<Rightarrow> 'a list exec" where
  "load_range i n xs = (if i + n \<le> length xs then Done (take n (drop i xs)) else Fault)"

lemma load_range_in_bounds [simp]: "i + n \<le> length xs \<Longrightarrow> load_range i n xs = Done (take n (drop i xs))"
  by (simp add: load_range_def)

lemma exec_bind_assoc: "exec_bind (exec_bind e f) g = exec_bind e (\<lambda>x. exec_bind (f x) g)"
  by (cases e) simp_all

lemma exec_bind_Done [simp]: "exec_bind e Done = e"
  by (cases e) simp_all

lemma exec_bind_Done_iff: "exec_bind e f = Done y \<longleftrightarrow> (\<exists>x. e = Done x \<and> f x = Done y)"
  by (cases e) auto

text \<open>\<open>memcpy\<close> into an array at an offset.\<close>

definition blit :: "nat \<Rightarrow> 'a list \<Rightarrow> 'a list \<Rightarrow> 'a list" where
  "blit off src dst = take off dst @ src @ drop (off + length src) dst"

definition memcpy_at :: "nat \<Rightarrow> 'a list \<Rightarrow> 'a list \<Rightarrow> 'a list exec" where
  "memcpy_at off src dst = (if off + length src \<le> length dst then Done (blit off src dst) else Fault)"

lemma memcpy_at_in_bounds [simp]:
  "off + length src \<le> length dst \<Longrightarrow> memcpy_at off src dst = Done (blit off src dst)"
  by (simp add: memcpy_at_def)

lemma memcpy_at_length: "memcpy_at off src dst = Done dst' \<Longrightarrow> length dst' = length dst"
  by (auto simp: memcpy_at_def blit_def split: if_splits)

lemma length_blit [simp]: "off + length src \<le> length dst \<Longrightarrow> length (blit off src dst) = length dst"
  by (simp add: blit_def)

lemma blit_append:
  "off + length xs + length ys \<le> length dst \<Longrightarrow>
     blit (off + length xs) ys (blit off xs dst) = blit off (xs @ ys) dst"
  by (cases xs) (auto simp: blit_def min_def algebra_simps)

lemma blit_nil [simp]: "blit off [] dst = dst"
  by (simp add: blit_def)

lemma blit_pre: "length pre = off \<Longrightarrow> blit off src (pre @ dst) = pre @ src @ drop (length src) dst"
  by (simp add: blit_def)

lemma nth_blit:
  "off + length src \<le> length dst \<Longrightarrow> i < length dst \<Longrightarrow>
     blit off src dst ! i = (if off \<le> i \<and> i < off + length src then src ! (i - off) else dst ! i)"
  by (auto simp: blit_def nth_append min_def)

end
