(* ===== verification/Rt_List.thy ===== *)
theory Rt_List
  imports Prelude
begin

text \<open>
  The intrusive circular doubly linked lists of \<^verbatim>\<open>include/rtservice.h\<close>, at the level of
  their pointers: a heap maps the address of a node to its \<open>next\<close> and \<open>prev\<close>
  pointers. \<open>ring h l xs\<close> says that the list head \<open>l\<close> heads a circular
  list whose nodes are \<open>xs\<close>, in order. Each operation of the header is shown to
  implement the operation on \<open>xs\<close> that the kernel theories use (prepend, append, insert
  before a node, remove), and to leave every other list of the heap alone.
\<close>

section \<open>The heap and the operations\<close>

record list_heap =
  lnext :: "nat \<Rightarrow> nat"
  lprev :: "nat \<Rightarrow> nat"

definition set_next :: "nat \<Rightarrow> nat \<Rightarrow> list_heap \<Rightarrow> list_heap" where
  "set_next a v h = h\<lparr>lnext := (lnext h)(a := v)\<rparr>"

definition set_prev :: "nat \<Rightarrow> nat \<Rightarrow> list_heap \<Rightarrow> list_heap" where
  "set_prev a v h = h\<lparr>lprev := (lprev h)(a := v)\<rparr>"

definition rt_list_init :: "nat \<Rightarrow> list_heap \<Rightarrow> list_heap" where
  "rt_list_init l h = set_next l l (set_prev l l h)"

definition rt_list_insert_after :: "nat \<Rightarrow> nat \<Rightarrow> list_heap \<Rightarrow> list_heap" where
  "rt_list_insert_after l n h =
     (let h1 = set_prev (lnext h l) n h;
          h2 = set_next n (lnext h1 l) h1;
          h3 = set_next l n h2
      in set_prev n l h3)"

definition rt_list_insert_before :: "nat \<Rightarrow> nat \<Rightarrow> list_heap \<Rightarrow> list_heap" where
  "rt_list_insert_before l n h =
     (let h1 = set_next (lprev h l) n h;
          h2 = set_prev n (lprev h1 l) h1;
          h3 = set_prev l n h2
      in set_next n l h3)"

definition rt_list_remove :: "nat \<Rightarrow> list_heap \<Rightarrow> list_heap" where
  "rt_list_remove n h =
     (let h1 = set_prev (lnext h n) (lprev h n) h;
          h2 = set_next (lprev h1 n) (lnext h1 n) h1
      in set_next n n (set_prev n n h2))"

definition rt_list_isempty :: "nat \<Rightarrow> list_heap \<Rightarrow> bool" where
  "rt_list_isempty l h \<longleftrightarrow> lnext h l = l"

text \<open>
  The length loop walks until it is back at the head: on a heap where it never is, it does
  not return, so it is fuelled; \<open>ring_list_len\<close> below gives the fuel that is enough.
\<close>

fun rt_list_len_from :: "nat \<Rightarrow> nat \<Rightarrow> nat \<Rightarrow> list_heap \<Rightarrow> nat \<Rightarrow> nat option" where
  "rt_list_len_from 0 l p h len = None"
| "rt_list_len_from (Suc fuel) l p h len =
     (if lnext h p \<noteq> l then rt_list_len_from fuel l (lnext h p) h (Suc len) else Some len)"

definition rt_list_len :: "nat \<Rightarrow> nat \<Rightarrow> list_heap \<Rightarrow> nat option" where
  "rt_list_len fuel l h = rt_list_len_from fuel l l h 0"

lemmas list_heap_defs = set_next_def set_prev_def rt_list_init_def rt_list_insert_after_def
  rt_list_insert_before_def rt_list_remove_def Let_def

section \<open>Circular lists\<close>

fun linked :: "list_heap \<Rightarrow> nat list \<Rightarrow> bool" where
  "linked h (a # b # xs) \<longleftrightarrow> lnext h a = b \<and> lprev h b = a \<and> linked h (b # xs)"
| "linked h xs \<longleftrightarrow> True"

definition ring :: "list_heap \<Rightarrow> nat \<Rightarrow> nat list \<Rightarrow> bool" where
  "ring h l xs \<longleftrightarrow> distinct (l # xs) \<and> linked h (l # xs @ [l])"

lemma linked_append: "linked h (xs @ a # ys) \<longleftrightarrow> linked h (xs @ [a]) \<and> linked h (a # ys)"
proof (induction xs)
  case Nil
  then show ?case by (cases ys) auto
next
  case (Cons x xs)
  then show ?case by (cases xs) auto
qed

lemma linked_cong:
  assumes "\<And>x. x \<in> set (butlast xs) \<Longrightarrow> lnext h x = lnext h' x"
    and "\<And>x. x \<in> set (tl xs) \<Longrightarrow> lprev h x = lprev h' x"
  shows "linked h xs = linked h' xs"
  using assms
proof (induction h xs rule: linked.induct)
  case (1 h a b xs)
  have "linked h (b # xs) = linked h' (b # xs)"
    by (rule "1.IH") (use "1.prems" in \<open>auto simp: list.set_sel(2)\<close>)
  with "1.prems" show ?case by auto
qed auto

lemma set_butlast_subset: "set (butlast xs) \<subseteq> set xs"
  by (auto dest: in_set_butlastD)

lemma linked_cong_set:
  assumes "\<And>x. x \<in> set xs \<Longrightarrow> lnext h x = lnext h' x \<and> lprev h x = lprev h' x"
  shows "linked h xs = linked h' xs"
proof (rule linked_cong)
  show "lnext h x = lnext h' x" if "x \<in> set (butlast xs)" for x
    using assms that by (blast dest: in_set_butlastD)
  show "lprev h x = lprev h' x" if "x \<in> set (tl xs)" for x
    using assms that by (cases xs) auto
qed

text \<open>Initialisation, emptiness, first node and length.\<close>

lemma ring_init: "ring (rt_list_init l h) l []"
  by (simp add: ring_def list_heap_defs)

lemma ring_isempty: "ring h l xs \<Longrightarrow> rt_list_isempty l h \<longleftrightarrow> xs = []"
  by (cases xs) (auto simp: ring_def rt_list_isempty_def)

lemma ring_first: "ring h l (x # xs) \<Longrightarrow> lnext h l = x"
  by (simp add: ring_def)

lemma rt_list_len_from_linked:
  "linked h (p # xs @ [l]) \<Longrightarrow> l \<notin> set xs \<Longrightarrow> length xs < fuel
     \<Longrightarrow> rt_list_len_from fuel l p h n = Some (n + length xs)"
proof (induction xs arbitrary: p n fuel)
  case Nil
  then show ?case by (cases fuel) auto
next
  case (Cons x xs)
  then show ?case by (cases fuel) auto
qed

lemma ring_list_len: "ring h l xs \<Longrightarrow> length xs < fuel \<Longrightarrow> rt_list_len fuel l h = Some (length xs)"
  using rt_list_len_from_linked[of h l xs l fuel 0] by (simp add: ring_def rt_list_len_def)

section \<open>The operations implement list operations\<close>

text \<open>
  A circular list can be cut at any of its nodes: the ring seen from the node \<open>a\<close>
  that starts the cut is linked as well.
\<close>

lemma linked_insert_between:
  assumes "linked h (xs @ a # b # ys)" and "n \<notin> set (xs @ a # b # ys)"
    and "distinct (xs @ [a])" and "distinct (b # ys)"
    and "lnext h' = (lnext h)(n := b, a := n)" and "lprev h' = (lprev h)(b := n, n := a)"
    and "a \<notin> set (butlast (b # ys))" and "b \<notin> set (tl (xs @ [a]))"
  shows "linked h' (xs @ a # n # b # ys)"
proof -
  have 1: "linked h (xs @ [a])" "linked h (b # ys)"
    using assms(1) linked_append[of h xs a "b # ys"] linked_append[of h "[a]" b ys] by auto
  have "linked h' (xs @ [a])"
    using 1(1) assms by (subst linked_cong[where h' = h]) (auto dest: list.set_sel(2)[rotated] split: if_splits)
  moreover have "linked h' (b # ys)"
    using 1(2) assms by (subst linked_cong[where h' = h]) (auto dest: in_set_butlastD split: if_splits)
  moreover have "linked h' [a, n, b]"
    using assms by auto
  ultimately show ?thesis
    using linked_append[of h' xs a "n # b # ys"] linked_append[of h' "[a, n]" b ys] by auto
qed

lemma linked_neighbours: "linked h (xs @ a # b # ys) \<Longrightarrow> lnext h a = b \<and> lprev h b = a"
  using linked_append[of h xs a "b # ys"] by simp

lemma split_last_head: "l # xs = butlast (l # xs) @ [last (l # xs)]"
  by (metis append_butlast_last_id list.discI)

lemma rt_list_insert_after_fields:
  "n \<noteq> l \<Longrightarrow> lnext (rt_list_insert_after l n h) = (lnext h)(n := lnext h l, l := n)"
  "lprev (rt_list_insert_after l n h) = (lprev h)(lnext h l := n, n := l)"
  by (auto simp: list_heap_defs)

lemma rt_list_insert_before_fields:
  "lnext (rt_list_insert_before l n h) = (lnext h)(lprev h l := n, n := l)"
  "n \<noteq> l \<Longrightarrow> lprev (rt_list_insert_before l n h) = (lprev h)(n := lprev h l, l := n)"
  by (auto simp: list_heap_defs)

lemma rt_list_remove_fields:
  assumes "lnext h n \<noteq> n"
  shows "lnext (rt_list_remove n h) = (lnext h)(lprev h n := lnext h n, n := n)"
    and "lprev (rt_list_remove n h) = (lprev h)(lnext h n := lprev h n, n := n)"
  using assms by (auto simp: list_heap_defs)

lemma ring_insert_after:
  assumes "ring h l xs" and "n \<notin> set (l # xs)"
  shows "ring (rt_list_insert_after l n h) l (n # xs)"
proof -
  obtain b ys where cut: "xs @ [l] = b # ys" by (cases "xs @ [l]") auto
  have fresh: "n \<notin> set (b # ys)" "n \<noteq> l" and dist: "distinct (b # ys)" and notin: "l \<notin> set (butlast (b # ys))"
    using assms by (auto simp: ring_def cut[symmetric])
  have l: "linked h ([] @ l # b # ys)" using assms cut by (simp add: ring_def)
  have "lnext h l = b" using l by simp
  then have "linked (rt_list_insert_after l n h) ([] @ l # n # b # ys)"
    by (intro linked_insert_between[OF l])
      (use fresh dist notin in \<open>auto simp: rt_list_insert_after_fields\<close>)
  with assms cut show ?thesis by (auto simp: ring_def)
qed

lemma ring_insert_before:
  assumes "ring h l (xs @ ys)" and "n \<notin> set (l # xs @ ys)"
  shows "ring (rt_list_insert_before (hd (ys @ [l])) n h) l (xs @ n # ys)"
proof -
  obtain b zs where cut: "ys @ [l] = b # zs" by (cases "ys @ [l]") auto
  define us a where "us = butlast (l # xs)" and "a = last (l # xs)"
  have pre: "l # xs = us @ [a]" unfolding us_def a_def by (rule split_last_head)
  have whole: "l # xs @ ys @ [l] = us @ a # b # zs"
    using pre cut by (metis append.assoc append_Cons append_Nil)
  have l: "linked h (us @ a # b # zs)"
    using assms whole by (simp add: ring_def)
  have dist: "distinct (us @ [a])" "distinct (b # zs)"
    using assms pre[symmetric] cut[symmetric] by (auto simp: ring_def)
  have bz: "set (butlast (b # zs)) = set ys" using cut[symmetric] by simp
  have ua: "set (tl (us @ [a])) = set xs" using pre[symmetric] by simp
  have "a \<in> set (l # xs)" unfolding a_def by (rule last_in_set) simp
  then have 1: "a \<notin> set (butlast (b # zs))" using bz assms by (auto simp: ring_def)
  have "b \<in> set (ys @ [l])" using cut by simp
  then have 2: "b \<notin> set (tl (us @ [a]))" using ua assms by (auto simp: ring_def)
  have fresh: "n \<notin> set (us @ a # b # zs)"
    using assms whole[symmetric] by auto
  have "lprev h b = a" using linked_neighbours[OF l] by simp
  then have "linked (rt_list_insert_before b n h) (us @ a # n # b # zs)"
    by (intro linked_insert_between[OF l fresh dist _ _ 1 2])
      (use fresh in \<open>auto simp: rt_list_insert_before_fields fun_eq_iff\<close>)
  moreover have "us @ a # n # b # zs = l # (xs @ n # ys) @ [l]"
    using pre cut by (metis append.assoc append_Cons append_Nil)
  ultimately show ?thesis using assms cut by (auto simp: ring_def)
qed

lemma ring_append_tail:
  "ring h l xs \<Longrightarrow> n \<notin> set (l # xs) \<Longrightarrow> ring (rt_list_insert_before l n h) l (xs @ [n])"
  using ring_insert_before[of h l xs "[]" n] by simp

lemma ring_remove:
  assumes "ring h l (xs @ n # ys)"
  shows "ring (rt_list_remove n h) l (xs @ ys)"
    and "lnext (rt_list_remove n h) n = n" and "lprev (rt_list_remove n h) n = n"
proof -
  obtain b zs where cut: "ys @ [l] = b # zs" by (cases "ys @ [l]") auto
  define us a where "us = butlast (l # xs)" and "a = last (l # xs)"
  have pre: "l # xs = us @ [a]" unfolding us_def a_def by (rule split_last_head)
  have whole: "l # xs @ n # ys @ [l] = us @ a # n # b # zs"
    using pre cut by (metis append.assoc append_Cons append_Nil)
  have l: "linked h (us @ a # n # b # zs)" using assms whole by (simp add: ring_def)
  have nb: "lprev h n = a" "lnext h n = b"
    using linked_neighbours[OF l] linked_neighbours[of h "us @ [a]" n b zs] l by auto
  have "b \<in> set (ys @ [l])" using cut by simp
  then have bn: "b \<noteq> n" using assms by (auto simp: ring_def)
  let ?h = "rt_list_remove n h"
  have fields: "lnext ?h = (lnext h)(a := b, n := n)" "lprev ?h = (lprev h)(b := a, n := n)"
    using rt_list_remove_fields[of h n] nb bn by auto
  show "lnext ?h n = n" "lprev ?h n = n" using fields by auto
  have bz: "set (butlast (b # zs)) = set ys" "set (b # zs) = set ys \<union> {l}" "distinct (b # zs)"
    using cut[symmetric] assms by (auto simp: ring_def)
  have ua: "set (tl (us @ [a])) = set xs" "set (us @ [a]) = insert l (set xs)" "distinct (us @ [a])"
    using pre[symmetric] assms by (auto simp: ring_def)
  have al: "a \<in> set (l # xs)" unfolding a_def by (rule last_in_set) simp
  have parts: "linked h (us @ [a])" "linked h (b # zs)"
    using l linked_append[of h us a "n # b # zs"] linked_append[of h "[a,n]" b zs] by auto
  have "linked ?h (us @ [a])"
    by (subst linked_cong[where h' = h])
      (use parts fields ua assms \<open>b \<in> set (ys @ [l])\<close> in \<open>auto simp: ring_def dest: in_set_butlastD\<close>)
  moreover have "linked ?h (b # zs)"
    by (subst linked_cong[where h' = h])
      (use parts fields bz assms al in \<open>auto simp: ring_def dest: in_set_butlastD\<close>)
  moreover have "linked ?h [a, b]"
  proof -
    have "a \<noteq> n" using al assms by (auto simp: ring_def)
    with fields bn show ?thesis by simp
  qed
  ultimately have "linked ?h (us @ a # b # zs)"
    using linked_append[of ?h us a "b # zs"] linked_append[of ?h "[a]" b zs] by auto
  moreover have "us @ a # b # zs = l # (xs @ ys) @ [l]"
    using pre cut by (metis append.assoc append_Cons append_Nil)
  ultimately show "ring ?h l (xs @ ys)" using assms by (simp add: ring_def)
qed

section \<open>Several lists in one heap\<close>

text \<open>
  The kernel keeps its nodes in many lists at once. A heap implements the family \<open>f\<close>
  of lists headed by the nodes of \<open>L\<close> when each of them is a ring and no two share a
  node; the operations then act on the family as the kernel theories state them: append to
  one list, or take a node out of whichever list holds it.
\<close>

definition list_world :: "list_heap \<Rightarrow> nat set \<Rightarrow> (nat \<Rightarrow> nat list) \<Rightarrow> bool" where
  "list_world h L f \<longleftrightarrow> (\<forall>l\<in>L. ring h l (f l)) \<and>
     (\<forall>l\<in>L. \<forall>l'\<in>L. l \<noteq> l' \<longrightarrow> set (l # f l) \<inter> set (l' # f l') = {})"

lemma ring_cong:
  assumes "ring h l xs"
    and "\<And>x. x \<in> set (l # xs) \<Longrightarrow> lnext h' x = lnext h x \<and> lprev h' x = lprev h x"
  shows "ring h' l xs"
  using assms linked_cong_set[of "l # xs @ [l]" h' h] by (auto simp: ring_def)

lemma ring_last: "ring h l xs \<Longrightarrow> lprev h l = last (l # xs)"
proof -
  assume r: "ring h l xs"
  have "l # xs @ [l] = butlast (l # xs) @ last (l # xs) # l # []"
    using split_last_head[of l xs] by (metis append.assoc append_Cons append_Nil)
  with r show ?thesis
    using linked_neighbours[of h "butlast (l # xs)" "last (l # xs)" l "[]"] by (simp add: ring_def)
qed

lemma ring_next_prev_mem:
  assumes "ring h l (xs @ n # ys)"
  shows "lnext h n \<in> set (l # xs @ ys)" and "lprev h n \<in> set (l # xs @ ys)"
proof -
  obtain b zs where cut: "ys @ [l] = b # zs" by (cases "ys @ [l]") auto
  define us a where "us = butlast (l # xs)" and "a = last (l # xs)"
  have pre: "l # xs = us @ [a]" unfolding us_def a_def by (rule split_last_head)
  have whole: "l # xs @ n # ys @ [l] = us @ a # n # b # zs"
    using pre cut by (metis append.assoc append_Cons append_Nil)
  have l: "linked h (us @ a # n # b # zs)" using assms whole by (simp add: ring_def)
  have nb: "lprev h n = a" "lnext h n = b"
    using linked_neighbours[OF l] linked_neighbours[of h "us @ [a]" n b zs] l by auto
  have "b \<in> set (ys @ [l])" "a \<in> set (l # xs)"
    using cut unfolding a_def by (simp, intro last_in_set) simp
  with nb show "lnext h n \<in> set (l # xs @ ys)" "lprev h n \<in> set (l # xs @ ys)" by auto
qed

lemma list_world_append:
  assumes w: "list_world h L f" and "l \<in> L" and fresh: "\<And>k. k \<in> L \<Longrightarrow> n \<notin> set (k # f k)"
  shows "list_world (rt_list_insert_before l n h) L (f(l := f l @ [n]))"
proof -
  let ?h = "rt_list_insert_before l n h"
  have r: "ring h l (f l)" using w \<open>l \<in> L\<close> by (simp add: list_world_def)
  have nl: "n \<noteq> l" using fresh \<open>l \<in> L\<close> by auto
  have "ring ?h k (f k)" if k: "k \<in> L" "k \<noteq> l" for k
  proof (rule ring_cong)
    show "ring h k (f k)" using w k by (simp add: list_world_def)
    have "set (k # f k) \<inter> set (l # f l) = {}"
      using w k \<open>l \<in> L\<close> by (metis list_world_def)
    then have "last (l # f l) \<notin> set (k # f k)" "l \<notin> set (k # f k)"
      using last_in_set[of "l # f l"] by (blast, auto)
    then show "lnext ?h x = lnext h x \<and> lprev ?h x = lprev h x" if "x \<in> set (k # f k)" for x
      using that fresh[OF k(1)] nl ring_last[OF r] by (auto simp: rt_list_insert_before_fields)
  qed
  with w fresh \<open>l \<in> L\<close> ring_append_tail[OF r] show ?thesis
    unfolding list_world_def by auto
qed

lemma list_world_remove:
  assumes w: "list_world h L f" and l: "l \<in> L" and mem: "n \<in> set (f l)"
  shows "list_world (rt_list_remove n h) L (\<lambda>k. removeAll n (f k))"
proof -
  let ?h = "rt_list_remove n h"
  obtain xs ys where split: "f l = xs @ n # ys" using mem by (meson split_list)
  have r: "ring h l (xs @ n # ys)" using w l split by (metis list_world_def)
  have nn: "lnext h n \<noteq> n"
    using ring_next_prev_mem(1)[OF r] r by (auto simp: ring_def)
  have rl: "removeAll n (f l) = xs @ ys"
    using r split by (auto simp: ring_def)
  have other: "removeAll n (f k) = f k \<and> ring ?h k (f k)" if k: "k \<in> L" "k \<noteq> l" for k
  proof
    have dis: "set (k # f k) \<inter> set (l # f l) = {}"
      using w k l by (metis list_world_def)
    show "removeAll n (f k) = f k" using dis mem by (intro removeAll_id) auto
    show "ring ?h k (f k)"
    proof (rule ring_cong)
      show "ring h k (f k)" using w k by (simp add: list_world_def)
      have "lnext h n \<in> set (l # f l)" "lprev h n \<in> set (l # f l)"
        using ring_next_prev_mem[OF r] split by auto
      then show "lnext ?h x = lnext h x \<and> lprev ?h x = lprev h x" if "x \<in> set (k # f k)" for x
        using that dis mem by (auto simp: rt_list_remove_fields[OF nn])
    qed
  qed
  have "ring ?h k (removeAll n (f k))" if "k \<in> L" for k
    using that other ring_remove(1)[OF r] rl by (cases "k = l") auto
  with w show ?thesis unfolding list_world_def by fastforce
qed

lemma list_world_remove_absent:
  assumes "lnext h n = n" and "lprev h n = n"
  shows "rt_list_remove n h = h"
  using assms by (cases h) (auto simp: list_heap_defs)

end
