(* ===== verification/Mmio.thy ===== *)
theory Mmio
  imports Prelude
begin

text \<open>
  Memory-mapped registers. A device is what its registers do when they are read and written;
  the drivers take it as an argument, so that what is proved of a driver holds for every
  behaviour of the hardware. \<open>logged\<close> records the writes beside any device, which is how the
  properties speak of what a driver told it. The register layout is that of
  \<^verbatim>\<open>sw/bsp/rtthread/board/board.h\<close>.
\<close>

section \<open>Devices\<close>

record 'd mmio =
  mm_read :: "u32 \<Rightarrow> 'd \<Rightarrow> u32 \<times> 'd"
  mm_write :: "u32 \<Rightarrow> u32 \<Rightarrow> 'd \<Rightarrow> 'd"

type_synonym reg_log = "(u32 \<times> u32) list"

definition logged :: "'d mmio \<Rightarrow> ('d \<times> reg_log) mmio" where
  "logged io =
     \<lparr>mm_read = (\<lambda>a (d, l). let (v, d') = mm_read io a d in (v, (d', l))),
      mm_write = (\<lambda>a v (d, l). (mm_write io a v d, l @ [(a, v)]))\<rparr>"

lemma logged_write [simp]: "mm_write (logged io) a v s = (mm_write io a v (fst s), snd s @ [(a, v)])"
  by (cases s) (simp add: logged_def)

lemma logged_read [simp]:
  "mm_read (logged io) a s = (fst (mm_read io a (fst s)), (snd (mm_read io a (fst s)), snd s))"
  by (cases s) (simp add: logged_def split: prod.split)

text \<open>
  The polling loops of the drivers: read the register while it is busy and the counter is not
  used up; the counter that is left is returned. The last read is not counted.
\<close>

fun poll :: "'d mmio \<Rightarrow> u32 \<Rightarrow> (u32 \<Rightarrow> bool) \<Rightarrow> nat \<Rightarrow> 'd \<Rightarrow> nat \<times> 'd" where
  "poll io a busy 0 d = (0, snd (mm_read io a d))"
| "poll io a busy (Suc n) d =
     (let (v, d) = mm_read io a d in if busy v then poll io a busy n d else (Suc n, d))"

lemma poll_logged: "snd (snd (poll (logged io) a busy n s)) = snd s"
  by (induction n arbitrary: s) (simp_all add: Let_def)

lemma poll_logged_fst:
  "fst (poll (logged io) a busy n s) = fst (poll io a busy n (fst s))"
  "fst (snd (poll (logged io) a busy n s)) = snd (poll io a busy n (fst s))"
  by (induction n arbitrary: s) (simp_all add: Let_def split: prod.split)

text \<open>
  \<open>volatile\<close> read-modify-write of a register.
\<close>

definition mm_modify :: "'d mmio \<Rightarrow> u32 \<Rightarrow> (u32 \<Rightarrow> u32) \<Rightarrow> 'd \<Rightarrow> 'd" where
  "mm_modify io a f d = (let (v, d) = mm_read io a d in mm_write io a (f v) d)"

section \<open>The address map\<close>

definition YDRASIL_CLINT_BASE :: u32 where [code_unfold]: "YDRASIL_CLINT_BASE = 0x02000000"
definition YDRASIL_PLIC_BASE :: u32 where [code_unfold]: "YDRASIL_PLIC_BASE = 0x0c000000"
definition YDRASIL_GPIO_BASE :: u32 where [code_unfold]: "YDRASIL_GPIO_BASE = 0x40001000"
definition YDRASIL_UART0_BASE :: u32 where [code_unfold]: "YDRASIL_UART0_BASE = 0x40002000"
definition YDRASIL_UART1_BASE :: u32 where [code_unfold]: "YDRASIL_UART1_BASE = 0x40003000"
definition YDRASIL_SPI0_BASE :: u32 where [code_unfold]: "YDRASIL_SPI0_BASE = 0x40004000"
definition YDRASIL_I2C0_BASE :: u32 where [code_unfold]: "YDRASIL_I2C0_BASE = 0x40005000"
definition YDRASIL_APB_FREQ_HZ :: u32 where [code_unfold]: "YDRASIL_APB_FREQ_HZ = 50000000"
definition YDRASIL_UART_BAUD :: u32 where [code_unfold]: "YDRASIL_UART_BAUD = 115200"

lemmas ydrasil_bases = YDRASIL_CLINT_BASE_def YDRASIL_PLIC_BASE_def YDRASIL_GPIO_BASE_def YDRASIL_UART0_BASE_def
  YDRASIL_UART1_BASE_def YDRASIL_SPI0_BASE_def YDRASIL_I2C0_BASE_def

text \<open>The registers of the UARTs, \<^verbatim>\<open>struct ydrasil_uart_regs\<close>.\<close>

definition rbr_thr_dll :: u32 where [code_unfold]: "rbr_thr_dll = 0x00"
definition ier_dlm :: u32 where [code_unfold]: "ier_dlm = 0x04"
definition iir_fcr :: u32 where [code_unfold]: "iir_fcr = 0x08"
definition lcr :: u32 where [code_unfold]: "lcr = 0x0c"
definition lsr :: u32 where [code_unfold]: "lsr = 0x14"

lemmas uart_regs = rbr_thr_dll_def ier_dlm_def iir_fcr_def lcr_def lsr_def

definition UART_LSR_DATA_READY :: u32 where [code_unfold]: "UART_LSR_DATA_READY = 1"
definition UART_LSR_THR_EMPTY :: u32 where [code_unfold]: "UART_LSR_THR_EMPTY = 32"

end
