(* ===== verification/Monitor_Bus_If.thy ===== *)
theory Monitor_Bus_If
  imports Prelude
begin

text \<open>
  The interface \<^verbatim>\<open>sw/app/driver/monitor_bus.h\<close> between the device drivers and the
  board. The drivers are written against a record of the bus functions, which
  \<open>Monitor_Bus\<close> implements by the memory-mapped controllers of the SoC
  (\<^verbatim>\<open>monitor_bus.c\<close>) and \<open>Mock_Bus\<close> by the simulated devices of
  \<^verbatim>\<open>verif/sw/driver/mock_monitor_bus.c\<close>. The locales state what a driver may rely on.
\<close>

section \<open>Status codes\<close>

definition YDRASIL_DRIVER_OK :: int where [code_unfold]: "YDRASIL_DRIVER_OK = 0"
definition YDRASIL_DRIVER_EINVAL :: int where [code_unfold]: "YDRASIL_DRIVER_EINVAL = - 1"
definition YDRASIL_DRIVER_EIO :: int where [code_unfold]: "YDRASIL_DRIVER_EIO = - 2"
definition YDRASIL_DRIVER_ETIMEOUT :: int where [code_unfold]: "YDRASIL_DRIVER_ETIMEOUT = - 3"
definition YDRASIL_DRIVER_EEMPTY :: int where [code_unfold]: "YDRASIL_DRIVER_EEMPTY = - 4"

lemmas driver_status = YDRASIL_DRIVER_OK_def YDRASIL_DRIVER_EINVAL_def YDRASIL_DRIVER_EIO_def
  YDRASIL_DRIVER_ETIMEOUT_def YDRASIL_DRIVER_EEMPTY_def

section \<open>The bus functions\<close>

text \<open>
  \<open>'b\<close> is the state of the board behind the interface. Output parameters are returned:
  \<open>bus_uart1_getc\<close> gives the status and the byte it stored, if any. The byte buffers that
  the drivers pass are never null, so a buffer is its bytes.
\<close>

record 'b monitor_bus =
  bus_uart1_reset :: "u32 \<Rightarrow> 'b \<Rightarrow> 'b"
  bus_uart1_getc :: "'b \<Rightarrow> int \<times> u8 option \<times> 'b"
  bus_gpio_write :: "u32 \<Rightarrow> int \<Rightarrow> 'b \<Rightarrow> 'b"
  bus_spi0_write :: "u8 list \<Rightarrow> 'b \<Rightarrow> int \<times> 'b"
  bus_millis :: "'b \<Rightarrow> u32 \<times> 'b"
  bus_delay_ms :: "u32 \<Rightarrow> 'b \<Rightarrow> 'b"

text \<open>
  A bus whose receiver delivers a given stream of bytes and whose clock advances only while
  the driver sleeps: what the polling loop of the attitude sensor relies on to return.
\<close>

locale uart_stream =
  fixes bus :: "'b monitor_bus"
    and ok :: "'b \<Rightarrow> bool"
    and stream :: "'b \<Rightarrow> u8 list"
    and now :: "'b \<Rightarrow> u32"
  assumes getc_byte: "ok b \<Longrightarrow> stream b = x # xs \<Longrightarrow>
      \<exists>b'. bus_uart1_getc bus b = (YDRASIL_DRIVER_OK, Some x, b') \<and> ok b' \<and> stream b' = xs \<and> now b' = now b"
    and getc_empty: "ok b \<Longrightarrow> stream b = [] \<Longrightarrow>
      \<exists>b'. bus_uart1_getc bus b = (YDRASIL_DRIVER_EEMPTY, None, b') \<and> ok b' \<and> stream b' = [] \<and> now b' = now b"
    and millis_now: "ok b \<Longrightarrow>
      \<exists>b'. bus_millis bus b = (now b, b') \<and> ok b' \<and> stream b' = stream b \<and> now b' = now b"
    and reset_ok: "ok b \<Longrightarrow> ok (bus_uart1_reset bus baud b)"
    and delay_ok: "ok b \<Longrightarrow> ok (bus_delay_ms bus k b)"
    and delay_stream: "ok b \<Longrightarrow> stream (bus_delay_ms bus k b) = stream b"
    and delay_now: "ok b \<Longrightarrow> now (bus_delay_ms bus k b) = now b + k"

end
