(* ===== verification/Rt_Def.thy ===== *)
theory Rt_Def
  imports Prelude
begin

text \<open>
  The data of the kernel: the constants and structures of \<^verbatim>\<open>include/rtdef.h\<close> under
  the configuration \<^verbatim>\<open>sw/bsp/rtthread/rtconfig.h\<close> (32 priorities, no assertions, no
  debug output, one-level timer list, hard timers only) and the static variables of the kernel
  files, as one state record. A thread control block, a timer or an IPC object is known by a
  number (its address in C); an intrusive list is the list of the nodes it links, which
  \<open>Rt_List\<close> justifies at the level of pointers. Interrupts are off in every critical
  section, so a section is one state transformation. The control flow of the hook functions
  (never set in the repository) is left out.
\<close>

section \<open>Alignment\<close>

definition RT_ALIGN_SIZE :: u32 where [code_unfold]: "RT_ALIGN_SIZE = 16"

definition RT_ALIGN :: "u32 \<Rightarrow> u32 \<Rightarrow> u32" where
  "RT_ALIGN sz align = (sz + align - 1) AND NOT (align - 1)"

section \<open>Constants\<close>

definition RT_EOK :: int where [code_unfold]: "RT_EOK = 0"
definition RT_ERROR :: int where [code_unfold]: "RT_ERROR = 1"
definition RT_ETIMEOUT :: int where [code_unfold]: "RT_ETIMEOUT = 2"
definition RT_EFULL :: int where [code_unfold]: "RT_EFULL = 3"
definition RT_EEMPTY :: int where [code_unfold]: "RT_EEMPTY = 4"
definition RT_ENOMEM :: int where [code_unfold]: "RT_ENOMEM = 5"
definition RT_ENOSYS :: int where [code_unfold]: "RT_ENOSYS = 6"
definition RT_EBUSY :: int where [code_unfold]: "RT_EBUSY = 7"
definition RT_EIO :: int where [code_unfold]: "RT_EIO = 8"
definition RT_EINTR :: int where [code_unfold]: "RT_EINTR = 9"
definition RT_EINVAL :: int where [code_unfold]: "RT_EINVAL = 10"

lemmas rt_errors = RT_EOK_def RT_ERROR_def RT_ETIMEOUT_def RT_EFULL_def RT_EEMPTY_def
  RT_ENOMEM_def RT_ENOSYS_def RT_EBUSY_def RT_EIO_def RT_EINTR_def RT_EINVAL_def

definition RT_THREAD_PRIORITY_MAX :: nat where [code_unfold]: "RT_THREAD_PRIORITY_MAX = 32"
definition RT_TICK_PER_SECOND :: u32 where [code_unfold]: "RT_TICK_PER_SECOND = 1000"
definition RT_TICK_MAX :: u32 where [code_unfold]: "RT_TICK_MAX = 0xffffffff"
definition RT_WAITING_FOREVER :: u32 where [code_unfold]: "RT_WAITING_FOREVER = - 1"

definition RT_THREAD_INIT :: u8 where [code_unfold]: "RT_THREAD_INIT = 0x00"
definition RT_THREAD_READY :: u8 where [code_unfold]: "RT_THREAD_READY = 0x01"
definition RT_THREAD_SUSPEND :: u8 where [code_unfold]: "RT_THREAD_SUSPEND = 0x02"
definition RT_THREAD_CLOSE :: u8 where [code_unfold]: "RT_THREAD_CLOSE = 0x04"
definition RT_THREAD_STAT_MASK :: u8 where [code_unfold]: "RT_THREAD_STAT_MASK = 0x0f"

lemmas rt_stats = RT_THREAD_INIT_def RT_THREAD_READY_def RT_THREAD_SUSPEND_def
  RT_THREAD_CLOSE_def RT_THREAD_STAT_MASK_def

definition RT_TIMER_FLAG_ACTIVATED :: u8 where [code_unfold]: "RT_TIMER_FLAG_ACTIVATED = 0x1"
definition RT_TIMER_FLAG_PERIODIC :: u8 where [code_unfold]: "RT_TIMER_FLAG_PERIODIC = 0x2"
definition RT_TIMER_FLAG_ONE_SHOT :: u8 where [code_unfold]: "RT_TIMER_FLAG_ONE_SHOT = 0x0"

lemmas rt_timer_flags = RT_TIMER_FLAG_ACTIVATED_def RT_TIMER_FLAG_PERIODIC_def RT_TIMER_FLAG_ONE_SHOT_def

definition RT_IPC_FLAG_FIFO :: u8 where [code_unfold]: "RT_IPC_FLAG_FIFO = 0x00"
definition RT_IPC_FLAG_PRIO :: u8 where [code_unfold]: "RT_IPC_FLAG_PRIO = 0x01"

definition RT_EVENT_FLAG_AND :: u8 where [code_unfold]: "RT_EVENT_FLAG_AND = 0x01"
definition RT_EVENT_FLAG_OR :: u8 where [code_unfold]: "RT_EVENT_FLAG_OR = 0x02"
definition RT_EVENT_FLAG_CLEAR :: u8 where [code_unfold]: "RT_EVENT_FLAG_CLEAR = 0x04"

section \<open>Structures\<close>

type_synonym tid = nat

text \<open>
  The lists a thread can be linked in by its \<open>tlist\<close> node: the ready list of a
  priority, the list of defunct threads, and the wait lists of the IPC objects.
\<close>

datatype list_id =
    Ready nat | Defunct | SemQ nat | MutexQ nat | EventQ nat
  | MbRecvQ nat | MbSendQ nat | MqRecvQ nat | MqSendQ nat | MpQ nat

text \<open>The timer built into a thread, and the timers of applications.\<close>

datatype timer_id = ThreadTimer tid | UserTimer nat

datatype object_id =
    OThread tid | OTimer timer_id | OSem nat | OMutex nat | OEvent nat | OMailbox nat
  | OMq nat | OMemPool nat

record rt_timer =
  timer_flag :: u8
  timer_init_tick :: u32
  timeout_tick :: u32

record rt_thread =
  stat :: u8
  current_priority :: u8
  init_priority :: u8
  number_mask :: u32
  error :: int
  event_set :: u32
  event_info :: u8
  init_tick :: u32
  remaining_tick :: u32
  sp :: u32
  stack_addr :: u32
  stack_size :: u32
  stack_mark :: u8

text \<open>\<open>stack_mark\<close> is the byte at \<open>stack_addr\<close>, which the overflow check reads.\<close>

record rt_semaphore =
  sem_value :: u16
  sem_flag :: u8

record rt_mutex =
  mutex_value :: u16
  original_priority :: u8
  hold :: u8
  owner :: "tid option"
  mutex_flag :: u8

record rt_event =
  event_bits :: u32
  event_flag :: u8

record rt_mailbox =
  msg_pool :: "u32 list"
  mb_size :: u16
  mb_entry :: u16
  mb_in_offset :: u16
  mb_out_offset :: u16
  mb_flag :: u8

text \<open>
  A message queue links slots of its pool: slot \<open>i\<close> has a successor and
  \<open>msg_size\<close> bytes of content.
\<close>

record rt_messagequeue =
  mq_msg_size :: u16
  mq_max_msgs :: u16
  mq_entry :: u16
  msg_queue_head :: "nat option"
  msg_queue_tail :: "nat option"
  msg_queue_free :: "nat option"
  msg_next :: "nat \<Rightarrow> nat option"
  msg_data :: "nat \<Rightarrow> u8 list"
  mq_flag :: u8

text \<open>
  \<open>halted\<close> records that the code has hung with interrupts off (the stack overflow
  report) or has dereferenced a null or dangling pointer.
\<close>

record kernel =
  threads :: "tid \<Rightarrow> rt_thread"
  lists :: "list_id \<Rightarrow> tid list"
  ready_group :: u32
  current_thread :: "tid option"
  current_prio :: u8
  lock_nest :: "16 word"
  interrupt_nest :: u8
  tick :: u32
  timers :: "timer_id \<Rightarrow> rt_timer"
  timer_list :: "timer_id list"
  check_list :: "timer_id list"
  random_nr :: u32
  objects :: "object_id list"
  object_static :: "object_id \<Rightarrow> bool"
  sems :: "nat \<Rightarrow> rt_semaphore"
  mutexes :: "nat \<Rightarrow> rt_mutex"
  events :: "nat \<Rightarrow> rt_event"
  mailboxes :: "nat \<Rightarrow> rt_mailbox"
  mqueues :: "nat \<Rightarrow> rt_messagequeue"
  halted :: bool

section \<open>Updates\<close>

definition upd_thread :: "tid \<Rightarrow> (rt_thread \<Rightarrow> rt_thread) \<Rightarrow> kernel \<Rightarrow> kernel" where
  "upd_thread t f k = k\<lparr>threads := (threads k)(t := f (threads k t))\<rparr>"

definition upd_list :: "list_id \<Rightarrow> (tid list \<Rightarrow> tid list) \<Rightarrow> kernel \<Rightarrow> kernel" where
  "upd_list l f k = k\<lparr>lists := (lists k)(l := f (lists k l))\<rparr>"

definition upd_timer :: "timer_id \<Rightarrow> (rt_timer \<Rightarrow> rt_timer) \<Rightarrow> kernel \<Rightarrow> kernel" where
  "upd_timer t f k = k\<lparr>timers := (timers k)(t := f (timers k t))\<rparr>"

text \<open>
  \<open>rt_list_remove(&(thread->tlist))\<close>: the node leaves whichever list holds it; on a
  node in no list it does nothing.
\<close>

definition tlist_remove :: "tid \<Rightarrow> kernel \<Rightarrow> kernel" where
  "tlist_remove t k = k\<lparr>lists := (\<lambda>l. removeAll t (lists k l))\<rparr>"

text \<open>\<open>thread->stat & RT_THREAD_STAT_MASK\<close> and the write that keeps the other bits.\<close>

definition stat_of :: "rt_thread \<Rightarrow> u8" where
  "stat_of th = stat th AND RT_THREAD_STAT_MASK"

definition set_stat :: "u8 \<Rightarrow> rt_thread \<Rightarrow> rt_thread" where
  "set_stat s th = th\<lparr>stat := s OR (stat th AND NOT RT_THREAD_STAT_MASK)\<rparr>"

lemma stat_of_set_stat [simp]: "stat_of (set_stat s th) = s AND RT_THREAD_STAT_MASK"
  by (rule bit_word_eqI) (auto simp: stat_of_def set_stat_def bit_simps)

lemma set_stat_simps [simp]:
  "current_priority (set_stat s th) = current_priority th"
  "init_priority (set_stat s th) = init_priority th"
  "number_mask (set_stat s th) = number_mask th" "error (set_stat s th) = error th"
  "remaining_tick (set_stat s th) = remaining_tick th" "init_tick (set_stat s th) = init_tick th"
  "event_set (set_stat s th) = event_set th" "event_info (set_stat s th) = event_info th"
  "sp (set_stat s th) = sp th" "stack_addr (set_stat s th) = stack_addr th"
  "stack_size (set_stat s th) = stack_size th" "stack_mark (set_stat s th) = stack_mark th"
  by (simp_all add: set_stat_def)

lemma stat_of_update [simp]:
  "stat_of (th\<lparr>current_priority := p\<rparr>) = stat_of th"
  "stat_of (th\<lparr>number_mask := m\<rparr>) = stat_of th"
  "stat_of (th\<lparr>error := e\<rparr>) = stat_of th"
  "stat_of (th\<lparr>init_tick := i\<rparr>) = stat_of th"
  "stat_of (th\<lparr>remaining_tick := r\<rparr>) = stat_of th"
  "stat_of (th\<lparr>event_set := es\<rparr>) = stat_of th"
  "stat_of (th\<lparr>event_info := ei\<rparr>) = stat_of th"
  by (simp_all add: stat_of_def)

lemma stat_values [simp]:
  "RT_THREAD_READY AND RT_THREAD_STAT_MASK = RT_THREAD_READY"
  "RT_THREAD_SUSPEND AND RT_THREAD_STAT_MASK = RT_THREAD_SUSPEND"
  "RT_THREAD_CLOSE AND RT_THREAD_STAT_MASK = RT_THREAD_CLOSE"
  "RT_THREAD_INIT AND RT_THREAD_STAT_MASK = RT_THREAD_INIT"
  "RT_THREAD_READY \<noteq> RT_THREAD_SUSPEND" "RT_THREAD_SUSPEND \<noteq> RT_THREAD_READY"
  "RT_THREAD_READY \<noteq> RT_THREAD_CLOSE" "RT_THREAD_CLOSE \<noteq> RT_THREAD_READY"
  "RT_THREAD_READY \<noteq> RT_THREAD_INIT" "RT_THREAD_INIT \<noteq> RT_THREAD_READY"
  "RT_THREAD_SUSPEND \<noteq> RT_THREAD_CLOSE" "RT_THREAD_CLOSE \<noteq> RT_THREAD_SUSPEND"
  "RT_THREAD_SUSPEND \<noteq> RT_THREAD_INIT" "RT_THREAD_INIT \<noteq> RT_THREAD_SUSPEND"
  "RT_THREAD_CLOSE \<noteq> RT_THREAD_INIT" "RT_THREAD_INIT \<noteq> RT_THREAD_CLOSE"
  by (simp_all add: rt_stats)

text \<open>Each update changes its own component only.\<close>

lemma upd_simps [simp]:
  "threads (upd_thread t f k) = (threads k)(t := f (threads k t))"
  "lists (upd_thread t f k) = lists k" "ready_group (upd_thread t f k) = ready_group k"
  "current_thread (upd_thread t f k) = current_thread k" "current_prio (upd_thread t f k) = current_prio k"
  "lock_nest (upd_thread t f k) = lock_nest k" "interrupt_nest (upd_thread t f k) = interrupt_nest k"
  "tick (upd_thread t f k) = tick k" "timers (upd_thread t f k) = timers k"
  "timer_list (upd_thread t f k) = timer_list k" "check_list (upd_thread t f k) = check_list k"
  "random_nr (upd_thread t f k) = random_nr k" "objects (upd_thread t f k) = objects k"
  "object_static (upd_thread t f k) = object_static k"
  "sems (upd_thread t f k) = sems k" "mutexes (upd_thread t f k) = mutexes k"
  "events (upd_thread t f k) = events k" "mailboxes (upd_thread t f k) = mailboxes k"
  "mqueues (upd_thread t f k) = mqueues k" "halted (upd_thread t f k) = halted k"
  "lists (upd_list l g k) = (lists k)(l := g (lists k l))"
  "threads (upd_list l g k) = threads k" "ready_group (upd_list l g k) = ready_group k"
  "current_thread (upd_list l g k) = current_thread k" "current_prio (upd_list l g k) = current_prio k"
  "lock_nest (upd_list l g k) = lock_nest k" "interrupt_nest (upd_list l g k) = interrupt_nest k"
  "tick (upd_list l g k) = tick k" "timers (upd_list l g k) = timers k"
  "timer_list (upd_list l g k) = timer_list k" "check_list (upd_list l g k) = check_list k"
  "random_nr (upd_list l g k) = random_nr k" "objects (upd_list l g k) = objects k"
  "object_static (upd_list l g k) = object_static k"
  "sems (upd_list l g k) = sems k" "mutexes (upd_list l g k) = mutexes k"
  "events (upd_list l g k) = events k" "mailboxes (upd_list l g k) = mailboxes k"
  "mqueues (upd_list l g k) = mqueues k" "halted (upd_list l g k) = halted k"
  by (simp_all add: upd_thread_def upd_list_def)

lemma upd_timer_simps [simp]:
  "timers (upd_timer m h k) = (timers k)(m := h (timers k m))"
  "threads (upd_timer m h k) = threads k" "ready_group (upd_timer m h k) = ready_group k"
  "current_thread (upd_timer m h k) = current_thread k" "current_prio (upd_timer m h k) = current_prio k"
  "lock_nest (upd_timer m h k) = lock_nest k" "interrupt_nest (upd_timer m h k) = interrupt_nest k"
  "tick (upd_timer m h k) = tick k" "lists (upd_timer m h k) = lists k"
  "timer_list (upd_timer m h k) = timer_list k" "check_list (upd_timer m h k) = check_list k"
  "random_nr (upd_timer m h k) = random_nr k" "objects (upd_timer m h k) = objects k"
  "object_static (upd_timer m h k) = object_static k"
  "sems (upd_timer m h k) = sems k" "mutexes (upd_timer m h k) = mutexes k"
  "events (upd_timer m h k) = events k" "mailboxes (upd_timer m h k) = mailboxes k"
  "mqueues (upd_timer m h k) = mqueues k" "halted (upd_timer m h k) = halted k"
  "lists (tlist_remove t k) = (\<lambda>l. removeAll t (lists k l))"
  "threads (tlist_remove t k) = threads k" "ready_group (tlist_remove t k) = ready_group k"
  "current_thread (tlist_remove t k) = current_thread k" "current_prio (tlist_remove t k) = current_prio k"
  "lock_nest (tlist_remove t k) = lock_nest k" "interrupt_nest (tlist_remove t k) = interrupt_nest k"
  "tick (tlist_remove t k) = tick k" "timers (tlist_remove t k) = timers k"
  "timer_list (tlist_remove t k) = timer_list k" "check_list (tlist_remove t k) = check_list k"
  "random_nr (tlist_remove t k) = random_nr k" "objects (tlist_remove t k) = objects k"
  "object_static (tlist_remove t k) = object_static k"
  "sems (tlist_remove t k) = sems k" "mutexes (tlist_remove t k) = mutexes k"
  "events (tlist_remove t k) = events k" "mailboxes (tlist_remove t k) = mailboxes k"
  "mqueues (tlist_remove t k) = mqueues k" "halted (tlist_remove t k) = halted k"
  by (simp_all add: upd_timer_def tlist_remove_def)

section \<open>The state before initialisation\<close>

text \<open>The static variables as the start-up code leaves them: all zero, all lists empty.\<close>

definition zero_thread :: rt_thread where
  "zero_thread = \<lparr>stat = 0, current_priority = 0, init_priority = 0, number_mask = 0, error = 0,
     event_set = 0, event_info = 0, init_tick = 0, remaining_tick = 0, sp = 0, stack_addr = 0,
     stack_size = 0, stack_mark = 0\<rparr>"

definition kernel_bss :: kernel where
  "kernel_bss =
     \<lparr>threads = (\<lambda>_. zero_thread), lists = (\<lambda>_. []), ready_group = 0, current_thread = None,
      current_prio = 0, lock_nest = 0, interrupt_nest = 0, tick = 0,
      timers = (\<lambda>_. \<lparr>timer_flag = 0, timer_init_tick = 0, timeout_tick = 0\<rparr>),
      timer_list = [], check_list = [], random_nr = 0, objects = [], object_static = (\<lambda>_. False),
      sems = (\<lambda>_. \<lparr>sem_value = 0, sem_flag = 0\<rparr>),
      mutexes = (\<lambda>_. \<lparr>mutex_value = 0, original_priority = 0, hold = 0, owner = None, mutex_flag = 0\<rparr>),
      events = (\<lambda>_. \<lparr>event_bits = 0, event_flag = 0\<rparr>),
      mailboxes = (\<lambda>_. \<lparr>msg_pool = [], mb_size = 0, mb_entry = 0, mb_in_offset = 0,
         mb_out_offset = 0, mb_flag = 0\<rparr>),
      mqueues = (\<lambda>_. \<lparr>mq_msg_size = 0, mq_max_msgs = 0, mq_entry = 0, msg_queue_head = None,
         msg_queue_tail = None, msg_queue_free = None, msg_next = (\<lambda>_. None),
         msg_data = (\<lambda>_. []), mq_flag = 0\<rparr>),
      halted = False\<rparr>"

end
