(* ===== verification/Rt_Ffs.thy ===== *)
theory Rt_Ffs
  imports Rt_Def
begin

text \<open>
  \<open>__rt_ffs\<close> of \<^verbatim>\<open>src/kservice.c\<close>: the search for the lowest bit that is set, by a
  table of 256 entries, and its specification.
\<close>

section \<open>Find first set\<close>

definition lowest_bit_bitmap :: "u8 list" where
  "lowest_bit_bitmap =
    [0, 0, 1, 0, 2, 0, 1, 0, 3, 0, 1, 0, 2, 0, 1, 0,
     4, 0, 1, 0, 2, 0, 1, 0, 3, 0, 1, 0, 2, 0, 1, 0,
     5, 0, 1, 0, 2, 0, 1, 0, 3, 0, 1, 0, 2, 0, 1, 0,
     4, 0, 1, 0, 2, 0, 1, 0, 3, 0, 1, 0, 2, 0, 1, 0,
     6, 0, 1, 0, 2, 0, 1, 0, 3, 0, 1, 0, 2, 0, 1, 0,
     4, 0, 1, 0, 2, 0, 1, 0, 3, 0, 1, 0, 2, 0, 1, 0,
     5, 0, 1, 0, 2, 0, 1, 0, 3, 0, 1, 0, 2, 0, 1, 0,
     4, 0, 1, 0, 2, 0, 1, 0, 3, 0, 1, 0, 2, 0, 1, 0,
     7, 0, 1, 0, 2, 0, 1, 0, 3, 0, 1, 0, 2, 0, 1, 0,
     4, 0, 1, 0, 2, 0, 1, 0, 3, 0, 1, 0, 2, 0, 1, 0,
     5, 0, 1, 0, 2, 0, 1, 0, 3, 0, 1, 0, 2, 0, 1, 0,
     4, 0, 1, 0, 2, 0, 1, 0, 3, 0, 1, 0, 2, 0, 1, 0,
     6, 0, 1, 0, 2, 0, 1, 0, 3, 0, 1, 0, 2, 0, 1, 0,
     4, 0, 1, 0, 2, 0, 1, 0, 3, 0, 1, 0, 2, 0, 1, 0,
     5, 0, 1, 0, 2, 0, 1, 0, 3, 0, 1, 0, 2, 0, 1, 0,
     4, 0, 1, 0, 2, 0, 1, 0, 3, 0, 1, 0, 2, 0, 1, 0]"

definition rt_ffs :: "u32 \<Rightarrow> nat" where
  "rt_ffs v =
     (if v = 0 then 0
      else if v AND 0xff \<noteq> 0 then unat (lowest_bit_bitmap ! unat (v AND 0xff)) + 1
      else if v AND 0xff00 \<noteq> 0 then unat (lowest_bit_bitmap ! unat (drop_bit 8 (v AND 0xff00))) + 9
      else if v AND 0xff0000 \<noteq> 0 then unat (lowest_bit_bitmap ! unat (drop_bit 16 (v AND 0xff0000))) + 17
      else unat (lowest_bit_bitmap ! unat (drop_bit 24 (v AND 0xff000000))) + 25)"

text \<open>The table is right: checked entry by entry.\<close>

fun lowest_bit_entries :: "int \<Rightarrow> u8 list \<Rightarrow> bool" where
  "lowest_bit_entries n [] \<longleftrightarrow> True"
| "lowest_bit_entries n (w # ws) \<longleftrightarrow>
     (n = 0 \<or> w < 8 \<and> n mod 2 ^ (unat w + 1) = 2 ^ unat w) \<and> lowest_bit_entries (n + 1) ws"

lemma lowest_bit_table: "lowest_bit_entries 0 lowest_bit_bitmap"
  by (simp add: lowest_bit_bitmap_def)

lemma lowest_bit_entries_nth:
  "lowest_bit_entries n ws \<Longrightarrow> i < length ws \<Longrightarrow> n + int i \<noteq> 0 \<Longrightarrow>
     ws ! i < 8 \<and> (n + int i) mod 2 ^ (unat (ws ! i) + 1) = 2 ^ unat (ws ! i)"
proof (induction ws arbitrary: n i)
  case (Cons w ws)
  then show ?case by (cases i) (fastforce simp: algebra_simps)+
qed simp

lemma length_lowest_bit_bitmap: "length lowest_bit_bitmap = 256"
  by (simp add: lowest_bit_bitmap_def)

lemma lowest_bit_bitmap_spec:
  assumes "0 < n" and "n < 256"
  defines "i \<equiv> unat (lowest_bit_bitmap ! n)"
  shows "bit (int n) i" and "j < i \<Longrightarrow> \<not> bit (int n) j" and "i < 8"
proof -
  have e: "lowest_bit_bitmap ! n < 8" "int n mod 2 ^ (i + 1) = 2 ^ i"
    using lowest_bit_entries_nth[OF lowest_bit_table, of n] assms by (auto simp: length_lowest_bit_bitmap)
  show "i < 8" using e(1) by (simp add: i_def word_less_nat_alt)
  have b: "bit (int n) j \<longleftrightarrow> j = i" if "j \<le> i" for j
  proof -
    have "bit (take_bit (i + 1) (int n)) j \<longleftrightarrow> bit (2 ^ i :: int) j"
      using e(2) by (simp only: take_bit_eq_mod)
    with that show ?thesis by (auto simp: bit_take_bit_iff bit_exp_iff)
  qed
  show "bit (int n) i" "j < i \<Longrightarrow> \<not> bit (int n) j" using b by auto
qed

text \<open>One byte of the word, at bit offset \<open>s\<close>.\<close>

lemma bit_int_unat: "bit (int (unat (w :: 'a::len word))) i \<longleftrightarrow> bit w i"
  by (simp add: bit_simps flip: of_nat_take_bit)

lemma bit_byte: "s \<le> 24 \<Longrightarrow> bit (drop_bit s (v AND push_bit s (mask 8)) :: u32) j \<longleftrightarrow> j < 8 \<and> bit v (s + j)"
  by (auto simp: bit_simps possible_bit_def)

lemma byte_zero:
  assumes "s \<le> 24" and "(v AND push_bit s (mask 8) :: u32) = 0" and "s \<le> j" and "j < s + 8"
  shows "\<not> bit v j"
proof
  assume "bit v j"
  then have "bit (v AND push_bit s (mask 8)) j"
    unfolding bit_and_iff bit_push_bit_iff bit_mask_iff possible_bit_def
    using assms(1,3,4) bit_imp_le_length[of v j] by auto
  with assms(2) show False by simp
qed

lemma lowest_in_byte:
  assumes s: "s \<le> 24" and nz: "(v AND push_bit s (mask 8) :: u32) \<noteq> 0"
    and i: "i = unat (lowest_bit_bitmap ! unat (drop_bit s (v AND push_bit s (mask 8))))"
  shows "bit v (s + i)" and "\<And>j. s \<le> j \<Longrightarrow> j < s + i \<Longrightarrow> \<not> bit v j" and "i < 8"
proof -
  let ?b = "drop_bit s (v AND push_bit s (mask 8))"
  have "?b = take_bit 8 ?b"
    by (rule bit_word_eqI) (unfold bit_take_bit_iff bit_byte[OF s], auto)
  then have "unat ?b = take_bit 8 (unat ?b)" by (metis unsigned_take_bit_eq)
  then have lt: "unat ?b < 256" using take_bit_nat_less_exp[of 8 "unat ?b"] by simp
  obtain j where j: "bit (v AND push_bit s (mask 8)) j" using nz by (auto simp: bit_eq_iff)
  then have "s \<le> j" "j < s + 8" "bit v j" by (auto simp: bit_simps)
  then have "bit ?b (j - s)" unfolding bit_byte[OF s] by simp
  then have "?b \<noteq> 0" by auto
  then have pos: "0 < unat ?b" by (simp add: unat_gt_0)
  note spec = lowest_bit_bitmap_spec[OF pos lt, folded i, unfolded bit_int_unat bit_byte[OF s]]
  show "bit v (s + i)" "i < 8" using spec by auto
  show "\<not> bit v j" if "s \<le> j" "j < s + i" for j
    using spec(2)[of "j - s"] spec(3) that by auto
qed

text \<open>\<open>rt_ffs\<close> is one more than the index of the lowest bit that is set.\<close>

lemma rt_ffs_cases:
  assumes "v \<noteq> 0"
  obtains s where "s \<in> {0, 8, 16, 24}" and "v AND push_bit s (mask 8) \<noteq> 0"
    and "\<And>j. j < s \<Longrightarrow> \<not> bit v j"
    and "rt_ffs v = unat (lowest_bit_bitmap ! unat (drop_bit s (v AND push_bit s (mask 8)))) + (s + 1)"
proof -
  have masks: "push_bit 0 (mask 8) = (0xff :: u32)" "push_bit 8 (mask 8) = (0xff00 :: u32)"
    "push_bit 16 (mask 8) = (0xff0000 :: u32)" "push_bit 24 (mask 8) = (0xff000000 :: u32)"
    by (simp_all add: mask_eq_exp_minus_1)
  note z = byte_zero[of 0 v, unfolded masks] byte_zero[of 8 v, unfolded masks]
    byte_zero[of 16 v, unfolded masks] byte_zero[of 24 v, unfolded masks]
  consider "v AND 0xff \<noteq> 0" | "v AND 0xff = 0" "v AND 0xff00 \<noteq> 0"
    | "v AND 0xff = 0" "v AND 0xff00 = 0" "v AND 0xff0000 \<noteq> 0"
    | "v AND 0xff = 0" "v AND 0xff00 = 0" "v AND 0xff0000 = 0" by blast
  then show thesis
  proof cases
    case 1
    with assms show thesis by (intro that[of 0]) (auto simp: rt_ffs_def mask_eq_exp_minus_1)
  next
    case 2
    with assms z show thesis by (intro that[of 8]) (auto simp: rt_ffs_def masks)
  next
    case 3
    have "\<not> bit v j" if "j < 16" for j using 3 z that by (cases "j < 8") auto
    with 3 assms show thesis by (intro that[of 16]) (auto simp: rt_ffs_def masks)
  next
    case 4
    have low: "\<not> bit v j" if "j < 24" for j
      using 4 z that by (cases "j < 8"; cases "j < 16") auto
    have "v AND 0xff000000 \<noteq> 0"
    proof
      assume "v AND 0xff000000 = 0"
      then have high: "\<not> bit v j" if "24 \<le> j" for j
        using z(4) that bit_imp_le_length[of v j] by auto
      have "v = 0" by (rule bit_word_eqI) (use low high in \<open>auto simp: not_le[symmetric]\<close>)
      with assms show False by simp
    qed
    with 4 assms low show thesis by (intro that[of 24]) (auto simp: rt_ffs_def masks)
  qed
qed

lemma rt_ffs_lowest:
  assumes "v \<noteq> 0"
  shows "0 < rt_ffs v" and "rt_ffs v \<le> 32" and "bit v (rt_ffs v - 1)"
    and "\<And>j. j < rt_ffs v - 1 \<Longrightarrow> \<not> bit v j"
proof -
  from rt_ffs_cases[OF assms] obtain s where s: "s \<in> {0, 8, 16, 24}" and nz: "v AND push_bit s (mask 8) \<noteq> 0"
    and low: "\<And>j. j < s \<Longrightarrow> \<not> bit v j"
    and ffs: "rt_ffs v = unat (lowest_bit_bitmap ! unat (drop_bit s (v AND push_bit s (mask 8)))) + (s + 1)"
    by metis
  have "s \<le> 24" using s by auto
  note byte = lowest_in_byte[OF this nz refl]
  show "0 < rt_ffs v" "rt_ffs v \<le> 32" using ffs byte(3) \<open>s \<le> 24\<close> by auto
  show "bit v (rt_ffs v - 1)" using ffs byte(1) by (simp add: add.commute)
  show "\<not> bit v j" if "j < rt_ffs v - 1" for j
    using ffs byte(2)[of j] low[of j] that by (cases "j < s") auto
qed

end
