(* ===== verification/Scheduler.thy ===== *)
theory Scheduler
  imports Rt_Ffs
begin

text \<open>
  The scheduler \<^verbatim>\<open>src/scheduler.c\<close>: a ready list for each priority and a bitmap of the priorities
  whose list is not empty. \<open>ready_inv\<close> is the consistency of lists, bitmap and thread
  states; under it, the scheduler runs the first thread of the most urgent ready priority.
\<close>

section \<open>Operations\<close>

text \<open>
  The index \<open>__rt_ffs(rt_thread_ready_priority_group) - 1\<close> is a list only when some
  priority is ready; the idle thread sees to that in a running system.
\<close>

definition highest_ready_priority :: "kernel \<Rightarrow> nat option" where
  "highest_ready_priority k = (if ready_group k = 0 then None else Some (rt_ffs (ready_group k) - 1))"

definition rt_system_scheduler_init :: "kernel \<Rightarrow> kernel" where
  "rt_system_scheduler_init k =
     k\<lparr>lock_nest := 0,
       lists := (\<lambda>l. case l of Ready p \<Rightarrow> if p < RT_THREAD_PRIORITY_MAX then [] else lists k l
                            | Defunct \<Rightarrow> [] | _ \<Rightarrow> lists k l),
       current_prio := of_nat (RT_THREAD_PRIORITY_MAX - 1), current_thread := None, ready_group := 0\<rparr>"

text \<open>The overflow report loops with interrupts off; the warnings below it only print.\<close>

definition rt_scheduler_stack_check :: "tid \<Rightarrow> kernel \<Rightarrow> kernel" where
  "rt_scheduler_stack_check t k =
     (let th = threads k t in
      if stack_mark th \<noteq> 0x23 \<or> sp th \<le> stack_addr th \<or> sp th > stack_addr th + stack_size th
      then k\<lparr>halted := True\<rparr> else k)"

definition rt_system_scheduler_start :: "kernel \<Rightarrow> kernel" where
  "rt_system_scheduler_start k =
     (case highest_ready_priority k of
        None \<Rightarrow> k\<lparr>halted := True\<rparr>
      | Some p \<Rightarrow>
          (case lists k (Ready p) of
             [] \<Rightarrow> k\<lparr>halted := True\<rparr>
           | to_thread # _ \<Rightarrow> k\<lparr>current_thread := Some to_thread\<rparr>))"

definition rt_schedule :: "kernel \<Rightarrow> kernel" where
  "rt_schedule k =
     (if lock_nest k = 0 then
        (case highest_ready_priority k of
           None \<Rightarrow> k\<lparr>halted := True\<rparr>
         | Some p \<Rightarrow>
             (case lists k (Ready p) of
                [] \<Rightarrow> k\<lparr>halted := True\<rparr>
              | to_thread # _ \<Rightarrow>
                  if Some to_thread \<noteq> current_thread k then
                    rt_scheduler_stack_check to_thread
                      (k\<lparr>current_prio := of_nat p, current_thread := Some to_thread\<rparr>)
                  else k))
      else k)"

definition rt_schedule_insert_thread :: "tid \<Rightarrow> kernel \<Rightarrow> kernel" where
  "rt_schedule_insert_thread t k =
     (let k = upd_thread t (set_stat RT_THREAD_READY) k;
          k = upd_list (Ready (unat (current_priority (threads k t)))) (\<lambda>xs. xs @ [t]) k
      in k\<lparr>ready_group := ready_group k OR number_mask (threads k t)\<rparr>)"

definition rt_schedule_remove_thread :: "tid \<Rightarrow> kernel \<Rightarrow> kernel" where
  "rt_schedule_remove_thread t k =
     (let k = tlist_remove t k in
      if lists k (Ready (unat (current_priority (threads k t)))) = []
      then k\<lparr>ready_group := ready_group k AND NOT (number_mask (threads k t))\<rparr> else k)"

definition rt_enter_critical :: "kernel \<Rightarrow> kernel" where
  "rt_enter_critical k = k\<lparr>lock_nest := lock_nest k + 1\<rparr>"

definition rt_exit_critical :: "kernel \<Rightarrow> kernel" where
  "rt_exit_critical k =
     (let k = k\<lparr>lock_nest := lock_nest k - 1\<rparr> in
      if sint (lock_nest k) \<le> 0 then
        (let k = k\<lparr>lock_nest := 0\<rparr> in
         if current_thread k \<noteq> None then rt_schedule k else k)
      else k)"

definition rt_critical_level :: "kernel \<Rightarrow> u16" where
  "rt_critical_level k = lock_nest k"

section \<open>The invariant of the ready lists\<close>

definition wf_prio :: "rt_thread \<Rightarrow> bool" where
  "wf_prio th \<longleftrightarrow> unat (current_priority th) < RT_THREAD_PRIORITY_MAX \<and>
     number_mask th = push_bit (unat (current_priority th)) 1"

text \<open>
  Threads of \<open>S\<close> are between two lists: they are in no ready list whatever their
  state says. Every other thread is in the ready list of its priority exactly when it is
  ready.
\<close>

definition ready_inv_except :: "tid set \<Rightarrow> kernel \<Rightarrow> bool" where
  "ready_inv_except S k \<longleftrightarrow>
     (\<forall>p. distinct (lists k (Ready p))) \<and>
     (\<forall>p. \<forall>t \<in> set (lists k (Ready p)). t \<notin> S \<and> stat_of (threads k t) = RT_THREAD_READY \<and>
        wf_prio (threads k t) \<and> unat (current_priority (threads k t)) = p) \<and>
     (\<forall>t. t \<notin> S \<and> stat_of (threads k t) = RT_THREAD_READY \<longrightarrow>
        t \<in> set (lists k (Ready (unat (current_priority (threads k t)))))) \<and>
     (\<forall>p < RT_THREAD_PRIORITY_MAX. bit (ready_group k) p \<longleftrightarrow> lists k (Ready p) \<noteq> [])"

abbreviation ready_inv :: "kernel \<Rightarrow> bool" where
  "ready_inv \<equiv> ready_inv_except {}"

lemma ready_invD:
  assumes "ready_inv_except S k"
  shows "distinct (lists k (Ready p))"
    and "t \<in> set (lists k (Ready p)) \<Longrightarrow> t \<notin> S \<and> stat_of (threads k t) = RT_THREAD_READY \<and>
        wf_prio (threads k t) \<and> unat (current_priority (threads k t)) = p"
    and "t \<notin> S \<Longrightarrow> stat_of (threads k t) = RT_THREAD_READY \<Longrightarrow>
        t \<in> set (lists k (Ready (unat (current_priority (threads k t)))))"
    and "p < RT_THREAD_PRIORITY_MAX \<Longrightarrow> bit (ready_group k) p \<longleftrightarrow> lists k (Ready p) \<noteq> []"
  using assms unfolding ready_inv_except_def by blast+

lemma ready_inv_cong:
  assumes "ready_inv_except S k" and "\<And>p. lists k' (Ready p) = lists k (Ready p)"
    and "\<And>t. stat_of (threads k' t) = stat_of (threads k t)"
    and "\<And>t. current_priority (threads k' t) = current_priority (threads k t)"
    and "\<And>t. number_mask (threads k' t) = number_mask (threads k t)"
    and "ready_group k' = ready_group k"
  shows "ready_inv_except S k'"
  using assms by (auto simp: ready_inv_except_def wf_prio_def)

lemma bit_mask_of_prio:
  "wf_prio th \<Longrightarrow> bit (number_mask th) p \<longleftrightarrow> p = unat (current_priority th)"
  unfolding wf_prio_def by (simp only: bit_single_bit) (auto simp: RT_THREAD_PRIORITY_MAX_def)

text \<open>Insertion, removal and the state writes between them.\<close>

lemma ready_invI:
  assumes "\<And>p. distinct (lists k (Ready p))"
    and "\<And>p t. t \<in> set (lists k (Ready p)) \<Longrightarrow> t \<notin> S \<and> stat_of (threads k t) = RT_THREAD_READY \<and>
        wf_prio (threads k t) \<and> unat (current_priority (threads k t)) = p"
    and "\<And>t. t \<notin> S \<Longrightarrow> stat_of (threads k t) = RT_THREAD_READY \<Longrightarrow>
        t \<in> set (lists k (Ready (unat (current_priority (threads k t)))))"
    and "\<And>p. p < RT_THREAD_PRIORITY_MAX \<Longrightarrow> bit (ready_group k) p \<longleftrightarrow> lists k (Ready p) \<noteq> []"
  shows "ready_inv_except S k"
  using assms unfolding ready_inv_except_def by blast

lemma insert_thread_fields:
  "threads (rt_schedule_insert_thread t k) = (threads k)(t := set_stat RT_THREAD_READY (threads k t))"
  "lists (rt_schedule_insert_thread t k) =
     (lists k)(Ready (unat (current_priority (threads k t))) :=
        lists k (Ready (unat (current_priority (threads k t)))) @ [t])"
  "ready_group (rt_schedule_insert_thread t k) = ready_group k OR number_mask (threads k t)"
  by (simp_all add: rt_schedule_insert_thread_def Let_def)

lemma remove_thread_fields:
  "threads (rt_schedule_remove_thread t k) = threads k"
  "lists (rt_schedule_remove_thread t k) = (\<lambda>l. removeAll t (lists k l))"
  "ready_group (rt_schedule_remove_thread t k) =
     (if removeAll t (lists k (Ready (unat (current_priority (threads k t))))) = []
      then ready_group k AND NOT (number_mask (threads k t)) else ready_group k)"
  by (simp_all add: rt_schedule_remove_thread_def Let_def)

text \<open>Insertion, removal and the state writes between them.\<close>

lemma ready_inv_insert:
  assumes inv: "ready_inv_except S k" and "t \<in> S" and wf: "wf_prio (threads k t)"
  shows "ready_inv_except (S - {t}) (rt_schedule_insert_thread t k)"
proof (rule ready_invI)
  let ?p = "unat (current_priority (threads k t))"
  let ?k = "rt_schedule_insert_thread t k"
  have fresh: "t \<notin> set (lists k (Ready p))" for p
    using ready_invD(2)[OF inv] \<open>t \<in> S\<close> by blast
  have wf': "wf_prio (set_stat RT_THREAD_READY (threads k t))" using wf by (simp add: wf_prio_def)
  show "distinct (lists ?k (Ready p))" for p
    using ready_invD(1)[OF inv] fresh by (simp add: insert_thread_fields)
  show "u \<notin> S - {t} \<and> stat_of (threads ?k u) = RT_THREAD_READY \<and> wf_prio (threads ?k u) \<and>
      unat (current_priority (threads ?k u)) = p" if "u \<in> set (lists ?k (Ready p))" for u p
  proof (cases "u = t")
    case True
    with that fresh wf' show ?thesis by (auto simp: insert_thread_fields split: if_splits)
  next
    case False
    with that have "u \<in> set (lists k (Ready p))" by (auto simp: insert_thread_fields split: if_splits)
    from ready_invD(2)[OF inv this] False show ?thesis by (simp add: insert_thread_fields)
  qed
  show "u \<in> set (lists ?k (Ready (unat (current_priority (threads ?k u)))))"
    if "u \<notin> S - {t}" "stat_of (threads ?k u) = RT_THREAD_READY" for u
    using that ready_invD(3)[OF inv, of u] by (cases "u = t") (auto simp: insert_thread_fields)
  show "bit (ready_group ?k) p \<longleftrightarrow> lists ?k (Ready p) \<noteq> []" if "p < RT_THREAD_PRIORITY_MAX" for p
    using ready_invD(4)[OF inv that] bit_mask_of_prio[OF wf, of p]
    by (simp add: insert_thread_fields bit_or_iff)
qed

lemma ready_inv_remove:
  assumes inv: "ready_inv_except S k" and wf: "number_mask (threads k t) = 0 \<or> wf_prio (threads k t)"
  shows "ready_inv_except (insert t S) (rt_schedule_remove_thread t k)"
proof (rule ready_invI)
  let ?p = "unat (current_priority (threads k t))"
  let ?k = "rt_schedule_remove_thread t k"
  have home: "p = ?p \<and> wf_prio (threads k t)" if "t \<in> set (lists k (Ready p))" for p
    using ready_invD(2)[OF inv that] by simp
  show "distinct (lists ?k (Ready p))" for p
    using ready_invD(1)[OF inv] by (simp add: remove_thread_fields distinct_removeAll)
  show "u \<notin> insert t S \<and> stat_of (threads ?k u) = RT_THREAD_READY \<and> wf_prio (threads ?k u) \<and>
      unat (current_priority (threads ?k u)) = p" if "u \<in> set (lists ?k (Ready p))" for u p
    using that ready_invD(2)[OF inv, of u p] by (auto simp: remove_thread_fields)
  show "u \<in> set (lists ?k (Ready (unat (current_priority (threads ?k u)))))"
    if "u \<notin> insert t S" "stat_of (threads ?k u) = RT_THREAD_READY" for u
    using that ready_invD(3)[OF inv, of u] by (auto simp: remove_thread_fields)
  show "bit (ready_group ?k) p \<longleftrightarrow> lists ?k (Ready p) \<noteq> []" if p: "p < RT_THREAD_PRIORITY_MAX" for p
  proof (cases "p = ?p")
    case True
    have "removeAll t (lists k (Ready p)) = lists k (Ready p)" if "number_mask (threads k t) = 0"
      using that home[of p] wf bit_mask_of_prio[of "threads k t" ?p] by (intro removeAll_id) auto
    moreover have "bit (number_mask (threads k t)) p" if "number_mask (threads k t) \<noteq> 0"
      using that wf True bit_mask_of_prio by auto
    moreover have "p < 32" using p by (simp add: RT_THREAD_PRIORITY_MAX_def)
    moreover have "lists k (Ready p) \<noteq> []" if "removeAll t (lists k (Ready p)) \<noteq> []" using that by auto
    ultimately show ?thesis
      using ready_invD(4)[OF inv p] True
      by (cases "number_mask (threads k t) = 0") (auto simp: remove_thread_fields bit_simps possible_bit_def)
  next
    case False
    then have "removeAll t (lists k (Ready p)) = lists k (Ready p)"
      using home[of p] by (intro removeAll_id) auto
    moreover have "\<not> bit (number_mask (threads k t)) p"
      using wf False bit_mask_of_prio by auto
    moreover have "p < 32" using p by (simp add: RT_THREAD_PRIORITY_MAX_def)
    ultimately show ?thesis
      using ready_invD(4)[OF inv p] by (auto simp: remove_thread_fields bit_simps possible_bit_def)
  qed
qed

text \<open>A thread in no ready list may change its control block freely.\<close>

lemma ready_inv_upd_thread:
  assumes "ready_inv_except S k" and "t \<in> S"
  shows "ready_inv_except S (upd_thread t f k)"
proof (rule ready_invI)
  have ne: "u \<noteq> t" if "u \<in> set (lists k (Ready p))" for u p
    using ready_invD(2)[OF assms(1) that] assms(2) by blast
  show "u \<notin> S \<and> stat_of (threads (upd_thread t f k) u) = RT_THREAD_READY \<and>
      wf_prio (threads (upd_thread t f k) u) \<and> unat (current_priority (threads (upd_thread t f k) u)) = p"
    if "u \<in> set (lists (upd_thread t f k) (Ready p))" for u p
    using that ne[of u p] ready_invD(2)[OF assms(1), of u p] by simp
  show "u \<in> set (lists (upd_thread t f k) (Ready (unat (current_priority (threads (upd_thread t f k) u)))))"
    if "u \<notin> S" "stat_of (threads (upd_thread t f k) u) = RT_THREAD_READY" for u
  proof -
    have "u \<noteq> t" using that assms(2) by blast
    with that ready_invD(3)[OF assms(1), of u] show ?thesis by simp
  qed
qed (use ready_invD(1,4)[OF assms(1)] in auto)

text \<open>It leaves the exception once its state is not ready.\<close>

lemma ready_inv_not_ready:
  "ready_inv_except S k \<Longrightarrow> stat_of (threads k t) \<noteq> RT_THREAD_READY \<Longrightarrow> ready_inv_except (S - {t}) k"
  unfolding ready_inv_except_def by auto

lemma ready_inv_except_add:
  "ready_inv_except S k \<Longrightarrow> stat_of (threads k t) \<noteq> RT_THREAD_READY \<Longrightarrow> ready_inv_except (insert t S) k"
  unfolding ready_inv_except_def by auto

text \<open>Taking a thread that is in no ready list out of its wait list.\<close>

lemma ready_inv_tlist_remove:
  assumes "ready_inv_except S k" and "t \<in> S \<or> stat_of (threads k t) \<noteq> RT_THREAD_READY"
  shows "ready_inv_except S (tlist_remove t k)"
proof -
  have "t \<notin> set (lists k (Ready p))" for p using assms(2) ready_invD(2)[OF assms(1)] by blast
  with assms(1) show ?thesis by (auto intro: ready_inv_cong simp: removeAll_id)
qed

section \<open>What the scheduler runs\<close>

lemma rt_schedule_fields [simp]:
  "threads (rt_schedule k) = threads k" "lists (rt_schedule k) = lists k"
  "ready_group (rt_schedule k) = ready_group k" "lock_nest (rt_schedule k) = lock_nest k"
  "interrupt_nest (rt_schedule k) = interrupt_nest k" "tick (rt_schedule k) = tick k"
  "timers (rt_schedule k) = timers k" "timer_list (rt_schedule k) = timer_list k"
  "check_list (rt_schedule k) = check_list k" "random_nr (rt_schedule k) = random_nr k"
  "objects (rt_schedule k) = objects k" "object_static (rt_schedule k) = object_static k"
  "sems (rt_schedule k) = sems k" "mutexes (rt_schedule k) = mutexes k"
  "events (rt_schedule k) = events k" "mailboxes (rt_schedule k) = mailboxes k"
  "mqueues (rt_schedule k) = mqueues k"
  by (simp_all add: rt_schedule_def rt_scheduler_stack_check_def Let_def split: option.split list.split)

lemma highest_ready_spec:
  assumes inv: "ready_inv k" and u: "stat_of (threads k u) = RT_THREAD_READY"
  obtains p t ts where "highest_ready_priority k = Some p" and "lists k (Ready p) = t # ts"
    and "p < RT_THREAD_PRIORITY_MAX" and "\<And>q. q < p \<Longrightarrow> lists k (Ready q) = []"
proof -
  from ready_invD(3)[OF inv _ u] have mem: "u \<in> set (lists k (Ready (unat (current_priority (threads k u)))))"
    by simp
  let ?q = "unat (current_priority (threads k u))"
  have q: "?q < RT_THREAD_PRIORITY_MAX" using ready_invD(2)[OF inv mem] by (simp add: wf_prio_def)
  with mem ready_invD(4)[OF inv q] have "bit (ready_group k) ?q" by (cases "lists k (Ready ?q)") auto
  then have nz: "ready_group k \<noteq> 0" by auto
  note ffs = rt_ffs_lowest[OF nz]
  let ?p = "rt_ffs (ready_group k) - 1"
  have p: "?p < RT_THREAD_PRIORITY_MAX" using ffs(1,2) by (simp add: RT_THREAD_PRIORITY_MAX_def)
  have "lists k (Ready ?p) \<noteq> []" using ready_invD(4)[OF inv p] ffs(3) by simp
  then obtain t ts where "lists k (Ready ?p) = t # ts" by (cases "lists k (Ready ?p)") auto
  moreover have "lists k (Ready q') = []" if "q' < ?p" for q'
    using ready_invD(4)[OF inv, of q'] ffs(4)[OF that] that p by simp
  ultimately show thesis using nz p by (intro that[of ?p t ts]) (auto simp: highest_ready_priority_def)
qed

text \<open>The thread that should run: ready, most urgent, first of its priority.\<close>

definition most_urgent :: "kernel \<Rightarrow> tid \<Rightarrow> bool" where
  "most_urgent k t \<longleftrightarrow>
     stat_of (threads k t) = RT_THREAD_READY \<and>
     (\<forall>u. stat_of (threads k u) = RT_THREAD_READY \<longrightarrow>
        current_priority (threads k t) \<le> current_priority (threads k u)) \<and>
     hd (lists k (Ready (unat (current_priority (threads k t))))) = t"

lemma highest_ready_most_urgent:
  assumes inv: "ready_inv k" and "highest_ready_priority k = Some p" and l: "lists k (Ready p) = t # ts"
    and low: "\<And>q. q < p \<Longrightarrow> lists k (Ready q) = []"
  shows "most_urgent k t" and "unat (current_priority (threads k t)) = p"
proof -
  have t: "stat_of (threads k t) = RT_THREAD_READY" "unat (current_priority (threads k t)) = p"
    using ready_invD(2)[OF inv, of t p] l by auto
  then show "unat (current_priority (threads k t)) = p" by simp
  have "current_priority (threads k t) \<le> current_priority (threads k u)"
    if "stat_of (threads k u) = RT_THREAD_READY" for u
  proof (rule ccontr)
    assume "\<not> ?thesis"
    then have "unat (current_priority (threads k u)) < p" using t(2) by (simp add: word_le_nat_alt)
    from low[OF this] ready_invD(3)[OF inv _ that] show False by simp
  qed
  with t l show "most_urgent k t" by (auto simp: most_urgent_def)
qed

section \<open>Properties\<close>

text \<open>C12. The scheduler runs the right thread: in a consistent kernel whose scheduler is not
  locked and where some thread is ready, \<open>rt_schedule\<close> leaves as the running thread a
  ready thread of the most urgent priority, the first in line among its equals; it moves no
  thread and changes no thread's state, and it hangs only when that thread's stack has
  overflowed.\<close>

theorem rt_schedule_runs_most_urgent:
  assumes inv: "ready_inv k" and "lock_nest k = 0" and ready: "stat_of (threads k u) = RT_THREAD_READY"
  shows "\<exists>t. current_thread (rt_schedule k) = Some t \<and> most_urgent k t \<and>
      threads (rt_schedule k) = threads k \<and> lists (rt_schedule k) = lists k \<and>
      (halted (rt_schedule k) \<longrightarrow> halted k \<or> halted (rt_scheduler_stack_check t k))"
proof -
  obtain p t ts where p: "highest_ready_priority k = Some p" "lists k (Ready p) = t # ts"
    "\<And>q. q < p \<Longrightarrow> lists k (Ready q) = []"
    using highest_ready_spec[OF inv ready] by metis
  have "most_urgent k t" using highest_ready_most_urgent[OF inv p] by simp
  with p(1,2) assms(2) show ?thesis
    by (intro exI[of _ t]) (auto simp: rt_schedule_def rt_scheduler_stack_check_def Let_def)
qed

theorem rt_schedule_runs_most_urgent_witness:
  "\<exists>k t. current_thread (rt_schedule k) = Some t \<and> most_urgent k t \<and>
      threads (rt_schedule k) = threads k \<and> lists (rt_schedule k) = lists k \<and>
      (halted (rt_schedule k) \<longrightarrow> halted k \<or> halted (rt_scheduler_stack_check t k))"
proof -
  let ?k0 = "upd_thread 3 (\<lambda>th. th\<lparr>current_priority := 31, number_mask := push_bit 31 1\<rparr>) kernel_bss"
  have "ready_inv_except ({3} - {3}) (rt_schedule_insert_thread 3 ?k0)"
    by (rule ready_inv_insert, rule ready_invI)
      (auto simp: kernel_bss_def zero_thread_def wf_prio_def RT_THREAD_PRIORITY_MAX_def stat_of_def rt_stats)
  moreover have "stat_of (threads (rt_schedule_insert_thread 3 ?k0) 3) = RT_THREAD_READY"
    by (simp add: insert_thread_fields)
  moreover have "lock_nest (rt_schedule_insert_thread 3 ?k0) = 0"
    by (simp add: rt_schedule_insert_thread_def Let_def kernel_bss_def)
  ultimately show ?thesis
    using rt_schedule_runs_most_urgent[of "rt_schedule_insert_thread 3 ?k0" 3] by auto
qed

end
