(* ===== verification/Rt_Timer.thy ===== *)
theory Rt_Timer
  imports Scheduler
begin

text \<open>
  The timers of \<^verbatim>\<open>src/timer.c\<close> and the tick counter of \<^verbatim>\<open>src/clock.c\<close>,
  with the object registry of \<^verbatim>\<open>src/object.c\<close> that they are entered in. Ticks wrap
  at 32 bits; the timer list is ordered by the distance of the expiry from a base tick, as long
  as the distances stay below half the range. \<open>rt_timer_check\<close>, which calls the timeout
  functions, is in \<open>Timer_Check\<close>.
\<close>

section \<open>Objects\<close>

text \<open>
  The object lists of all classes as one list, newest first, whose elements carry their class.
  Only the search for the container and the entry matter here; names are not modelled.
\<close>

definition rt_object_init :: "object_id \<Rightarrow> kernel \<Rightarrow> kernel" where
  "rt_object_init ob k =
     (let k = rt_exit_critical (rt_enter_critical k)
      in k\<lparr>object_static := (object_static k)(ob := True), objects := ob # objects k\<rparr>)"

definition rt_object_detach :: "object_id \<Rightarrow> kernel \<Rightarrow> kernel" where
  "rt_object_detach ob k =
     k\<lparr>object_static := (object_static k)(ob := False), objects := removeAll ob (objects k)\<rparr>"

text \<open>
  \<open>rt_object_allocate\<close> and \<open>rt_object_delete\<close> without the memory block itself,
  whose address is the number in \<open>ob\<close>; the allocator is in \<open>Mem\<close>.
\<close>

definition rt_object_allocate :: "object_id \<Rightarrow> kernel \<Rightarrow> kernel" where
  "rt_object_allocate ob k =
     k\<lparr>object_static := (object_static k)(ob := False), objects := ob # objects k\<rparr>"

definition rt_object_delete :: "object_id \<Rightarrow> kernel \<Rightarrow> kernel" where
  "rt_object_delete ob k =
     k\<lparr>object_static := (object_static k)(ob := False), objects := removeAll ob (objects k)\<rparr>"

definition rt_object_is_systemobject :: "object_id \<Rightarrow> kernel \<Rightarrow> bool" where
  "rt_object_is_systemobject ob k = object_static k ob"

section \<open>Ticks\<close>

definition rt_tick_get :: "kernel \<Rightarrow> u32" where
  "rt_tick_get k = tick k"

definition rt_tick_set :: "u32 \<Rightarrow> kernel \<Rightarrow> kernel" where
  "rt_tick_set t k = k\<lparr>tick := t\<rparr>"

text \<open>Arithmetic on a non-negative \<open>int\<close> is done here on its unsigned value.\<close>

definition rt_tick_from_millisecond :: "u32 \<Rightarrow> u32" where
  "rt_tick_from_millisecond ms =
     (if sint ms < 0 then RT_WAITING_FOREVER
      else RT_TICK_PER_SECOND * (ms div 1000) +
           (RT_TICK_PER_SECOND * (ms mod 1000) + 999) div 1000)"

section \<open>Timers\<close>

text \<open>\<open>rt_list_init\<close> on a node that is still linked would corrupt the list.\<close>

definition rt_timer_init_fields :: "timer_id \<Rightarrow> u32 \<Rightarrow> u8 \<Rightarrow> kernel \<Rightarrow> kernel" where
  "rt_timer_init_fields m time flag k =
     (let k = upd_timer m (\<lambda>tm. \<lparr>timer_flag = flag AND NOT RT_TIMER_FLAG_ACTIVATED,
                                timer_init_tick = time, timeout_tick = 0\<rparr>) k
      in if m \<in> set (timer_list k) \<or> m \<in> set (check_list k) then k\<lparr>halted := True\<rparr> else k)"

definition rt_timer_init :: "timer_id \<Rightarrow> u32 \<Rightarrow> u8 \<Rightarrow> kernel \<Rightarrow> kernel" where
  "rt_timer_init m time flag k = rt_timer_init_fields m time flag (rt_object_init (OTimer m) k)"

definition rt_timer_remove :: "timer_id \<Rightarrow> kernel \<Rightarrow> kernel" where
  "rt_timer_remove m k =
     k\<lparr>timer_list := removeAll m (timer_list k), check_list := removeAll m (check_list k)\<rparr>"

definition timer_list_next_timeout :: "kernel \<Rightarrow> u32" where
  "timer_list_next_timeout k =
     (case timer_list k of [] \<Rightarrow> RT_TICK_MAX | m # _ \<Rightarrow> timeout_tick (timers k m))"

definition rt_timer_next_timeout_tick :: "kernel \<Rightarrow> u32" where
  "rt_timer_next_timeout_tick k = timer_list_next_timeout k"

definition rt_timer_deactivate :: "timer_id \<Rightarrow> kernel \<Rightarrow> kernel" where
  "rt_timer_deactivate m k =
     upd_timer m (\<lambda>tm. tm\<lparr>timer_flag := timer_flag tm AND NOT RT_TIMER_FLAG_ACTIVATED\<rparr>) k"

definition rt_timer_detach :: "timer_id \<Rightarrow> kernel \<Rightarrow> int \<times> kernel" where
  "rt_timer_detach m k =
     (RT_EOK, rt_object_detach (OTimer m) (rt_timer_deactivate m (rt_timer_remove m k)))"

text \<open>The result of the allocation, an address or null, is an argument.\<close>

definition rt_timer_create :: "nat option \<Rightarrow> u32 \<Rightarrow> u8 \<Rightarrow> kernel \<Rightarrow> nat option \<times> kernel" where
  "rt_timer_create mem time flag k =
     (case mem of
        None \<Rightarrow> (None, k)
      | Some n \<Rightarrow> (Some n, rt_timer_init_fields (UserTimer n) time flag (rt_object_allocate (OTimer (UserTimer n)) k)))"

definition rt_timer_delete :: "timer_id \<Rightarrow> kernel \<Rightarrow> int \<times> kernel" where
  "rt_timer_delete m k =
     (RT_EOK, rt_object_delete (OTimer m) (rt_timer_deactivate m (rt_timer_remove m k)))"

text \<open>
  The walk of \<open>rt_timer_start\<close> over the list: behind every timer that expires earlier or
  at the same tick, before the first that expires later.
\<close>

fun timer_insert :: "(timer_id \<Rightarrow> u32) \<Rightarrow> timer_id \<Rightarrow> timer_id list \<Rightarrow> timer_id list" where
  "timer_insert to m [] = [m]"
| "timer_insert to m (x # xs) =
     (if to x - to m = 0 then x # timer_insert to m xs
      else if to x - to m < RT_TICK_MAX div 2 then m # x # xs
      else x # timer_insert to m xs)"

definition rt_timer_start :: "timer_id \<Rightarrow> kernel \<Rightarrow> int \<times> kernel" where
  "rt_timer_start m k =
     (let k = rt_timer_deactivate m (rt_timer_remove m k);
          k = upd_timer m (\<lambda>tm. tm\<lparr>timeout_tick := rt_tick_get k + timer_init_tick tm\<rparr>) k;
          k = k\<lparr>timer_list := timer_insert (\<lambda>x. timeout_tick (timers k x)) m (timer_list k),
                random_nr := random_nr k + 1\<rparr>;
          k = upd_timer m (\<lambda>tm. tm\<lparr>timer_flag := timer_flag tm OR RT_TIMER_FLAG_ACTIVATED\<rparr>) k
      in (RT_EOK, k))"

definition rt_timer_stop :: "timer_id \<Rightarrow> kernel \<Rightarrow> int \<times> kernel" where
  "rt_timer_stop m k =
     (if timer_flag (timers k m) AND RT_TIMER_FLAG_ACTIVATED = 0 then (- RT_ERROR, k)
      else (RT_EOK, rt_timer_deactivate m (rt_timer_remove m k)))"

text \<open>\<open>rt_timer_control\<close>: the argument cell is passed and returned.\<close>

definition rt_timer_control :: "timer_id \<Rightarrow> int \<Rightarrow> u32 \<Rightarrow> kernel \<Rightarrow> int \<times> u32 \<times> kernel" where
  "rt_timer_control m cmd arg k =
     (if cmd = 0x1 then (RT_EOK, timer_init_tick (timers k m), k)
      else if cmd = 0x0 then (RT_EOK, arg, upd_timer m (\<lambda>tm. tm\<lparr>timer_init_tick := arg\<rparr>) k)
      else if cmd = 0x2 then
        (RT_EOK, arg, upd_timer m (\<lambda>tm. tm\<lparr>timer_flag := timer_flag tm AND NOT RT_TIMER_FLAG_PERIODIC\<rparr>) k)
      else if cmd = 0x3 then
        (RT_EOK, arg, upd_timer m (\<lambda>tm. tm\<lparr>timer_flag := timer_flag tm OR RT_TIMER_FLAG_PERIODIC\<rparr>) k)
      else if cmd = 0x4 then
        (RT_EOK, if timer_flag (timers k m) AND RT_TIMER_FLAG_ACTIVATED \<noteq> 0 then 1 else 0, k)
      else (RT_EOK, arg, k))"

definition rt_system_timer_init :: "kernel \<Rightarrow> kernel" where
  "rt_system_timer_init k = k\<lparr>timer_list := []\<rparr>"

section \<open>The order of the timer list\<close>

text \<open>
  Relative to a base tick: every timer of the list expires within half the tick range after
  the base, and they are ordered by the distance.
\<close>

definition timers_ordered :: "u32 \<Rightarrow> (timer_id \<Rightarrow> u32) \<Rightarrow> timer_id list \<Rightarrow> bool" where
  "timers_ordered base to ms \<longleftrightarrow>
     (\<forall>m \<in> set ms. to m - base < RT_TICK_MAX div 2) \<and> sorted (map (\<lambda>m. to m - base) ms)"

lemma half_range: "RT_TICK_MAX div 2 = 0x7fffffff"
  by (simp add: RT_TICK_MAX_def)

lemma tick_compare:
  fixes a b :: u32
  assumes "a < 0x7fffffff" and "b < 0x7fffffff"
  shows "a - b < 0x7fffffff \<longleftrightarrow> b \<le> a"
  using assms unfolding word_less_nat_alt word_le_nat_alt
  by (auto simp: unat_sub_if_size word_size)

lemma tick_shift: "(x - base) - (m - base) = x - (m :: u32)"
  by simp

lemma timer_insert_eq:
  assumes "\<forall>x \<in> set (m # ms). to x - base < RT_TICK_MAX div 2"
    and "sorted (map (\<lambda>x. to x - base) ms)"
  shows "timer_insert to m ms =
    takeWhile (\<lambda>x. to x - base \<le> to m - base) ms @ m # dropWhile (\<lambda>x. to x - base \<le> to m - base) ms"
  using assms
proof (induction ms)
  case (Cons x ms)
  have b: "to x - base < 0x7fffffff" "to m - base < 0x7fffffff"
    using Cons.prems(1) by (auto simp: half_range)
  have cmp: "to x - to m < 0x7fffffff \<longleftrightarrow> to m - base \<le> to x - base"
    using tick_compare[OF b] by simp
  have eq: "to x - to m = 0 \<longleftrightarrow> to x - base = to m - base" by auto
  show ?case
  proof (cases "to x - base \<le> to m - base")
    case True
    then have "to x - to m = 0 \<or> \<not> to x - to m < 0x7fffffff" using cmp eq by auto
    with Cons True show ?thesis by (auto simp: half_range)
  next
    case False
    with cmp eq show ?thesis by (auto simp: half_range)
  qed
qed simp

lemma sorted_take_drop_insert:
  "sorted (map f xs) \<Longrightarrow>
     sorted (map f (takeWhile (\<lambda>x. f x \<le> f m) xs @ m # dropWhile (\<lambda>x. f x \<le> f m) xs))"
  for f :: "'a \<Rightarrow> 'b::linorder"
proof (induction xs)
  case (Cons x xs)
  show ?case
  proof (cases "f x \<le> f m")
    case True
    have "\<forall>y \<in> set (takeWhile (\<lambda>x. f x \<le> f m) xs) \<union> set (dropWhile (\<lambda>x. f x \<le> f m) xs). f x \<le> f y"
      using Cons.prems by (auto dest: set_takeWhileD set_dropWhileD)
    with Cons True show ?thesis by auto
  next
    case False
    then have "f m \<le> f x" by simp
    with Cons.prems False show ?thesis by auto
  qed
qed simp

lemma timer_insert_set [simp]: "set (timer_insert to m ms) = insert m (set ms)"
  by (induction ms) auto

lemma timer_insert_cong: "(\<And>x. x \<in> set (m # ms) \<Longrightarrow> to x = to' x) \<Longrightarrow> timer_insert to m ms = timer_insert to' m ms"
  by (induction ms) auto

lemma timer_insert_distinct: "distinct ms \<Longrightarrow> m \<notin> set ms \<Longrightarrow> distinct (timer_insert to m ms)"
  by (induction ms) auto

lemma timers_ordered_insert:
  assumes "timers_ordered base to ms" and "to m - base < RT_TICK_MAX div 2"
  shows "timers_ordered base to (timer_insert to m ms)"
proof -
  have "timer_insert to m ms =
    takeWhile (\<lambda>x. to x - base \<le> to m - base) ms @ m # dropWhile (\<lambda>x. to x - base \<le> to m - base) ms"
    by (rule timer_insert_eq) (use assms in \<open>auto simp: timers_ordered_def\<close>)
  then have "sorted (map (\<lambda>x. to x - base) (timer_insert to m ms))"
    using sorted_take_drop_insert[of "\<lambda>x. to x - base" ms m] assms(1) by (simp add: timers_ordered_def)
  with assms show ?thesis by (auto simp: timers_ordered_def)
qed

lemma sorted_removeAll: "sorted (map f xs) \<Longrightarrow> sorted (map f (removeAll x xs))"
  by (induction xs) auto

lemma timers_ordered_remove: "timers_ordered base to ms \<Longrightarrow> timers_ordered base to (removeAll m ms)"
  by (auto simp: timers_ordered_def sorted_removeAll)

lemma timers_ordered_cong:
  "timers_ordered base to ms \<Longrightarrow> (\<And>m. m \<in> set ms \<Longrightarrow> to' m = to m) \<Longrightarrow> timers_ordered base to' ms"
proof -
  assume a: "timers_ordered base to ms" and same: "\<And>m. m \<in> set ms \<Longrightarrow> to' m = to m"
  have "map (\<lambda>m. to' m - base) ms = map (\<lambda>m. to m - base) ms" by (simp add: same)
  then show ?thesis using a same unfolding timers_ordered_def by (metis)
qed

text \<open>The base can be moved up to any tick that no timer of the list precedes.\<close>

lemma timers_ordered_rebase:
  assumes o: "timers_ordered base to ms" and d: "now - base < RT_TICK_MAX div 2"
    and later: "\<forall>m \<in> set ms. now - base \<le> to m - base"
  shows "timers_ordered now to ms"
proof -
  have nw: "unat (to m - now) = unat (to m - base) - unat (now - base)" if "m \<in> set ms" for m
  proof -
    have "to m - now = (to m - base) - (now - base)" by simp
    with later that show ?thesis by (simp only: unat_sub word_le_nat_alt)
  qed
  have "to m - now < RT_TICK_MAX div 2" if "m \<in> set ms" for m
    using o nw[OF that] that by (fastforce simp: timers_ordered_def word_less_nat_alt)
  moreover have "sorted (map (\<lambda>m. to m - now) ms)"
    unfolding sorted_map
  proof (rule sorted_wrt_mono_rel)
    show "sorted_wrt (\<lambda>x y. to x - base \<le> to y - base) ms"
      using o by (simp add: timers_ordered_def sorted_map)
    show "to x - now \<le> to y - now" if "x \<in> set ms" "y \<in> set ms" "to x - base \<le> to y - base" for x y
      using nw[OF that(1)] nw[OF that(2)] that(3) by (simp add: word_le_nat_alt)
  qed
  ultimately show ?thesis by (simp add: timers_ordered_def)
qed

section \<open>Effects of the timer operations\<close>

lemma timer_op_frame [simp]:
  "threads (rt_timer_remove m k) = threads k" "lists (rt_timer_remove m k) = lists k"
  "ready_group (rt_timer_remove m k) = ready_group k" "timers (rt_timer_remove m k) = timers k"
  "current_thread (rt_timer_remove m k) = current_thread k" "tick (rt_timer_remove m k) = tick k"
  "lock_nest (rt_timer_remove m k) = lock_nest k" "halted (rt_timer_remove m k) = halted k"
  "sems (rt_timer_remove m k) = sems k" "mutexes (rt_timer_remove m k) = mutexes k"
  "events (rt_timer_remove m k) = events k" "mailboxes (rt_timer_remove m k) = mailboxes k"
  "mqueues (rt_timer_remove m k) = mqueues k" "current_prio (rt_timer_remove m k) = current_prio k"
  "interrupt_nest (rt_timer_remove m k) = interrupt_nest k"
  "timer_list (rt_timer_remove m k) = removeAll m (timer_list k)"
  "check_list (rt_timer_remove m k) = removeAll m (check_list k)"
  by (simp_all add: rt_timer_remove_def)

lemma timer_start_frame [simp]:
  "threads (snd (rt_timer_start m k)) = threads k" "lists (snd (rt_timer_start m k)) = lists k"
  "ready_group (snd (rt_timer_start m k)) = ready_group k"
  "current_thread (snd (rt_timer_start m k)) = current_thread k" "tick (snd (rt_timer_start m k)) = tick k"
  "lock_nest (snd (rt_timer_start m k)) = lock_nest k" "halted (snd (rt_timer_start m k)) = halted k"
  "sems (snd (rt_timer_start m k)) = sems k" "mutexes (snd (rt_timer_start m k)) = mutexes k"
  "events (snd (rt_timer_start m k)) = events k" "mailboxes (snd (rt_timer_start m k)) = mailboxes k"
  "mqueues (snd (rt_timer_start m k)) = mqueues k" "current_prio (snd (rt_timer_start m k)) = current_prio k"
  "interrupt_nest (snd (rt_timer_start m k)) = interrupt_nest k"
  "fst (rt_timer_start m k) = RT_EOK"
  by (simp_all add: rt_timer_start_def rt_timer_deactivate_def Let_def)

lemma timer_stop_frame [simp]:
  "threads (snd (rt_timer_stop m k)) = threads k" "lists (snd (rt_timer_stop m k)) = lists k"
  "ready_group (snd (rt_timer_stop m k)) = ready_group k"
  "current_thread (snd (rt_timer_stop m k)) = current_thread k" "tick (snd (rt_timer_stop m k)) = tick k"
  "lock_nest (snd (rt_timer_stop m k)) = lock_nest k" "halted (snd (rt_timer_stop m k)) = halted k"
  "sems (snd (rt_timer_stop m k)) = sems k" "mutexes (snd (rt_timer_stop m k)) = mutexes k"
  "events (snd (rt_timer_stop m k)) = events k" "mailboxes (snd (rt_timer_stop m k)) = mailboxes k"
  "mqueues (snd (rt_timer_stop m k)) = mqueues k" "current_prio (snd (rt_timer_stop m k)) = current_prio k"
  "interrupt_nest (snd (rt_timer_stop m k)) = interrupt_nest k"
  by (simp_all add: rt_timer_stop_def rt_timer_deactivate_def)

definition active :: "kernel \<Rightarrow> timer_id \<Rightarrow> bool" where
  "active k m \<longleftrightarrow> bit (timer_flag (timers k m)) 0"

lemma flag_active_iff: "timer_flag (timers k m) AND RT_TIMER_FLAG_ACTIVATED \<noteq> 0 \<longleftrightarrow> active k m"
  by (simp add: active_def RT_TIMER_FLAG_ACTIVATED_def and_one_eq even_bit_succ_iff bit_0 odd_iff_mod_2_eq_one)

lemma bit_not_activated: "bit (f AND NOT RT_TIMER_FLAG_ACTIVATED) 0 \<longleftrightarrow> False"
  "bit (f OR RT_TIMER_FLAG_ACTIVATED) 0 \<longleftrightarrow> True"
  by (simp_all add: RT_TIMER_FLAG_ACTIVATED_def bit_and_iff bit_or_iff bit_not_iff)

text \<open>
  The timers linked in the list are the activated ones, each once: the part of the invariant
  that concerns the timer list. While \<open>rt_timer_check\<close> handles a timer, that one is on
  its local list.
\<close>

definition timer_inv :: "kernel \<Rightarrow> bool" where
  "timer_inv k \<longleftrightarrow> distinct (timer_list k) \<and> (\<forall>m. m \<in> set (timer_list k) \<longleftrightarrow> active k m)"

lemma active_deactivate [simp]: "active (rt_timer_deactivate m k) x \<longleftrightarrow> x \<noteq> m \<and> active k x"
  by (auto simp: active_def rt_timer_deactivate_def bit_not_activated)

lemma rt_timer_deactivate_frame [simp]:
  "timer_list (rt_timer_deactivate m k) = timer_list k" "check_list (rt_timer_deactivate m k) = check_list k"
  "threads (rt_timer_deactivate m k) = threads k" "lists (rt_timer_deactivate m k) = lists k"
  "timeout_tick (timers (rt_timer_deactivate m k) x) = timeout_tick (timers k x)"
  "timer_init_tick (timers (rt_timer_deactivate m k) x) = timer_init_tick (timers k x)"
  "tick (rt_timer_deactivate m k) = tick k" "ready_group (rt_timer_deactivate m k) = ready_group k"
  by (simp_all add: rt_timer_deactivate_def)

lemma active_remove [simp]: "active (rt_timer_remove m k) x \<longleftrightarrow> active k x"
  by (simp add: active_def)

lemma rt_timer_stop_state:
  "timer_inv k \<Longrightarrow> timer_list (snd (rt_timer_stop m k)) = removeAll m (timer_list k)"
  "active (snd (rt_timer_stop m k)) x \<longleftrightarrow> x \<noteq> m \<and> active k x"
  "timeout_tick (timers (snd (rt_timer_stop m k)) x) = timeout_tick (timers k x)"
  "timer_init_tick (timers (snd (rt_timer_stop m k)) x) = timer_init_tick (timers k x)"
  using flag_active_iff[of k m]
  by (auto simp: rt_timer_stop_def timer_inv_def removeAll_id)

lemma rt_timer_start_state:
  fixes k m
  defines "k' \<equiv> snd (rt_timer_start m k)" and "to \<equiv> (\<lambda>x. timeout_tick (timers k x))"
  defines "to' \<equiv> to(m := tick k + timer_init_tick (timers k m))"
  shows "timer_list k' = timer_insert to' m (removeAll m (timer_list k))"
    and "active k' x \<longleftrightarrow> x = m \<or> active k x"
    and "timeout_tick (timers k' x) = to' x"
    and "timer_init_tick (timers k' x) = timer_init_tick (timers k x)"
  by (auto simp: k'_def to'_def to_def rt_timer_start_def rt_timer_deactivate_def Let_def rt_tick_get_def
      active_def bit_not_activated intro!: timer_insert_cong)

lemma timer_inv_stop: "timer_inv k \<Longrightarrow> timer_inv (snd (rt_timer_stop m k))"
  by (auto simp: timer_inv_def rt_timer_stop_state distinct_removeAll)

lemma timer_inv_start: "timer_inv k \<Longrightarrow> timer_inv (snd (rt_timer_start m k))"
  by (auto simp: timer_inv_def rt_timer_start_state timer_insert_distinct distinct_removeAll)

lemma timer_inv_cong:
  "timer_inv k \<Longrightarrow> timer_list k' = timer_list k \<Longrightarrow> timers k' = timers k \<Longrightarrow> timer_inv k'"
  by (simp add: timer_inv_def active_def)

section \<open>Properties\<close>

text \<open>C14. The timer list stays ordered, and equal expiries stay in the order of their start:
  starting a timer with a period below half the tick range, while every running timer is within
  half the range of the current tick, puts it behind every timer that expires earlier or at
  the same tick and before every timer that expires later, even when tick values wrap.\<close>

theorem rt_timer_start_ordered:
  assumes o: "timers_ordered (tick k) (\<lambda>x. timeout_tick (timers k x)) (timer_list k)"
    and "timer_init_tick (timers k m) < RT_TICK_MAX div 2"
  shows "let k' = snd (rt_timer_start m k); left = (\<lambda>x. timeout_tick (timers k' x) - tick k);
      rest = removeAll m (timer_list k) in
      timer_list k' = takeWhile (\<lambda>x. left x \<le> timer_init_tick (timers k m)) rest @ m #
        dropWhile (\<lambda>x. left x \<le> timer_init_tick (timers k m)) rest \<and>
      timers_ordered (tick k) (\<lambda>x. timeout_tick (timers k' x)) (timer_list k') \<and> left m = timer_init_tick (timers k m)"
proof -
  let ?k' = "snd (rt_timer_start m k)"
  define to' where "to' = (\<lambda>x. timeout_tick (timers k x))(m := tick k + timer_init_tick (timers k m))"
  let ?rest = "removeAll m (timer_list k)"
  have o': "timers_ordered (tick k) to' ?rest"
    by (rule timers_ordered_cong[OF timers_ordered_remove[OF o]]) (auto simp: to'_def)
  have left: "to' m - tick k = timer_init_tick (timers k m)" by (simp add: to'_def)
  with assms(2) have m: "to' m - tick k < RT_TICK_MAX div 2" by simp
  have to: "(\<lambda>x. timeout_tick (timers ?k' x)) = to'"
    by (rule ext) (simp add: rt_timer_start_state to'_def)
  have lst: "timer_list ?k' = timer_insert to' m ?rest"
    by (simp add: rt_timer_start_state to'_def)
  have "timer_insert to' m ?rest =
    takeWhile (\<lambda>x. to' x - tick k \<le> to' m - tick k) ?rest @ m # dropWhile (\<lambda>x. to' x - tick k \<le> to' m - tick k) ?rest"
    using o' m by (intro timer_insert_eq) (auto simp: timers_ordered_def)
  with timers_ordered_insert[OF o' m] left show ?thesis
    unfolding Let_def lst fun_cong[OF to] to by simp
qed

theorem rt_timer_start_ordered_witness:
  "\<exists>k. timer_init_tick (timers k (UserTimer 1)) = 5 \<and> (let m = UserTimer 1; k' = snd (rt_timer_start m k);
      left = (\<lambda>x. timeout_tick (timers k' x) - tick k); rest = removeAll m (timer_list k) in
      timer_list k' = takeWhile (\<lambda>x. left x \<le> timer_init_tick (timers k m)) rest @ m #
        dropWhile (\<lambda>x. left x \<le> timer_init_tick (timers k m)) rest \<and>
      timers_ordered (tick k) (\<lambda>x. timeout_tick (timers k' x)) (timer_list k') \<and> left m = timer_init_tick (timers k m))"
proof -
  let ?k = "upd_timer (UserTimer 1) (\<lambda>tm. tm\<lparr>timer_init_tick := 5\<rparr>) kernel_bss"
  have "timers_ordered (tick ?k) (\<lambda>x. timeout_tick (timers ?k x)) (timer_list ?k)"
    by (simp add: kernel_bss_def timers_ordered_def)
  moreover have five: "timer_init_tick (timers ?k (UserTimer 1)) = 5" by simp
  then have "timer_init_tick (timers ?k (UserTimer 1)) < RT_TICK_MAX div 2" by (simp add: half_range)
  ultimately show ?thesis
    using rt_timer_start_ordered[of ?k "UserTimer 1"] five unfolding Let_def by blast
qed

end
