(* ===== verification/Rt_Thread.thy ===== *)
theory Rt_Thread
  imports Rt_Timer
begin

text \<open>
  Threads: \<^verbatim>\<open>src/thread.c\<close> and the reaping of defunct threads in
  \<^verbatim>\<open>src/idle.c\<close>. A call that blocks is cut where the thread is switched away: the
  part after the switch is a definition of its own (\<open>_resume\<close>), which runs when the
  scheduler chooses the thread again. No code of the repository sets a cleanup function, so
  \<open>_thread_cleanup_execute\<close> does nothing.
\<close>

section \<open>Creation and end\<close>

text \<open>
  The stack is filled with the mark; \<open>stktop\<close> is what \<open>rt_hw_stack_init\<close> returns. The
  control block handed in is linked in no list, as the documentation of the call requires.
\<close>

definition rt_thread_init_fields :: "tid \<Rightarrow> u32 \<Rightarrow> u32 \<Rightarrow> u32 \<Rightarrow> u8 \<Rightarrow> u32 \<Rightarrow> kernel \<Rightarrow> int \<times> kernel" where
  "rt_thread_init_fields t stktop stack_start stksize prio ticks k =
     (let k = upd_thread t (\<lambda>th. th\<lparr>stack_addr := stack_start, stack_size := stksize, stack_mark := 0x23,
              sp := stktop, init_priority := prio, current_priority := prio, number_mask := 0,
              init_tick := ticks, remaining_tick := ticks, error := RT_EOK, stat := RT_THREAD_INIT\<rparr>) k;
          k = rt_timer_init (ThreadTimer t) 0 RT_TIMER_FLAG_ONE_SHOT k
      in (RT_EOK, k))"

definition rt_thread_init :: "tid \<Rightarrow> u32 \<Rightarrow> u32 \<Rightarrow> u32 \<Rightarrow> u8 \<Rightarrow> u32 \<Rightarrow> kernel \<Rightarrow> int \<times> kernel" where
  "rt_thread_init t stktop stack_start stksize prio ticks k =
     rt_thread_init_fields t stktop stack_start stksize prio ticks (rt_object_init (OThread t) k)"

text \<open>
  \<open>rt_thread_create\<close>: the results of the two allocations, of the control block and of
  the stack, are arguments.
\<close>

definition rt_thread_create :: "tid option \<Rightarrow> u32 option \<Rightarrow> u32 \<Rightarrow> u32 \<Rightarrow> u8 \<Rightarrow> u32 \<Rightarrow> kernel \<Rightarrow> tid option \<times> kernel" where
  "rt_thread_create mem stack_mem stktop stksize prio ticks k =
     (case mem of
        None \<Rightarrow> (None, k)
      | Some t \<Rightarrow>
          (let k = rt_object_allocate (OThread t) k in
           case stack_mem of
             None \<Rightarrow> (None, rt_object_delete (OThread t) k)
           | Some stack_start \<Rightarrow>
               (Some t, snd (rt_thread_init_fields t stktop stack_start stksize prio ticks k))))"

definition rt_thread_self :: "kernel \<Rightarrow> tid option" where
  "rt_thread_self k = current_thread k"

definition rt_thread_resume :: "tid \<Rightarrow> kernel \<Rightarrow> int \<times> kernel" where
  "rt_thread_resume t k =
     (if stat_of (threads k t) \<noteq> RT_THREAD_SUSPEND then (- RT_ERROR, k)
      else
        (let k = tlist_remove t k;
             k = snd (rt_timer_stop (ThreadTimer t) k)
         in (RT_EOK, rt_schedule_insert_thread t k)))"

definition rt_thread_startup :: "tid \<Rightarrow> kernel \<Rightarrow> int \<times> kernel" where
  "rt_thread_startup t k =
     (let k = upd_thread t (\<lambda>th. th\<lparr>current_priority := init_priority th\<rparr>) k;
          k = upd_thread t (\<lambda>th. th\<lparr>number_mask := push_bit (unat (current_priority th)) 1\<rparr>) k;
          k = upd_thread t (\<lambda>th. th\<lparr>stat := RT_THREAD_SUSPEND\<rparr>) k;
          k = snd (rt_thread_resume t k);
          k = (if rt_thread_self k \<noteq> None then rt_schedule k else k)
      in (RT_EOK, k))"

definition rt_thread_exit :: "kernel \<Rightarrow> kernel" where
  "rt_thread_exit k =
     (case current_thread k of
        None \<Rightarrow> k\<lparr>halted := True\<rparr>
      | Some t \<Rightarrow>
          (let k = rt_schedule_remove_thread t k;
               k = upd_thread t (\<lambda>th. th\<lparr>stat := RT_THREAD_CLOSE\<rparr>) k;
               k = snd (rt_timer_detach (ThreadTimer t) k);
               k = (if rt_object_is_systemobject (OThread t) k then rt_object_detach (OThread t) k
                    else upd_list Defunct (\<lambda>xs. t # xs) k)
           in rt_schedule k))"

definition rt_thread_detach :: "tid \<Rightarrow> kernel \<Rightarrow> int \<times> kernel" where
  "rt_thread_detach t k =
     (if stat_of (threads k t) = RT_THREAD_CLOSE then (RT_EOK, k)
      else
        (let k = (if stat_of (threads k t) \<noteq> RT_THREAD_INIT then rt_schedule_remove_thread t k else k);
             k = snd (rt_timer_detach (ThreadTimer t) k);
             k = upd_thread t (\<lambda>th. th\<lparr>stat := RT_THREAD_CLOSE\<rparr>) k;
             k = (if rt_object_is_systemobject (OThread t) k then rt_object_detach (OThread t) k
                  else upd_list Defunct (\<lambda>xs. t # xs) k)
         in (RT_EOK, k)))"

definition rt_thread_delete :: "tid \<Rightarrow> kernel \<Rightarrow> int \<times> kernel" where
  "rt_thread_delete t k =
     (if stat_of (threads k t) = RT_THREAD_CLOSE then (RT_EOK, k)
      else
        (let k = (if stat_of (threads k t) \<noteq> RT_THREAD_INIT then rt_schedule_remove_thread t k else k);
             k = snd (rt_timer_detach (ThreadTimer t) k);
             k = upd_thread t (\<lambda>th. th\<lparr>stat := RT_THREAD_CLOSE\<rparr>) k;
             k = upd_list Defunct (\<lambda>xs. t # xs) k
         in (RT_EOK, k)))"

section \<open>Yielding, suspension and sleep\<close>

text \<open>
  \<open>thread->tlist.next != thread->tlist.prev\<close> holds when the ring of the list has at
  least three nodes, the head and two threads; a ready thread is in the list of its priority.
\<close>

definition rt_thread_yield :: "kernel \<Rightarrow> int \<times> kernel" where
  "rt_thread_yield k =
     (case current_thread k of
        None \<Rightarrow> (RT_EOK, k\<lparr>halted := True\<rparr>)
      | Some t \<Rightarrow>
          if stat_of (threads k t) = RT_THREAD_READY \<and>
             t \<in> set (lists k (Ready (unat (current_priority (threads k t))))) \<and>
             length (lists k (Ready (unat (current_priority (threads k t))))) > 1
          then (let k = tlist_remove t k;
                    k = upd_list (Ready (unat (current_priority (threads k t)))) (\<lambda>xs. xs @ [t]) k
                in (RT_EOK, rt_schedule k))
          else (RT_EOK, k))"

definition rt_thread_suspend :: "tid \<Rightarrow> kernel \<Rightarrow> int \<times> kernel" where
  "rt_thread_suspend t k =
     (if stat_of (threads k t) \<noteq> RT_THREAD_READY then (- RT_ERROR, k)
      else
        (let k = rt_schedule_remove_thread t k;
             k = upd_thread t (set_stat RT_THREAD_SUSPEND) k
         in (RT_EOK, snd (rt_timer_stop (ThreadTimer t) k))))"

text \<open>Suspend the running thread and start its timer: shared by the blocking calls.\<close>

definition start_thread_timer :: "tid \<Rightarrow> u32 \<Rightarrow> kernel \<Rightarrow> kernel" where
  "start_thread_timer t ticks k =
     (let (_, _, k) = rt_timer_control (ThreadTimer t) 0x0 ticks k
      in snd (rt_timer_start (ThreadTimer t) k))"

definition rt_thread_sleep :: "u32 \<Rightarrow> kernel \<Rightarrow> kernel" where
  "rt_thread_sleep ticks k =
     (case current_thread k of
        None \<Rightarrow> k\<lparr>halted := True\<rparr>
      | Some t \<Rightarrow> rt_schedule (start_thread_timer t ticks (snd (rt_thread_suspend t k))))"

definition rt_thread_sleep_resume :: "tid \<Rightarrow> kernel \<Rightarrow> int \<times> kernel" where
  "rt_thread_sleep_resume t k =
     (RT_EOK, if error (threads k t) = - RT_ETIMEOUT then upd_thread t (\<lambda>th. th\<lparr>error := RT_EOK\<rparr>) k else k)"

definition rt_thread_delay :: "u32 \<Rightarrow> kernel \<Rightarrow> kernel" where
  "rt_thread_delay ticks k = rt_thread_sleep ticks k"

definition rt_thread_mdelay :: "u32 \<Rightarrow> kernel \<Rightarrow> kernel" where
  "rt_thread_mdelay ms k = rt_thread_sleep (rt_tick_from_millisecond ms) k"

text \<open>
  \<open>rt_thread_delay_until\<close> up to the switch: the new value of the caller's tick cell,
  and whether the thread has been put to sleep.
\<close>

definition rt_thread_delay_until :: "u32 \<Rightarrow> u32 \<Rightarrow> kernel \<Rightarrow> bool \<times> u32 \<times> kernel" where
  "rt_thread_delay_until cell inc_tick k =
     (case current_thread k of
        None \<Rightarrow> (False, cell, k\<lparr>halted := True\<rparr>)
      | Some t \<Rightarrow>
          if rt_tick_get k - cell < inc_tick then
            (let left = cell + inc_tick - rt_tick_get k
             in (True, left, rt_schedule (start_thread_timer t left (snd (rt_thread_suspend t k)))))
          else (False, rt_tick_get k, k))"

definition rt_thread_delay_until_resume :: "tid \<Rightarrow> kernel \<Rightarrow> u32 \<times> kernel" where
  "rt_thread_delay_until_resume t k =
     (let k = snd (rt_thread_sleep_resume t k) in (rt_tick_get k, k))"

definition change_priority :: "tid \<Rightarrow> u8 \<Rightarrow> kernel \<Rightarrow> kernel" where
  "change_priority t prio k =
     (let set_prio = upd_thread t (\<lambda>th. th\<lparr>current_priority := prio, number_mask := push_bit (unat prio) 1\<rparr>)
      in if stat_of (threads k t) = RT_THREAD_READY
         then rt_schedule_insert_thread t (set_prio (rt_schedule_remove_thread t k))
         else set_prio k)"

definition rt_thread_control :: "tid \<Rightarrow> int \<Rightarrow> u8 \<Rightarrow> kernel \<Rightarrow> int \<times> kernel" where
  "rt_thread_control t cmd arg k =
     (if cmd = 0x02 then (RT_EOK, change_priority t arg k)
      else if cmd = 0x00 then rt_thread_startup t k
      else if cmd = 0x01 then
        (if rt_object_is_systemobject (OThread t) k then rt_thread_detach t k else rt_thread_delete t k)
      else (RT_EOK, k))"

definition rt_thread_timeout :: "tid \<Rightarrow> kernel \<Rightarrow> kernel" where
  "rt_thread_timeout t k =
     (let k = upd_thread t (\<lambda>th. th\<lparr>error := - RT_ETIMEOUT\<rparr>) k;
          k = tlist_remove t k
      in rt_schedule (rt_schedule_insert_thread t k))"

section \<open>Reaping\<close>

text \<open>
  The loop of the idle thread over the defunct list, newest first: the freed stacks and
  control blocks are collected.
\<close>

fun reap :: "tid list \<Rightarrow> kernel \<Rightarrow> (u32 \<times> tid) list \<Rightarrow> (u32 \<times> tid) list \<times> kernel" where
  "reap [] k freed = (freed, k)"
| "reap (t # ts) k freed =
     reap ts (rt_object_delete (OThread t) (tlist_remove t k)) (freed @ [(stack_addr (threads k t), t)])"

definition rt_thread_idle_excute :: "kernel \<Rightarrow> (u32 \<times> tid) list \<times> kernel" where
  "rt_thread_idle_excute k = reap (lists k Defunct) k []"

definition rt_thread_idle_init :: "tid \<Rightarrow> u32 \<Rightarrow> u32 \<Rightarrow> u32 \<Rightarrow> kernel \<Rightarrow> kernel" where
  "rt_thread_idle_init idle stktop stack_start stksize k =
     snd (rt_thread_startup idle
       (snd (rt_thread_init idle stktop stack_start stksize (of_nat (RT_THREAD_PRIORITY_MAX - 1)) 32 k)))"

end
