(* ===== verification/Monitor_Bus.thy ===== *)
theory Monitor_Bus
  imports Mmio Monitor_Bus_If Rt_Thread
begin

text \<open>
  \<^verbatim>\<open>sw/app/driver/monitor_bus.c\<close>: the bus functions of the drivers on the I2C, UART, SPI
  and GPIO controllers of the SoC, over any device behaviour. The properties read off the log of
  register writes what went out: \<open>spi_wire\<close> follows the documented registers of the SPI
  controller (clear, length in bits, data words, start), and the I2C transfer is the sequence of
  its transmit and command writes. \<open>ydrasil_bus_delay_ms\<close> is \<open>rt_thread_mdelay\<close> of
  \<open>Rt_Thread\<close>, \<open>ydrasil_bus_millis\<close> reads the kernel tick.
\<close>

section \<open>Registers\<close>

definition GPIO_DIRECTION :: u32 where [code_unfold]: "GPIO_DIRECTION = YDRASIL_GPIO_BASE + 0x00"
definition GPIO_OUTPUT :: u32 where [code_unfold]: "GPIO_OUTPUT = YDRASIL_GPIO_BASE + 0x08"

definition SPI_STATUS :: u32 where [code_unfold]: "SPI_STATUS = YDRASIL_SPI0_BASE + 0x00"
definition SPI_CLKDIV :: u32 where [code_unfold]: "SPI_CLKDIV = YDRASIL_SPI0_BASE + 0x04"
definition SPI_COMMAND :: u32 where [code_unfold]: "SPI_COMMAND = YDRASIL_SPI0_BASE + 0x08"
definition SPI_ADDRESS :: u32 where [code_unfold]: "SPI_ADDRESS = YDRASIL_SPI0_BASE + 0x0c"
definition SPI_LENGTH :: u32 where [code_unfold]: "SPI_LENGTH = YDRASIL_SPI0_BASE + 0x10"
definition SPI_DUMMY :: u32 where [code_unfold]: "SPI_DUMMY = YDRASIL_SPI0_BASE + 0x14"
definition SPI_TXFIFO :: u32 where [code_unfold]: "SPI_TXFIFO = YDRASIL_SPI0_BASE + 0x18"

lemmas spi_regs = SPI_STATUS_def SPI_CLKDIV_def SPI_COMMAND_def SPI_ADDRESS_def SPI_LENGTH_def SPI_DUMMY_def
  SPI_TXFIFO_def YDRASIL_SPI0_BASE_def

definition SPI_STATUS_READY :: u32 where [code_unfold]: "SPI_STATUS_READY = 1"
definition SPI_STATUS_START_WRITE :: u32 where [code_unfold]: "SPI_STATUS_START_WRITE = 2"
definition SPI_STATUS_CLEAR_FIFO :: u32 where [code_unfold]: "SPI_STATUS_CLEAR_FIFO = 16"
definition SPI_FIFO_BYTES :: nat where [code_unfold]: "SPI_FIFO_BYTES = 4"
definition SPI_SAFE_CLKDIV :: u32 where [code_unfold]: "SPI_SAFE_CLKDIV = 24"
definition BUS_TIMEOUT_LOOPS :: nat where [code_unfold]: "BUS_TIMEOUT_LOOPS = 20000"

definition I2C_PRESCALE :: u32 where [code_unfold]: "I2C_PRESCALE = YDRASIL_I2C0_BASE + 0x00"
definition I2C_CONTROL :: u32 where [code_unfold]: "I2C_CONTROL = YDRASIL_I2C0_BASE + 0x04"
definition I2C_RECEIVE :: u32 where [code_unfold]: "I2C_RECEIVE = YDRASIL_I2C0_BASE + 0x08"
definition I2C_STATUS :: u32 where [code_unfold]: "I2C_STATUS = YDRASIL_I2C0_BASE + 0x0c"
definition I2C_TRANSMIT :: u32 where [code_unfold]: "I2C_TRANSMIT = YDRASIL_I2C0_BASE + 0x10"
definition I2C_COMMAND :: u32 where [code_unfold]: "I2C_COMMAND = YDRASIL_I2C0_BASE + 0x14"

lemmas i2c_regs = I2C_PRESCALE_def I2C_CONTROL_def I2C_RECEIVE_def I2C_STATUS_def I2C_TRANSMIT_def
  I2C_COMMAND_def YDRASIL_I2C0_BASE_def

definition I2C_STATUS_NACK :: u32 where [code_unfold]: "I2C_STATUS_NACK = 128"
definition I2C_STATUS_BUSY :: u32 where [code_unfold]: "I2C_STATUS_BUSY = 64"
definition I2C_STATUS_TIP :: u32 where [code_unfold]: "I2C_STATUS_TIP = 2"
definition I2C_CMD_START :: u32 where [code_unfold]: "I2C_CMD_START = 128"
definition I2C_CMD_STOP :: u32 where [code_unfold]: "I2C_CMD_STOP = 64"
definition I2C_CMD_READ :: u32 where [code_unfold]: "I2C_CMD_READ = 32"
definition I2C_CMD_WRITE :: u32 where [code_unfold]: "I2C_CMD_WRITE = 16"
definition I2C_CMD_NACK :: u32 where [code_unfold]: "I2C_CMD_NACK = 8"
definition I2C_CMD_ACK_IRQ :: u32 where [code_unfold]: "I2C_CMD_ACK_IRQ = 1"

lemmas i2c_cmds = I2C_CMD_START_def I2C_CMD_STOP_def I2C_CMD_READ_def I2C_CMD_WRITE_def I2C_CMD_NACK_def
  I2C_CMD_ACK_IRQ_def

section \<open>I2C\<close>

definition i2c_wait_complete :: "'d mmio \<Rightarrow> 'd \<Rightarrow> int \<times> 'd" where
  "i2c_wait_complete io d =
     (let (timeout, d) = poll io I2C_STATUS (\<lambda>v. v AND I2C_STATUS_TIP \<noteq> 0) BUS_TIMEOUT_LOOPS d
      in if timeout = 0 then (YDRASIL_DRIVER_ETIMEOUT, d)
         else (YDRASIL_DRIVER_OK, mm_write io I2C_COMMAND I2C_CMD_ACK_IRQ d))"

definition i2c_write_byte :: "'d mmio \<Rightarrow> u8 \<Rightarrow> u32 \<Rightarrow> 'd \<Rightarrow> int \<times> 'd" where
  "i2c_write_byte io byte command d =
     (let d = mm_write io I2C_TRANSMIT (ucast byte) d;
          d = mm_write io I2C_COMMAND command d;
          (result, d) = i2c_wait_complete io d
      in if result \<noteq> YDRASIL_DRIVER_OK then (result, d)
         else
           let (v, d) = mm_read io I2C_STATUS d
           in (if v AND I2C_STATUS_NACK \<noteq> 0 then YDRASIL_DRIVER_EIO else YDRASIL_DRIVER_OK, d))"

text \<open>The byte is what \<open>*value\<close> gets.\<close>

definition i2c_read_byte :: "'d mmio \<Rightarrow> u32 \<Rightarrow> 'd \<Rightarrow> int \<times> u8 option \<times> 'd" where
  "i2c_read_byte io command d =
     (let d = mm_write io I2C_COMMAND command d;
          (result, d) = i2c_wait_complete io d
      in if result = YDRASIL_DRIVER_OK
         then (let (v, d) = mm_read io I2C_RECEIVE d in (result, Some (ucast v), d))
         else (result, None, d))"

definition i2c_stop_after_error :: "'d mmio \<Rightarrow> 'd \<Rightarrow> int \<times> 'd" where
  "i2c_stop_after_error io d =
     (let (v, d) = mm_read io I2C_STATUS d in
      if v AND (I2C_STATUS_BUSY OR I2C_STATUS_TIP) \<noteq> I2C_STATUS_BUSY then (YDRASIL_DRIVER_OK, d)
      else
        (let d = mm_write io I2C_TRANSMIT 0xff d;
             d = mm_write io I2C_COMMAND (I2C_CMD_WRITE OR I2C_CMD_STOP) d;
             (result, d) = i2c_wait_complete io d
         in if result \<noteq> YDRASIL_DRIVER_OK then (YDRASIL_DRIVER_ETIMEOUT, d)
            else
              (let (v, d) = mm_read io I2C_STATUS d
               in if v AND (I2C_STATUS_BUSY OR I2C_STATUS_TIP) \<noteq> 0 then (YDRASIL_DRIVER_ETIMEOUT, d)
                  else (YDRASIL_DRIVER_OK, mm_write io I2C_CONTROL 0 d))))"

text \<open>The loop over the bytes still to read; the bytes stored so far are collected.\<close>

fun i2c_read_bytes :: "'d mmio \<Rightarrow> nat \<Rightarrow> u8 list \<Rightarrow> 'd \<Rightarrow> int \<times> u8 list \<times> 'd" where
  "i2c_read_bytes io 0 data d = (YDRASIL_DRIVER_OK, data, d)"
| "i2c_read_bytes io (Suc n) data d =
     (let command = (if n = 0 then I2C_CMD_READ OR (I2C_CMD_STOP OR I2C_CMD_NACK) else I2C_CMD_READ)
      in case i2c_read_byte io command d of
           (result, Some byte, d) \<Rightarrow>
             if result = YDRASIL_DRIVER_OK then i2c_read_bytes io n (data @ [byte]) d else (result, data @ [byte], d)
         | (result, None, d) \<Rightarrow>
             if result = YDRASIL_DRIVER_OK then i2c_read_bytes io n data d else (result, data, d))"

definition ydrasil_bus_i2c_read_register :: "'d mmio \<Rightarrow> u8 \<Rightarrow> u8 \<Rightarrow> nat \<Rightarrow> 'd \<Rightarrow> int \<times> u8 list \<times> 'd" where
  "ydrasil_bus_i2c_read_register io address reg n d =
     (if address > 0x7f \<or> n = 0 then (YDRASIL_DRIVER_EINVAL, [], d)
      else
        (let d = mm_write io I2C_PRESCALE (YDRASIL_APB_FREQ_HZ div (5 * 100000) - 1) d;
             d = mm_write io I2C_CONTROL (push_bit 7 1) d;
             (result, d) = i2c_write_byte io (push_bit 1 address) (I2C_CMD_START OR I2C_CMD_WRITE) d;
             (result, d) = (if result = YDRASIL_DRIVER_OK then i2c_write_byte io reg I2C_CMD_WRITE d else (result, d));
             (result, d) = (if result = YDRASIL_DRIVER_OK
                then i2c_write_byte io (push_bit 1 address OR 1) (I2C_CMD_START OR I2C_CMD_WRITE) d else (result, d));
             (result, data, d) = (if result = YDRASIL_DRIVER_OK then i2c_read_bytes io n [] d else (result, [], d))
         in if result \<noteq> YDRASIL_DRIVER_OK then
              (let (recovery_result, d) = i2c_stop_after_error io d;
                   d = mm_write io I2C_CONTROL 0 d
               in (if recovery_result \<noteq> YDRASIL_DRIVER_OK then recovery_result else result, data, d))
            else (result, data, d)))"

section \<open>UART 1\<close>

text \<open>
  The loop that empties the receiver ends when the device has no more data: fuel. The caller's
  baud rate is not zero (a division by zero is undefined in C).
\<close>

fun uart1_drain :: "nat \<Rightarrow> 'd mmio \<Rightarrow> 'd \<Rightarrow> 'd exec" where
  "uart1_drain 0 io d = Out_Of_Fuel"
| "uart1_drain (Suc fuel) io d =
     (let (v, d) = mm_read io (YDRASIL_UART1_BASE + lsr) d
      in if v AND UART_LSR_DATA_READY \<noteq> 0 then uart1_drain fuel io (snd (mm_read io (YDRASIL_UART1_BASE + rbr_thr_dll) d))
         else Done d)"

definition ydrasil_bus_uart1_reset :: "nat \<Rightarrow> 'd mmio \<Rightarrow> u32 \<Rightarrow> 'd \<Rightarrow> 'd exec" where
  "ydrasil_bus_uart1_reset fuel io baudrate d =
     (if baudrate = 0 then Fault
      else
        (let divisor = (YDRASIL_APB_FREQ_HZ + baudrate div 2) div baudrate;
             d = mm_write io (YDRASIL_UART1_BASE + ier_dlm) 0 d;
             d = mm_write io (YDRASIL_UART1_BASE + lcr) 0x80 d;
             d = mm_write io (YDRASIL_UART1_BASE + rbr_thr_dll) (divisor AND 0xff) d;
             d = mm_write io (YDRASIL_UART1_BASE + ier_dlm) (drop_bit 8 divisor AND 0xff) d;
             d = mm_write io (YDRASIL_UART1_BASE + lcr) 0x03 d;
             d = mm_write io (YDRASIL_UART1_BASE + iir_fcr) 0x06 d
         in uart1_drain fuel io d))"

definition ydrasil_bus_uart1_getc :: "'d mmio \<Rightarrow> 'd \<Rightarrow> int \<times> u8 option \<times> 'd" where
  "ydrasil_bus_uart1_getc io d =
     (let (v, d) = mm_read io (YDRASIL_UART1_BASE + lsr) d
      in if v AND UART_LSR_DATA_READY = 0 then (YDRASIL_DRIVER_EEMPTY, None, d)
         else (let (x, d) = mm_read io (YDRASIL_UART1_BASE + rbr_thr_dll) d in (YDRASIL_DRIVER_OK, Some (ucast x), d)))"

section \<open>GPIO\<close>

definition ydrasil_bus_gpio_write :: "'d mmio \<Rightarrow> u32 \<Rightarrow> int \<Rightarrow> 'd \<Rightarrow> 'd" where
  "ydrasil_bus_gpio_write io pin high d =
     (if pin \<ge> 32 then d
      else
        (let mask = push_bit (unat pin) 1;
             d = mm_modify io GPIO_OUTPUT (\<lambda>out. if high \<noteq> 0 then out OR mask else out AND NOT mask) d
         in mm_modify io GPIO_DIRECTION (\<lambda>dir. dir OR mask) d))"

section \<open>SPI\<close>

definition spi_wait_idle :: "'d mmio \<Rightarrow> 'd \<Rightarrow> int \<times> 'd" where
  "spi_wait_idle io d =
     (let (timeout, d) = poll io SPI_STATUS (\<lambda>v. v AND SPI_STATUS_READY = 0) BUS_TIMEOUT_LOOPS d
      in (if timeout = 0 then YDRASIL_DRIVER_ETIMEOUT else YDRASIL_DRIVER_OK, d))"

text \<open>Up to four bytes, the first in the most significant place.\<close>

fun pack_word :: "nat \<Rightarrow> u8 list \<Rightarrow> u32 \<Rightarrow> u32" where
  "pack_word i [] w = w"
| "pack_word i (x # xs) w = (if i < 4 then pack_word (i + 1) xs (w OR push_bit (24 - i * 8) (ucast x)) else w)"

function spi_fill :: "'d mmio \<Rightarrow> u8 list \<Rightarrow> 'd \<Rightarrow> 'd" where
  "spi_fill io data d =
     (if data = [] then d else spi_fill io (drop 4 data) (mm_write io SPI_TXFIFO (pack_word 0 data 0) d))"
  by pat_completeness auto
termination by (relation "measure (\<lambda>(io, data, d). length data)") auto

declare spi_fill.simps [simp del]

definition spi_write_chunk :: "'d mmio \<Rightarrow> u8 list \<Rightarrow> 'd \<Rightarrow> int \<times> 'd" where
  "spi_write_chunk io data d =
     (let (result, d) = spi_wait_idle io d in
      if result \<noteq> YDRASIL_DRIVER_OK then (result, d)
      else
        (let d = mm_write io SPI_STATUS SPI_STATUS_CLEAR_FIFO d;
             d = mm_write io SPI_CLKDIV SPI_SAFE_CLKDIV d;
             d = mm_write io SPI_COMMAND 0 d;
             d = mm_write io SPI_ADDRESS 0 d;
             d = mm_write io SPI_DUMMY 0 d;
             d = mm_write io SPI_LENGTH (push_bit 16 (of_nat (length data * 8))) d;
             d = spi_fill io data d;
             d = mm_write io SPI_STATUS SPI_STATUS_START_WRITE d
         in spi_wait_idle io d))"

function ydrasil_bus_spi0_write :: "'d mmio \<Rightarrow> u8 list \<Rightarrow> 'd \<Rightarrow> int \<times> 'd" where
  "ydrasil_bus_spi0_write io data d =
     (if data = [] then (YDRASIL_DRIVER_OK, d)
      else
        (let (result, d) = spi_write_chunk io (take SPI_FIFO_BYTES data) d
         in if result = YDRASIL_DRIVER_OK then ydrasil_bus_spi0_write io (drop SPI_FIFO_BYTES data) d
            else (result, d)))"
  by pat_completeness auto
termination by (relation "measure (\<lambda>(io, data, d). length data)") (auto simp: SPI_FIFO_BYTES_def)

declare ydrasil_bus_spi0_write.simps [simp del]


section \<open>Time\<close>

definition ydrasil_bus_millis :: "kernel \<Rightarrow> u32" where
  "ydrasil_bus_millis k = ucast (((ucast (rt_tick_get k) :: u64) * 1000) div ucast RT_TICK_PER_SECOND)"

definition ydrasil_bus_delay_ms :: "u32 \<Rightarrow> kernel \<Rightarrow> kernel" where
  "ydrasil_bus_delay_ms milliseconds k = rt_thread_mdelay milliseconds k"

text \<open>With 1000 ticks per second a millisecond is a tick, and the 64-bit product does not wrap.\<close>

lemma millis_is_tick: "ydrasil_bus_millis k = tick k"
proof -
  have lt: "unat (tick k) < 2 ^ 32" using unsigned_less[of "tick k"] by simp
  then have t: "take_bit 64 (unat (tick k)) = unat (tick k)" by (simp add: take_bit_nat_eq_self)
  have "unat (ucast (tick k) * 1000 :: u64) = unat (tick k) * 1000"
    using lt by (simp add: unat_word_ariths unsigned_ucast_eq t)
  then have q: "unat ((ucast (tick k) * 1000 :: u64) div 1000) = unat (tick k)" by (simp add: unat_div)
  show ?thesis
    using lt by (simp add: ydrasil_bus_millis_def rt_tick_get_def RT_TICK_PER_SECOND_def word_unat_eq_iff
        unsigned_ucast_eq q take_bit_nat_eq_self)
qed

section \<open>What the SPI controller is told to send\<close>

text \<open>
  The bytes that go out, from the writes to the controller: a clear empties the data words, a
  length counts bits in its upper half, a data word is queued, and a start sends that many bits
  of the queued words, the most significant byte first.
\<close>

definition word_bytes :: "u32 \<Rightarrow> u8 list" where
  "word_bytes w = [ucast (drop_bit 24 w), ucast (drop_bit 16 w), ucast (drop_bit 8 w), ucast w]"

record spi_state =
  spi_words :: "u32 list"
  spi_length :: u32
  spi_sent :: "u8 list"

definition spi_step :: "u32 \<times> u32 \<Rightarrow> spi_state \<Rightarrow> spi_state" where
  "spi_step = (\<lambda>(a, v) s.
     if a = SPI_STATUS then
       (if v AND SPI_STATUS_CLEAR_FIFO \<noteq> 0 then s\<lparr>spi_words := []\<rparr>
        else if v AND SPI_STATUS_START_WRITE \<noteq> 0
        then s\<lparr>spi_words := [],
               spi_sent := spi_sent s @ take (unat (drop_bit 16 (spi_length s)) div 8) (concat (map word_bytes (spi_words s)))\<rparr>
        else s)
     else if a = SPI_LENGTH then s\<lparr>spi_length := v\<rparr>
     else if a = SPI_TXFIFO then s\<lparr>spi_words := spi_words s @ [v]\<rparr>
     else s)"

definition spi_wire :: "reg_log \<Rightarrow> u8 list" where
  "spi_wire l = spi_sent (fold spi_step l \<lparr>spi_words = [], spi_length = 0, spi_sent = []\<rparr>)"

text \<open>The writes of one chunk.\<close>

definition chunk_log :: "u8 list \<Rightarrow> reg_log" where
  "chunk_log data =
     [(SPI_STATUS, SPI_STATUS_CLEAR_FIFO), (SPI_CLKDIV, SPI_SAFE_CLKDIV), (SPI_COMMAND, 0), (SPI_ADDRESS, 0),
      (SPI_DUMMY, 0), (SPI_LENGTH, push_bit 16 (of_nat (length data * 8))), (SPI_TXFIFO, pack_word 0 data 0),
      (SPI_STATUS, SPI_STATUS_START_WRITE)]"

lemma spi_wait_logged [simp]: "snd (snd (spi_wait_idle (logged io) s)) = snd s"
  by (simp add: spi_wait_idle_def poll_logged split: prod.split) (metis poll_logged snd_conv)

lemma spi_fill_chunk: "data \<noteq> [] \<Longrightarrow> length data \<le> 4 \<Longrightarrow> spi_fill io data d = mm_write io SPI_TXFIFO (pack_word 0 data 0) d"
  by (simp add: spi_fill.simps[of io data] spi_fill.simps[of io "[]"])

lemma spi_chunk_logged:
  assumes "data \<noteq> []" and "length data \<le> 4" and "spi_write_chunk (logged io) data s = (r, s')"
  shows "(r = YDRASIL_DRIVER_OK \<and> snd s' = snd s @ chunk_log data) \<or>
    (r = YDRASIL_DRIVER_ETIMEOUT \<and> (snd s' = snd s \<or> snd s' = snd s @ chunk_log data))"
proof -
  have codes: "r = YDRASIL_DRIVER_OK \<or> r = YDRASIL_DRIVER_ETIMEOUT" if "spi_wait_idle (logged io) s = (r, s')" for r s s'
    using that by (auto simp: spi_wait_idle_def Let_def split: prod.splits if_splits)
  obtain r0 s0 where w: "spi_wait_idle (logged io) s = (r0, s0)" by (cases "spi_wait_idle (logged io) s")
  have s0: "snd s0 = snd s" using spi_wait_logged[of io s] w by simp
  show ?thesis
  proof (cases "r0 = YDRASIL_DRIVER_OK")
    case True
    with w assms obtain s1 where "snd s1 = snd s0 @ chunk_log data" and "spi_wait_idle (logged io) s1 = (r, s')"
      by (auto simp: spi_write_chunk_def Let_def spi_fill_chunk chunk_log_def)
    with codes[of s1 r s'] spi_wait_logged[of io s1] s0 show ?thesis by auto
  next
    case False
    with w assms codes[OF w] s0 show ?thesis by (auto simp: spi_write_chunk_def Let_def)
  qed
qed


lemma word_bytes_or:
  fixes a b c e :: u8
  shows "word_bytes (((push_bit 24 (ucast a) OR push_bit 16 (ucast b)) OR push_bit 8 (ucast c)) OR ucast e) = [a, b, c, e]"
proof -
  have out: "\<not> bit x (8 + n)" "\<not> bit x (16 + n)" "\<not> bit x (24 + n)" for x :: u8 and n
    by (auto dest: bit_imp_le_length)
  let ?w = "((push_bit 24 (ucast a) OR push_bit 16 (ucast b)) OR push_bit 8 (ucast c)) OR ucast e :: u32"
  have "ucast (drop_bit 24 ?w) = a" by (rule bit_word_eqI) (auto simp: bit_simps out)
  moreover have "ucast (drop_bit 16 ?w) = b" by (rule bit_word_eqI) (auto simp: bit_simps out)
  moreover have "ucast (drop_bit 8 ?w) = c" by (rule bit_word_eqI) (auto simp: bit_simps out)
  moreover have "ucast ?w = e" by (rule bit_word_eqI) (auto simp: bit_simps)
  ultimately show ?thesis by (simp add: word_bytes_def)
qed

lemma pack_word_bytes:
  assumes "data \<noteq> []" and "length data \<le> 4"
  shows "take (length data) (word_bytes (pack_word 0 data 0)) = data"
proof -
  consider a where "data = [a]" | a b where "data = [a, b]" | a b c where "data = [a, b, c]"
    | a b c e where "data = [a, b, c, e]"
    using assms by (auto simp: le_Suc_eq numeral_eq_Suc length_Suc_conv)
  then show ?thesis
  proof cases
    case (1 a) then show ?thesis using word_bytes_or[of a 0 0 0] by simp
  next
    case (2 a b) then show ?thesis using word_bytes_or[of a b 0 0] by simp
  next
    case (3 a b c) then show ?thesis using word_bytes_or[of a b c 0] by simp
  next
    case (4 a b c e) then show ?thesis using word_bytes_or[of a b c e] by simp
  qed
qed

lemma spi_step_chunk:
  assumes "data \<noteq> []" and "length data \<le> 4"
  shows "spi_sent (fold spi_step (chunk_log data) s) = spi_sent s @ data"
proof -
  have lt: "length data < 5" using assms(2) by simp
  have "unat (of_nat (length data * 8) :: u32) = length data * 8" using lt by (intro unat_of_nat_small) simp
  moreover have "drop_bit 16 (push_bit 16 (of_nat (length data * 8)) :: u32) = of_nat (length data * 8)"
  proof -
    consider "length data = 1" | "length data = 2" | "length data = 3" | "length data = 4" | "length data = 0"
      using lt by linarith
    then show ?thesis by cases simp_all
  qed
  ultimately show ?thesis
    using pack_word_bytes[OF assms]
    by (simp add: chunk_log_def spi_step_def spi_regs SPI_STATUS_CLEAR_FIFO_def SPI_STATUS_START_WRITE_def)
qed

lemma spi_wire_append:
  assumes "data \<noteq> []" and "length data \<le> 4"
  shows "spi_wire (l @ chunk_log data) = spi_wire l @ data"
  using spi_step_chunk[OF assms] by (simp add: spi_wire_def)

lemma spi0_write_wire:
  assumes "ydrasil_bus_spi0_write (logged io) data s = (r, s')"
  shows "(r = YDRASIL_DRIVER_OK \<and> spi_wire (snd s') = spi_wire (snd s) @ data) \<or>
    (r = YDRASIL_DRIVER_ETIMEOUT \<and> (\<exists>n. spi_wire (snd s') = spi_wire (snd s) @ take (4 * n) data))"
  using assms
proof (induction "length data" arbitrary: data s rule: less_induct)
  case less
  show ?case
  proof (cases "data = []")
    case True
    with less.prems show ?thesis by (simp add: ydrasil_bus_spi0_write.simps)
  next
    case False
    obtain r1 s1 where c: "spi_write_chunk (logged io) (take 4 data) s = (r1, s1)"
      by (cases "spi_write_chunk (logged io) (take 4 data) s")
    have ck: "take 4 data \<noteq> []" "length (take 4 data) \<le> 4" using False by simp_all
    note l = spi_chunk_logged[OF ck c] and w = spi_wire_append[OF ck, of "snd s"]
    show ?thesis
    proof (cases "r1 = YDRASIL_DRIVER_OK")
      case True
      with less.prems False c have rest: "ydrasil_bus_spi0_write (logged io) (drop 4 data) s1 = (r, s')"
        by (simp add: ydrasil_bus_spi0_write.simps[of _ data] SPI_FIFO_BYTES_def)
      have w1: "spi_wire (snd s1) = spi_wire (snd s) @ take 4 data" using l w True by (auto simp: driver_status)
      have n: "take 4 data @ take (4 * n) (drop 4 data) = take (4 * Suc n) data" for n
        by (metis add.commute mult_Suc_right take_add)
      from less.hyps[OF _ rest] False w1 show ?thesis
        by (auto simp: n intro: exI[of _ "Suc _"])
    next
      case False
      with less.prems \<open>data \<noteq> []\<close> c have "r = r1" "s' = s1"
        by (simp_all add: ydrasil_bus_spi0_write.simps[of _ data] SPI_FIFO_BYTES_def)
      with l w False show ?thesis
        by (auto intro: exI[of _ 0] exI[of _ 1])
    qed
  qed
qed


section \<open>What the I2C controller is told to send\<close>

text \<open>The transfer on the bus: commands with the byte they transmit; acknowledging the interrupt is none.\<close>

abbreviation i2c_ack :: reg_log where
  "i2c_ack \<equiv> [(I2C_COMMAND, I2C_CMD_ACK_IRQ)]"

definition i2c_write_log :: "u8 \<Rightarrow> u32 \<Rightarrow> reg_log" where
  "i2c_write_log byte command = [(I2C_TRANSMIT, ucast byte), (I2C_COMMAND, command)]"

fun i2c_reads_log :: "nat \<Rightarrow> reg_log" where
  "i2c_reads_log 0 = []"
| "i2c_reads_log (Suc n) =
     (I2C_COMMAND, if n = 0 then I2C_CMD_READ OR (I2C_CMD_STOP OR I2C_CMD_NACK) else I2C_CMD_READ) # i2c_ack @ i2c_reads_log n"

definition i2c_transfer_log :: "u8 \<Rightarrow> u8 \<Rightarrow> nat \<Rightarrow> reg_log" where
  "i2c_transfer_log address reg n =
     [(I2C_PRESCALE, 99), (I2C_CONTROL, 0x80)] @
     i2c_write_log (push_bit 1 address) (I2C_CMD_START OR I2C_CMD_WRITE) @ i2c_ack @
     i2c_write_log reg I2C_CMD_WRITE @ i2c_ack @
     i2c_write_log (push_bit 1 address OR 1) (I2C_CMD_START OR I2C_CMD_WRITE) @ i2c_ack @ i2c_reads_log n"

lemma i2c_wait_logged:
  assumes "i2c_wait_complete (logged io) s = (r, s')"
  shows "(r = YDRASIL_DRIVER_OK \<and> snd s' = snd s @ i2c_ack) \<or> (r = YDRASIL_DRIVER_ETIMEOUT \<and> snd s' = snd s)"
proof -
  obtain n s1 where p: "poll (logged io) I2C_STATUS (\<lambda>v. v AND I2C_STATUS_TIP \<noteq> 0) BUS_TIMEOUT_LOOPS s = (n, s1)"
    by (cases "poll (logged io) I2C_STATUS (\<lambda>v. v AND I2C_STATUS_TIP \<noteq> 0) BUS_TIMEOUT_LOOPS s")
  then have "snd s1 = snd s" using poll_logged[of io I2C_STATUS "\<lambda>v. v AND I2C_STATUS_TIP \<noteq> 0" BUS_TIMEOUT_LOOPS s] by simp
  with assms p show ?thesis by (auto simp: i2c_wait_complete_def split: if_splits)
qed

lemma i2c_write_logged:
  assumes "i2c_write_byte (logged io) byte command s = (r, s')"
  shows "if r = YDRASIL_DRIVER_OK then snd s' = snd s @ i2c_write_log byte command @ i2c_ack
    else r \<in> {YDRASIL_DRIVER_EIO, YDRASIL_DRIVER_ETIMEOUT} \<and>
      (snd s' = snd s @ i2c_write_log byte command \<or> snd s' = snd s @ i2c_write_log byte command @ i2c_ack)"
proof -
  let ?s = "(mm_write io I2C_COMMAND command (mm_write io I2C_TRANSMIT (ucast byte) (fst s)),
    snd s @ i2c_write_log byte command)"
  obtain r1 s1 where w: "i2c_wait_complete (logged io) ?s = (r1, s1)" by (cases "i2c_wait_complete (logged io) ?s")
  with assms i2c_wait_logged[OF w] show ?thesis
    by (auto simp: i2c_write_byte_def i2c_write_log_def Let_def driver_status split: if_splits)
qed

lemma i2c_read_logged:
  assumes "i2c_read_byte (logged io) command s = (r, v, s')"
  shows "(r = YDRASIL_DRIVER_OK \<and> v \<noteq> None \<and> snd s' = snd s @ (I2C_COMMAND, command) # i2c_ack) \<or>
    (r = YDRASIL_DRIVER_ETIMEOUT \<and> v = None \<and> snd s' = snd s @ [(I2C_COMMAND, command)])"
proof -
  let ?s = "(mm_write io I2C_COMMAND command (fst s), snd s @ [(I2C_COMMAND, command)])"
  obtain r1 s1 where w: "i2c_wait_complete (logged io) ?s = (r1, s1)" by (cases "i2c_wait_complete (logged io) ?s")
  with assms i2c_wait_logged[OF w] show ?thesis
    by (auto simp: i2c_read_byte_def Let_def driver_status split: if_splits)
qed

lemma i2c_reads_logged:
  assumes "i2c_read_bytes (logged io) n data s = (r, data', s')"
  shows "(r = YDRASIL_DRIVER_OK \<and> snd s' = snd s @ i2c_reads_log n \<and> length data' = length data + n) \<or>
    (r = YDRASIL_DRIVER_ETIMEOUT \<and> length data' < length data + n)"
  using assms
proof (induction n arbitrary: data s)
  case (Suc n)
  let ?c = "if n = 0 then I2C_CMD_READ OR (I2C_CMD_STOP OR I2C_CMD_NACK) else I2C_CMD_READ"
  obtain r1 v s1 where b: "i2c_read_byte (logged io) ?c s = (r1, v, s1)" by (cases "i2c_read_byte (logged io) ?c s")
  from i2c_read_logged[OF b] show ?case
  proof (elim disjE conjE)
    assume ok: "r1 = YDRASIL_DRIVER_OK" "v \<noteq> None" "snd s1 = snd s @ (I2C_COMMAND, ?c) # i2c_ack"
    then obtain x where "v = Some x" by auto
    with ok b Suc.prems have "i2c_read_bytes (logged io) n (data @ [x]) s1 = (r, data', s')"
      by (simp add: Let_def)
    from Suc.IH[OF this] ok(3) show ?thesis by auto
  next
    assume "r1 = YDRASIL_DRIVER_ETIMEOUT" "v = None"
    with b Suc.prems show ?thesis by (auto simp: Let_def driver_status)
  qed
qed simp


section \<open>Properties\<close>

text \<open>C8. Whatever the SPI controller answers, a write to it sends the given bytes in order: when
  it reports success, the registers were written so that exactly the data goes out, four bytes
  at a time; when it reports a timeout, a prefix of whole chunks has been sent.\<close>

theorem spi0_write_sends:
  "case ydrasil_bus_spi0_write (logged io) data (d, []) of (r, (d', l)) \<Rightarrow>
     (r = YDRASIL_DRIVER_OK \<and> spi_wire l = data) \<or>
     (r = YDRASIL_DRIVER_ETIMEOUT \<and> (\<exists>n. spi_wire l = take (4 * n) data))"
proof -
  obtain r s where eq: "ydrasil_bus_spi0_write (logged io) data (d, []) = (r, s)"
    by (cases "ydrasil_bus_spi0_write (logged io) data (d, [])")
  have "spi_wire [] = []" by (simp add: spi_wire_def)
  with spi0_write_wire[OF eq] eq show ?thesis by (cases s) simp
qed

lemma i2c_header_logged:
  assumes "i2c_write_byte (logged io) a c1 s = (r1, s1)"
    and "(if r1 = YDRASIL_DRIVER_OK then i2c_write_byte (logged io) b c2 s1 else (r1, s1)) = (r2, s2)"
    and "(if r2 = YDRASIL_DRIVER_OK then i2c_write_byte (logged io) e c3 s2 else (r2, s2)) = (r3, s3)"
  shows "if r3 = YDRASIL_DRIVER_OK
    then snd s3 = snd s @ i2c_write_log a c1 @ i2c_ack @ i2c_write_log b c2 @ i2c_ack @ i2c_write_log e c3 @ i2c_ack
    else r3 \<in> {YDRASIL_DRIVER_EIO, YDRASIL_DRIVER_ETIMEOUT}"
proof (cases "r1 = YDRASIL_DRIVER_OK")
  case True
  note l1 = i2c_write_logged[OF assms(1)] and w2 = assms(2)[simplified True, simplified]
  show ?thesis
  proof (cases "r2 = YDRASIL_DRIVER_OK")
    case True
    note w3 = assms(3)[simplified True, simplified]
    show ?thesis using l1 i2c_write_logged[OF w2] i2c_write_logged[OF w3] True \<open>r1 = YDRASIL_DRIVER_OK\<close>
      by (cases "r3 = YDRASIL_DRIVER_OK") simp_all
  qed (use assms(3) i2c_write_logged[OF w2] in auto)
qed (use assms i2c_write_logged[OF assms(1)] in auto)

text \<open>C9. Whatever the I2C controller answers, a register read asks for the right transfer: on
  success its commands are start and address for writing, the register, start and address for
  reading, and one read per byte of which exactly the last refuses more and stops; as many bytes
  come back as were asked for. After any error the controller has been switched off, and fewer
  bytes have been stored. An address beyond seven bits or an empty read touches nothing.\<close>

theorem i2c_read_register_transfer:
  "case ydrasil_bus_i2c_read_register (logged io) address reg n (d, []) of (r, data, (d', l)) \<Rightarrow>
     (if address > 0x7f \<or> n = 0 then r = YDRASIL_DRIVER_EINVAL \<and> l = [] \<and> d' = d
      else if r = YDRASIL_DRIVER_OK then l = i2c_transfer_log address reg n \<and> length data = n
      else r \<in> {YDRASIL_DRIVER_EIO, YDRASIL_DRIVER_ETIMEOUT} \<and> last l = (I2C_CONTROL, 0) \<and> length data < n)"
proof (cases "address > 0x7f \<or> n = 0")
  case False
  define s0 where "s0 = mm_write (logged io) I2C_CONTROL (push_bit 7 1)
    (mm_write (logged io) I2C_PRESCALE (YDRASIL_APB_FREQ_HZ div (5 * 100000) - 1) (d, []))"
  have l0: "snd s0 = [(I2C_PRESCALE, 99), (I2C_CONTROL, 0x80)]" by (simp add: s0_def YDRASIL_APB_FREQ_HZ_def)
  obtain r1 s1 where w1: "i2c_write_byte (logged io) (push_bit 1 address) (I2C_CMD_START OR I2C_CMD_WRITE) s0 = (r1, s1)"
    by (rule prod.exhaust)
  obtain r2 s2 where w2: "(if r1 = YDRASIL_DRIVER_OK then i2c_write_byte (logged io) reg I2C_CMD_WRITE s1 else (r1, s1)) = (r2, s2)"
    by (rule prod.exhaust)
  obtain r3 s3 where w3: "(if r2 = YDRASIL_DRIVER_OK then i2c_write_byte (logged io) (push_bit 1 address OR 1)
      (I2C_CMD_START OR I2C_CMD_WRITE) s2 else (r2, s2)) = (r3, s3)" by (rule prod.exhaust)
  obtain r4 data s4 where w4: "(if r3 = YDRASIL_DRIVER_OK then i2c_read_bytes (logged io) n [] s3 else (r3, [], s3)) = (r4, data, s4)"
    by (rule prod_cases3)
  obtain rr s5 where w5: "i2c_stop_after_error (logged io) s4 = (rr, s5)" by (rule prod.exhaust)
  have eq: "ydrasil_bus_i2c_read_register (logged io) address reg n (d, []) =
      (if r4 \<noteq> YDRASIL_DRIVER_OK
       then (if rr \<noteq> YDRASIL_DRIVER_OK then rr else r4, data, mm_write (logged io) I2C_CONTROL 0 s5) else (r4, data, s4))"
    using False unfolding ydrasil_bus_i2c_read_register_def Let_def s0_def[symmetric] w1 w2 w3 w4 w5
      prod.case if_False by (simp only: w2 w3 w4 w5 prod.case if_False)
  have rr: "rr = YDRASIL_DRIVER_OK \<or> rr = YDRASIL_DRIVER_ETIMEOUT"
    using w5 by (auto simp: i2c_stop_after_error_def Let_def split: prod.splits if_splits)
  note h = i2c_header_logged[OF w1 w2 w3]
  show ?thesis
  proof (cases "r3 = YDRASIL_DRIVER_OK")
    case True
    then have b: "i2c_read_bytes (logged io) n [] s3 = (r4, data, s4)" using w4 by simp
    show ?thesis
      using i2c_reads_logged[OF b] h True l0 False rr
      by (auto simp: eq i2c_transfer_log_def driver_status split: prod.split)
  next
    case bad: False
    with w4 h False rr show ?thesis by (auto simp: eq driver_status split: prod.split)
  qed
qed (simp add: ydrasil_bus_i2c_read_register_def)

end
