(* ===== verification/Ms601m.thy ===== *)
theory Ms601m
  imports Monitor_Bus_If "HOL-Library.Sublist" "HOL-Library.Signed_Division"
begin

text \<open>
  The attitude sensor driver \<^verbatim>\<open>sw/app/driver/atk_ms601m.c\<close>: the frame parser, one step
  per received byte, and the polling loop around it. The lemmas show that the parser never
  writes outside its buffer, returns exactly on well-formed attitude frames, and that the
  loop returns.
\<close>

section \<open>The parser\<close>

definition MS601M_BAUD :: u32 where [code_unfold]: "MS601M_BAUD = 115200"
definition MS601M_FRAME_DATA_MAX :: nat where [code_unfold]: "MS601M_FRAME_DATA_MAX = 28"
definition MS601M_ATTITUDE_ID :: u8 where [code_unfold]: "MS601M_ATTITUDE_ID = 0x01"

lemmas ms601m_consts = MS601M_FRAME_DATA_MAX_def MS601M_ATTITUDE_ID_def

datatype parser_state =
    WAIT_HEAD_LOW | WAIT_HEAD_HIGH | WAIT_ID | WAIT_LENGTH | WAIT_DATA | WAIT_CHECKSUM

record ms601m_attitude =
  roll_tenth_degree :: int
  pitch_tenth_degree :: int
  yaw_tenth_degree :: int

text \<open>The local variables of the polling loop.\<close>

record ms601m_parser =
  pstate :: parser_state
  frame_id :: u8
  frame_length :: u8
  frame_data :: "u8 list"
  data_index :: u8
  checksum :: u8

text \<open>
  \<open>int16_t\<close> and \<open>int32_t\<close> values are integers; the arithmetic below stays in
  the range of the type (\<open>attitude_tenth_degrees_no_overflow\<close>).
\<close>

definition read_le_i16 :: "u8 \<Rightarrow> u8 \<Rightarrow> int" where
  "read_le_i16 data0 data1 = sint (push_bit 8 (ucast data1) OR ucast data0 :: u16)"

definition attitude_tenth_degrees :: "int \<Rightarrow> int" where
  "attitude_tenth_degrees raw = (raw * 1800) sdiv 32768"

definition parser_restart :: "u8 \<Rightarrow> u8 \<Rightarrow> parser_state \<times> u8" where
  "parser_restart byte csum =
     (if byte = 0x55 then (WAIT_HEAD_HIGH, byte) else (WAIT_HEAD_LOW, csum))"

definition restart :: "u8 \<Rightarrow> ms601m_parser \<Rightarrow> ms601m_parser" where
  "restart byte p =
     (let (st, csum) = parser_restart byte (checksum p) in p\<lparr>pstate := st, checksum := csum\<rparr>)"

definition read_attitude_data :: "u8 list \<Rightarrow> ms601m_attitude exec" where
  "read_attitude_data d =
     (if 6 \<le> length d then
        Done \<lparr>roll_tenth_degree = attitude_tenth_degrees (read_le_i16 (d ! 0) (d ! 1)),
              pitch_tenth_degree = attitude_tenth_degrees (read_le_i16 (d ! 2) (d ! 3)),
              yaw_tenth_degree = attitude_tenth_degrees (read_le_i16 (d ! 4) (d ! 5))\<rparr>
      else Fault)"

text \<open>The switch statement: \<open>Inl\<close> goes on, \<open>Inr\<close> returns the attitude.\<close>

definition ms601m_byte :: "u8 \<Rightarrow> ms601m_parser \<Rightarrow> (ms601m_parser + ms601m_attitude) exec" where
  "ms601m_byte byte p =
     (case pstate p of
        WAIT_HEAD_LOW \<Rightarrow>
          Done (Inl (if byte = 0x55 then p\<lparr>checksum := byte, pstate := WAIT_HEAD_HIGH\<rparr> else p))
      | WAIT_HEAD_HIGH \<Rightarrow>
          Done (Inl (if byte = 0x55 then p\<lparr>checksum := checksum p + byte, pstate := WAIT_ID\<rparr>
                     else restart byte p))
      | WAIT_ID \<Rightarrow>
          Done (Inl (p\<lparr>frame_id := byte, checksum := checksum p + byte, pstate := WAIT_LENGTH\<rparr>))
      | WAIT_LENGTH \<Rightarrow>
          (if unat byte > MS601M_FRAME_DATA_MAX then Done (Inl (restart byte p))
           else Done (Inl (p\<lparr>frame_length := byte, data_index := 0, checksum := checksum p + byte,
                             pstate := (if byte = 0 then WAIT_CHECKSUM else WAIT_DATA)\<rparr>)))
      | WAIT_DATA \<Rightarrow>
          exec_bind (store_at (unat (data_index p)) byte (frame_data p)) (\<lambda>d.
            let idx = data_index p + 1 in
            Done (Inl (p\<lparr>frame_data := d, data_index := idx, checksum := checksum p + byte,
                         pstate := (if idx = frame_length p then WAIT_CHECKSUM else WAIT_DATA)\<rparr>)))
      | WAIT_CHECKSUM \<Rightarrow>
          (if byte = checksum p \<and> frame_id p = MS601M_ATTITUDE_ID \<and> frame_length p \<ge> 6
           then exec_bind (read_attitude_data (frame_data p)) (\<lambda>a. Done (Inr a))
           else Done (Inl (restart byte p))))"

text \<open>
  The array of the frame is not initialised; \<open>junk\<close> stands for whatever the stack held.
\<close>

definition ms601m_parser_init :: "u8 list \<Rightarrow> ms601m_parser" where
  "ms601m_parser_init junk =
     \<lparr>pstate = WAIT_HEAD_LOW, frame_id = 0, frame_length = 0, frame_data = junk,
      data_index = 0, checksum = 0\<rparr>"

section \<open>The polling loop\<close>

fun ms601m_loop :: "nat \<Rightarrow> 'b monitor_bus \<Rightarrow> u32 \<Rightarrow> u32 \<Rightarrow> ms601m_attitude \<Rightarrow> ms601m_parser \<Rightarrow> 'b
    \<Rightarrow> (int \<times> ms601m_attitude \<times> 'b) exec" where
  "ms601m_loop 0 bus start timeout att p b = Out_Of_Fuel"
| "ms601m_loop (Suc fuel) bus start timeout att p b =
     (let (now, b1) = bus_millis bus b in
      if now - start < timeout then
        (case bus_uart1_getc bus b1 of
           (status, byte, b2) \<Rightarrow>
             if status \<noteq> YDRASIL_DRIVER_OK then
               ms601m_loop fuel bus start timeout att p (bus_delay_ms bus 1 b2)
             else
               (case byte of
                  None \<Rightarrow> Fault
                | Some c \<Rightarrow>
                    exec_bind (ms601m_byte c p) (\<lambda>r.
                      case r of
                        Inr a \<Rightarrow> Done (YDRASIL_DRIVER_OK, a, b2)
                      | Inl p' \<Rightarrow> ms601m_loop fuel bus start timeout att p' b2)))
      else Done (YDRASIL_DRIVER_ETIMEOUT, att, b1))"

definition ms601m_read_attitude :: "nat \<Rightarrow> 'b monitor_bus \<Rightarrow> u8 list \<Rightarrow> ms601m_attitude option \<Rightarrow> u32 \<Rightarrow> 'b
    \<Rightarrow> (int \<times> ms601m_attitude option \<times> 'b) exec" where
  "ms601m_read_attitude fuel bus junk attitude timeout_ms b =
     (case attitude of
        None \<Rightarrow> Done (YDRASIL_DRIVER_EINVAL, None, b)
      | Some att \<Rightarrow>
          if timeout_ms = 0 then Done (YDRASIL_DRIVER_EINVAL, Some att, b)
          else
            (let b1 = bus_uart1_reset bus MS601M_BAUD b;
                 (start, b2) = bus_millis bus b1
             in exec_bind (ms601m_loop fuel bus start timeout_ms att (ms601m_parser_init junk) b2)
                  (\<lambda>(r, a, b'). Done (r, Some a, b'))))"

section \<open>Arithmetic of the conversion\<close>

lemma read_le_i16_bounds: "- 32768 \<le> read_le_i16 a b" "read_le_i16 a b < 32768"
  using sint_range_size[of "push_bit 8 (ucast b) OR ucast a :: u16"]
  by (auto simp: read_le_i16_def word_size)

lemma attitude_tenth_degrees_no_overflow:
  "- (2 ^ 31) \<le> read_le_i16 a b * 1800 \<and> read_le_i16 a b * 1800 < 2 ^ 31"
  using read_le_i16_bounds[of a b] by simp

lemma attitude_tenth_degrees_bounds:
  assumes "- 32768 \<le> r" and "r < 32768"
  shows "- 1800 \<le> attitude_tenth_degrees r \<and> attitude_tenth_degrees r \<le> 1799"
proof (cases "0 \<le> r")
  case True
  then have "attitude_tenth_degrees r = r * 1800 div 32768"
    by (auto simp: attitude_tenth_degrees_def signed_divide_int_def sgn_if)
  moreover have "0 \<le> r * 1800 div 32768" using True by (intro pos_imp_zdiv_nonneg_iff[THEN iffD2]) auto
  moreover have "r * 1800 div 32768 \<le> (32767 * 1800) div 32768" using assms by (intro zdiv_mono1) auto
  ultimately show ?thesis by simp
next
  case False
  then have "attitude_tenth_degrees r = - ((- r * 1800) div 32768)"
    by (auto simp: attitude_tenth_degrees_def signed_divide_int_def sgn_if)
  moreover have "0 \<le> (- r * 1800) div 32768" using False by (intro pos_imp_zdiv_nonneg_iff[THEN iffD2]) auto
  moreover have "(- r * 1800) div 32768 \<le> (32768 * 1800) div 32768" using assms by (intro zdiv_mono1) auto
  ultimately show ?thesis by simp
qed

section \<open>Frames and the parser invariant\<close>

text \<open>A frame as the sensor sends it.\<close>

definition ms601m_frame :: "u8 \<Rightarrow> u8 list \<Rightarrow> u8 list" where
  "ms601m_frame ident d =
     (let body = [0x55, 0x55, ident, of_nat (length d)] @ d in body @ [sum_list body])"

text \<open>
  \<open>pending p\<close> is the part of a frame that the parser has accepted so far: in every
  state it is a suffix of the bytes consumed.
\<close>

definition pending :: "ms601m_parser \<Rightarrow> u8 list" where
  "pending p =
     (case pstate p of
        WAIT_HEAD_LOW \<Rightarrow> []
      | WAIT_HEAD_HIGH \<Rightarrow> [0x55]
      | WAIT_ID \<Rightarrow> [0x55, 0x55]
      | WAIT_LENGTH \<Rightarrow> [0x55, 0x55, frame_id p]
      | WAIT_DATA \<Rightarrow> [0x55, 0x55, frame_id p, frame_length p] @ take (unat (data_index p)) (frame_data p)
      | WAIT_CHECKSUM \<Rightarrow> [0x55, 0x55, frame_id p, frame_length p] @ take (unat (frame_length p)) (frame_data p))"

definition parser_inv :: "ms601m_parser \<Rightarrow> bool" where
  "parser_inv p \<longleftrightarrow> length (frame_data p) = MS601M_FRAME_DATA_MAX \<and>
     (pstate p = WAIT_DATA \<longrightarrow> data_index p < frame_length p) \<and>
     (pstate p \<in> {WAIT_DATA, WAIT_CHECKSUM} \<longrightarrow> unat (frame_length p) \<le> MS601M_FRAME_DATA_MAX) \<and>
     (pstate p \<noteq> WAIT_HEAD_LOW \<longrightarrow> checksum p = sum_list (pending p))"

lemma parser_inv_init: "length junk = MS601M_FRAME_DATA_MAX \<Longrightarrow> parser_inv (ms601m_parser_init junk)"
  by (simp add: parser_inv_def ms601m_parser_init_def)

lemma restart_inv: "parser_inv p \<Longrightarrow> parser_inv (restart c p)"
  by (simp add: parser_inv_def restart_def parser_restart_def pending_def)

lemma restart_pending: "suffix (pending (restart c p)) (xs @ [c])"
  by (simp add: restart_def parser_restart_def pending_def suffix_def)

text \<open>One step keeps the invariant, and what is pending afterwards ends the bytes read.\<close>

lemma ms601m_byte_step:
  assumes "parser_inv p" and "ms601m_byte c p = Done (Inl p')"
  shows "parser_inv p' \<and> suffix (pending p') (pending p @ [c])"
proof (cases "pstate p")
  case WAIT_DATA
  with assms(1) have lt: "data_index p < frame_length p" and len: "length (frame_data p) = 28"
    and max: "unat (frame_length p) \<le> 28" and sum: "checksum p = sum_list (pending p)"
    by (auto simp: parser_inv_def ms601m_consts)
  have idx: "unat (data_index p) < 28" using lt max by (simp add: word_less_nat_alt)
  have inc: "unat (data_index p + 1) = Suc (unat (data_index p))"
    using unat_inc_no_wrap[OF lt] by simp
  let ?d = "(frame_data p)[unat (data_index p) := c]"
  have take: "take (Suc (unat (data_index p))) ?d = take (unat (data_index p)) (frame_data p) @ [c]"
    using idx len by (simp add: take_Suc_conv_app_nth)
  have p': "p' = p\<lparr>frame_data := ?d, data_index := data_index p + 1, checksum := checksum p + c,
      pstate := (if data_index p + 1 = frame_length p then WAIT_CHECKSUM else WAIT_DATA)\<rparr>"
    using assms(2) WAIT_DATA idx len by (simp add: ms601m_byte_def Let_def)
  have pend: "pending p' = pending p @ [c]"
    using WAIT_DATA inc take by (auto simp: p' pending_def)
  have "data_index p + 1 \<noteq> frame_length p \<Longrightarrow> data_index p + 1 < frame_length p"
    using lt inc_le order_le_less by blast
  then show ?thesis
    using len max sum pend by (auto simp: parser_inv_def p' ms601m_consts)
next
  case WAIT_HEAD_LOW
  with assms show ?thesis
    by (cases "c = 0x55") (auto simp: ms601m_byte_def parser_inv_def pending_def)
next
  case WAIT_HEAD_HIGH
  show ?thesis
  proof (cases "c = 0x55")
    case True
    with WAIT_HEAD_HIGH assms show ?thesis
      by (auto simp: ms601m_byte_def parser_inv_def pending_def)
  next
    case False
    then have "p' = restart c p" using WAIT_HEAD_HIGH assms(2) by (simp add: ms601m_byte_def)
    with assms(1) show ?thesis by (simp only: restart_inv restart_pending simp_thms)
  qed
next
  case WAIT_ID
  with assms show ?thesis
    by (auto simp: ms601m_byte_def parser_inv_def pending_def)
next
  case WAIT_LENGTH
  show ?thesis
  proof (cases "unat c > MS601M_FRAME_DATA_MAX")
    case True
    then have "p' = restart c p" using WAIT_LENGTH assms(2) by (simp add: ms601m_byte_def)
    with assms(1) show ?thesis by (simp only: restart_inv restart_pending simp_thms)
  next
    case False
    then have p': "p' = p\<lparr>frame_length := c, data_index := 0, checksum := checksum p + c,
        pstate := (if c = 0 then WAIT_CHECKSUM else WAIT_DATA)\<rparr>"
      using WAIT_LENGTH assms(2) by (simp add: ms601m_byte_def)
    have "pending p' = pending p @ [c]"
      using WAIT_LENGTH by (simp add: p' pending_def)
    with False WAIT_LENGTH assms(1) show ?thesis
      by (auto simp: parser_inv_def p' word_gt_0)
  qed
next
  case WAIT_CHECKSUM
  with assms have "p' = restart c p"
    by (auto simp: ms601m_byte_def exec_bind_Done_iff split: if_splits)
  with assms(1) show ?thesis by (simp only: restart_inv restart_pending simp_thms)
qed

lemma ms601m_byte_defined:
  assumes "parser_inv p"
  shows "\<exists>r. ms601m_byte c p = Done r"
proof -
  have "unat (data_index p) < length (frame_data p)" if "pstate p = WAIT_DATA"
    using assms that by (auto simp: parser_inv_def ms601m_consts word_less_nat_alt)
  with assms show ?thesis
    by (auto simp: ms601m_byte_def parser_inv_def read_attitude_data_def ms601m_consts Let_def
        split: parser_state.split)
qed

lemma read_attitude_data_take:
  "6 \<le> n \<Longrightarrow> n \<le> length d \<Longrightarrow> read_attitude_data (take n d) = read_attitude_data d"
  by (auto simp: read_attitude_data_def)

lemma six_le_unat: "6 \<le> (x :: u8) \<longleftrightarrow> 6 \<le> unat x"
  by (simp add: word_le_nat_alt)

lemma ms601m_byte_return:
  assumes "parser_inv p" and "ms601m_byte c p = Done (Inr a)"
  shows "\<exists>d. pending p @ [c] = ms601m_frame MS601M_ATTITUDE_ID d \<and> 6 \<le> length d \<and>
    length d \<le> MS601M_FRAME_DATA_MAX \<and> read_attitude_data d = Done a"
proof -
  from assms(2) have st: "pstate p = WAIT_CHECKSUM" and c: "c = checksum p"
    and ident: "frame_id p = MS601M_ATTITUDE_ID" and n: "6 \<le> unat (frame_length p)"
    and a: "read_attitude_data (frame_data p) = Done a"
    by (auto simp: ms601m_byte_def exec_bind_Done_iff six_le_unat Let_def split: parser_state.splits if_splits)
  let ?d = "take (unat (frame_length p)) (frame_data p)"
  have len: "length ?d = unat (frame_length p)" and sum: "checksum p = sum_list (pending p)"
    using assms(1) st by (auto simp: parser_inv_def)
  have "pending p @ [c] = ms601m_frame MS601M_ATTITUDE_ID ?d"
    using st c ident len sum by (simp add: pending_def ms601m_frame_def Let_def)
  moreover have "read_attitude_data ?d = Done a"
    using a n assms(1) st read_attitude_data_take by (auto simp: parser_inv_def)
  ultimately show ?thesis
    using n len assms(1) st by (metis insertCI parser_inv_def)
qed

section \<open>The parser on a sequence of bytes\<close>

text \<open>The bytes are fed until a frame is accepted; the bytes after it are left.\<close>

fun ms601m_bytes :: "u8 list \<Rightarrow> ms601m_parser \<Rightarrow> (ms601m_parser + ms601m_attitude \<times> u8 list) exec" where
  "ms601m_bytes [] p = Done (Inl p)"
| "ms601m_bytes (c # cs) p =
     exec_bind (ms601m_byte c p) (\<lambda>r.
       case r of Inr a \<Rightarrow> Done (Inr (a, cs)) | Inl p' \<Rightarrow> ms601m_bytes cs p')"

lemma ms601m_bytes_defined: "parser_inv p \<Longrightarrow> \<exists>r. ms601m_bytes cs p = Done r"
proof (induction cs arbitrary: p)
  case (Cons c cs)
  from ms601m_byte_defined[OF Cons.prems] obtain r where r: "ms601m_byte c p = Done r" by blast
  with Cons ms601m_byte_step[OF Cons.prems] show ?case by (cases r) auto
qed simp

lemma ms601m_bytes_sound:
  "parser_inv p \<Longrightarrow> ms601m_bytes cs p = Done (Inr (a, rest)) \<Longrightarrow>
     \<exists>pre d. pending p @ cs = pre @ ms601m_frame MS601M_ATTITUDE_ID d @ rest \<and> 6 \<le> length d \<and>
       length d \<le> MS601M_FRAME_DATA_MAX \<and> read_attitude_data d = Done a"
proof (induction cs arbitrary: p)
  case (Cons c cs)
  then obtain r where r: "ms601m_byte c p = Done r" by (auto simp: exec_bind_Done_iff)
  show ?case
  proof (cases r)
    case (Inr a')
    with Cons.prems r have "a' = a" "rest = cs" by auto
    with ms601m_byte_return[OF Cons.prems(1)] r Inr obtain d where
      "pending p @ [c] = ms601m_frame MS601M_ATTITUDE_ID d" "6 \<le> length d"
      "length d \<le> MS601M_FRAME_DATA_MAX" "read_attitude_data d = Done a" by blast
    with \<open>rest = cs\<close> show ?thesis by (metis append.assoc append_Cons append_Nil)
  next
    case (Inl p')
    then have inv: "parser_inv p'" and "suffix (pending p') (pending p @ [c])"
      using ms601m_byte_step[OF Cons.prems(1)] r by blast+
    then obtain z where z: "pending p @ [c] = z @ pending p'" unfolding suffix_def by blast
    from Cons.IH[OF inv] Cons.prems r Inl obtain pre d where
      "pending p' @ cs = pre @ ms601m_frame MS601M_ATTITUDE_ID d @ rest" "6 \<le> length d"
      "length d \<le> MS601M_FRAME_DATA_MAX" "read_attitude_data d = Done a" by auto
    moreover have "pending p @ c # cs = z @ pending p' @ cs"
      using z by (metis append.assoc append_Cons append_Nil)
    ultimately show ?thesis by (metis append.assoc)
  qed
qed simp

lemma ms601m_bytes_append:
  "ms601m_bytes cs p = Done (Inl p') \<Longrightarrow> ms601m_bytes (cs @ ds) p = ms601m_bytes ds p'"
proof (induction cs arbitrary: p)
  case (Cons c cs)
  then obtain r where "ms601m_byte c p = Done r" by (auto simp: exec_bind_Done_iff)
  with Cons show ?case by (cases r) auto
qed simp

text \<open>The data bytes of a frame take the parser to the checksum.\<close>

lemma ms601m_bytes_data:
  assumes "parser_inv p" and "pstate p = WAIT_DATA"
    and "unat (data_index p) + length d = unat (frame_length p)"
  shows "\<exists>p'. ms601m_bytes d p = Done (Inl p') \<and> parser_inv p' \<and> pstate p' = WAIT_CHECKSUM \<and>
    frame_id p' = frame_id p \<and> frame_length p' = frame_length p \<and> pending p' = pending p @ d"
  using assms
proof (induction d arbitrary: p)
  case Nil
  then show ?case by (auto simp: parser_inv_def word_less_nat_alt)
next
  case (Cons c d)
  have lt: "data_index p < frame_length p" and max: "unat (frame_length p) \<le> 28"
    and len: "length (frame_data p) = 28"
    using Cons.prems by (auto simp: parser_inv_def ms601m_consts)
  have i: "unat (data_index p) < 28" using lt max by (simp add: word_less_nat_alt)
  have inc: "unat (data_index p + 1) = Suc (unat (data_index p))"
    using unat_inc_no_wrap[OF lt] by simp
  define q where "q = p\<lparr>frame_data := (frame_data p)[unat (data_index p) := c],
    data_index := data_index p + 1, checksum := checksum p + c,
    pstate := (if data_index p + 1 = frame_length p then WAIT_CHECKSUM else WAIT_DATA)\<rparr>"
  have step: "ms601m_byte c p = Done (Inl q)"
    using Cons.prems(2) i len by (simp add: ms601m_byte_def q_def Let_def)
  have inv: "parser_inv q" using ms601m_byte_step[OF Cons.prems(1) step] by simp
  have take: "take (Suc (unat (data_index p))) ((frame_data p)[unat (data_index p) := c]) =
      take (unat (data_index p)) (frame_data p) @ [c]"
    using i len by (simp add: take_Suc_conv_app_nth)
  have pend: "pending q = pending p @ [c]"
    using Cons.prems(2) inc take by (auto simp: q_def pending_def)
  show ?case
  proof (cases "d = []")
    case True
    then have "data_index p + 1 = frame_length p"
      using Cons.prems(3) inc by (simp add: word_unat_eq_iff)
    then have "pstate q = WAIT_CHECKSUM" by (simp add: q_def)
    with True step inv pend show ?thesis by (auto simp: q_def)
  next
    case False
    have "data_index p + 1 \<noteq> frame_length p"
      using False Cons.prems(3) inc by (cases d) (auto simp: word_unat_eq_iff)
    then have st: "pstate q = WAIT_DATA" by (simp add: q_def)
    have "unat (data_index q) + length d = unat (frame_length q)"
      using Cons.prems(3) inc by (simp add: q_def)
    from Cons.IH[OF inv st this] step pend show ?thesis by (auto simp: q_def)
  qed
qed

text \<open>
  A whole frame, from the state in which the parser waits for a header: an attitude frame
  is accepted, any other frame is passed over when its last byte cannot start a header.
\<close>

lemma ms601m_bytes_frame_body:
  assumes inv: "parser_inv p" and st: "pstate p = WAIT_HEAD_LOW"
    and len: "length d \<le> MS601M_FRAME_DATA_MAX"
  shows "\<exists>p'. ms601m_bytes ([0x55, 0x55, ident, of_nat (length d)] @ d) p = Done (Inl p') \<and>
    parser_inv p' \<and> pstate p' = WAIT_CHECKSUM \<and> frame_id p' = ident \<and>
    frame_length p' = of_nat (length d) \<and> pending p' = [0x55, 0x55, ident, of_nat (length d)] @ d"
proof -
  let ?n = "of_nat (length d) :: u8"
  have n: "unat ?n = length d" using len by (simp add: ms601m_consts unat_of_nat_small)
  define q where "q = p\<lparr>checksum := 0x55 + 0x55 + ident + ?n, frame_id := ident, frame_length := ?n,
    data_index := 0, pstate := (if d = [] then WAIT_CHECKSUM else WAIT_DATA)\<rparr>"
  have z: "?n = 0 \<longleftrightarrow> d = []" using n by (auto simp: word_unat_eq_iff)
  have step: "ms601m_bytes [0x55, 0x55, ident, ?n] p = Done (Inl q)"
    using st n len z by (simp add: ms601m_byte_def q_def)
  have pend: "pending q = [0x55, 0x55, ident, ?n]"
    using z by (auto simp: q_def pending_def)
  have invq: "parser_inv q"
    using inv len n z by (auto simp: parser_inv_def q_def pending_def word_gt_0)
  show ?thesis
  proof (cases "d = []")
    case True
    with step pend invq show ?thesis by (auto simp: q_def)
  next
    case False
    with n have "pstate q = WAIT_DATA" "unat (data_index q) + length d = unat (frame_length q)"
      by (auto simp: q_def)
    from ms601m_bytes_data[OF invq this] obtain p' where
      "ms601m_bytes d q = Done (Inl p')" "parser_inv p'" "pstate p' = WAIT_CHECKSUM"
      "frame_id p' = ident" "frame_length p' = ?n" "pending p' = pending q @ d"
      by (auto simp: q_def)
    then show ?thesis
      using ms601m_bytes_append[OF step, of d] pend by auto
  qed
qed

lemma ms601m_bytes_attitude_frame:
  assumes "parser_inv p" and "pstate p = WAIT_HEAD_LOW"
    and "6 \<le> length d" and len: "length d \<le> MS601M_FRAME_DATA_MAX"
  shows "\<exists>a. read_attitude_data d = Done a \<and>
    ms601m_bytes (ms601m_frame MS601M_ATTITUDE_ID d @ rest) p = Done (Inr (a, rest))"
proof -
  obtain p' where body: "ms601m_bytes ([0x55, 0x55, MS601M_ATTITUDE_ID, of_nat (length d)] @ d) p = Done (Inl p')"
    and inv: "parser_inv p'" and st: "pstate p' = WAIT_CHECKSUM" and ident: "frame_id p' = MS601M_ATTITUDE_ID"
    and n: "frame_length p' = of_nat (length d)"
    and pend: "pending p' = [0x55, 0x55, MS601M_ATTITUDE_ID, of_nat (length d)] @ d"
    using ms601m_bytes_frame_body[OF assms(1,2) len] by blast
  have un: "unat (frame_length p') = length d"
    using len n by (simp add: ms601m_consts unat_of_nat_small)
  have "take (length d) (frame_data p') = d" using pend st un by (simp add: pending_def)
  moreover have "length d \<le> length (frame_data p')" using inv len by (simp add: parser_inv_def)
  ultimately have data: "read_attitude_data (frame_data p') = read_attitude_data d"
    using read_attitude_data_take[OF assms(3), of "frame_data p'"] by simp
  obtain a where a: "read_attitude_data d = Done a"
    using assms(3) by (simp add: read_attitude_data_def)
  have "checksum p' = sum_list ([0x55, 0x55, MS601M_ATTITUDE_ID, of_nat (length d)] @ d)"
    using inv st pend by (simp add: parser_inv_def)
  then have "ms601m_byte (sum_list ([0x55, 0x55, MS601M_ATTITUDE_ID, of_nat (length d)] @ d)) p' = Done (Inr a)"
    using st ident un data a assms(3) by (simp add: ms601m_byte_def six_le_unat)
  then show ?thesis
    using a ms601m_bytes_append[OF body] by (auto simp: ms601m_frame_def Let_def)
qed

text \<open>Bytes that the parser passes over between attitude frames.\<close>

definition skippable :: "u8 list \<Rightarrow> bool" where
  "skippable bs \<longleftrightarrow> (\<forall>c \<in> set bs. c \<noteq> 0x55) \<or>
     (\<exists>ident d. bs = ms601m_frame ident d \<and> length d \<le> MS601M_FRAME_DATA_MAX \<and>
        (ident \<noteq> MS601M_ATTITUDE_ID \<or> length d < 6) \<and> last bs \<noteq> 0x55)"

lemma ms601m_bytes_noise:
  "\<forall>c \<in> set bs. c \<noteq> 0x55 \<Longrightarrow> pstate p = WAIT_HEAD_LOW \<Longrightarrow> ms601m_bytes bs p = Done (Inl p)"
  by (induction bs) (auto simp: ms601m_byte_def)

lemma ms601m_bytes_skip:
  assumes "parser_inv p" and "pstate p = WAIT_HEAD_LOW" and "skippable bs"
  shows "\<exists>p'. ms601m_bytes bs p = Done (Inl p') \<and> parser_inv p' \<and> pstate p' = WAIT_HEAD_LOW"
  using assms(3) unfolding skippable_def
proof
  assume "\<forall>c \<in> set bs. c \<noteq> 0x55"
  with assms show ?thesis using ms601m_bytes_noise by blast
next
  assume "\<exists>ident d. bs = ms601m_frame ident d \<and> length d \<le> MS601M_FRAME_DATA_MAX \<and>
        (ident \<noteq> MS601M_ATTITUDE_ID \<or> length d < 6) \<and> last bs \<noteq> 0x55"
  then obtain ident d where bs: "bs = ms601m_frame ident d" and len: "length d \<le> MS601M_FRAME_DATA_MAX"
    and other: "ident \<noteq> MS601M_ATTITUDE_ID \<or> length d < 6" and nl: "last bs \<noteq> 0x55" by blast
  obtain p' where body: "ms601m_bytes ([0x55, 0x55, ident, of_nat (length d)] @ d) p = Done (Inl p')"
    and inv: "parser_inv p'" and st: "pstate p' = WAIT_CHECKSUM" and ident: "frame_id p' = ident"
    and n: "frame_length p' = of_nat (length d)"
    using ms601m_bytes_frame_body[OF assms(1,2) len] by blast
  let ?c = "sum_list ([0x55, 0x55, ident, of_nat (length d)] @ d)"
  have "unat (frame_length p') = length d" using len n by (simp add: ms601m_consts unat_of_nat_small)
  then have "ms601m_byte ?c p' = Done (Inl (restart ?c p'))"
    using st ident other by (auto simp: ms601m_byte_def six_le_unat)
  moreover have "pstate (restart ?c p') = WAIT_HEAD_LOW"
    using nl bs by (simp add: restart_def parser_restart_def ms601m_frame_def Let_def)
  ultimately show ?thesis
    using ms601m_bytes_append[OF body, of "[?c]"] restart_inv[OF inv] bs
    by (auto simp: ms601m_frame_def Let_def)
qed

lemma ms601m_bytes_skip_all:
  "parser_inv p \<Longrightarrow> pstate p = WAIT_HEAD_LOW \<Longrightarrow> \<forall>bs \<in> set bss. skippable bs \<Longrightarrow>
     \<exists>p'. ms601m_bytes (concat bss) p = Done (Inl p') \<and> parser_inv p' \<and> pstate p' = WAIT_HEAD_LOW"
proof (induction bss arbitrary: p)
  case (Cons bs bss)
  then obtain p' where "ms601m_bytes bs p = Done (Inl p')" "parser_inv p'" "pstate p' = WAIT_HEAD_LOW"
    using ms601m_bytes_skip by (metis list.set_intros(1))
  with Cons show ?case using ms601m_bytes_append by fastforce
qed simp

text \<open>
  A frame of another kind that ends in a header byte leaves the parser waiting for the second
  one. An attitude frame is then read out of step: its second header byte is taken for the
  identifier, its identifier for the length 1 and its length for the data, so that the first
  data byte is compared with a checksum.
\<close>

lemma ms601m_bytes_header_checksum:
  assumes "parser_inv p" and "pstate p = WAIT_HEAD_LOW" and len: "length e \<le> MS601M_FRAME_DATA_MAX"
    and other: "ident \<noteq> MS601M_ATTITUDE_ID \<or> length e < 6" and l: "last (ms601m_frame ident e) = 0x55"
  shows "\<exists>p'. ms601m_bytes (ms601m_frame ident e) p = Done (Inl p') \<and> parser_inv p' \<and> pstate p' = WAIT_HEAD_HIGH"
proof -
  obtain p' where body: "ms601m_bytes ([0x55, 0x55, ident, of_nat (length e)] @ e) p = Done (Inl p')"
    and inv: "parser_inv p'" and st: "pstate p' = WAIT_CHECKSUM" and ident: "frame_id p' = ident"
    and n: "frame_length p' = of_nat (length e)"
    using ms601m_bytes_frame_body[OF assms(1,2) len] by blast
  let ?c = "sum_list ([0x55, 0x55, ident, of_nat (length e)] @ e)"
  have "unat (frame_length p') = length e" using len n by (simp add: ms601m_consts unat_of_nat_small)
  then have "ms601m_byte ?c p' = Done (Inl (restart ?c p'))"
    using st ident other by (auto simp: ms601m_byte_def six_le_unat)
  moreover have "pstate (restart ?c p') = WAIT_HEAD_HIGH"
    using l by (simp add: restart_def parser_restart_def ms601m_frame_def Let_def)
  ultimately show ?thesis
    using ms601m_bytes_append[OF body, of "[?c]"] restart_inv[OF inv]
    by (auto simp: ms601m_frame_def Let_def)
qed

lemma ms601m_bytes_out_of_step:
  assumes inv: "parser_inv p" and st: "pstate p = WAIT_HEAD_HIGH"
    and d: "d \<noteq> []" "length d \<le> MS601M_FRAME_DATA_MAX" "0x55 \<notin> set d"
  shows "\<exists>p'. ms601m_bytes (ms601m_frame MS601M_ATTITUDE_ID d) p = Done (Inl p') \<and>
    pstate p' = (if last (ms601m_frame MS601M_ATTITUDE_ID d) = 0x55 then WAIT_HEAD_HIGH else WAIT_HEAD_LOW)"
proof -
  let ?n = "of_nat (length d) :: u8"
  let ?c = "sum_list ([0x55, 0x55, MS601M_ATTITUDE_ID, ?n] @ d)"
  obtain x ds where x: "d = x # ds" "x \<noteq> 0x55" "\<forall>c \<in> set ds. c \<noteq> 0x55" using d(1,3) by (cases d) auto
  have "length (frame_data p) = 28" using inv by (simp add: parser_inv_def ms601m_consts)
  then obtain q where q: "ms601m_bytes [0x55, 0x55, MS601M_ATTITUDE_ID, ?n] p = Done (Inl q)"
    "pstate q = WAIT_CHECKSUM" "frame_id q = 0x55"
    using st by (auto simp: ms601m_byte_def ms601m_consts)
  have r: "ms601m_byte x q = Done (Inl (restart x q))" using q(2,3) by (simp add: ms601m_byte_def ms601m_consts)
  have w: "pstate (restart x q) = WAIT_HEAD_LOW" using x(2) by (simp add: restart_def parser_restart_def)
  have "ms601m_bytes d q = Done (Inl (restart x q))"
    using r ms601m_bytes_noise[OF x(3) w] by (simp add: x(1))
  then have "ms601m_bytes (d @ [?c]) q = ms601m_bytes [?c] (restart x q)" by (rule ms601m_bytes_append)
  moreover have "ms601m_frame MS601M_ATTITUDE_ID d = [0x55, 0x55, MS601M_ATTITUDE_ID, ?n] @ d @ [?c]"
    by (simp add: ms601m_frame_def Let_def)
  ultimately show ?thesis
    using ms601m_bytes_append[OF q(1), of "d @ [?c]"] w by (auto simp: ms601m_byte_def)
qed

section \<open>The polling loop on a stream\<close>

context uart_stream
begin

text \<open>A frame is accepted as long as the timeout has not passed when it is read.\<close>

lemma ms601m_loop_returns:
  "ms601m_bytes cs p = Done (Inr (a, rest)) \<Longrightarrow> ok b \<Longrightarrow> stream b = cs \<Longrightarrow> now b - start < timeout \<Longrightarrow>
     length cs < fuel \<Longrightarrow>
     \<exists>b'. ms601m_loop fuel bus start timeout att p b = Done (YDRASIL_DRIVER_OK, a, b') \<and> stream b' = rest"
proof (induction cs arbitrary: p b fuel)
  case (Cons c cs)
  then obtain r where r: "ms601m_byte c p = Done r" by (auto simp: exec_bind_Done_iff)
  obtain n where fuel: "fuel = Suc n" "length cs < n" using Cons.prems(5) by (cases fuel) auto
  obtain b1 where b1: "bus_millis bus b = (now b, b1)" "ok b1" "stream b1 = c # cs" "now b1 = now b"
    using millis_now[of b] Cons.prems(2,3) by auto
  obtain b2 where b2: "bus_uart1_getc bus b1 = (YDRASIL_DRIVER_OK, Some c, b2)" "ok b2" "stream b2 = cs" "now b2 = now b"
    using getc_byte[OF b1(2,3)] b1(4) by auto
  show ?case
  proof (cases r)
    case (Inr a')
    with Cons.prems fuel r b1 b2 show ?thesis by auto
  next
    case (Inl p')
    with Cons.prems r have "ms601m_bytes cs p' = Done (Inr (a, rest))" by simp
    from Cons.IH[OF this b2(2,3) _ fuel(2)] Cons.prems b2(4) obtain b' where
      "ms601m_loop n bus start timeout att p' b2 = Done (YDRASIL_DRIVER_OK, a, b')" "stream b' = rest" by auto
    with Cons.prems fuel r b1 b2 Inl show ?thesis by auto
  qed
qed simp

text \<open>Otherwise the loop sleeps until the timeout: one iteration per byte and per millisecond.\<close>

lemma ms601m_loop_idle:
  assumes "ok b" and "stream b = []" and "unat (timeout - (now b - start)) < fuel" and "now b - start \<le> timeout"
  shows "\<exists>b'. ms601m_loop fuel bus start timeout att p b = Done (YDRASIL_DRIVER_ETIMEOUT, att, b')"
  using assms
proof (induction fuel arbitrary: b)
  case (Suc n)
  obtain b1 where b1: "bus_millis bus b = (now b, b1)" "ok b1" "stream b1 = []" "now b1 = now b"
    using millis_now[of b] Suc.prems(1,2) by auto
  show ?case
  proof (cases "now b - start < timeout")
    case False
    with b1 show ?thesis by auto
  next
    case True
    obtain b2 where b2: "bus_uart1_getc bus b1 = (YDRASIL_DRIVER_EEMPTY, None, b2)" "ok b2" "stream b2 = []" "now b2 = now b"
      using getc_empty[OF b1(2,3)] b1(4) by auto
    let ?b = "bus_delay_ms bus 1 b2"
    have st: "stream ?b = []" and nw: "now ?b - start = (now b - start) + 1"
      using delay_stream[of b2 1] delay_now[of b2 1] b2 by (auto simp: algebra_simps)
    have le: "now ?b - start \<le> timeout" using True nw inc_le by metis
    have ne: "timeout - (now b - start) \<noteq> 0" using True by auto
    have dec: "timeout - (now ?b - start) = timeout - (now b - start) - 1"
      unfolding nw by (simp only: diff_diff_add)
    have "unat (timeout - (now ?b - start)) < n"
      unfolding dec using Suc.prems(3) unat_dec_pos[OF ne] ne unat_gt_0[of "timeout - (now b - start)"]
      by linarith
    from Suc.IH[OF delay_ok[OF b2(2)] st this le] True b1 b2 show ?thesis by (auto simp: driver_status)
  qed
qed simp

lemma ms601m_loop_timeout:
  "ms601m_bytes cs p = Done (Inl p') \<Longrightarrow> ok b \<Longrightarrow> stream b = cs \<Longrightarrow> now b - start \<le> timeout \<Longrightarrow>
     length cs + unat (timeout - (now b - start)) < fuel \<Longrightarrow>
     \<exists>b'. ms601m_loop fuel bus start timeout att p b = Done (YDRASIL_DRIVER_ETIMEOUT, att, b')"
proof (induction cs arbitrary: p b fuel)
  case Nil
  then show ?case using ms601m_loop_idle by simp
next
  case (Cons c cs)
  then obtain r where r: "ms601m_byte c p = Done r" by (auto simp: exec_bind_Done_iff)
  with Cons.prems(1) obtain q where q: "r = Inl q" "ms601m_bytes cs q = Done (Inl p')"
    by (auto split: sum.splits)
  obtain n where fuel: "fuel = Suc n" using Cons.prems(5) by (cases fuel) auto
  obtain b1 where b1: "bus_millis bus b = (now b, b1)" "ok b1" "stream b1 = c # cs" "now b1 = now b"
    using millis_now[of b] Cons.prems(2,3) by auto
  show ?case
  proof (cases "now b - start < timeout")
    case False
    with b1 fuel show ?thesis by auto
  next
    case True
    obtain b2 where b2: "bus_uart1_getc bus b1 = (YDRASIL_DRIVER_OK, Some c, b2)" "ok b2" "stream b2 = cs" "now b2 = now b"
      using getc_byte[OF b1(2,3)] b1(4) by auto
    from Cons.IH[OF q(2) b2(2,3), of n] Cons.prems(4,5) fuel b2(4) obtain b' where
      "ms601m_loop n bus start timeout att q b2 = Done (YDRASIL_DRIVER_ETIMEOUT, att, b')" by auto
    with True fuel r q b1 b2 show ?thesis by auto
  qed
qed

text \<open>The whole call, from the bytes that arrive after the reset of the receiver.\<close>

lemma ms601m_read_attitude_stream:
  assumes "ok b" and "timeout \<noteq> 0" and len: "length junk = MS601M_FRAME_DATA_MAX"
    and cs: "stream (bus_uart1_reset bus MS601M_BAUD b) = cs" and fuel: "length cs + unat timeout < fuel"
  shows "\<exists>b'. ms601m_read_attitude fuel bus junk (Some att) timeout b =
    (case ms601m_bytes cs (ms601m_parser_init junk) of
       Done (Inr (a, rest)) \<Rightarrow> Done (YDRASIL_DRIVER_OK, Some a, b')
     | _ \<Rightarrow> Done (YDRASIL_DRIVER_ETIMEOUT, Some att, b'))"
proof -
  let ?b1 = "bus_uart1_reset bus MS601M_BAUD b"
  obtain b2 where b2: "bus_millis bus ?b1 = (now ?b1, b2)" "ok b2" "stream b2 = cs" "now b2 = now ?b1"
    using millis_now[OF reset_ok[OF \<open>ok b\<close>]] cs by blast
  have lt: "now b2 - now ?b1 < timeout" using \<open>timeout \<noteq> 0\<close> b2(4) by (simp add: word_gt_0)
  obtain r where r: "ms601m_bytes cs (ms601m_parser_init junk) = Done r"
    using ms601m_bytes_defined[OF parser_inv_init[OF len]] by blast
  show ?thesis
  proof (cases r)
    case (Inl p')
    from ms601m_loop_timeout[OF r[unfolded Inl] b2(2,3), of "now ?b1" timeout fuel att] lt fuel b2(4)
    show ?thesis using r Inl b2(1) \<open>timeout \<noteq> 0\<close> by (auto simp: ms601m_read_attitude_def)
  next
    case (Inr q)
    obtain a rest where q: "q = (a, rest)" by (cases q)
    from ms601m_loop_returns[OF r[unfolded Inr q] b2(2,3) lt, of fuel att] fuel
    show ?thesis using r Inr q b2(1) \<open>timeout \<noteq> 0\<close> by (auto simp: ms601m_read_attitude_def)
  qed
qed

end

section \<open>Properties\<close>

text \<open>C1. The frame parser is memory safe and accepts only attitude frames: on every sequence
  of received bytes and every content of the uninitialised frame array it runs without
  touching the array out of bounds, and when it accepts, the bytes it has read end in a frame
  (two header bytes 0x55, the attitude id, a length from 6 to 28, that many data bytes, the
  8-bit sum of all of these) whose first six data bytes are the attitude it returns.\<close>

theorem ms601m_parser_sound:
  assumes "length junk = MS601M_FRAME_DATA_MAX"
  shows "(\<exists>p'. ms601m_bytes cs (ms601m_parser_init junk) = Done (Inl p')) \<or>
    (\<exists>a rest pre d. ms601m_bytes cs (ms601m_parser_init junk) = Done (Inr (a, rest)) \<and>
       cs = pre @ ms601m_frame MS601M_ATTITUDE_ID d @ rest \<and> 6 \<le> length d \<and>
       length d \<le> MS601M_FRAME_DATA_MAX \<and> read_attitude_data d = Done a)"
proof -
  have inv: "parser_inv (ms601m_parser_init junk)" using assms by (rule parser_inv_init)
  obtain r where r: "ms601m_bytes cs (ms601m_parser_init junk) = Done r"
    using ms601m_bytes_defined[OF inv] by blast
  show ?thesis
  proof (cases r)
    case (Inr q)
    obtain a rest where "q = (a, rest)" by (cases q)
    with ms601m_bytes_sound[OF inv] r Inr show ?thesis
      by (auto simp: pending_def ms601m_parser_init_def)
  qed (use r in auto)
qed

theorem ms601m_parser_sound_witness:
  "ms601m_bytes [1, 0x55, 0x55, 2, 0, 0xac] (ms601m_parser_init (replicate 28 7)) =
     Done (Inl (ms601m_parser_init (replicate 28 7)\<lparr>frame_id := 2, checksum := 0xac\<rparr>)) \<and>
   (\<exists>p'. ms601m_bytes [1] (ms601m_parser_init (replicate 28 7)) = Done (Inl p'))"
proof
  show "ms601m_bytes [1, 0x55, 0x55, 2, 0, 0xac] (ms601m_parser_init (replicate 28 7)) =
     Done (Inl (ms601m_parser_init (replicate 28 7)\<lparr>frame_id := 2, checksum := 0xac\<rparr>))"
    by (simp add: ms601m_byte_def ms601m_parser_init_def ms601m_consts restart_def parser_restart_def)
  show "\<exists>p'. ms601m_bytes [1] (ms601m_parser_init (replicate 28 7)) = Done (Inl p')"
    using ms601m_parser_sound[of "replicate 28 7" "[1]"]
    by (auto simp: ms601m_consts ms601m_frame_def Let_def ms601m_byte_def ms601m_parser_init_def)
qed

text \<open>C2. No attitude frame is lost behind other traffic: after any bytes that are not header
  bytes and any complete frames of another kind whose last byte is not a header byte, in any
  order, the parser accepts the next attitude frame and returns exactly its angles; the bytes
  behind the frame stay unread.\<close>

theorem ms601m_parser_accepts:
  assumes "length junk = MS601M_FRAME_DATA_MAX" and "\<forall>bs \<in> set bss. skippable bs"
    and "6 \<le> length d" and "length d \<le> MS601M_FRAME_DATA_MAX"
  shows "\<exists>a. read_attitude_data d = Done a \<and>
    ms601m_bytes (concat bss @ ms601m_frame MS601M_ATTITUDE_ID d @ rest) (ms601m_parser_init junk) =
      Done (Inr (a, rest))"
proof -
  have "pstate (ms601m_parser_init junk) = WAIT_HEAD_LOW" by (simp add: ms601m_parser_init_def)
  from ms601m_bytes_skip_all[OF parser_inv_init[OF assms(1)] this assms(2)] obtain p' where
    p': "ms601m_bytes (concat bss) (ms601m_parser_init junk) = Done (Inl p')"
    "parser_inv p'" "pstate p' = WAIT_HEAD_LOW" by blast
  show ?thesis
    using ms601m_bytes_attitude_frame[OF p'(2,3) assms(3,4)] ms601m_bytes_append[OF p'(1)] by simp
qed

theorem ms601m_parser_accepts_witness:
  "\<exists>a. read_attitude_data [0x00, 0x40, 0x00, 0xe0, 0x00, 0x10] = Done a \<and>
    ms601m_bytes (concat [[1, 2], ms601m_frame 3 [5]] @
        ms601m_frame MS601M_ATTITUDE_ID [0x00, 0x40, 0x00, 0xe0, 0x00, 0x10] @ [9])
      (ms601m_parser_init (replicate 28 0)) = Done (Inr (a, [9]))"
proof (rule ms601m_parser_accepts)
  have "skippable [1, 2]" by (simp add: skippable_def)
  moreover have "skippable (ms601m_frame 3 [5])"
    unfolding skippable_def
    by (intro disjI2 exI[of _ 3] exI[of _ "[5]"]) (simp add: ms601m_frame_def ms601m_consts)
  ultimately show "\<forall>bs \<in> set [[1, 2], ms601m_frame 3 [5]]. skippable bs" by simp
qed (simp_all add: ms601m_consts)

text \<open>C7. A frame of another kind whose checksum happens to be 0x55 hides the attitude frame
  behind it: after any traffic that the parser passes over, any such frame (of any identifier and
  any data) and any attitude frame without the byte 0x55 in its data, the parser has accepted
  nothing, because it took the checksum for a first header byte and was one byte out of step when
  the real header arrived. It waits for a header again behind the lost frame.\<close>

theorem ms601m_checksum_header_desync:
  assumes "length junk = MS601M_FRAME_DATA_MAX" and "\<forall>bs \<in> set bss. skippable bs"
    and "length e \<le> MS601M_FRAME_DATA_MAX" and "ident \<noteq> MS601M_ATTITUDE_ID \<or> length e < 6"
    and "last (ms601m_frame ident e) = 0x55"
    and "6 \<le> length d" and "length d \<le> MS601M_FRAME_DATA_MAX" and "0x55 \<notin> set d"
  shows "\<exists>p'. ms601m_bytes (concat bss @ ms601m_frame ident e @ ms601m_frame MS601M_ATTITUDE_ID d)
      (ms601m_parser_init junk) = Done (Inl p') \<and>
    pstate p' = (if last (ms601m_frame MS601M_ATTITUDE_ID d) = 0x55 then WAIT_HEAD_HIGH else WAIT_HEAD_LOW)"
proof -
  have "pstate (ms601m_parser_init junk) = WAIT_HEAD_LOW" by (simp add: ms601m_parser_init_def)
  from ms601m_bytes_skip_all[OF parser_inv_init[OF assms(1)] this assms(2)] obtain p where
    p: "ms601m_bytes (concat bss) (ms601m_parser_init junk) = Done (Inl p)" "parser_inv p" "pstate p = WAIT_HEAD_LOW" by blast
  obtain q where q: "ms601m_bytes (ms601m_frame ident e) p = Done (Inl q)" "parser_inv q" "pstate q = WAIT_HEAD_HIGH"
    using ms601m_bytes_header_checksum[OF p(2,3) assms(3-5)] by blast
  have "d \<noteq> []" using assms(6) by auto
  from ms601m_bytes_out_of_step[OF q(2,3) this assms(7,8)] show ?thesis
    using ms601m_bytes_append[OF p(1)] ms601m_bytes_append[OF q(1)] by simp
qed

theorem ms601m_checksum_header_desync_witness:
  "\<exists>p'. ms601m_bytes ([1, 2] @ ms601m_frame 2 [0xa8] @ ms601m_frame MS601M_ATTITUDE_ID [0, 1, 0, 1, 0, 1])
      (ms601m_parser_init (replicate 28 0)) = Done (Inl p') \<and> pstate p' = WAIT_HEAD_LOW"
  using ms601m_checksum_header_desync[of "replicate 28 0" "[[1, 2]]" "[0xa8]" 2 "[0, 1, 0, 1, 0, 1]"]
  by (simp add: ms601m_frame_def ms601m_consts skippable_def)

end
