(* ===== verification/Ssd1306.thy ===== *)
theory Ssd1306
  imports Monitor_Bus_If
begin

text \<open>
  The display driver \<^verbatim>\<open>sw/app/driver/ssd1306.c\<close> with its font
  \<^verbatim>\<open>font_small.c\<close>. Strings are character lists without the terminating NUL;
  a null pointer is \<open>None\<close>. The lemmas show that rendering stays inside the row and
  describe the rows it produces.
\<close>

section \<open>Font\<close>

definition FONT_SMALL_WIDTH :: nat where [code_unfold]: "FONT_SMALL_WIDTH = 5"

definition font :: "(char \<times> u8 list) list" where
  "font =
    [(CHR '' '', [0x00, 0x00, 0x00, 0x00, 0x00]),
     (CHR ''+'', [0x08, 0x08, 0x3e, 0x08, 0x08]),
     (CHR ''-'', [0x08, 0x08, 0x08, 0x08, 0x08]),
     (CHR ''.'', [0x00, 0x60, 0x60, 0x00, 0x00]),
     (CHR ''0'', [0x3e, 0x51, 0x49, 0x45, 0x3e]),
     (CHR ''1'', [0x00, 0x42, 0x7f, 0x40, 0x00]),
     (CHR ''2'', [0x42, 0x61, 0x51, 0x49, 0x46]),
     (CHR ''3'', [0x21, 0x41, 0x45, 0x4b, 0x31]),
     (CHR ''4'', [0x18, 0x14, 0x12, 0x7f, 0x10]),
     (CHR ''5'', [0x27, 0x45, 0x45, 0x45, 0x39]),
     (CHR ''6'', [0x3c, 0x4a, 0x49, 0x49, 0x30]),
     (CHR ''7'', [0x01, 0x71, 0x09, 0x05, 0x03]),
     (CHR ''8'', [0x36, 0x49, 0x49, 0x49, 0x36]),
     (CHR ''9'', [0x06, 0x49, 0x49, 0x29, 0x1e]),
     (CHR ''A'', [0x7e, 0x11, 0x11, 0x11, 0x7e]),
     (CHR ''D'', [0x7f, 0x41, 0x41, 0x22, 0x1c]),
     (CHR ''E'', [0x7f, 0x49, 0x49, 0x49, 0x41]),
     (CHR ''G'', [0x3e, 0x41, 0x49, 0x49, 0x7a]),
     (CHR ''H'', [0x7f, 0x08, 0x08, 0x08, 0x7f]),
     (CHR ''I'', [0x00, 0x41, 0x7f, 0x41, 0x00]),
     (CHR ''L'', [0x7f, 0x40, 0x40, 0x40, 0x40]),
     (CHR ''M'', [0x7f, 0x02, 0x0c, 0x02, 0x7f]),
     (CHR ''N'', [0x7f, 0x04, 0x08, 0x10, 0x7f]),
     (CHR ''O'', [0x3e, 0x41, 0x41, 0x41, 0x3e]),
     (CHR ''P'', [0x7f, 0x09, 0x09, 0x09, 0x06]),
     (CHR ''R'', [0x7f, 0x09, 0x19, 0x29, 0x46]),
     (CHR ''S'', [0x46, 0x49, 0x49, 0x49, 0x31]),
     (CHR ''T'', [0x01, 0x01, 0x7f, 0x01, 0x01]),
     (CHR ''Y'', [0x07, 0x08, 0x70, 0x08, 0x07])]"

fun find_glyph :: "char \<Rightarrow> (char \<times> u8 list) list \<Rightarrow> u8 list option" where
  "find_glyph ch [] = None"
| "find_glyph ch ((code, columns) # gs) = (if code = ch then Some columns else find_glyph ch gs)"

definition upper :: "char \<Rightarrow> char" where
  "upper ch =
     (let n = of_char ch :: nat in
      if of_char CHR ''a'' \<le> n \<and> n \<le> of_char CHR ''z''
      then char_of (n - of_char CHR ''a'' + of_char CHR ''A'') else ch)"

definition font_small_columns :: "char \<Rightarrow> u8 list" where
  "font_small_columns ch =
     (case find_glyph (upper ch) font of Some columns \<Rightarrow> columns | None \<Rightarrow> snd (font ! 0))"

lemma find_glyph_mem: "find_glyph ch gs = Some c \<Longrightarrow> c \<in> snd ` set gs"
  by (induction gs) (auto split: if_splits)

lemma length_font: "c \<in> snd ` set font \<Longrightarrow> length c = FONT_SMALL_WIDTH"
  by (auto simp: font_def FONT_SMALL_WIDTH_def)

lemma length_font_small_columns [simp]: "length (font_small_columns ch) = 5"
  using length_font[OF find_glyph_mem[of "upper ch" font]]
  by (auto simp: font_small_columns_def FONT_SMALL_WIDTH_def font_def split: option.split)

section \<open>State and commands\<close>

definition SSD1306_WIDTH :: nat where [code_unfold]: "SSD1306_WIDTH = 128"
definition SSD1306_PAGE_COUNT :: nat where [code_unfold]: "SSD1306_PAGE_COUNT = 8"
definition SSD1306_RESET_GPIO :: u32 where [code_unfold]: "SSD1306_RESET_GPIO = 2"
definition SSD1306_DC_GPIO :: u32 where [code_unfold]: "SSD1306_DC_GPIO = 1"
definition SSD1306_WRITE_CHUNK :: nat where [code_unfold]: "SSD1306_WRITE_CHUNK = 4"
definition SSD1306_CHAR_STRIDE :: nat where [code_unfold]: "SSD1306_CHAR_STRIDE = FONT_SMALL_WIDTH + 1"

lemmas ssd1306_consts = SSD1306_WIDTH_def SSD1306_PAGE_COUNT_def SSD1306_WRITE_CHUNK_def
  SSD1306_CHAR_STRIDE_def FONT_SMALL_WIDTH_def

text \<open>The controller enumeration, an \<open>int\<close> in C, which \<open>ssd1306_configure\<close> checks.\<close>

definition SSD1306_CONTROLLER_SSD1306 :: int where [code_unfold]: "SSD1306_CONTROLLER_SSD1306 = 0"
definition SSD1306_CONTROLLER_SH1106 :: int where [code_unfold]: "SSD1306_CONTROLLER_SH1106 = 1"

record ssd1306 =
  initialized :: int
  active_controller :: int
  active_flipped :: int
  frame_buffer :: "u8 list list"

definition ssd1306_power_on :: ssd1306 where
  "ssd1306_power_on = \<lparr>initialized = 0, active_controller = SSD1306_CONTROLLER_SSD1306,
     active_flipped = 1, frame_buffer = replicate SSD1306_PAGE_COUNT (replicate SSD1306_WIDTH 0)\<rparr>"

definition oled_write :: "'b monitor_bus \<Rightarrow> int \<Rightarrow> u8 list \<Rightarrow> 'b \<Rightarrow> int \<times> 'b" where
  "oled_write bus data_mode bytes b =
     bus_spi0_write bus bytes (bus_gpio_write bus SSD1306_DC_GPIO data_mode b)"

definition oled_command :: "'b monitor_bus \<Rightarrow> u8 list \<Rightarrow> 'b \<Rightarrow> int \<times> 'b" where
  "oled_command bus commands b = oled_write bus 0 commands b"

definition oled_reset_and_configure :: "'b monitor_bus \<Rightarrow> u8 list \<Rightarrow> 'b \<Rightarrow> int \<times> 'b" where
  "oled_reset_and_configure bus init_sequence b =
     (let b = bus_gpio_write bus SSD1306_DC_GPIO 0 b;
          b = bus_gpio_write bus SSD1306_RESET_GPIO 1 b;
          b = bus_delay_ms bus 10 b;
          b = bus_gpio_write bus SSD1306_RESET_GPIO 0 b;
          b = bus_delay_ms bus 10 b;
          b = bus_gpio_write bus SSD1306_RESET_GPIO 1 b;
          b = bus_delay_ms bus 100 b
      in oled_command bus init_sequence b)"

definition oled_set_position :: "'b monitor_bus \<Rightarrow> ssd1306 \<Rightarrow> u8 \<Rightarrow> u8 \<Rightarrow> 'b \<Rightarrow> int \<times> 'b" where
  "oled_set_position bus d page column b =
     (let column_offset = (if active_controller d = SSD1306_CONTROLLER_SH1106 then 2 else 0);
          controller_column = column + column_offset;
          position = [0xb0 OR page, controller_column AND 0x0f, 0x10 OR drop_bit 4 controller_column]
      in oled_command bus position b)"

text \<open>The \<open>for\<close> loop of \<open>oled_write_page\<close>, from \<open>column\<close> on.\<close>

function oled_write_columns :: "'b monitor_bus \<Rightarrow> nat \<Rightarrow> u8 list \<Rightarrow> 'b \<Rightarrow> (int \<times> 'b) exec" where
  "oled_write_columns bus column data b =
     (if column < SSD1306_WIDTH then
        exec_bind (load_range column SSD1306_WRITE_CHUNK data) (\<lambda>chunk.
          let (result, b') = oled_write bus 1 chunk b
          in if result \<noteq> YDRASIL_DRIVER_OK then Done (result, b')
             else oled_write_columns bus (column + SSD1306_WRITE_CHUNK) data b')
      else Done (YDRASIL_DRIVER_OK, b))"
  by pat_completeness auto
termination
  by (relation "measure (\<lambda>(bus, column, data, b). SSD1306_WIDTH - column)")
    (auto simp: ssd1306_consts)

declare oled_write_columns.simps [simp del]

definition oled_write_page :: "'b monitor_bus \<Rightarrow> ssd1306 \<Rightarrow> u8 \<Rightarrow> u8 list \<Rightarrow> 'b \<Rightarrow> (int \<times> 'b) exec" where
  "oled_write_page bus d page data b =
     (let (result, b1) = oled_set_position bus d page 0 b in
      if result \<noteq> YDRASIL_DRIVER_OK then Done (result, b1)
      else oled_write_columns bus 0 data b1)"

text \<open>The loop of \<open>ssd1306_clear\<close> over the pages from \<open>page\<close> on, \<open>n\<close> of them.\<close>

fun clear_pages :: "nat \<Rightarrow> u8 \<Rightarrow> 'b monitor_bus \<Rightarrow> ssd1306 \<Rightarrow> 'b \<Rightarrow> (int \<times> 'b) exec" where
  "clear_pages 0 page bus d b = Done (YDRASIL_DRIVER_OK, b)"
| "clear_pages (Suc n) page bus d b =
     exec_bind (oled_write_page bus d page (replicate SSD1306_WIDTH 0) b) (\<lambda>(result, b').
       if result \<noteq> YDRASIL_DRIVER_OK then Done (result, b') else clear_pages n (page + 1) bus d b')"

definition ssd1306_clear :: "'b monitor_bus \<Rightarrow> ssd1306 \<Rightarrow> 'b \<Rightarrow> (int \<times> 'b) exec" where
  "ssd1306_clear bus d b = clear_pages SSD1306_PAGE_COUNT 0 bus d b"

definition init_sequence :: "ssd1306 \<Rightarrow> u8 list" where
  "init_sequence d =
     (let s = [0xae, 0xd5, 0x80, 0xa8, 0x3f, 0xd3, 0x00, 0x40,
               0x8d, 0x14, 0x20, 0x02, 0xa1, 0xc8, 0xda, 0x12,
               0x81, 0xcf, 0xd9, 0xf1, 0xdb, 0x40, 0xa4, 0xa6];
          s = (if active_controller d = SSD1306_CONTROLLER_SH1106 then s[8 := 0xad, 9 := 0x8b] else s)
      in if active_flipped d = 0 then s[12 := 0xa0, 13 := 0xc0] else s)"

definition ssd1306_init :: "'b monitor_bus \<Rightarrow> ssd1306 \<Rightarrow> 'b \<Rightarrow> (int \<times> ssd1306 \<times> 'b) exec" where
  "ssd1306_init bus d b =
     (if initialized d \<noteq> 0 then Done (YDRASIL_DRIVER_OK, d, b)
      else
        (let (r1, b1) = oled_reset_and_configure bus (init_sequence d) b;
             (r2, b2) = (if r1 = YDRASIL_DRIVER_OK
                         then oled_reset_and_configure bus (init_sequence d) (bus_delay_ms bus 100 b1)
                         else (r1, b1))
         in exec_bind (if r2 = YDRASIL_DRIVER_OK
                       then ssd1306_clear bus d (bus_delay_ms bus 100 b2) else Done (r2, b2)) (\<lambda>(r3, b3).
            Done (r3, if r3 = YDRASIL_DRIVER_OK then d\<lparr>initialized := 1\<rparr> else d, b3))))"

definition ssd1306_configure :: "'b monitor_bus \<Rightarrow> int \<Rightarrow> int \<Rightarrow> ssd1306 \<Rightarrow> 'b \<Rightarrow> (int \<times> ssd1306 \<times> 'b) exec" where
  "ssd1306_configure bus controller flipped d b =
     (if controller \<noteq> SSD1306_CONTROLLER_SSD1306 \<and> controller \<noteq> SSD1306_CONTROLLER_SH1106
      then Done (YDRASIL_DRIVER_EINVAL, d, b)
      else ssd1306_init bus (d\<lparr>active_controller := controller,
                               active_flipped := (if flipped \<noteq> 0 then 1 else 0), initialized := 0\<rparr>) b)"

section \<open>Rendering\<close>

fun render_glyphs :: "nat \<Rightarrow> string \<Rightarrow> u8 list \<Rightarrow> u8 list exec" where
  "render_glyphs column [] row = Done row"
| "render_glyphs column (ch # text) row =
     (if column + FONT_SMALL_WIDTH + 1 \<le> SSD1306_WIDTH then
        exec_bind (memcpy_at column (font_small_columns ch) row)
          (render_glyphs (column + (FONT_SMALL_WIDTH + 1)) text)
      else Done row)"

definition render_line :: "string option \<Rightarrow> u8 list exec" where
  "render_line text =
     (let row = replicate SSD1306_WIDTH 0 in
      case text of None \<Rightarrow> Done row | Some s \<Rightarrow> render_glyphs 0 s row)"

fun visible_length :: "nat \<Rightarrow> string \<Rightarrow> nat" where
  "visible_length len [] = len"
| "visible_length len (ch # text) =
     (if (len + 1) * SSD1306_CHAR_STRIDE \<le> SSD1306_WIDTH then visible_length (len + 1) text else len)"

text \<open>The second loop of \<open>render_centered_line\<close>: \<open>n\<close> characters are read.\<close>

fun render_n_glyphs :: "nat \<Rightarrow> nat \<Rightarrow> string \<Rightarrow> u8 list \<Rightarrow> u8 list exec" where
  "render_n_glyphs 0 column text row = Done row"
| "render_n_glyphs (Suc n) column [] row = Fault"
| "render_n_glyphs (Suc n) column (ch # text) row =
     exec_bind (memcpy_at column (font_small_columns ch) row)
       (render_n_glyphs n (column + SSD1306_CHAR_STRIDE) text)"

definition render_centered_line :: "string option \<Rightarrow> u8 list exec" where
  "render_centered_line text =
     (let len = (case text of None \<Rightarrow> 0 | Some s \<Rightarrow> visible_length 0 s);
          width = (if len = 0 then 0 else len * SSD1306_CHAR_STRIDE - 1);
          column = (SSD1306_WIDTH - width) div 2
      in render_n_glyphs len column (case text of None \<Rightarrow> [] | Some s \<Rightarrow> s)
           (replicate SSD1306_WIDTH 0))"

definition ssd1306_show_line :: "'b monitor_bus \<Rightarrow> ssd1306 \<Rightarrow> u8 \<Rightarrow> string option \<Rightarrow> 'b \<Rightarrow> (int \<times> 'b) exec" where
  "ssd1306_show_line bus d page text b =
     (if unat page \<ge> SSD1306_PAGE_COUNT then Done (YDRASIL_DRIVER_EINVAL, b)
      else exec_bind (render_line text) (\<lambda>row. oled_write_page bus d page row b))"

definition ssd1306_display_off :: "'b monitor_bus \<Rightarrow> 'b \<Rightarrow> int \<times> 'b" where
  "ssd1306_display_off bus b = oled_command bus [0xae] b"

definition ssd1306_display_on :: "'b monitor_bus \<Rightarrow> 'b \<Rightarrow> int \<times> 'b" where
  "ssd1306_display_on bus b = oled_command bus [0xaf] b"

fun render_lines :: "nat \<Rightarrow> string option list \<Rightarrow> u8 list list \<Rightarrow> u8 list list exec" where
  "render_lines line [] fb = Done fb"
| "render_lines line (text # texts) fb =
     exec_bind (render_centered_line text) (\<lambda>row.
       exec_bind (store_at (line * 2) row fb) (render_lines (line + 1) texts))"

text \<open>The commit loop: every second page from \<open>page\<close> on, while the result is OK.\<close>

function commit_pages :: "nat \<Rightarrow> 'b monitor_bus \<Rightarrow> ssd1306 \<Rightarrow> int \<Rightarrow> 'b \<Rightarrow> (int \<times> 'b) exec" where
  "commit_pages page bus d result b =
     (if result = YDRASIL_DRIVER_OK \<and> page < SSD1306_PAGE_COUNT then
        exec_bind (load_at page (frame_buffer d)) (\<lambda>row.
          exec_bind (oled_write_page bus d (of_nat page) row b) (\<lambda>(result', b').
            commit_pages (page + 2) bus d result' b'))
      else Done (result, b))"
  by pat_completeness auto
termination
  by (relation "measure (\<lambda>(page, bus, d, result, b). SSD1306_PAGE_COUNT - page)")
    (auto simp: ssd1306_consts)

declare commit_pages.simps [simp del]

definition ssd1306_show_frame :: "'b monitor_bus \<Rightarrow> ssd1306 \<Rightarrow> string option list \<Rightarrow> 'b
    \<Rightarrow> (int \<times> ssd1306 \<times> 'b) exec" where
  "ssd1306_show_frame bus d ls b =
     exec_bind (render_lines 0 ls (replicate SSD1306_PAGE_COUNT (replicate SSD1306_WIDTH 0))) (\<lambda>fb.
       exec_bind (ssd1306_init bus (d\<lparr>frame_buffer := fb\<rparr>) b) (\<lambda>(r0, d, b).
         if r0 \<noteq> YDRASIL_DRIVER_OK then Done (r0, d, b)
         else
           let (r1, b) = ssd1306_display_off bus b;
               (r2, b) = (if r1 = YDRASIL_DRIVER_OK then oled_command bus [0x40] b else (r1, b))
           in exec_bind (commit_pages 0 bus d r2 b) (\<lambda>(r3, b).
                if r3 = YDRASIL_DRIVER_OK then
                  (let (r4, b) = ssd1306_display_on bus b in Done (r4, d, b))
                else (let (_, b) = ssd1306_display_on bus b in Done (r3, d, b)))))"

section \<open>What is sent\<close>

text \<open>
  The same steps without the bounds of the arrays they read: what the driver sends when every
  row has the 128 columns of the panel. The lemmas below show that its loops then read inside
  their arrays, so that each operation is done with exactly this.
\<close>

function sent_columns :: "'b monitor_bus \<Rightarrow> nat \<Rightarrow> u8 list \<Rightarrow> 'b \<Rightarrow> int \<times> 'b" where
  "sent_columns bus column data b =
     (if column < SSD1306_WIDTH then
        (let (result, b') = oled_write bus 1 (take SSD1306_WRITE_CHUNK (drop column data)) b
         in if result \<noteq> YDRASIL_DRIVER_OK then (result, b')
            else sent_columns bus (column + SSD1306_WRITE_CHUNK) data b')
      else (YDRASIL_DRIVER_OK, b))"
  by pat_completeness auto
termination
  by (relation "measure (\<lambda>(bus, column, data, b). SSD1306_WIDTH - column)")
    (auto simp: ssd1306_consts)

declare sent_columns.simps [simp del]

definition sent_page :: "'b monitor_bus \<Rightarrow> ssd1306 \<Rightarrow> u8 \<Rightarrow> u8 list \<Rightarrow> 'b \<Rightarrow> int \<times> 'b" where
  "sent_page bus d page data b =
     (let (result, b1) = oled_set_position bus d page 0 b in
      if result \<noteq> YDRASIL_DRIVER_OK then (result, b1) else sent_columns bus 0 data b1)"

fun sent_clear :: "nat \<Rightarrow> u8 \<Rightarrow> 'b monitor_bus \<Rightarrow> ssd1306 \<Rightarrow> 'b \<Rightarrow> int \<times> 'b" where
  "sent_clear 0 page bus d b = (YDRASIL_DRIVER_OK, b)"
| "sent_clear (Suc n) page bus d b =
     (let (result, b') = sent_page bus d page (replicate SSD1306_WIDTH 0) b in
      if result \<noteq> YDRASIL_DRIVER_OK then (result, b') else sent_clear n (page + 1) bus d b')"

definition sent_init :: "'b monitor_bus \<Rightarrow> ssd1306 \<Rightarrow> 'b \<Rightarrow> int \<times> ssd1306 \<times> 'b" where
  "sent_init bus d b =
     (if initialized d \<noteq> 0 then (YDRASIL_DRIVER_OK, d, b)
      else
        (let (r1, b1) = oled_reset_and_configure bus (init_sequence d) b;
             (r2, b2) = (if r1 = YDRASIL_DRIVER_OK
                         then oled_reset_and_configure bus (init_sequence d) (bus_delay_ms bus 100 b1)
                         else (r1, b1));
             (r3, b3) = (if r2 = YDRASIL_DRIVER_OK
                         then sent_clear SSD1306_PAGE_COUNT 0 bus d (bus_delay_ms bus 100 b2) else (r2, b2))
         in (r3, if r3 = YDRASIL_DRIVER_OK then d\<lparr>initialized := 1\<rparr> else d, b3)))"

function sent_commit :: "nat \<Rightarrow> 'b monitor_bus \<Rightarrow> ssd1306 \<Rightarrow> int \<Rightarrow> 'b \<Rightarrow> int \<times> 'b" where
  "sent_commit page bus d result b =
     (if result = YDRASIL_DRIVER_OK \<and> page < SSD1306_PAGE_COUNT then
        (let (result', b') = sent_page bus d (of_nat page) (frame_buffer d ! page) b
         in sent_commit (page + 2) bus d result' b')
      else (result, b))"
  by pat_completeness auto
termination
  by (relation "measure (\<lambda>(page, bus, d, result, b). SSD1306_PAGE_COUNT - page)")
    (auto simp: ssd1306_consts)

declare sent_commit.simps [simp del]

lemma oled_write_columns_sent:
  "length data = 128 \<Longrightarrow> 4 dvd column \<Longrightarrow>
     oled_write_columns bus column data b = Done (sent_columns bus column data b)"
proof (induction bus column data b rule: sent_columns.induct)
  case (1 bus column data b)
  show ?case
  proof (cases "column < 128")
    case True
    then have "column + 4 \<le> 128" using 1(3) by presburger
    then show ?thesis
      using 1 True by (subst oled_write_columns.simps, subst sent_columns.simps)
        (auto simp: ssd1306_consts split: prod.split)
  qed (subst oled_write_columns.simps, subst sent_columns.simps, simp add: ssd1306_consts)
qed

lemma oled_write_page_sent:
  "length data = 128 \<Longrightarrow> oled_write_page bus d page data b = Done (sent_page bus d page data b)"
  by (simp add: oled_write_page_def sent_page_def oled_write_columns_sent split: prod.split)

lemma clear_pages_sent: "clear_pages n page bus d b = Done (sent_clear n page bus d b)"
  by (induction n arbitrary: page b)
    (simp_all add: oled_write_page_sent SSD1306_WIDTH_def split: prod.split)

lemma ssd1306_init_sent: "ssd1306_init bus d b = Done (sent_init bus d b)"
  by (simp add: ssd1306_init_def sent_init_def ssd1306_clear_def clear_pages_sent split: prod.split)

lemma sent_init_frame: "frame_buffer (fst (snd (sent_init bus d b))) = frame_buffer d"
  by (simp add: sent_init_def split: prod.split)

text \<open>The frame buffer holds the rows of the panel.\<close>

definition frame_shape :: "u8 list list \<Rightarrow> bool" where
  "frame_shape fb \<longleftrightarrow> length fb = 8 \<and> (\<forall>row \<in> set fb. length row = 128)"

lemma commit_pages_sent:
  "frame_shape (frame_buffer d) \<Longrightarrow> commit_pages page bus d r b = Done (sent_commit page bus d r b)"
proof (induction page bus d r b rule: sent_commit.induct)
  case (1 page bus d r b)
  then show ?case
    by (subst commit_pages.simps, subst sent_commit.simps)
      (auto simp: oled_write_page_sent frame_shape_def SSD1306_PAGE_COUNT_def split: prod.split)
qed

lemma render_n_glyphs_length: "render_n_glyphs n column s row = Done row' \<Longrightarrow> length row' = length row"
  by (induction n column s row rule: render_n_glyphs.induct)
    (auto simp: exec_bind_Done_iff dest: memcpy_at_length)

lemma render_centered_line_length: "render_centered_line text = Done row \<Longrightarrow> length row = 128"
  by (auto simp: render_centered_line_def Let_def SSD1306_WIDTH_def dest: render_n_glyphs_length)

lemma render_lines_shape: "render_lines k ls fb = Done fb' \<Longrightarrow> frame_shape fb \<Longrightarrow> frame_shape fb'"
proof (induction ls arbitrary: k fb)
  case (Cons l ls)
  from Cons.prems(1) obtain row where row: "render_centered_line l = Done row" "k * 2 < length fb"
    "render_lines (k + 1) ls (fb[k * 2 := row]) = Done fb'"
    by (auto simp: exec_bind_Done_iff store_at_def split: if_splits)
  then show ?case
    using Cons.prems(2) set_update_subset_insert[of fb "k * 2" row]
    by (intro Cons.IH[OF row(3)]) (auto simp: frame_shape_def dest!: render_centered_line_length)
qed simp

text \<open>\<open>ssd1306_show_frame\<close> reads inside its arrays: what it does is what is sent.\<close>

lemma ssd1306_show_frame_sent:
  "ssd1306_show_frame bus d ls b =
     exec_bind (render_lines 0 ls (replicate SSD1306_PAGE_COUNT (replicate SSD1306_WIDTH 0))) (\<lambda>fb.
       let d = d\<lparr>frame_buffer := fb\<rparr>;
           (r0, d, b) = sent_init bus d b
       in if r0 \<noteq> YDRASIL_DRIVER_OK then Done (r0, d, b)
          else
            let (r1, b) = ssd1306_display_off bus b;
                (r2, b) = (if r1 = YDRASIL_DRIVER_OK then oled_command bus [0x40] b else (r1, b));
                (r3, b) = sent_commit 0 bus d r2 b
            in if r3 = YDRASIL_DRIVER_OK then
                 (let (r4, b) = ssd1306_display_on bus b in Done (r4, d, b))
               else (let (_, b) = ssd1306_display_on bus b in Done (r3, d, b)))"
proof (cases "render_lines 0 ls (replicate SSD1306_PAGE_COUNT (replicate SSD1306_WIDTH 0))")
  case (Done fb)
  have shape: "frame_shape fb"
    by (rule render_lines_shape[OF Done]) (simp add: frame_shape_def ssd1306_consts)
  obtain r0 d0 b0 where i: "sent_init bus (d\<lparr>frame_buffer := fb\<rparr>) b = (r0, d0, b0)" by (rule prod_cases3)
  then have "frame_buffer d0 = fb" using sent_init_frame[of bus "d\<lparr>frame_buffer := fb\<rparr>" b] by simp
  then show ?thesis
    using Done i shape
    by (simp add: ssd1306_show_frame_def ssd1306_init_sent commit_pages_sent split: prod.split)
qed (simp_all add: ssd1306_show_frame_def)

section \<open>What is rendered\<close>

text \<open>The columns of a text: each glyph and a blank column.\<close>

definition text_columns :: "string \<Rightarrow> u8 list" where
  "text_columns s = concat (map (\<lambda>ch. font_small_columns ch @ [0]) s)"

text \<open>
  At most 21 characters fit a row. A line starts at the left edge; a centered line starts
  at half of the columns it leaves free.
\<close>

definition line_row :: "string \<Rightarrow> u8 list" where
  "line_row s = (let t = take 21 s in text_columns t @ replicate (128 - 6 * length t) 0)"

definition centered_column :: "nat \<Rightarrow> nat" where
  "centered_column n = (128 - (6 * n - 1)) div 2"

definition centered_row :: "string \<Rightarrow> u8 list" where
  "centered_row s =
     (let t = take 21 s; c = centered_column (length t)
      in replicate c 0 @ text_columns t @ replicate (128 - c - 6 * length t) 0)"

lemma text_columns_simps [simp]:
  "text_columns [] = []"
  "text_columns (ch # s) = font_small_columns ch @ 0 # text_columns s"
  by (auto simp: text_columns_def)

lemma length_text_columns [simp]: "length (text_columns s) = 6 * length s"
  by (induction s) auto

lemma replicate_after_glyph: "6 \<le> k \<Longrightarrow> replicate (k - 5) (0::u8) = 0 # replicate (k - 6) 0"
  by (metis One_nat_def Suc_diff_le add_Suc_right diff_Suc_Suc eval_nat_numeral(3) numeral_nat(2,3)
      plus_1_eq_Suc replicate_Suc semiring_norm(26,27,28))

lemma render_glyphs_row:
  "length pre = column \<Longrightarrow> column + k = 128 \<Longrightarrow>
     render_glyphs column s (pre @ replicate k 0) =
       Done (pre @ text_columns (take (k div 6) s) @ replicate (k - 6 * length (take (k div 6) s)) 0)"
proof (induction s arbitrary: pre column k)
  case (Cons ch s)
  show ?case
  proof (cases "6 \<le> k")
    case True
    then have div: "k div 6 = Suc ((k - 6) div 6)"
      by (metis Nat.le_imp_diff_is_add add_self_div_2 div_add_self2 add.commute Suc_eq_plus1_left zero_neq_numeral)
    have row: "blit column (font_small_columns ch) (pre @ replicate k 0) =
        (pre @ font_small_columns ch @ [0]) @ replicate (k - 6) 0"
      using Cons.prems True by (simp add: blit_pre replicate_after_glyph)
    have "render_glyphs (column + 6) s ((pre @ font_small_columns ch @ [0]) @ replicate (k - 6) 0) =
        Done ((pre @ font_small_columns ch @ [0]) @ text_columns (take ((k - 6) div 6) s) @
          replicate (k - 6 - 6 * length (take ((k - 6) div 6) s)) 0)"
      using Cons.prems True by (intro Cons.IH) auto
    then show ?thesis
      using Cons.prems True row div by (simp add: ssd1306_consts)
  next
    case False
    with Cons.prems show ?thesis by (simp add: ssd1306_consts)
  qed
qed simp

lemma render_n_glyphs_row:
  "length pre = column \<Longrightarrow> n \<le> length s \<Longrightarrow> column + k = 128 \<Longrightarrow> 6 * n \<le> k \<Longrightarrow>
     render_n_glyphs n column s (pre @ replicate k 0) =
       Done (pre @ text_columns (take n s) @ replicate (k - 6 * n) 0)"
proof (induction n arbitrary: pre column s k)
  case (Suc n)
  then obtain ch t where s: "s = ch # t" by (cases s) auto
  have row: "blit column (font_small_columns ch) (pre @ replicate k 0) =
      (pre @ font_small_columns ch @ [0]) @ replicate (k - 6) 0"
    using Suc.prems by (simp add: blit_pre replicate_after_glyph)
  have "render_n_glyphs n (column + 6) t ((pre @ font_small_columns ch @ [0]) @ replicate (k - 6) 0) =
      Done ((pre @ font_small_columns ch @ [0]) @ text_columns (take n t) @ replicate (k - 6 - 6 * n) 0)"
    using Suc.prems s by (intro Suc.IH) auto
  then show ?case
    using Suc.prems row by (simp add: s ssd1306_consts)
qed simp

lemma visible_length_eq: "n \<le> 21 \<Longrightarrow> visible_length n s = n + length (take (21 - n) s)"
proof (induction s arbitrary: n)
  case (Cons ch s)
  show ?case
  proof (cases "n < 21")
    case True
    with Cons.IH[of "Suc n"] show ?thesis
      by (simp add: ssd1306_consts Suc_diff_Suc take_Cons')
  next
    case False
    with Cons.prems show ?thesis by (simp add: ssd1306_consts)
  qed
qed simp

lemma render_line_row: "render_line (Some s) = Done (line_row s)"
  using render_glyphs_row[of "[]" 0 128 s]
  by (simp add: render_line_def line_row_def Let_def ssd1306_consts)

lemma render_centered_line_row: "render_centered_line (Some s) = Done (centered_row s)"
proof -
  let ?n = "length (take 21 s)" let ?c = "centered_column ?n"
  have n: "?n \<le> 21" by simp
  then have c: "?c + 6 * ?n \<le> 128" unfolding centered_column_def by linarith
  have split: "replicate 128 (0::u8) = replicate ?c 0 @ replicate (128 - ?c) 0"
    using c by (simp add: replicate_add[symmetric])
  have "render_n_glyphs ?n ?c s (replicate ?c 0 @ replicate (128 - ?c) 0) =
      Done (replicate ?c 0 @ text_columns (take ?n s) @ replicate (128 - ?c - 6 * ?n) 0)"
    using c by (intro render_n_glyphs_row) auto
  moreover have "take ?n s = take 21 s" by (simp add: min_def)
  moreover have "visible_length 0 s = ?n" using visible_length_eq[of 0 s] by simp
  ultimately show ?thesis
    using split by (cases s) (simp_all add: render_centered_line_def centered_row_def Let_def
        ssd1306_consts centered_column_def mult.commute)
qed

lemma render_centered_line_defined: "\<exists>row. render_centered_line text = Done row"
  by (cases "text") (auto simp: render_centered_line_row, simp add: render_centered_line_def)

lemma render_line_defined: "\<exists>row. render_line text = Done row"
  by (cases "text") (auto simp: render_line_row, simp add: render_line_def)

lemma length_line_row: "length (line_row s) = 128"
  by (simp add: line_row_def Let_def)

lemma render_line_length: "render_line text = Done row \<Longrightarrow> length row = 128"
  by (cases "text") (auto simp: render_line_row length_line_row, auto simp: render_line_def SSD1306_WIDTH_def)

lemma render_lines_defined:
  "2 * (k + length ls) \<le> Suc (length fb) \<Longrightarrow> \<exists>fb'. render_lines k ls fb = Done fb'"
proof (induction ls arbitrary: k fb)
  case (Cons l ls)
  obtain row where "render_centered_line l = Done row" using render_centered_line_defined by blast
  moreover from Cons.IH[of "k + 1" "fb[k * 2 := row]"] Cons.prems
  have "\<exists>fb'. render_lines (k + 1) ls (fb[k * 2 := row]) = Done fb'" by simp
  ultimately show ?case using Cons.prems by simp
qed simp

section \<open>Properties\<close>

text \<open>C6. Drawing never leaves its buffers: whatever the bus, the panel state and the four
  strings (null or not, of any length), \<open>ssd1306_show_frame\<close> runs to an end without an
  access outside the row or frame buffers, and so does \<open>ssd1306_show_line\<close>: neither the
  writes of the glyphs nor the reads of the commit loop, of \<open>oled_write_page\<close> (chunk by
  chunk) and of \<open>ssd1306_clear\<close> leave their array, each of them being checked.\<close>

theorem ssd1306_drawing_in_bounds:
  "(\<exists>r. ssd1306_show_frame bus d [l0, l1, l2, l3] b = Done r) \<and>
   (\<exists>r. ssd1306_show_line bus d page text b = Done r)"
proof
  obtain fb where "render_lines 0 [l0, l1, l2, l3] (replicate SSD1306_PAGE_COUNT (replicate SSD1306_WIDTH 0)) = Done fb"
    using render_lines_defined[of 0 "[l0, l1, l2, l3]" "replicate 8 (replicate 128 0)"]
    by (auto simp: ssd1306_consts)
  then show "\<exists>r. ssd1306_show_frame bus d [l0, l1, l2, l3] b = Done r"
    by (simp add: ssd1306_show_frame_sent Let_def split: prod.split)
  show "\<exists>r. ssd1306_show_line bus d page text b = Done r"
    using render_line_defined[of "text"] render_line_length[of "text"]
    by (auto simp: ssd1306_show_line_def oled_write_page_sent)
qed

end
