(* ===== verification/Mock_Bus.thy ===== *)
theory Mock_Bus
  imports Ms601m Ssd1306
begin

text \<open>
  The simulated board of \<^verbatim>\<open>verif/sw/driver/mock_monitor_bus.c\<close>, which implements
  the bus functions by a receiver that replays one sensor frame, a display controller that
  decodes its commands into a picture, and a clock that advances when the driver sleeps.
  It satisfies the contract of the sensor driver, and on it the display driver's effect is
  the picture itself.
\<close>

section \<open>The devices\<close>

definition MOCK_OLED_DC_GPIO :: u32 where [code_unfold]: "MOCK_OLED_DC_GPIO = 1"
definition MOCK_OLED_WIDTH :: nat where [code_unfold]: "MOCK_OLED_WIDTH = 132"
definition MOCK_OLED_PAGES :: nat where [code_unfold]: "MOCK_OLED_PAGES = 8"

lemmas mock_consts = MOCK_OLED_WIDTH_def MOCK_OLED_PAGES_def MOCK_OLED_DC_GPIO_def

record mock =
  uart_frame :: "u8 list"
  uart_frame_size :: nat
  uart_frame_offset :: nat
  framebuffer :: "u8 list list"
  oled_page :: u8
  oled_column :: u8
  oled_data_mode :: int
  elapsed_ms :: u32
  oled_max_data_write_size :: nat
  oled_display_off_count :: nat
  oled_display_on_count :: nat

definition mock_monitor_reset :: mock where
  "mock_monitor_reset =
     \<lparr>uart_frame = replicate 32 0, uart_frame_size = 0, uart_frame_offset = 0,
      framebuffer = replicate MOCK_OLED_PAGES (replicate MOCK_OLED_WIDTH 0),
      oled_page = 0, oled_column = 0, oled_data_mode = 0, elapsed_ms = 0,
      oled_max_data_write_size = 0, oled_display_off_count = 0, oled_display_on_count = 0\<rparr>"

definition append_i16_le :: "nat \<Rightarrow> u16 \<Rightarrow> u8 list \<Rightarrow> u8 list" where
  "append_i16_le off v f = f[off := ucast v, off + 1 := ucast (drop_bit 8 v)]"

text \<open>The sum of the first ten bytes, as the loop adds them up.\<close>

fun frame_checksum :: "nat \<Rightarrow> u8 list \<Rightarrow> u8" where
  "frame_checksum 0 f = 0"
| "frame_checksum (Suc n) f = frame_checksum n f + f ! n"

definition mock_ms601m_set_attitude_raw :: "u16 \<Rightarrow> u16 \<Rightarrow> u16 \<Rightarrow> mock \<Rightarrow> mock" where
  "mock_ms601m_set_attitude_raw roll pitch yaw m =
     (let f = (uart_frame m)[0 := 0x55, 1 := 0x55, 2 := 0x01, 3 := 0x06];
          f = append_i16_le 8 yaw (append_i16_le 6 pitch (append_i16_le 4 roll f));
          f = f[10 := frame_checksum 10 f]
      in m\<lparr>uart_frame := f, uart_frame_size := 11, uart_frame_offset := 0\<rparr>)"

definition mock_uart1_reset :: "u32 \<Rightarrow> mock \<Rightarrow> mock" where
  "mock_uart1_reset baudrate m = m\<lparr>uart_frame_offset := 0\<rparr>"

definition mock_uart1_getc :: "mock \<Rightarrow> int \<times> u8 option \<times> mock" where
  "mock_uart1_getc m =
     (if uart_frame_offset m \<ge> uart_frame_size m then (YDRASIL_DRIVER_EEMPTY, None, m)
      else (YDRASIL_DRIVER_OK, Some (uart_frame m ! uart_frame_offset m),
            m\<lparr>uart_frame_offset := uart_frame_offset m + 1\<rparr>))"

definition mock_gpio_write :: "u32 \<Rightarrow> int \<Rightarrow> mock \<Rightarrow> mock" where
  "mock_gpio_write pin high m =
     (if pin = MOCK_OLED_DC_GPIO then m\<lparr>oled_data_mode := (if high \<noteq> 0 then 1 else 0)\<rparr> else m)"

definition process_oled_command :: "u8 \<Rightarrow> mock \<Rightarrow> mock" where
  "process_oled_command command m =
     (if command = 0xae then m\<lparr>oled_display_off_count := oled_display_off_count m + 1\<rparr>
      else if command = 0xaf then m\<lparr>oled_display_on_count := oled_display_on_count m + 1\<rparr>
      else if command AND 0xf8 = 0xb0 then m\<lparr>oled_page := command AND 0x07\<rparr>
      else if command AND 0xf0 = 0x00 then
        m\<lparr>oled_column := (oled_column m AND 0xf0) OR (command AND 0x0f)\<rparr>
      else if command AND 0xf0 = 0x10 then
        m\<lparr>oled_column := (oled_column m AND 0x0f) OR push_bit 4 (command AND 0x0f)\<rparr>
      else m)"

definition mock_oled_byte :: "u8 \<Rightarrow> mock \<Rightarrow> mock" where
  "mock_oled_byte byte m =
     (if oled_data_mode m = 0 then process_oled_command byte m
      else if unat (oled_page m) < MOCK_OLED_PAGES \<and> unat (oled_column m) < MOCK_OLED_WIDTH then
        m\<lparr>framebuffer := (framebuffer m)[unat (oled_page m) :=
             (framebuffer m ! unat (oled_page m))[unat (oled_column m) := byte]],
          oled_column := oled_column m + 1\<rparr>
      else m)"

definition mock_spi0_write :: "u8 list \<Rightarrow> mock \<Rightarrow> int \<times> mock" where
  "mock_spi0_write data m =
     (let m = (if oled_data_mode m \<noteq> 0 \<and> length data > oled_max_data_write_size m
               then m\<lparr>oled_max_data_write_size := length data\<rparr> else m)
      in (YDRASIL_DRIVER_OK, fold mock_oled_byte data m))"

definition mock_millis :: "mock \<Rightarrow> u32 \<times> mock" where
  "mock_millis m = (elapsed_ms m, m)"

definition mock_delay_ms :: "u32 \<Rightarrow> mock \<Rightarrow> mock" where
  "mock_delay_ms ms m = m\<lparr>elapsed_ms := elapsed_ms m + ms\<rparr>"

definition mock_bus :: "mock monitor_bus" where
  "mock_bus =
     \<lparr>bus_uart1_reset = mock_uart1_reset, bus_uart1_getc = mock_uart1_getc,
      bus_gpio_write = mock_gpio_write, bus_spi0_write = mock_spi0_write,
      bus_millis = mock_millis, bus_delay_ms = mock_delay_ms\<rparr>"

text \<open>The population count of the picture, as its two loops and the shift loop add it up.\<close>

fun count_pixels :: "nat \<Rightarrow> u8 \<Rightarrow> nat" where
  "count_pixels 0 pixels = 0"
| "count_pixels (Suc n) pixels =
     (if pixels \<noteq> 0 then unat (pixels AND 1) + count_pixels n (drop_bit 1 pixels) else 0)"

definition mock_display_pixel_count :: "mock \<Rightarrow> nat" where
  "mock_display_pixel_count m = sum_list (map (\<lambda>row. sum_list (map (count_pixels 9) row)) (framebuffer m))"

definition mock_display_column :: "nat \<Rightarrow> nat \<Rightarrow> mock \<Rightarrow> u8" where
  "mock_display_column page column m =
     (if page \<ge> MOCK_OLED_PAGES \<or> column \<ge> MOCK_OLED_WIDTH then 0
      else framebuffer m ! page ! column)"

lemma mock_bus_simps [simp]:
  "bus_uart1_reset mock_bus = mock_uart1_reset" "bus_uart1_getc mock_bus = mock_uart1_getc"
  "bus_gpio_write mock_bus = mock_gpio_write" "bus_spi0_write mock_bus = mock_spi0_write"
  "bus_millis mock_bus = mock_millis" "bus_delay_ms mock_bus = mock_delay_ms"
  by (simp_all add: mock_bus_def)

section \<open>The receiver satisfies the contract of the sensor driver\<close>

definition mock_uart_ok :: "mock \<Rightarrow> bool" where
  "mock_uart_ok m \<longleftrightarrow> uart_frame_size m \<le> length (uart_frame m)"

definition mock_stream :: "mock \<Rightarrow> u8 list" where
  "mock_stream m = drop (uart_frame_offset m) (take (uart_frame_size m) (uart_frame m))"

lemma mock_stream_Cons:
  assumes "mock_uart_ok m" and "mock_stream m = x # xs"
  shows "uart_frame_offset m < uart_frame_size m" and "uart_frame m ! uart_frame_offset m = x"
    and "drop (Suc (uart_frame_offset m)) (take (uart_frame_size m) (uart_frame m)) = xs"
proof -
  have len: "length (mock_stream m) = uart_frame_size m - uart_frame_offset m"
    using assms(1) by (simp add: mock_stream_def mock_uart_ok_def)
  then show lt: "uart_frame_offset m < uart_frame_size m" using assms(2) by simp
  have "mock_stream m ! 0 = uart_frame m ! uart_frame_offset m"
    using lt assms(1) by (simp add: mock_stream_def mock_uart_ok_def)
  then show "uart_frame m ! uart_frame_offset m = x" using assms(2) by simp
  show "drop (Suc (uart_frame_offset m)) (take (uart_frame_size m) (uart_frame m)) = xs"
    using assms(2) unfolding mock_stream_def by (metis drop_Suc list.sel(3) tl_drop)
qed

lemma mock_stream_empty:
  "mock_uart_ok m \<Longrightarrow> mock_stream m = [] \<longleftrightarrow> uart_frame_size m \<le> uart_frame_offset m"
  by (auto simp: mock_stream_def mock_uart_ok_def)

interpretation mock_uart: uart_stream mock_bus mock_uart_ok mock_stream elapsed_ms
proof
  fix b :: mock and x xs
  assume ok: "mock_uart_ok b" and st: "mock_stream b = x # xs"
  let ?b = "b\<lparr>uart_frame_offset := uart_frame_offset b + 1\<rparr>"
  have "bus_uart1_getc mock_bus b = (YDRASIL_DRIVER_OK, Some x, ?b)"
    using mock_stream_Cons[OF ok st] by (simp add: mock_uart1_getc_def)
  moreover have "mock_uart_ok ?b" "mock_stream ?b = xs" "elapsed_ms ?b = elapsed_ms b"
    using mock_stream_Cons[OF ok st] ok by (auto simp: mock_uart_ok_def mock_stream_def)
  ultimately show "\<exists>b'. bus_uart1_getc mock_bus b = (YDRASIL_DRIVER_OK, Some x, b') \<and>
      mock_uart_ok b' \<and> mock_stream b' = xs \<and> elapsed_ms b' = elapsed_ms b" by blast
next
  fix b :: mock
  assume ok: "mock_uart_ok b" and "mock_stream b = []"
  then have "bus_uart1_getc mock_bus b = (YDRASIL_DRIVER_EEMPTY, None, b)"
    by (simp add: mock_stream_empty mock_uart1_getc_def)
  with ok \<open>mock_stream b = []\<close> show "\<exists>b'. bus_uart1_getc mock_bus b = (YDRASIL_DRIVER_EEMPTY, None, b') \<and>
      mock_uart_ok b' \<and> mock_stream b' = [] \<and> elapsed_ms b' = elapsed_ms b" by blast
qed (auto simp: mock_millis_def mock_delay_ms_def mock_uart1_reset_def mock_uart_ok_def mock_stream_def)

section \<open>The attitude frame of the simulation\<close>

lemma read_le_i16_append: "read_le_i16 (ucast v) (ucast (drop_bit 8 v)) = sint (v :: u16)"
proof -
  have "push_bit 8 (ucast (ucast (drop_bit 8 v) :: u8)) OR ucast (ucast v :: u8) = v"
    by (rule bit_word_eqI) (auto simp: bit_simps)
  then show ?thesis by (simp add: read_le_i16_def)
qed

lemma list_32: "length f = 32 \<Longrightarrow> \<exists>a0 a1 a2 a3 a4 a5 a6 a7 a8 a9 a10 rest.
    f = a0 # a1 # a2 # a3 # a4 # a5 # a6 # a7 # a8 # a9 # a10 # rest \<and> length rest = 21"
  by (auto simp: numeral_eq_Suc length_Suc_conv)

lemma mock_set_attitude_stream:
  assumes "length (uart_frame m) = 32"
  shows "mock_stream (mock_ms601m_set_attitude_raw roll pitch yaw m) =
      ms601m_frame MS601M_ATTITUDE_ID
        [ucast roll, ucast (drop_bit 8 roll), ucast pitch, ucast (drop_bit 8 pitch),
         ucast yaw, ucast (drop_bit 8 yaw)]"
    and "mock_uart_ok (mock_ms601m_set_attitude_raw roll pitch yaw m)"
proof -
  obtain a0 a1 a2 a3 a4 a5 a6 a7 a8 a9 a10 rest where
    f: "uart_frame m = a0 # a1 # a2 # a3 # a4 # a5 # a6 # a7 # a8 # a9 # a10 # rest" "length rest = 21"
    using list_32[OF assms] by blast
  show "mock_stream (mock_ms601m_set_attitude_raw roll pitch yaw m) =
      ms601m_frame MS601M_ATTITUDE_ID
        [ucast roll, ucast (drop_bit 8 roll), ucast pitch, ucast (drop_bit 8 pitch),
         ucast yaw, ucast (drop_bit 8 yaw)]"
    by (simp add: mock_ms601m_set_attitude_raw_def mock_stream_def f append_i16_le_def Let_def
        ms601m_frame_def MS601M_ATTITUDE_ID_def eval_nat_numeral algebra_simps)
  show "mock_uart_ok (mock_ms601m_set_attitude_raw roll pitch yaw m)"
    by (simp add: mock_ms601m_set_attitude_raw_def mock_uart_ok_def f append_i16_le_def Let_def)
qed

section \<open>The display driver on the simulated panel\<close>

definition panel :: "mock \<Rightarrow> bool" where
  "panel m \<longleftrightarrow> length (framebuffer m) = 8 \<and> (\<forall>row \<in> set (framebuffer m). length row = 132)"

lemma panel_row: "panel m \<Longrightarrow> p < 8 \<Longrightarrow> length (framebuffer m ! p) = 132"
  by (simp add: panel_def)

lemma panel_update:
  "panel m \<Longrightarrow> framebuffer m' = (framebuffer m)[p := row] \<Longrightarrow> length row = 132 \<Longrightarrow> panel m'"
  by (auto simp: panel_def dest: set_update_subset_insert[THEN subsetD])

text \<open>Commands never touch the picture.\<close>

lemma process_oled_command_frame [simp]:
  "framebuffer (process_oled_command c m) = framebuffer m"
  "oled_data_mode (process_oled_command c m) = oled_data_mode m"
  "oled_max_data_write_size (process_oled_command c m) = oled_max_data_write_size m"
  by (simp_all add: process_oled_command_def)

lemma fold_commands:
  "oled_data_mode m = 0 \<Longrightarrow> fold mock_oled_byte cs m = fold process_oled_command cs m"
  by (induction cs arbitrary: m) (auto simp: mock_oled_byte_def)

lemma fold_commands_frame [simp]:
  "framebuffer (fold process_oled_command cs m) = framebuffer m"
  "oled_data_mode (fold process_oled_command cs m) = oled_data_mode m"
  "oled_max_data_write_size (fold process_oled_command cs m) = oled_max_data_write_size m"
  by (induction cs arbitrary: m) auto

definition command_mode :: "mock \<Rightarrow> mock" where
  "command_mode m = m\<lparr>oled_data_mode := 0\<rparr>"

lemma oled_command_mock:
  "oled_command mock_bus cs m = (YDRASIL_DRIVER_OK, fold process_oled_command cs (command_mode m))"
  by (simp add: oled_command_def oled_write_def mock_gpio_write_def SSD1306_DC_GPIO_def
      MOCK_OLED_DC_GPIO_def mock_spi0_write_def Let_def fold_commands command_mode_def)

lemma command_mode_simps [simp]:
  "framebuffer (command_mode m) = framebuffer m" "oled_data_mode (command_mode m) = 0"
  "oled_max_data_write_size (command_mode m) = oled_max_data_write_size m"
  "oled_display_off_count (command_mode m) = oled_display_off_count m"
  "oled_display_on_count (command_mode m) = oled_display_on_count m"
  by (simp_all add: command_mode_def)

text \<open>A run of data bytes is one copy into the row of the selected page.\<close>

lemma fold_data_bytes:
  "oled_data_mode m \<noteq> 0 \<Longrightarrow> panel m \<Longrightarrow> unat (oled_page m) < 8 \<Longrightarrow>
     unat (oled_column m) + length bs \<le> 132 \<Longrightarrow>
     fold mock_oled_byte bs m =
       m\<lparr>framebuffer := (framebuffer m)[unat (oled_page m) :=
            blit (unat (oled_column m)) bs (framebuffer m ! unat (oled_page m))],
         oled_column := oled_column m + of_nat (length bs)\<rparr>"
proof (induction bs arbitrary: m)
  case (Cons c bs)
  let ?p = "unat (oled_page m)" and ?k = "unat (oled_column m)"
  let ?row = "framebuffer m ! ?p"
  define m1 where "m1 = m\<lparr>framebuffer := (framebuffer m)[?p := ?row[?k := c]],
    oled_column := oled_column m + 1\<rparr>"
  have step: "mock_oled_byte c m = m1"
    using Cons.prems by (simp add: mock_oled_byte_def mock_consts m1_def)
  have k: "unat (oled_column m + 1) = ?k + 1"
    using Cons.prems(4) unat_inc_no_wrap[of "oled_column m" 200] by (simp add: word_less_nat_alt)
  have "panel m1"
    by (rule panel_update[OF Cons.prems(2)]) (use Cons.prems in \<open>auto simp: m1_def panel_row\<close>)
  then have "fold mock_oled_byte bs m1 =
       m1\<lparr>framebuffer := (framebuffer m1)[?p := blit (?k + 1) bs (?row[?k := c])],
          oled_column := oled_column m1 + of_nat (length bs)\<rparr>"
    using Cons.prems k Cons.IH[of m1] by (simp add: m1_def panel_def)
  moreover have "blit (?k + 1) bs (?row[?k := c]) = blit ?k (c # bs) ?row"
    using panel_row[OF Cons.prems(2,3)] Cons.prems(4)
    by (intro nth_equalityI) (auto simp: nth_blit nth_list_update nth_Cons' )
  ultimately show ?case by (simp add: step m1_def algebra_simps)
qed (simp add: panel_def)

lemma oled_write_data_mock:
  assumes "panel m" and "unat (oled_page m) < 8" and "unat (oled_column m) + length bs \<le> 132"
  shows "oled_write mock_bus 1 bs m = (YDRASIL_DRIVER_OK,
    m\<lparr>oled_data_mode := 1, oled_max_data_write_size := max (oled_max_data_write_size m) (length bs),
      framebuffer := (framebuffer m)[unat (oled_page m) :=
            blit (unat (oled_column m)) bs (framebuffer m ! unat (oled_page m))],
      oled_column := oled_column m + of_nat (length bs)\<rparr>)"
proof -
  define m1 where "m1 = m\<lparr>oled_data_mode := 1,
    oled_max_data_write_size := max (oled_max_data_write_size m) (length bs)\<rparr>"
  have "oled_write mock_bus 1 bs m = (YDRASIL_DRIVER_OK, fold mock_oled_byte bs m1)"
    by (auto simp: oled_write_def mock_gpio_write_def SSD1306_DC_GPIO_def MOCK_OLED_DC_GPIO_def
        mock_spi0_write_def Let_def m1_def max_def)
  moreover have "panel m1" using assms(1) by (simp add: panel_def m1_def)
  ultimately show ?thesis
    using assms fold_data_bytes[of m1 bs] by (simp add: m1_def)
qed

text \<open>The effect of a page write: the row is copied, nothing larger than a chunk is sent.\<close>

definition written :: "nat \<Rightarrow> nat \<Rightarrow> u8 list \<Rightarrow> mock \<Rightarrow> mock \<Rightarrow> bool" where
  "written p k data m m' \<longleftrightarrow>
     framebuffer m' = (framebuffer m)[p := blit k data (framebuffer m ! p)] \<and>
     oled_max_data_write_size m' \<le> max (oled_max_data_write_size m) 4 \<and>
     oled_display_off_count m' = oled_display_off_count m \<and>
     oled_display_on_count m' = oled_display_on_count m"

lemma written_panel: "written p k data m m' \<Longrightarrow> panel m \<Longrightarrow> p < 8 \<Longrightarrow> k + length data \<le> 132 \<Longrightarrow> panel m'"
  by (auto simp: written_def panel_row intro: panel_update)

lemma sent_columns_mock:
  "panel m \<Longrightarrow> oled_page m = of_nat p \<Longrightarrow> p < 8 \<Longrightarrow> column mod 4 = 0 \<Longrightarrow> column \<le> 128 \<Longrightarrow>
     length data = 128 \<Longrightarrow> k \<le> 4 \<Longrightarrow> oled_column m = of_nat (k + column) \<Longrightarrow>
     \<exists>m'. sent_columns mock_bus column data m = (YDRASIL_DRIVER_OK, m') \<and>
       written p (k + column) (drop column data) m m'"
proof (induction "mock_bus" column data m rule: sent_columns.induct)
  case (1 column data m)
  show ?case
  proof (cases "column < 128")
    case False
    with 1 show ?thesis by (subst sent_columns.simps) (simp add: ssd1306_consts written_def)
  next
    case True
    let ?bs = "take 4 (drop column data)"
    have col: "column + 4 \<le> 128" using True "1.prems"(4) by presburger
    have len: "length ?bs = 4" using col "1.prems" by simp
    have pg: "unat (oled_page m) = p" using "1.prems" by (simp add: unat_of_nat_small)
    have kk: "unat (oled_column m) = k + column" using "1.prems"(5,7,8) by (simp add: unat_of_nat_small del: of_nat_add)
    define m1 where "m1 = m\<lparr>oled_data_mode := 1, oled_max_data_write_size := max (oled_max_data_write_size m) 4,
      framebuffer := (framebuffer m)[p := blit (k + column) ?bs (framebuffer m ! p)],
      oled_column := oled_column m + 4\<rparr>"
    have w: "oled_write mock_bus 1 ?bs m = (YDRASIL_DRIVER_OK, m1)"
      using oled_write_data_mock[OF "1.prems"(1), of ?bs] pg kk len col "1.prems"
      by (simp add: m1_def)
    have pan: "panel m1"
      by (rule panel_update[OF "1.prems"(1)]) (use "1.prems" col in \<open>auto simp: m1_def panel_row\<close>)
    have "\<exists>m'. sent_columns mock_bus (column + 4) data m1 = (YDRASIL_DRIVER_OK, m') \<and>
       written p (k + (column + 4)) (drop (column + 4) data) m1 m'"
      using "1.hyps"[of "(YDRASIL_DRIVER_OK, m1)" YDRASIL_DRIVER_OK m1] True w pan "1.prems" col
      by (simp add: ssd1306_consts m1_def)
    then obtain m' where m': "sent_columns mock_bus (column + 4) data m1 = (YDRASIL_DRIVER_OK, m')"
      and wr: "written p (k + (column + 4)) (drop (column + 4) data) m1 m'" by blast
    have "drop column data = ?bs @ drop (column + 4) data"
      by (metis append_take_drop_id drop_drop add.commute)
    then have "blit (k + (column + 4)) (drop (column + 4) data) (blit (k + column) ?bs (framebuffer m ! p)) =
        blit (k + column) (drop column data) (framebuffer m ! p)"
      using blit_append[of "k + column" ?bs "drop (column + 4) data" "framebuffer m ! p"]
        len col "1.prems" panel_row[OF "1.prems"(1,3)] by (simp add: algebra_simps)
    then have "written p (k + column) (drop column data) m m'"
      using wr "1.prems"(1,3) by (auto simp: written_def m1_def panel_def)
    then show ?thesis
      using True w m' by (subst sent_columns.simps) (simp add: ssd1306_consts)
  qed
qed

definition column_offset :: "ssd1306 \<Rightarrow> nat" where
  "column_offset d = (if active_controller d = SSD1306_CONTROLLER_SH1106 then 2 else 0)"

lemma column_offset_le [simp]: "column_offset d \<le> 2"
  by (simp add: column_offset_def)

lemma column_offset_le_4 [simp]: "column_offset d \<le> 4"
  by (simp add: column_offset_def)

lemma less_8_cases: "p < (8::nat) \<Longrightarrow> p = 0 \<or> p = 1 \<or> p = 2 \<or> p = 3 \<or> p = 4 \<or> p = 5 \<or> p = 6 \<or> p = 7"
  by auto

lemma low_nibble: "(c AND 240 OR 2) AND 15 = (2 :: u8)"
  by (simp add: bit.conj_disj_distrib2 and.assoc)

lemma oled_set_position_mock:
  assumes "p < 8"
  shows "\<exists>m'. oled_set_position mock_bus d (of_nat p) 0 m = (YDRASIL_DRIVER_OK, m') \<and>
    framebuffer m' = framebuffer m \<and> oled_page m' = of_nat p \<and>
    oled_column m' = of_nat (column_offset d) \<and>
    oled_max_data_write_size m' = oled_max_data_write_size m \<and>
    oled_display_off_count m' = oled_display_off_count m \<and>
    oled_display_on_count m' = oled_display_on_count m"
  using less_8_cases[OF assms]
  by (elim disjE; cases "active_controller d = SSD1306_CONTROLLER_SH1106")
    (simp_all add: oled_set_position_def Let_def oled_command_mock process_oled_command_def
      column_offset_def command_mode_def and.assoc low_nibble)

lemma sent_page_mock:
  assumes "panel m" and "p < 8" and "length data = 128"
  shows "\<exists>m'. sent_page mock_bus d (of_nat p) data m = (YDRASIL_DRIVER_OK, m') \<and>
    written p (column_offset d) data m m'"
proof -
  obtain m1 where m1: "oled_set_position mock_bus d (of_nat p) 0 m = (YDRASIL_DRIVER_OK, m1)"
    "framebuffer m1 = framebuffer m" "oled_page m1 = of_nat p" "oled_column m1 = of_nat (column_offset d)"
    "oled_max_data_write_size m1 = oled_max_data_write_size m"
    "oled_display_off_count m1 = oled_display_off_count m"
    "oled_display_on_count m1 = oled_display_on_count m"
    using oled_set_position_mock[OF assms(2)] by blast
  have "panel m1" using assms(1) m1(2) by (simp add: panel_def)
  from sent_columns_mock[OF this m1(3) assms(2), of 0 data "column_offset d"] m1 assms
  obtain m' where "sent_columns mock_bus 0 data m1 = (YDRASIL_DRIVER_OK, m')"
    "written p (column_offset d) data m1 m'" by auto
  with m1 show ?thesis by (auto simp: sent_page_def written_def)
qed

text \<open>A sequence of page writes paints rows; everything else stays.\<close>

definition painted :: "(nat \<Rightarrow> u8 list) \<Rightarrow> mock \<Rightarrow> mock \<Rightarrow> bool" where
  "painted rows m m' \<longleftrightarrow> panel m' \<and> (\<forall>q < 8. framebuffer m' ! q = rows q) \<and>
     oled_max_data_write_size m' \<le> max (oled_max_data_write_size m) 4 \<and>
     oled_display_off_count m' = oled_display_off_count m \<and>
     oled_display_on_count m' = oled_display_on_count m"

lemma written_row:
  "written p k data m m' \<Longrightarrow> panel m \<Longrightarrow> p < 8 \<Longrightarrow>
     framebuffer m' ! q = (if q = p then blit k data (framebuffer m ! p) else framebuffer m ! q)"
  by (auto simp: written_def panel_def)

lemma sent_clear_mock:
  "panel m \<Longrightarrow> p + n \<le> 8 \<Longrightarrow>
     \<exists>m'. sent_clear n (of_nat p) mock_bus d m = (YDRASIL_DRIVER_OK, m') \<and>
       painted (\<lambda>q. if p \<le> q \<and> q < p + n then blit (column_offset d) (replicate 128 0) (framebuffer m ! q)
                    else framebuffer m ! q) m m'"
proof (induction n arbitrary: p m)
  case (Suc n)
  obtain m1 where m1: "sent_page mock_bus d (of_nat p) (replicate 128 0) m = (YDRASIL_DRIVER_OK, m1)"
    and w: "written p (column_offset d) (replicate 128 0) m m1"
    using sent_page_mock[OF Suc.prems(1), of p "replicate 128 0" d] Suc.prems(2) by auto
  have pan: "panel m1"
    using written_panel[OF w Suc.prems(1)] Suc.prems(2) by (simp add: le_trans[OF add_right_mono[OF column_offset_le]])
  obtain m' where "sent_clear n (of_nat (p + 1)) mock_bus d m1 = (YDRASIL_DRIVER_OK, m')"
    and pt: "painted (\<lambda>q. if p + 1 \<le> q \<and> q < p + 1 + n then blit (column_offset d) (replicate 128 0) (framebuffer m1 ! q)
                    else framebuffer m1 ! q) m1 m'"
    using Suc.IH[OF pan, of "p + 1"] Suc.prems(2) by auto
  moreover have "painted (\<lambda>q. if p \<le> q \<and> q < p + Suc n then blit (column_offset d) (replicate 128 0) (framebuffer m ! q)
                    else framebuffer m ! q) m m'"
    using pt w written_row[OF w Suc.prems(1)] Suc.prems(2)
    by (auto simp: painted_def written_def Suc_le_eq le_less)
  ultimately show ?case using m1 by (auto simp: ssd1306_consts algebra_simps)
qed (auto simp: painted_def)

lemma ssd1306_clear_mock:
  assumes "panel m"
  shows "\<exists>m'. sent_clear SSD1306_PAGE_COUNT 0 mock_bus d m = (YDRASIL_DRIVER_OK, m') \<and>
    painted (\<lambda>q. blit (column_offset d) (replicate 128 0) (framebuffer m ! q)) m m'"
proof -
  obtain m' where c: "sent_clear 8 0 mock_bus d m = (YDRASIL_DRIVER_OK, m')"
    and p: "painted (\<lambda>q. if 0 \<le> q \<and> q < 0 + 8 then blit (column_offset d) (replicate 128 0) (framebuffer m ! q)
                    else framebuffer m ! q) m m'"
    using sent_clear_mock[OF assms, of 0 8 d] by auto
  from p have "painted (\<lambda>q. blit (column_offset d) (replicate 128 0) (framebuffer m ! q)) m m'"
    by (auto simp: painted_def)
  with c show ?thesis by (auto simp: ssd1306_consts)
qed

lemma oled_reset_and_configure_mock:
  "\<exists>m'. oled_reset_and_configure mock_bus cs m = (YDRASIL_DRIVER_OK, m') \<and>
     framebuffer m' = framebuffer m \<and> oled_max_data_write_size m' = oled_max_data_write_size m"
  by (simp add: oled_reset_and_configure_def Let_def oled_command_mock mock_gpio_write_def mock_delay_ms_def)

lemma sent_init_mock:
  assumes "panel m" and "initialized d = 0"
  shows "\<exists>m'. sent_init mock_bus d m = (YDRASIL_DRIVER_OK, d\<lparr>initialized := 1\<rparr>, m') \<and> panel m' \<and>
    (\<forall>q < 8. framebuffer m' ! q = blit (column_offset d) (replicate 128 0) (framebuffer m ! q)) \<and>
    oled_max_data_write_size m' \<le> max (oled_max_data_write_size m) 4"
proof -
  obtain m1 where m1: "oled_reset_and_configure mock_bus (init_sequence d) m = (YDRASIL_DRIVER_OK, m1)"
    "framebuffer m1 = framebuffer m" "oled_max_data_write_size m1 = oled_max_data_write_size m"
    using oled_reset_and_configure_mock by blast
  obtain m2 where m2: "oled_reset_and_configure mock_bus (init_sequence d) (mock_delay_ms 100 m1) = (YDRASIL_DRIVER_OK, m2)"
    "framebuffer m2 = framebuffer m" "oled_max_data_write_size m2 = oled_max_data_write_size m"
    using oled_reset_and_configure_mock[of "init_sequence d" "mock_delay_ms 100 m1"] m1
    by (auto simp: mock_delay_ms_def)
  have "panel (mock_delay_ms 100 m2)" using assms(1) m2 by (simp add: panel_def mock_delay_ms_def)
  from ssd1306_clear_mock[OF this, of d] m2 obtain m3 where
    "sent_clear SSD1306_PAGE_COUNT 0 mock_bus d (mock_delay_ms 100 m2) = (YDRASIL_DRIVER_OK, m3)" "panel m3"
    "\<forall>q < 8. framebuffer m3 ! q = blit (column_offset d) (replicate 128 0) (framebuffer m ! q)"
    "oled_max_data_write_size m3 \<le> max (oled_max_data_write_size m) 4"
    by (auto simp: painted_def mock_delay_ms_def)
  with m1 m2 assms(2) show ?thesis by (simp add: sent_init_def Let_def)
qed

lemma sent_commit_mock:
  "panel m \<Longrightarrow> even page \<Longrightarrow> page \<le> 8 \<Longrightarrow> r = YDRASIL_DRIVER_OK \<Longrightarrow>
     (\<forall>q < 8. length (frame_buffer d ! q) = 128) \<Longrightarrow>
     \<exists>m'. sent_commit page mock_bus d r m = (YDRASIL_DRIVER_OK, m') \<and>
       painted (\<lambda>q. if even q \<and> page \<le> q then blit (column_offset d) (frame_buffer d ! q) (framebuffer m ! q)
                    else framebuffer m ! q) m m'"
proof (induction page mock_bus d r m rule: sent_commit.induct)
  case (1 page d r m)
  show ?case
  proof (cases "page < 8")
    case False
    with 1 show ?thesis by (subst sent_commit.simps) (simp add: ssd1306_consts painted_def)
  next
    case True
    obtain m1 where m1: "sent_page mock_bus d (of_nat page) (frame_buffer d ! page) m = (YDRASIL_DRIVER_OK, m1)"
      and w: "written page (column_offset d) (frame_buffer d ! page) m m1"
      using sent_page_mock[OF "1.prems"(1) True] "1.prems"(5) True by blast
    have pan: "panel m1"
      using written_panel[OF w "1.prems"(1) True] "1.prems"(5) True
      by (simp add: le_trans[OF add_right_mono[OF column_offset_le]])
    have "\<exists>m'. sent_commit (page + 2) mock_bus d YDRASIL_DRIVER_OK m1 = (YDRASIL_DRIVER_OK, m') \<and>
       painted (\<lambda>q. if even q \<and> page + 2 \<le> q then blit (column_offset d) (frame_buffer d ! q) (framebuffer m1 ! q)
                    else framebuffer m1 ! q) m1 m'"
      using "1.hyps"[of "(YDRASIL_DRIVER_OK, m1)" YDRASIL_DRIVER_OK m1] m1 pan "1.prems" True
      by (auto simp: ssd1306_consts even_iff_mod_2_eq_zero)
    then obtain m' where c: "sent_commit (page + 2) mock_bus d YDRASIL_DRIVER_OK m1 = (YDRASIL_DRIVER_OK, m')"
      and pt: "painted (\<lambda>q. if even q \<and> page + 2 \<le> q then blit (column_offset d) (frame_buffer d ! q) (framebuffer m1 ! q)
                    else framebuffer m1 ! q) m1 m'" by blast
    have step: "(page + 2 \<le> q) = (page \<le> q \<and> q \<noteq> page)" if "even q" for q
      using that "1.prems"(2) by presburger
    have "painted (\<lambda>q. if even q \<and> page \<le> q then blit (column_offset d) (frame_buffer d ! q) (framebuffer m ! q)
                    else framebuffer m ! q) m m'"
      using pt w written_row[OF w "1.prems"(1) True] True "1.prems"(2) step
      by (auto simp: painted_def written_def)
    then show ?thesis
      using c m1 "1.prems"(4) True by (subst sent_commit.simps) (simp add: ssd1306_consts)
  qed
qed

text \<open>The rows of a frame: the four lines on the even pages, centered; the odd pages blank.\<close>

definition frame_rows :: "string list \<Rightarrow> nat \<Rightarrow> u8 list" where
  "frame_rows ls q = (if even q then centered_row (ls ! (q div 2)) else replicate 128 0)"

lemma length_centered_row [simp]: "length (centered_row s) = 128"
  by (auto simp: centered_row_def centered_column_def Let_def min_def)

lemma render_lines_frame:
  "render_lines 0 (map Some [l0, l1, l2, l3]) (replicate SSD1306_PAGE_COUNT (replicate SSD1306_WIDTH 0)) =
     Done (map (frame_rows [l0, l1, l2, l3]) [0..<8])"
proof -
  have rep: "replicate 8 z = [z, z, z, z, z, z, z, z]" for z :: "u8 list"
    by (simp add: numeral_eq_Suc)
  have upt: "[0..<8] = [0, 1, 2, 3, 4, 5, 6, 7]" by (simp add: upt_rec_numeral upt_rec)
  have rows: "map (frame_rows [l0, l1, l2, l3]) [0..<8] =
      [centered_row l0, replicate 128 0, centered_row l1, replicate 128 0,
       centered_row l2, replicate 128 0, centered_row l3, replicate 128 0]"
    unfolding upt by (simp add: frame_rows_def)
  show ?thesis
    unfolding rows SSD1306_PAGE_COUNT_def SSD1306_WIDTH_def rep
    by (simp add: render_centered_line_row store_at_def)
qed

lemma oled_command_switch:
  "oled_command mock_bus [0xae] m = (YDRASIL_DRIVER_OK,
     (command_mode m)\<lparr>oled_display_off_count := oled_display_off_count m + 1\<rparr>)"
  "oled_command mock_bus [0xaf] m = (YDRASIL_DRIVER_OK,
     (command_mode m)\<lparr>oled_display_on_count := oled_display_on_count m + 1\<rparr>)"
  "oled_command mock_bus [0x40] m = (YDRASIL_DRIVER_OK, command_mode m)"
  by (simp_all add: oled_command_mock process_oled_command_def)

text \<open>Once the panel is initialised, a frame is one off/on pair around the four page writes.\<close>

lemma show_frame_after_init:
  assumes pan: "panel m" and init: "initialized d \<noteq> 0"
  shows "\<exists>m'. ssd1306_show_frame mock_bus d (map Some [l0, l1, l2, l3]) m =
      Done (YDRASIL_DRIVER_OK, d\<lparr>frame_buffer := map (frame_rows [l0, l1, l2, l3]) [0..<8]\<rparr>, m') \<and> panel m' \<and>
    (\<forall>q < 8. framebuffer m' ! q =
       (if even q then blit (column_offset d) (frame_rows [l0, l1, l2, l3] q) (framebuffer m ! q)
        else framebuffer m ! q)) \<and>
    oled_max_data_write_size m' \<le> max (oled_max_data_write_size m) 4 \<and>
    oled_display_off_count m' = oled_display_off_count m + 1 \<and>
    oled_display_on_count m' = oled_display_on_count m + 1"
proof -
  let ?fb = "map (frame_rows [l0, l1, l2, l3]) [0..<8]"
  define e where "e = d\<lparr>frame_buffer := ?fb\<rparr>"
  define m1 where "m1 = command_mode ((command_mode m)\<lparr>oled_display_off_count := oled_display_off_count m + 1\<rparr>)"
  have fb: "length (frame_buffer e ! q) = 128" "frame_buffer e ! q = frame_rows [l0, l1, l2, l3] q"
    if "q < 8" for q using that by (simp_all add: e_def frame_rows_def)
  have "panel m1" using pan by (simp add: panel_def m1_def)
  from sent_commit_mock[OF this, of 0 YDRASIL_DRIVER_OK e] fb(1) obtain m2 where
    m2: "sent_commit 0 mock_bus e YDRASIL_DRIVER_OK m1 = (YDRASIL_DRIVER_OK, m2)"
    and pt: "painted (\<lambda>q. if even q \<and> 0 \<le> q then blit (column_offset e) (frame_buffer e ! q) (framebuffer m1 ! q)
                    else framebuffer m1 ! q) m1 m2" by auto
  have off: "column_offset e = column_offset d" by (simp add: column_offset_def e_def)
  define m3 where "m3 = (command_mode m2)\<lparr>oled_display_on_count := oled_display_on_count m2 + 1\<rparr>"
  have "ssd1306_show_frame mock_bus d (map Some [l0, l1, l2, l3]) m = Done (YDRASIL_DRIVER_OK, e, m3)"
    using init m2 unfolding ssd1306_show_frame_sent render_lines_frame
    by (simp add: sent_init_def e_def[symmetric] ssd1306_display_off_def ssd1306_display_on_def
        oled_command_switch m1_def m3_def)
  moreover have "panel m3" using pt by (simp add: painted_def panel_def m3_def)
  moreover have "\<forall>q < 8. framebuffer m3 ! q =
       (if even q then blit (column_offset d) (frame_rows [l0, l1, l2, l3] q) (framebuffer m ! q)
        else framebuffer m ! q)"
    using pt fb(2) off by (auto simp: painted_def m1_def m3_def)
  moreover have "oled_max_data_write_size m3 \<le> max (oled_max_data_write_size m) 4"
    "oled_display_off_count m3 = oled_display_off_count m + 1"
    "oled_display_on_count m3 = oled_display_on_count m + 1"
    using pt by (auto simp: painted_def m1_def m3_def)
  ultimately show ?thesis unfolding e_def by blast
qed

lemma show_frame_before_init:
  assumes pan: "panel m" and init: "initialized d = 0"
  shows "\<exists>m1. ssd1306_show_frame mock_bus d (map Some [l0, l1, l2, l3]) m =
      ssd1306_show_frame mock_bus (d\<lparr>initialized := 1\<rparr>) (map Some [l0, l1, l2, l3]) m1 \<and> panel m1 \<and>
    (\<forall>q < 8. framebuffer m1 ! q = blit (column_offset d) (replicate 128 0) (framebuffer m ! q)) \<and>
    oled_max_data_write_size m1 \<le> max (oled_max_data_write_size m) 4"
proof -
  let ?e = "d\<lparr>frame_buffer := map (frame_rows [l0, l1, l2, l3]) [0..<8]\<rparr>"
  have off: "column_offset ?e = column_offset d" by (simp add: column_offset_def)
  obtain m1 where m1: "sent_init mock_bus ?e m = (YDRASIL_DRIVER_OK, ?e\<lparr>initialized := 1\<rparr>, m1)"
    "panel m1" "\<forall>q < 8. framebuffer m1 ! q = blit (column_offset d) (replicate 128 0) (framebuffer m ! q)"
    "oled_max_data_write_size m1 \<le> max (oled_max_data_write_size m) 4"
    using sent_init_mock[OF pan, of ?e] init off by auto
  have swap: "d\<lparr>initialized := 1, frame_buffer := map (frame_rows [l0, l1, l2, l3]) [0..<8]\<rparr> = ?e\<lparr>initialized := 1\<rparr>"
    by simp
  have no_init: "sent_init mock_bus (?e\<lparr>initialized := 1\<rparr>) m1 = (YDRASIL_DRIVER_OK, ?e\<lparr>initialized := 1\<rparr>, m1)"
    by (simp add: sent_init_def)
  have "ssd1306_show_frame mock_bus d (map Some [l0, l1, l2, l3]) m =
      ssd1306_show_frame mock_bus (d\<lparr>initialized := 1\<rparr>) (map Some [l0, l1, l2, l3]) m1"
    unfolding ssd1306_show_frame_sent render_lines_frame using m1(1) no_init by (simp add: swap)
  with m1 show ?thesis by blast
qed

lemma blit_row: "k + length data \<le> length row \<Longrightarrow> take (length data) (drop k (blit k data row)) = data"
  by (simp add: blit_def)

lemma show_frame_initialised:
  assumes n: "panel n" and e: "initialized e \<noteq> 0"
  shows "\<exists>d' m'. ssd1306_show_frame mock_bus e (map Some [l0, l1, l2, l3]) n =
      Done (YDRASIL_DRIVER_OK, d', m') \<and> initialized d' \<noteq> 0 \<and>
    (\<forall>i < 4. take 128 (drop (column_offset e) (framebuffer m' ! (2 * i))) =
       centered_row ([l0, l1, l2, l3] ! i)) \<and>
    oled_max_data_write_size m' \<le> max (oled_max_data_write_size n) 4"
proof -
  obtain m' where m': "ssd1306_show_frame mock_bus e (map Some [l0, l1, l2, l3]) n =
      Done (YDRASIL_DRIVER_OK, e\<lparr>frame_buffer := map (frame_rows [l0, l1, l2, l3]) [0..<8]\<rparr>, m')"
    "\<forall>q < 8. framebuffer m' ! q =
       (if even q then blit (column_offset e) (frame_rows [l0, l1, l2, l3] q) (framebuffer n ! q)
        else framebuffer n ! q)"
    "oled_max_data_write_size m' \<le> max (oled_max_data_write_size n) 4"
    using show_frame_after_init[OF n e] by blast
  have "take 128 (drop (column_offset e) (framebuffer m' ! (2 * i))) = centered_row ([l0, l1, l2, l3] ! i)"
    if "i < 4" for i
  proof -
    let ?row = "centered_row ([l0, l1, l2, l3] ! i)"
    have "framebuffer m' ! (2 * i) = blit (column_offset e) ?row (framebuffer n ! (2 * i))"
      using that m'(2) by (simp add: frame_rows_def)
    moreover have "column_offset e + length ?row \<le> length (framebuffer n ! (2 * i))"
      using that panel_row[OF n, of "2 * i"] column_offset_le[of e] by simp
    ultimately show ?thesis using blit_row by (metis length_centered_row)
  qed
  with m' e show ?thesis by force
qed

section \<open>Properties\<close>

lemma show_frame_displays:
  assumes "panel m"
  shows "\<exists>d' m'. ssd1306_show_frame mock_bus d [Some l0, Some l1, Some l2, Some l3] m =
      Done (YDRASIL_DRIVER_OK, d', m') \<and> initialized d' \<noteq> 0 \<and>
    (\<forall>i < 4. take 128 (drop (column_offset d) (framebuffer m' ! (2 * i))) =
       centered_row ([l0, l1, l2, l3] ! i)) \<and>
    oled_max_data_write_size m' \<le> max (oled_max_data_write_size m) 4"
proof (cases "initialized d = 0")
  case False
  with show_frame_initialised[OF assms] show ?thesis by simp
next
  case True
  obtain m1 where m1: "ssd1306_show_frame mock_bus d (map Some [l0, l1, l2, l3]) m =
      ssd1306_show_frame mock_bus (d\<lparr>initialized := 1\<rparr>) (map Some [l0, l1, l2, l3]) m1"
    "panel m1" "oled_max_data_write_size m1 \<le> max (oled_max_data_write_size m) 4"
    using show_frame_before_init[OF assms True] by blast
  have "column_offset (d\<lparr>initialized := 1\<rparr>) = column_offset d" by (simp add: column_offset_def)
  with show_frame_initialised[OF m1(2), of "d\<lparr>initialized := 1\<rparr>" l0 l1 l2 l3] obtain d' m' where
    "ssd1306_show_frame mock_bus d (map Some [l0, l1, l2, l3]) m = Done (YDRASIL_DRIVER_OK, d', m')"
    "initialized d' \<noteq> 0" "\<forall>i < 4. take 128 (drop (column_offset d) (framebuffer m' ! (2 * i))) =
       centered_row ([l0, l1, l2, l3] ! i)"
    and "oled_max_data_write_size m' \<le> max (oled_max_data_write_size m1) 4"
    unfolding m1(1) by auto
  moreover from this(4) m1(3) have "oled_max_data_write_size m' \<le> max (oled_max_data_write_size m) 4"
    by linarith
  ultimately show ?thesis by (auto simp del: One_nat_def)
qed

text \<open>C5. What the display shows is what was asked for: whatever the state of the driver and
  of the panel, drawing a frame on the simulated panel succeeds, and then each of the four
  lines stands centered in its even page, starting at the first visible column of the selected
  controller (two columns in for the SH1106); no SPI data transfer is longer than the four
  bytes of a chunk; the driver is initialised afterwards.\<close>

theorem ssd1306_show_frame_displays:
  assumes "panel m"
  shows "\<exists>d' m'. ssd1306_show_frame mock_bus d [Some l0, Some l1, Some l2, Some l3] m =
      Done (YDRASIL_DRIVER_OK, d', m') \<and> initialized d' \<noteq> 0 \<and>
    (\<forall>i < 4. take 128 (drop (column_offset d) (framebuffer m' ! (2 * i))) =
       centered_row ([l0, l1, l2, l3] ! i)) \<and>
    oled_max_data_write_size m' \<le> max (oled_max_data_write_size m) 4"
  using assms by (rule show_frame_displays)

theorem ssd1306_show_frame_displays_witness:
  "\<exists>d' m'. ssd1306_show_frame mock_bus ssd1306_power_on [Some ''Ydrsail'', Some [], Some ''R+90.0'', Some ''Y''] mock_monitor_reset =
      Done (YDRASIL_DRIVER_OK, d', m') \<and> initialized d' \<noteq> 0 \<and>
    (\<forall>i < 4. take 128 (drop (column_offset ssd1306_power_on) (framebuffer m' ! (2 * i))) =
       centered_row ([''Ydrsail'', [], ''R+90.0'', ''Y''] ! i)) \<and>
    oled_max_data_write_size m' \<le> max (oled_max_data_write_size mock_monitor_reset) 4"
  by (rule ssd1306_show_frame_displays) (simp add: panel_def mock_monitor_reset_def mock_consts)

definition attitude_of :: "u16 \<Rightarrow> u16 \<Rightarrow> u16 \<Rightarrow> ms601m_attitude" where
  "attitude_of roll pitch yaw =
     \<lparr>roll_tenth_degree = attitude_tenth_degrees (sint roll),
      pitch_tenth_degree = attitude_tenth_degrees (sint pitch),
      yaw_tenth_degree = attitude_tenth_degrees (sint yaw)\<rparr>"

lemma attitude_tenth_degrees_sint:
  "- 1800 \<le> attitude_tenth_degrees (sint (v :: u16)) \<and> attitude_tenth_degrees (sint v) \<le> 1799"
  using sint_range_size[of v] by (intro attitude_tenth_degrees_bounds) (auto simp: word_size)

lemma mock_read_attitude:
  assumes "length (uart_frame m) = 32" and "timeout \<noteq> 0" and "length junk = 28"
    and "11 + unat timeout < fuel"
  shows "\<exists>m'. ms601m_read_attitude fuel mock_bus junk (Some att) timeout
      (mock_ms601m_set_attitude_raw roll pitch yaw m) =
    Done (YDRASIL_DRIVER_OK, Some (attitude_of roll pitch yaw), m')"
proof -
  let ?m = "mock_ms601m_set_attitude_raw roll pitch yaw m"
  let ?d = "[ucast roll, ucast (drop_bit 8 roll), ucast pitch, ucast (drop_bit 8 pitch),
         ucast yaw, ucast (drop_bit 8 yaw)] :: u8 list"
  have same: "mock_uart1_reset MS601M_BAUD ?m = ?m"
    by (simp add: mock_uart1_reset_def mock_ms601m_set_attitude_raw_def Let_def)
  have st: "mock_stream (bus_uart1_reset mock_bus MS601M_BAUD ?m) = ms601m_frame MS601M_ATTITUDE_ID ?d"
    using mock_set_attitude_stream(1)[OF assms(1), of roll pitch yaw] same by simp
  have "length (ms601m_frame MS601M_ATTITUDE_ID ?d) + unat timeout < fuel"
    using assms(4) by (simp add: ms601m_frame_def Let_def)
  from mock_uart.ms601m_read_attitude_stream[OF mock_set_attitude_stream(2)[OF assms(1)] assms(2) _ st this]
  obtain m' where r: "ms601m_read_attitude fuel mock_bus junk (Some att) timeout ?m =
    (case ms601m_bytes (ms601m_frame MS601M_ATTITUDE_ID ?d) (ms601m_parser_init junk) of
       Done (Inr (a, rest)) \<Rightarrow> Done (YDRASIL_DRIVER_OK, Some a, m')
     | _ \<Rightarrow> Done (YDRASIL_DRIVER_ETIMEOUT, Some att, m'))"
    using assms(3) by (auto simp: ms601m_consts)
  have "\<exists>a. read_attitude_data ?d = Done a \<and>
      ms601m_bytes (ms601m_frame MS601M_ATTITUDE_ID ?d @ []) (ms601m_parser_init junk) = Done (Inr (a, []))"
    using assms(3) by (intro ms601m_bytes_attitude_frame parser_inv_init)
      (auto simp: ms601m_consts ms601m_parser_init_def)
  then have "ms601m_bytes (ms601m_frame MS601M_ATTITUDE_ID ?d) (ms601m_parser_init junk) =
      Done (Inr (attitude_of roll pitch yaw, []))"
    by (auto simp: read_attitude_data_def read_le_i16_append attitude_of_def)
  with r show ?thesis by auto
qed

text \<open>C3. The sensor round trip: for all raw angles that the simulated sensor sends,
  \<open>ms601m_read_attitude\<close> returns, with success, and gives roll, pitch and yaw in tenths
  of a degree, each the raw 16-bit value scaled by 1800/32768 and between -180.0 and 179.9
  degrees.\<close>

theorem ms601m_sensor_roundtrip:
  assumes "length (uart_frame m) = 32" and "timeout \<noteq> 0" and "length junk = 28"
    and "11 + unat timeout < fuel"
  shows "\<exists>a m'. ms601m_read_attitude fuel mock_bus junk (Some att) timeout
      (mock_ms601m_set_attitude_raw roll pitch yaw m) = Done (YDRASIL_DRIVER_OK, Some a, m') \<and>
    roll_tenth_degree a = sint roll * 1800 sdiv 32768 \<and>
    pitch_tenth_degree a = sint pitch * 1800 sdiv 32768 \<and>
    yaw_tenth_degree a = sint yaw * 1800 sdiv 32768 \<and>
    (\<forall>x \<in> {roll_tenth_degree a, pitch_tenth_degree a, yaw_tenth_degree a}. - 1800 \<le> x \<and> x \<le> 1799)"
proof -
  obtain m' where m': "ms601m_read_attitude fuel mock_bus junk (Some att) timeout
      (mock_ms601m_set_attitude_raw roll pitch yaw m) =
    Done (YDRASIL_DRIVER_OK, Some (attitude_of roll pitch yaw), m')"
    using mock_read_attitude[OF assms] by blast
  show ?thesis
    using attitude_tenth_degrees_sint[of roll] attitude_tenth_degrees_sint[of pitch]
      attitude_tenth_degrees_sint[of yaw]
    by (intro exI[of _ "attitude_of roll pitch yaw"] exI[of _ m'])
      (simp add: m', simp add: attitude_of_def, simp add: attitude_tenth_degrees_def)
qed

theorem ms601m_sensor_roundtrip_witness:
  "\<exists>a m'. ms601m_read_attitude 200 mock_bus (replicate 28 0) (Some (attitude_of 0 0 0)) 100
      (mock_ms601m_set_attitude_raw 16384 57344 4096 mock_monitor_reset) = Done (YDRASIL_DRIVER_OK, Some a, m') \<and>
    roll_tenth_degree a = sint (16384 :: u16) * 1800 sdiv 32768 \<and>
    pitch_tenth_degree a = sint (57344 :: u16) * 1800 sdiv 32768 \<and>
    yaw_tenth_degree a = sint (4096 :: u16) * 1800 sdiv 32768 \<and>
    (\<forall>x \<in> {roll_tenth_degree a, pitch_tenth_degree a, yaw_tenth_degree a}. - 1800 \<le> x \<and> x \<le> 1799)"
  by (rule ms601m_sensor_roundtrip) (simp_all add: mock_monitor_reset_def)

text \<open>C4. The polling loop always returns: on the simulated board, for every replayed byte
  sequence, every timeout other than 0 and every content of the frame array, one loop
  iteration per byte and per millisecond of the timeout is enough; the call succeeds exactly
  when the parser accepts a frame of the sequence, and otherwise reports a timeout and leaves
  the caller's attitude as it was.\<close>

theorem ms601m_read_attitude_returns:
  assumes "uart_frame_size m \<le> length (uart_frame m)" and "timeout \<noteq> 0" and "length junk = 28"
    and "uart_frame_size m + unat timeout < fuel"
  shows "\<exists>m'. ms601m_read_attitude fuel mock_bus junk (Some att) timeout m =
    (case ms601m_bytes (take (uart_frame_size m) (uart_frame m)) (ms601m_parser_init junk) of
       Done (Inr (a, rest)) \<Rightarrow> Done (YDRASIL_DRIVER_OK, Some a, m')
     | _ \<Rightarrow> Done (YDRASIL_DRIVER_ETIMEOUT, Some att, m'))"
proof (rule mock_uart.ms601m_read_attitude_stream)
  show "mock_stream (bus_uart1_reset mock_bus MS601M_BAUD m) = take (uart_frame_size m) (uart_frame m)"
    by (simp add: mock_stream_def mock_uart1_reset_def)
qed (use assms in \<open>auto simp: mock_uart_ok_def ms601m_consts\<close>)

theorem ms601m_read_attitude_returns_witness:
  "\<exists>m'. ms601m_read_attitude 5 mock_bus (replicate 28 0) (Some (attitude_of 1 2 3)) 3 mock_monitor_reset =
    (case ms601m_bytes (take (uart_frame_size mock_monitor_reset) (uart_frame mock_monitor_reset))
        (ms601m_parser_init (replicate 28 0)) of
       Done (Inr (a, rest)) \<Rightarrow> Done (YDRASIL_DRIVER_OK, Some a, m')
     | _ \<Rightarrow> Done (YDRASIL_DRIVER_ETIMEOUT, Some (attitude_of 1 2 3), m'))"
  by (rule ms601m_read_attitude_returns) (simp_all add: mock_monitor_reset_def)

end
