(* ===== verification/Board_Bus.thy ===== *)
theory Board_Bus
  imports Monitor_Bus Mock_Bus
begin

text \<open>
  The display driver on the controllers of the SoC. \<open>hw_bus\<close> implements the bus
  interface by \<open>Monitor_Bus\<close>, over any hardware; its board records the register writes. A
  panel wired to the board (data/command line on GPIO 1) follows those writes by the same command
  interpreter as the simulated one. The locale \<open>panel_board\<close> states what a board owes the
  display driver; both boards provide it, so a frame drawn through either shows the same.
\<close>

section \<open>The board\<close>

record 'd board =
  board_dev :: "'d \<times> reg_log"
  board_kernel :: kernel
  board_hung :: bool

definition on_dev :: "('d \<times> reg_log \<Rightarrow> 'd \<times> reg_log) \<Rightarrow> 'd board \<Rightarrow> 'd board" where
  "on_dev f b = b\<lparr>board_dev := f (board_dev b)\<rparr>"

text \<open>
  \<open>resume\<close> is what has become of the board when the thread runs again after a sleep, which
  leaves the controllers of this thread alone; \<open>fuel\<close> bounds the emptying of the receiver.
\<close>

definition hw_bus :: "nat \<Rightarrow> ('d board \<Rightarrow> kernel) \<Rightarrow> 'd mmio \<Rightarrow> 'd board monitor_bus" where
  "hw_bus fuel resume io =
     \<lparr>bus_uart1_reset = (\<lambda>baud b.
        case ydrasil_bus_uart1_reset fuel (logged io) baud (board_dev b) of
          Done s \<Rightarrow> b\<lparr>board_dev := s\<rparr> | _ \<Rightarrow> b\<lparr>board_hung := True\<rparr>),
      bus_uart1_getc = (\<lambda>b. let (r, v, s) = ydrasil_bus_uart1_getc (logged io) (board_dev b) in (r, v, b\<lparr>board_dev := s\<rparr>)),
      bus_gpio_write = (\<lambda>pin high. on_dev (ydrasil_bus_gpio_write (logged io) pin high)),
      bus_spi0_write = (\<lambda>data b. let (r, s) = ydrasil_bus_spi0_write (logged io) data (board_dev b) in (r, b\<lparr>board_dev := s\<rparr>)),
      bus_millis = (\<lambda>b. (ydrasil_bus_millis (board_kernel b), b)),
      bus_delay_ms = (\<lambda>ms b. let b = b\<lparr>board_kernel := ydrasil_bus_delay_ms ms (board_kernel b)\<rparr> in b\<lparr>board_kernel := resume b\<rparr>)\<rparr>"

section \<open>What a panel shows\<close>

text \<open>The part of the panel that a picture depends on, whatever the data/command line is now.\<close>

definition screen :: "mock \<Rightarrow> u8 \<times> u8 \<times> u8 list list" where
  "screen m = (oled_page m, oled_column m, framebuffer m)"

definition line_mode :: "int \<Rightarrow> int" where
  "line_mode mode = (if mode \<noteq> 0 then 1 else 0)"

locale panel_board =
  fixes bus :: "'b monitor_bus" and panel :: "'b \<Rightarrow> mock"
  assumes gpio_screen: "screen (panel (bus_gpio_write bus pin high b)) = screen (panel b)"
    and delay_screen: "screen (panel (bus_delay_ms bus ms b)) = screen (panel b)"
    and write_screen: "bus_spi0_write bus bytes (bus_gpio_write bus SSD1306_DC_GPIO mode b) = (YDRASIL_DRIVER_OK, b') \<Longrightarrow>
      screen (panel b') = screen (fold mock_oled_byte bytes ((panel b)\<lparr>oled_data_mode := line_mode mode\<rparr>))"

text \<open>The command interpreter reads only the mode and the screen.\<close>

lemma screen_byte:
  "screen m = screen m' \<Longrightarrow> oled_data_mode m = oled_data_mode m' \<Longrightarrow>
     screen (mock_oled_byte x m) = screen (mock_oled_byte x m') \<and>
     oled_data_mode (mock_oled_byte x m) = oled_data_mode (mock_oled_byte x m')"
  by (auto simp: screen_def mock_oled_byte_def process_oled_command_def)

lemma screen_bytes:
  "screen m = screen m' \<Longrightarrow> oled_data_mode m = oled_data_mode m' \<Longrightarrow>
     screen (fold mock_oled_byte xs m) = screen (fold mock_oled_byte xs m') \<and>
     oled_data_mode (fold mock_oled_byte xs m) = oled_data_mode (fold mock_oled_byte xs m')"
proof (induction xs arbitrary: m m')
  case (Cons x xs)
  from screen_byte[OF Cons.prems, of x] Cons.IH[of "mock_oled_byte x m" "mock_oled_byte x m'"] show ?case by simp
qed simp

interpretation sim: panel_board mock_bus "\<lambda>m. m"
proof unfold_locales
  show "screen (bus_gpio_write mock_bus pin high b) = screen b" for pin high b
    by (simp add: mock_bus_def mock_gpio_write_def screen_def)
  show "screen (bus_delay_ms mock_bus ms b) = screen b" for ms b
    by (simp add: mock_bus_def mock_delay_ms_def screen_def)
  show "screen b' = screen (fold mock_oled_byte bytes (b\<lparr>oled_data_mode := line_mode mode\<rparr>))"
    if "bus_spi0_write mock_bus bytes (bus_gpio_write mock_bus SSD1306_DC_GPIO mode b) = (YDRASIL_DRIVER_OK, b')"
    for bytes mode b b'
  proof -
    let ?m = "b\<lparr>oled_data_mode := line_mode mode\<rparr>"
    let ?m' = "if line_mode mode \<noteq> 0 \<and> oled_max_data_write_size b < length bytes
      then ?m\<lparr>oled_max_data_write_size := length bytes\<rparr> else ?m"
    have "b' = fold mock_oled_byte bytes ?m'"
      using that by (simp add: mock_bus_def mock_spi0_write_def mock_gpio_write_def SSD1306_DC_GPIO_def
          MOCK_OLED_DC_GPIO_def Let_def line_mode_def split: if_splits)
    moreover have "screen ?m' = screen ?m" "oled_data_mode ?m' = oled_data_mode ?m" by (simp_all add: screen_def)
    ultimately show ?thesis using screen_bytes by blast
  qed
qed


section \<open>One driver, two boards\<close>

text \<open>
  An operation on a board shows as another on the simulated board: whenever it succeeds, so does
  the other, from any state with the same screen, to a state with the same screen.
\<close>

definition shows_as :: "('b \<Rightarrow> mock) \<Rightarrow> ('b \<Rightarrow> int \<times> 'b) \<Rightarrow> (mock \<Rightarrow> int \<times> mock) \<Rightarrow> bool" where
  "shows_as p f g \<longleftrightarrow>
     (\<forall>b b' m. f b = (YDRASIL_DRIVER_OK, b') \<and> screen (p b) = screen m \<longrightarrow>
        (\<exists>m'. g m = (YDRASIL_DRIVER_OK, m') \<and> screen (p b') = screen m'))"

lemma shows_asD:
  "shows_as p f g \<Longrightarrow> f b = (YDRASIL_DRIVER_OK, b') \<Longrightarrow> screen (p b) = screen m \<Longrightarrow>
     \<exists>m'. g m = (YDRASIL_DRIVER_OK, m') \<and> screen (p b') = screen m'"
  unfolding shows_as_def by blast

lemma shows_as_return: "shows_as p (\<lambda>b. (YDRASIL_DRIVER_OK, b)) (\<lambda>m. (YDRASIL_DRIVER_OK, m))"
  by (simp add: shows_as_def)

lemma shows_as_pre:
  "shows_as p f g \<Longrightarrow> (\<And>b. screen (p (s b)) = screen (p b)) \<Longrightarrow> (\<And>m. screen (s' m) = screen m) \<Longrightarrow>
     shows_as p (\<lambda>b. f (s b)) (\<lambda>m. g (s' m))"
  unfolding shows_as_def by metis

lemma shows_as_seq:
  assumes "shows_as p f g" and "shows_as p f' g'"
  shows "shows_as p (\<lambda>b. case f b of (r, b) \<Rightarrow> if r \<noteq> YDRASIL_DRIVER_OK then (r, b) else f' b)
    (\<lambda>m. case g m of (r, m) \<Rightarrow> if r \<noteq> YDRASIL_DRIVER_OK then (r, m) else g' m)"
  unfolding shows_as_def
proof (intro allI impI)
  fix b b' m
  assume a: "(case f b of (r, b) \<Rightarrow> if r \<noteq> YDRASIL_DRIVER_OK then (r, b) else f' b) = (YDRASIL_DRIVER_OK, b') \<and>
    screen (p b) = screen m"
  obtain r b1 where f: "f b = (r, b1)" by (rule prod.exhaust)
  with a have "r = YDRASIL_DRIVER_OK" "f' b1 = (YDRASIL_DRIVER_OK, b')" by (auto split: if_splits)
  with f a assms show "\<exists>m'. (case g m of (r, m) \<Rightarrow> if r \<noteq> YDRASIL_DRIVER_OK then (r, m) else g' m) =
      (YDRASIL_DRIVER_OK, m') \<and> screen (p b') = screen m'"
    by (fastforce dest: shows_asD)
qed

lemma screen_sim:
  "screen (mock_gpio_write pin high m) = screen m" "screen (mock_delay_ms ms m) = screen m"
  by (simp_all add: mock_gpio_write_def mock_delay_ms_def screen_def)

lemma commit_stops: "r \<noteq> YDRASIL_DRIVER_OK \<Longrightarrow> sent_commit n bus d r b = (r, b)"
  by (simp add: sent_commit.simps)

lemma commit_step:
  assumes "page < SSD1306_PAGE_COUNT"
  shows "sent_commit page bus d YDRASIL_DRIVER_OK = (\<lambda>b.
    case sent_page bus d (of_nat page) (frame_buffer d ! page) b of
      (r, b) \<Rightarrow> if r \<noteq> YDRASIL_DRIVER_OK then (r, b) else sent_commit (page + 2) bus d YDRASIL_DRIVER_OK b)"
proof
  show "sent_commit page bus d YDRASIL_DRIVER_OK b = (case sent_page bus d (of_nat page) (frame_buffer d ! page) b of
      (r, b) \<Rightarrow> if r \<noteq> YDRASIL_DRIVER_OK then (r, b) else sent_commit (page + 2) bus d YDRASIL_DRIVER_OK b)" for b
    using assms by (simp add: sent_commit.simps[of page] Let_def commit_stops split: prod.split)
qed

context panel_board
begin

lemma write_shows: "shows_as panel (oled_write bus mode bytes) (oled_write mock_bus mode bytes)"
proof -
  have "screen (panel b') = screen (fold mock_oled_byte bytes (m\<lparr>oled_data_mode := line_mode mode\<rparr>))"
    if "oled_write bus mode bytes b = (YDRASIL_DRIVER_OK, b')" "screen (panel b) = screen m" for b b' m
  proof -
    have "screen ((panel b)\<lparr>oled_data_mode := line_mode mode\<rparr>) = screen (m\<lparr>oled_data_mode := line_mode mode\<rparr>)"
      using that(2) by (simp add: screen_def)
    then show ?thesis
      using write_screen[of bytes mode b b'] that(1) screen_bytes[of "(panel b)\<lparr>oled_data_mode := line_mode mode\<rparr>"
        "m\<lparr>oled_data_mode := line_mode mode\<rparr>" bytes] by (simp add: oled_write_def)
  qed
  moreover have "\<exists>m'. oled_write mock_bus mode bytes m = (YDRASIL_DRIVER_OK, m')" for m
    by (simp add: oled_write_def mock_bus_def mock_spi0_write_def Let_def)
  ultimately show ?thesis
    unfolding shows_as_def using sim.write_screen by (metis oled_write_def)
qed

lemma command_shows: "shows_as panel (oled_command bus cmds) (oled_command mock_bus cmds)"
  unfolding oled_command_def by (rule write_shows)

lemma reset_shows: "shows_as panel (oled_reset_and_configure bus s) (oled_reset_and_configure mock_bus s)"
  unfolding oled_reset_and_configure_def Let_def
  by (rule shows_as_pre[OF command_shows]) (simp_all add: gpio_screen delay_screen screen_sim)

lemma position_shows: "shows_as panel (oled_set_position bus d page c) (oled_set_position mock_bus d page c)"
  unfolding oled_set_position_def Let_def by (rule command_shows)

lemma columns_shows: "shows_as panel (sent_columns bus c data) (sent_columns mock_bus c data)"
proof (induction "SSD1306_WIDTH - c" arbitrary: c rule: less_induct)
  case less
  show ?case
  proof (cases "c < SSD1306_WIDTH")
    case True
    have "shows_as panel (sent_columns bus (c + SSD1306_WRITE_CHUNK) data)
        (sent_columns mock_bus (c + SSD1306_WRITE_CHUNK) data)"
      by (rule less) (use True in \<open>simp add: ssd1306_consts\<close>)
    from shows_as_seq[OF write_shows this] True show ?thesis
      by (simp add: sent_columns.simps[of _ c, abs_def] Let_def)
  next
    case False
    then show ?thesis using shows_as_return by (simp add: sent_columns.simps[of _ c, abs_def])
  qed
qed

lemma page_shows: "shows_as panel (sent_page bus d page data) (sent_page mock_bus d page data)"
  using shows_as_seq[OF position_shows columns_shows] unfolding sent_page_def Let_def by simp

lemma clear_shows: "shows_as panel (sent_clear n page bus d) (sent_clear n page mock_bus d)"
proof (induction n arbitrary: page)
  case 0
  then show ?case using shows_as_return by (simp add: sent_clear.simps(1)[abs_def])
next
  case (Suc n)
  from shows_as_seq[OF page_shows Suc] show ?case by (simp add: sent_clear.simps(2)[abs_def] Let_def)
qed

lemma commit_shows: "shows_as panel (sent_commit page bus d YDRASIL_DRIVER_OK) (sent_commit page mock_bus d YDRASIL_DRIVER_OK)"
proof (induction "SSD1306_PAGE_COUNT - page" arbitrary: page rule: less_induct)
  case less
  show ?case
  proof (cases "page < SSD1306_PAGE_COUNT")
    case True
    have "shows_as panel (sent_commit (page + 2) bus d YDRASIL_DRIVER_OK) (sent_commit (page + 2) mock_bus d YDRASIL_DRIVER_OK)"
      by (rule less) (use True in simp)
    then show ?thesis unfolding commit_step[OF True] by (rule shows_as_seq[OF page_shows])
  next
    case False
    then show ?thesis using shows_as_return by (simp add: sent_commit.simps[of page, abs_def])
  qed
qed

lemma init_shows:
  assumes ok: "sent_init bus d b = (YDRASIL_DRIVER_OK, d', b')" and m: "screen (panel b) = screen m"
  shows "\<exists>m'. sent_init mock_bus d m = (YDRASIL_DRIVER_OK, d', m') \<and> screen (panel b') = screen m'"
proof (cases "initialized d = 0")
  case True
  obtain r1 b1 where s1: "oled_reset_and_configure bus (init_sequence d) b = (r1, b1)" by (rule prod.exhaust)
  have r1: "r1 = YDRASIL_DRIVER_OK"
    using ok True s1 by (auto simp: sent_init_def Let_def split: prod.splits if_splits)
  obtain m1 where m1: "oled_reset_and_configure mock_bus (init_sequence d) m = (YDRASIL_DRIVER_OK, m1)"
    "screen (panel b1) = screen m1" using shows_asD[OF reset_shows s1[unfolded r1] m] by blast
  obtain r2 b2 where s2: "oled_reset_and_configure bus (init_sequence d) (bus_delay_ms bus 100 b1) = (r2, b2)"
    by (rule prod.exhaust)
  have r2: "r2 = YDRASIL_DRIVER_OK"
    using ok True s1 s2 r1 by (auto simp: sent_init_def Let_def split: prod.splits if_splits)
  have e1: "screen (panel (bus_delay_ms bus 100 b1)) = screen (bus_delay_ms mock_bus 100 m1)"
    using m1(2) by (simp add: delay_screen screen_sim)
  obtain m2 where m2: "oled_reset_and_configure mock_bus (init_sequence d) (bus_delay_ms mock_bus 100 m1) = (YDRASIL_DRIVER_OK, m2)"
    "screen (panel b2) = screen m2" using shows_asD[OF reset_shows s2[unfolded r2] e1] by blast
  have s3: "sent_clear SSD1306_PAGE_COUNT 0 bus d (bus_delay_ms bus 100 b2) = (YDRASIL_DRIVER_OK, b')" and d': "d' = d\<lparr>initialized := 1\<rparr>"
    using ok True s1 s2 r1 r2 by (auto simp: sent_init_def Let_def split: prod.splits if_splits)
  have e2: "screen (panel (bus_delay_ms bus 100 b2)) = screen (bus_delay_ms mock_bus 100 m2)"
    using m2(2) by (simp add: delay_screen screen_sim)
  obtain m3 where m3: "sent_clear SSD1306_PAGE_COUNT 0 mock_bus d (bus_delay_ms mock_bus 100 m2) = (YDRASIL_DRIVER_OK, m3)"
    "screen (panel b') = screen m3"
    using shows_asD[OF clear_shows s3 e2] by blast
  show ?thesis
    using True m1(1) m2(1) m3 unfolding sent_init_def d' by (simp add: Let_def)
qed (use assms in \<open>auto simp: sent_init_def\<close>)

lemma frame_shows:
  assumes ok: "ssd1306_show_frame bus d ls b = Done (YDRASIL_DRIVER_OK, d', b')" and m: "screen (panel b) = screen m"
  shows "\<exists>m'. ssd1306_show_frame mock_bus d ls m = Done (YDRASIL_DRIVER_OK, d', m') \<and> screen (panel b') = screen m'"
proof -
  obtain fb where fb: "render_lines 0 ls (replicate SSD1306_PAGE_COUNT (replicate SSD1306_WIDTH 0)) = Done fb"
    using ok by (auto simp: ssd1306_show_frame_sent exec_bind_Done_iff)
  obtain r0 d0 b0 where i: "sent_init bus (d\<lparr>frame_buffer := fb\<rparr>) b = (r0, d0, b0)" by (rule prod_cases3)
  obtain r1 b1 where s1: "ssd1306_display_off bus b0 = (r1, b1)" by (rule prod.exhaust)
  obtain r2 b2 where s2: "(if r1 = YDRASIL_DRIVER_OK then oled_command bus [0x40] b1 else (r1, b1)) = (r2, b2)"
    by (rule prod.exhaust)
  obtain r3 b3 where s3: "sent_commit 0 bus d0 r2 b2 = (r3, b3)" by (rule prod.exhaust)
  obtain r4 b4 where s4: "ssd1306_display_on bus b3 = (r4, b4)" by (rule prod.exhaust)
  have oks: "r0 = YDRASIL_DRIVER_OK" "r3 = YDRASIL_DRIVER_OK" "r4 = YDRASIL_DRIVER_OK" "d' = d0" "b' = b4"
    using ok fb i s1 s2 s3 s4 by (auto simp: ssd1306_show_frame_sent Let_def split: if_splits)
  have r2: "r2 = YDRASIL_DRIVER_OK" using s3 oks(2) commit_stops[of r2 0 bus d0 b2] by (cases "r2 = YDRASIL_DRIVER_OK") auto
  have r1: "r1 = YDRASIL_DRIVER_OK" using s2 r2 by (auto split: if_splits)
  obtain m0 where m0: "sent_init mock_bus (d\<lparr>frame_buffer := fb\<rparr>) m = (YDRASIL_DRIVER_OK, d0, m0)"
    "screen (panel b0) = screen m0" using init_shows[OF i[unfolded oks(1)] m] by blast
  obtain m1 where m1: "ssd1306_display_off mock_bus m0 = (YDRASIL_DRIVER_OK, m1)" "screen (panel b1) = screen m1"
    using shows_asD[OF command_shows s1[unfolded r1 ssd1306_display_off_def] m0(2)] unfolding ssd1306_display_off_def by blast
  obtain m2 where m2: "oled_command mock_bus [0x40] m1 = (YDRASIL_DRIVER_OK, m2)" "screen (panel b2) = screen m2"
    using shows_asD[OF command_shows _ m1(2), of "[0x40]" b2] s2 r1 r2 by auto
  obtain m3 where m3: "sent_commit 0 mock_bus d0 YDRASIL_DRIVER_OK m2 = (YDRASIL_DRIVER_OK, m3)" "screen (panel b3) = screen m3"
    using shows_asD[OF commit_shows s3[unfolded r2 oks(2)] m2(2)] by blast
  obtain m4 where m4: "ssd1306_display_on mock_bus m3 = (YDRASIL_DRIVER_OK, m4)" "screen (panel b4) = screen m4"
    using shows_asD[OF command_shows s4[unfolded oks(3) ssd1306_display_on_def] m3(2)] unfolding ssd1306_display_on_def by blast
  show ?thesis
    using fb m0(1) m1(1) m2(1) m3(1) m4 unfolding ssd1306_show_frame_sent oks(4,5) by (simp add: Let_def)
qed

end

section \<open>The panel on the board\<close>

text \<open>A panel follows the register writes: GPIO 1 is its data/command line, the SPI feeds it.\<close>

definition panel_step :: "u32 \<times> u32 \<Rightarrow> spi_state \<times> mock \<Rightarrow> spi_state \<times> mock" where
  "panel_step w = (\<lambda>(s, m).
     let s' = spi_step w s;
         m = (if fst w = GPIO_OUTPUT then m\<lparr>oled_data_mode := (if bit (snd w) 1 then 1 else 0)\<rparr> else m)
     in (s', fold mock_oled_byte (drop (length (spi_sent s)) (spi_sent s')) m))"

definition panel_of :: "mock \<Rightarrow> reg_log \<Rightarrow> mock" where
  "panel_of m0 l = snd (fold panel_step l (\<lparr>spi_words = [], spi_length = 0, spi_sent = []\<rparr>, m0))"


lemma spi0_write_chunks:
  assumes "ydrasil_bus_spi0_write (logged io) data s = (YDRASIL_DRIVER_OK, s')"
  shows "\<exists>cs. snd s' = snd s @ concat (map chunk_log cs) \<and> concat cs = data \<and> (\<forall>c \<in> set cs. c \<noteq> [] \<and> length c \<le> 4)"
  using assms
proof (induction "length data" arbitrary: data s rule: less_induct)
  case less
  show ?case
  proof (cases "data = []")
    case True
    with less.prems show ?thesis by (simp add: ydrasil_bus_spi0_write.simps exI[of _ "[]"])
  next
    case False
    obtain r1 s1 where c: "spi_write_chunk (logged io) (take 4 data) s = (r1, s1)" by (rule prod.exhaust)
    have ck: "take 4 data \<noteq> []" "length (take 4 data) \<le> 4" using False by simp_all
    have r1: "r1 = YDRASIL_DRIVER_OK"
      using less.prems False c by (auto simp: ydrasil_bus_spi0_write.simps[of _ data] SPI_FIFO_BYTES_def split: if_splits)
    have rest: "ydrasil_bus_spi0_write (logged io) (drop 4 data) s1 = (YDRASIL_DRIVER_OK, s')"
      using less.prems False c r1 by (simp add: ydrasil_bus_spi0_write.simps[of _ data] SPI_FIFO_BYTES_def)
    obtain cs where cs: "snd s' = snd s1 @ concat (map chunk_log cs)" "concat cs = drop 4 data"
      "\<forall>c \<in> set cs. c \<noteq> [] \<and> length c \<le> 4" using less.hyps[OF _ rest] False by auto
    have "snd s1 = snd s @ chunk_log (take 4 data)" using spi_chunk_logged[OF ck c] r1 by (auto simp: driver_status)
    with cs ck show ?thesis by (intro exI[of _ "take 4 data # cs"]) simp
  qed
qed

lemma panel_chunk:
  assumes "c \<noteq> []" and "length c \<le> 4"
  shows "\<exists>st'. fold panel_step (chunk_log c) (st, m) = (st', fold mock_oled_byte c m)"
proof -
  have sent: "spi_sent (fold spi_step (chunk_log c) st) = spi_sent st @ c" by (rule spi_step_chunk[OF assms])
  have quiet: "fold panel_step l (st, m) = (fold spi_step l st, m)"
    if "\<forall>w \<in> set l. fst w \<noteq> GPIO_OUTPUT \<and> (fst w = SPI_STATUS \<longrightarrow> snd w = SPI_STATUS_CLEAR_FIFO)" for l st
    using that
  proof (induction l arbitrary: st)
    case (Cons w l)
    have "spi_sent (spi_step w st) = spi_sent st"
      using Cons.prems by (auto simp: spi_step_def SPI_STATUS_CLEAR_FIFO_def split: prod.split)
    with Cons show ?case by (simp add: panel_step_def Let_def)
  qed simp
  let ?l = "butlast (chunk_log c)"
  have l: "chunk_log c = ?l @ [(SPI_STATUS, SPI_STATUS_START_WRITE)]" by (simp add: chunk_log_def)
  have "\<forall>w \<in> set ?l. fst w \<noteq> GPIO_OUTPUT \<and> (fst w = SPI_STATUS \<longrightarrow> snd w = SPI_STATUS_CLEAR_FIFO)"
    by (auto simp: chunk_log_def spi_regs GPIO_OUTPUT_def YDRASIL_GPIO_BASE_def)
  from quiet[OF this, of st] have q: "fold panel_step ?l (st, m) = (fold spi_step ?l st, m)" .
  have "spi_sent (fold spi_step ?l st) = spi_sent st"
    by (simp add: chunk_log_def spi_step_def spi_regs SPI_STATUS_CLEAR_FIFO_def)
  moreover have "fold spi_step (chunk_log c) st = spi_step (SPI_STATUS, SPI_STATUS_START_WRITE) (fold spi_step ?l st)"
    by (subst l) simp
  ultimately have "panel_step (SPI_STATUS, SPI_STATUS_START_WRITE) (fold spi_step ?l st, m) =
      (fold spi_step (chunk_log c) st, fold mock_oled_byte c m)"
    using sent by (simp add: panel_step_def Let_def spi_regs GPIO_OUTPUT_def YDRASIL_GPIO_BASE_def)
  then show ?thesis by (subst l) (simp add: q)
qed

lemma panel_chunks:
  "\<forall>c \<in> set cs. c \<noteq> [] \<and> length c \<le> 4 \<Longrightarrow>
     \<exists>st'. fold panel_step (concat (map chunk_log cs)) (st, m) = (st', fold mock_oled_byte (concat cs) m)"
proof (induction cs arbitrary: st m)
  case (Cons c cs)
  obtain st1 where "fold panel_step (chunk_log c) (st, m) = (st1, fold mock_oled_byte c m)"
    using panel_chunk[of c st m] Cons.prems by auto
  with Cons.IH[of st1 "fold mock_oled_byte c m"] Cons.prems show ?case by simp
qed simp

lemma gpio_logged:
  "\<exists>v w. snd (ydrasil_bus_gpio_write (logged io) pin high s) =
      snd s @ (if pin \<ge> 32 then [] else [(GPIO_OUTPUT, v), (GPIO_DIRECTION, w)]) \<and> (pin = 1 \<longrightarrow> (bit v 1 \<longleftrightarrow> high \<noteq> 0))"
proof -
  have "\<not> (32 :: u32) \<le> 1" by (simp add: word_le_nat_alt)
  then show ?thesis
  by (auto simp: ydrasil_bus_gpio_write_def Let_def mm_modify_def bit_simps split: prod.split)
qed

lemma panel_gpio:
  "pin < 32 \<Longrightarrow> snd s' = snd s @ [(GPIO_OUTPUT, v), (GPIO_DIRECTION, w)] \<Longrightarrow>
     panel_of m0 (snd s') = (panel_of m0 (snd s))\<lparr>oled_data_mode := (if bit v 1 then 1 else 0)\<rparr>"
  by (cases "fold panel_step (snd s) (\<lparr>spi_words = [], spi_length = 0, spi_sent = []\<rparr>, m0)")
    (simp add: panel_of_def panel_step_def spi_step_def Let_def spi_regs GPIO_OUTPUT_def GPIO_DIRECTION_def YDRASIL_GPIO_BASE_def)


lemma panel_gpio_screen: "screen (panel_of m0 (snd (ydrasil_bus_gpio_write (logged io) pin high s))) = screen (panel_of m0 (snd s))"
proof (cases "pin \<ge> 32")
  case False
  obtain v w where "snd (ydrasil_bus_gpio_write (logged io) pin high s) = snd s @ [(GPIO_OUTPUT, v), (GPIO_DIRECTION, w)]"
    using gpio_logged[of io pin high s] False by auto
  from panel_gpio[OF _ this, of pin m0] False show ?thesis by (simp add: not_le screen_def)
qed (simp add: ydrasil_bus_gpio_write_def)

lemma panel_write:
  assumes "ydrasil_bus_spi0_write (logged io) bytes (ydrasil_bus_gpio_write (logged io) 1 mode s) = (YDRASIL_DRIVER_OK, s')"
  shows "panel_of m0 (snd s') = fold mock_oled_byte bytes ((panel_of m0 (snd s))\<lparr>oled_data_mode := line_mode mode\<rparr>)"
proof -
  let ?s = "ydrasil_bus_gpio_write (logged io) 1 mode s"
  have "(1 :: u32) < 32" by simp
  then obtain v w where g: "snd ?s = snd s @ [(GPIO_OUTPUT, v), (GPIO_DIRECTION, w)]" and bit: "bit v 1 \<longleftrightarrow> mode \<noteq> 0"
    using gpio_logged[of io 1 mode s] by (auto simp: not_le[symmetric])
  have pg: "panel_of m0 (snd ?s) = (panel_of m0 (snd s))\<lparr>oled_data_mode := line_mode mode\<rparr>"
    using panel_gpio[OF \<open>(1 :: u32) < 32\<close> g, of m0] bit by (simp add: line_mode_def)
  obtain cs where cs: "snd s' = snd ?s @ concat (map chunk_log cs)" "concat cs = bytes"
    "\<forall>c \<in> set cs. c \<noteq> [] \<and> length c \<le> 4" using spi0_write_chunks[OF assms] by blast
  obtain st m where f: "fold panel_step (snd ?s) (\<lparr>spi_words = [], spi_length = 0, spi_sent = []\<rparr>, m0) = (st, m)"
    by (rule prod.exhaust)
  then have "panel_of m0 (snd s') = fold mock_oled_byte bytes m" "panel_of m0 (snd ?s) = m"
    using panel_chunks[OF cs(3), of st m] cs(1,2) by (auto simp: panel_of_def)
  with pg show ?thesis by simp
qed

interpretation hw: panel_board "hw_bus fuel resume io" "\<lambda>b. panel_of m0 (snd (board_dev b))" for fuel resume io m0
proof unfold_locales
  show "screen (panel_of m0 (snd (board_dev (bus_gpio_write (hw_bus fuel resume io) pin high b)))) =
      screen (panel_of m0 (snd (board_dev b)))" for pin high b
    by (simp add: hw_bus_def on_dev_def panel_gpio_screen)
  show "screen (panel_of m0 (snd (board_dev (bus_delay_ms (hw_bus fuel resume io) ms b)))) =
      screen (panel_of m0 (snd (board_dev b)))" for ms b
    by (simp add: hw_bus_def Let_def)
  show "screen (panel_of m0 (snd (board_dev b'))) =
      screen (fold mock_oled_byte bytes ((panel_of m0 (snd (board_dev b)))\<lparr>oled_data_mode := line_mode mode\<rparr>))"
    if "bus_spi0_write (hw_bus fuel resume io) bytes (bus_gpio_write (hw_bus fuel resume io) SSD1306_DC_GPIO mode b) =
      (YDRASIL_DRIVER_OK, b')" for bytes mode b b'
  proof -
    have "ydrasil_bus_spi0_write (logged io) bytes (ydrasil_bus_gpio_write (logged io) 1 mode (board_dev b)) =
        (YDRASIL_DRIVER_OK, board_dev b')"
      using that by (auto simp: hw_bus_def on_dev_def SSD1306_DC_GPIO_def split: prod.splits)
    from panel_write[OF this] show ?thesis by simp
  qed
qed

section \<open>Properties\<close>

text \<open>C10. A frame drawn on the SoC shows what it shows in the simulation: whatever the hardware
  answers, if \<open>ssd1306_show_frame\<close> over the memory-mapped controllers reports success, then
  the registers were written so that a panel on that board has the page, column and picture of
  the simulated panel after the same call, which succeeds there too and leaves the driver in the
  same state.\<close>

theorem ssd1306_frame_same_on_hardware:
  assumes "ssd1306_show_frame (hw_bus fuel resume io) d ls b = Done (YDRASIL_DRIVER_OK, d', b')"
    and "screen (panel_of m0 (snd (board_dev b))) = screen m"
  shows "\<exists>m'. ssd1306_show_frame mock_bus d ls m = Done (YDRASIL_DRIVER_OK, d', m') \<and>
    screen (panel_of m0 (snd (board_dev b'))) = screen m'"
  by (rule hw.frame_shows[OF assms])


section \<open>Witness\<close>

text \<open>On a bus whose SPI always succeeds, a frame succeeds.\<close>

lemma frame_succeeds:
  assumes ok: "\<And>bytes b. fst (bus_spi0_write bus bytes b) = YDRASIL_DRIVER_OK"
    and ls: "length ls \<le> 4"
  shows "\<exists>d' b'. ssd1306_show_frame bus d ls b = Done (YDRASIL_DRIVER_OK, d', b')"
proof -
  have w: "\<exists>b'. oled_write bus mode bytes b = (YDRASIL_DRIVER_OK, b')" for mode bytes b
    using ok[of bytes "bus_gpio_write bus SSD1306_DC_GPIO mode b"] by (simp add: oled_write_def prod_eq_iff)
  have c: "\<exists>b'. oled_command bus cmds b = (YDRASIL_DRIVER_OK, b')" for cmds b
    using w by (simp add: oled_command_def)
  have cols: "\<exists>b'. sent_columns bus col data b = (YDRASIL_DRIVER_OK, b')" for col data b
  proof (induction "SSD1306_WIDTH - col" arbitrary: col b rule: less_induct)
    case less
    obtain b1 where b1: "oled_write bus 1 (take SSD1306_WRITE_CHUNK (drop col data)) b = (YDRASIL_DRIVER_OK, b1)" using w by blast
    show ?case
    proof (cases "col < SSD1306_WIDTH")
      case True
      then have "SSD1306_WIDTH - (col + SSD1306_WRITE_CHUNK) < SSD1306_WIDTH - col" by (simp add: ssd1306_consts)
      from less[OF this, of b1] True b1 show ?thesis by (simp add: sent_columns.simps[of bus col])
    qed (simp add: sent_columns.simps)
  qed
  have page: "\<exists>b'. sent_page bus d' p data b = (YDRASIL_DRIVER_OK, b')" for d' p data b
  proof -
    obtain b1 where "oled_set_position bus d' p 0 b = (YDRASIL_DRIVER_OK, b1)"
      using c unfolding oled_set_position_def Let_def by blast
    with cols[of 0 data b1] show ?thesis by (simp add: sent_page_def)
  qed
  have clear: "\<exists>b'. sent_clear n p bus d' b = (YDRASIL_DRIVER_OK, b')" for n p d' b
  proof (induction n arbitrary: p b)
    case (Suc n)
    obtain b1 where "sent_page bus d' p (replicate SSD1306_WIDTH 0) b = (YDRASIL_DRIVER_OK, b1)" using page by blast
    with Suc[of "p + 1" b1] show ?case by simp
  qed simp
  have commit: "\<exists>b'. sent_commit p bus d' YDRASIL_DRIVER_OK b = (YDRASIL_DRIVER_OK, b')" for p d' b
  proof (induction "SSD1306_PAGE_COUNT - p" arbitrary: p b rule: less_induct)
    case less
    obtain b1 where b1: "sent_page bus d' (of_nat p) (frame_buffer d' ! p) b = (YDRASIL_DRIVER_OK, b1)" using page by blast
    show ?case
    proof (cases "p < SSD1306_PAGE_COUNT")
      case True
      with less[of "p + 2" b1] b1 show ?thesis by (simp add: commit_step[OF True])
    qed (simp add: sent_commit.simps)
  qed
  have reset: "\<exists>b'. oled_reset_and_configure bus s b = (YDRASIL_DRIVER_OK, b')" for s b
    using c unfolding oled_reset_and_configure_def Let_def by blast
  have init: "\<exists>d1 b'. sent_init bus d' b = (YDRASIL_DRIVER_OK, d1, b')" for d' b
  proof -
    obtain b1 where b1: "oled_reset_and_configure bus (init_sequence d') b = (YDRASIL_DRIVER_OK, b1)" using reset by blast
    obtain b2 where b2: "oled_reset_and_configure bus (init_sequence d') (bus_delay_ms bus 100 b1) = (YDRASIL_DRIVER_OK, b2)"
      using reset by blast
    obtain b3 where b3: "sent_clear SSD1306_PAGE_COUNT 0 bus d' (bus_delay_ms bus 100 b2) = (YDRASIL_DRIVER_OK, b3)"
      using clear by blast
    show ?thesis using b1 b2 b3 by (simp add: sent_init_def)
  qed
  have "2 * (0 + length ls) \<le> Suc (length (replicate SSD1306_PAGE_COUNT (replicate SSD1306_WIDTH (0 :: u8))))"
    using ls by (simp add: ssd1306_consts)
  then obtain fb where fb: "render_lines 0 ls (replicate SSD1306_PAGE_COUNT (replicate SSD1306_WIDTH 0)) = Done fb"
    using render_lines_defined by blast
  obtain d0 b0 where s0: "sent_init bus (d\<lparr>frame_buffer := fb\<rparr>) b = (YDRASIL_DRIVER_OK, d0, b0)" using init by blast
  obtain b1 where s1: "ssd1306_display_off bus b0 = (YDRASIL_DRIVER_OK, b1)" using c unfolding ssd1306_display_off_def by blast
  obtain b2 where s2: "oled_command bus [0x40] b1 = (YDRASIL_DRIVER_OK, b2)" using c by blast
  obtain b3 where s3: "sent_commit 0 bus d0 YDRASIL_DRIVER_OK b2 = (YDRASIL_DRIVER_OK, b3)" using commit by blast
  obtain b4 where s4: "ssd1306_display_on bus b3 = (YDRASIL_DRIVER_OK, b4)" using c unfolding ssd1306_display_on_def by blast
  show ?thesis using fb s0 s1 s2 s3 s4 by (simp add: ssd1306_show_frame_sent Let_def)
qed

text \<open>Hardware that is always ready.\<close>

definition ready_io :: "unit mmio" where
  "ready_io = \<lparr>mm_read = (\<lambda>a d. (SPI_STATUS_READY, d)), mm_write = (\<lambda>a v d. d)\<rparr>"

definition new_board :: "unit board" where
  "new_board = \<lparr>board_dev = ((), []), board_kernel = kernel_bss, board_hung = False\<rparr>"

lemma ready_spi: "fst (ydrasil_bus_spi0_write (logged ready_io) data s) = YDRASIL_DRIVER_OK"
proof (induction "length data" arbitrary: data s rule: less_induct)
  case less
  have "fst (poll (logged ready_io) SPI_STATUS (\<lambda>v. v AND SPI_STATUS_READY = 0) (Suc n) s) = Suc n" for n s
    by (simp add: ready_io_def SPI_STATUS_READY_def)
  moreover have loops: "BUS_TIMEOUT_LOOPS = Suc 19999" by (simp add: BUS_TIMEOUT_LOOPS_def)
  ultimately have left: "fst (poll (logged ready_io) SPI_STATUS (\<lambda>v. v AND SPI_STATUS_READY = 0) BUS_TIMEOUT_LOOPS s) = Suc 19999" for s
    by metis
  have idle: "fst (spi_wait_idle (logged ready_io) s) = YDRASIL_DRIVER_OK" for s
  proof -
    obtain n s1 where p: "poll (logged ready_io) SPI_STATUS (\<lambda>v. v AND SPI_STATUS_READY = 0) BUS_TIMEOUT_LOOPS s = (n, s1)"
      by (rule prod.exhaust)
    with left[of s] show ?thesis by (simp add: spi_wait_idle_def)
  qed
  have chunk: "fst (spi_write_chunk (logged ready_io) xs s) = YDRASIL_DRIVER_OK" for xs s
  proof -
    obtain r s1 where w: "spi_wait_idle (logged ready_io) s = (r, s1)" by (rule prod.exhaust)
    with idle[of s] idle show ?thesis by (simp add: spi_write_chunk_def Let_def)
  qed
  show ?case
  proof (cases "data = []")
    case False
    obtain r s1 where c: "spi_write_chunk (logged ready_io) (take SPI_FIFO_BYTES data) s = (r, s1)" by (rule prod.exhaust)
    with chunk[of "take SPI_FIFO_BYTES data" s] have "r = YDRASIL_DRIVER_OK" by simp
    with c False less[of "drop SPI_FIFO_BYTES data" s1] show ?thesis
      by (simp add: ydrasil_bus_spi0_write.simps[of _ data] SPI_FIFO_BYTES_def)
  qed (simp add: ydrasil_bus_spi0_write.simps)
qed

theorem ssd1306_frame_same_on_hardware_witness:
  "\<exists>d' b' m'. ssd1306_show_frame (hw_bus 0 board_kernel ready_io) ssd1306_power_on [Some ''A'', None, None, None] new_board =
      Done (YDRASIL_DRIVER_OK, d', b') \<and>
    ssd1306_show_frame mock_bus ssd1306_power_on [Some ''A'', None, None, None] mock_monitor_reset =
      Done (YDRASIL_DRIVER_OK, d', m') \<and>
    screen (panel_of mock_monitor_reset (snd (board_dev b'))) = screen m'"
proof -
  have ok: "fst (bus_spi0_write (hw_bus 0 board_kernel ready_io) bytes b) = YDRASIL_DRIVER_OK" for bytes and b :: "unit board"
    using ready_spi[of bytes "board_dev b"] by (simp add: hw_bus_def split: prod.split) (metis fst_conv)
  obtain d' b' where "ssd1306_show_frame (hw_bus 0 board_kernel ready_io) ssd1306_power_on [Some ''A'', None, None, None] new_board =
      Done (YDRASIL_DRIVER_OK, d', b')"
    using frame_succeeds[of "hw_bus 0 board_kernel ready_io" "[Some ''A'', None, None, None]" ssd1306_power_on new_board, OF ok]
    by (simp, blast)
  moreover have "screen (panel_of mock_monitor_reset (snd (board_dev new_board))) = screen mock_monitor_reset"
    by (simp add: new_board_def panel_of_def)
  ultimately show ?thesis using ssd1306_frame_same_on_hardware by blast
qed

end
