(* ===== verification/Kernel_Inv.thy ===== *)
theory Kernel_Inv
  imports Rt_Thread
begin

text \<open>
  The invariant of the kernel's lists and timers, and its preservation by the thread
  operations. On top of \<open>ready_inv\<close> and \<open>timer_inv\<close>: a thread waits in at most one
  list and is suspended while it waits; only suspended threads have a running timer; every
  started thread has a priority in range and the mask of it.
\<close>

definition is_ready :: "list_id \<Rightarrow> bool" where
  "is_ready l \<longleftrightarrow> (case l of Ready _ \<Rightarrow> True | _ \<Rightarrow> False)"

lemma is_ready_simps [simp]:
  "is_ready (Ready p)" "\<not> is_ready Defunct" "\<not> is_ready (SemQ i)" "\<not> is_ready (MutexQ i)"
  "\<not> is_ready (EventQ i)" "\<not> is_ready (MbRecvQ i)" "\<not> is_ready (MbSendQ i)"
  "\<not> is_ready (MqRecvQ i)" "\<not> is_ready (MqSendQ i)" "\<not> is_ready (MpQ i)"
  by (simp_all add: is_ready_def)

definition wait_inv :: "kernel \<Rightarrow> bool" where
  "wait_inv k \<longleftrightarrow>
     (\<forall>l. \<not> is_ready l \<longrightarrow> distinct (lists k l)) \<and>
     (\<forall>l l' t. \<not> is_ready l \<and> \<not> is_ready l' \<and> t \<in> set (lists k l) \<and> t \<in> set (lists k l') \<longrightarrow> l = l') \<and>
     (\<forall>l t. \<not> is_ready l \<and> l \<noteq> Defunct \<and> t \<in> set (lists k l) \<longrightarrow> stat_of (threads k t) = RT_THREAD_SUSPEND) \<and>
     (\<forall>t. t \<in> set (lists k Defunct) \<longrightarrow> stat_of (threads k t) = RT_THREAD_CLOSE) \<and>
     (\<forall>t. stat_of (threads k t) = RT_THREAD_SUSPEND \<longrightarrow> wf_prio (threads k t)) \<and>
     (\<forall>t. active k (ThreadTimer t) \<longrightarrow> stat_of (threads k t) = RT_THREAD_SUSPEND)"

lemma wait_invI:
  assumes "\<And>l. \<not> is_ready l \<Longrightarrow> distinct (lists k l)"
    and "\<And>l l' t. \<not> is_ready l \<Longrightarrow> \<not> is_ready l' \<Longrightarrow> t \<in> set (lists k l) \<Longrightarrow> t \<in> set (lists k l') \<Longrightarrow> l = l'"
    and "\<And>l t. \<not> is_ready l \<Longrightarrow> l \<noteq> Defunct \<Longrightarrow> t \<in> set (lists k l) \<Longrightarrow> stat_of (threads k t) = RT_THREAD_SUSPEND"
    and "\<And>t. t \<in> set (lists k Defunct) \<Longrightarrow> stat_of (threads k t) = RT_THREAD_CLOSE"
    and "\<And>t. stat_of (threads k t) = RT_THREAD_SUSPEND \<Longrightarrow> wf_prio (threads k t)"
    and "\<And>t. active k (ThreadTimer t) \<Longrightarrow> stat_of (threads k t) = RT_THREAD_SUSPEND"
  shows "wait_inv k"
  using assms unfolding wait_inv_def by blast

lemma wait_invD:
  assumes "wait_inv k"
  shows "\<not> is_ready l \<Longrightarrow> distinct (lists k l)"
    and "\<not> is_ready l \<Longrightarrow> \<not> is_ready l' \<Longrightarrow> t \<in> set (lists k l) \<Longrightarrow> t \<in> set (lists k l') \<Longrightarrow> l = l'"
    and "\<not> is_ready l \<Longrightarrow> l \<noteq> Defunct \<Longrightarrow> t \<in> set (lists k l) \<Longrightarrow> stat_of (threads k t) = RT_THREAD_SUSPEND"
    and "t \<in> set (lists k Defunct) \<Longrightarrow> stat_of (threads k t) = RT_THREAD_CLOSE"
    and "stat_of (threads k t) = RT_THREAD_SUSPEND \<Longrightarrow> wf_prio (threads k t)"
    and "active k (ThreadTimer t) \<Longrightarrow> stat_of (threads k t) = RT_THREAD_SUSPEND"
  using assms unfolding wait_inv_def by blast+

definition kinv :: "kernel \<Rightarrow> bool" where
  "kinv k \<longleftrightarrow> ready_inv k \<and> timer_inv k \<and> wait_inv k"

lemma kinvD: "kinv k \<Longrightarrow> ready_inv k" "kinv k \<Longrightarrow> timer_inv k" "kinv k \<Longrightarrow> wait_inv k"
  by (simp_all add: kinv_def)

lemma kinvI: "ready_inv k \<Longrightarrow> timer_inv k \<Longrightarrow> wait_inv k \<Longrightarrow> kinv k"
  by (simp add: kinv_def)

lemma active_cong: "timers k' = timers k \<Longrightarrow> active k' m \<longleftrightarrow> active k m"
  by (simp add: active_def)

text \<open>States that agree on what the invariant looks at.\<close>

lemma kinv_cong:
  assumes "kinv k" and "lists k' = lists k" and "ready_group k' = ready_group k"
    and "timer_list k' = timer_list k" and tm: "timers k' = timers k"
    and th: "\<And>t. stat_of (threads k' t) = stat_of (threads k t) \<and>
        current_priority (threads k' t) = current_priority (threads k t) \<and>
        number_mask (threads k' t) = number_mask (threads k t)"
  shows "kinv k'"
proof -
  have "ready_inv k'"
    by (rule ready_inv_cong[OF kinvD(1)[OF assms(1)]]) (use assms in auto)
  moreover have "timer_inv k'" using timer_inv_cong[OF kinvD(2)[OF assms(1)]] assms by simp
  moreover have "wait_inv k'"
    using kinvD(3)[OF assms(1)] assms th active_cong[OF tm] unfolding wait_inv_def wf_prio_def by simp
  ultimately show ?thesis by (rule kinvI)
qed

lemma kinv_schedule [simp]: "kinv (rt_schedule k) \<longleftrightarrow> kinv k"
  by (auto elim!: kinv_cong)

text \<open>A suspended thread is in no ready list, a ready thread in no wait list.\<close>

lemma suspended_not_ready:
  "kinv k \<Longrightarrow> stat_of (threads k t) \<noteq> RT_THREAD_READY \<Longrightarrow> t \<notin> set (lists k (Ready p))"
  using ready_invD(2)[OF kinvD(1)] by blast

lemma ready_not_waiting:
  "kinv k \<Longrightarrow> stat_of (threads k t) = RT_THREAD_READY \<Longrightarrow> \<not> is_ready l \<Longrightarrow> t \<notin> set (lists k l)"
  using wait_invD(3,4)[OF kinvD(3), of k] by (cases "l = Defunct") fastforce+

lemma ready_timer_idle:
  "kinv k \<Longrightarrow> stat_of (threads k t) = RT_THREAD_READY \<Longrightarrow> \<not> active k (ThreadTimer t)"
  using wait_invD(6)[OF kinvD(3)] by fastforce

definition unqueued :: "kernel \<Rightarrow> tid \<Rightarrow> bool" where
  "unqueued k t \<longleftrightarrow> (\<forall>l. t \<notin> set (lists k l))"

section \<open>Waking\<close>

text \<open>
  \<open>wake t k\<close>: the common effect of resumption and timeout, from the state in which the
  timer of the thread has stopped.
\<close>

lemma kinv_wake:
  assumes inv: "kinv k" and susp: "stat_of (threads k t) = RT_THREAD_SUSPEND"
    and idle: "\<not> active k (ThreadTimer t)"
  shows "kinv (rt_schedule_insert_thread t (tlist_remove t k))"
proof (rule kinvI)
  let ?k = "rt_schedule_insert_thread t (tlist_remove t k)"
  have "ready_inv_except {} (tlist_remove t k)"
    by (rule ready_inv_tlist_remove[OF kinvD(1)[OF inv]]) (simp add: susp)
  then have "ready_inv_except {t} (tlist_remove t k)"
    using ready_inv_except_add[of "{}" _ t] susp by simp
  then have "ready_inv_except ({t} - {t}) ?k"
    by (rule ready_inv_insert) (use wait_invD(5)[OF kinvD(3)[OF inv] susp] in auto)
  then show "ready_inv ?k" by simp
  show "timer_inv ?k"
    by (rule timer_inv_cong[OF kinvD(2)[OF inv]]) (simp_all add: rt_schedule_insert_thread_def Let_def)
  have lst: "lists ?k l = removeAll t (lists k l)" if "\<not> is_ready l" for l
    using that by (auto simp: insert_thread_fields)
  have act: "active ?k m \<longleftrightarrow> active k m" for m
    by (rule active_cong) (simp add: rt_schedule_insert_thread_def Let_def)
  have th: "threads ?k = (threads k)(t := set_stat RT_THREAD_READY (threads k t))"
    by (simp add: insert_thread_fields)
  note w = wait_invD[OF kinvD(3)[OF inv]]
  show "wait_inv ?k"
  proof (rule wait_invI)
    show "distinct (lists ?k l)" if "\<not> is_ready l" for l
      using w(1)[OF that] lst[OF that] by (simp add: distinct_removeAll)
    show "l = l'" if "\<not> is_ready l" "\<not> is_ready l'" "u \<in> set (lists ?k l)" "u \<in> set (lists ?k l')" for l l' u
      using w(2)[OF that(1,2), of u] that(3,4) lst[OF that(1)] lst[OF that(2)] by auto
    show "stat_of (threads ?k u) = RT_THREAD_SUSPEND" if "\<not> is_ready l" "l \<noteq> Defunct" "u \<in> set (lists ?k l)" for l u
      using w(3)[OF that(1,2), of u] that(3) lst[OF that(1)] th by auto
    show "stat_of (threads ?k u) = RT_THREAD_CLOSE" if "u \<in> set (lists ?k Defunct)" for u
      using w(4)[of u] that lst[of Defunct] th by auto
    show "wf_prio (threads ?k u)" if "stat_of (threads ?k u) = RT_THREAD_SUSPEND" for u
      using w(5)[of u] that th by (auto split: if_splits)
    show "stat_of (threads ?k u) = RT_THREAD_SUSPEND" if "active ?k (ThreadTimer u)" for u
      using w(6)[of u] that th idle act by auto
  qed
qed

lemma stop_tlist_commute:
  "snd (rt_timer_stop m (tlist_remove t k)) = tlist_remove t (snd (rt_timer_stop m k))"
  by (simp add: rt_timer_stop_def tlist_remove_def rt_timer_deactivate_def rt_timer_remove_def upd_timer_def)

lemma kinv_timer_stop:
  assumes "kinv k"
  shows "kinv (snd (rt_timer_stop m k))"
proof (rule kinvI)
  let ?k = "snd (rt_timer_stop m k)"
  show "ready_inv ?k" by (rule ready_inv_cong[OF kinvD(1)[OF assms]]) simp_all
  show "timer_inv ?k" using timer_inv_stop[OF kinvD(2)[OF assms]] .
  show "wait_inv ?k"
    using kinvD(3)[OF assms] unfolding wait_inv_def by (simp add: rt_timer_stop_state(2))
qed

lemma kinv_resume:
  assumes inv: "kinv k"
  shows "kinv (snd (rt_thread_resume t k))"
proof (cases "stat_of (threads k t) = RT_THREAD_SUSPEND")
  case True
  let ?k = "snd (rt_timer_stop (ThreadTimer t) k)"
  have "kinv (rt_schedule_insert_thread t (tlist_remove t ?k))"
    by (rule kinv_wake[OF kinv_timer_stop[OF inv]]) (simp_all add: True rt_timer_stop_state(2))
  with True show ?thesis by (simp add: rt_thread_resume_def Let_def stop_tlist_commute)
qed (use inv in \<open>simp add: rt_thread_resume_def\<close>)

lemma kinv_error [simp]: "kinv (upd_thread t (\<lambda>th. th\<lparr>error := e\<rparr>) k) \<longleftrightarrow> kinv k"
  by (auto elim!: kinv_cong)

lemma kinv_timeout:
  assumes "kinv k" and "stat_of (threads k t) = RT_THREAD_SUSPEND" and "\<not> active k (ThreadTimer t)"
  shows "kinv (rt_thread_timeout t k)"
proof -
  let ?k = "upd_thread t (\<lambda>th. th\<lparr>error := - RT_ETIMEOUT\<rparr>) k"
  have "kinv (rt_schedule_insert_thread t (tlist_remove t ?k))"
    using assms by (intro kinv_wake) (auto simp: active_def)
  then show ?thesis by (simp add: rt_thread_timeout_def Let_def)
qed

section \<open>Blocking\<close>

lemma kinv_suspend:
  assumes inv: "kinv k"
  shows "kinv (snd (rt_thread_suspend t k))"
proof (cases "stat_of (threads k t) = RT_THREAD_READY")
  case True
  let ?k1 = "rt_schedule_remove_thread t k"
  let ?k2 = "upd_thread t (set_stat RT_THREAD_SUSPEND) ?k1"
  have mem: "t \<in> set (lists k (Ready (unat (current_priority (threads k t)))))"
    using ready_invD(3)[OF kinvD(1)[OF inv] _ True] by simp
  have wf: "wf_prio (threads k t)" using ready_invD(2)[OF kinvD(1)[OF inv] mem] by simp
  have "ready_inv_except {t} ?k1" using ready_inv_remove[OF kinvD(1)[OF inv], of t] wf by simp
  then have "ready_inv_except {t} ?k2" by (rule ready_inv_upd_thread) simp
  then have "ready_inv_except ({t} - {t}) ?k2" by (rule ready_inv_not_ready) simp
  then have r: "ready_inv ?k2" by simp
  have same: "timers ?k2 = timers k" "timer_list ?k2 = timer_list k"
    by (simp_all add: rt_schedule_remove_thread_def Let_def)
  have lst: "lists ?k2 l = lists k l" if "\<not> is_ready l" for l
    using ready_not_waiting[OF inv True that] by (simp add: remove_thread_fields removeAll_id)
  have act: "active ?k2 m \<longleftrightarrow> active k m" for m by (rule active_cong) (rule same)
  have th: "threads ?k2 = (threads k)(t := set_stat RT_THREAD_SUSPEND (threads k t))"
    by (simp add: remove_thread_fields)
  note w = wait_invD[OF kinvD(3)[OF inv]]
  have "wait_inv ?k2"
  proof (rule wait_invI)
    show "distinct (lists ?k2 l)" if "\<not> is_ready l" for l using w(1)[OF that] lst[OF that] by simp
    show "l = l'" if "\<not> is_ready l" "\<not> is_ready l'" "u \<in> set (lists ?k2 l)" "u \<in> set (lists ?k2 l')" for l l' u
      using w(2)[OF that(1,2), of u] that(3,4) lst[OF that(1)] lst[OF that(2)] by simp
    show "stat_of (threads ?k2 u) = RT_THREAD_SUSPEND" if "\<not> is_ready l" "l \<noteq> Defunct" "u \<in> set (lists ?k2 l)" for l u
      using w(3)[OF that(1,2), of u] that(3) lst[OF that(1)] th by auto
    show "stat_of (threads ?k2 u) = RT_THREAD_CLOSE" if "u \<in> set (lists ?k2 Defunct)" for u
      using w(4)[of u] that lst[of Defunct] th True by auto
    show "wf_prio (threads ?k2 u)" if "stat_of (threads ?k2 u) = RT_THREAD_SUSPEND" for u
      using w(5)[of u] that wf by (auto simp: wf_prio_def remove_thread_fields split: if_splits)
    show "stat_of (threads ?k2 u) = RT_THREAD_SUSPEND" if "active ?k2 (ThreadTimer u)" for u
      using w(6)[of u] that th act by auto
  qed
  then have "kinv ?k2" using r timer_inv_cong[OF kinvD(2)[OF inv] same(2,1)] by (intro kinvI)
  with True show ?thesis using kinv_timer_stop by (simp add: rt_thread_suspend_def Let_def)
qed (use inv in \<open>simp add: rt_thread_suspend_def\<close>)

lemma suspend_state:
  assumes inv: "kinv k" and rdy: "stat_of (threads k t) = RT_THREAD_READY"
  shows "stat_of (threads (snd (rt_thread_suspend t k)) t) = RT_THREAD_SUSPEND"
    and "unqueued (snd (rt_thread_suspend t k)) t"
    and "\<not> active (snd (rt_thread_suspend t k)) (ThreadTimer t)"
  using rdy by (auto simp: rt_thread_suspend_def Let_def unqueued_def remove_thread_fields rt_timer_stop_state(2))

lemma kinv_timer_start:
  assumes inv: "kinv k" and susp: "stat_of (threads k t) = RT_THREAD_SUSPEND"
  shows "kinv (snd (rt_timer_start (ThreadTimer t) k))"
proof (rule kinvI)
  let ?k = "snd (rt_timer_start (ThreadTimer t) k)"
  show "ready_inv ?k" by (rule ready_inv_cong[OF kinvD(1)[OF inv]]) simp_all
  show "timer_inv ?k" using timer_inv_start[OF kinvD(2)[OF inv]] .
  show "wait_inv ?k"
    using kinvD(3)[OF inv] susp unfolding wait_inv_def by (simp add: rt_timer_start_state(2))
qed

lemma kinv_user_timer_start:
  assumes inv: "kinv k"
  shows "kinv (snd (rt_timer_start (UserTimer n) k))"
proof (rule kinvI)
  let ?k = "snd (rt_timer_start (UserTimer n) k)"
  show "ready_inv ?k" by (rule ready_inv_cong[OF kinvD(1)[OF inv]]) simp_all
  show "timer_inv ?k" using timer_inv_start[OF kinvD(2)[OF inv]] .
  show "wait_inv ?k"
    using kinvD(3)[OF inv] unfolding wait_inv_def by (simp add: rt_timer_start_state(2))
qed

lemma kinv_init_tick: "kinv k \<Longrightarrow> kinv (upd_timer m (\<lambda>tm. tm\<lparr>timer_init_tick := v\<rparr>) k)"
proof -
  assume inv: "kinv k"
  let ?k = "upd_timer m (\<lambda>tm. tm\<lparr>timer_init_tick := v\<rparr>) k"
  have act: "active ?k x \<longleftrightarrow> active k x" for x by (simp add: active_def)
  have "ready_inv ?k" by (rule ready_inv_cong[OF kinvD(1)[OF inv]]) simp_all
  moreover have "timer_inv ?k" using kinvD(2)[OF inv] unfolding timer_inv_def act by simp
  moreover have "wait_inv ?k" using kinvD(3)[OF inv] unfolding wait_inv_def act by simp
  ultimately show ?thesis by (rule kinvI)
qed

lemma start_thread_timer_eq:
  "start_thread_timer t ticks k =
     snd (rt_timer_start (ThreadTimer t) (upd_timer (ThreadTimer t) (\<lambda>tm. tm\<lparr>timer_init_tick := ticks\<rparr>) k))"
  by (simp add: start_thread_timer_def rt_timer_control_def)

lemma kinv_start_thread_timer:
  "kinv k \<Longrightarrow> stat_of (threads k t) = RT_THREAD_SUSPEND \<Longrightarrow> kinv (start_thread_timer t ticks k)"
  unfolding start_thread_timer_eq by (intro kinv_timer_start kinv_init_tick) auto

lemma kinv_enqueue:
  assumes inv: "kinv k" and susp: "stat_of (threads k t) = RT_THREAD_SUSPEND" and free: "unqueued k t"
    and l: "\<not> is_ready l" "l \<noteq> Defunct"
    and ins: "set (ins (lists k l)) = insert t (set (lists k l))" "distinct (ins (lists k l))"
  shows "kinv (upd_list l ins k)"
proof (rule kinvI)
  show "ready_inv (upd_list l ins k)"
    by (rule ready_inv_cong[OF kinvD(1)[OF inv]]) (use l in auto)
  show "timer_inv (upd_list l ins k)" by (rule timer_inv_cong[OF kinvD(2)[OF inv]]) simp_all
  note w = wait_invD[OF kinvD(3)[OF inv]]
  have act: "active (upd_list l ins k) m \<longleftrightarrow> active k m" for m by (rule active_cong) simp
  show "wait_inv (upd_list l ins k)"
  proof (rule wait_invI)
    show "distinct (lists (upd_list l ins k) l1)" if "\<not> is_ready l1" for l1
      using w(1)[OF that] ins(2) by simp
    show "l1 = l2" if "\<not> is_ready l1" "\<not> is_ready l2" "u \<in> set (lists (upd_list l ins k) l1)"
      "u \<in> set (lists (upd_list l ins k) l2)" for l1 l2 u
      using w(2)[OF that(1,2), of u] w(2)[OF l(1) that(2), of u] w(2)[OF that(1) l(1), of u] that(3,4) ins(1) free
      by (auto simp: unqueued_def split: if_splits)
    show "stat_of (threads (upd_list l ins k) u) = RT_THREAD_SUSPEND"
      if "\<not> is_ready l1" "l1 \<noteq> Defunct" "u \<in> set (lists (upd_list l ins k) l1)" for l1 u
      using w(3)[OF that(1,2), of u] that(3) ins(1) susp by (auto split: if_splits)
    show "stat_of (threads (upd_list l ins k) u) = RT_THREAD_CLOSE"
      if "u \<in> set (lists (upd_list l ins k) Defunct)" for u
      using w(4)[of u] that l by simp
  qed (use w(5,6) act in auto)
qed

section \<open>Other changes of state\<close>

lemma kinv_change_priority:
  assumes inv: "kinv k" and p: "unat prio < RT_THREAD_PRIORITY_MAX"
  shows "kinv (change_priority t prio k)"
proof (cases "stat_of (threads k t) = RT_THREAD_READY")
  case False
  let ?k = "upd_thread t (\<lambda>th. th\<lparr>current_priority := prio, number_mask := push_bit (unat prio) 1\<rparr>) k"
  have "ready_inv_except {t} k" using ready_inv_except_add[OF kinvD(1)[OF inv] False] by simp
  then have "ready_inv_except {t} ?k" by (rule ready_inv_upd_thread) simp
  then have "ready_inv_except ({t} - {t}) ?k" by (rule ready_inv_not_ready) (use False in simp)
  moreover have "timer_inv ?k" by (rule timer_inv_cong[OF kinvD(2)[OF inv]]) simp_all
  moreover have "wait_inv ?k"
  proof -
    have act: "active ?k m \<longleftrightarrow> active k m" for m by (rule active_cong) simp
    show ?thesis
      using kinvD(3)[OF inv] p unfolding wait_inv_def act
      by (auto simp: wf_prio_def)
  qed
  ultimately have "kinv ?k" by (simp add: kinv_def)
  with False show ?thesis by (simp add: change_priority_def Let_def)
next
  case True
  let ?k1 = "rt_schedule_remove_thread t k"
  let ?k2 = "upd_thread t (\<lambda>th. th\<lparr>current_priority := prio, number_mask := push_bit (unat prio) 1\<rparr>) ?k1"
  let ?k3 = "rt_schedule_insert_thread t ?k2"
  have mem: "t \<in> set (lists k (Ready (unat (current_priority (threads k t)))))"
    using ready_invD(3)[OF kinvD(1)[OF inv] _ True] by simp
  have "ready_inv_except {t} ?k1"
    using ready_inv_remove[OF kinvD(1)[OF inv], of t] ready_invD(2)[OF kinvD(1)[OF inv] mem] by simp
  then have "ready_inv_except {t} ?k2" by (rule ready_inv_upd_thread) simp
  then have "ready_inv_except ({t} - {t}) ?k3"
    by (rule ready_inv_insert) (use p in \<open>auto simp: wf_prio_def remove_thread_fields\<close>)
  then have r: "ready_inv ?k3" by simp
  have same: "timers ?k3 = timers k" "timer_list ?k3 = timer_list k"
    by (simp_all add: rt_schedule_remove_thread_def rt_schedule_insert_thread_def Let_def)
  have lst: "lists ?k3 l = lists k l" if "\<not> is_ready l" for l
    using that ready_not_waiting[OF inv True that]
    by (auto simp: insert_thread_fields remove_thread_fields removeAll_id)
  have st: "stat_of (threads ?k3 u) = stat_of (threads k u)" for u
    by (simp add: insert_thread_fields remove_thread_fields True)
  have wf: "wf_prio (threads ?k3 u) \<longleftrightarrow> (if u = t then True else wf_prio (threads k u))" for u
    using p by (simp add: insert_thread_fields remove_thread_fields wf_prio_def)
  have act: "active ?k3 m \<longleftrightarrow> active k m" for m by (rule active_cong) (rule same)
  note w = wait_invD[OF kinvD(3)[OF inv]]
  have "wait_inv ?k3"
  proof (rule wait_invI)
    show "distinct (lists ?k3 l)" if "\<not> is_ready l" for l using w(1)[OF that] lst[OF that] by simp
    show "l = l'" if "\<not> is_ready l" "\<not> is_ready l'" "u \<in> set (lists ?k3 l)" "u \<in> set (lists ?k3 l')" for l l' u
      using w(2)[OF that(1,2), of u] that(3,4) lst[OF that(1)] lst[OF that(2)] by simp
    show "stat_of (threads ?k3 u) = RT_THREAD_SUSPEND" if "\<not> is_ready l" "l \<noteq> Defunct" "u \<in> set (lists ?k3 l)" for l u
      using w(3)[OF that(1,2), of u] that(3) lst[OF that(1)] unfolding st by simp
    show "stat_of (threads ?k3 u) = RT_THREAD_CLOSE" if "u \<in> set (lists ?k3 Defunct)" for u
      using w(4)[of u] that lst[of Defunct] unfolding st by simp
    show "wf_prio (threads ?k3 u)" if "stat_of (threads ?k3 u) = RT_THREAD_SUSPEND" for u
      using w(5)[of u] that unfolding st wf by simp
    show "stat_of (threads ?k3 u) = RT_THREAD_SUSPEND" if "active ?k3 (ThreadTimer u)" for u
      using w(6)[of u] that unfolding st act by simp
  qed
  with r timer_inv_cong[OF kinvD(2)[OF inv] same(2,1)] have "kinv ?k3" by (intro kinvI)
  with True show ?thesis by (simp add: change_priority_def Let_def)
qed

section \<open>Yielding and sleeping\<close>

lemma kinv_ready_permuted:
  assumes inv: "kinv k" and "set (f (lists k (Ready p))) = set (lists k (Ready p))"
    and "distinct (f (lists k (Ready p)))"
  shows "kinv (upd_list (Ready p) f k)"
proof (rule kinvI)
  let ?k = "upd_list (Ready p) f k"
  note r = ready_invD[OF kinvD(1)[OF inv]]
  have st: "set (lists ?k (Ready q)) = set (lists k (Ready q))" for q using assms(2) by simp
  have ne: "lists ?k (Ready q) = [] \<longleftrightarrow> lists k (Ready q) = []" for q
    using st[of q] by (metis set_empty)
  show "ready_inv ?k"
  proof (rule ready_invI)
    show "distinct (lists ?k (Ready q))" for q using r(1)[of q] assms(3) by simp
  qed (use r(2-4) st ne in auto)
  show "timer_inv ?k" by (rule timer_inv_cong[OF kinvD(2)[OF inv]]) simp_all
  have act: "active ?k m \<longleftrightarrow> active k m" for m by (rule active_cong) simp
  have "lists ?k l = lists k l" if "\<not> is_ready l" for l using that by auto
  then show "wait_inv ?k"
    using kinvD(3)[OF inv] unfolding wait_inv_def act by (auto simp del: upd_simps(21)) (simp_all, blast+)
qed

lemma rotate_ready_eq:
  assumes "kinv k" and "stat_of (threads k t) = RT_THREAD_READY"
  shows "upd_list (Ready (unat (current_priority (threads k t)))) (\<lambda>xs. xs @ [t]) (tlist_remove t k) =
    upd_list (Ready (unat (current_priority (threads k t)))) (\<lambda>xs. removeAll t xs @ [t]) k"
proof -
  have "removeAll t (lists k l) = lists k l" if "l \<noteq> Ready (unat (current_priority (threads k t)))" for l
  proof (rule removeAll_id)
    show "t \<notin> set (lists k l)"
      using that ready_invD(2)[OF kinvD(1)[OF assms(1)], of t] ready_not_waiting[OF assms, of l]
      by (cases l) (auto simp: is_ready_def)
  qed
  then show ?thesis by (auto simp: upd_list_def tlist_remove_def fun_eq_iff)
qed

lemma kinv_yield:
  assumes inv: "kinv k"
  shows "kinv (snd (rt_thread_yield k))"
proof (cases "current_thread k")
  case None
  with inv show ?thesis by (auto simp: rt_thread_yield_def elim!: kinv_cong)
next
  case (Some t)
  let ?p = "unat (current_priority (threads k t))"
  show ?thesis
  proof (cases "stat_of (threads k t) = RT_THREAD_READY \<and> t \<in> set (lists k (Ready ?p)) \<and> length (lists k (Ready ?p)) > 1")
    case True
    have "kinv (upd_list (Ready ?p) (\<lambda>xs. removeAll t xs @ [t]) k)"
      by (rule kinv_ready_permuted[OF inv])
        (use True ready_invD(1)[OF kinvD(1)[OF inv]] in \<open>auto simp: distinct_removeAll\<close>)
    with True Some show ?thesis
      using rotate_ready_eq[OF inv] by (simp add: rt_thread_yield_def Let_def)
  qed (use inv Some in \<open>auto simp: rt_thread_yield_def\<close>)
qed

lemma kinv_sleep:
  assumes inv: "kinv k" and "current_thread k = Some t" and rdy: "stat_of (threads k t) = RT_THREAD_READY"
  shows "kinv (rt_thread_sleep ticks k)"
  using assms kinv_start_thread_timer[OF kinv_suspend[OF inv, of t] suspend_state(1)[OF inv rdy]]
  by (simp add: rt_thread_sleep_def)

section \<open>The end of a thread\<close>

text \<open>The thread, taken out of every list and with its timer stopped, is marked closed.\<close>

lemma kinv_closed:
  assumes inv: "kinv k" and r: "ready_inv_except {t} k1"
    and th: "threads k1 = threads k" and lst: "\<And>l. lists k1 l = removeAll t (lists k l)"
    and tm: "timers k1 = timers k" "timer_list k1 = timer_list k"
    and open_t: "stat_of (threads k t) \<noteq> RT_THREAD_CLOSE"
    and k2: "threads k2 = (threads k)(t := (threads k t)\<lparr>stat := RT_THREAD_CLOSE\<rparr>)"
    "\<And>l. l \<noteq> Defunct \<Longrightarrow> lists k2 l = lists k1 l"
    "lists k2 Defunct = lists k1 Defunct \<or> lists k2 Defunct = t # lists k1 Defunct"
    "ready_group k2 = ready_group k1"
    "timer_list k2 = removeAll (ThreadTimer t) (timer_list k)"
    "\<And>m. active k2 m \<longleftrightarrow> m \<noteq> ThreadTimer t \<and> active k m"
  shows "kinv k2"
proof (rule kinvI)
  have cl: "stat_of (threads k2 t) = RT_THREAD_CLOSE"
    by (simp add: k2 stat_of_def)
  have "ready_inv_except {t} (upd_thread t (\<lambda>th. th\<lparr>stat := RT_THREAD_CLOSE\<rparr>) k1)"
    by (rule ready_inv_upd_thread[OF r]) simp
  then have "ready_inv_except {t} k2"
    by (rule ready_inv_cong) (auto simp: k2 th)
  then have "ready_inv_except ({t} - {t}) k2" by (rule ready_inv_not_ready) (simp add: cl)
  then show "ready_inv k2" by simp
  show "timer_inv k2"
    using kinvD(2)[OF inv] by (auto simp: timer_inv_def k2 distinct_removeAll)
  note w = wait_invD[OF kinvD(3)[OF inv]]
  have mem: "u \<in> set (lists k2 l) \<Longrightarrow> l = Defunct \<and> u = t \<or> u \<noteq> t \<and> u \<in> set (lists k l)" for u l
    using k2(2)[of l] k2(3) lst[of l] by (cases "l = Defunct") auto
  show "wait_inv k2"
  proof (rule wait_invI)
    show "distinct (lists k2 l)" if "\<not> is_ready l" for l
      using w(1)[OF that] k2(2)[of l] k2(3) lst[of l] by (cases "l = Defunct") (auto simp: distinct_removeAll)
    show "l = l'" if "\<not> is_ready l" "\<not> is_ready l'" "u \<in> set (lists k2 l)" "u \<in> set (lists k2 l')" for l l' u
      using mem[OF that(3)] mem[OF that(4)] w(2)[OF that(1,2), of u] by auto
    show "stat_of (threads k2 u) = RT_THREAD_SUSPEND" if "\<not> is_ready l" "l \<noteq> Defunct" "u \<in> set (lists k2 l)" for l u
      using mem[OF that(3)] that w(3)[OF that(1,2), of u] by (auto simp: k2)
    show "stat_of (threads k2 u) = RT_THREAD_CLOSE" if "u \<in> set (lists k2 Defunct)" for u
      using mem[OF that] w(4)[of u] cl by (auto simp: k2)
    show "wf_prio (threads k2 u)" if "stat_of (threads k2 u) = RT_THREAD_SUSPEND" for u
      using that w(5)[of u] cl by (auto simp: k2 split: if_splits)
    show "stat_of (threads k2 u) = RT_THREAD_SUSPEND" if "active k2 (ThreadTimer u)" for u
      using that w(6)[of u] k2(6)[of "ThreadTimer u"] by (auto simp: k2)
  qed
qed

text \<open>The states that \<open>kinv_closed\<close> compares, for the three ways to end a thread.\<close>

lemma started_wf:
  assumes inv: "kinv k" and "stat_of (threads k t) \<in> {RT_THREAD_READY, RT_THREAD_SUSPEND}"
  shows "wf_prio (threads k t)"
proof (cases "stat_of (threads k t) = RT_THREAD_READY")
  case True
  with ready_invD(3)[OF kinvD(1)[OF inv] _ True] ready_invD(2)[OF kinvD(1)[OF inv], of t] show ?thesis by blast
next
  case False
  with assms wait_invD(5)[OF kinvD(3)[OF inv]] show ?thesis by auto
qed

lemma removed_or_init:
  assumes inv: "kinv k" and st: "stat_of (threads k t) \<in> {RT_THREAD_INIT, RT_THREAD_READY, RT_THREAD_SUSPEND}"
  defines "k1 \<equiv> (if stat_of (threads k t) \<noteq> RT_THREAD_INIT then rt_schedule_remove_thread t k else k)"
  shows "ready_inv_except {t} k1" and "\<And>l. lists k1 l = removeAll t (lists k l)"
    and "threads k1 = threads k" and "timers k1 = timers k" and "timer_list k1 = timer_list k"
proof -
  show "threads k1 = threads k" "timers k1 = timers k" "timer_list k1 = timer_list k"
    by (simp_all add: k1_def rt_schedule_remove_thread_def Let_def)
  show "ready_inv_except {t} k1"
  proof (cases "stat_of (threads k t) = RT_THREAD_INIT")
    case True
    then show ?thesis using ready_inv_except_add[OF kinvD(1)[OF inv], of t] by (simp add: k1_def)
  next
    case False
    then show ?thesis
      using ready_inv_remove[OF kinvD(1)[OF inv], of t] started_wf[OF inv] st by (auto simp: k1_def)
  qed
  show "lists k1 l = removeAll t (lists k l)" for l
  proof (cases "stat_of (threads k t) = RT_THREAD_INIT")
    case True
    have "t \<notin> set (lists k l)"
      using True suspended_not_ready[OF inv, of t] wait_invD(3)[OF kinvD(3)[OF inv], of _ t]
        wait_invD(4)[OF kinvD(3)[OF inv], of t]
      by (cases l) fastforce+
    with True show ?thesis by (simp add: k1_def removeAll_id)
  qed (simp add: k1_def remove_thread_fields)
qed

lemma timer_detach_fields [simp]:
  "threads (snd (rt_timer_detach m k)) = threads k" "lists (snd (rt_timer_detach m k)) = lists k"
  "ready_group (snd (rt_timer_detach m k)) = ready_group k"
  "current_thread (snd (rt_timer_detach m k)) = current_thread k"
  "timer_list (snd (rt_timer_detach m k)) = removeAll m (timer_list k)"
  "active (snd (rt_timer_detach m k)) x \<longleftrightarrow> x \<noteq> m \<and> active k x"
  by (simp_all add: rt_timer_detach_def rt_object_detach_def active_def rt_timer_deactivate_def
      bit_not_activated)

lemma object_detach_fields [simp]:
  "threads (rt_object_detach ob k) = threads k" "lists (rt_object_detach ob k) = lists k"
  "ready_group (rt_object_detach ob k) = ready_group k" "timer_list (rt_object_detach ob k) = timer_list k"
  "timers (rt_object_detach ob k) = timers k"
  by (simp_all add: rt_object_detach_def)

lemma active_upd [simp]:
  "active (upd_thread t f k) m \<longleftrightarrow> active k m" "active (upd_list l g k) m \<longleftrightarrow> active k m"
  "active (rt_object_detach ob k) m \<longleftrightarrow> active k m"
  by (simp_all add: active_def)

lemma kinv_detach:
  assumes inv: "kinv k" and st: "stat_of (threads k t) \<in> {RT_THREAD_INIT, RT_THREAD_READY, RT_THREAD_SUSPEND, RT_THREAD_CLOSE}"
  shows "kinv (snd (rt_thread_detach t k))"
proof (cases "stat_of (threads k t) = RT_THREAD_CLOSE")
  case False
  with st have st': "stat_of (threads k t) \<in> {RT_THREAD_INIT, RT_THREAD_READY, RT_THREAD_SUSPEND}" by auto
  note r = removed_or_init[OF inv st']
  show ?thesis
    by (rule kinv_closed[OF inv r(1,3,2,4,5) False])
      (use False r in \<open>auto simp: rt_thread_detach_def Let_def active_cong[OF r(4)]\<close>)
qed (use inv in \<open>simp add: rt_thread_detach_def\<close>)

lemma kinv_delete:
  assumes inv: "kinv k" and st: "stat_of (threads k t) \<in> {RT_THREAD_INIT, RT_THREAD_READY, RT_THREAD_SUSPEND, RT_THREAD_CLOSE}"
  shows "kinv (snd (rt_thread_delete t k))"
proof (cases "stat_of (threads k t) = RT_THREAD_CLOSE")
  case False
  with st have st': "stat_of (threads k t) \<in> {RT_THREAD_INIT, RT_THREAD_READY, RT_THREAD_SUSPEND}" by auto
  note r = removed_or_init[OF inv st']
  show ?thesis
    by (rule kinv_closed[OF inv r(1,3,2,4,5) False])
      (use False r in \<open>auto simp: rt_thread_delete_def Let_def active_cong[OF r(4)]\<close>)
qed (use inv in \<open>simp add: rt_thread_delete_def\<close>)

lemma kinv_exit:
  assumes inv: "kinv k" and t: "current_thread k = Some t" and rdy: "stat_of (threads k t) = RT_THREAD_READY"
  shows "kinv (rt_thread_exit k)"
proof -
  have st: "stat_of (threads k t) \<in> {RT_THREAD_INIT, RT_THREAD_READY, RT_THREAD_SUSPEND}" using rdy by simp
  note r = removed_or_init[OF inv st, unfolded rdy, simplified]
  have "stat_of (threads k t) \<noteq> RT_THREAD_CLOSE" using rdy by simp
  then have "kinv (let k = rt_schedule_remove_thread t k;
               k = upd_thread t (\<lambda>th. th\<lparr>stat := RT_THREAD_CLOSE\<rparr>) k;
               k = snd (rt_timer_detach (ThreadTimer t) k)
           in if rt_object_is_systemobject (OThread t) k then rt_object_detach (OThread t) k
                    else upd_list Defunct (\<lambda>xs. t # xs) k)"
    by (intro kinv_closed[OF inv r(1,3,2,4,5)])
      (use r in \<open>auto simp: Let_def active_cong[OF r(4)]\<close>)
  then show ?thesis by (simp add: rt_thread_exit_def t Let_def)
qed

section \<open>The start of a thread\<close>

lemma init_unqueued:
  assumes inv: "kinv k" and st: "stat_of (threads k t) = RT_THREAD_INIT"
  shows "unqueued k t" and "\<not> active k (ThreadTimer t)"
proof -
  show "unqueued k t" unfolding unqueued_def
  proof
    show "t \<notin> set (lists k l)" for l
      using st suspended_not_ready[OF inv, of t] wait_invD(3)[OF kinvD(3)[OF inv], of _ t]
        wait_invD(4)[OF kinvD(3)[OF inv], of t]
      by (cases l) fastforce+
  qed
  show "\<not> active k (ThreadTimer t)" using wait_invD(6)[OF kinvD(3)[OF inv], of t] st by fastforce
qed

lemma kinv_startup:
  assumes inv: "kinv k" and st: "stat_of (threads k t) = RT_THREAD_INIT"
    and p: "unat (init_priority (threads k t)) < RT_THREAD_PRIORITY_MAX"
  shows "kinv (snd (rt_thread_startup t k))"
proof -
  let ?f = "\<lambda>th :: rt_thread. th\<lparr>current_priority := init_priority th,
    number_mask := push_bit (unat (init_priority th)) 1, stat := RT_THREAD_SUSPEND\<rparr>"
  let ?k = "upd_thread t ?f k"
  have r: "ready_inv_except {t} ?k"
    using ready_inv_except_add[OF kinvD(1)[OF inv], of t] st by (intro ready_inv_upd_thread) auto
  have sus: "stat_of (threads ?k t) = RT_THREAD_SUSPEND" by (simp add: stat_of_def)
  have "ready_inv_except ({t} - {t}) ?k" by (rule ready_inv_not_ready[OF r]) (simp only: sus, simp)
  moreover have "timer_inv ?k" by (rule timer_inv_cong[OF kinvD(2)[OF inv]]) simp_all
  moreover have "wait_inv ?k"
  proof -
    note w = wait_invD[OF kinvD(3)[OF inv]]
    have uq: "t \<notin> set (lists k l)" for l using init_unqueued[OF inv st] by (simp add: unqueued_def)
    show ?thesis
    proof (rule wait_invI)
      show "stat_of (threads ?k u) = RT_THREAD_SUSPEND" if "\<not> is_ready l" "l \<noteq> Defunct" "u \<in> set (lists ?k l)" for l u
        using w(3)[OF that(1,2), of u] that uq[of l] by auto
      show "stat_of (threads ?k u) = RT_THREAD_CLOSE" if "u \<in> set (lists ?k Defunct)" for u
        using w(4)[of u] that uq[of Defunct] by auto
      show "wf_prio (threads ?k u)" if "stat_of (threads ?k u) = RT_THREAD_SUSPEND" for u
        using w(5)[of u] that p by (auto simp: wf_prio_def split: if_splits)
      show "stat_of (threads ?k u) = RT_THREAD_SUSPEND" if "active ?k (ThreadTimer u)" for u
        using w(6)[of u] that init_unqueued(2)[OF inv st] by auto
    qed (use w(1,2) in auto)
  qed
  ultimately have "kinv ?k" by (simp add: kinv_def)
  then have "kinv (snd (rt_thread_resume t ?k))" by (rule kinv_resume)
  moreover have eq: "upd_thread t (\<lambda>th. th\<lparr>stat := RT_THREAD_SUSPEND\<rparr>)
      (upd_thread t (\<lambda>th. th\<lparr>number_mask := push_bit (unat (current_priority th)) 1\<rparr>)
        (upd_thread t (\<lambda>th. th\<lparr>current_priority := init_priority th\<rparr>) k)) = ?k"
    by (simp add: upd_thread_def)
  ultimately show ?thesis unfolding rt_thread_startup_def Let_def eq by simp
qed

lemma kinv_bss: "kinv kernel_bss"
  by (simp add: kinv_def ready_inv_except_def timer_inv_def wait_inv_def kernel_bss_def zero_thread_def
      stat_of_def rt_stats active_def)

end
