(* ===== verification/Timer_Check.thy ===== *)
theory Timer_Check
  imports Kernel_Inv
begin

text \<open>
  The tick interrupt: \<open>rt_timer_check\<close> of \<^verbatim>\<open>src/timer.c\<close>, which calls the
  timeout functions of the timers that are due, and \<open>rt_tick_increase\<close> of
  \<^verbatim>\<open>src/clock.c\<close>. The timeout function of a thread's own timer is
  \<open>rt_thread_timeout\<close>; the functions of application timers are an argument \<open>cb\<close>.
\<close>

section \<open>The check\<close>

definition timeout_func :: "(nat \<Rightarrow> kernel \<Rightarrow> kernel) \<Rightarrow> timer_id \<Rightarrow> kernel \<Rightarrow> kernel" where
  "timeout_func cb m k = (case m of ThreadTimer t \<Rightarrow> rt_thread_timeout t k | UserTimer n \<Rightarrow> cb n k)"

definition due :: "u32 \<Rightarrow> kernel \<Rightarrow> timer_id \<Rightarrow> bool" where
  "due now k m \<longleftrightarrow> now - timeout_tick (timers k m) < RT_TICK_MAX div 2"

text \<open>Before the timeout function: the timer moves to the local list of the loop.\<close>

definition timer_take :: "timer_id \<Rightarrow> kernel \<Rightarrow> kernel" where
  "timer_take m k =
     (let k = rt_timer_remove m k;
          k = (if timer_flag (timers k m) AND RT_TIMER_FLAG_PERIODIC = 0 then rt_timer_deactivate m k else k)
      in k\<lparr>check_list := m # check_list k\<rparr>)"

text \<open>After it: a timer that is still on the local list goes, and a periodic one restarts.\<close>

definition timer_rearm :: "timer_id \<Rightarrow> kernel \<Rightarrow> kernel" where
  "timer_rearm m k =
     (if check_list k = [] then k
      else
        (let k = rt_timer_remove m k in
         if timer_flag (timers k m) AND RT_TIMER_FLAG_PERIODIC \<noteq> 0 \<and>
            timer_flag (timers k m) AND RT_TIMER_FLAG_ACTIVATED \<noteq> 0
         then snd (rt_timer_start m (rt_timer_deactivate m k)) else k))"

fun timer_check_loop :: "nat \<Rightarrow> (nat \<Rightarrow> kernel \<Rightarrow> kernel) \<Rightarrow> u32 \<Rightarrow> kernel \<Rightarrow> kernel exec" where
  "timer_check_loop 0 cb current_tick k = Out_Of_Fuel"
| "timer_check_loop (Suc fuel) cb current_tick k =
     (case timer_list k of
        [] \<Rightarrow> Done k
      | m # _ \<Rightarrow>
          if due current_tick k m then
            (let k = timeout_func cb m (timer_take m k)
             in timer_check_loop fuel cb (rt_tick_get k) (timer_rearm m k))
          else Done k)"

definition rt_timer_check :: "nat \<Rightarrow> (nat \<Rightarrow> kernel \<Rightarrow> kernel) \<Rightarrow> kernel \<Rightarrow> kernel exec" where
  "rt_timer_check fuel cb k = timer_check_loop fuel cb (rt_tick_get k) (k\<lparr>check_list := []\<rparr>)"

definition rt_tick_increase :: "nat \<Rightarrow> (nat \<Rightarrow> kernel \<Rightarrow> kernel) \<Rightarrow> kernel \<Rightarrow> kernel exec" where
  "rt_tick_increase fuel cb k =
     (let k = k\<lparr>tick := tick k + 1\<rparr> in
      case rt_thread_self k of
        None \<Rightarrow> Fault
      | Some t \<Rightarrow>
          (let k = upd_thread t (\<lambda>th. th\<lparr>remaining_tick := remaining_tick th - 1\<rparr>) k;
               k = (if remaining_tick (threads k t) = 0
                    then snd (rt_thread_yield (upd_thread t (\<lambda>th. th\<lparr>remaining_tick := init_tick th\<rparr>) k))
                    else k)
           in rt_timer_check fuel cb k))"

section \<open>One timer of a thread\<close>

definition one_shot :: "kernel \<Rightarrow> timer_id \<Rightarrow> bool" where
  "one_shot k m \<longleftrightarrow> timer_flag (timers k m) AND RT_TIMER_FLAG_PERIODIC = 0"

definition timed_out :: "rt_thread \<Rightarrow> rt_thread" where
  "timed_out th = set_stat RT_THREAD_READY (th\<lparr>error := - RT_ETIMEOUT\<rparr>)"

lemma one_shot_deactivate [simp]: "one_shot (rt_timer_deactivate m k) x \<longleftrightarrow> one_shot k x"
proof -
  have "(f AND NOT RT_TIMER_FLAG_ACTIVATED) AND RT_TIMER_FLAG_PERIODIC = f AND RT_TIMER_FLAG_PERIODIC" for f
  proof -
    have "NOT RT_TIMER_FLAG_ACTIVATED AND RT_TIMER_FLAG_PERIODIC = RT_TIMER_FLAG_PERIODIC"
      by (simp add: rt_timer_flags)
    then show ?thesis by (simp add: and.assoc)
  qed
  then show ?thesis by (simp add: one_shot_def rt_timer_deactivate_def)
qed

text \<open>The state after the timer of thread \<open>t\<close> has fired.\<close>

definition fire :: "tid \<Rightarrow> kernel \<Rightarrow> kernel" where
  "fire t k = timer_rearm (ThreadTimer t) (rt_thread_timeout t (timer_take (ThreadTimer t) k))"

lemma timeout_frame [simp]:
  "timers (rt_thread_timeout t k) = timers k" "timer_list (rt_thread_timeout t k) = timer_list k"
  "check_list (rt_thread_timeout t k) = check_list k" "tick (rt_thread_timeout t k) = tick k"
  by (simp_all add: rt_thread_timeout_def Let_def rt_schedule_insert_thread_def)

lemma fire_fields:
  assumes os: "one_shot k (ThreadTimer t)"
  shows "threads (fire t k) = (threads k)(t := timed_out (threads k t))"
    and "lists (fire t k) = (\<lambda>l. removeAll t (lists k l))
       (Ready (unat (current_priority (threads k t))) :=
          removeAll t (lists k (Ready (unat (current_priority (threads k t))))) @ [t])"
    and "timer_list (fire t k) = removeAll (ThreadTimer t) (timer_list k)"
    and "check_list (fire t k) = removeAll (ThreadTimer t) (check_list k)"
    and "timeout_tick (timers (fire t k) m) = timeout_tick (timers k m)"
    and "active (fire t k) m \<longleftrightarrow> m \<noteq> ThreadTimer t \<and> active k m"
    and "one_shot (fire t k) m \<longleftrightarrow> one_shot k m"
    and "tick (fire t k) = tick k"
proof -
  let ?m = "ThreadTimer t"
  let ?k1 = "timer_take ?m k"
  have k1: "?k1 = (rt_timer_deactivate ?m (rt_timer_remove ?m k))\<lparr>check_list := ?m # removeAll ?m (check_list k)\<rparr>"
    using os by (simp add: timer_take_def Let_def one_shot_def)
  let ?k2 = "rt_thread_timeout t ?k1"
  have "one_shot ?k1 x \<longleftrightarrow> one_shot k x" for x
    using one_shot_deactivate[of ?m "rt_timer_remove ?m k" x] by (simp add: k1 one_shot_def)
  then have os2: "one_shot ?k2 x \<longleftrightarrow> one_shot k x" for x by (simp add: one_shot_def)
  have act2: "active ?k2 x \<longleftrightarrow> x \<noteq> ?m \<and> active k x" for x
    using active_deactivate[of ?m "rt_timer_remove ?m k" x] by (simp add: active_def k1)
  have k3: "fire t k = rt_timer_remove ?m ?k2"
    using os2 os by (simp add: fire_def timer_rearm_def k1 one_shot_def Let_def)
  show "timer_list (fire t k) = removeAll ?m (timer_list k)"
    "check_list (fire t k) = removeAll ?m (check_list k)"
    "timeout_tick (timers (fire t k) m) = timeout_tick (timers k m)" "tick (fire t k) = tick k"
    by (simp_all add: k3 k1)
  show "active (fire t k) m \<longleftrightarrow> m \<noteq> ?m \<and> active k m" using act2 by (simp add: k3)
  show "one_shot (fire t k) m \<longleftrightarrow> one_shot k m" using os2 by (simp add: k3 one_shot_def)
  show "threads (fire t k) = (threads k)(t := timed_out (threads k t))"
    by (simp add: k3 k1 rt_thread_timeout_def Let_def insert_thread_fields timed_out_def)
  show "lists (fire t k) = (\<lambda>l. removeAll t (lists k l))
       (Ready (unat (current_priority (threads k t))) :=
          removeAll t (lists k (Ready (unat (current_priority (threads k t))))) @ [t])"
    by (simp add: k3 k1 rt_thread_timeout_def Let_def insert_thread_fields)
qed

lemma kinv_fire:
  assumes inv: "kinv k" and os: "one_shot k (ThreadTimer t)" and mem: "ThreadTimer t \<in> set (timer_list k)"
  shows "kinv (fire t k)"
proof -
  let ?m = "ThreadTimer t"
  have act: "active k ?m" using kinvD(2)[OF inv] mem by (simp add: timer_inv_def)
  have sus: "stat_of (threads k t) = RT_THREAD_SUSPEND" using wait_invD(6)[OF kinvD(3)[OF inv] act] .
  let ?k1 = "rt_timer_deactivate ?m (rt_timer_remove ?m k)"
  have k1: "timer_take ?m k = ?k1\<lparr>check_list := ?m # removeAll ?m (check_list k)\<rparr>"
    using os by (simp add: timer_take_def Let_def one_shot_def)
  have "kinv ?k1"
    using kinv_timer_stop[OF inv, of ?m] act flag_active_iff[of k ?m] by (simp add: rt_timer_stop_def)
  then have take: "kinv (timer_take ?m k)" by (rule kinv_cong) (simp_all add: k1)
  have "\<not> active (timer_take ?m k) ?m"
    using active_deactivate[of ?m "rt_timer_remove ?m k" ?m] by (simp add: k1 active_def)
  then have "kinv (rt_thread_timeout t (timer_take ?m k))"
    using take sus by (intro kinv_timeout) (auto simp: k1)
  then show ?thesis
  proof (rule kinv_cong)
    have "one_shot (rt_thread_timeout t (timer_take ?m k)) ?m"
      using one_shot_deactivate[of ?m "rt_timer_remove ?m k" ?m] os by (simp add: one_shot_def k1)
    then have f: "fire t k = rt_timer_remove ?m (rt_thread_timeout t (timer_take ?m k))"
      by (simp add: fire_def timer_rearm_def k1 one_shot_def Let_def)
    show "timer_list (fire t k) = timer_list (rt_thread_timeout t (timer_take ?m k))"
      by (simp add: f k1)
    show "lists (fire t k) = lists (rt_thread_timeout t (timer_take ?m k))"
      "ready_group (fire t k) = ready_group (rt_thread_timeout t (timer_take ?m k))"
      "timers (fire t k) = timers (rt_thread_timeout t (timer_take ?m k))"
      "stat_of (threads (fire t k) u) = stat_of (threads (rt_thread_timeout t (timer_take ?m k)) u) \<and>
       current_priority (threads (fire t k) u) = current_priority (threads (rt_thread_timeout t (timer_take ?m k)) u) \<and>
       number_mask (threads (fire t k) u) = number_mask (threads (rt_thread_timeout t (timer_take ?m k)) u)" for u
      by (simp_all add: f)
  qed
qed

section \<open>All timers that are due\<close>

text \<open>The threads whose timers head the list and are due, in the order of the list.\<close>

definition thread_timers :: "kernel \<Rightarrow> bool" where
  "thread_timers k \<longleftrightarrow> (\<forall>m \<in> set (timer_list k). one_shot k m \<and> (\<exists>t. m = ThreadTimer t))"

definition sleeper :: "timer_id \<Rightarrow> tid" where
  "sleeper m = (case m of ThreadTimer t \<Rightarrow> t | UserTimer n \<Rightarrow> n)"

definition due_threads :: "u32 \<Rightarrow> kernel \<Rightarrow> tid list" where
  "due_threads now k = map sleeper (takeWhile (due now k) (timer_list k))"

lemma due_fire: "one_shot k (ThreadTimer t) \<Longrightarrow> due now (fire t k) = due now k"
  by (auto simp: due_def fire_fields)

lemma timer_check_loop_fires:
  assumes "kinv k" and "thread_timers k" and "check_list k = []" and "length (timer_list k) < fuel"
  shows "timer_check_loop fuel cb (tick k) k = Done (fold fire (due_threads (tick k) k) k) \<and>
    kinv (fold fire (due_threads (tick k) k) k)"
  using assms
proof (induction "timer_list k" arbitrary: k fuel)
  case Nil
  then show ?case by (cases fuel) (auto simp: due_threads_def)
next
  case (Cons m ms)
  then obtain n where fuel: "fuel = Suc n" by (cases fuel) auto
  obtain t where m: "m = ThreadTimer t" and os: "one_shot k (ThreadTimer t)"
    using Cons.prems(2) Cons.hyps(2) unfolding thread_timers_def by (metis list.set_intros(1))
  show ?case
  proof (cases "due (tick k) k m")
    case False
    then show ?thesis using Cons.hyps(2)[symmetric] Cons.prems(1) by (simp add: fuel due_threads_def)
  next
    case True
    have dist: "m \<notin> set ms" using kinvD(2)[OF Cons.prems(1)] Cons.hyps(2)[symmetric] by (simp add: timer_inv_def)
    have tl: "timer_list (fire t k) = ms"
      using Cons.hyps(2)[symmetric] dist by (simp add: fire_fields(3)[OF os] m removeAll_id)
    have "kinv (fire t k)"
      by (rule kinv_fire[OF Cons.prems(1) os]) (use Cons.hyps(2)[symmetric] m in simp)
    moreover have "thread_timers (fire t k)"
      using Cons.prems(2) Cons.hyps(2)[symmetric] unfolding thread_timers_def tl
      by (simp add: fire_fields(7)[OF os])
    moreover have "check_list (fire t k) = []" using Cons.prems(3) by (simp add: fire_fields(4)[OF os])
    moreover have "length (timer_list (fire t k)) < n"
      using Cons.prems(4) Cons.hyps(2)[symmetric] by (simp add: tl fuel)
    ultimately have ih: "timer_check_loop n cb (tick (fire t k)) (fire t k) =
        Done (fold fire (due_threads (tick (fire t k)) (fire t k)) (fire t k)) \<and>
      kinv (fold fire (due_threads (tick (fire t k)) (fire t k)) (fire t k))"
      using Cons.hyps(1)[of "fire t k" n] tl by simp
    have dt: "due_threads (tick k) k = t # due_threads (tick (fire t k)) (fire t k)"
      using True Cons.hyps(2)[symmetric]
      by (simp add: due_threads_def tl m sleeper_def due_fire[OF os] fire_fields(8)[OF os])
    have "timer_check_loop fuel cb (tick k) k = timer_check_loop n cb (tick (fire t k)) (fire t k)"
      using True Cons.hyps(2)[symmetric] fire_fields(8)[OF os]
      by (simp add: fuel m fire_def timeout_func_def Let_def rt_tick_get_def timer_take_def)
    with ih dt show ?thesis by simp
  qed
qed

text \<open>The effect of firing a list of distinct threads that are in no ready list.\<close>

lemma fold_fire_fields:
  assumes "distinct ts" and "\<forall>t \<in> set ts. one_shot k (ThreadTimer t)"
    and "\<forall>t \<in> set ts. \<forall>p. t \<notin> set (lists k (Ready p))"
  shows "threads (fold fire ts k) = (\<lambda>t. if t \<in> set ts then timed_out (threads k t) else threads k t) \<and>
    lists (fold fire ts k) = (\<lambda>l. case l of
        Ready p \<Rightarrow> lists k l @ filter (\<lambda>t. unat (current_priority (threads k t)) = p) ts
      | _ \<Rightarrow> filter (\<lambda>t. t \<notin> set ts) (lists k l)) \<and>
    timer_list (fold fire ts k) = filter (\<lambda>m. m \<notin> ThreadTimer ` set ts) (timer_list k)"
  using assms
proof (induction ts arbitrary: k)
  case Nil
  then show ?case by (auto simp: fun_eq_iff split: list_id.split)
next
  case (Cons t ts)
  have os: "one_shot k (ThreadTimer t)" using Cons.prems(2) by simp
  note f = fire_fields[OF os]
  have rdy: "removeAll t (lists k (Ready p)) = lists k (Ready p)" for p
    using Cons.prems(3) by (simp add: removeAll_id)
  have "\<forall>u \<in> set ts. one_shot (fire t k) (ThreadTimer u)" using Cons.prems(2) f(7) by simp
  moreover have "\<forall>u \<in> set ts. \<forall>p. u \<notin> set (lists (fire t k) (Ready p))"
    using Cons.prems(1,3) by (auto simp: f(2))
  ultimately have ih: "threads (fold fire ts (fire t k)) =
      (\<lambda>u. if u \<in> set ts then timed_out (threads (fire t k) u) else threads (fire t k) u) \<and>
    lists (fold fire ts (fire t k)) = (\<lambda>l. case l of
        Ready p \<Rightarrow> lists (fire t k) l @ filter (\<lambda>u. unat (current_priority (threads (fire t k) u)) = p) ts
      | _ \<Rightarrow> filter (\<lambda>u. u \<notin> set ts) (lists (fire t k) l)) \<and>
    timer_list (fold fire ts (fire t k)) = filter (\<lambda>m. m \<notin> ThreadTimer ` set ts) (timer_list (fire t k))"
    using Cons.IH[of "fire t k"] Cons.prems(1) by simp
  have prio: "filter (\<lambda>u. unat (current_priority (threads (fire t k) u)) = p) ts =
      filter (\<lambda>u. unat (current_priority (threads k u)) = p) ts" for p
    using Cons.prems(1) by (intro filter_cong) (auto simp: f(1) timed_out_def)
  have "threads (fold fire (t # ts) k) =
      (\<lambda>u. if u \<in> set (t # ts) then timed_out (threads k u) else threads k u)"
    using ih Cons.prems(1) by (auto simp: f(1) fun_eq_iff)
  moreover have "lists (fold fire (t # ts) k) l = (case l of
        Ready p \<Rightarrow> lists k l @ filter (\<lambda>u. unat (current_priority (threads k u)) = p) (t # ts)
      | _ \<Rightarrow> filter (\<lambda>u. u \<notin> set (t # ts)) (lists k l))" for l
  proof (cases "is_ready l")
    case True
    then obtain p where "l = Ready p" by (cases l) auto
    with ih prio[of p] show ?thesis by (simp add: f(2) rdy)
  next
    case False
    have "filter (\<lambda>u. u \<notin> set ts) (removeAll t (lists k l)) = filter (\<lambda>u. u \<notin> set (t # ts)) (lists k l)"
      by (simp add: removeAll_filter_not_eq) (rule filter_cong, auto)
    with False ih show ?thesis by (cases l) (simp_all add: f(2))
  qed
  moreover have "timer_list (fold fire (t # ts) k) = filter (\<lambda>m. m \<notin> ThreadTimer ` set (t # ts)) (timer_list k)"
    using ih by (auto simp: f(3) removeAll_filter_not_eq intro!: filter_cong)
  ultimately show ?case by auto
qed

text \<open>In an ordered list the due timers are a prefix.\<close>

lemma due_iff:
  assumes "to m - base < RT_TICK_MAX div 2" and "now - base < RT_TICK_MAX div 2"
  shows "now - to m < RT_TICK_MAX div 2 \<longleftrightarrow> to m - base \<le> now - base"
  using tick_compare[of "now - base" "to m - base"] assms unfolding half_range by simp

lemma takeWhile_eq_filter_sorted:
  "sorted (map f xs) \<Longrightarrow> takeWhile (\<lambda>x. f x \<le> b) xs = filter (\<lambda>x. f x \<le> b) xs"
  for f :: "'a \<Rightarrow> 'b::linorder"
proof (induction xs)
  case (Cons x xs)
  show ?case
  proof (cases "f x \<le> b")
    case False
    with Cons.prems have "\<forall>y \<in> set xs. \<not> f y \<le> b" by auto
    with False show ?thesis by (simp add: filter_False)
  qed (use Cons in simp)
qed simp

lemma due_prefix:
  assumes o: "timers_ordered base (\<lambda>x. timeout_tick (timers k x)) (timer_list k)"
    and "now - base < RT_TICK_MAX div 2"
  shows "takeWhile (due now k) (timer_list k) = filter (due now k) (timer_list k)"
proof -
  let ?f = "\<lambda>m. timeout_tick (timers k m) - base"
  have eq: "due now k m \<longleftrightarrow> ?f m \<le> now - base" if "m \<in> set (timer_list k)" for m
    unfolding due_def using that o assms(2) by (intro due_iff) (auto simp: timers_ordered_def)
  have "takeWhile (due now k) (timer_list k) = takeWhile (\<lambda>m. ?f m \<le> now - base) (timer_list k)"
    by (rule takeWhile_cong) (auto simp: eq)
  also have "\<dots> = filter (\<lambda>m. ?f m \<le> now - base) (timer_list k)"
    by (rule takeWhile_eq_filter_sorted) (use o in \<open>simp add: timers_ordered_def\<close>)
  also have "\<dots> = filter (due now k) (timer_list k)"
    by (rule filter_cong) (auto simp: eq)
  finally show ?thesis .
qed

definition times_out :: "kernel \<Rightarrow> tid \<Rightarrow> bool" where
  "times_out k t \<longleftrightarrow> ThreadTimer t \<in> set (timer_list k) \<and> due (tick k) k (ThreadTimer t)"

lemma set_due_threads:
  assumes tt: "thread_timers k" and pre: "takeWhile (due (tick k) k) (timer_list k) = filter (due (tick k) k) (timer_list k)"
  shows "t \<in> set (due_threads (tick k) k) \<longleftrightarrow> times_out k t"
proof
  assume "t \<in> set (due_threads (tick k) k)"
  then obtain m where m: "m \<in> set (timer_list k)" "due (tick k) k m" "t = sleeper m"
    by (auto simp: due_threads_def pre)
  with tt obtain u where "m = ThreadTimer u" by (auto simp: thread_timers_def)
  with m show "times_out k t" by (simp add: times_out_def sleeper_def)
next
  assume "times_out k t"
  then have "ThreadTimer t \<in> set (filter (due (tick k) k) (timer_list k))" by (simp add: times_out_def)
  then show "t \<in> set (due_threads (tick k) k)"
    unfolding due_threads_def pre by (force simp: sleeper_def)
qed

lemma distinct_due_threads:
  assumes "thread_timers k" and "distinct (timer_list k)"
  shows "distinct (due_threads now k)"
proof -
  have "inj_on sleeper (set (timer_list k))"
  proof (rule inj_onI)
    fix x y assume "x \<in> set (timer_list k)" "y \<in> set (timer_list k)" and eq: "sleeper x = sleeper y"
    with assms(1) obtain t u where "x = ThreadTimer t" "y = ThreadTimer u"
      unfolding thread_timers_def by blast
    with eq show "x = y" by (simp add: sleeper_def)
  qed
  then have "inj_on sleeper (set (takeWhile (due now k) (timer_list k)))"
    by (rule inj_on_subset) (auto dest: set_takeWhileD)
  with assms(2) show ?thesis by (simp add: due_threads_def distinct_map distinct_takeWhile)
qed

lemma current_schedule: "current_thread k \<noteq> None \<Longrightarrow> current_thread (rt_schedule k) \<noteq> None"
  by (auto simp: rt_schedule_def rt_scheduler_stack_check_def Let_def split: option.split list.split)

lemma current_fire: "current_thread k \<noteq> None \<Longrightarrow> current_thread (fire t k) \<noteq> None"
proof -
  have rearm: "current_thread (timer_rearm m k) = current_thread k" for m k
    by (simp add: timer_rearm_def rt_timer_remove_def rt_timer_start_def rt_timer_deactivate_def upd_timer_def Let_def)
  assume "current_thread k \<noteq> None"
  then show ?thesis
    by (simp add: fire_def rearm rt_thread_timeout_def Let_def current_schedule timer_take_def rt_timer_remove_def
        rt_timer_deactivate_def rt_schedule_insert_thread_def del: not_None_eq)
qed

lemma fold_fire_frame:
  "\<forall>t \<in> set ts. one_shot k (ThreadTimer t) \<Longrightarrow>
     (\<forall>m. timeout_tick (timers (fold fire ts k) m) = timeout_tick (timers k m)) \<and> tick (fold fire ts k) = tick k \<and>
     (current_thread k \<noteq> None \<longrightarrow> current_thread (fold fire ts k) \<noteq> None)"
proof (induction ts arbitrary: k)
  case (Cons t ts)
  have os: "one_shot k (ThreadTimer t)" using Cons.prems by simp
  have "\<forall>u \<in> set ts. one_shot (fire t k) (ThreadTimer u)" using Cons.prems fire_fields(7)[OF os] by simp
  from Cons.IH[OF this] show ?case
    using fire_fields(5,8)[OF os] current_fire[of k t] by auto
qed simp

lemma timer_check_wakes:
  assumes inv: "kinv k" and tt: "thread_timers k"
    and o: "timers_ordered base (\<lambda>x. timeout_tick (timers k x)) (timer_list k)"
    and now: "tick k - base < RT_TICK_MAX div 2" and fuel: "length (timer_list k) < fuel"
  shows "\<exists>k'. rt_timer_check fuel cb k = Done k' \<and> kinv k' \<and>
    timer_list k' = filter (\<lambda>m. \<not> due (tick k) k m) (timer_list k) \<and>
    threads k' = (\<lambda>t. if times_out k t then timed_out (threads k t) else threads k t) \<and>
    (\<forall>p. lists k' (Ready p) = lists k (Ready p) @
       filter (\<lambda>t. unat (current_priority (threads k t)) = p) (map sleeper (filter (due (tick k) k) (timer_list k)))) \<and>
    (\<forall>l. \<not> is_ready l \<longrightarrow> lists k' l = filter (\<lambda>t. \<not> times_out k t) (lists k l)) \<and>
    (\<forall>m. timeout_tick (timers k' m) = timeout_tick (timers k m)) \<and> tick k' = tick k \<and>
    (current_thread k \<noteq> None \<longrightarrow> current_thread k' \<noteq> None)"
proof -
  let ?k = "k\<lparr>check_list := []\<rparr>"
  let ?ts = "due_threads (tick k) k"
  have act: "active ?k m \<longleftrightarrow> active k m" for m by (simp add: active_def)
  have k: "kinv ?k" by (rule kinv_cong[OF inv]) simp_all
  have tt': "thread_timers ?k" using tt by (simp add: thread_timers_def one_shot_def)
  have dd: "due now ?k = due now k" for now by (simp add: due_def fun_eq_iff)
  have same: "due_threads (tick ?k) ?k = ?ts" by (simp add: due_threads_def dd)
  have run: "timer_check_loop fuel cb (tick ?k) ?k = Done (fold fire ?ts ?k) \<and> kinv (fold fire ?ts ?k)"
    using timer_check_loop_fires[OF k tt', of fuel cb] fuel unfolding same by simp
  have pre: "takeWhile (due (tick k) k) (timer_list k) = filter (due (tick k) k) (timer_list k)"
    by (rule due_prefix[OF o now])
  have mem: "t \<in> set ?ts \<longleftrightarrow> times_out k t" for t by (rule set_due_threads[OF tt pre])
  have "distinct ?ts"
    by (rule distinct_due_threads[OF tt]) (use kinvD(2)[OF inv] in \<open>simp add: timer_inv_def\<close>)
  moreover have "\<forall>t \<in> set ?ts. one_shot ?k (ThreadTimer t)"
    using tt mem by (auto simp: times_out_def thread_timers_def one_shot_def)
  moreover have "\<forall>t \<in> set ?ts. \<forall>p. t \<notin> set (lists ?k (Ready p))"
  proof (intro ballI allI)
    fix t p assume "t \<in> set ?ts"
    then have "active k (ThreadTimer t)"
      using mem kinvD(2)[OF inv] by (simp add: times_out_def timer_inv_def)
    then have "stat_of (threads k t) = RT_THREAD_SUSPEND" by (rule wait_invD(6)[OF kinvD(3)[OF inv]])
    then show "t \<notin> set (lists ?k (Ready p))" using suspended_not_ready[OF inv, of t p] by simp
  qed
  ultimately have f: "threads (fold fire ?ts ?k) = (\<lambda>t. if t \<in> set ?ts then timed_out (threads ?k t) else threads ?k t)"
    "lists (fold fire ?ts ?k) = (\<lambda>l. case l of
        Ready p \<Rightarrow> lists ?k l @ filter (\<lambda>t. unat (current_priority (threads ?k t)) = p) ?ts
      | _ \<Rightarrow> filter (\<lambda>t. t \<notin> set ?ts) (lists ?k l))"
    "timer_list (fold fire ?ts ?k) = filter (\<lambda>m. m \<notin> ThreadTimer ` set ?ts) (timer_list ?k)"
    using fold_fire_fields[of ?ts ?k] by blast+
  have "timer_list (fold fire ?ts ?k) = filter (\<lambda>m. \<not> due (tick k) k m) (timer_list k)"
    unfolding f(3) using tt by (intro filter_cong) (auto simp: mem times_out_def thread_timers_def)
  moreover have "lists (fold fire ?ts ?k) l = filter (\<lambda>t. \<not> times_out k t) (lists k l)" if "\<not> is_ready l" for l
    using that by (cases l) (simp_all add: f(2) mem)
  moreover have "rt_timer_check fuel cb k = Done (fold fire ?ts ?k)"
    using run by (simp add: rt_timer_check_def rt_tick_get_def)
  moreover have ts: "?ts = map sleeper (filter (due (tick k) k) (timer_list k))"
    by (simp add: due_threads_def pre)
  moreover have "threads (fold fire ?ts ?k) = (\<lambda>t. if times_out k t then timed_out (threads k t) else threads k t)"
    by (auto simp: f(1) mem fun_eq_iff)
  moreover have "\<forall>p. lists (fold fire ?ts ?k) (Ready p) =
      lists k (Ready p) @ filter (\<lambda>t. unat (current_priority (threads k t)) = p) ?ts"
    by (simp add: f(2))
  moreover have "(\<forall>m. timeout_tick (timers (fold fire ?ts ?k) m) = timeout_tick (timers k m)) \<and>
      tick (fold fire ?ts ?k) = tick k \<and> (current_thread k \<noteq> None \<longrightarrow> current_thread (fold fire ?ts ?k) \<noteq> None)"
    using fold_fire_frame[OF \<open>\<forall>t \<in> set ?ts. one_shot ?k (ThreadTimer t)\<close>] by simp
  ultimately show ?thesis
    using run unfolding ts[symmetric] by (intro exI[of _ "fold fire ?ts ?k"] conjI) blast+
qed

section \<open>Properties\<close>

text \<open>C13. The tick wakes exactly the threads whose time has come: in a consistent kernel
  whose running timers are thread timers, ordered from a base not half the tick range ago,
  \<open>rt_timer_check\<close> runs to an end; every thread whose timer is due becomes ready with
  the timeout error, joins the end of the ready list of its priority in the order of the
  expiries, and leaves the list it waited in; every other thread, list position and timer is
  as before; the kernel stays consistent. One iteration per running timer is enough.\<close>

theorem rt_timer_check_wakes_due:
  assumes inv: "kinv k" and tt: "thread_timers k"
    and o: "timers_ordered base (\<lambda>x. timeout_tick (timers k x)) (timer_list k)"
    and now: "tick k - base < RT_TICK_MAX div 2" and fuel: "length (timer_list k) < fuel"
  shows "\<exists>k'. rt_timer_check fuel cb k = Done k' \<and> kinv k' \<and>
    timer_list k' = filter (\<lambda>m. \<not> due (tick k) k m) (timer_list k) \<and>
    threads k' = (\<lambda>t. if times_out k t then timed_out (threads k t) else threads k t) \<and>
    (\<forall>p. lists k' (Ready p) = lists k (Ready p) @
       filter (\<lambda>t. unat (current_priority (threads k t)) = p) (map sleeper (filter (due (tick k) k) (timer_list k)))) \<and>
    (\<forall>l. \<not> is_ready l \<longrightarrow> lists k' l = filter (\<lambda>t. \<not> times_out k t) (lists k l))"
  using timer_check_wakes[OF assms] by blast

text \<open>A kernel with one suspended thread, whose timer is due at tick 0.\<close>

definition one_sleeper :: kernel where
  "one_sleeper = snd (rt_timer_start (ThreadTimer 1) (upd_thread 1
     (\<lambda>th. th\<lparr>stat := RT_THREAD_SUSPEND, current_priority := 5, number_mask := push_bit 5 1\<rparr>) kernel_bss))"

lemma one_sleeper_facts:
  "kinv one_sleeper" "timer_list one_sleeper = [ThreadTimer 1]" "thread_timers one_sleeper"
  "tick one_sleeper = 0" "timeout_tick (timers one_sleeper (ThreadTimer 1)) = 0"
proof -
  let ?k = "upd_thread 1
     (\<lambda>th. th\<lparr>stat := RT_THREAD_SUSPEND, current_priority := 5, number_mask := push_bit 5 1\<rparr>) kernel_bss"
  have "kinv ?k"
    by (auto simp: kinv_def ready_inv_except_def timer_inv_def wait_inv_def kernel_bss_def zero_thread_def
      stat_of_def rt_stats active_def wf_prio_def RT_THREAD_PRIORITY_MAX_def)
  then show "kinv one_sleeper"
    unfolding one_sleeper_def by (rule kinv_timer_start) (simp add: stat_of_def)
  show l: "timer_list one_sleeper = [ThreadTimer 1]"
    by (simp add: one_sleeper_def rt_timer_start_state kernel_bss_def)
  show "thread_timers one_sleeper"
    unfolding thread_timers_def l
    by (simp add: one_shot_def one_sleeper_def rt_timer_start_def Let_def rt_timer_deactivate_def
        kernel_bss_def rt_timer_remove_def upd_timer_def rt_timer_flags)
  show "tick one_sleeper = 0" "timeout_tick (timers one_sleeper (ThreadTimer 1)) = 0"
    by (simp_all add: one_sleeper_def rt_timer_start_state kernel_bss_def)
qed

theorem rt_timer_check_wakes_due_witness:
  "\<exists>k'. rt_timer_check 2 (\<lambda>_ k. k) one_sleeper = Done k' \<and> kinv k' \<and>
    timer_list k' = filter (\<lambda>m. \<not> due (tick one_sleeper) one_sleeper m) (timer_list one_sleeper) \<and>
    threads k' = (\<lambda>t. if times_out one_sleeper t then timed_out (threads one_sleeper t) else threads one_sleeper t) \<and>
    (\<forall>p. lists k' (Ready p) = lists one_sleeper (Ready p) @
       filter (\<lambda>t. unat (current_priority (threads one_sleeper t)) = p)
         (map sleeper (filter (due (tick one_sleeper) one_sleeper) (timer_list one_sleeper)))) \<and>
    (\<forall>l. \<not> is_ready l \<longrightarrow> lists k' l = filter (\<lambda>t. \<not> times_out one_sleeper t) (lists one_sleeper l))"
  by (rule rt_timer_check_wakes_due[where base = 0])
    (simp_all add: one_sleeper_facts one_sleeper_facts(5)[unfolded One_nat_def] timers_ordered_def half_range)

text \<open>
  A periodic timer of period 0 is due again at the moment it restarts, so the check of the
  list never gets past it.
\<close>

lemma activate_keeps_periodic:
  "((f AND NOT RT_TIMER_FLAG_ACTIVATED) OR RT_TIMER_FLAG_ACTIVATED) AND RT_TIMER_FLAG_PERIODIC = f AND RT_TIMER_FLAG_PERIODIC"
  by (rule bit_word_eqI) (auto simp: bit_simps rt_timer_flags)

lemma periodic_zero_loops:
  "timer_list k = [UserTimer n] \<Longrightarrow> check_list k = [] \<Longrightarrow>
     timer_flag (timers k (UserTimer n)) AND RT_TIMER_FLAG_PERIODIC \<noteq> 0 \<Longrightarrow> active k (UserTimer n) \<Longrightarrow>
     timer_init_tick (timers k (UserTimer n)) = 0 \<Longrightarrow> timeout_tick (timers k (UserTimer n)) = tick k \<Longrightarrow>
     timer_check_loop fuel (\<lambda>_ k. k) (tick k) k = Out_Of_Fuel"
proof (induction fuel arbitrary: k)
  case (Suc fuel)
  let ?m = "UserTimer n"
  let ?k1 = "timer_take ?m k"
  let ?k2 = "timer_rearm ?m ?k1"
  have k1: "?k1 = (rt_timer_remove ?m k)\<lparr>check_list := [?m]\<rparr>"
    using Suc.prems by (simp add: timer_take_def Let_def)
  have act: "timer_flag (timers k ?m) AND RT_TIMER_FLAG_ACTIVATED \<noteq> 0"
    using Suc.prems(4) by (simp only: flag_active_iff)
  let ?z = "rt_timer_deactivate ?m (rt_timer_remove ?m ?k1)"
  have k2: "?k2 = snd (rt_timer_start ?m ?z)"
    using Suc.prems act by (simp add: timer_rearm_def k1 Let_def)
  have "timer_check_loop fuel (\<lambda>_ k. k) (tick ?k2) ?k2 = Out_Of_Fuel"
  proof (rule Suc.IH)
    show "timer_list ?k2 = [?m]" using Suc.prems unfolding k2 by (simp add: rt_timer_start_state k1)
    show "check_list ?k2 = []"
      unfolding k2 by (simp add: rt_timer_start_def Let_def k1)
    show "timer_flag (timers ?k2 ?m) AND RT_TIMER_FLAG_PERIODIC \<noteq> 0"
      using Suc.prems(3) activate_keeps_periodic[of "timer_flag (timers k ?m)"]
      unfolding k2 by (simp add: rt_timer_start_def Let_def k1 rt_timer_deactivate_def and.assoc)
    show "active ?k2 ?m" unfolding k2 by (simp add: rt_timer_start_state)
    show "timer_init_tick (timers ?k2 ?m) = 0" using Suc.prems unfolding k2 by (simp add: rt_timer_start_state k1)
    show "timeout_tick (timers ?k2 ?m) = tick ?k2"
      using Suc.prems unfolding k2 by (simp add: rt_timer_start_state k1)
  qed
  moreover have "due (tick k) k ?m" using Suc.prems by (simp add: due_def half_range)
  moreover have "tick ?k2 = tick ?k1" unfolding k2 by simp
  ultimately show ?case
    using Suc.prems(1) by (simp add: timeout_func_def Let_def rt_tick_get_def)
qed simp

text \<open>A periodic timer of period 0 stops the system: once it is running,
  \<open>rt_timer_check\<close>, which runs with interrupts off, does not return, whatever the number
  of iterations.\<close>

theorem periodic_timer_zero_diverges:
  "let k = snd (rt_timer_start (UserTimer 0) (rt_timer_init (UserTimer 0) 0 RT_TIMER_FLAG_PERIODIC kernel_bss))
   in \<forall>fuel. rt_timer_check fuel (\<lambda>_ k. k) k = Out_Of_Fuel"
proof -
  let ?z = "rt_timer_init (UserTimer 0) 0 RT_TIMER_FLAG_PERIODIC kernel_bss"
  let ?k = "snd (rt_timer_start (UserTimer 0) ?z)"
  have k0: "timer_list ?z = []" "tick ?z = 0"
    "timers ?z (UserTimer 0) = \<lparr>timer_flag = RT_TIMER_FLAG_PERIODIC, timer_init_tick = 0, timeout_tick = 0\<rparr>"
    by (simp_all add: rt_timer_init_def rt_timer_init_fields_def Let_def rt_object_init_def
        rt_exit_critical_def rt_enter_critical_def kernel_bss_def rt_timer_flags)
  have "timer_check_loop fuel (\<lambda>_ k. k) (tick (?k\<lparr>check_list := []\<rparr>)) (?k\<lparr>check_list := []\<rparr>) = Out_Of_Fuel" for fuel
  proof (rule periodic_zero_loops)
    show "timer_list (?k\<lparr>check_list := []\<rparr>) = [UserTimer 0]" by (simp add: rt_timer_start_state k0)
    show "timer_flag (timers (?k\<lparr>check_list := []\<rparr>) (UserTimer 0)) AND RT_TIMER_FLAG_PERIODIC \<noteq> 0"
      by (simp add: rt_timer_start_def Let_def rt_timer_deactivate_def k0) (simp add: rt_timer_flags)
    have "active ?k (UserTimer 0)" by (simp add: rt_timer_start_state)
    then show "active (?k\<lparr>check_list := []\<rparr>) (UserTimer 0)" by (simp add: active_def)
  qed (simp_all add: rt_timer_start_state k0)
  then show ?thesis by (simp add: Let_def rt_timer_check_def rt_tick_get_def)
qed

end
