(* ===== verification/Ipc.thy ===== *)
theory Ipc
  imports Timer_Check
begin

text \<open>
  Semaphores, mutexes and events of \<^verbatim>\<open>src/ipc.c\<close>, with the wait lists they share.
  A call that may block returns \<open>Returned\<close> with its result, or \<open>Blocked\<close> when the
  calling thread has been put on a wait list and the scheduler has run; what the thread does
  when it runs again is the \<open>_resume\<close> definition of the call. Waiting times are 32-bit
  words compared as signed numbers.
\<close>

section \<open>Wait lists\<close>

datatype 'a call = Returned 'a | Blocked

text \<open>Before the first waiter that is less urgent than \<open>prio\<close>.\<close>

fun prio_insert :: "(tid \<Rightarrow> u8) \<Rightarrow> tid \<Rightarrow> tid list \<Rightarrow> tid list" where
  "prio_insert prio t [] = [t]"
| "prio_insert prio t (u # us) = (if prio t < prio u then t # u # us else u # prio_insert prio t us)"

definition rt_ipc_list_suspend :: "list_id \<Rightarrow> tid \<Rightarrow> u8 \<Rightarrow> kernel \<Rightarrow> kernel" where
  "rt_ipc_list_suspend l t flag k =
     (let k = snd (rt_thread_suspend t k) in
      if flag = RT_IPC_FLAG_FIFO then upd_list l (\<lambda>xs. xs @ [t]) k
      else if flag = RT_IPC_FLAG_PRIO
      then upd_list l (prio_insert (\<lambda>u. current_priority (threads k u)) t) k
      else k)"

text \<open>On an empty list the C code would take the list head for a thread.\<close>

definition rt_ipc_list_resume :: "list_id \<Rightarrow> kernel \<Rightarrow> kernel" where
  "rt_ipc_list_resume l k =
     (case lists k l of [] \<Rightarrow> k\<lparr>halted := True\<rparr> | t # _ \<Rightarrow> snd (rt_thread_resume t k))"

text \<open>
  The loop ends when the list is empty. Every resumption of a suspended thread shortens the
  list, so its length is enough fuel; a thread that is not suspended would stay at the head
  for ever.
\<close>

fun resume_all_loop :: "nat \<Rightarrow> list_id \<Rightarrow> kernel \<Rightarrow> kernel" where
  "resume_all_loop 0 l k = (if lists k l = [] then k else k\<lparr>halted := True\<rparr>)"
| "resume_all_loop (Suc n) l k =
     (case lists k l of
        [] \<Rightarrow> k
      | t # _ \<Rightarrow> resume_all_loop n l
          (snd (rt_thread_resume t (upd_thread t (\<lambda>th. th\<lparr>error := - RT_ERROR\<rparr>) k))))"

definition rt_ipc_list_resume_all :: "list_id \<Rightarrow> kernel \<Rightarrow> kernel" where
  "rt_ipc_list_resume_all l k = resume_all_loop (length (lists k l)) l k"

text \<open>\<open>rt_ipc_object_init\<close> empties the wait list of the object.\<close>

definition rt_ipc_object_init :: "list_id \<Rightarrow> kernel \<Rightarrow> kernel" where
  "rt_ipc_object_init l k = upd_list l (\<lambda>_. []) k"

text \<open>The tail that the blocking calls share: the timer, if a time is given, and the switch.\<close>

definition wait_time :: "tid \<Rightarrow> u32 \<Rightarrow> kernel \<Rightarrow> kernel" where
  "wait_time t time k = rt_schedule (if sint time > 0 then start_thread_timer t time k else k)"

text \<open>
  After a wait that began at tick \<open>tick_delta\<close>, what is left of a positive timeout;
  zero and negative ones stay as they are.
\<close>

definition time_left :: "u32 \<Rightarrow> u32 \<Rightarrow> kernel \<Rightarrow> u32" where
  "time_left timeout tick_delta k =
     (if sint timeout > 0 then
        (let rest = timeout - (rt_tick_get k - tick_delta) in if sint rest < 0 then 0 else rest)
      else timeout)"

section \<open>Semaphores\<close>

definition upd_sem :: "nat \<Rightarrow> (rt_semaphore \<Rightarrow> rt_semaphore) \<Rightarrow> kernel \<Rightarrow> kernel" where
  "upd_sem i f k = k\<lparr>sems := (sems k)(i := f (sems k i))\<rparr>"

definition rt_sem_init :: "nat \<Rightarrow> u32 \<Rightarrow> u8 \<Rightarrow> kernel \<Rightarrow> int \<times> kernel" where
  "rt_sem_init i value flag k =
     (let k = rt_ipc_object_init (SemQ i) (rt_object_init (OSem i) k)
      in (RT_EOK, upd_sem i (\<lambda>s. \<lparr>sem_value = ucast value, sem_flag = flag\<rparr>) k))"

definition rt_sem_detach :: "nat \<Rightarrow> kernel \<Rightarrow> int \<times> kernel" where
  "rt_sem_detach i k = (RT_EOK, rt_object_detach (OSem i) (rt_ipc_list_resume_all (SemQ i) k))"

definition rt_sem_create :: "nat option \<Rightarrow> u32 \<Rightarrow> u8 \<Rightarrow> kernel \<Rightarrow> nat option \<times> kernel" where
  "rt_sem_create mem value flag k =
     (case mem of
        None \<Rightarrow> (None, k)
      | Some i \<Rightarrow>
          (let k = rt_ipc_object_init (SemQ i) (rt_object_allocate (OSem i) k)
           in (Some i, upd_sem i (\<lambda>s. \<lparr>sem_value = ucast value, sem_flag = flag\<rparr>) k)))"

definition rt_sem_delete :: "nat \<Rightarrow> kernel \<Rightarrow> int \<times> kernel" where
  "rt_sem_delete i k = (RT_EOK, rt_object_delete (OSem i) (rt_ipc_list_resume_all (SemQ i) k))"

definition rt_sem_take :: "nat \<Rightarrow> u32 \<Rightarrow> kernel \<Rightarrow> int call \<times> kernel" where
  "rt_sem_take i time k =
     (if sem_value (sems k i) > 0 then
        (Returned RT_EOK, upd_sem i (\<lambda>s. s\<lparr>sem_value := sem_value s - 1\<rparr>) k)
      else if time = 0 then (Returned (- RT_ETIMEOUT), k)
      else
        (case rt_thread_self k of
           None \<Rightarrow> (Blocked, k\<lparr>halted := True\<rparr>)
         | Some t \<Rightarrow>
             (let k = upd_thread t (\<lambda>th. th\<lparr>error := RT_EOK\<rparr>) k;
                  k = rt_ipc_list_suspend (SemQ i) t (sem_flag (sems k i)) k
              in (Blocked, wait_time t time k))))"

definition rt_sem_take_resume :: "tid \<Rightarrow> kernel \<Rightarrow> int" where
  "rt_sem_take_resume t k = (if error (threads k t) \<noteq> RT_EOK then error (threads k t) else RT_EOK)"

definition rt_sem_trytake :: "nat \<Rightarrow> kernel \<Rightarrow> int call \<times> kernel" where
  "rt_sem_trytake i k = rt_sem_take i 0 k"

definition RT_SEM_VALUE_MAX :: u16 where [code_unfold]: "RT_SEM_VALUE_MAX = 0xffff"

definition rt_sem_release :: "nat \<Rightarrow> kernel \<Rightarrow> int \<times> kernel" where
  "rt_sem_release i k =
     (if lists k (SemQ i) \<noteq> [] then (RT_EOK, rt_schedule (rt_ipc_list_resume (SemQ i) k))
      else if sem_value (sems k i) < RT_SEM_VALUE_MAX then
        (RT_EOK, upd_sem i (\<lambda>s. s\<lparr>sem_value := sem_value s + 1\<rparr>) k)
      else (- RT_EFULL, k))"

definition rt_sem_control :: "nat \<Rightarrow> int \<Rightarrow> u32 \<Rightarrow> kernel \<Rightarrow> int \<times> kernel" where
  "rt_sem_control i cmd arg k =
     (if cmd = 0x01 then
        (let k = rt_ipc_list_resume_all (SemQ i) k;
             k = upd_sem i (\<lambda>s. s\<lparr>sem_value := ucast arg\<rparr>) k
         in (RT_EOK, rt_schedule k))
      else (- RT_ERROR, k))"

section \<open>Mutexes\<close>

definition upd_mutex :: "nat \<Rightarrow> (rt_mutex \<Rightarrow> rt_mutex) \<Rightarrow> kernel \<Rightarrow> kernel" where
  "upd_mutex i f k = k\<lparr>mutexes := (mutexes k)(i := f (mutexes k i))\<rparr>"

definition new_mutex :: "u8 \<Rightarrow> rt_mutex" where
  "new_mutex flag = \<lparr>mutex_value = 1, original_priority = 0xFF, hold = 0, owner = None, mutex_flag = flag\<rparr>"

definition rt_mutex_init :: "nat \<Rightarrow> u8 \<Rightarrow> kernel \<Rightarrow> int \<times> kernel" where
  "rt_mutex_init i flag k =
     (let k = rt_ipc_object_init (MutexQ i) (rt_object_init (OMutex i) k)
      in (RT_EOK, upd_mutex i (\<lambda>_. new_mutex flag) k))"

definition rt_mutex_detach :: "nat \<Rightarrow> kernel \<Rightarrow> int \<times> kernel" where
  "rt_mutex_detach i k = (RT_EOK, rt_object_detach (OMutex i) (rt_ipc_list_resume_all (MutexQ i) k))"

definition rt_mutex_create :: "nat option \<Rightarrow> u8 \<Rightarrow> kernel \<Rightarrow> nat option \<times> kernel" where
  "rt_mutex_create mem flag k =
     (case mem of
        None \<Rightarrow> (None, k)
      | Some i \<Rightarrow>
          (let k = rt_ipc_object_init (MutexQ i) (rt_object_allocate (OMutex i) k)
           in (Some i, upd_mutex i (\<lambda>_. new_mutex flag) k)))"

definition rt_mutex_delete :: "nat \<Rightarrow> kernel \<Rightarrow> int \<times> kernel" where
  "rt_mutex_delete i k = (RT_EOK, rt_object_delete (OMutex i) (rt_ipc_list_resume_all (MutexQ i) k))"

definition RT_MUTEX_HOLD_MAX :: u8 where [code_unfold]: "RT_MUTEX_HOLD_MAX = 0xff"
definition RT_MUTEX_VALUE_MAX :: u16 where [code_unfold]: "RT_MUTEX_VALUE_MAX = 0xffff"

definition rt_mutex_take :: "nat \<Rightarrow> u32 \<Rightarrow> kernel \<Rightarrow> int call \<times> kernel" where
  "rt_mutex_take i time k =
     (case rt_thread_self k of
        None \<Rightarrow> (Blocked, k\<lparr>halted := True\<rparr>)
      | Some t \<Rightarrow>
          let k = upd_thread t (\<lambda>th. th\<lparr>error := RT_EOK\<rparr>) k; mx = mutexes k i in
          if owner mx = Some t then
            (if hold mx < RT_MUTEX_HOLD_MAX
             then (Returned RT_EOK, upd_mutex i (\<lambda>m. m\<lparr>hold := hold m + 1\<rparr>) k)
             else (Returned (- RT_EFULL), k))
          else if mutex_value mx > 0 then
            (let k = upd_mutex i (\<lambda>m. m\<lparr>mutex_value := mutex_value m - 1, owner := Some t,
                       original_priority := current_priority (threads k t)\<rparr>) k
             in if hold mx < RT_MUTEX_HOLD_MAX
                then (Returned RT_EOK, upd_mutex i (\<lambda>m. m\<lparr>hold := hold m + 1\<rparr>) k)
                else (Returned (- RT_EFULL), k))
          else if time = 0 then
            (Returned (- RT_ETIMEOUT), upd_thread t (\<lambda>th. th\<lparr>error := - RT_ETIMEOUT\<rparr>) k)
          else
            (case owner mx of
               None \<Rightarrow> (Blocked, k\<lparr>halted := True\<rparr>)
             | Some own \<Rightarrow>
                 (let k = (if current_priority (threads k t) < current_priority (threads k own)
                           then snd (rt_thread_control own 0x02 (current_priority (threads k t)) k) else k);
                      k = rt_ipc_list_suspend (MutexQ i) t (mutex_flag mx) k
                  in (Blocked, wait_time t time k))))"

definition rt_mutex_take_resume :: "tid \<Rightarrow> kernel \<Rightarrow> int" where
  "rt_mutex_take_resume t k = (if error (threads k t) \<noteq> RT_EOK then error (threads k t) else RT_EOK)"

definition rt_mutex_release :: "nat \<Rightarrow> kernel \<Rightarrow> int \<times> kernel" where
  "rt_mutex_release i k =
     (case rt_thread_self k of
        None \<Rightarrow> (RT_EOK, k\<lparr>halted := True\<rparr>)
      | Some t \<Rightarrow>
          if owner (mutexes k i) \<noteq> Some t then
            (- RT_ERROR, upd_thread t (\<lambda>th. th\<lparr>error := - RT_ERROR\<rparr>) k)
          else
            (let k = upd_mutex i (\<lambda>m. m\<lparr>hold := hold m - 1\<rparr>) k in
             if hold (mutexes k i) \<noteq> 0 then (RT_EOK, k)
             else
               (let k = (if original_priority (mutexes k i) \<noteq> current_priority (threads k t)
                         then snd (rt_thread_control t 0x02 (original_priority (mutexes k i)) k) else k)
                in case lists k (MutexQ i) of
                     u # _ \<Rightarrow>
                       (let k = upd_mutex i (\<lambda>m. m\<lparr>owner := Some u,
                                  original_priority := current_priority (threads k u)\<rparr>) k
                        in if hold (mutexes k i) < RT_MUTEX_HOLD_MAX then
                             (let k = upd_mutex i (\<lambda>m. m\<lparr>hold := hold m + 1\<rparr>) k
                              in (RT_EOK, rt_schedule (rt_ipc_list_resume (MutexQ i) k)))
                           else (- RT_EFULL, k))
                   | [] \<Rightarrow>
                       if mutex_value (mutexes k i) < RT_MUTEX_VALUE_MAX then
                         (RT_EOK, upd_mutex i (\<lambda>m. m\<lparr>mutex_value := mutex_value m + 1, owner := None,
                                    original_priority := 0xff\<rparr>) k)
                       else (- RT_EFULL, k))))"

definition rt_mutex_control :: "nat \<Rightarrow> int \<Rightarrow> kernel \<Rightarrow> int \<times> kernel" where
  "rt_mutex_control i cmd k = (- RT_ERROR, k)"

section \<open>Events\<close>

definition upd_event :: "nat \<Rightarrow> (rt_event \<Rightarrow> rt_event) \<Rightarrow> kernel \<Rightarrow> kernel" where
  "upd_event i f k = k\<lparr>events := (events k)(i := f (events k i))\<rparr>"

definition rt_event_init :: "nat \<Rightarrow> u8 \<Rightarrow> kernel \<Rightarrow> int \<times> kernel" where
  "rt_event_init i flag k =
     (let k = rt_ipc_object_init (EventQ i) (rt_object_init (OEvent i) k)
      in (RT_EOK, upd_event i (\<lambda>_. \<lparr>event_bits = 0, event_flag = flag\<rparr>) k))"

definition rt_event_detach :: "nat \<Rightarrow> kernel \<Rightarrow> int \<times> kernel" where
  "rt_event_detach i k = (RT_EOK, rt_object_detach (OEvent i) (rt_ipc_list_resume_all (EventQ i) k))"

definition rt_event_create :: "nat option \<Rightarrow> u8 \<Rightarrow> kernel \<Rightarrow> nat option \<times> kernel" where
  "rt_event_create mem flag k =
     (case mem of
        None \<Rightarrow> (None, k)
      | Some i \<Rightarrow>
          (let k = rt_ipc_object_init (EventQ i) (rt_object_allocate (OEvent i) k)
           in (Some i, upd_event i (\<lambda>_. \<lparr>event_bits = 0, event_flag = flag\<rparr>) k)))"

definition rt_event_delete :: "nat \<Rightarrow> kernel \<Rightarrow> int \<times> kernel" where
  "rt_event_delete i k = (RT_EOK, rt_object_delete (OEvent i) (rt_ipc_list_resume_all (EventQ i) k))"

text \<open>
  The walk of \<open>rt_event_send\<close> over the waiters, which a resumption does not disturb:
  \<open>Inl\<close> is the early return on a waiter with neither option.
\<close>

fun event_walk :: "nat \<Rightarrow> tid list \<Rightarrow> bool \<Rightarrow> kernel \<Rightarrow> (int \<times> kernel) + (bool \<times> kernel)" where
  "event_walk i [] need_schedule k = Inr (need_schedule, k)"
| "event_walk i (t # ts) need_schedule k =
     (let th = threads k t; bits = event_bits (events k i) in
      if event_info th AND RT_EVENT_FLAG_AND = 0 \<and> event_info th AND RT_EVENT_FLAG_OR = 0
      then Inl (- RT_EINVAL, k)
      else
        (let hit = (if event_info th AND RT_EVENT_FLAG_AND \<noteq> 0 then event_set th AND bits = event_set th
                    else event_set th AND bits \<noteq> 0);
             k = (if hit \<and> event_info th AND RT_EVENT_FLAG_AND = 0
                  then upd_thread t (\<lambda>th. th\<lparr>event_set := event_set th AND bits\<rparr>) k else k)
         in if hit then
              (let k = (if event_info th AND RT_EVENT_FLAG_CLEAR \<noteq> 0
                        then upd_event i (\<lambda>e. e\<lparr>event_bits := event_bits e AND NOT (event_set (threads k t))\<rparr>) k
                        else k)
               in event_walk i ts True (snd (rt_thread_resume t k)))
            else event_walk i ts need_schedule k))"

definition rt_event_send :: "nat \<Rightarrow> u32 \<Rightarrow> kernel \<Rightarrow> int \<times> kernel" where
  "rt_event_send i bits k =
     (if bits = 0 then (- RT_ERROR, k)
      else
        (let k = upd_event i (\<lambda>e. e\<lparr>event_bits := event_bits e OR bits\<rparr>) k in
         case event_walk i (lists k (EventQ i)) False k of
           Inl r \<Rightarrow> r
         | Inr (need_schedule, k) \<Rightarrow> (RT_EOK, if need_schedule then rt_schedule k else k)))"

text \<open>\<open>rt_event_recv\<close>: the second component of the result is what \<open>*recved\<close> gets.\<close>

definition rt_event_recv :: "nat \<Rightarrow> u32 \<Rightarrow> u8 \<Rightarrow> u32 \<Rightarrow> kernel \<Rightarrow> (int \<times> u32 option) call \<times> kernel" where
  "rt_event_recv i bits opt timeout k =
     (if bits = 0 then (Returned (- RT_ERROR, None), k)
      else
        (case rt_thread_self k of
           None \<Rightarrow> (Blocked, k\<lparr>halted := True\<rparr>)
         | Some t \<Rightarrow>
             (let k = upd_thread t (\<lambda>th. th\<lparr>error := RT_EOK\<rparr>) k;
                  have = event_bits (events k i);
                  hit = (if opt AND RT_EVENT_FLAG_AND \<noteq> 0 then have AND bits = bits
                         else if opt AND RT_EVENT_FLAG_OR \<noteq> 0 then have AND bits \<noteq> 0 else False)
              in if hit then
                   (let k = upd_thread t (\<lambda>th. th\<lparr>event_set := have AND bits, event_info := opt\<rparr>) k;
                        k = (if opt AND RT_EVENT_FLAG_CLEAR \<noteq> 0
                             then upd_event i (\<lambda>e. e\<lparr>event_bits := event_bits e AND NOT bits\<rparr>) k else k)
                    in (Returned (error (threads k t), Some (have AND bits)), k))
                 else if timeout = 0 then
                   (Returned (- RT_ETIMEOUT, None), upd_thread t (\<lambda>th. th\<lparr>error := - RT_ETIMEOUT\<rparr>) k)
                 else
                   (let k = upd_thread t (\<lambda>th. th\<lparr>event_set := bits, event_info := opt\<rparr>) k;
                        k = rt_ipc_list_suspend (EventQ i) t (event_flag (events k i)) k
                    in (Blocked, wait_time t timeout k)))))"

definition rt_event_recv_resume :: "tid \<Rightarrow> kernel \<Rightarrow> int \<times> u32 option" where
  "rt_event_recv_resume t k =
     (if error (threads k t) \<noteq> RT_EOK then (error (threads k t), None)
      else (error (threads k t), Some (event_set (threads k t))))"

definition rt_event_control :: "nat \<Rightarrow> int \<Rightarrow> kernel \<Rightarrow> int \<times> kernel" where
  "rt_event_control i cmd k =
     (if cmd = 0x01 then
        (let k = rt_ipc_list_resume_all (EventQ i) k;
             k = upd_event i (\<lambda>e. e\<lparr>event_bits := 0\<rparr>) k
         in (RT_EOK, rt_schedule k))
      else (- RT_ERROR, k))"

end
