(* ===== verification/Fifo.thy ===== *)
theory Fifo
  imports Prelude
begin

text \<open>
  Bounded first-in-first-out queues. The locale is the contract of the queues of the program
  (the mailbox, the message queue and the receive ring of the console): what a client may rely
  on, over the sequence of elements that the queue holds. Its theorem on runs of operations is
  inherited by every interpretation. The second part is the arithmetic of ring buffers that two
  of the implementations share.
\<close>

section \<open>Runs of queue operations\<close>

datatype 'a fifo_op = Put 'a | Get

text \<open>
  A run collects the elements that were accepted and the elements that were delivered; a
  refused operation leaves the state alone.
\<close>

fun fifo_run :: "('a \<Rightarrow> 's \<Rightarrow> 's option) \<Rightarrow> ('s \<Rightarrow> ('a \<times> 's) option) \<Rightarrow> 'a fifo_op list \<Rightarrow> 's
    \<Rightarrow> 'a list \<times> 'a list \<times> 's" where
  "fifo_run put get [] s = ([], [], s)"
| "fifo_run put get (Put x # ops) s =
     (case put x s of
        None \<Rightarrow> fifo_run put get ops s
      | Some s' \<Rightarrow> (let (acc, out, s'') = fifo_run put get ops s' in (x # acc, out, s'')))"
| "fifo_run put get (Get # ops) s =
     (case get s of
        None \<Rightarrow> fifo_run put get ops s
      | Some (x, s') \<Rightarrow> (let (acc, out, s'') = fifo_run put get ops s' in (acc, x # out, s'')))"

text \<open>\<open>ok\<close> says which elements the queue can take (the size of a message).\<close>

locale bounded_fifo =
  fixes inv :: "'s \<Rightarrow> bool"
    and cap :: "'s \<Rightarrow> nat"
    and ok :: "'s \<Rightarrow> 'a \<Rightarrow> bool"
    and contents :: "'s \<Rightarrow> 'a list"
    and put :: "'a \<Rightarrow> 's \<Rightarrow> 's option"
    and get :: "'s \<Rightarrow> ('a \<times> 's) option"
  assumes bounded: "inv s \<Longrightarrow> length (contents s) \<le> cap s"
    and put_full: "inv s \<Longrightarrow> ok s x \<Longrightarrow> length (contents s) = cap s \<Longrightarrow> put x s = None"
    and put_room: "inv s \<Longrightarrow> ok s x \<Longrightarrow> length (contents s) < cap s \<Longrightarrow>
      \<exists>s'. put x s = Some s' \<and> inv s' \<and> contents s' = contents s @ [x] \<and> cap s' = cap s \<and> ok s' = ok s"
    and get_empty: "inv s \<Longrightarrow> contents s = [] \<Longrightarrow> get s = None"
    and get_first: "inv s \<Longrightarrow> contents s = x # xs \<Longrightarrow>
      \<exists>s'. get s = Some (x, s') \<and> inv s' \<and> contents s' = xs \<and> cap s' = cap s \<and> ok s' = ok s"
begin

lemma put_Some: "inv s \<Longrightarrow> ok s x \<Longrightarrow> put x s = Some s' \<Longrightarrow>
    inv s' \<and> contents s' = contents s @ [x] \<and> cap s' = cap s \<and> ok s' = ok s \<and> length (contents s) < cap s"
  using bounded[of s] put_full[of s x] put_room[of s x] by (cases "length (contents s) = cap s") auto

lemma get_Some: "inv s \<Longrightarrow> get s = Some (x, s') \<Longrightarrow>
    inv s' \<and> contents s = x # contents s' \<and> cap s' = cap s \<and> ok s' = ok s"
  using get_empty[of s] get_first[of s] by (cases "contents s") fastforce+

text \<open>
  Order and conservation: what the queue held at first and what it accepted is, in order,
  what it delivered and what it holds at the end; it never holds more than its capacity.
\<close>

lemma run_conserves:
  "inv s \<Longrightarrow> \<forall>x. Put x \<in> set ops \<longrightarrow> ok s x \<Longrightarrow> fifo_run put get ops s = (acc, out, s') \<Longrightarrow>
     contents s @ acc = out @ contents s' \<and> inv s' \<and> cap s' = cap s \<and> length (contents s') \<le> cap s"
proof (induction ops arbitrary: s acc out)
  case Nil
  then show ?case using bounded by auto
next
  case (Cons op ops)
  show ?case
  proof (cases op)
    case (Put x)
    then have x: "ok s x" using Cons.prems(2) by simp
    show ?thesis
    proof (cases "put x s")
      case None
      with Cons Put show ?thesis by simp
    next
      case (Some t)
      note t = put_Some[OF Cons.prems(1) x Some]
      obtain acc' where r: "fifo_run put get ops t = (acc', out, s')" and acc: "acc = x # acc'"
        using Cons.prems(3) Put Some by (auto split: prod.splits)
      with Cons.IH[OF _ _ r] t Cons.prems(2) show ?thesis by simp
    qed
  next
    case Get
    show ?thesis
    proof (cases "get s")
      case None
      with Cons Get show ?thesis by simp
    next
      case (Some p)
      obtain x t where p: "p = (x, t)" by (cases p)
      obtain out' where r: "fifo_run put get ops t = (acc, out', s')" and out: "out = x # out'"
        using Cons.prems(3) Get Some p by (auto split: prod.splits)
      with Cons.IH[OF _ _ r] get_Some[OF Cons.prems(1)] Cons.prems(2) Some p show ?thesis by simp
    qed
  qed
qed

end

section \<open>Ring buffers\<close>

text \<open>The \<open>n\<close> elements of a ring from index \<open>out\<close> on.\<close>

definition ring_contents :: "'a list \<Rightarrow> nat \<Rightarrow> nat \<Rightarrow> 'a list" where
  "ring_contents pool out n = map (\<lambda>i. pool ! ((out + i) mod length pool)) [0..<n]"

lemma length_ring_contents [simp]: "length (ring_contents pool out n) = n"
  by (simp add: ring_contents_def)

lemma ring_contents_0 [simp]: "ring_contents pool out 0 = []"
  by (simp add: ring_contents_def)

lemma ring_index_inj:
  fixes m :: nat
  assumes "(out + i) mod m = (out + j) mod m" and "i < m" and "j < m"
  shows "i = j"
  using assms
proof (induction i j rule: linorder_wlog)
  case (le i j)
  have "m dvd (out + j) - (out + i)"
    using le by (metis mod_eq_dvd_iff_nat nat_add_left_cancel_le)
  then have "m dvd j - i" by simp
  then show ?case using le by (metis diff_is_0_eq' dvd_imp_le le_antisym less_imp_diff_less not_less zero_less_diff)
next
  case (sym i j)
  then show ?case by simp
qed

lemma ring_put:
  assumes "n < length pool"
  shows "ring_contents (pool[(out + n) mod length pool := x]) out (Suc n) = ring_contents pool out n @ [x]"
proof -
  have pos: "(out + n) mod length pool < length pool" using assms by (intro mod_less_divisor) auto
  have "(out + i) mod length pool \<noteq> (out + n) mod length pool" if "i < n" for i
    using ring_index_inj[of out i "length pool" n] that assms by auto
  then show ?thesis
    using pos by (fastforce simp add: ring_contents_def nth_list_update)
qed

lemma ring_get:
  assumes "0 < n" and "out < length pool"
  shows "ring_contents pool out n = pool ! out # ring_contents pool ((out + 1) mod length pool) (n - 1)"
proof -
  obtain m where n: "n = Suc m" using assms by (cases n) auto
  have "(Suc out mod length pool + i) mod length pool = Suc (out + i) mod length pool" for i
    by (simp add: mod_add_left_eq)
  then show ?thesis
    using assms by (simp add: ring_contents_def n upt_conv_Cons map_Suc_upt[symmetric] del: upt_Suc)
qed

end
