(* ===== verification/Mailbox.thy ===== *)
theory Mailbox
  imports Ipc Fifo
begin

text \<open>
  The mailboxes of \<^verbatim>\<open>src/ipc.c\<close>: a ring of words with two wait lists, one of
  receivers and one of senders. The changes of the mailbox itself are operations on its record
  (which fault where C would access the pool out of bounds), so that the mailbox is an instance
  of the queue contract; the calls wrap them in the blocking loops.
\<close>

definition RT_MB_ENTRY_MAX :: u16 where [code_unfold]: "RT_MB_ENTRY_MAX = 0xffff"

definition upd_mailbox :: "nat \<Rightarrow> (rt_mailbox \<Rightarrow> rt_mailbox) \<Rightarrow> kernel \<Rightarrow> kernel" where
  "upd_mailbox i f k = k\<lparr>mailboxes := (mailboxes k)(i := f (mailboxes k i))\<rparr>"

section \<open>The ring\<close>

text \<open>Storing a word, advancing the write index, counting the entry.\<close>

definition mb_put :: "u32 \<Rightarrow> rt_mailbox \<Rightarrow> (int \<times> rt_mailbox) exec" where
  "mb_put value mb =
     exec_bind (store_at (unat (mb_in_offset mb)) value (msg_pool mb)) (\<lambda>pool.
       let mb = mb\<lparr>msg_pool := pool, mb_in_offset := mb_in_offset mb + 1\<rparr>;
           mb = (if mb_in_offset mb \<ge> mb_size mb then mb\<lparr>mb_in_offset := 0\<rparr> else mb)
       in Done (if mb_entry mb < RT_MB_ENTRY_MAX
                then (RT_EOK, mb\<lparr>mb_entry := mb_entry mb + 1\<rparr>) else (- RT_EFULL, mb)))"

definition mb_get :: "rt_mailbox \<Rightarrow> (u32 \<times> rt_mailbox) exec" where
  "mb_get mb =
     exec_bind (load_at (unat (mb_out_offset mb)) (msg_pool mb)) (\<lambda>value.
       let mb = mb\<lparr>mb_out_offset := mb_out_offset mb + 1\<rparr>;
           mb = (if mb_out_offset mb \<ge> mb_size mb then mb\<lparr>mb_out_offset := 0\<rparr> else mb);
           mb = (if mb_entry mb > 0 then mb\<lparr>mb_entry := mb_entry mb - 1\<rparr> else mb)
       in Done (value, mb))"

section \<open>Life cycle\<close>

definition new_mailbox :: "u32 list \<Rightarrow> u32 \<Rightarrow> u8 \<Rightarrow> rt_mailbox" where
  "new_mailbox pool n flag = \<lparr>msg_pool = pool, mb_size = ucast n, mb_entry = 0, mb_in_offset = 0,
     mb_out_offset = 0, mb_flag = flag\<rparr>"

definition rt_mb_init :: "nat \<Rightarrow> u32 list \<Rightarrow> u32 \<Rightarrow> u8 \<Rightarrow> kernel \<Rightarrow> int \<times> kernel" where
  "rt_mb_init i pool n flag k =
     (let k = rt_ipc_object_init (MbRecvQ i) (rt_object_init (OMailbox i) k);
          k = upd_mailbox i (\<lambda>_. new_mailbox pool n flag) k
      in (RT_EOK, upd_list (MbSendQ i) (\<lambda>_. []) k))"

definition rt_mb_detach :: "nat \<Rightarrow> kernel \<Rightarrow> int \<times> kernel" where
  "rt_mb_detach i k =
     (let k = rt_ipc_list_resume_all (MbRecvQ i) k;
          k = rt_ipc_list_resume_all (MbSendQ i) k
      in (RT_EOK, rt_object_detach (OMailbox i) k))"

text \<open>\<open>mem\<close> and \<open>pool\<close>: what the allocator gives for the object and for the ring.\<close>

definition rt_mb_create :: "nat option \<Rightarrow> u32 list option \<Rightarrow> u32 \<Rightarrow> u8 \<Rightarrow> kernel \<Rightarrow> nat option \<times> kernel" where
  "rt_mb_create mem pool n flag k =
     (case mem of
        None \<Rightarrow> (None, k)
      | Some i \<Rightarrow>
          (let k = rt_ipc_object_init (MbRecvQ i) (rt_object_allocate (OMailbox i) k) in
           case pool of
             None \<Rightarrow> (None, rt_object_delete (OMailbox i)
                        (upd_mailbox i (\<lambda>mb. mb\<lparr>mb_flag := flag, mb_size := ucast n\<rparr>) k))
           | Some pl \<Rightarrow>
               (let k = upd_mailbox i (\<lambda>_. new_mailbox pl n flag) k
                in (Some i, upd_list (MbSendQ i) (\<lambda>_. []) k))))"

definition rt_mb_delete :: "nat \<Rightarrow> kernel \<Rightarrow> int \<times> kernel" where
  "rt_mb_delete i k =
     (let k = rt_ipc_list_resume_all (MbRecvQ i) k;
          k = rt_ipc_list_resume_all (MbSendQ i) k
      in (RT_EOK, rt_object_delete (OMailbox i) k))"

section \<open>Sending\<close>

text \<open>What follows the waiting loop: the ring is not full any more.\<close>

definition rt_mb_send_tail :: "nat \<Rightarrow> u32 \<Rightarrow> kernel \<Rightarrow> int call \<times> kernel" where
  "rt_mb_send_tail i value k =
     (case mb_put value (mailboxes k i) of
        Done (r, mb) \<Rightarrow>
          (let k = upd_mailbox i (\<lambda>_. mb) k in
           if r \<noteq> RT_EOK then (Returned r, k)
           else if lists k (MbRecvQ i) \<noteq> []
           then (Returned RT_EOK, rt_schedule (rt_ipc_list_resume (MbRecvQ i) k))
           else (Returned RT_EOK, k))
      | _ \<Rightarrow> (Blocked, k\<lparr>halted := True\<rparr>))"

text \<open>From the test of the loop on, in thread \<open>self\<close>.\<close>

definition rt_mb_send_loop :: "tid option \<Rightarrow> nat \<Rightarrow> u32 \<Rightarrow> u32 \<Rightarrow> kernel \<Rightarrow> int call \<times> kernel" where
  "rt_mb_send_loop self i value timeout k =
     (if mb_entry (mailboxes k i) = mb_size (mailboxes k i) then
        (case self of
           None \<Rightarrow> (Blocked, k\<lparr>halted := True\<rparr>)
         | Some t \<Rightarrow>
             (let k = upd_thread t (\<lambda>th. th\<lparr>error := RT_EOK\<rparr>) k in
              if timeout = 0 then (Returned (- RT_EFULL), k)
              else (Blocked, wait_time t timeout (rt_ipc_list_suspend (MbSendQ i) t (mb_flag (mailboxes k i)) k))))
      else rt_mb_send_tail i value k)"

definition rt_mb_send_wait :: "nat \<Rightarrow> u32 \<Rightarrow> u32 \<Rightarrow> kernel \<Rightarrow> int call \<times> kernel" where
  "rt_mb_send_wait i value timeout k =
     (if mb_entry (mailboxes k i) = mb_size (mailboxes k i) \<and> timeout = 0 then (Returned (- RT_EFULL), k)
      else rt_mb_send_loop (rt_thread_self k) i value timeout k)"

text \<open>
  Running again after having blocked at tick \<open>tick_delta\<close>: the time left is what the
  clock has not used up.
\<close>

definition rt_mb_send_resume :: "tid \<Rightarrow> nat \<Rightarrow> u32 \<Rightarrow> u32 \<Rightarrow> u32 \<Rightarrow> kernel \<Rightarrow> int call \<times> kernel" where
  "rt_mb_send_resume t i value timeout tick_delta k =
     (if error (threads k t) \<noteq> RT_EOK then (Returned (error (threads k t)), k)
      else rt_mb_send_loop (Some t) i value (time_left timeout tick_delta k) k)"

definition rt_mb_send :: "nat \<Rightarrow> u32 \<Rightarrow> kernel \<Rightarrow> int call \<times> kernel" where
  "rt_mb_send i value k = rt_mb_send_wait i value 0 k"

section \<open>Receiving\<close>

text \<open>The second component of a result is what \<open>*value\<close> gets.\<close>

definition rt_mb_recv_tail :: "nat \<Rightarrow> kernel \<Rightarrow> (int \<times> u32 option) call \<times> kernel" where
  "rt_mb_recv_tail i k =
     (case mb_get (mailboxes k i) of
        Done (value, mb) \<Rightarrow>
          (let k = upd_mailbox i (\<lambda>_. mb) k in
           (Returned (RT_EOK, Some value),
            if lists k (MbSendQ i) \<noteq> [] then rt_schedule (rt_ipc_list_resume (MbSendQ i) k) else k))
      | _ \<Rightarrow> (Blocked, k\<lparr>halted := True\<rparr>))"

definition rt_mb_recv_loop :: "tid option \<Rightarrow> nat \<Rightarrow> u32 \<Rightarrow> kernel \<Rightarrow> (int \<times> u32 option) call \<times> kernel" where
  "rt_mb_recv_loop self i timeout k =
     (if mb_entry (mailboxes k i) = 0 then
        (case self of
           None \<Rightarrow> (Blocked, k\<lparr>halted := True\<rparr>)
         | Some t \<Rightarrow>
             (let k = upd_thread t (\<lambda>th. th\<lparr>error := RT_EOK\<rparr>) k in
              if timeout = 0
              then (Returned (- RT_ETIMEOUT, None), upd_thread t (\<lambda>th. th\<lparr>error := - RT_ETIMEOUT\<rparr>) k)
              else (Blocked, wait_time t timeout (rt_ipc_list_suspend (MbRecvQ i) t (mb_flag (mailboxes k i)) k))))
      else rt_mb_recv_tail i k)"

definition rt_mb_recv :: "nat \<Rightarrow> u32 \<Rightarrow> kernel \<Rightarrow> (int \<times> u32 option) call \<times> kernel" where
  "rt_mb_recv i timeout k =
     (if mb_entry (mailboxes k i) = 0 \<and> timeout = 0 then (Returned (- RT_ETIMEOUT, None), k)
      else rt_mb_recv_loop (rt_thread_self k) i timeout k)"

definition rt_mb_recv_resume :: "tid \<Rightarrow> nat \<Rightarrow> u32 \<Rightarrow> u32 \<Rightarrow> kernel \<Rightarrow> (int \<times> u32 option) call \<times> kernel" where
  "rt_mb_recv_resume t i timeout tick_delta k =
     (if error (threads k t) \<noteq> RT_EOK then (Returned (error (threads k t), None), k)
      else rt_mb_recv_loop (Some t) i (time_left timeout tick_delta k) k)"

definition rt_mb_control :: "nat \<Rightarrow> int \<Rightarrow> kernel \<Rightarrow> int \<times> kernel" where
  "rt_mb_control i cmd k =
     (if cmd = 0x01 then
        (let k = rt_ipc_list_resume_all (MbRecvQ i) k;
             k = rt_ipc_list_resume_all (MbSendQ i) k;
             k = upd_mailbox i (\<lambda>mb. mb\<lparr>mb_entry := 0, mb_in_offset := 0, mb_out_offset := 0\<rparr>) k
         in (RT_EOK, rt_schedule k))
      else (- RT_ERROR, k))"

section \<open>The ring is a bounded queue\<close>

text \<open>
  A well-formed mailbox: its pool has the room of its size, the read index is inside it and
  the write index follows the entries.
\<close>

definition mb_inv :: "rt_mailbox \<Rightarrow> bool" where
  "mb_inv mb \<longleftrightarrow> 0 < mb_size mb \<and> length (msg_pool mb) = unat (mb_size mb) \<and> mb_entry mb \<le> mb_size mb \<and>
     mb_out_offset mb < mb_size mb \<and>
     unat (mb_in_offset mb) = (unat (mb_out_offset mb) + unat (mb_entry mb)) mod unat (mb_size mb)"

definition mb_contents :: "rt_mailbox \<Rightarrow> u32 list" where
  "mb_contents mb = ring_contents (msg_pool mb) (unat (mb_out_offset mb)) (unat (mb_entry mb))"

text \<open>Sending and receiving that do not wait, on the record.\<close>

definition mb_try_put :: "u32 \<Rightarrow> rt_mailbox \<Rightarrow> rt_mailbox option" where
  "mb_try_put value mb =
     (if mb_entry mb = mb_size mb then None
      else case mb_put value mb of Done (r, mb') \<Rightarrow> Some mb' | _ \<Rightarrow> None)"

definition mb_try_get :: "rt_mailbox \<Rightarrow> (u32 \<times> rt_mailbox) option" where
  "mb_try_get mb =
     (if mb_entry mb = 0 then None else case mb_get mb of Done (v, mb') \<Rightarrow> Some (v, mb') | _ \<Rightarrow> None)"

lemma mb_invD:
  assumes "mb_inv mb"
  shows "0 < unat (mb_size mb)" "length (msg_pool mb) = unat (mb_size mb)"
    "unat (mb_entry mb) \<le> unat (mb_size mb)" "unat (mb_out_offset mb) < unat (mb_size mb)"
    "unat (mb_in_offset mb) = (unat (mb_out_offset mb) + unat (mb_entry mb)) mod unat (mb_size mb)"
    "unat (mb_in_offset mb) < unat (mb_size mb)" "unat (mb_size mb) < 2 ^ 16"
  using assms unsigned_less[of "mb_size mb"] by (auto simp: mb_inv_def word_less_nat_alt word_le_nat_alt)

text \<open>Advancing an index of the ring by one, the way the code writes it.\<close>

lemma advance_index:
  fixes x n :: u16
  assumes "unat x < unat n"
  shows "unat (if n \<le> x + 1 then 0 else x + 1) = (unat x + 1) mod unat n"
proof -
  have s: "unat (x + 1) = unat x + 1" using assms by (intro unat_inc_no_wrap[of _ n]) (simp add: word_less_nat_alt)
  show ?thesis
  proof (cases "unat x + 1 = unat n")
    case True then show ?thesis using s by (simp add: word_le_nat_alt)
  next
    case False then show ?thesis using s assms by (simp add: word_le_nat_alt)
  qed
qed

lemma mb_put_room:
  assumes inv: "mb_inv mb" and room: "mb_entry mb \<noteq> mb_size mb"
  obtains mb' where "mb_put value mb = Done (RT_EOK, mb')" and "mb_inv mb'"
    and "mb_contents mb' = mb_contents mb @ [value]" and "mb_size mb' = mb_size mb"
    and "mb_entry mb' = mb_entry mb + 1" and "mb_flag mb' = mb_flag mb"
proof -
  note d = mb_invD[OF inv]
  have lt: "mb_entry mb < mb_size mb" using inv room by (simp add: mb_inv_def order.not_eq_order_implies_strict)
  have e: "unat (mb_entry mb + 1) = unat (mb_entry mb) + 1" using lt by (rule unat_inc_no_wrap)
  have notmax: "mb_entry mb < RT_MB_ENTRY_MAX"
  proof -
    have "unat (mb_entry mb) < 65535" using lt d(7) by (simp add: word_less_nat_alt)
    then show ?thesis by (simp add: RT_MB_ENTRY_MAX_def word_less_nat_alt)
  qed
  define mb' where "mb' = mb\<lparr>msg_pool := (msg_pool mb)[unat (mb_in_offset mb) := value],
     mb_in_offset := (if mb_size mb \<le> mb_in_offset mb + 1 then 0 else mb_in_offset mb + 1),
     mb_entry := mb_entry mb + 1\<rparr>"
  show thesis
  proof (rule that[of mb'])
    show "mb_put value mb = Done (RT_EOK, mb')" using d notmax by (simp add: mb_put_def mb'_def Let_def)
    have "(Suc (unat (mb_in_offset mb))) mod unat (mb_size mb) =
        Suc (unat (mb_out_offset mb) + unat (mb_entry mb)) mod unat (mb_size mb)"
      unfolding d(5) by (simp add: mod_Suc_eq)
    then show "mb_inv mb'"
      using inv lt e advance_index[OF d(6)] by (simp add: mb_inv_def mb'_def word_le_nat_alt word_less_nat_alt)
    show "mb_contents mb' = mb_contents mb @ [value]"
      using ring_put[of "unat (mb_entry mb)" "msg_pool mb" "unat (mb_out_offset mb)" "value"] lt d(2,5) e
      by (simp add: mb_contents_def mb'_def word_less_nat_alt)
  qed (simp_all add: mb'_def)
qed

lemma mb_get_some:
  assumes inv: "mb_inv mb" and some: "mb_entry mb \<noteq> 0"
  obtains mb' where "mb_get mb = Done (hd (mb_contents mb), mb')" and "mb_inv mb'"
    and "mb_contents mb' = tl (mb_contents mb)" and "mb_contents mb \<noteq> []" and "mb_size mb' = mb_size mb"
    and "mb_entry mb' = mb_entry mb - 1" and "mb_flag mb' = mb_flag mb"
proof -
  note d = mb_invD[OF inv]
  have pos: "0 < mb_entry mb" "0 < unat (mb_entry mb)" using some by (simp_all add: word_gt_0 unat_gt_0)
  have e: "unat (mb_entry mb - 1) = unat (mb_entry mb) - 1" using some by (rule unat_dec_pos)
  define mb' where "mb' = mb\<lparr>
     mb_out_offset := (if mb_size mb \<le> mb_out_offset mb + 1 then 0 else mb_out_offset mb + 1),
     mb_entry := mb_entry mb - 1\<rparr>"
  note rg = ring_get[of "unat (mb_entry mb)" "unat (mb_out_offset mb)" "msg_pool mb", OF pos(2)]
  have adv: "unat (mb_out_offset mb') = (unat (mb_out_offset mb) + 1) mod unat (mb_size mb)"
    using advance_index[OF d(4)] by (simp add: mb'_def)
  have cont: "mb_contents mb = msg_pool mb ! unat (mb_out_offset mb) # mb_contents mb'"
    using rg d(2,4) adv e by (simp add: mb_contents_def mb'_def)
  show thesis
  proof (rule that[of mb'])
    show "mb_get mb = Done (hd (mb_contents mb), mb')"
      using d pos(1) cont by (simp add: mb_get_def mb'_def Let_def)
    have "(unat (mb_out_offset mb') + unat (mb_entry mb')) mod unat (mb_size mb) = unat (mb_in_offset mb)"
    proof -
      have "((unat (mb_out_offset mb) + 1) mod unat (mb_size mb) + (unat (mb_entry mb) - 1)) mod unat (mb_size mb)
          = (unat (mb_out_offset mb) + 1 + (unat (mb_entry mb) - 1)) mod unat (mb_size mb)"
        by (rule mod_add_left_eq)
      moreover have "mb_entry mb' = mb_entry mb - 1" by (simp add: mb'_def)
      ultimately show ?thesis using adv e d(5) pos(2) by simp
    qed
    moreover have "unat (mb_out_offset mb') < unat (mb_size mb)" using adv d(1) by simp
    moreover have "mb_size mb' = mb_size mb" "msg_pool mb' = msg_pool mb" "mb_in_offset mb' = mb_in_offset mb"
      "unat (mb_entry mb') = unat (mb_entry mb) - 1" using e by (simp_all add: mb'_def)
    ultimately show "mb_inv mb'"
      using d by (simp add: mb_inv_def word_le_nat_alt word_less_nat_alt)
    show "mb_contents mb' = tl (mb_contents mb)" "mb_contents mb \<noteq> []" using cont by simp_all
  qed (simp_all add: mb'_def)
qed

interpretation mb: bounded_fifo mb_inv "\<lambda>mb. unat (mb_size mb)" "\<lambda>_ _. True" mb_contents mb_try_put mb_try_get
proof unfold_locales
  fix s :: rt_mailbox and x
  assume inv: "mb_inv s"
  have len: "length (mb_contents s) = unat (mb_entry s)" by (simp add: mb_contents_def)
  show "length (mb_contents s) \<le> unat (mb_size s)" using mb_invD(3)[OF inv] len by simp
  show "mb_try_put x s = None" if "length (mb_contents s) = unat (mb_size s)"
    using that len by (simp add: mb_try_put_def unsigned_word_eqI)
  show "\<exists>s'. mb_try_put x s = Some s' \<and> mb_inv s' \<and> mb_contents s' = mb_contents s @ [x] \<and>
      unat (mb_size s') = unat (mb_size s) \<and> (\<lambda>_ :: u32. True) = (\<lambda>_. True)"
    if "length (mb_contents s) < unat (mb_size s)"
  proof -
    have ne: "mb_entry s \<noteq> mb_size s" using that len by auto
    from mb_put_room[OF inv ne, of x] show ?thesis using ne by (metis (no_types, lifting) exec.case(1) mb_try_put_def prod.case)
  qed
  show "mb_try_get s = None" if "mb_contents s = []"
  proof -
    have "mb_entry s = 0" using len that by (simp add: unat_eq_0)
    then show ?thesis by (simp add: mb_try_get_def)
  qed
  show "\<exists>s'. mb_try_get s = Some (x, s') \<and> mb_inv s' \<and> mb_contents s' = xs \<and>
      unat (mb_size s') = unat (mb_size s) \<and> (\<lambda>_ :: u32. True) = (\<lambda>_. True)"
    if "mb_contents s = x # xs" for xs
  proof -
    have ne: "mb_entry s \<noteq> 0" using len that by auto
    obtain s' where "mb_get s = Done (hd (mb_contents s), s')" "mb_inv s'"
      "mb_contents s' = tl (mb_contents s)" "mb_size s' = mb_size s" using mb_get_some[OF inv ne] .
    with that have "mb_get s = Done (x, s')" "mb_inv s'" "mb_contents s' = xs" "mb_size s' = mb_size s" by simp_all
    then show ?thesis using ne by (intro exI[of _ s']) (simp add: mb_try_get_def)
  qed
qed

lemma mb_inv_new: "length pool = unat (ucast n :: u16) \<Longrightarrow> pool \<noteq> [] \<Longrightarrow> mb_inv (new_mailbox pool n flag)"
  by (auto simp: mb_inv_def new_mailbox_def word_gt_0 unat_eq_0)

end
