(* ===== verification/Mqueue.thy ===== *)
theory Mqueue
  imports Ipc Fifo
begin

text \<open>
  The message queues of \<^verbatim>\<open>src/ipc.c\<close>. The pool is an array of slots, each a link
  and \<open>msg_size\<close> bytes; a slot is known by its index. Three pointers head two chains, the
  queued messages and the free slots. Sending takes a slot off the free chain in one critical
  section, copies the bytes with interrupts on, and links the slot in a second section;
  receiving unlinks, copies and frees in the same way. Each section is a definition of its own,
  so that what happens between two of them can be any other operation.
\<close>

definition RT_MQ_ENTRY_MAX :: u16 where [code_unfold]: "RT_MQ_ENTRY_MAX = 0xffff"

text \<open>The size of a link, \<open>sizeof(struct rt_mq_message)\<close>, on a 32-bit target.\<close>

definition rt_mq_message_size :: u32 where [code_unfold]: "rt_mq_message_size = 4"

definition upd_mq :: "nat \<Rightarrow> (rt_messagequeue \<Rightarrow> rt_messagequeue) \<Rightarrow> kernel \<Rightarrow> kernel" where
  "upd_mq i f k = k\<lparr>mqueues := (mqueues k)(i := f (mqueues k i))\<rparr>"

section \<open>Life cycle\<close>

text \<open>The loop that pushes the slots \<open>0\<close> to \<open>n - 1\<close> on the free chain.\<close>

fun mq_free_loop :: "nat \<Rightarrow> rt_messagequeue \<Rightarrow> rt_messagequeue" where
  "mq_free_loop 0 mq = mq"
| "mq_free_loop (Suc n) mq =
     (let mq = mq_free_loop n mq
      in mq\<lparr>msg_next := (msg_next mq)(n := msg_queue_free mq), msg_queue_free := Some n\<rparr>)"

definition new_mq :: "(nat \<Rightarrow> u8 list) \<Rightarrow> u16 \<Rightarrow> u16 \<Rightarrow> u8 \<Rightarrow> rt_messagequeue" where
  "new_mq pool msg_size max_msgs flag =
     mq_free_loop (unat max_msgs)
       \<lparr>mq_msg_size = msg_size, mq_max_msgs = max_msgs, mq_entry = 0, msg_queue_head = None,
        msg_queue_tail = None, msg_queue_free = None, msg_next = (\<lambda>_. None), msg_data = pool, mq_flag = flag\<rparr>"

definition rt_mq_init :: "nat \<Rightarrow> (nat \<Rightarrow> u8 list) \<Rightarrow> u32 \<Rightarrow> u32 \<Rightarrow> u8 \<Rightarrow> kernel \<Rightarrow> int \<times> kernel" where
  "rt_mq_init i pool msg_size pool_size flag k =
     (let k = rt_ipc_object_init (MqRecvQ i) (rt_object_init (OMq i) k);
          sz = (ucast (RT_ALIGN msg_size RT_ALIGN_SIZE) :: u16);
          max = (ucast (pool_size div (ucast sz + rt_mq_message_size)) :: u16);
          k = upd_mq i (\<lambda>_. new_mq pool sz max flag) k
      in (RT_EOK, upd_list (MqSendQ i) (\<lambda>_. []) k))"

definition rt_mq_detach :: "nat \<Rightarrow> kernel \<Rightarrow> int \<times> kernel" where
  "rt_mq_detach i k =
     (let k = rt_ipc_list_resume_all (MqRecvQ i) k;
          k = rt_ipc_list_resume_all (MqSendQ i) k
      in (RT_EOK, rt_object_detach (OMq i) k))"

definition rt_mq_create ::
  "nat option \<Rightarrow> (nat \<Rightarrow> u8 list) option \<Rightarrow> u32 \<Rightarrow> u32 \<Rightarrow> u8 \<Rightarrow> kernel \<Rightarrow> nat option \<times> kernel" where
  "rt_mq_create mem pool msg_size max_msgs flag k =
     (case mem of
        None \<Rightarrow> (None, k)
      | Some i \<Rightarrow>
          (let k = rt_ipc_object_init (MqRecvQ i) (rt_object_allocate (OMq i) k);
               sz = (ucast (RT_ALIGN msg_size RT_ALIGN_SIZE) :: u16); max = (ucast max_msgs :: u16) in
           case pool of
             None \<Rightarrow> (None, rt_object_delete (OMq i)
                        (upd_mq i (\<lambda>mq. mq\<lparr>mq_flag := flag, mq_msg_size := sz, mq_max_msgs := max\<rparr>) k))
           | Some pl \<Rightarrow>
               (let k = upd_mq i (\<lambda>_. new_mq pl sz max flag) k
                in (Some i, upd_list (MqSendQ i) (\<lambda>_. []) k))))"

definition rt_mq_delete :: "nat \<Rightarrow> kernel \<Rightarrow> int \<times> kernel" where
  "rt_mq_delete i k =
     (let k = rt_ipc_list_resume_all (MqRecvQ i) k;
          k = rt_ipc_list_resume_all (MqSendQ i) k
      in (RT_EOK, rt_object_delete (OMq i) k))"

section \<open>The critical sections on the chains\<close>

text \<open>Taking a slot off the free chain.\<close>

definition mq_grab :: "rt_messagequeue \<Rightarrow> (nat \<times> rt_messagequeue) option" where
  "mq_grab mq =
     (case msg_queue_free mq of None \<Rightarrow> None | Some msg \<Rightarrow> Some (msg, mq\<lparr>msg_queue_free := msg_next mq msg\<rparr>))"

text \<open>Clearing the link of the slot and copying the message into it.\<close>

definition mq_fill :: "nat \<Rightarrow> u8 list \<Rightarrow> rt_messagequeue \<Rightarrow> rt_messagequeue exec" where
  "mq_fill msg buffer mq =
     (let mq = mq\<lparr>msg_next := (msg_next mq)(msg := None)\<rparr> in
      exec_bind (memcpy_at 0 buffer (msg_data mq msg)) (\<lambda>bs. Done (mq\<lparr>msg_data := (msg_data mq)(msg := bs)\<rparr>)))"

text \<open>Linking the slot behind the tail.\<close>

definition mq_count :: "rt_messagequeue \<Rightarrow> int \<times> rt_messagequeue" where
  "mq_count mq = (if mq_entry mq < RT_MQ_ENTRY_MAX then (RT_EOK, mq\<lparr>mq_entry := mq_entry mq + 1\<rparr>)
                  else (- RT_EFULL, mq))"

definition mq_link :: "nat \<Rightarrow> rt_messagequeue \<Rightarrow> int \<times> rt_messagequeue" where
  "mq_link msg mq =
     (let mq = (case msg_queue_tail mq of
                  None \<Rightarrow> mq | Some lst \<Rightarrow> mq\<lparr>msg_next := (msg_next mq)(lst := Some msg)\<rparr>);
          mq = mq\<lparr>msg_queue_tail := Some msg\<rparr>;
          mq = (if msg_queue_head mq = None then mq\<lparr>msg_queue_head := Some msg\<rparr> else mq)
      in mq_count mq)"

text \<open>An urgent message: copied without clearing its link, then pushed in front.\<close>

definition mq_fill_urgent :: "nat \<Rightarrow> u8 list \<Rightarrow> rt_messagequeue \<Rightarrow> rt_messagequeue exec" where
  "mq_fill_urgent msg buffer mq =
     exec_bind (memcpy_at 0 buffer (msg_data mq msg)) (\<lambda>bs. Done (mq\<lparr>msg_data := (msg_data mq)(msg := bs)\<rparr>))"

definition mq_link_urgent :: "nat \<Rightarrow> rt_messagequeue \<Rightarrow> int \<times> rt_messagequeue" where
  "mq_link_urgent msg mq =
     (let mq = mq\<lparr>msg_next := (msg_next mq)(msg := msg_queue_head mq), msg_queue_head := Some msg\<rparr>;
          mq = (if msg_queue_tail mq = None then mq\<lparr>msg_queue_tail := Some msg\<rparr> else mq)
      in mq_count mq)"

text \<open>
  Unlinking the first message; an empty chain would be a null dereference. Then its bytes, at
  most \<open>msg_size\<close> of them, and its return to the free chain.
\<close>

definition mq_unlink :: "rt_messagequeue \<Rightarrow> (nat \<times> rt_messagequeue) exec" where
  "mq_unlink mq =
     (case msg_queue_head mq of
        None \<Rightarrow> Fault
      | Some msg \<Rightarrow>
          (let mq = mq\<lparr>msg_queue_head := msg_next mq msg\<rparr>;
               mq = (if msg_queue_tail mq = Some msg then mq\<lparr>msg_queue_tail := None\<rparr> else mq);
               mq = (if mq_entry mq > 0 then mq\<lparr>mq_entry := mq_entry mq - 1\<rparr> else mq)
           in Done (msg, mq)))"

definition mq_bytes :: "nat \<Rightarrow> u32 \<Rightarrow> rt_messagequeue \<Rightarrow> u8 list" where
  "mq_bytes msg n mq = take (if n > ucast (mq_msg_size mq) then unat (mq_msg_size mq) else unat n) (msg_data mq msg)"

definition mq_release :: "nat \<Rightarrow> rt_messagequeue \<Rightarrow> rt_messagequeue" where
  "mq_release msg mq = mq\<lparr>msg_next := (msg_next mq)(msg := msg_queue_free mq), msg_queue_free := Some msg\<rparr>"

section \<open>Sending\<close>

text \<open>The second section of a send: count, wake a receiver.\<close>

definition rt_mq_send_link :: "(rt_messagequeue \<Rightarrow> int \<times> rt_messagequeue) \<Rightarrow> nat \<Rightarrow> kernel \<Rightarrow> int call \<times> kernel" where
  "rt_mq_send_link lnk i k =
     (let (r, mq) = lnk (mqueues k i); k = upd_mq i (\<lambda>_. mq) k in
      if r \<noteq> RT_EOK then (Returned r, k)
      else if lists k (MqRecvQ i) \<noteq> []
      then (Returned RT_EOK, rt_schedule (rt_ipc_list_resume (MqRecvQ i) k))
      else (Returned RT_EOK, k))"

definition rt_mq_send_loop :: "tid option \<Rightarrow> nat \<Rightarrow> u8 list \<Rightarrow> u32 \<Rightarrow> kernel \<Rightarrow> int call \<times> kernel" where
  "rt_mq_send_loop self i buffer timeout k =
     (case mq_grab (mqueues k i) of
        None \<Rightarrow>
          (case self of
             None \<Rightarrow> (Blocked, k\<lparr>halted := True\<rparr>)
           | Some t \<Rightarrow>
               (let k = upd_thread t (\<lambda>th. th\<lparr>error := RT_EOK\<rparr>) k in
                if timeout = 0 then (Returned (- RT_EFULL), k)
                else (Blocked, wait_time t timeout (rt_ipc_list_suspend (MqSendQ i) t (mq_flag (mqueues k i)) k))))
      | Some (msg, mq) \<Rightarrow>
          (case mq_fill msg buffer mq of
             Done mq \<Rightarrow> rt_mq_send_link (mq_link msg) i (upd_mq i (\<lambda>_. mq) k)
           | _ \<Rightarrow> (Blocked, k\<lparr>halted := True\<rparr>)))"

definition rt_mq_send_wait :: "nat \<Rightarrow> u8 list \<Rightarrow> u32 \<Rightarrow> kernel \<Rightarrow> int call \<times> kernel" where
  "rt_mq_send_wait i buffer timeout k =
     (if length buffer > unat (mq_msg_size (mqueues k i)) then (Returned (- RT_ERROR), k)
      else if msg_queue_free (mqueues k i) = None \<and> timeout = 0 then (Returned (- RT_EFULL), k)
      else rt_mq_send_loop (rt_thread_self k) i buffer timeout k)"

definition rt_mq_send_resume :: "tid \<Rightarrow> nat \<Rightarrow> u8 list \<Rightarrow> u32 \<Rightarrow> u32 \<Rightarrow> kernel \<Rightarrow> int call \<times> kernel" where
  "rt_mq_send_resume t i buffer timeout tick_delta k =
     (if error (threads k t) \<noteq> RT_EOK then (Returned (error (threads k t)), k)
      else rt_mq_send_loop (Some t) i buffer (time_left timeout tick_delta k) k)"

definition rt_mq_send :: "nat \<Rightarrow> u8 list \<Rightarrow> kernel \<Rightarrow> int call \<times> kernel" where
  "rt_mq_send i buffer k = rt_mq_send_wait i buffer 0 k"

definition rt_mq_urgent :: "nat \<Rightarrow> u8 list \<Rightarrow> kernel \<Rightarrow> int call \<times> kernel" where
  "rt_mq_urgent i buffer k =
     (if length buffer > unat (mq_msg_size (mqueues k i)) then (Returned (- RT_ERROR), k)
      else case mq_grab (mqueues k i) of
        None \<Rightarrow> (Returned (- RT_EFULL), k)
      | Some (msg, mq) \<Rightarrow>
          (case mq_fill_urgent msg buffer mq of
             Done mq \<Rightarrow> rt_mq_send_link (mq_link_urgent msg) i (upd_mq i (\<lambda>_. mq) k)
           | _ \<Rightarrow> (Blocked, k\<lparr>halted := True\<rparr>)))"

section \<open>Receiving\<close>

text \<open>The second component of a result is what is copied to \<open>buffer\<close>.\<close>

definition rt_mq_recv_free :: "nat \<Rightarrow> nat \<Rightarrow> kernel \<Rightarrow> kernel" where
  "rt_mq_recv_free i msg k =
     (let k = upd_mq i (mq_release msg) k in
      if lists k (MqSendQ i) \<noteq> [] then rt_schedule (rt_ipc_list_resume (MqSendQ i) k) else k)"

definition rt_mq_recv_loop :: "tid option \<Rightarrow> nat \<Rightarrow> u32 \<Rightarrow> u32 \<Rightarrow> kernel \<Rightarrow> (int \<times> u8 list option) call \<times> kernel" where
  "rt_mq_recv_loop self i n timeout k =
     (if mq_entry (mqueues k i) = 0 then
        (case self of
           None \<Rightarrow> (Blocked, k\<lparr>halted := True\<rparr>)
         | Some t \<Rightarrow>
             (let k = upd_thread t (\<lambda>th. th\<lparr>error := RT_EOK\<rparr>) k in
              if timeout = 0
              then (Returned (- RT_ETIMEOUT, None), upd_thread t (\<lambda>th. th\<lparr>error := - RT_ETIMEOUT\<rparr>) k)
              else (Blocked, wait_time t timeout (rt_ipc_list_suspend (MqRecvQ i) t (mq_flag (mqueues k i)) k))))
      else
        (case mq_unlink (mqueues k i) of
           Done (msg, mq) \<Rightarrow>
             (let k = upd_mq i (\<lambda>_. mq) k
              in (Returned (RT_EOK, Some (mq_bytes msg n mq)), rt_mq_recv_free i msg k))
         | _ \<Rightarrow> (Blocked, k\<lparr>halted := True\<rparr>)))"

definition rt_mq_recv :: "nat \<Rightarrow> u32 \<Rightarrow> u32 \<Rightarrow> kernel \<Rightarrow> (int \<times> u8 list option) call \<times> kernel" where
  "rt_mq_recv i n timeout k =
     (if mq_entry (mqueues k i) = 0 \<and> timeout = 0 then (Returned (- RT_ETIMEOUT, None), k)
      else rt_mq_recv_loop (rt_thread_self k) i n timeout k)"

definition rt_mq_recv_resume :: "tid \<Rightarrow> nat \<Rightarrow> u32 \<Rightarrow> u32 \<Rightarrow> u32 \<Rightarrow> kernel \<Rightarrow> (int \<times> u8 list option) call \<times> kernel" where
  "rt_mq_recv_resume t i n timeout tick_delta k =
     (if error (threads k t) \<noteq> RT_EOK then (Returned (error (threads k t), None), k)
      else rt_mq_recv_loop (Some t) i n (time_left timeout tick_delta k) k)"

text \<open>
  The reset moves every queued message to the free chain; as many rounds as slots are enough
  when the chain is well formed.
\<close>

fun mq_reset_loop :: "nat \<Rightarrow> rt_messagequeue \<Rightarrow> rt_messagequeue exec" where
  "mq_reset_loop fuel mq =
     (case msg_queue_head mq of
        None \<Rightarrow> Done mq
      | Some msg \<Rightarrow>
          (case fuel of
             0 \<Rightarrow> Out_Of_Fuel
           | Suc n \<Rightarrow>
               (let mq = mq\<lparr>msg_queue_head := msg_next mq msg\<rparr>;
                    mq = (if msg_queue_tail mq = Some msg then mq\<lparr>msg_queue_tail := None\<rparr> else mq)
                in mq_reset_loop n (mq_release msg mq))))"

declare mq_reset_loop.simps [simp del]

definition rt_mq_control :: "nat \<Rightarrow> int \<Rightarrow> kernel \<Rightarrow> int \<times> kernel" where
  "rt_mq_control i cmd k =
     (if cmd = 0x01 then
        (let k = rt_ipc_list_resume_all (MqRecvQ i) k;
             k = rt_ipc_list_resume_all (MqSendQ i) k
         in case mq_reset_loop (unat (mq_max_msgs (mqueues k i))) (mqueues k i) of
              Done mq \<Rightarrow> (RT_EOK, rt_schedule (upd_mq i (\<lambda>_. mq\<lparr>mq_entry := 0\<rparr>) k))
            | _ \<Rightarrow> (RT_EOK, k\<lparr>halted := True\<rparr>))
      else (- RT_ERROR, k))"

section \<open>Chains\<close>

lemma unat_ucast_u16: "unat (ucast (x :: u16) :: u32) = unat x"
proof -
  have "unat x < 2 ^ 32" using unsigned_less[of x] by (rule order.strict_trans) simp
  then show ?thesis by (simp add: unsigned_ucast_eq take_bit_nat_eq_self)
qed

fun chain :: "(nat \<Rightarrow> nat option) \<Rightarrow> nat option \<Rightarrow> nat list \<Rightarrow> bool" where
  "chain nxt h [] \<longleftrightarrow> h = None"
| "chain nxt h (x # xs) \<longleftrightarrow> h = Some x \<and> chain nxt (nxt x) xs"

fun follow :: "nat \<Rightarrow> (nat \<Rightarrow> nat option) \<Rightarrow> nat option \<Rightarrow> nat list" where
  "follow 0 nxt h = []"
| "follow (Suc n) nxt h = (case h of None \<Rightarrow> [] | Some x \<Rightarrow> x # follow n nxt (nxt x))"

lemma follow_chain: "chain nxt h xs \<Longrightarrow> follow (length xs) nxt h = xs"
  by (induction xs arbitrary: h) auto

lemma chain_upd: "x \<notin> set xs \<Longrightarrow> chain (nxt(x := v)) h xs \<longleftrightarrow> chain nxt h xs"
  by (induction xs arbitrary: h) auto

lemma chain_None: "chain nxt None xs \<longleftrightarrow> xs = []"
  by (cases xs) auto

lemma chain_append:
  "chain nxt h xs \<Longrightarrow> distinct (xs @ [y]) \<Longrightarrow> xs \<noteq> [] \<Longrightarrow> nxt y = None \<Longrightarrow>
     chain (nxt(last xs := Some y)) h (xs @ [y])"
proof (induction xs arbitrary: h)
  case (Cons x xs)
  show ?case
  proof (cases "xs = []")
    case True then show ?thesis using Cons by auto
  next
    case False
    have "chain (nxt(last xs := Some y)) (nxt x) (xs @ [y])"
      by (rule Cons.IH) (use Cons.prems False in auto)
    moreover have "x \<noteq> last xs" using Cons.prems(2) False last_in_set by fastforce
    ultimately show ?thesis using Cons.prems False by (simp add: fun_upd_def)
  qed
qed simp

section \<open>Well-formed queues\<close>

text \<open>
  \<open>mq_shape F qs fs mq\<close>: the queued slots are \<open>qs\<close>, the free ones \<open>fs\<close>, and the
  slots of \<open>F\<close> are in the hands of calls between their two critical sections; together they
  are the pool, each slot once.
\<close>

definition mq_shape :: "nat set \<Rightarrow> nat list \<Rightarrow> nat list \<Rightarrow> rt_messagequeue \<Rightarrow> bool" where
  "mq_shape F qs fs mq \<longleftrightarrow>
     distinct (qs @ fs) \<and> F \<inter> set (qs @ fs) = {} \<and> F \<union> set (qs @ fs) = {..<unat (mq_max_msgs mq)} \<and>
     chain (msg_next mq) (msg_queue_head mq) qs \<and> chain (msg_next mq) (msg_queue_free mq) fs \<and>
     msg_queue_tail mq = (if qs = [] then None else Some (last qs)) \<and>
     unat (mq_entry mq) = length qs \<and>
     (\<forall>i < unat (mq_max_msgs mq). length (msg_data mq i) = unat (mq_msg_size mq))"

definition mq_inv :: "nat set \<Rightarrow> rt_messagequeue \<Rightarrow> bool" where
  "mq_inv F mq \<longleftrightarrow> (\<exists>qs fs. mq_shape F qs fs mq)"

text \<open>The messages, in order, as whole slots.\<close>

definition mq_contents :: "rt_messagequeue \<Rightarrow> u8 list list" where
  "mq_contents mq = map (msg_data mq) (follow (unat (mq_entry mq)) (msg_next mq) (msg_queue_head mq))"

lemma mq_contents_shape: "mq_shape F qs fs mq \<Longrightarrow> mq_contents mq = map (msg_data mq) qs"
  by (simp add: mq_contents_def mq_shape_def follow_chain)

lemma mq_shapeD:
  assumes "mq_shape F qs fs mq"
  shows "distinct qs" "distinct fs" "set qs \<inter> set fs = {}" "F \<inter> set qs = {}" "F \<inter> set fs = {}"
    "F \<union> set qs \<union> set fs = {..<unat (mq_max_msgs mq)}"
    "chain (msg_next mq) (msg_queue_head mq) qs" "chain (msg_next mq) (msg_queue_free mq) fs"
    "msg_queue_tail mq = (if qs = [] then None else Some (last qs))" "unat (mq_entry mq) = length qs"
    "i < unat (mq_max_msgs mq) \<Longrightarrow> length (msg_data mq i) = unat (mq_msg_size mq)"
  using assms by (auto simp: mq_shape_def)

lemma mq_shapeI:
  assumes "distinct qs" "distinct fs" "set qs \<inter> set fs = {}" "F \<inter> set qs = {}" "F \<inter> set fs = {}"
    "F \<union> set qs \<union> set fs = {..<unat (mq_max_msgs mq)}"
    "chain (msg_next mq) (msg_queue_head mq) qs" "chain (msg_next mq) (msg_queue_free mq) fs"
    "msg_queue_tail mq = (if qs = [] then None else Some (last qs))" "unat (mq_entry mq) = length qs"
    "\<And>i. i < unat (mq_max_msgs mq) \<Longrightarrow> length (msg_data mq i) = unat (mq_msg_size mq)"
  shows "mq_shape F qs fs mq"
  using assms by (auto simp: mq_shape_def)

text \<open>There are at most as many slots as a 16-bit counter counts.\<close>

lemma mq_shape_bound:
  assumes "mq_shape F qs fs mq"
  shows "length qs + length fs + card F = unat (mq_max_msgs mq)" and "length qs \<le> 65535"
proof -
  note d = mq_shapeD[OF assms]
  have fin: "finite F" using d(6) by (metis finite_Un finite_lessThan)
  have "card (F \<union> set qs \<union> set fs) = card F + length qs + length fs"
    using d(1-5) fin by (subst card_Un_disjoint; auto simp: card_Un_disjoint distinct_card)
  then show s: "length qs + length fs + card F = unat (mq_max_msgs mq)" using d(6) by simp
  have "unat (mq_max_msgs mq) < 65536" using unsigned_less[of "mq_max_msgs mq"] by simp
  with s show "length qs \<le> 65535" by simp
qed

section \<open>The critical sections preserve well-formedness\<close>

lemma mq_grab_shape:
  assumes "mq_shape F qs (x # fs) mq"
  obtains mq' where "mq_grab mq = Some (x, mq')" and "mq_shape (insert x F) qs fs mq'"
    and "msg_data mq' = msg_data mq" and "mq_msg_size mq' = mq_msg_size mq" and "mq_max_msgs mq' = mq_max_msgs mq"
    and "mq_flag mq' = mq_flag mq"
proof -
  note d = mq_shapeD[OF assms]
  define mq' where "mq' = mq\<lparr>msg_queue_free := msg_next mq x\<rparr>"
  have "mq_grab mq = Some (x, mq')" using d(8) by (simp add: mq_grab_def mq'_def)
  moreover have "mq_shape (insert x F) qs fs mq'"
    by (rule mq_shapeI) (use d in \<open>auto simp: mq'_def\<close>)
  ultimately show thesis by (intro that[of mq']) (simp_all add: mq'_def)
qed

lemma mq_grab_none: "mq_shape F qs fs mq \<Longrightarrow> mq_grab mq = None \<longleftrightarrow> fs = []"
  by (cases fs) (auto simp: mq_grab_def mq_shape_def chain_None split: option.splits)

text \<open>A slot in flight may be written without effect on the queue.\<close>

lemma mq_fill_shape:
  assumes sh: "mq_shape F qs fs mq" and x: "x \<in> F" and len: "length buffer \<le> unat (mq_msg_size mq)"
  obtains mq' where "mq_fill x buffer mq = Done mq'" and "mq_shape F qs fs mq'" and "msg_next mq' x = None"
    and "msg_data mq' = (msg_data mq)(x := blit 0 buffer (msg_data mq x))"
    and "mq_msg_size mq' = mq_msg_size mq" and "mq_max_msgs mq' = mq_max_msgs mq" and "mq_flag mq' = mq_flag mq"
proof -
  note d = mq_shapeD[OF sh]
  have nx: "x \<notin> set qs" "x \<notin> set fs" "x < unat (mq_max_msgs mq)" using d(4-6) x by blast+
  have lx: "length (msg_data mq x) = unat (mq_msg_size mq)" using d(11) nx(3) by blast
  define mq' where "mq' = mq\<lparr>msg_next := (msg_next mq)(x := None),
     msg_data := (msg_data mq)(x := blit 0 buffer (msg_data mq x))\<rparr>"
  have "mq_fill x buffer mq = Done mq'" using len lx by (simp add: mq_fill_def mq'_def)
  moreover have "mq_shape F qs fs mq'"
    by (rule mq_shapeI) (use d nx lx len in \<open>auto simp: mq'_def chain_upd\<close>)
  ultimately show thesis by (intro that[of mq']) (simp_all add: mq'_def)
qed

lemma mq_fill_urgent_shape:
  assumes sh: "mq_shape F qs fs mq" and x: "x \<in> F" and len: "length buffer \<le> unat (mq_msg_size mq)"
  obtains mq' where "mq_fill_urgent x buffer mq = Done mq'" and "mq_shape F qs fs mq'"
    and "msg_data mq' = (msg_data mq)(x := blit 0 buffer (msg_data mq x))"
    and "mq_msg_size mq' = mq_msg_size mq" and "mq_max_msgs mq' = mq_max_msgs mq" and "mq_flag mq' = mq_flag mq"
proof -
  note d = mq_shapeD[OF sh]
  have nx: "x < unat (mq_max_msgs mq)" using d(6) x by blast
  have lx: "length (msg_data mq x) = unat (mq_msg_size mq)" using d(11) nx by blast
  define mq' where "mq' = mq\<lparr>msg_data := (msg_data mq)(x := blit 0 buffer (msg_data mq x))\<rparr>"
  have "mq_fill_urgent x buffer mq = Done mq'" using len lx by (simp add: mq_fill_urgent_def mq'_def)
  moreover have "mq_shape F qs fs mq'"
    by (rule mq_shapeI) (use d lx len in \<open>auto simp: mq'_def\<close>)
  ultimately show thesis by (intro that[of mq']) (simp_all add: mq'_def)
qed

text \<open>Counting one more message never reaches the limit, since a slot was in flight.\<close>

lemma mq_entry_room:
  assumes sh: "mq_shape F qs fs mq" and "x \<in> F"
  shows "mq_entry mq < RT_MQ_ENTRY_MAX" and "unat (mq_entry mq + 1) = Suc (length qs)"
proof -
  note d = mq_shapeD[OF sh] and b = mq_shape_bound[OF sh]
  have "finite F" using d(6) by (metis finite_Un finite_lessThan)
  then have "0 < card F" using assms(2) by (auto simp: card_gt_0_iff)
  moreover have "unat (mq_max_msgs mq) < 65536" using unsigned_less[of "mq_max_msgs mq"] by simp
  ultimately have "length qs < 65535" using b(1) by simp
  then show lt: "mq_entry mq < RT_MQ_ENTRY_MAX" using d(10) by (simp add: RT_MQ_ENTRY_MAX_def word_less_nat_alt)
  show "unat (mq_entry mq + 1) = Suc (length qs)" using unat_inc_no_wrap[OF lt] d(10) by simp
qed

lemma mq_link_shape:
  assumes sh: "mq_shape F qs fs mq" and x: "x \<in> F" and nx: "msg_next mq x = None"
  obtains mq' where "mq_link x mq = (RT_EOK, mq')" and "mq_shape (F - {x}) (qs @ [x]) fs mq'"
    and "msg_data mq' = msg_data mq" and "mq_msg_size mq' = mq_msg_size mq"
    and "mq_max_msgs mq' = mq_max_msgs mq" and "mq_flag mq' = mq_flag mq" and "mq_entry mq' = mq_entry mq + 1"
proof -
  note d = mq_shapeD[OF sh] and e = mq_entry_room[OF sh x]
  have out: "x \<notin> set qs" "x \<notin> set fs" using d(4,5) x by blast+
  define nxt where "nxt = (case msg_queue_tail mq of None \<Rightarrow> msg_next mq | Some l \<Rightarrow> (msg_next mq)(l := Some x))"
  define mq' where "mq' = mq\<lparr>msg_next := nxt, msg_queue_tail := Some x,
     msg_queue_head := (if msg_queue_head mq = None then Some x else msg_queue_head mq), mq_entry := mq_entry mq + 1\<rparr>"
  have "mq_link x mq = (RT_EOK, mq')"
    using e(1) by (auto simp: mq_link_def mq_count_def Let_def mq'_def nxt_def split: option.split)
  moreover have "mq_shape (F - {x}) (qs @ [x]) fs mq'"
  proof (rule mq_shapeI)
    show "chain (msg_next mq') (msg_queue_head mq') (qs @ [x])"
    proof (cases "qs = []")
      case True
      then show ?thesis using d(7,9) nx by (simp add: mq'_def nxt_def chain_None)
    next
      case False
      have "chain ((msg_next mq)(last qs := Some x)) (msg_queue_head mq) (qs @ [x])"
        by (rule chain_append) (use d(1,7) out False nx in auto)
      moreover have "msg_queue_head mq \<noteq> None" using d(7) False by (cases qs) auto
      ultimately show ?thesis using d(9) False by (auto simp: mq'_def nxt_def)
    qed
    have "last qs \<notin> set fs" if "qs \<noteq> []" using d(3) last_in_set[OF that] by blast
    then show "chain (msg_next mq') (msg_queue_free mq') fs"
      using d(8,9) by (auto simp: mq'_def nxt_def chain_upd)
    show "unat (mq_entry mq') = length (qs @ [x])" using e(2) by (simp add: mq'_def)
  qed (use d out x in \<open>auto simp: mq'_def\<close>)
  ultimately show thesis by (intro that[of mq']) (simp_all add: mq'_def)
qed

lemma mq_link_urgent_shape:
  assumes sh: "mq_shape F qs fs mq" and x: "x \<in> F"
  obtains mq' where "mq_link_urgent x mq = (RT_EOK, mq')" and "mq_shape (F - {x}) (x # qs) fs mq'"
    and "msg_data mq' = msg_data mq" and "mq_msg_size mq' = mq_msg_size mq"
    and "mq_max_msgs mq' = mq_max_msgs mq" and "mq_flag mq' = mq_flag mq" and "mq_entry mq' = mq_entry mq + 1"
proof -
  note d = mq_shapeD[OF sh] and e = mq_entry_room[OF sh x]
  have out: "x \<notin> set qs" "x \<notin> set fs" using d(4,5) x by blast+
  define mq' where "mq' = mq\<lparr>msg_next := (msg_next mq)(x := msg_queue_head mq), msg_queue_head := Some x,
     msg_queue_tail := (if msg_queue_tail mq = None then Some x else msg_queue_tail mq), mq_entry := mq_entry mq + 1\<rparr>"
  have "mq_link_urgent x mq = (RT_EOK, mq')"
    using e(1) by (auto simp: mq_link_urgent_def mq_count_def Let_def mq'_def)
  moreover have "mq_shape (F - {x}) (x # qs) fs mq'"
    by (rule mq_shapeI) (use d out x e(2) in \<open>auto simp: mq'_def chain_upd\<close>)
  ultimately show thesis by (intro that[of mq']) (simp_all add: mq'_def)
qed

lemma mq_unlink_shape:
  assumes sh: "mq_shape F (x # qs) fs mq"
  obtains mq' where "mq_unlink mq = Done (x, mq')" and "mq_shape (insert x F) qs fs mq'"
    and "msg_data mq' = msg_data mq" and "mq_msg_size mq' = mq_msg_size mq"
    and "mq_max_msgs mq' = mq_max_msgs mq" and "mq_flag mq' = mq_flag mq"
proof -
  note d = mq_shapeD[OF sh]
  have ne: "mq_entry mq \<noteq> 0" using d(10) by auto
  then have e: "unat (mq_entry mq - 1) = length qs" using unat_dec_pos[OF ne] d(10) by simp
  define mq' where "mq' = mq\<lparr>msg_queue_head := msg_next mq x,
     msg_queue_tail := (if msg_queue_tail mq = Some x then None else msg_queue_tail mq), mq_entry := mq_entry mq - 1\<rparr>"
  have "mq_unlink mq = Done (x, mq')"
    using d(7) ne by (simp add: mq_unlink_def Let_def mq'_def word_gt_0)
  moreover have "mq_shape (insert x F) qs fs mq'"
  proof (rule mq_shapeI)
    have "last qs \<noteq> x" if "qs \<noteq> []" using d(1) last_in_set[OF that] by auto
    then show "msg_queue_tail mq' = (if qs = [] then None else Some (last qs))"
      using d(9) by (simp add: mq'_def)
  qed (use d e in \<open>auto simp: mq'_def\<close>)
  ultimately show thesis by (intro that[of mq']) (simp_all add: mq'_def)
qed

lemma mq_release_shape:
  assumes sh: "mq_shape F qs fs mq" and x: "x \<in> F"
  shows "mq_shape (F - {x}) qs (x # fs) (mq_release x mq)"
proof -
  note d = mq_shapeD[OF sh]
  have out: "x \<notin> set qs" "x \<notin> set fs" using d(4,5) x by blast+
  show ?thesis
    by (rule mq_shapeI) (use d out x in \<open>auto simp: mq_release_def chain_upd\<close>)
qed

lemma mq_bytes_all:
  assumes sh: "mq_shape F qs fs mq" and x: "x < unat (mq_max_msgs mq)"
    and n: "unat (mq_msg_size mq) \<le> unat n"
  shows "mq_bytes x n mq = msg_data mq x"
  using mq_shapeD(11)[OF sh x] n by (simp add: mq_bytes_def)

text \<open>The pool as \<open>rt_mq_init\<close> builds it: every slot free, the last one first.\<close>

lemma mq_free_loop_fields [simp]:
  "mq_msg_size (mq_free_loop n mq) = mq_msg_size mq" "mq_max_msgs (mq_free_loop n mq) = mq_max_msgs mq"
  "mq_entry (mq_free_loop n mq) = mq_entry mq" "msg_queue_head (mq_free_loop n mq) = msg_queue_head mq"
  "msg_queue_tail (mq_free_loop n mq) = msg_queue_tail mq" "msg_data (mq_free_loop n mq) = msg_data mq"
  "mq_flag (mq_free_loop n mq) = mq_flag mq"
  by (induction n) (simp_all add: Let_def)

lemma mq_free_loop_chain:
  "msg_queue_free mq = None \<Longrightarrow>
     chain (msg_next (mq_free_loop n mq)) (msg_queue_free (mq_free_loop n mq)) (rev [0..<n])"
  by (induction n) (simp_all add: Let_def chain_upd)

lemma mq_shape_new:
  assumes "\<And>j. j < unat max_msgs \<Longrightarrow> length (pool j) = unat msg_size"
  shows "mq_shape {} [] (rev [0..<unat max_msgs]) (new_mq pool msg_size max_msgs flag)"
  by (rule mq_shapeI) (use assms in \<open>auto simp: new_mq_def mq_free_loop_chain\<close>)

section \<open>The queue is a bounded queue\<close>

text \<open>
  Sending and receiving that do not wait and are not interrupted, on the record, with a
  buffer of the message size.
\<close>

definition mq_try_send :: "u8 list \<Rightarrow> rt_messagequeue \<Rightarrow> rt_messagequeue option" where
  "mq_try_send buffer mq =
     (case mq_grab mq of
        None \<Rightarrow> None
      | Some (x, mq) \<Rightarrow>
          (case mq_fill x buffer mq of Done mq \<Rightarrow> Some (snd (mq_link x mq)) | _ \<Rightarrow> None))"

definition mq_try_urgent :: "u8 list \<Rightarrow> rt_messagequeue \<Rightarrow> rt_messagequeue option" where
  "mq_try_urgent buffer mq =
     (case mq_grab mq of
        None \<Rightarrow> None
      | Some (x, mq) \<Rightarrow>
          (case mq_fill_urgent x buffer mq of Done mq \<Rightarrow> Some (snd (mq_link_urgent x mq)) | _ \<Rightarrow> None))"

definition mq_try_recv :: "rt_messagequeue \<Rightarrow> (u8 list \<times> rt_messagequeue) option" where
  "mq_try_recv mq =
     (if mq_entry mq = 0 then None
      else case mq_unlink mq of
        Done (x, mq) \<Rightarrow> Some (mq_bytes x (ucast (mq_msg_size mq)) mq, mq_release x mq)
      | _ \<Rightarrow> None)"

lemma blit_whole: "length buffer = length bs \<Longrightarrow> blit 0 buffer bs = buffer"
  by (simp add: blit_def)

lemma map_upd_notin: "x \<notin> set xs \<Longrightarrow> map (f(x := v)) xs = map f xs"
  by (induction xs) auto

text \<open>A send that finds a free slot; \<open>blit\<close> keeps the stale bytes behind a short message.\<close>

lemma mq_try_send_room:
  assumes sh: "mq_shape F qs (x # fs) mq" and len: "length buffer \<le> unat (mq_msg_size mq)"
  obtains mq1 mq2 mq3 where "mq_grab mq = Some (x, mq1)" and "mq_fill x buffer mq1 = Done mq2"
    and "mq_link x mq2 = (RT_EOK, mq3)" and "mq_shape F (qs @ [x]) fs mq3"
    and "mq_contents mq3 = mq_contents mq @ [blit 0 buffer (msg_data mq x)]"
    and "mq_msg_size mq3 = mq_msg_size mq" and "mq_max_msgs mq3 = mq_max_msgs mq" and "mq_flag mq3 = mq_flag mq"
proof -
  have x: "x \<notin> F" "x \<notin> set qs" using mq_shapeD(3,5)[OF sh] by auto
  obtain mq1 where g: "mq_grab mq = Some (x, mq1)" "mq_shape (insert x F) qs fs mq1"
    "msg_data mq1 = msg_data mq" "mq_msg_size mq1 = mq_msg_size mq" "mq_max_msgs mq1 = mq_max_msgs mq"
    "mq_flag mq1 = mq_flag mq" using mq_grab_shape[OF sh] .
  obtain mq2 where f: "mq_fill x buffer mq1 = Done mq2" "mq_shape (insert x F) qs fs mq2"
    "msg_next mq2 x = None" "msg_data mq2 = (msg_data mq1)(x := blit 0 buffer (msg_data mq1 x))"
    "mq_msg_size mq2 = mq_msg_size mq1" "mq_max_msgs mq2 = mq_max_msgs mq1" "mq_flag mq2 = mq_flag mq1"
    using mq_fill_shape[OF g(2), of x buffer] len g(4) by auto
  obtain mq3 where l: "mq_link x mq2 = (RT_EOK, mq3)" "mq_shape (insert x F - {x}) (qs @ [x]) fs mq3"
    "msg_data mq3 = msg_data mq2" "mq_msg_size mq3 = mq_msg_size mq2"
    "mq_max_msgs mq3 = mq_max_msgs mq2" "mq_flag mq3 = mq_flag mq2"
    using mq_link_shape[OF f(2) _ f(3)] by auto
  have "mq_shape F (qs @ [x]) fs mq3" using l(2) x by simp
  moreover have "mq_contents mq3 = mq_contents mq @ [blit 0 buffer (msg_data mq x)]"
    using mq_contents_shape[OF sh] mq_contents_shape[OF l(2)] l(3) f(4) g(3) x by (simp add: map_upd_notin)
  ultimately show thesis using g(1,4-6) f(1,5-7) l(1,4-6) by (intro that[of mq1 mq2 mq3]) simp_all
qed

lemma mq_try_urgent_room:
  assumes sh: "mq_shape F qs (x # fs) mq" and len: "length buffer \<le> unat (mq_msg_size mq)"
  obtains mq1 mq2 mq3 where "mq_grab mq = Some (x, mq1)" and "mq_fill_urgent x buffer mq1 = Done mq2"
    and "mq_link_urgent x mq2 = (RT_EOK, mq3)" and "mq_shape F (x # qs) fs mq3"
    and "mq_contents mq3 = blit 0 buffer (msg_data mq x) # mq_contents mq"
    and "mq_msg_size mq3 = mq_msg_size mq" and "mq_max_msgs mq3 = mq_max_msgs mq" and "mq_flag mq3 = mq_flag mq"
proof -
  have x: "x \<notin> F" "x \<notin> set qs" using mq_shapeD(3,5)[OF sh] by auto
  obtain mq1 where g: "mq_grab mq = Some (x, mq1)" "mq_shape (insert x F) qs fs mq1"
    "msg_data mq1 = msg_data mq" "mq_msg_size mq1 = mq_msg_size mq" "mq_max_msgs mq1 = mq_max_msgs mq"
    "mq_flag mq1 = mq_flag mq" using mq_grab_shape[OF sh] .
  obtain mq2 where f: "mq_fill_urgent x buffer mq1 = Done mq2" "mq_shape (insert x F) qs fs mq2"
    "msg_data mq2 = (msg_data mq1)(x := blit 0 buffer (msg_data mq1 x))"
    "mq_msg_size mq2 = mq_msg_size mq1" "mq_max_msgs mq2 = mq_max_msgs mq1" "mq_flag mq2 = mq_flag mq1"
    using mq_fill_urgent_shape[OF g(2), of x buffer] len g(4) by auto
  obtain mq3 where l: "mq_link_urgent x mq2 = (RT_EOK, mq3)" "mq_shape (insert x F - {x}) (x # qs) fs mq3"
    "msg_data mq3 = msg_data mq2" "mq_msg_size mq3 = mq_msg_size mq2"
    "mq_max_msgs mq3 = mq_max_msgs mq2" "mq_flag mq3 = mq_flag mq2"
    using mq_link_urgent_shape[OF f(2), of x] by auto
  have "mq_shape F (x # qs) fs mq3" using l(2) x by simp
  moreover have "mq_contents mq3 = blit 0 buffer (msg_data mq x) # mq_contents mq"
    using mq_contents_shape[OF sh] mq_contents_shape[OF l(2)] l(3) f(3) g(3) x by (simp add: map_upd_notin)
  ultimately show thesis using g(1,4-6) f(1,4-6) l(1,4-6) by (intro that[of mq1 mq2 mq3]) simp_all
qed

lemma mq_unlink_first:
  assumes sh: "mq_shape F (x # qs) fs mq"
  obtains mq1 where "mq_unlink mq = Done (x, mq1)" and "mq_contents mq = msg_data mq x # mq_contents (mq_release x mq1)"
    and "mq_bytes x n mq1 = take (unat n) (msg_data mq x)"
    and "mq_shape F qs (x # fs) (mq_release x mq1)" and "mq_msg_size mq1 = mq_msg_size mq"
    and "mq_max_msgs mq1 = mq_max_msgs mq" and "mq_flag mq1 = mq_flag mq" and "mq_entry mq \<noteq> 0"
proof -
  have x: "x \<notin> F" "x < unat (mq_max_msgs mq)" using mq_shapeD(4,6)[OF sh] by auto
  obtain mq1 where u: "mq_unlink mq = Done (x, mq1)" "mq_shape (insert x F) qs fs mq1"
    "msg_data mq1 = msg_data mq" "mq_msg_size mq1 = mq_msg_size mq" "mq_max_msgs mq1 = mq_max_msgs mq"
    "mq_flag mq1 = mq_flag mq" using mq_unlink_shape[OF sh] .
  have r: "mq_shape F qs (x # fs) (mq_release x mq1)" using mq_release_shape[OF u(2), of x] x by simp
  have "length (msg_data mq x) = unat (mq_msg_size mq)" using mq_shapeD(11)[OF sh x(2)] .
  then have "mq_bytes x n mq1 = take (unat n) (msg_data mq x)"
    using u(3,4) by (simp add: mq_bytes_def word_less_nat_alt unat_ucast_u16)
  moreover have "mq_contents mq = msg_data mq x # mq_contents (mq_release x mq1)"
    using mq_contents_shape[OF sh] mq_contents_shape[OF r] u(3) by (simp add: mq_release_def)
  moreover have "mq_entry mq \<noteq> 0" using mq_shapeD(10)[OF sh] by auto
  ultimately show thesis using u r by (intro that[of mq1]) simp_all
qed

interpretation mq: bounded_fifo "mq_inv {}" "\<lambda>mq. unat (mq_max_msgs mq)"
  "\<lambda>mq buffer. length buffer = unat (mq_msg_size mq)" mq_contents mq_try_send mq_try_recv
proof unfold_locales
  fix s :: rt_messagequeue and x
  assume inv: "mq_inv {} s"
  then obtain qs fs where sh: "mq_shape {} qs fs s" by (auto simp: mq_inv_def)
  have cont: "mq_contents s = map (msg_data s) qs" using mq_contents_shape[OF sh] .
  have bound: "length qs + length fs = unat (mq_max_msgs s)" using mq_shape_bound[OF sh] by simp
  show "length (mq_contents s) \<le> unat (mq_max_msgs s)" using cont bound by simp
  show "mq_try_send x s = None" if "length (mq_contents s) = unat (mq_max_msgs s)"
    using that cont bound mq_grab_none[OF sh] by (simp add: mq_try_send_def)
  show "\<exists>s'. mq_try_send x s = Some s' \<and> mq_inv {} s' \<and> mq_contents s' = mq_contents s @ [x] \<and>
      unat (mq_max_msgs s') = unat (mq_max_msgs s) \<and>
      (\<lambda>b :: u8 list. length b = unat (mq_msg_size s')) = (\<lambda>b. length b = unat (mq_msg_size s))"
    if ok: "length x = unat (mq_msg_size s)" and room: "length (mq_contents s) < unat (mq_max_msgs s)"
  proof -
    obtain y fs' where fs: "fs = y # fs'" using room cont bound by (cases fs) auto
    then have "y < unat (mq_max_msgs s)" using mq_shapeD(6)[OF sh] by auto
    then have "length x = length (msg_data s y)" using ok mq_shapeD(11)[OF sh] by simp
    then have whole: "blit 0 x (msg_data s y) = x" by (rule blit_whole)
    obtain s1 s2 s3 where "mq_grab s = Some (y, s1)" "mq_fill y x s1 = Done s2" "mq_link y s2 = (RT_EOK, s3)"
      "mq_shape {} (qs @ [y]) fs' s3" "mq_contents s3 = mq_contents s @ [blit 0 x (msg_data s y)]"
      "mq_msg_size s3 = mq_msg_size s" "mq_max_msgs s3 = mq_max_msgs s"
      using mq_try_send_room[OF sh[unfolded fs], of x] ok by (metis order_refl)
    then show ?thesis
      using whole by (intro exI[of _ s3]) (auto simp: mq_try_send_def mq_inv_def)
  qed
  show "mq_try_recv s = None" if "mq_contents s = []"
    using that cont mq_shapeD(10)[OF sh] by (simp add: mq_try_recv_def unat_eq_0)
  show "\<exists>s'. mq_try_recv s = Some (x, s') \<and> mq_inv {} s' \<and> mq_contents s' = xs \<and>
      unat (mq_max_msgs s') = unat (mq_max_msgs s) \<and>
      (\<lambda>b :: u8 list. length b = unat (mq_msg_size s')) = (\<lambda>b. length b = unat (mq_msg_size s))"
    if c: "mq_contents s = x # xs" for xs
  proof -
    obtain y qs' where qs: "qs = y # qs'" using c cont by (cases qs) auto
    have "y < unat (mq_max_msgs s)" using mq_shapeD(6)[OF sh] qs by auto
    then have len: "length (msg_data s y) = unat (mq_msg_size s)" using mq_shapeD(11)[OF sh] by simp
    obtain s1 where u: "mq_unlink s = Done (y, s1)" "mq_contents s = msg_data s y # mq_contents (mq_release y s1)"
      "mq_bytes y (ucast (mq_msg_size s)) s1 = take (unat (ucast (mq_msg_size s) :: u32)) (msg_data s y)"
      "mq_shape {} qs' (y # fs) (mq_release y s1)" "mq_msg_size s1 = mq_msg_size s"
      "mq_max_msgs s1 = mq_max_msgs s" "mq_entry s \<noteq> 0"
      using mq_unlink_first[OF sh[unfolded qs], of "ucast (mq_msg_size s)"] by metis
    have "unat (ucast (mq_msg_size s) :: u32) = unat (mq_msg_size s)" by (rule unat_ucast_u16)
    with u len c show ?thesis
      by (intro exI[of _ "mq_release y s1"]) (auto simp: mq_try_recv_def mq_inv_def mq_release_def)
  qed
qed

end
