(* ===== verification/Ipc_Inv.thy ===== *)
theory Ipc_Inv
  imports Mailbox Mqueue
begin

text \<open>
  The invariants of the IPC objects and what the calls guarantee. Most kernel operations do not
  touch the objects and only take threads off wait lists: \<open>quiet\<close> states that once, and
  every object invariant is preserved by a quiet step. The calls are then quiet steps, updates of
  one object, and joining one wait list.
\<close>

section \<open>Quiet steps\<close>

definition is_wait :: "list_id \<Rightarrow> bool" where
  "is_wait l \<longleftrightarrow> \<not> is_ready l \<and> l \<noteq> Defunct"

lemma is_wait_simps [simp]:
  "is_wait (SemQ i)" "is_wait (MutexQ i)" "is_wait (EventQ i)" "is_wait (MbRecvQ i)" "is_wait (MbSendQ i)"
  "is_wait (MqRecvQ i)" "is_wait (MqSendQ i)" "is_wait (MpQ i)" "\<not> is_wait (Ready p)" "\<not> is_wait Defunct"
  by (simp_all add: is_wait_def)

definition is_ipc :: "object_id \<Rightarrow> bool" where
  "is_ipc ob \<longleftrightarrow> (case ob of OThread _ \<Rightarrow> False | OTimer _ \<Rightarrow> False | _ \<Rightarrow> True)"

lemma is_ipc_simps [simp]:
  "\<not> is_ipc (OThread t)" "\<not> is_ipc (OTimer m)" "is_ipc (OSem i)" "is_ipc (OMutex i)" "is_ipc (OEvent i)"
  "is_ipc (OMailbox i)" "is_ipc (OMq i)" "is_ipc (OMemPool i)"
  by (simp_all add: is_ipc_def)

definition quiet :: "kernel \<Rightarrow> kernel \<Rightarrow> bool" where
  "quiet k k' \<longleftrightarrow>
     sems k' = sems k \<and> mutexes k' = mutexes k \<and> events k' = events k \<and> mailboxes k' = mailboxes k \<and>
     mqueues k' = mqueues k \<and>
     (\<forall>ob. is_ipc ob \<and> ob \<in> set (objects k') \<longrightarrow> ob \<in> set (objects k)) \<and>
     (\<forall>l. is_wait l \<longrightarrow> set (lists k' l) \<subseteq> set (lists k l)) \<and>
     (\<forall>i t. t \<in> set (lists k' (EventQ i)) \<longrightarrow>
        event_set (threads k' t) = event_set (threads k t) \<and> event_info (threads k' t) = event_info (threads k t)) \<and>
     (\<forall>t. one_shot k (ThreadTimer t) \<longrightarrow> one_shot k' (ThreadTimer t)) \<and>
     (\<forall>n. UserTimer n \<in> set (timer_list k') \<longrightarrow> UserTimer n \<in> set (timer_list k))"

lemma quietD:
  assumes "quiet k k'"
  shows "sems k' = sems k" "mutexes k' = mutexes k" "events k' = events k" "mailboxes k' = mailboxes k"
    "mqueues k' = mqueues k" "is_ipc ob \<Longrightarrow> ob \<in> set (objects k') \<Longrightarrow> ob \<in> set (objects k)"
    "is_wait l \<Longrightarrow> set (lists k' l) \<subseteq> set (lists k l)"
    "t \<in> set (lists k' (EventQ i)) \<Longrightarrow> event_set (threads k' t) = event_set (threads k t)"
    "t \<in> set (lists k' (EventQ i)) \<Longrightarrow> event_info (threads k' t) = event_info (threads k t)"
    "one_shot k (ThreadTimer t) \<Longrightarrow> one_shot k' (ThreadTimer t)"
    "UserTimer n \<in> set (timer_list k') \<Longrightarrow> UserTimer n \<in> set (timer_list k)"
  using assms unfolding quiet_def by blast+

lemma quiet_refl [simp, intro]: "quiet k k"
  by (simp add: quiet_def)

lemma quiet_trans [trans]: "quiet k k' \<Longrightarrow> quiet k' k'' \<Longrightarrow> quiet k k''"
  unfolding quiet_def
  by (elim conjE, intro conjI allI impI; (simp; fail | meson subset_trans | blast | metis is_wait_simps(3) subsetD))

lemma quiet_tlist_remove: "quiet k (tlist_remove t k)"
  by (auto simp: quiet_def one_shot_def)

lemma quiet_upd_thread:
  "(\<And>th. event_set (f th) = event_set th) \<Longrightarrow> (\<And>th. event_info (f th) = event_info th) \<Longrightarrow> quiet k (upd_thread t f k)"
  by (auto simp: quiet_def one_shot_def)

lemma quiet_schedule: "quiet k (rt_schedule k)"
  by (auto simp: quiet_def one_shot_def)

lemma quiet_insert_thread: "quiet k (rt_schedule_insert_thread t k)"
  by (auto simp: quiet_def one_shot_def rt_schedule_insert_thread_def Let_def)

lemma quiet_remove_thread: "quiet k (rt_schedule_remove_thread t k)"
  by (auto simp: quiet_def one_shot_def rt_schedule_remove_thread_def Let_def)

lemma one_shot_bits [simp]:
  "(f AND NOT RT_TIMER_FLAG_ACTIVATED) AND RT_TIMER_FLAG_PERIODIC = f AND RT_TIMER_FLAG_PERIODIC"
  "(f OR RT_TIMER_FLAG_ACTIVATED) AND RT_TIMER_FLAG_PERIODIC = f AND RT_TIMER_FLAG_PERIODIC"
proof -
  have "NOT RT_TIMER_FLAG_ACTIVATED AND RT_TIMER_FLAG_PERIODIC = RT_TIMER_FLAG_PERIODIC"
    "RT_TIMER_FLAG_ACTIVATED AND RT_TIMER_FLAG_PERIODIC = 0"
    by (simp_all add: rt_timer_flags)
  then show "(f AND NOT RT_TIMER_FLAG_ACTIVATED) AND RT_TIMER_FLAG_PERIODIC = f AND RT_TIMER_FLAG_PERIODIC"
    "(f OR RT_TIMER_FLAG_ACTIVATED) AND RT_TIMER_FLAG_PERIODIC = f AND RT_TIMER_FLAG_PERIODIC"
    by (simp_all add: and.assoc bit.conj_disj_distrib2)
qed

lemma quiet_timer_stop: "quiet k (snd (rt_timer_stop m k))"
  by (auto simp: quiet_def one_shot_def rt_timer_stop_def rt_timer_deactivate_def rt_timer_remove_def upd_timer_def)

lemma quiet_timer_detach: "quiet k (snd (rt_timer_detach m k))"
  by (auto simp: quiet_def one_shot_def rt_timer_detach_def rt_timer_deactivate_def rt_timer_remove_def upd_timer_def
      rt_object_detach_def)

lemma quiet_timer_start: "quiet k (snd (rt_timer_start (ThreadTimer t) k))"
  by (auto simp: quiet_def one_shot_def rt_timer_start_def rt_timer_deactivate_def rt_timer_remove_def upd_timer_def Let_def)

lemma quiet_start_thread_timer: "quiet k (start_thread_timer t ticks k)"
proof -
  have "quiet k (upd_timer (ThreadTimer t) (\<lambda>tm. tm\<lparr>timer_init_tick := ticks\<rparr>) k)"
    by (auto simp: quiet_def one_shot_def)
  also have "quiet \<dots> (start_thread_timer t ticks k)"
    unfolding start_thread_timer_eq by (rule quiet_timer_start)
  finally show ?thesis .
qed

lemma quiet_resume: "quiet k (snd (rt_thread_resume t k))"
  unfolding rt_thread_resume_def Let_def
  by (auto intro: quiet_trans[OF quiet_tlist_remove quiet_trans[OF quiet_timer_stop quiet_insert_thread]])

lemma quiet_suspend: "quiet k (snd (rt_thread_suspend t k))"
  unfolding rt_thread_suspend_def Let_def
  by (auto intro!: quiet_trans[OF quiet_remove_thread quiet_trans[OF quiet_upd_thread quiet_timer_stop]]
      simp: set_stat_def)

lemma quiet_object: "quiet k (rt_object_detach ob k)" "quiet k (rt_object_delete ob k)"
  by (auto simp: quiet_def one_shot_def rt_object_detach_def rt_object_delete_def)

lemma quiet_halted: "quiet k (k\<lparr>halted := b\<rparr>)"
  by (auto simp: quiet_def one_shot_def)

lemma quiet_change_priority: "quiet k (change_priority t p k)"
  unfolding change_priority_def Let_def
  by (auto intro!: quiet_trans[OF quiet_remove_thread quiet_trans[OF quiet_upd_thread quiet_insert_thread]]
      quiet_upd_thread)

lemma quiet_resume_all: "quiet k (rt_ipc_list_resume_all l k)"
proof -
  have "quiet k (resume_all_loop n l k)" for n
  proof (induction n arbitrary: k)
    case (Suc n)
    show ?case
    proof (cases "lists k l")
      case (Cons t ts)
      have "quiet k (upd_thread t (\<lambda>th. th\<lparr>error := - RT_ERROR\<rparr>) k)" by (rule quiet_upd_thread) simp_all
      also have "quiet \<dots> (snd (rt_thread_resume t (upd_thread t (\<lambda>th. th\<lparr>error := - RT_ERROR\<rparr>) k)))"
        by (rule quiet_resume)
      finally show ?thesis using Suc.IH Cons by (auto intro: quiet_trans)
    qed simp
  qed (simp add: quiet_halted)
  then show ?thesis by (simp add: rt_ipc_list_resume_all_def)
qed

lemma quiet_list_resume: "quiet k (rt_ipc_list_resume l k)"
  by (auto simp: rt_ipc_list_resume_def quiet_halted quiet_resume split: list.split)

lemma quiet_wait_time: "quiet k (wait_time t time k)"
  unfolding wait_time_def by (auto intro: quiet_schedule quiet_trans[OF quiet_start_thread_timer quiet_schedule])
section \<open>The kernel invariant across the IPC operations\<close>

lemma upd_ipc_fields [simp]:
  "threads (upd_sem i f k) = threads k" "lists (upd_sem i f k) = lists k" "timers (upd_sem i f k) = timers k"
  "timer_list (upd_sem i f k) = timer_list k" "ready_group (upd_sem i f k) = ready_group k"
  "objects (upd_sem i f k) = objects k" "current_thread (upd_sem i f k) = current_thread k"
  "threads (upd_mutex i g k) = threads k" "lists (upd_mutex i g k) = lists k" "timers (upd_mutex i g k) = timers k"
  "timer_list (upd_mutex i g k) = timer_list k" "ready_group (upd_mutex i g k) = ready_group k"
  "objects (upd_mutex i g k) = objects k" "current_thread (upd_mutex i g k) = current_thread k"
  "threads (upd_event i h k) = threads k" "lists (upd_event i h k) = lists k" "timers (upd_event i h k) = timers k"
  "timer_list (upd_event i h k) = timer_list k" "ready_group (upd_event i h k) = ready_group k"
  "objects (upd_event i h k) = objects k" "current_thread (upd_event i h k) = current_thread k"
  by (simp_all add: upd_sem_def upd_mutex_def upd_event_def)

lemma upd_queue_fields [simp]:
  "threads (upd_mailbox i f k) = threads k" "lists (upd_mailbox i f k) = lists k" "timers (upd_mailbox i f k) = timers k"
  "timer_list (upd_mailbox i f k) = timer_list k" "ready_group (upd_mailbox i f k) = ready_group k"
  "objects (upd_mailbox i f k) = objects k" "current_thread (upd_mailbox i f k) = current_thread k"
  "threads (upd_mq i g k) = threads k" "lists (upd_mq i g k) = lists k" "timers (upd_mq i g k) = timers k"
  "timer_list (upd_mq i g k) = timer_list k" "ready_group (upd_mq i g k) = ready_group k"
  "objects (upd_mq i g k) = objects k" "current_thread (upd_mq i g k) = current_thread k"
  by (simp_all add: upd_mailbox_def upd_mq_def)

text \<open>The five tables of objects, after an update of one of them.\<close>

lemma upd_tables [simp]:
  "sems (upd_sem i f k) = (sems k)(i := f (sems k i))" "mutexes (upd_sem i f k) = mutexes k"
  "events (upd_sem i f k) = events k" "mailboxes (upd_sem i f k) = mailboxes k" "mqueues (upd_sem i f k) = mqueues k"
  "mutexes (upd_mutex i g k) = (mutexes k)(i := g (mutexes k i))" "sems (upd_mutex i g k) = sems k"
  "events (upd_mutex i g k) = events k" "mailboxes (upd_mutex i g k) = mailboxes k" "mqueues (upd_mutex i g k) = mqueues k"
  "events (upd_event i h k) = (events k)(i := h (events k i))" "sems (upd_event i h k) = sems k"
  "mutexes (upd_event i h k) = mutexes k" "mailboxes (upd_event i h k) = mailboxes k" "mqueues (upd_event i h k) = mqueues k"
  "mailboxes (upd_mailbox i b k) = (mailboxes k)(i := b (mailboxes k i))" "sems (upd_mailbox i b k) = sems k"
  "mutexes (upd_mailbox i b k) = mutexes k" "events (upd_mailbox i b k) = events k" "mqueues (upd_mailbox i b k) = mqueues k"
  "mqueues (upd_mq i q k) = (mqueues k)(i := q (mqueues k i))" "sems (upd_mq i q k) = sems k"
  "mutexes (upd_mq i q k) = mutexes k" "events (upd_mq i q k) = events k" "mailboxes (upd_mq i q k) = mailboxes k"
  by (simp_all add: upd_sem_def upd_mutex_def upd_event_def upd_mailbox_def upd_mq_def)

lemma kinv_upd_ipc [simp]:
  "kinv (upd_sem i f k) \<longleftrightarrow> kinv k" "kinv (upd_mutex i g k) \<longleftrightarrow> kinv k" "kinv (upd_event i h k) \<longleftrightarrow> kinv k"
  "kinv (upd_mailbox i b k) \<longleftrightarrow> kinv k" "kinv (upd_mq i q k) \<longleftrightarrow> kinv k" "kinv (k\<lparr>halted := c\<rparr>) \<longleftrightarrow> kinv k"
  by (auto elim!: kinv_cong)

lemma kinv_object [simp]:
  "kinv (rt_object_detach ob k) \<longleftrightarrow> kinv k" "kinv (rt_object_delete ob k) \<longleftrightarrow> kinv k"
  "kinv (rt_object_allocate ob k) \<longleftrightarrow> kinv k"
  by (auto simp: rt_object_detach_def rt_object_delete_def rt_object_allocate_def elim!: kinv_cong)

lemma kinv_event_fields [simp]:
  "kinv (upd_thread t (\<lambda>th. th\<lparr>event_set := a, event_info := b\<rparr>) k) \<longleftrightarrow> kinv k"
  "kinv (upd_thread t (\<lambda>th. th\<lparr>event_set := event_set th AND c\<rparr>) k) \<longleftrightarrow> kinv k"
  by (auto elim!: kinv_cong)

lemma critical_fields [simp]:
  "threads (rt_object_init ob k) = threads k" "lists (rt_object_init ob k) = lists k"
  "timers (rt_object_init ob k) = timers k" "timer_list (rt_object_init ob k) = timer_list k"
  "ready_group (rt_object_init ob k) = ready_group k" "objects (rt_object_init ob k) = ob # objects k"
  "sems (rt_object_init ob k) = sems k" "mutexes (rt_object_init ob k) = mutexes k"
  "events (rt_object_init ob k) = events k" "mailboxes (rt_object_init ob k) = mailboxes k"
  "mqueues (rt_object_init ob k) = mqueues k"
  by (simp_all add: rt_object_init_def rt_exit_critical_def rt_enter_critical_def Let_def)

lemma kinv_object_init [simp]: "kinv (rt_object_init ob k) \<longleftrightarrow> kinv k"
  by (auto elim!: kinv_cong)

lemma kinv_drop_list:
  assumes inv: "kinv k" and l: "is_wait l"
  shows "kinv (upd_list l (\<lambda>_. []) k)"
proof (rule kinvI)
  show "ready_inv (upd_list l (\<lambda>_. []) k)"
    by (rule ready_inv_cong[OF kinvD(1)[OF inv]]) (use l in \<open>auto simp: is_wait_def\<close>)
  show "timer_inv (upd_list l (\<lambda>_. []) k)" by (rule timer_inv_cong[OF kinvD(2)[OF inv]]) simp_all
  show "wait_inv (upd_list l (\<lambda>_. []) k)"
    using wait_invD[OF kinvD(3)[OF inv]] by (intro wait_invI) (auto split: if_splits)
qed

lemma kinv_list_resume: "kinv k \<Longrightarrow> kinv (rt_ipc_list_resume l k)"
  by (auto simp: rt_ipc_list_resume_def kinv_resume split: list.split)

lemma kinv_resume_all: "kinv k \<Longrightarrow> kinv (rt_ipc_list_resume_all l k)"
proof -
  have "kinv k \<Longrightarrow> kinv (resume_all_loop n l k)" for n
    by (induction n arbitrary: k) (auto simp: kinv_resume split: list.split)
  then show "kinv k \<Longrightarrow> ?thesis" by (simp add: rt_ipc_list_resume_all_def)
qed

section \<open>Blocking\<close>

lemma prio_insert_set: "set (prio_insert prio t us) = insert t (set us)"
  by (induction us) auto

lemma prio_insert_distinct: "distinct us \<Longrightarrow> t \<notin> set us \<Longrightarrow> distinct (prio_insert prio t us)"
  by (induction us) (auto simp: prio_insert_set)

text \<open>A blocked thread joins one list: as a quiet step from the state in which it is there.\<close>

lemma suspend_event_fields [simp]:
  "event_set (threads (snd (rt_thread_suspend t k)) u) = event_set (threads k u)"
  "event_info (threads (snd (rt_thread_suspend t k)) u) = event_info (threads k u)"
  by (simp_all add: rt_thread_suspend_def Let_def remove_thread_fields)

lemma join_list_suspend: "is_wait l \<Longrightarrow> quiet (upd_list l (\<lambda>xs. t # xs) k) (rt_ipc_list_suspend l t flag k)"
proof -
  assume l: "is_wait l"
  note q = quiet_suspend[of k t]
  have ins: "quiet (upd_list l (\<lambda>xs. t # xs) k) (upd_list l ins (snd (rt_thread_suspend t k)))"
    if "\<And>xs. set (ins xs) = insert t (set xs)" for ins
    using q l that unfolding quiet_def by (auto simp: one_shot_def dest: subsetD)
  have none: "quiet (upd_list l (\<lambda>xs. t # xs) k) (snd (rt_thread_suspend t k))"
    using q l unfolding quiet_def by (auto simp: one_shot_def dest: subsetD)
  show ?thesis
    unfolding rt_ipc_list_suspend_def Let_def
    using ins[of "\<lambda>xs. xs @ [t]"] ins[of "prio_insert (\<lambda>u. current_priority (threads (snd (rt_thread_suspend t k)) u)) t"] none
    by (simp add: prio_insert_set)
qed

lemma join_block:
  "is_wait l \<Longrightarrow> quiet (upd_list l (\<lambda>xs. t # xs) k) (wait_time t time (rt_ipc_list_suspend l t flag k))"
  using join_list_suspend quiet_wait_time quiet_trans by blast

lemma list_suspend_inv:
  assumes inv: "kinv k" and rdy: "stat_of (threads k t) = RT_THREAD_READY" and l: "is_wait l"
  shows "kinv (rt_ipc_list_suspend l t flag k)"
    and "stat_of (threads (rt_ipc_list_suspend l t flag k) t) = RT_THREAD_SUSPEND"
proof -
  let ?k = "snd (rt_thread_suspend t k)"
  note s = suspend_state[OF inv rdy] and ki = kinv_suspend[OF inv, of t]
  have d: "distinct (lists ?k l)" using wait_invD(1)[OF kinvD(3)[OF ki], of l] l by (simp add: is_wait_def)
  have out: "t \<notin> set (lists ?k l)" using s(2) by (simp add: unqueued_def)
  have "kinv (upd_list l ins ?k)"
    if "set (ins (lists ?k l)) = insert t (set (lists ?k l))" "distinct (ins (lists ?k l))" for ins
    by (rule kinv_enqueue[OF ki s(1,2)]) (use l that in \<open>auto simp: is_wait_def\<close>)
  from this[of "\<lambda>xs. xs @ [t]"] this[of "prio_insert (\<lambda>u. current_priority (threads ?k u)) t"]
  show "kinv (rt_ipc_list_suspend l t flag k)"
    using d out ki by (simp add: rt_ipc_list_suspend_def Let_def prio_insert_set prio_insert_distinct)
  show "stat_of (threads (rt_ipc_list_suspend l t flag k) t) = RT_THREAD_SUSPEND"
    using s(1) by (simp add: rt_ipc_list_suspend_def Let_def)
qed

lemma kinv_wait_time:
  "kinv k \<Longrightarrow> stat_of (threads k t) = RT_THREAD_SUSPEND \<Longrightarrow> kinv (wait_time t time k)"
  by (simp add: wait_time_def kinv_start_thread_timer)

lemma kinv_block:
  "kinv k \<Longrightarrow> stat_of (threads k t) = RT_THREAD_READY \<Longrightarrow> is_wait l \<Longrightarrow>
     kinv (wait_time t time (rt_ipc_list_suspend l t flag k))"
  by (intro kinv_wait_time list_suspend_inv)

section \<open>Object invariants\<close>

text \<open>Nobody waits for a semaphore that is available.\<close>

definition sem_inv :: "kernel \<Rightarrow> bool" where
  "sem_inv k \<longleftrightarrow> (\<forall>i. lists k (SemQ i) \<noteq> [] \<longrightarrow> sem_value (sems k i) = 0)"

text \<open>
  A registered mutex is free (value 1, not held, nobody waits) or owned (value 0, held at least
  once, and its owner does not wait for it).
\<close>

definition mutex_ok :: "kernel \<Rightarrow> nat \<Rightarrow> bool" where
  "mutex_ok k i \<longleftrightarrow>
     (case owner (mutexes k i) of
        None \<Rightarrow> hold (mutexes k i) = 0 \<and> mutex_value (mutexes k i) = 1 \<and> lists k (MutexQ i) = []
      | Some t \<Rightarrow> hold (mutexes k i) \<noteq> 0 \<and> mutex_value (mutexes k i) = 0 \<and> t \<notin> set (lists k (MutexQ i)) \<and>
          unat (original_priority (mutexes k i)) < RT_THREAD_PRIORITY_MAX)"

definition mutex_inv :: "kernel \<Rightarrow> bool" where
  "mutex_inv k \<longleftrightarrow> (\<forall>i. OMutex i \<in> set (objects k) \<longrightarrow> mutex_ok k i)"

text \<open>A waiter for events has a valid option, and what it waits for is not there.\<close>

definition event_hit :: "u32 \<Rightarrow> rt_thread \<Rightarrow> bool" where
  "event_hit bits th \<longleftrightarrow>
     (if event_info th AND RT_EVENT_FLAG_AND \<noteq> 0 then event_set th AND bits = event_set th
      else event_set th AND bits \<noteq> 0)"

definition event_option :: "u8 \<Rightarrow> bool" where
  "event_option opt \<longleftrightarrow> opt AND RT_EVENT_FLAG_AND \<noteq> 0 \<or> opt AND RT_EVENT_FLAG_OR \<noteq> 0"

definition event_inv :: "kernel \<Rightarrow> bool" where
  "event_inv k \<longleftrightarrow> (\<forall>i. \<forall>t \<in> set (lists k (EventQ i)).
     event_option (event_info (threads k t)) \<and> \<not> event_hit (event_bits (events k i)) (threads k t))"

definition mailbox_inv :: "kernel \<Rightarrow> bool" where
  "mailbox_inv k \<longleftrightarrow> (\<forall>i. OMailbox i \<in> set (objects k) \<longrightarrow> mb_inv (mailboxes k i))"

definition ipc_inv :: "kernel \<Rightarrow> bool" where
  "ipc_inv k \<longleftrightarrow> sem_inv k \<and> mutex_inv k \<and> event_inv k \<and> mailbox_inv k"

lemma mutex_ok_quiet:
  assumes q: "quiet k k'" and ok: "mutex_ok k i"
  shows "mutex_ok k' i"
proof -
  have sub: "set (lists k' (MutexQ i)) \<subseteq> set (lists k (MutexQ i))" by (rule quietD(7)[OF q]) simp
  show ?thesis using ok sub quietD(2)[OF q] by (auto simp: mutex_ok_def split: option.splits)
qed

lemma event_hit_cong:
  "event_set th' = event_set th \<Longrightarrow> event_info th' = event_info th \<Longrightarrow> event_hit b th' = event_hit b th"
  by (simp add: event_hit_def)

lemma ipc_inv_quiet:
  assumes q: "quiet k k'" and inv: "ipc_inv k"
  shows "ipc_inv k'"
proof -
  have sub: "set (lists k' l) \<subseteq> set (lists k l)" if "is_wait l" for l using quietD(7)[OF q that] .
  have s: "sem_inv k'"
    unfolding sem_inv_def
  proof (intro allI impI)
    fix i assume "lists k' (SemQ i) \<noteq> []"
    then have "lists k (SemQ i) \<noteq> []" using sub[of "SemQ i"] by auto
    then show "sem_value (sems k' i) = 0" using inv quietD(1)[OF q] by (simp add: ipc_inv_def sem_inv_def)
  qed
  have m: "mutex_inv k'"
    using inv mutex_ok_quiet[OF q] quietD(6)[OF q] by (simp add: ipc_inv_def mutex_inv_def)
  have e: "event_inv k'"
    unfolding event_inv_def
  proof (intro allI ballI)
    fix i t assume t: "t \<in> set (lists k' (EventQ i))"
    then have "t \<in> set (lists k (EventQ i))" using sub[of "EventQ i"] by auto
    then show "event_option (event_info (threads k' t)) \<and> \<not> event_hit (event_bits (events k' i)) (threads k' t)"
      using inv quietD(3)[OF q] quietD(8,9)[OF q t] event_hit_cong[of "threads k' t" "threads k t"]
      by (simp add: ipc_inv_def event_inv_def)
  qed
  have "mailbox_inv k'"
    using inv quietD(4)[OF q] quietD(6)[OF q] by (simp add: ipc_inv_def mailbox_inv_def)
  with s m e show ?thesis by (simp add: ipc_inv_def)
qed

lemma ipc_inv_error [simp]: "ipc_inv (upd_thread t (\<lambda>th. th\<lparr>error := e\<rparr>) k) \<longleftrightarrow> ipc_inv k"
  by (rule iffI; erule ipc_inv_quiet[rotated]) (auto simp: quiet_def one_shot_def)

lemma ipc_inv_schedule [simp]: "ipc_inv (rt_schedule k) \<longleftrightarrow> ipc_inv k"
  by (rule iffI; erule ipc_inv_quiet[rotated]) (auto simp: quiet_def one_shot_def)

lemma ipc_inv_halted [simp]: "ipc_inv (k\<lparr>halted := b\<rparr>) \<longleftrightarrow> ipc_inv k"
  by (rule iffI; erule ipc_inv_quiet[rotated]) (auto simp: quiet_def one_shot_def)

text \<open>Joining a list that is not of an object the invariant constrains.\<close>

lemma ipc_inv_join:
  assumes inv: "ipc_inv k"
    and s: "\<And>i. l = SemQ i \<Longrightarrow> sem_value (sems k i) = 0"
    and m: "\<And>i. l = MutexQ i \<Longrightarrow> owner (mutexes k i) \<noteq> None \<and> owner (mutexes k i) \<noteq> Some t"
    and e: "\<And>i. l = EventQ i \<Longrightarrow>
      event_option (event_info (threads k t)) \<and> \<not> event_hit (event_bits (events k i)) (threads k t)"
  shows "ipc_inv (upd_list l (\<lambda>xs. t # xs) k)"
proof -
  have "mutex_ok (upd_list l (\<lambda>xs. t # xs) k) i" if "mutex_ok k i" for i
    using that m[of i] by (auto simp: mutex_ok_def split: option.splits)
  then show ?thesis
    using inv s e unfolding ipc_inv_def sem_inv_def mutex_inv_def event_inv_def mailbox_inv_def by auto
qed

lemma ipc_inv_block:
  assumes "ipc_inv k" and "is_wait l"
    and "\<And>i. l = SemQ i \<Longrightarrow> sem_value (sems k i) = 0"
    and "\<And>i. l = MutexQ i \<Longrightarrow> owner (mutexes k i) \<noteq> None \<and> owner (mutexes k i) \<noteq> Some t"
    and "\<And>i. l = EventQ i \<Longrightarrow>
      event_option (event_info (threads k t)) \<and> \<not> event_hit (event_bits (events k i)) (threads k t)"
  shows "ipc_inv (wait_time t time (rt_ipc_list_suspend l t flag k))"
  by (rule ipc_inv_quiet[OF join_block[OF assms(2)] ipc_inv_join[OF assms(1)]]) (use assms in auto)

text \<open>Updates of one object.\<close>

lemma mutex_ok_cong:
  "mutexes k' i = mutexes k i \<Longrightarrow> lists k' (MutexQ i) = lists k (MutexQ i) \<Longrightarrow> mutex_ok k' i = mutex_ok k i"
  by (cases "owner (mutexes k i)") (simp_all add: mutex_ok_def)

lemma mutex_ok_upd [simp]:
  "mutex_ok (upd_sem j f k) i = mutex_ok k i" "mutex_ok (upd_event j g k) i = mutex_ok k i"
  "mutex_ok (upd_mailbox j h k) i = mutex_ok k i" "mutex_ok (upd_mq j q k) i = mutex_ok k i"
  by (rule mutex_ok_cong; simp)+

lemma ipc_inv_upd_sem:
  "ipc_inv k \<Longrightarrow> lists k (SemQ i) = [] \<or> sem_value (f (sems k i)) = 0 \<Longrightarrow> ipc_inv (upd_sem i f k)"
  by (auto simp: ipc_inv_def sem_inv_def mutex_inv_def event_inv_def mailbox_inv_def)

lemma ipc_inv_upd_mutex:
  assumes "ipc_inv k" and "OMutex i \<in> set (objects k) \<Longrightarrow> mutex_ok (upd_mutex i f k) i"
  shows "ipc_inv (upd_mutex i f k)"
proof -
  have "mutex_ok (upd_mutex i f k) j = mutex_ok k j" if "j \<noteq> i" for j
    by (rule mutex_ok_cong) (use that in simp_all)
  then have "mutex_inv (upd_mutex i f k)"
    using assms unfolding ipc_inv_def mutex_inv_def by (metis upd_ipc_fields(13))
  then show ?thesis using assms(1) by (simp add: ipc_inv_def sem_inv_def event_inv_def mailbox_inv_def)
qed

lemma ipc_inv_upd_event:
  "ipc_inv k \<Longrightarrow> (\<And>t. t \<in> set (lists k (EventQ i)) \<Longrightarrow> \<not> event_hit (event_bits (f (events k i))) (threads k t)) \<Longrightarrow>
     ipc_inv (upd_event i f k)"
  by (auto simp: ipc_inv_def sem_inv_def mutex_inv_def event_inv_def mailbox_inv_def)

lemma ipc_inv_upd_mailbox:
  "ipc_inv k \<Longrightarrow> (OMailbox i \<in> set (objects k) \<Longrightarrow> mb_inv (f (mailboxes k i))) \<Longrightarrow> ipc_inv (upd_mailbox i f k)"
  by (auto simp: ipc_inv_def sem_inv_def mutex_inv_def event_inv_def mailbox_inv_def)

lemma ipc_inv_upd_mq [simp]: "ipc_inv (upd_mq i f k) \<longleftrightarrow> ipc_inv k"
  by (auto simp: ipc_inv_def sem_inv_def mutex_inv_def event_inv_def mailbox_inv_def)

text \<open>Clearing bits of an event satisfies nobody.\<close>

lemma event_hit_mono: "event_hit (b AND c) th \<Longrightarrow> event_hit b th"
proof -
  have "s AND b = s" if "s AND (b AND c) = s" for s :: u32
  proof -
    have "s AND b = (s AND (b AND c)) AND b" using that by simp
    also have "\<dots> = s AND (b AND c)" by (rule bit_word_eqI) (auto simp: bit_simps)
    finally show ?thesis using that by simp
  qed
  moreover have "s AND b \<noteq> 0" if "s AND (b AND c) \<noteq> 0" for s :: u32
  proof
    assume "s AND b = 0"
    then have "(s AND b) AND c = 0" by simp
    with that show False by (simp add: and.assoc)
  qed
  ultimately show "event_hit (b AND c) th \<Longrightarrow> ?thesis" by (auto simp: event_hit_def split: if_splits)
qed

section \<open>Waking one or all\<close>

lemma resume_suspended:
  assumes susp: "stat_of (threads k t) = RT_THREAD_SUSPEND" and l: "is_wait l"
  shows "threads (snd (rt_thread_resume t k)) = (threads k)(t := set_stat RT_THREAD_READY (threads k t))"
    and "lists (snd (rt_thread_resume t k)) l = removeAll t (lists k l)"
    and "halted (snd (rt_thread_resume t k)) = halted k"
    and "current_thread (snd (rt_thread_resume t k)) = current_thread k"
    and "\<And>p. lists (snd (rt_thread_resume t k)) (Ready p) =
      (if p = unat (current_priority (threads k t)) then removeAll t (lists k (Ready p)) @ [t]
       else removeAll t (lists k (Ready p)))"
  using susp l by (auto simp: rt_thread_resume_def Let_def insert_thread_fields is_wait_def rt_schedule_insert_thread_def)

lemma waiter_suspended:
  "kinv k \<Longrightarrow> is_wait l \<Longrightarrow> t \<in> set (lists k l) \<Longrightarrow> stat_of (threads k t) = RT_THREAD_SUSPEND"
  using wait_invD(3)[OF kinvD(3), of k l t] by (simp add: is_wait_def)

lemma waiters_distinct: "kinv k \<Longrightarrow> is_wait l \<Longrightarrow> distinct (lists k l)"
  using wait_invD(1)[OF kinvD(3)] by (simp add: is_wait_def)

lemma list_resume_first:
  assumes inv: "kinv k" and l: "is_wait l" and ts: "lists k l = t # ts"
  shows "threads (rt_ipc_list_resume l k) = (threads k)(t := set_stat RT_THREAD_READY (threads k t))"
    and "lists (rt_ipc_list_resume l k) l = ts"
    and "halted (rt_ipc_list_resume l k) = halted k"
    and "current_thread (rt_ipc_list_resume l k) = current_thread k"
    and "stat_of (threads k t) = RT_THREAD_SUSPEND"
proof -
  show susp: "stat_of (threads k t) = RT_THREAD_SUSPEND" using waiter_suspended[OF inv l, of t] ts by simp
  have "t \<notin> set ts" using waiters_distinct[OF inv l] ts by simp
  then show "lists (rt_ipc_list_resume l k) l = ts"
    using resume_suspended(2)[OF susp l] ts by (simp add: rt_ipc_list_resume_def removeAll_id)
  show "threads (rt_ipc_list_resume l k) = (threads k)(t := set_stat RT_THREAD_READY (threads k t))"
    "halted (rt_ipc_list_resume l k) = halted k" "current_thread (rt_ipc_list_resume l k) = current_thread k"
    using resume_suspended(1,3,4)[OF susp l] ts by (simp_all add: rt_ipc_list_resume_def)
qed

text \<open>A thread whose wait was cut short: ready, with an error to report.\<close>

definition cut_short :: "rt_thread \<Rightarrow> rt_thread" where
  "cut_short th = set_stat RT_THREAD_READY (th\<lparr>error := - RT_ERROR\<rparr>)"

lemma resume_all_effect:
  assumes inv: "kinv k" and l: "is_wait l"
  shows "lists (rt_ipc_list_resume_all l k) l = []"
    and "threads (rt_ipc_list_resume_all l k) =
      (\<lambda>t. if t \<in> set (lists k l) then cut_short (threads k t) else threads k t)"
    and "halted (rt_ipc_list_resume_all l k) = halted k"
    and "current_thread (rt_ipc_list_resume_all l k) = current_thread k"
proof -
  have "kinv k \<Longrightarrow> lists k l = ts \<Longrightarrow>
      lists (resume_all_loop (length ts) l k) l = [] \<and>
      threads (resume_all_loop (length ts) l k) =
        (\<lambda>t. if t \<in> set ts then cut_short (threads k t) else threads k t) \<and>
      halted (resume_all_loop (length ts) l k) = halted k \<and>
      current_thread (resume_all_loop (length ts) l k) = current_thread k" for ts
  proof (induction ts arbitrary: k)
    case (Cons t ts)
    let ?k1 = "upd_thread t (\<lambda>th. th\<lparr>error := - RT_ERROR\<rparr>) k"
    let ?k2 = "snd (rt_thread_resume t ?k1)"
    have susp: "stat_of (threads k t) = RT_THREAD_SUSPEND"
      using waiter_suspended[OF Cons.prems(1) l, of t] Cons.prems(2) by simp
    have d: "t \<notin> set ts" using waiters_distinct[OF Cons.prems(1) l] Cons.prems(2) by simp
    note r = resume_suspended[of ?k1 t l, OF _ l]
    have "kinv ?k2" using Cons.prems(1) by (intro kinv_resume) simp
    moreover have "lists ?k2 l = ts"
      using r(2) susp Cons.prems(2) d by (simp add: removeAll_id)
    ultimately show ?case
      using Cons.IH[of ?k2] r(1,3,4) susp Cons.prems(2) d
      by (auto simp: cut_short_def fun_eq_iff)
  qed simp
  from this[OF inv refl] show "lists (rt_ipc_list_resume_all l k) l = []"
    "threads (rt_ipc_list_resume_all l k) = (\<lambda>t. if t \<in> set (lists k l) then cut_short (threads k t) else threads k t)"
    "halted (rt_ipc_list_resume_all l k) = halted k" "current_thread (rt_ipc_list_resume_all l k) = current_thread k"
    by (simp_all add: rt_ipc_list_resume_all_def)
qed

lemma ipc_inv_resume_all: "ipc_inv k \<Longrightarrow> ipc_inv (rt_ipc_list_resume_all l k)"
  by (rule ipc_inv_quiet[OF quiet_resume_all])

lemma ipc_inv_list_resume: "ipc_inv k \<Longrightarrow> ipc_inv (rt_ipc_list_resume l k)"
  by (rule ipc_inv_quiet[OF quiet_list_resume])

text \<open>Registering an object; dropping a wait list.\<close>

lemma ipc_inv_init_list:
  assumes "ipc_inv k" and "\<And>i. l \<noteq> MutexQ i"
  shows "ipc_inv (rt_ipc_object_init l k)"
proof (rule ipc_inv_quiet[OF _ assms(1)])
  show "quiet k (rt_ipc_object_init l k)"
    by (auto simp: quiet_def one_shot_def rt_ipc_object_init_def)
qed

lemma ipc_inv_object: "ipc_inv k \<Longrightarrow> ipc_inv (rt_object_detach ob k)" "ipc_inv k \<Longrightarrow> ipc_inv (rt_object_delete ob k)"
  using ipc_inv_quiet[OF quiet_object(1)] ipc_inv_quiet[OF quiet_object(2)] by blast+

text \<open>The thread that makes a call.\<close>

definition running :: "kernel \<Rightarrow> tid \<Rightarrow> bool" where
  "running k t \<longleftrightarrow> current_thread k = Some t \<and> stat_of (threads k t) = RT_THREAD_READY"

lemma running_self [simp]: "running k t \<Longrightarrow> rt_thread_self k = Some t"
  by (simp add: running_def rt_thread_self_def)

lemma schedule_current:
  assumes inv: "kinv k" and "lock_nest k = 0" and ready: "stat_of (threads k u) = RT_THREAD_READY"
  obtains t where "current_thread (rt_schedule k) = Some t" and "most_urgent k t"
proof -
  obtain p t ts where p: "highest_ready_priority k = Some p" "lists k (Ready p) = t # ts"
    "\<And>q. q < p \<Longrightarrow> lists k (Ready q) = []"
    using highest_ready_spec[OF kinvD(1)[OF inv] ready] by metis
  have "current_thread (rt_schedule k) = Some t"
    using p(1,2) assms(2) by (auto simp: rt_schedule_def rt_scheduler_stack_check_def Let_def)
  then show thesis using highest_ready_most_urgent(1)[OF kinvD(1)[OF inv] p] that by blast
qed

lemma most_urgent_schedule [simp]: "most_urgent (rt_schedule k) t \<longleftrightarrow> most_urgent k t"
  by (simp add: most_urgent_def)

lemma lock_nest_frames [simp]:
  "lock_nest (snd (rt_thread_resume t k)) = lock_nest k" "lock_nest (rt_ipc_list_resume l k) = lock_nest k"
  "lock_nest (snd (rt_thread_suspend t k)) = lock_nest k"
  by (simp_all add: rt_thread_resume_def rt_thread_suspend_def rt_ipc_list_resume_def Let_def
      rt_schedule_insert_thread_def rt_schedule_remove_thread_def split: list.split)

text \<open>What a blocking call leaves behind.\<close>

lemma list_suspend_effect:
  assumes inv: "kinv k" and rdy: "stat_of (threads k t) = RT_THREAD_READY" and l: "is_wait l"
  shows "threads (rt_ipc_list_suspend l t flag k) = (threads k)(t := set_stat RT_THREAD_SUSPEND (threads k t))"
    and "lists (rt_ipc_list_suspend l t flag k) l =
      (if flag = RT_IPC_FLAG_FIFO then lists k l @ [t]
       else if flag = RT_IPC_FLAG_PRIO then prio_insert (\<lambda>u. current_priority (threads k u)) t (lists k l)
       else lists k l)"
    and "\<not> active (rt_ipc_list_suspend l t flag k) (ThreadTimer t)"
    and "tick (rt_ipc_list_suspend l t flag k) = tick k"
    and "lock_nest (rt_ipc_list_suspend l t flag k) = lock_nest k"
proof -
  have out: "t \<notin> set (lists k l)" using ready_not_waiting[OF inv rdy] l by (simp add: is_wait_def)
  have th: "threads (snd (rt_thread_suspend t k)) = (threads k)(t := set_stat RT_THREAD_SUSPEND (threads k t))"
    "lists (snd (rt_thread_suspend t k)) l = lists k l" "tick (snd (rt_thread_suspend t k)) = tick k"
    using rdy out by (simp_all add: rt_thread_suspend_def Let_def remove_thread_fields removeAll_id
        rt_schedule_remove_thread_def)
  have pr: "(\<lambda>u. current_priority (threads (snd (rt_thread_suspend t k)) u)) = (\<lambda>u. current_priority (threads k u))"
    by (auto simp: th(1) fun_eq_iff)
  show "threads (rt_ipc_list_suspend l t flag k) = (threads k)(t := set_stat RT_THREAD_SUSPEND (threads k t))"
    "tick (rt_ipc_list_suspend l t flag k) = tick k"
    "lock_nest (rt_ipc_list_suspend l t flag k) = lock_nest k"
    using th(1,3) by (simp_all add: rt_ipc_list_suspend_def Let_def)
  show "\<not> active (rt_ipc_list_suspend l t flag k) (ThreadTimer t)"
    using suspend_state(3)[OF inv rdy] by (simp add: rt_ipc_list_suspend_def Let_def active_def)
  show "lists (rt_ipc_list_suspend l t flag k) l =
      (if flag = RT_IPC_FLAG_FIFO then lists k l @ [t]
       else if flag = RT_IPC_FLAG_PRIO then prio_insert (\<lambda>u. current_priority (threads k u)) t (lists k l)
       else lists k l)"
    by (simp add: rt_ipc_list_suspend_def Let_def th(2) pr)
qed

text \<open>
  A thread that waits in \<open>l\<close>: suspended, in its place, with a timer for a positive
  waiting time only.
\<close>

definition waits_in :: "list_id \<Rightarrow> tid \<Rightarrow> u8 \<Rightarrow> u32 \<Rightarrow> kernel \<Rightarrow> kernel \<Rightarrow> bool" where
  "waits_in l t flag time k k' \<longleftrightarrow>
     stat_of (threads k' t) = RT_THREAD_SUSPEND \<and>
     lists k' l = (if flag = RT_IPC_FLAG_FIFO then lists k l @ [t]
       else if flag = RT_IPC_FLAG_PRIO then prio_insert (\<lambda>u. current_priority (threads k u)) t (lists k l)
       else lists k l) \<and>
     (active k' (ThreadTimer t) \<longleftrightarrow> 0 < sint time) \<and>
     (0 < sint time \<longrightarrow> timeout_tick (timers k' (ThreadTimer t)) = tick k + time) \<and>
     (\<forall>u. u \<noteq> t \<longrightarrow> threads k' u = threads k u)"

lemma block_effect:
  fixes flag :: u8 and time :: u32
  assumes inv: "kinv k" and rdy: "stat_of (threads k t) = RT_THREAD_READY" and l: "is_wait l"
  defines "k' \<equiv> wait_time t time (rt_ipc_list_suspend l t flag k)"
  shows "waits_in l t flag time k k'" and "error (threads k' t) = error (threads k t)"
proof -
  note e = list_suspend_effect[OF inv rdy l, of flag]
  have th: "threads k' = threads (rt_ipc_list_suspend l t flag k)" "lists k' = lists (rt_ipc_list_suspend l t flag k)"
    by (simp_all add: k'_def wait_time_def start_thread_timer_eq)
  have act: "active k' (ThreadTimer t) \<longleftrightarrow> 0 < sint time"
    using e(3) by (simp add: k'_def wait_time_def start_thread_timer_eq active_cong[of "rt_schedule _"] rt_timer_start_state(2))
  have "timeout_tick (timers k' (ThreadTimer t)) = tick k + time" if "0 < sint time"
    using that e(4) by (simp add: k'_def wait_time_def start_thread_timer_eq rt_timer_start_state(3))
  with th act e(1,2) show "waits_in l t flag time k k'" by (auto simp: waits_in_def)
  show "error (threads k' t) = error (threads k t)" by (simp add: th e(1))
qed

end
