(* ===== verification/Ipc_Sem.thy ===== *)
theory Ipc_Sem
  imports Ipc_Inv
begin

text \<open>
  Semaphores: the calls keep the invariants; a release hands its unit to the first waiter; a
  take without a unit blocks the caller in its place.
\<close>

section \<open>The calls keep the invariants\<close>

lemma sem_take_inv:
  assumes "kinv k" and "ipc_inv k" and r: "running k t"
  shows "kinv (snd (rt_sem_take i time k))" and "ipc_inv (snd (rt_sem_take i time k))"
proof -
  let ?k = "upd_thread t (\<lambda>th. th\<lparr>error := RT_EOK\<rparr>) k"
  have rdy: "stat_of (threads ?k t) = RT_THREAD_READY" using r by (simp add: running_def)
  have k: "kinv ?k" "ipc_inv ?k" using assms by simp_all
  have free: "sem_value (sems k i) > 0 \<Longrightarrow> lists k (SemQ i) = []"
    using assms(2) by (auto simp: ipc_inv_def sem_inv_def)
  show "kinv (snd (rt_sem_take i time k))"
    using assms kinv_block[OF k(1) rdy, of "SemQ i"] by (simp add: rt_sem_take_def Let_def)
  show "ipc_inv (snd (rt_sem_take i time k))"
    using assms free ipc_inv_block[OF k(2), of "SemQ i" t]
    by (auto simp: rt_sem_take_def Let_def word_gt_0 intro!: ipc_inv_upd_sem)
qed

lemma sem_release_inv:
  assumes "kinv k" and "ipc_inv k"
  shows "kinv (snd (rt_sem_release i k))" and "ipc_inv (snd (rt_sem_release i k))"
  using assms
  by (auto simp: rt_sem_release_def kinv_list_resume ipc_inv_list_resume intro!: ipc_inv_upd_sem)

lemma sem_control_inv:
  assumes "kinv k" and "ipc_inv k"
  shows "kinv (snd (rt_sem_control i cmd arg k))" and "ipc_inv (snd (rt_sem_control i cmd arg k))"
  using assms resume_all_effect(1)[OF assms(1), of "SemQ i"]
  by (auto simp: rt_sem_control_def Let_def kinv_resume_all ipc_inv_resume_all intro!: ipc_inv_upd_sem)

lemma sem_detach_inv:
  assumes "kinv k" and "ipc_inv k"
  shows "kinv (snd (rt_sem_detach i k))" and "ipc_inv (snd (rt_sem_detach i k))"
    and "kinv (snd (rt_sem_delete i k))" and "ipc_inv (snd (rt_sem_delete i k))"
  using assms
  by (auto simp: rt_sem_detach_def rt_sem_delete_def Let_def kinv_resume_all ipc_inv_resume_all intro!: ipc_inv_object)

lemma ipc_inv_register_sem:
  assumes "ipc_inv k"
  shows "ipc_inv (rt_object_init (OSem i) k)" and "ipc_inv (rt_object_allocate (OSem i) k)"
proof -
  have ok: "mutex_ok (rt_object_init (OSem i) k) j = mutex_ok k j"
    "mutex_ok (rt_object_allocate (OSem i) k) j = mutex_ok k j" for j
    by (rule mutex_ok_cong; simp add: rt_object_allocate_def)+
  show "ipc_inv (rt_object_init (OSem i) k)"
    using assms ok by (simp add: ipc_inv_def sem_inv_def mutex_inv_def event_inv_def mailbox_inv_def)
  show "ipc_inv (rt_object_allocate (OSem i) k)"
    using assms ok unfolding ipc_inv_def sem_inv_def mutex_inv_def event_inv_def mailbox_inv_def
    by (simp add: rt_object_allocate_def)
qed

lemma sem_init_inv:
  assumes "kinv k" and "ipc_inv k"
  shows "kinv (snd (rt_sem_init i v flag k))" and "ipc_inv (snd (rt_sem_init i v flag k))"
    and "kinv (snd (rt_sem_create mem v flag k))" and "ipc_inv (snd (rt_sem_create mem v flag k))"
proof -
  note reg = ipc_inv_register_sem[OF assms(2)]
  show "kinv (snd (rt_sem_init i v flag k))" "kinv (snd (rt_sem_create mem v flag k))"
    using assms kinv_drop_list
    by (auto simp: rt_sem_init_def rt_sem_create_def rt_ipc_object_init_def Let_def split: option.split)
  have "ipc_inv (rt_ipc_object_init (SemQ i) (rt_object_init (OSem i) k))"
    "\<And>j. ipc_inv (rt_ipc_object_init (SemQ j) (rt_object_allocate (OSem j) k))"
    using ipc_inv_register_sem[OF assms(2)] by (auto intro: ipc_inv_init_list)
  then show "ipc_inv (snd (rt_sem_init i v flag k))" "ipc_inv (snd (rt_sem_create mem v flag k))"
    using assms(2)
    by (auto simp: rt_sem_init_def rt_sem_create_def Let_def rt_ipc_object_init_def split: option.split
        intro!: ipc_inv_upd_sem)
qed

section \<open>Properties\<close>

text \<open>C15. A release with waiters hands the unit over: \<open>rt_sem_release\<close> succeeds, the first
  waiter leaves the list, becomes ready and keeps its error code, so that its take reports what
  the code said when it went to sleep; the others stay in order and no other control block
  changes; the value stays 0, so no thread that comes later can take the unit; and afterwards a
  most urgent ready thread runs.\<close>

theorem rt_sem_release_hands_over:
  assumes inv: "kinv k" "ipc_inv k" and ts: "lists k (SemQ i) = t # ts" and free: "lock_nest k = 0"
  shows "\<exists>k' r. rt_sem_release i k = (RT_EOK, k') \<and> lists k' (SemQ i) = ts \<and>
    threads k' = (threads k)(t := set_stat RT_THREAD_READY (threads k t)) \<and>
    rt_sem_take_resume t k' = rt_sem_take_resume t k \<and>
    sem_value (sems k' i) = 0 \<and> current_thread k' = Some r \<and> most_urgent k' r \<and> kinv k' \<and> ipc_inv k'"
proof -
  let ?k = "rt_ipc_list_resume (SemQ i) k"
  have l: "is_wait (SemQ i)" by simp
  note r = list_resume_first[OF inv(1) l ts]
  have k: "kinv ?k" "ipc_inv ?k" using inv by (simp_all add: kinv_list_resume ipc_inv_list_resume)
  have "stat_of (threads ?k t) = RT_THREAD_READY" by (simp add: r(1))
  then obtain u where "current_thread (rt_schedule ?k) = Some u" "most_urgent ?k u"
    using schedule_current[OF k(1)] free by auto
  moreover have "rt_sem_release i k = (RT_EOK, rt_schedule ?k)" using ts by (simp add: rt_sem_release_def)
  moreover have "sem_value (sems ?k i) = 0"
    using inv(2) ts quietD(1)[OF quiet_list_resume[of k "SemQ i"]] by (simp add: ipc_inv_def sem_inv_def)
  ultimately show ?thesis
    using r k by (intro exI[of _ "rt_schedule ?k"] exI[of _ u]) (simp add: rt_sem_take_resume_def)
qed

text \<open>A take without a unit waits: with the value at 0 and a waiting time other than 0,
  \<open>rt_sem_take\<close> suspends the calling thread in its place of the wait list (last, or before
  the first less urgent waiter), starts its timer for the given number of ticks exactly when the
  time is positive, changes no other control block, and leaves the value at 0 and the kernel
  consistent; until an error is recorded, waking up means success.\<close>

theorem rt_sem_take_waits:
  assumes inv: "kinv k" "ipc_inv k" and run: "running k t" and none: "sem_value (sems k i) = 0" and time: "time \<noteq> 0"
  shows "\<exists>k'. rt_sem_take i time k = (Blocked, k') \<and>
    waits_in (SemQ i) t (sem_flag (sems k i)) time (upd_thread t (\<lambda>th. th\<lparr>error := RT_EOK\<rparr>) k) k' \<and>
    rt_sem_take_resume t k' = RT_EOK \<and> sems k' = sems k \<and> kinv k' \<and> ipc_inv k'"
proof -
  let ?k = "upd_thread t (\<lambda>th. th\<lparr>error := RT_EOK\<rparr>) k"
  let ?k' = "wait_time t time (rt_ipc_list_suspend (SemQ i) t (sem_flag (sems k i)) ?k)"
  have rdy: "stat_of (threads ?k t) = RT_THREAD_READY" using run by (simp add: running_def)
  have k: "kinv ?k" "ipc_inv ?k" using inv by simp_all
  note b = block_effect[OF k(1) rdy, where l = "SemQ i" and flag = "sem_flag (sems k i)" and time = time, simplified]
  have eq: "rt_sem_take i time k = (Blocked, ?k')"
    using run none time by (simp add: rt_sem_take_def Let_def)
  have "sems ?k' = sems k" using quietD(1)[OF join_block[of "SemQ i" t ?k time "sem_flag (sems k i)"]] by simp
  moreover have "kinv ?k'" "ipc_inv ?k'" using sem_take_inv[OF inv run, of i time] eq by simp_all
  moreover have "rt_sem_take_resume t ?k' = RT_EOK" using b(2) by (simp add: rt_sem_take_resume_def)
  ultimately show ?thesis using eq b(1) by (intro exI[of _ ?k']) simp
qed

section \<open>Witnesses\<close>

text \<open>Two threads of priorities 3 and 4, the first of them running.\<close>

definition two_threads :: kernel where
  "two_threads =
     rt_schedule (rt_schedule_insert_thread 2 (rt_schedule_insert_thread 1
       (upd_thread 2 (\<lambda>th. th\<lparr>current_priority := 4, number_mask := push_bit 4 1, sp := 1, stack_mark := 0x23, stack_size := 9\<rparr>)
         (upd_thread 1 (\<lambda>th. th\<lparr>current_priority := 3, number_mask := push_bit 3 1, sp := 1, stack_mark := 0x23, stack_size := 9\<rparr>)
           kernel_bss))))"

lemma kinv_two_threads: "kinv two_threads"
proof -
  let ?k0 = "upd_thread 2 (\<lambda>th. th\<lparr>current_priority := 4, number_mask := push_bit 4 1, sp := 1, stack_mark := 0x23, stack_size := 9\<rparr>)
         (upd_thread 1 (\<lambda>th. th\<lparr>current_priority := 3, number_mask := push_bit 3 1, sp := 1, stack_mark := 0x23, stack_size := 9\<rparr>)
           kernel_bss)"
  have "ready_inv_except {1, 2} ?k0"
    by (rule ready_invI) (auto simp: kernel_bss_def zero_thread_def stat_of_def rt_stats)
  then have "ready_inv_except ({1, 2} - {1}) (rt_schedule_insert_thread 1 ?k0)"
    by (rule ready_inv_insert) (auto simp: wf_prio_def RT_THREAD_PRIORITY_MAX_def)
  then have "ready_inv_except ({2} - {2}) (rt_schedule_insert_thread 2 (rt_schedule_insert_thread 1 ?k0))"
    by (intro ready_inv_insert) (auto simp: wf_prio_def RT_THREAD_PRIORITY_MAX_def insert_thread_fields)
  moreover have "timer_inv (rt_schedule_insert_thread 2 (rt_schedule_insert_thread 1 ?k0))"
    by (simp add: timer_inv_def active_def rt_schedule_insert_thread_def Let_def kernel_bss_def)
  moreover have "wait_inv (rt_schedule_insert_thread 2 (rt_schedule_insert_thread 1 ?k0))"
    by (rule wait_invI)
      (auto simp: insert_thread_fields active_def rt_schedule_insert_thread_def Let_def kernel_bss_def
        zero_thread_def stat_of_def set_stat_def rt_stats wf_prio_def is_ready_def split: if_splits)
  ultimately show ?thesis unfolding two_threads_def kinv_schedule by (intro kinvI) simp_all
qed

lemma two_threads_running: "running two_threads 1" "lock_nest two_threads = 0"
  by code_simp+

lemma ipc_two_threads: "ipc_inv two_threads"
proof -
  have "ipc_inv kernel_bss"
    by (simp add: ipc_inv_def sem_inv_def mutex_inv_def event_inv_def mailbox_inv_def kernel_bss_def)
  then show ?thesis
    unfolding two_threads_def ipc_inv_schedule
    by (intro ipc_inv_quiet[OF quiet_insert_thread] ipc_inv_quiet[OF quiet_upd_thread]) simp_all
qed

text \<open>Thread 1 has begun to wait for semaphore 7.\<close>

definition sem_waiting :: kernel where
  "sem_waiting = snd (rt_sem_take 7 RT_WAITING_FOREVER two_threads)"

lemma sem_waiting_eval: "lists sem_waiting (SemQ 7) = [1]" "lock_nest sem_waiting = 0"
  by code_simp+

lemma sem_waiting_inv: "kinv sem_waiting" "ipc_inv sem_waiting"
  unfolding sem_waiting_def by (rule sem_take_inv[OF kinv_two_threads ipc_two_threads two_threads_running(1)])+

theorem rt_sem_release_hands_over_witness:
  "\<exists>k' r. rt_sem_release 7 sem_waiting = (RT_EOK, k') \<and> lists k' (SemQ 7) = [] \<and>
    threads k' = (threads sem_waiting)(1 := set_stat RT_THREAD_READY (threads sem_waiting 1)) \<and>
    rt_sem_take_resume 1 k' = rt_sem_take_resume 1 sem_waiting \<and>
    sem_value (sems k' 7) = 0 \<and> current_thread k' = Some r \<and> most_urgent k' r \<and> kinv k' \<and> ipc_inv k'"
  by (rule rt_sem_release_hands_over[OF sem_waiting_inv sem_waiting_eval])

theorem rt_sem_take_waits_witness:
  "\<exists>k'. rt_sem_take 7 10 two_threads = (Blocked, k') \<and>
    waits_in (SemQ 7) 1 (sem_flag (sems two_threads 7)) 10 (upd_thread 1 (\<lambda>th. th\<lparr>error := RT_EOK\<rparr>) two_threads) k' \<and>
    rt_sem_take_resume 1 k' = RT_EOK \<and> sems k' = sems two_threads \<and> kinv k' \<and> ipc_inv k'"
proof -
  have "sem_value (sems two_threads 7) = 0" by code_simp
  then show ?thesis
    by (intro rt_sem_take_waits[OF kinv_two_threads ipc_two_threads two_threads_running(1)]) simp_all
qed

end
