(* ===== verification/Ipc_Mutex.thy ===== *)
theory Ipc_Mutex
  imports Ipc_Sem
begin

text \<open>
  Mutexes: the calls keep the invariants; a release by the owner restores its priority and makes
  the first waiter the owner; a take of an owned mutex lends the owner the priority of the caller.
  With two mutexes the lent priority can outlive the mutex it was lent for.
\<close>

section \<open>Updates of a mutex commute with the moves of threads\<close>

lemma upd_mutex_upd_mutex: "upd_mutex i f (upd_mutex i g k) = upd_mutex i (\<lambda>m. f (g m)) k"
  by (simp add: upd_mutex_def)

lemma upd_mutex_cong: "f (mutexes k i) = g (mutexes k i) \<Longrightarrow> upd_mutex i f k = upd_mutex i g k"
  by (simp add: upd_mutex_def)

lemma upd_mutex_timer_stop: "snd (rt_timer_stop m (upd_mutex i f k)) = upd_mutex i f (snd (rt_timer_stop m k))"
  by (simp add: rt_timer_stop_def rt_timer_deactivate_def rt_timer_remove_def upd_timer_def upd_mutex_def)

lemma upd_mutex_insert: "rt_schedule_insert_thread t (upd_mutex i f k) = upd_mutex i f (rt_schedule_insert_thread t k)"
  by (simp add: rt_schedule_insert_thread_def Let_def upd_thread_def upd_list_def upd_mutex_def)

lemma upd_mutex_remove: "rt_schedule_remove_thread t (upd_mutex i f k) = upd_mutex i f (rt_schedule_remove_thread t k)"
  by (simp add: rt_schedule_remove_thread_def Let_def tlist_remove_def upd_mutex_def)

lemma upd_mutex_tlist: "tlist_remove t (upd_mutex i f k) = upd_mutex i f (tlist_remove t k)"
  by (simp add: tlist_remove_def upd_mutex_def)

lemma upd_mutex_thread: "upd_thread t g (upd_mutex i f k) = upd_mutex i f (upd_thread t g k)"
  by (simp add: upd_thread_def upd_mutex_def)

lemmas upd_mutex_commute = upd_mutex_timer_stop upd_mutex_insert upd_mutex_remove upd_mutex_tlist upd_mutex_thread

lemma upd_mutex_resume: "lists k l \<noteq> [] \<Longrightarrow> rt_ipc_list_resume l (upd_mutex i f k) = upd_mutex i f (rt_ipc_list_resume l k)"
  by (auto simp: rt_ipc_list_resume_def rt_thread_resume_def Let_def upd_mutex_commute split: list.split)

lemma upd_mutex_change_priority: "change_priority t p (upd_mutex i f k) = upd_mutex i f (change_priority t p k)"
  by (simp add: change_priority_def Let_def upd_mutex_commute)

section \<open>Priorities\<close>

lemma change_priority_effect:
  shows "current_priority (threads (change_priority t p k) t) = p"
    and "stat_of (threads (change_priority t p k) u) = stat_of (threads k u)"
    and "error (threads (change_priority t p k) u) = error (threads k u)"
    and "u \<noteq> t \<Longrightarrow> threads (change_priority t p k) u = threads k u"
    and "mutexes (change_priority t p k) = mutexes k"
    and "lock_nest (change_priority t p k) = lock_nest k"
    and "current_thread (change_priority t p k) = current_thread k"
    and "halted (change_priority t p k) = halted k"
  by (auto simp: change_priority_def Let_def insert_thread_fields remove_thread_fields
      rt_schedule_insert_thread_def rt_schedule_remove_thread_def)

lemma change_priority_waiters:
  assumes inv: "kinv k" and l: "is_wait l"
  shows "lists (change_priority t p k) l = lists k l"
proof (cases "stat_of (threads k t) = RT_THREAD_READY")
  case True
  then have "t \<notin> set (lists k l)" using ready_not_waiting[OF inv True] l by (simp add: is_wait_def)
  then show ?thesis
    using l by (auto simp: change_priority_def Let_def insert_thread_fields remove_thread_fields is_wait_def removeAll_id)
qed (simp add: change_priority_def)

text \<open>The priority that the owner drops to when it releases.\<close>

definition restored :: "tid \<Rightarrow> nat \<Rightarrow> kernel \<Rightarrow> kernel" where
  "restored t i k =
     (if original_priority (mutexes k i) \<noteq> current_priority (threads k t)
      then change_priority t (original_priority (mutexes k i)) k else k)"

lemma restored_effect:
  assumes inv: "kinv k" "ipc_inv k" and own: "owner (mutexes k i) = Some t" and reg: "OMutex i \<in> set (objects k)"
  shows "kinv (restored t i k)" and "ipc_inv (restored t i k)"
    and "lists (restored t i k) (MutexQ j) = lists k (MutexQ j)"
    and "current_priority (threads (restored t i k) t) = original_priority (mutexes k i)"
    and "stat_of (threads (restored t i k) u) = stat_of (threads k u)"
    and "error (threads (restored t i k) u) = error (threads k u)"
    and "u \<noteq> t \<Longrightarrow> threads (restored t i k) u = threads k u"
    and "mutexes (restored t i k) = mutexes k" and "lock_nest (restored t i k) = lock_nest k"
    and "current_thread (restored t i k) = current_thread k" and "halted (restored t i k) = halted k"
proof -
  have "unat (original_priority (mutexes k i)) < RT_THREAD_PRIORITY_MAX"
    using inv(2) own reg by (simp add: ipc_inv_def mutex_inv_def mutex_ok_def split: option.splits)
  then show "kinv (restored t i k)" using kinv_change_priority[OF inv(1)] inv(1) by (simp add: restored_def)
  show "ipc_inv (restored t i k)"
    using ipc_inv_quiet[OF quiet_change_priority] inv(2) by (simp add: restored_def)
  show "lists (restored t i k) (MutexQ j) = lists k (MutexQ j)"
    using change_priority_waiters[OF inv(1)] by (simp add: restored_def)
qed (auto simp: restored_def change_priority_effect)

section \<open>The calls in closed form\<close>

lemma rt_mutex_release_owner:
  assumes run: "running k t" and own: "owner (mutexes k i) = Some t"
  shows "rt_mutex_release i k =
    (if hold (mutexes k i) - 1 \<noteq> 0 then (RT_EOK, upd_mutex i (\<lambda>m. m\<lparr>hold := hold m - 1\<rparr>) k)
     else case lists (restored t i k) (MutexQ i) of
       u # _ \<Rightarrow> (RT_EOK, rt_schedule (upd_mutex i (\<lambda>m. m\<lparr>hold := 1, owner := Some u,
           original_priority := current_priority (threads (restored t i k) u)\<rparr>)
           (rt_ipc_list_resume (MutexQ i) (restored t i k))))
     | [] \<Rightarrow> if mutex_value (mutexes k i) < RT_MUTEX_VALUE_MAX
         then (RT_EOK, upd_mutex i (\<lambda>m. m\<lparr>hold := 0, mutex_value := mutex_value m + 1, owner := None,
           original_priority := 0xff\<rparr>) (restored t i k))
         else (- RT_EFULL, upd_mutex i (\<lambda>m. m\<lparr>hold := 0\<rparr>) (restored t i k)))"
proof (cases "hold (mutexes k i) - 1 = 0")
  case False
  then show ?thesis using run own by (simp add: rt_mutex_release_def Let_def)
next
  case True
  let ?dec = "\<lambda>m. m\<lparr>hold := hold m - 1\<rparr>"
  have "(let k = upd_mutex i ?dec k in
      if original_priority (mutexes k i) \<noteq> current_priority (threads k t)
      then snd (rt_thread_control t 0x02 (original_priority (mutexes k i)) k) else k) = upd_mutex i ?dec (restored t i k)"
    by (simp add: restored_def rt_thread_control_def upd_mutex_change_priority Let_def)
  then have step: "rt_mutex_release i k =
      (let k = upd_mutex i ?dec (restored t i k) in
       case lists k (MutexQ i) of
         u # _ \<Rightarrow>
           (let k = upd_mutex i (\<lambda>m. m\<lparr>owner := Some u, original_priority := current_priority (threads k u)\<rparr>) k
            in if hold (mutexes k i) < RT_MUTEX_HOLD_MAX then
                 (let k = upd_mutex i (\<lambda>m. m\<lparr>hold := hold m + 1\<rparr>) k
                  in (RT_EOK, rt_schedule (rt_ipc_list_resume (MutexQ i) k)))
               else (- RT_EFULL, k))
       | [] \<Rightarrow>
           if mutex_value (mutexes k i) < RT_MUTEX_VALUE_MAX then
             (RT_EOK, upd_mutex i (\<lambda>m. m\<lparr>mutex_value := mutex_value m + 1, owner := None, original_priority := 0xff\<rparr>) k)
           else (- RT_EFULL, k))"
    using run own True by (simp add: rt_mutex_release_def Let_def)
  have m: "mutexes (restored t i k) = mutexes k" by (simp add: restored_def change_priority_effect)
  show ?thesis
  proof (cases "lists (restored t i k) (MutexQ i)")
    case Nil
    then show ?thesis
      using True m by (auto simp: step Let_def upd_mutex_upd_mutex intro!: upd_mutex_cong)
  next
    case (Cons u us)
    let ?r = "rt_ipc_list_resume (MutexQ i) (restored t i k)"
    have "mutexes ?r = mutexes k" using quietD(2)[OF quiet_list_resume] m by simp
    then have "upd_mutex i (\<lambda>m. m\<lparr>hold := hold m - 1, owner := Some u, original_priority := p, hold := hold m - 1 + 1\<rparr>) ?r =
        upd_mutex i (\<lambda>m. m\<lparr>hold := 1, owner := Some u, original_priority := p\<rparr>) ?r" for p
      using True by (intro upd_mutex_cong) simp
    then show ?thesis
      using True m Cons by (simp add: step Let_def upd_mutex_upd_mutex upd_mutex_resume RT_MUTEX_HOLD_MAX_def)
  qed
qed

lemma mutex_okI_owned:
  "owner (mutexes k i) = Some t \<Longrightarrow> hold (mutexes k i) \<noteq> 0 \<Longrightarrow> mutex_value (mutexes k i) = 0 \<Longrightarrow>
     t \<notin> set (lists k (MutexQ i)) \<Longrightarrow> unat (original_priority (mutexes k i)) < RT_THREAD_PRIORITY_MAX \<Longrightarrow> mutex_ok k i"
  by (simp add: mutex_ok_def)

lemma mutex_okI_free:
  "owner (mutexes k i) = None \<Longrightarrow> hold (mutexes k i) = 0 \<Longrightarrow> mutex_value (mutexes k i) = 1 \<Longrightarrow>
     lists k (MutexQ i) = [] \<Longrightarrow> mutex_ok k i"
  by (simp add: mutex_ok_def)

lemma mutex_okD:
  assumes "ipc_inv k" and "OMutex i \<in> set (objects k)"
  shows "owner (mutexes k i) = Some t \<Longrightarrow> hold (mutexes k i) \<noteq> 0 \<and> mutex_value (mutexes k i) = 0 \<and>
      t \<notin> set (lists k (MutexQ i)) \<and> unat (original_priority (mutexes k i)) < RT_THREAD_PRIORITY_MAX"
    and "owner (mutexes k i) = None \<Longrightarrow> hold (mutexes k i) = 0 \<and> mutex_value (mutexes k i) = 1 \<and> lists k (MutexQ i) = []"
proof -
  have "mutex_ok k i" using assms by (simp add: ipc_inv_def mutex_inv_def)
  then show "owner (mutexes k i) = Some t \<Longrightarrow> hold (mutexes k i) \<noteq> 0 \<and> mutex_value (mutexes k i) = 0 \<and>
      t \<notin> set (lists k (MutexQ i)) \<and> unat (original_priority (mutexes k i)) < RT_THREAD_PRIORITY_MAX"
    "owner (mutexes k i) = None \<Longrightarrow> hold (mutexes k i) = 0 \<and> mutex_value (mutexes k i) = 1 \<and> lists k (MutexQ i) = []"
    by (simp_all add: mutex_ok_def)
qed

text \<open>The state in which a take blocks: the owner has the priority of the caller, if that is higher.\<close>

definition inherits :: "tid \<Rightarrow> tid \<Rightarrow> kernel \<Rightarrow> kernel" where
  "inherits t own k =
     (if current_priority (threads k t) < current_priority (threads k own)
      then change_priority own (current_priority (threads k t)) k else k)"

lemma rt_mutex_take_cases:
  assumes run: "running k t"
  defines "k1 \<equiv> upd_thread t (\<lambda>th. th\<lparr>error := RT_EOK\<rparr>) k"
  shows "owner (mutexes k i) = Some t \<Longrightarrow> rt_mutex_take i time k =
      (if hold (mutexes k i) < RT_MUTEX_HOLD_MAX
       then (Returned RT_EOK, upd_mutex i (\<lambda>m. m\<lparr>hold := hold m + 1\<rparr>) k1) else (Returned (- RT_EFULL), k1))"
    and "owner (mutexes k i) \<noteq> Some t \<Longrightarrow> mutex_value (mutexes k i) > 0 \<Longrightarrow> hold (mutexes k i) < RT_MUTEX_HOLD_MAX \<Longrightarrow>
      rt_mutex_take i time k = (Returned RT_EOK, upd_mutex i (\<lambda>m. m\<lparr>mutex_value := mutex_value m - 1, owner := Some t,
        original_priority := current_priority (threads k t), hold := hold m + 1\<rparr>) k1)"
    and "owner (mutexes k i) \<noteq> Some t \<Longrightarrow> mutex_value (mutexes k i) = 0 \<Longrightarrow>
      rt_mutex_take i 0 k = (Returned (- RT_ETIMEOUT), upd_thread t (\<lambda>th. th\<lparr>error := - RT_ETIMEOUT\<rparr>) k1)"
    and "owner (mutexes k i) = Some own \<Longrightarrow> own \<noteq> t \<Longrightarrow> mutex_value (mutexes k i) = 0 \<Longrightarrow> time \<noteq> 0 \<Longrightarrow>
      rt_mutex_take i time k = (Blocked,
        wait_time t time (rt_ipc_list_suspend (MutexQ i) t (mutex_flag (mutexes k i)) (inherits t own k1)))"
  using run
  by (simp_all add: rt_mutex_take_def Let_def k1_def upd_mutex_upd_mutex inherits_def rt_thread_control_def)

lemma inherits_effect:
  assumes inv: "kinv k" "ipc_inv k" and rdy: "stat_of (threads k t) = RT_THREAD_READY" and ne: "own \<noteq> t"
  shows "kinv (inherits t own k)" and "ipc_inv (inherits t own k)"
    and "stat_of (threads (inherits t own k) u) = stat_of (threads k u)"
    and "threads (inherits t own k) t = threads k t"
    and "mutexes (inherits t own k) = mutexes k"
    and "lists (inherits t own k) (MutexQ i) = lists k (MutexQ i)"
    and "current_priority (threads (inherits t own k) own) =
      min (current_priority (threads k t)) (current_priority (threads k own))"
    and "u \<noteq> own \<Longrightarrow> threads (inherits t own k) u = threads k u"
    and "tick (inherits t own k) = tick k"
proof -
  have "unat (current_priority (threads k t)) < RT_THREAD_PRIORITY_MAX"
    using started_wf[OF inv(1), of t] rdy by (simp add: wf_prio_def)
  then show "kinv (inherits t own k)" using kinv_change_priority[OF inv(1)] inv(1) by (simp add: inherits_def)
  show "ipc_inv (inherits t own k)"
    using ipc_inv_quiet[OF quiet_change_priority] inv(2) by (simp add: inherits_def)
  show "lists (inherits t own k) (MutexQ i) = lists k (MutexQ i)"
    using change_priority_waiters[OF inv(1)] by (simp add: inherits_def)
  show "tick (inherits t own k) = tick k"
    by (simp add: inherits_def change_priority_def Let_def rt_schedule_insert_thread_def rt_schedule_remove_thread_def)
qed (use ne in \<open>auto simp: inherits_def change_priority_effect min_def\<close>)

section \<open>The calls keep the invariants\<close>

lemma mutex_take_inv:
  assumes inv: "kinv k" "ipc_inv k" and run: "running k t" and reg: "OMutex i \<in> set (objects k)"
  shows "kinv (snd (rt_mutex_take i time k))" and "ipc_inv (snd (rt_mutex_take i time k))"
proof -
  let ?k1 = "upd_thread t (\<lambda>th. th\<lparr>error := RT_EOK\<rparr>) k"
  have k1: "kinv ?k1" "ipc_inv ?k1" using inv by simp_all
  have rdy: "stat_of (threads ?k1 t) = RT_THREAD_READY" using run by (simp add: running_def)
  have wf: "unat (current_priority (threads k t)) < RT_THREAD_PRIORITY_MAX"
    using started_wf[OF inv(1), of t] run by (simp add: running_def wf_prio_def)
  note c = rt_mutex_take_cases[OF run] and ok = mutex_okD[OF inv(2) reg]
  have both: "kinv (snd (rt_mutex_take i time k)) \<and> ipc_inv (snd (rt_mutex_take i time k))"
  proof (cases "owner (mutexes k i)")
    case None
    note f = ok(2)[OF None]
    have "ipc_inv (upd_mutex i (\<lambda>m. m\<lparr>mutex_value := mutex_value m - 1, owner := Some t,
        original_priority := current_priority (threads k t), hold := hold m + 1\<rparr>) ?k1)"
      by (rule ipc_inv_upd_mutex[OF k1(2)], rule mutex_okI_owned) (use f wf in auto)
    then show ?thesis using c(2)[of i time] None f k1 by (simp add: RT_MUTEX_HOLD_MAX_def)
  next
    case (Some own)
    note f = ok(1)[OF Some]
    show ?thesis
    proof (cases "own = t")
      case True
      have "hold (mutexes k i) + 1 \<noteq> 0" if "hold (mutexes k i) < RT_MUTEX_HOLD_MAX"
        using unat_inc_no_wrap[OF that] by auto
      then have "ipc_inv (upd_mutex i (\<lambda>m. m\<lparr>hold := hold m + 1\<rparr>) ?k1)" if "hold (mutexes k i) < RT_MUTEX_HOLD_MAX"
        by (intro ipc_inv_upd_mutex[OF k1(2)] mutex_okI_owned) (use f Some True that in auto)
      then show ?thesis using c(1)[of i time] Some True k1 by simp
    next
      case False
      let ?k2 = "inherits t own ?k1"
      note e = inherits_effect[OF k1 rdy False]
      have rdy2: "stat_of (threads ?k2 t) = RT_THREAD_READY" unfolding e(3) by (rule rdy)
      have "kinv (wait_time t time (rt_ipc_list_suspend (MutexQ i) t (mutex_flag (mutexes k i)) ?k2))"
        by (rule kinv_block[OF e(1) rdy2]) simp
      moreover have "ipc_inv (wait_time t time (rt_ipc_list_suspend (MutexQ i) t (mutex_flag (mutexes k i)) ?k2))"
        by (rule ipc_inv_block[OF e(2)]) (use Some False e(5) in auto)
      ultimately show ?thesis
        using c(3)[of i] c(4)[OF Some False, of time] Some False f k1 by (cases "time = 0") auto
    qed
  qed
  then show "kinv (snd (rt_mutex_take i time k))" "ipc_inv (snd (rt_mutex_take i time k))" by simp_all
qed

lemma mutex_handover_inv:
  assumes inv: "kinv k" "ipc_inv k" and w: "lists k (MutexQ i) = u # us"
    and val: "mutex_value (mutexes k i) = 0"
  shows "ipc_inv (upd_mutex i (\<lambda>m. m\<lparr>hold := 1, owner := Some u,
      original_priority := current_priority (threads k u)\<rparr>) (rt_ipc_list_resume (MutexQ i) k))"
proof (rule ipc_inv_upd_mutex)
  let ?r = "rt_ipc_list_resume (MutexQ i) k"
  show "ipc_inv ?r" by (rule ipc_inv_list_resume[OF inv(2)])
  have l: "is_wait (MutexQ i)" by simp
  note r = list_resume_first[OF inv(1) l w]
  have "u \<notin> set us" using waiters_distinct[OF inv(1) l] w by simp
  moreover have "unat (current_priority (threads k u)) < RT_THREAD_PRIORITY_MAX"
    using started_wf[OF inv(1), of u] r(5) by (simp add: wf_prio_def)
  ultimately show "mutex_ok (upd_mutex i (\<lambda>m. m\<lparr>hold := 1, owner := Some u,
      original_priority := current_priority (threads k u)\<rparr>) ?r) i"
    by (intro mutex_okI_owned[of _ _ u]) (use r val quietD(2)[OF quiet_list_resume[of k "MutexQ i"]] in auto)
qed

lemma mutex_release_inv:
  assumes inv: "kinv k" "ipc_inv k" and run: "running k t" and reg: "OMutex i \<in> set (objects k)"
  shows "kinv (snd (rt_mutex_release i k))" and "ipc_inv (snd (rt_mutex_release i k))"
proof -
  have both: "kinv (snd (rt_mutex_release i k)) \<and> ipc_inv (snd (rt_mutex_release i k))"
  proof (cases "owner (mutexes k i) = Some t")
    case False
    then show ?thesis using run inv by (simp add: rt_mutex_release_def)
  next
    case True
    note f = mutex_okD(1)[OF inv(2) reg True] and e = restored_effect[OF inv True reg]
    have keep: "ipc_inv (upd_mutex i (\<lambda>m. m\<lparr>hold := hold m - 1\<rparr>) k)" if "hold (mutexes k i) - 1 \<noteq> 0"
      by (rule ipc_inv_upd_mutex[OF inv(2)], rule mutex_okI_owned[of _ _ t]) (use f that True in auto)
    show ?thesis
    proof (cases "lists k (MutexQ i)")
      case Nil
      have "ipc_inv (upd_mutex i (\<lambda>m. m\<lparr>hold := 0, mutex_value := mutex_value m + 1, owner := None,
          original_priority := 0xff\<rparr>) (restored t i k))"
        by (rule ipc_inv_upd_mutex[OF e(2)], rule mutex_okI_free) (use f Nil e(3,8) in auto)
      then show ?thesis
        using keep e(1,2) Nil f inv(1)
        by (auto simp: rt_mutex_release_owner[OF run True] e(3) RT_MUTEX_VALUE_MAX_def)
    next
      case (Cons u us)
      have w: "lists (restored t i k) (MutexQ i) = u # us" using e(3) Cons by simp
      have "mutex_value (mutexes (restored t i k) i) = 0" using f e(8) by simp
      note h = mutex_handover_inv[OF e(1,2) w this]
      show ?thesis
        using keep h e(1) inv(1) by (auto simp: rt_mutex_release_owner[OF run True] w kinv_list_resume)
    qed
  qed
  then show "kinv (snd (rt_mutex_release i k))" "ipc_inv (snd (rt_mutex_release i k))" by simp_all
qed

lemma mutex_detach_inv:
  assumes "kinv k" and "ipc_inv k"
  shows "kinv (snd (rt_mutex_detach i k))" and "ipc_inv (snd (rt_mutex_detach i k))"
    and "kinv (snd (rt_mutex_delete i k))" and "ipc_inv (snd (rt_mutex_delete i k))"
  using assms
  by (auto simp: rt_mutex_detach_def rt_mutex_delete_def Let_def kinv_resume_all ipc_inv_resume_all intro!: ipc_inv_object)

lemma new_mutex_inv:
  assumes inv: "ipc_inv k" and obj: "set (objects k') = insert (OMutex i) (set (objects k))"
    and same: "sems k' = sems k" "mutexes k' = mutexes k" "events k' = events k" "mailboxes k' = mailboxes k"
    "threads k' = threads k" "lists k' = lists k"
  shows "ipc_inv (upd_mutex i (\<lambda>_. new_mutex flag) (rt_ipc_object_init (MutexQ i) k'))"
proof -
  let ?k = "upd_mutex i (\<lambda>_. new_mutex flag) (rt_ipc_object_init (MutexQ i) k')"
  have "mutex_ok ?k i" by (rule mutex_okI_free) (simp_all add: new_mutex_def rt_ipc_object_init_def)
  moreover have "mutex_ok ?k j = mutex_ok k j" if "j \<noteq> i" for j
    by (rule mutex_ok_cong) (use that same in \<open>simp_all add: rt_ipc_object_init_def\<close>)
  ultimately have "mutex_ok ?k j" if "OMutex j \<in> set (objects ?k)" for j
    using that inv obj by (cases "j = i") (simp_all add: ipc_inv_def mutex_inv_def rt_ipc_object_init_def)
  then have "mutex_inv ?k" by (simp add: mutex_inv_def)
  then show ?thesis
    using inv obj same by (auto simp: ipc_inv_def sem_inv_def event_inv_def mailbox_inv_def rt_ipc_object_init_def)
qed

lemma mutex_init_inv:
  assumes "kinv k" and "ipc_inv k"
  shows "kinv (snd (rt_mutex_init i flag k))" and "ipc_inv (snd (rt_mutex_init i flag k))"
    and "kinv (snd (rt_mutex_create mem flag k))" and "ipc_inv (snd (rt_mutex_create mem flag k))"
proof -
  show "kinv (snd (rt_mutex_init i flag k))" "kinv (snd (rt_mutex_create mem flag k))"
    using assms kinv_drop_list
    by (auto simp: rt_mutex_init_def rt_mutex_create_def rt_ipc_object_init_def Let_def split: option.split)
  show "ipc_inv (snd (rt_mutex_init i flag k))"
    unfolding rt_mutex_init_def Let_def snd_conv by (rule new_mutex_inv[OF assms(2)]) simp_all
  show "ipc_inv (snd (rt_mutex_create mem flag k))"
  proof (cases mem)
    case (Some j)
    have "ipc_inv (upd_mutex j (\<lambda>_. new_mutex flag) (rt_ipc_object_init (MutexQ j) (rt_object_allocate (OMutex j) k)))"
      by (rule new_mutex_inv[OF assms(2)]) (simp_all add: rt_object_allocate_def)
    with Some show ?thesis by (simp add: rt_mutex_create_def Let_def)
  qed (use assms in \<open>simp add: rt_mutex_create_def\<close>)
qed

section \<open>Properties\<close>

text \<open>C17. The owner of a mutex runs at least as urgently as the thread it makes wait: when the
  running thread takes a mutex that another thread owns and is prepared to wait, it is suspended
  in its place of the wait list with its timer set as asked, the owner's priority becomes the
  more urgent of its own and the caller's, no third control block changes, the mutex stays with
  its owner, and the kernel stays consistent.\<close>

theorem rt_mutex_take_inherits:
  assumes inv: "kinv k" "ipc_inv k" and run: "running k t" and reg: "OMutex i \<in> set (objects k)"
    and own: "owner (mutexes k i) = Some own" and other: "own \<noteq> t" and time: "time \<noteq> 0"
  shows "\<exists>k1 k'. rt_mutex_take i time k = (Blocked, k') \<and>
    waits_in (MutexQ i) t (mutex_flag (mutexes k i)) time k1 k' \<and>
    lists k1 (MutexQ i) = lists k (MutexQ i) \<and> tick k1 = tick k \<and>
    (\<forall>u. u \<noteq> t \<longrightarrow> u \<noteq> own \<longrightarrow> threads k1 u = threads k u) \<and>
    current_priority (threads k' own) = min (current_priority (threads k t)) (current_priority (threads k own)) \<and>
    rt_mutex_take_resume t k' = RT_EOK \<and> mutexes k' = mutexes k \<and> kinv k' \<and> ipc_inv k'"
proof -
  let ?k0 = "upd_thread t (\<lambda>th. th\<lparr>error := RT_EOK\<rparr>) k"
  let ?k1 = "inherits t own ?k0"
  let ?k' = "wait_time t time (rt_ipc_list_suspend (MutexQ i) t (mutex_flag (mutexes k i)) ?k1)"
  have rdy: "stat_of (threads ?k0 t) = RT_THREAD_READY" using run by (simp add: running_def)
  have k0: "kinv ?k0" "ipc_inv ?k0" using inv by simp_all
  note e = inherits_effect[OF k0 rdy other]
  have rdy1: "stat_of (threads ?k1 t) = RT_THREAD_READY" unfolding e(3) by (rule rdy)
  have "mutex_value (mutexes k i) = 0" using mutex_okD(1)[OF inv(2) reg own] by simp
  then have eq: "rt_mutex_take i time k = (Blocked, ?k')"
    using rt_mutex_take_cases(4)[OF run own other _ time] by simp
  note b = block_effect[OF e(1) rdy1, where l = "MutexQ i" and flag = "mutex_flag (mutexes k i)" and time = time, simplified]
  have "threads ?k' own = threads ?k1 own" using b(1) other by (simp add: waits_in_def)
  then have "current_priority (threads ?k' own) = min (current_priority (threads k t)) (current_priority (threads k own))"
    using e(7) other by simp
  moreover have "rt_mutex_take_resume t ?k' = RT_EOK" using b(2) e(4) by (simp add: rt_mutex_take_resume_def)
  moreover have "mutexes ?k' = mutexes k"
    using quietD(2)[OF join_block[of "MutexQ i" t ?k1 time "mutex_flag (mutexes k i)"]] e(5) by simp
  moreover have "kinv ?k'" "ipc_inv ?k'" using mutex_take_inv[OF inv run reg, of time] eq by simp_all
  moreover have "\<forall>u. u \<noteq> t \<longrightarrow> u \<noteq> own \<longrightarrow> threads ?k1 u = threads k u" using e(8) by simp
  ultimately show ?thesis using eq b(1) e(6,9) by (intro exI[of _ ?k1] exI[of _ ?k']) simp
qed

text \<open>C16. A release hands the mutex on: when the owner gives back its last hold and threads
  wait, the first waiter becomes the owner with one hold, leaves the wait list and becomes ready
  with its error code untouched; the priority it is entitled to is recorded; the caller's own
  priority is back at the recorded value; the mutex is never free in between; and afterwards a
  most urgent ready thread runs.\<close>

theorem rt_mutex_release_hands_over:
  assumes inv: "kinv k" "ipc_inv k" and run: "running k t" and reg: "OMutex i \<in> set (objects k)"
    and own: "owner (mutexes k i) = Some t" and last: "hold (mutexes k i) = 1"
    and ts: "lists k (MutexQ i) = u # us" and free: "lock_nest k = 0"
  shows "\<exists>k' r. rt_mutex_release i k = (RT_EOK, k') \<and> lists k' (MutexQ i) = us \<and>
    owner (mutexes k' i) = Some u \<and> hold (mutexes k' i) = 1 \<and> mutex_value (mutexes k' i) = 0 \<and>
    original_priority (mutexes k' i) = current_priority (threads k u) \<and>
    threads k' u = set_stat RT_THREAD_READY (threads k u) \<and> rt_mutex_take_resume u k' = rt_mutex_take_resume u k \<and>
    current_priority (threads k' t) = original_priority (mutexes k i) \<and>
    current_thread k' = Some r \<and> most_urgent k' r \<and> kinv k' \<and> ipc_inv k'"
proof -
  note f = mutex_okD(1)[OF inv(2) reg own] and e = restored_effect[OF inv own reg]
  let ?k1 = "restored t i k"
  let ?k2 = "rt_ipc_list_resume (MutexQ i) ?k1"
  let ?k3 = "upd_mutex i (\<lambda>m. m\<lparr>hold := 1, owner := Some u,
     original_priority := current_priority (threads ?k1 u)\<rparr>) ?k2"
  have l: "is_wait (MutexQ i)" by simp
  have w: "lists ?k1 (MutexQ i) = u # us" using e(3) ts by simp
  have ut: "u \<noteq> t" using f ts by auto
  have thu: "threads ?k1 u = threads k u" using e(7) ut by simp
  note r = list_resume_first[OF e(1) l w]
  have eq: "rt_mutex_release i k = (RT_EOK, rt_schedule ?k3)"
    using last w by (simp add: rt_mutex_release_owner[OF run own])
  have k': "kinv (rt_schedule ?k3)" "ipc_inv (rt_schedule ?k3)"
    using mutex_release_inv[OF inv run reg] eq by simp_all
  then have k3: "kinv ?k3" by simp
  have "lock_nest ?k3 = 0" using free e(9) by (simp add: upd_mutex_def)
  moreover have "stat_of (threads ?k3 u) = RT_THREAD_READY" by (simp add: r(1))
  ultimately obtain x where "current_thread (rt_schedule ?k3) = Some x" "most_urgent ?k3 x"
    using schedule_current[OF k3] by metis
  moreover have "mutex_value (mutexes ?k2 i) = 0" using quietD(2)[OF quiet_list_resume] e(8) f by simp
  ultimately show ?thesis
    using eq k' r thu ut e(4)
    by (intro exI[of _ "rt_schedule ?k3"] exI[of _ x]) (simp add: rt_mutex_take_resume_def)
qed

text \<open>C18. With two mutexes the lent priority can be lost: releasing a mutex sets the caller
  back to the priority it had when it took that mutex, even while it owns another mutex that a
  more urgent thread waits for. The release succeeds, the other mutex stays with the caller and
  its waiter keeps waiting, and the caller is now less urgent than that waiter.\<close>

theorem nested_release_drops_inheritance:
  assumes inv: "kinv k" "ipc_inv k" and run: "running k t" and reg: "OMutex i \<in> set (objects k)" "OMutex j \<in> set (objects k)"
    and own: "owner (mutexes k i) = Some t" "owner (mutexes k j) = Some t" and two: "i \<noteq> j"
    and last: "hold (mutexes k i) = 1" and none: "lists k (MutexQ i) = []"
    and w: "lists k (MutexQ j) = u # us"
    and urgent: "current_priority (threads k u) < original_priority (mutexes k i)"
  shows "\<exists>k'. rt_mutex_release i k = (RT_EOK, k') \<and> owner (mutexes k' j) = Some t \<and>
    lists k' (MutexQ j) = u # us \<and> current_priority (threads k' u) < current_priority (threads k' t)"
proof -
  note f = mutex_okD(1)[OF inv(2) reg(1) own(1)] and g = mutex_okD(1)[OF inv(2) reg(2) own(2)]
    and e = restored_effect[OF inv own(1) reg(1)]
  have ut: "u \<noteq> t" using g w by auto
  have thu: "threads (restored t i k) u = threads k u" using e(7) ut by simp
  show ?thesis
    using f last none w urgent own e(3,4,8) thu two
    by (simp add: rt_mutex_release_owner[OF run own(1)] RT_MUTEX_VALUE_MAX_def)
qed

section \<open>Witnesses\<close>

text \<open>A state in which thread 2 owns both mutexes and thread 1 waits for the first.\<close>

definition own_mutex :: "tid \<Rightarrow> nat \<Rightarrow> kernel \<Rightarrow> kernel" where
  "own_mutex t i k = upd_mutex i (\<lambda>m. m\<lparr>mutex_value := 0, owner := Some t, hold := 1, original_priority := 4\<rparr>)
     (snd (rt_mutex_init i RT_IPC_FLAG_PRIO k))"

lemma own_mutex_inv:
  assumes "kinv k" and "ipc_inv k"
  shows "kinv (own_mutex t i k)" and "ipc_inv (own_mutex t i k)"
proof -
  note m = mutex_init_inv(1,2)[OF assms, of i RT_IPC_FLAG_PRIO]
  show "kinv (own_mutex t i k)" using m by (simp add: own_mutex_def)
  have e: "lists (snd (rt_mutex_init i RT_IPC_FLAG_PRIO k)) (MutexQ i) = []"
    by (simp add: rt_mutex_init_def rt_ipc_object_init_def Let_def)
  show "ipc_inv (own_mutex t i k)"
    unfolding own_mutex_def
    by (rule ipc_inv_upd_mutex[OF m(2)], rule mutex_okI_owned) (auto simp: e RT_THREAD_PRIORITY_MAX_def)
qed

definition both_owned :: kernel where
  "both_owned = wait_time 1 RT_WAITING_FOREVER
     (rt_ipc_list_suspend (MutexQ 5) 1 RT_IPC_FLAG_PRIO (own_mutex 2 5 (own_mutex 2 6 two_threads)))"

lemma both_owned_inv: "kinv both_owned" "ipc_inv both_owned"
proof -
  let ?k = "own_mutex 2 5 (own_mutex 2 6 two_threads)"
  have k: "kinv ?k" "ipc_inv ?k" by (intro own_mutex_inv kinv_two_threads ipc_two_threads)+
  have th: "threads ?k = threads two_threads"
    by (simp add: own_mutex_def rt_mutex_init_def rt_ipc_object_init_def Let_def)
  have rdy: "stat_of (threads ?k 1) = RT_THREAD_READY" using two_threads_running(1) by (simp add: th running_def)
  show "kinv both_owned" unfolding both_owned_def by (rule kinv_block[OF k(1) rdy]) simp
  show "ipc_inv both_owned"
    unfolding both_owned_def by (rule ipc_inv_block[OF k(2)]) (auto simp: own_mutex_def)
qed

lemma both_owned_eval:
  "running both_owned 2" "OMutex 6 \<in> set (objects both_owned)" "OMutex 5 \<in> set (objects both_owned)"
  "owner (mutexes both_owned 6) = Some 2" "owner (mutexes both_owned 5) = Some 2"
  "lists both_owned (MutexQ 5) = [1]"
  by code_simp+

theorem nested_release_drops_inheritance_witness:
  "\<exists>k'. rt_mutex_release 6 both_owned = (RT_EOK, k') \<and> owner (mutexes k' 5) = Some 2 \<and>
    lists k' (MutexQ 5) = [1] \<and> current_priority (threads k' 1) < current_priority (threads k' 2)"
proof (rule nested_release_drops_inheritance[OF both_owned_inv both_owned_eval(1-5)])
  show "(6 :: nat) \<noteq> 5" by simp
  show "hold (mutexes both_owned 6) = 1" by code_simp
  show "lists both_owned (MutexQ 6) = []" by code_simp
  show "lists both_owned (MutexQ 5) = [1]" by (rule both_owned_eval)
  show "current_priority (threads both_owned 1) < original_priority (mutexes both_owned 6)" by code_simp
qed

theorem rt_mutex_release_hands_over_witness:
  "\<exists>k' r. rt_mutex_release 5 both_owned = (RT_EOK, k') \<and> lists k' (MutexQ 5) = [] \<and>
    owner (mutexes k' 5) = Some 1 \<and> hold (mutexes k' 5) = 1 \<and> mutex_value (mutexes k' 5) = 0 \<and>
    original_priority (mutexes k' 5) = current_priority (threads both_owned 1) \<and>
    threads k' 1 = set_stat RT_THREAD_READY (threads both_owned 1) \<and>
    rt_mutex_take_resume 1 k' = rt_mutex_take_resume 1 both_owned \<and>
    current_priority (threads k' 2) = original_priority (mutexes both_owned 5) \<and>
    current_thread k' = Some r \<and> most_urgent k' r \<and> kinv k' \<and> ipc_inv k'"
proof (rule rt_mutex_release_hands_over[OF both_owned_inv both_owned_eval(1,3,5)])
  show "hold (mutexes both_owned 5) = 1" by code_simp
  show "lists both_owned (MutexQ 5) = [1]" by (rule both_owned_eval)
  show "lock_nest both_owned = 0" by code_simp
qed

theorem rt_mutex_take_inherits_witness:
  "\<exists>k1 k'. rt_mutex_take 5 100 (own_mutex 2 5 two_threads) = (Blocked, k') \<and>
    waits_in (MutexQ 5) 1 (mutex_flag (mutexes (own_mutex 2 5 two_threads) 5)) 100 k1 k' \<and>
    lists k1 (MutexQ 5) = lists (own_mutex 2 5 two_threads) (MutexQ 5) \<and> tick k1 = tick (own_mutex 2 5 two_threads) \<and>
    (\<forall>u. u \<noteq> 1 \<longrightarrow> u \<noteq> 2 \<longrightarrow> threads k1 u = threads (own_mutex 2 5 two_threads) u) \<and>
    current_priority (threads k' 2) = min (current_priority (threads (own_mutex 2 5 two_threads) 1))
      (current_priority (threads (own_mutex 2 5 two_threads) 2)) \<and>
    rt_mutex_take_resume 1 k' = RT_EOK \<and> mutexes k' = mutexes (own_mutex 2 5 two_threads) \<and> kinv k' \<and> ipc_inv k'"
proof (rule rt_mutex_take_inherits[OF own_mutex_inv[OF kinv_two_threads ipc_two_threads]])
  show "running (own_mutex 2 5 two_threads) 1" by code_simp
  show "OMutex 5 \<in> set (objects (own_mutex 2 5 two_threads))" by code_simp
  show "owner (mutexes (own_mutex 2 5 two_threads) 5) = Some 2" by code_simp
qed simp_all

end
