(* ===== verification/Ipc_Event.thy ===== *)
theory Ipc_Event
  imports Ipc_Mutex
begin

text \<open>
  Events: the abstract specification of a send walks over the requests of the waiters with the
  bits that are set, and says who is served and which bits remain; the call is shown to implement
  it. No thread is left waiting for bits that are there.
\<close>

section \<open>Specification\<close>

text \<open>
  What a waiter that is served gets: with the AND option all it asked for, else those of its
  bits that are set; with the clear option these bits are taken away.
\<close>

definition event_got :: "u32 \<Rightarrow> rt_thread \<Rightarrow> u32" where
  "event_got bits th = (if event_info th AND RT_EVENT_FLAG_AND \<noteq> 0 then event_set th else event_set th AND bits)"

definition event_left :: "u32 \<Rightarrow> rt_thread \<Rightarrow> u32" where
  "event_left bits th =
     (if event_info th AND RT_EVENT_FLAG_CLEAR \<noteq> 0 then bits AND NOT (event_got bits th) else bits)"

text \<open>The threads served, with what they get, and the bits that remain.\<close>

fun event_serve :: "(tid \<Rightarrow> rt_thread) \<Rightarrow> u32 \<Rightarrow> tid list \<Rightarrow> (tid \<times> u32) list \<times> u32" where
  "event_serve th bits [] = ([], bits)"
| "event_serve th bits (t # ts) =
     (if event_hit bits (th t) then
        (let (ws, b) = event_serve th (event_left bits (th t)) ts in ((t, event_got bits (th t)) # ws, b))
      else event_serve th bits ts)"

definition served :: "(tid \<times> u32) list \<Rightarrow> tid \<Rightarrow> rt_thread \<Rightarrow> rt_thread" where
  "served ws t th =
     (case map_of ws t of None \<Rightarrow> th | Some got \<Rightarrow> set_stat RT_THREAD_READY (th\<lparr>event_set := got\<rparr>))"

lemma event_left_mono: "\<exists>c. event_left bits th = bits AND c"
proof (cases "event_info th AND RT_EVENT_FLAG_CLEAR \<noteq> 0")
  case True then show ?thesis by (auto simp: event_left_def)
next
  case False
  then show ?thesis by (intro exI[of _ "- 1"]) (simp add: event_left_def)
qed

lemma event_serve_bits: "\<exists>c. snd (event_serve th bits ts) = bits AND c"
proof (induction ts arbitrary: bits)
  case Nil show ?case by (intro exI[of _ "- 1"]) simp
next
  case (Cons t ts)
  obtain c where c: "event_left bits (th t) = bits AND c" using event_left_mono by blast
  obtain d where "snd (event_serve th (event_left bits (th t)) ts) = event_left bits (th t) AND d"
    using Cons.IH by blast
  then have "\<exists>c. snd (event_serve th (event_left bits (th t)) ts) = bits AND c"
    by (intro exI[of _ "c AND d"]) (simp add: c and.assoc)
  with Cons.IH[of bits] show ?case by (auto split: prod.split)
qed

lemma event_serve_subset: "fst ` set (fst (event_serve th bits ts)) \<subseteq> set ts"
proof (induction ts arbitrary: bits)
  case (Cons u us)
  show ?case
  proof (cases "event_hit bits (th u)")
    case True
    then have "fst (event_serve th bits (u # us)) =
        (u, event_got bits (th u)) # fst (event_serve th (event_left bits (th u)) us)"
      by (simp split: prod.split)
    with Cons.IH[of "event_left bits (th u)"] show ?thesis by auto
  next
    case False
    with Cons.IH[of bits] show ?thesis by auto
  qed
qed simp

lemma event_serve_distinct: "distinct ts \<Longrightarrow> distinct (map fst (fst (event_serve th bits ts)))"
proof (induction ts arbitrary: bits)
  case (Cons u us)
  show ?case
  proof (cases "event_hit bits (th u)")
    case True
    then have "fst (event_serve th bits (u # us)) =
        (u, event_got bits (th u)) # fst (event_serve th (event_left bits (th u)) us)"
      by (simp split: prod.split)
    with Cons.IH[of "event_left bits (th u)"] Cons.prems event_serve_subset[of th "event_left bits (th u)" us]
    show ?thesis by auto
  qed (use Cons in simp)
qed simp

text \<open>Whoever is not served is not satisfied by what remains.\<close>

lemma event_serve_rest:
  assumes "distinct ts" and "t \<in> set ts" and "t \<notin> fst ` set (fst (event_serve th bits ts))"
  shows "\<not> event_hit (snd (event_serve th bits ts)) (th t)"
  using assms
proof (induction ts arbitrary: bits)
  case (Cons u us)
  show ?case
  proof (cases "event_hit bits (th u)")
    case True
    then have "u \<noteq> t" using Cons.prems by (auto split: prod.splits)
    then show ?thesis
      using Cons.IH[of "event_left bits (th u)"] Cons.prems True by (auto split: prod.splits)
  next
    case False
    show ?thesis
    proof (cases "u = t")
      case True
      obtain c where "snd (event_serve th bits us) = bits AND c" using event_serve_bits by blast
      with False True show ?thesis using event_hit_mono[of bits c "th t"] by auto
    next
      case ne: False
      then show ?thesis using Cons False by simp
    qed
  qed
qed simp

lemma event_serve_cong:
  "(\<And>t. t \<in> set ts \<Longrightarrow> th' t = th t) \<Longrightarrow> event_serve th' bits ts = event_serve th bits ts"
  by (induction ts arbitrary: bits) (auto split: prod.split)

section \<open>The walk implements the specification\<close>

text \<open>Serving one waiter: its entry is updated and it is resumed.\<close>

lemma quiet_serve:
  assumes susp: "stat_of (threads k t) = RT_THREAD_SUSPEND" and f: "\<And>th. stat_of (f th) = stat_of th"
  shows "quiet k (snd (rt_thread_resume t (upd_thread t f k)))"
proof -
  let ?k = "upd_thread t f k"
  have st: "stat_of (threads ?k t) = RT_THREAD_SUSPEND" using susp f by simp
  note q = quiet_resume[of ?k t] and r = resume_suspended[OF st]
  have "event_set (threads (snd (rt_thread_resume t ?k)) u) = event_set (threads k u) \<and>
      event_info (threads (snd (rt_thread_resume t ?k)) u) = event_info (threads k u)"
    if "u \<in> set (lists (snd (rt_thread_resume t ?k)) (EventQ i))" for i u
    using that r(1,2)[of "EventQ i"] by auto
  then show ?thesis
    using q unfolding quiet_def by (auto simp: one_shot_def)
qed

lemma kinv_event_set [simp]: "kinv (upd_thread t (\<lambda>th. th\<lparr>event_set := f th\<rparr>) k) \<longleftrightarrow> kinv k"
  by (auto elim!: kinv_cong)

text \<open>The state after one waiter has been served.\<close>

definition serve_one :: "nat \<Rightarrow> tid \<Rightarrow> kernel \<Rightarrow> kernel" where
  "serve_one i t k =
     snd (rt_thread_resume t
       (upd_thread t (\<lambda>th. th\<lparr>event_set := event_got (event_bits (events k i)) (threads k t)\<rparr>)
         (upd_event i (\<lambda>e. e\<lparr>event_bits := event_left (event_bits (events k i)) (threads k t)\<rparr>) k)))"

lemma event_walk_step:
  assumes "event_option (event_info (threads k t))"
  shows "event_walk i (t # ts) b k =
    (if event_hit (event_bits (events k i)) (threads k t) then event_walk i ts True (serve_one i t k)
     else event_walk i ts b k)"
proof -
  have noop: "upd_thread t (\<lambda>th. th\<lparr>event_set := event_set (threads k t)\<rparr>) k' = k'"
    if "threads k' t = threads k t" for k'
    by (simp add: upd_thread_def flip: that)
  have same: "upd_event i (\<lambda>e. e\<lparr>event_bits := event_bits (events k i)\<rparr>) k' = k'" if "events k' i = events k i" for k'
    by (simp add: upd_event_def flip: that)
  have comm: "upd_event i f (upd_thread t g k') = upd_thread t g (upd_event i f k')" for f g k'
    by (simp add: upd_event_def upd_thread_def)
  have upd: "upd_thread t (\<lambda>th. th\<lparr>event_set := event_set th AND c\<rparr>) k' =
      upd_thread t (\<lambda>th. th\<lparr>event_set := event_set (threads k t) AND c\<rparr>) k'" if "threads k' t = threads k t" for c k'
    by (simp add: upd_thread_def that)
  have ev: "upd_event i (\<lambda>e. e\<lparr>event_bits := event_bits e AND c\<rparr>) k' =
      upd_event i (\<lambda>e. e\<lparr>event_bits := event_bits (events k i) AND c\<rparr>) k'" if "events k' i = events k i" for c k'
    by (simp add: upd_event_def that)
  have opt: "\<not> (event_info (threads k t) AND RT_EVENT_FLAG_AND = 0 \<and> event_info (threads k t) AND RT_EVENT_FLAG_OR = 0)"
    using assms by (auto simp: event_option_def)
  show ?thesis
    using opt
    by (auto simp: Let_def event_hit_def serve_one_def event_got_def event_left_def comm same upd noop ev)
qed

lemma serve_one_effect:
  assumes inv: "kinv k" and t: "t \<in> set (lists k (EventQ i))"
  defines "got \<equiv> event_got (event_bits (events k i)) (threads k t)"
  shows "kinv (serve_one i t k)"
    and "threads (serve_one i t k) = (threads k)(t := set_stat RT_THREAD_READY ((threads k t)\<lparr>event_set := got\<rparr>))"
    and "lists (serve_one i t k) (EventQ i) = removeAll t (lists k (EventQ i))"
    and "event_bits (events (serve_one i t k) i) = event_left (event_bits (events k i)) (threads k t)"
    and "quiet (upd_event i (\<lambda>e. e\<lparr>event_bits := event_left (event_bits (events k i)) (threads k t)\<rparr>) k) (serve_one i t k)"
    and "halted (serve_one i t k) = halted k" and "lock_nest (serve_one i t k) = lock_nest k"
proof -
  let ?k1 = "upd_event i (\<lambda>e. e\<lparr>event_bits := event_left (event_bits (events k i)) (threads k t)\<rparr>) k"
  let ?k2 = "upd_thread t (\<lambda>th. th\<lparr>event_set := got\<rparr>) ?k1"
  have eq: "serve_one i t k = snd (rt_thread_resume t ?k2)" by (simp add: serve_one_def got_def)
  have susp: "stat_of (threads k t) = RT_THREAD_SUSPEND" using waiter_suspended[OF inv _ t] by simp
  then have s2: "stat_of (threads ?k2 t) = RT_THREAD_SUSPEND" by simp
  note r = resume_suspended[OF s2, of "EventQ i"]
  show "kinv (serve_one i t k)" unfolding eq using inv by (intro kinv_resume) simp
  show "threads (serve_one i t k) = (threads k)(t := set_stat RT_THREAD_READY ((threads k t)\<lparr>event_set := got\<rparr>))"
    "lists (serve_one i t k) (EventQ i) = removeAll t (lists k (EventQ i))"
    using r(1,2) by (simp_all add: eq)
  show q: "quiet ?k1 (serve_one i t k)" unfolding eq by (rule quiet_serve) (use susp in auto)
  show "event_bits (events (serve_one i t k) i) = event_left (event_bits (events k i)) (threads k t)"
    using quietD(3)[OF q] by simp
  show "halted (serve_one i t k) = halted k" "lock_nest (serve_one i t k) = lock_nest k"
    using r(3) by (simp_all add: eq upd_event_def upd_thread_def)
qed

lemma quiet_upd_event: "quiet k k' \<Longrightarrow> quiet (upd_event i f k) (upd_event i f k')"
  by (simp add: quiet_def one_shot_def)

lemma upd_event_twice: "upd_event i f (upd_event i g k) = upd_event i (\<lambda>e. f (g e)) k"
  by (simp add: upd_event_def)

lemma upd_event_bits_same: "upd_event i (\<lambda>e. e\<lparr>event_bits := event_bits (events k i)\<rparr>) k = k"
  by (simp add: upd_event_def)

lemma event_walk_serves:
  assumes "kinv k" and "distinct ts" and "set ts \<subseteq> set (lists k (EventQ i))"
    and "\<forall>t \<in> set ts. event_option (event_info (threads k t))"
    and "event_serve (threads k) (event_bits (events k i)) ts = (ws, bits)"
  shows "\<exists>k'. event_walk i ts b k = Inr (b \<or> ws \<noteq> [], k') \<and> kinv k' \<and>
    threads k' = (\<lambda>t. served ws t (threads k t)) \<and>
    lists k' (EventQ i) = filter (\<lambda>t. t \<notin> fst ` set ws) (lists k (EventQ i)) \<and>
    quiet (upd_event i (\<lambda>e. e\<lparr>event_bits := bits\<rparr>) k) k' \<and> halted k' = halted k \<and> lock_nest k' = lock_nest k"
  using assms
proof (induction ts arbitrary: k ws b)
  case Nil
  then show ?case using upd_event_bits_same[of i k] by (auto simp: served_def)
next
  case (Cons t ts)
  let ?bits = "event_bits (events k i)"
  note opt = Cons.prems(4)
  have step: "event_walk i (t # ts) b k =
    (if event_hit ?bits (threads k t) then event_walk i ts True (serve_one i t k) else event_walk i ts b k)"
    by (rule event_walk_step) (use opt in simp)
  show ?case
  proof (cases "event_hit ?bits (threads k t)")
    case False
    with Cons.prems Cons.IH[of k ws b] step show ?thesis by simp
  next
    case True
    have t: "t \<in> set (lists k (EventQ i))" using Cons.prems(3) by simp
    note e = serve_one_effect[OF Cons.prems(1) t]
    let ?k = "serve_one i t k"
    obtain ws' where rest: "event_serve (threads k) (event_left ?bits (threads k t)) ts = (ws', bits)"
      and ws: "ws = (t, event_got ?bits (threads k t)) # ws'"
      using Cons.prems(5) True by (auto split: prod.splits)
    have same: "threads ?k u = threads k u" if "u \<in> set ts" for u
      using that Cons.prems(2) e(2) by auto
    then have "event_serve (threads ?k) (event_bits (events ?k i)) ts = (ws', bits)"
      using rest e(4) event_serve_cong[of ts "threads ?k" "threads k"] by simp
    moreover have "set ts \<subseteq> set (lists ?k (EventQ i))" using Cons.prems(2,3) e(3) by auto
    ultimately obtain k' where k': "event_walk i ts True ?k = Inr (True, k')" "kinv k'"
      "threads k' = (\<lambda>u. served ws' u (threads ?k u))"
      "lists k' (EventQ i) = filter (\<lambda>t. t \<notin> fst ` set ws') (lists ?k (EventQ i))"
      "quiet (upd_event i (\<lambda>e. e\<lparr>event_bits := bits\<rparr>) ?k) k'" "halted k' = halted k" "lock_nest k' = lock_nest k"
      using Cons.IH[of ?k ws' True] e(1,6,7) Cons.prems(2,4) same by auto
    have "t \<notin> fst ` set ws'"
      using event_serve_subset[of "threads k" "event_left ?bits (threads k t)" ts] rest Cons.prems(2) by auto
    then have none: "map_of ws' t = None" by (simp add: map_of_eq_None_iff)
    have "threads k' = (\<lambda>u. served ws u (threads k u))"
      by (auto simp: k'(3) e(2) ws served_def none fun_eq_iff)
    moreover have "lists k' (EventQ i) = filter (\<lambda>t. t \<notin> fst ` set ws) (lists k (EventQ i))"
      by (simp add: k'(4) e(3) ws removeAll_filter_not_eq conj_commute) (auto intro: filter_cong)
    moreover have "quiet (upd_event i (\<lambda>e. e\<lparr>event_bits := bits\<rparr>) k) k'"
      using quiet_trans[OF quiet_upd_event[OF e(5)] k'(5)] by (simp add: upd_event_twice)
    ultimately show ?thesis using k' step True ws by simp
  qed
qed

section \<open>The calls keep the invariants\<close>

lemma upd_event_lock [simp]: "lock_nest (upd_event i f k) = lock_nest k" "halted (upd_event i f k) = halted k"
  by (simp_all add: upd_event_def)

text \<open>The effect of a send that has bits to set.\<close>

lemma event_send_effect:
  assumes inv: "kinv k" "ipc_inv k" and b: "bits \<noteq> 0"
    and spec: "event_serve (threads k) (event_bits (events k i) OR bits) (lists k (EventQ i)) = (ws, rest)"
  obtains k' where "rt_event_send i bits k = (RT_EOK, if ws \<noteq> [] then rt_schedule k' else k')"
    and "kinv k'" and "ipc_inv k'" and "threads k' = (\<lambda>t. served ws t (threads k t))"
    and "lists k' (EventQ i) = filter (\<lambda>t. t \<notin> fst ` set ws) (lists k (EventQ i))"
    and "event_bits (events k' i) = rest" and "lock_nest k' = lock_nest k"
proof -
  let ?k1 = "upd_event i (\<lambda>e. e\<lparr>event_bits := event_bits e OR bits\<rparr>) k"
  have d: "distinct (lists k (EventQ i))" using waiters_distinct[OF inv(1), of "EventQ i"] by simp
  have opts: "\<forall>t \<in> set (lists k (EventQ i)). event_option (event_info (threads k t))"
    using inv(2) by (simp add: ipc_inv_def event_inv_def)
  obtain k' where w: "event_walk i (lists k (EventQ i)) False ?k1 = Inr (ws \<noteq> [], k')" "kinv k'"
    "threads k' = (\<lambda>t. served ws t (threads k t))"
    "lists k' (EventQ i) = filter (\<lambda>t. t \<notin> fst ` set ws) (lists k (EventQ i))"
    "quiet (upd_event i (\<lambda>e. e\<lparr>event_bits := rest\<rparr>) ?k1) k'" "lock_nest k' = lock_nest k"
    using event_walk_serves[of ?k1 "lists k (EventQ i)" i ws rest False] inv(1) d opts spec
    by auto
  let ?un = "\<lambda>ts. filter (\<lambda>t. t \<notin> fst ` set ws) ts"
  let ?k2 = "upd_list (EventQ i) ?un (upd_event i (\<lambda>e. e\<lparr>event_bits := rest\<rparr>) k)"
  have rest: "\<not> event_hit rest (threads k t)" if "t \<in> set (?un (lists k (EventQ i)))" for t
    using event_serve_rest[OF d, of t "threads k" "event_bits (events k i) OR bits"] spec that by simp
  have ok: "mutex_ok ?k2 j = mutex_ok k j" for j by (rule mutex_ok_cong) simp_all
  have "ipc_inv ?k2"
    using inv(2) rest by (auto simp: ipc_inv_def sem_inv_def mutex_inv_def ok event_inv_def mailbox_inv_def)
  moreover have "quiet ?k2 k'"
    using w(4,5) unfolding quiet_def by (auto simp: one_shot_def upd_event_twice)
  ultimately have "ipc_inv k'" using ipc_inv_quiet by blast
  moreover have "rt_event_send i bits k = (RT_EOK, if ws \<noteq> [] then rt_schedule k' else k')"
    using b w(1) by (simp add: rt_event_send_def Let_def)
  moreover have "event_bits (events k' i) = rest" using quietD(3)[OF w(5)] by simp
  ultimately show thesis using that w by blast
qed

lemma event_send_inv:
  assumes inv: "kinv k" "ipc_inv k"
  shows "kinv (snd (rt_event_send i bits k))" and "ipc_inv (snd (rt_event_send i bits k))"
proof -
  obtain ws rest where s: "event_serve (threads k) (event_bits (events k i) OR bits) (lists k (EventQ i)) = (ws, rest)"
    by fastforce
  have "kinv (snd (rt_event_send i bits k)) \<and> ipc_inv (snd (rt_event_send i bits k))"
  proof (cases "bits = 0")
    case True then show ?thesis using inv by (simp add: rt_event_send_def)
  next
    case False
    obtain k' where "rt_event_send i bits k = (RT_EOK, if ws \<noteq> [] then rt_schedule k' else k')"
      and "kinv k'" and "ipc_inv k'" using event_send_effect[OF inv False s] .
    then show ?thesis by simp
  qed
  then show "kinv (snd (rt_event_send i bits k))" "ipc_inv (snd (rt_event_send i bits k))" by simp_all
qed

text \<open>A request that is not satisfied at once is recorded and waits.\<close>

lemma event_recv_inv:
  assumes inv: "kinv k" "ipc_inv k" and run: "running k t" and opt: "event_option opt"
  shows "kinv (snd (rt_event_recv i bits opt timeout k))" and "ipc_inv (snd (rt_event_recv i bits opt timeout k))"
proof -
  let ?k1 = "upd_thread t (\<lambda>th. th\<lparr>error := RT_EOK\<rparr>) k"
  have k1: "kinv ?k1" "ipc_inv ?k1" using inv by simp_all
  have free: "t \<notin> set (lists k (EventQ j))" for j
    using run ready_not_waiting[OF inv(1), of t "EventQ j"] by (simp add: running_def)
  have "quiet ?k1 (upd_thread t (\<lambda>th. th\<lparr>event_set := a, event_info := b\<rparr>) ?k1)" for a b
    using free by (auto simp: quiet_def one_shot_def)
  note q = ipc_inv_quiet[OF this k1(2)]
  have req: "kinv (upd_thread t (\<lambda>th. th\<lparr>event_set := a, event_info := b\<rparr>) ?k1)"
    "ipc_inv (upd_thread t (\<lambda>th. th\<lparr>event_set := a, event_info := b\<rparr>) ?k1)" for a b
    using k1(1) q by simp_all
  have clr: "ipc_inv k' \<Longrightarrow> ipc_inv (upd_event i (\<lambda>e. e\<lparr>event_bits := event_bits e AND c\<rparr>) k')" for c k'
    by (rule ipc_inv_upd_event) (auto simp: ipc_inv_def event_inv_def dest: event_hit_mono)
  let ?k2 = "upd_thread t (\<lambda>th. th\<lparr>event_set := bits, event_info := opt\<rparr>) ?k1"
  have rdy: "stat_of (threads ?k2 t) = RT_THREAD_READY" using run by (simp add: running_def stat_of_def)
  have hit: "event_hit (event_bits (events k i)) (threads ?k2 t) \<longleftrightarrow>
      (if opt AND RT_EVENT_FLAG_AND \<noteq> 0 then event_bits (events k i) AND bits = bits
       else if opt AND RT_EVENT_FLAG_OR \<noteq> 0 then event_bits (events k i) AND bits \<noteq> 0 else False)"
    using opt by (auto simp: event_hit_def event_option_def and.commute)
  have blk: "kinv (wait_time t timeout (rt_ipc_list_suspend (EventQ i) t flag ?k2))" for flag
    by (rule kinv_block[OF req(1) rdy]) simp
  have blk2: "ipc_inv (wait_time t timeout (rt_ipc_list_suspend (EventQ i) t flag ?k2))"
    if "\<not> event_hit (event_bits (events k i)) (threads ?k2 t)" for flag
    by (rule ipc_inv_block[OF req(2)]) (use that opt in auto)
  show "kinv (snd (rt_event_recv i bits opt timeout k))"
    using run inv req(1) blk by (simp add: rt_event_recv_def Let_def)
  show "ipc_inv (snd (rt_event_recv i bits opt timeout k))"
    using run inv(2) k1 req(2) blk2 clr[OF req(2)] hit by (simp add: rt_event_recv_def Let_def)
qed

lemma event_control_inv:
  assumes "kinv k" and "ipc_inv k"
  shows "kinv (snd (rt_event_control i cmd k))" and "ipc_inv (snd (rt_event_control i cmd k))"
  using assms resume_all_effect(1)[OF assms(1), of "EventQ i"]
  by (auto simp: rt_event_control_def Let_def kinv_resume_all ipc_inv_resume_all intro!: ipc_inv_upd_event)

lemma event_detach_inv:
  assumes "kinv k" and "ipc_inv k"
  shows "kinv (snd (rt_event_detach i k))" and "ipc_inv (snd (rt_event_detach i k))"
    and "kinv (snd (rt_event_delete i k))" and "ipc_inv (snd (rt_event_delete i k))"
  using assms
  by (auto simp: rt_event_detach_def rt_event_delete_def Let_def kinv_resume_all ipc_inv_resume_all intro!: ipc_inv_object)

lemma event_init_inv:
  assumes "kinv k" and "ipc_inv k"
  shows "kinv (snd (rt_event_init i flag k))" and "ipc_inv (snd (rt_event_init i flag k))"
    and "kinv (snd (rt_event_create mem flag k))" and "ipc_inv (snd (rt_event_create mem flag k))"
proof -
  show "kinv (snd (rt_event_init i flag k))" "kinv (snd (rt_event_create mem flag k))"
    using assms kinv_drop_list
    by (auto simp: rt_event_init_def rt_event_create_def rt_ipc_object_init_def Let_def split: option.split)
  have "ipc_inv (rt_object_init (OEvent i) k)" "\<And>j. ipc_inv (rt_object_allocate (OEvent j) k)"
  proof -
    have ok: "mutex_ok (rt_object_init (OEvent i) k) j = mutex_ok k j"
      "mutex_ok (rt_object_allocate (OEvent m) k) j = mutex_ok k j" for j m
      by (rule mutex_ok_cong; simp add: rt_object_allocate_def)+
    show "ipc_inv (rt_object_init (OEvent i) k)"
      using assms(2) ok by (simp add: ipc_inv_def sem_inv_def mutex_inv_def event_inv_def mailbox_inv_def)
    show "ipc_inv (rt_object_allocate (OEvent j) k)" for j
      using assms(2) ok unfolding ipc_inv_def sem_inv_def mutex_inv_def event_inv_def mailbox_inv_def
      by (simp add: rt_object_allocate_def)
  qed
  then have "ipc_inv (rt_ipc_object_init (EventQ i) (rt_object_init (OEvent i) k))"
    "\<And>j. ipc_inv (rt_ipc_object_init (EventQ j) (rt_object_allocate (OEvent j) k))"
    by (auto intro: ipc_inv_init_list)
  then show "ipc_inv (snd (rt_event_init i flag k))" "ipc_inv (snd (rt_event_create mem flag k))"
    using assms(2)
    by (auto simp: rt_event_init_def rt_event_create_def Let_def rt_ipc_object_init_def split: option.split
        intro!: ipc_inv_upd_event)
qed

section \<open>Properties\<close>

text \<open>C19. \<open>rt_event_send\<close> implements its specification: it succeeds, the threads that the
  specification serves become ready with what they get recorded (their receive reports it), the
  others keep waiting in their order with their control blocks untouched, the bits that remain
  are those of the specification, nobody is left waiting for bits that are there, and when
  somebody was served a most urgent ready thread runs.\<close>

theorem rt_event_send_serves:
  assumes inv: "kinv k" "ipc_inv k" and b: "bits \<noteq> 0" and free: "lock_nest k = 0"
    and spec: "event_serve (threads k) (event_bits (events k i) OR bits) (lists k (EventQ i)) = (ws, rest)"
  shows "\<exists>k'. rt_event_send i bits k = (RT_EOK, k') \<and> threads k' = (\<lambda>t. served ws t (threads k t)) \<and>
    lists k' (EventQ i) = filter (\<lambda>t. t \<notin> fst ` set ws) (lists k (EventQ i)) \<and> event_bits (events k' i) = rest \<and>
    (\<forall>t \<in> set (lists k' (EventQ i)). \<not> event_hit rest (threads k' t)) \<and>
    (\<forall>(t, got) \<in> set ws. error (threads k t) = RT_EOK \<longrightarrow> rt_event_recv_resume t k' = (RT_EOK, Some got)) \<and>
    (ws \<noteq> [] \<longrightarrow> (\<exists>r. current_thread k' = Some r \<and> most_urgent k' r)) \<and> kinv k' \<and> ipc_inv k'"
proof -
  obtain k1 where s: "rt_event_send i bits k = (RT_EOK, if ws \<noteq> [] then rt_schedule k1 else k1)"
    "kinv k1" "ipc_inv k1" "threads k1 = (\<lambda>t. served ws t (threads k t))"
    "lists k1 (EventQ i) = filter (\<lambda>t. t \<notin> fst ` set ws) (lists k (EventQ i))"
    "event_bits (events k1 i) = rest" "lock_nest k1 = lock_nest k"
    using event_send_effect[OF inv b spec] .
  let ?k = "if ws \<noteq> [] then rt_schedule k1 else k1"
  have fields: "threads ?k = threads k1" "lists ?k = lists k1" "events ?k = events k1" "kinv ?k" "ipc_inv ?k"
    using s(2,3) by simp_all
  have d: "distinct (map fst ws)"
    using event_serve_distinct[OF waiters_distinct[OF inv(1), of "EventQ i"], of "threads k" "event_bits (events k i) OR bits"]
      spec by simp
  have got: "threads k1 t = set_stat RT_THREAD_READY ((threads k t)\<lparr>event_set := g\<rparr>)" if "(t, g) \<in> set ws" for t g
    using that d s(4) by (simp add: served_def)
  have waiting: "\<forall>t \<in> set (lists ?k (EventQ i)). \<not> event_hit rest (threads ?k t)"
    using s(3,6) unfolding fields by (auto simp: ipc_inv_def event_inv_def)
  have urgent: "\<exists>r. current_thread ?k = Some r \<and> most_urgent ?k r" if ne: "ws \<noteq> []"
  proof -
    obtain t g where "(t, g) \<in> set ws" using ne by (cases ws) auto
    then have "stat_of (threads k1 t) = RT_THREAD_READY" by (simp add: got)
    moreover have "lock_nest k1 = 0" using s(7) free by simp
    ultimately obtain r where "current_thread (rt_schedule k1) = Some r" "most_urgent k1 r"
      using schedule_current[OF s(2)] by metis
    with ne show ?thesis by (intro exI[of _ r]) simp
  qed
  show ?thesis
    using s(1,4-6) fields waiting urgent got
    by (intro exI[of _ ?k] conjI) (auto simp: rt_event_recv_resume_def)
qed

text \<open>C20. A waiter without a valid option poisons an event: while one is at the head of the
  wait list, every send only records its bits and fails with the invalid-argument error; nobody
  behind it is served, whatever was sent.\<close>

theorem rt_event_send_poisoned:
  assumes "lists k (EventQ i) = t # ts" and "\<not> event_option (event_info (threads k t))" and "bits \<noteq> 0"
  shows "rt_event_send i bits k =
    (- RT_EINVAL, upd_event i (\<lambda>e. e\<lparr>event_bits := event_bits e OR bits\<rparr>) k)"
  using assms by (simp add: rt_event_send_def Let_def event_option_def)

section \<open>Witnesses\<close>

text \<open>Thread 1 waits for bits 0 and 2 of event 3, to be cleared; a second scene with no option.\<close>

definition event_scene :: "u8 \<Rightarrow> kernel" where
  "event_scene opt = snd (rt_event_recv 3 5 opt RT_WAITING_FOREVER two_threads)"

lemma event_scene_inv: "kinv (event_scene 5)" "ipc_inv (event_scene 5)"
proof -
  have opt: "event_option 5" by (simp add: event_option_def RT_EVENT_FLAG_AND_def)
  show "kinv (event_scene 5)" "ipc_inv (event_scene 5)"
    unfolding event_scene_def by (rule event_recv_inv[OF kinv_two_threads ipc_two_threads two_threads_running(1) opt])+
qed

theorem rt_event_send_serves_witness:
  "\<exists>k'. rt_event_send 3 7 (event_scene 5) = (RT_EOK, k') \<and>
    threads k' = (\<lambda>t. served [(1, 5)] t (threads (event_scene 5) t)) \<and>
    lists k' (EventQ 3) = filter (\<lambda>t. t \<notin> fst ` set [(1, 5 :: u32)]) (lists (event_scene 5) (EventQ 3)) \<and>
    event_bits (events k' 3) = 2 \<and>
    (\<forall>t \<in> set (lists k' (EventQ 3)). \<not> event_hit 2 (threads k' t)) \<and>
    (\<forall>(t, got) \<in> set [(1, 5)]. error (threads (event_scene 5) t) = RT_EOK \<longrightarrow>
       rt_event_recv_resume t k' = (RT_EOK, Some got)) \<and>
    ([(1 :: nat, 5 :: u32)] \<noteq> [] \<longrightarrow> (\<exists>r. current_thread k' = Some r \<and> most_urgent k' r)) \<and> kinv k' \<and> ipc_inv k'"
proof (rule rt_event_send_serves[OF event_scene_inv])
  show "lock_nest (event_scene 5) = 0" by code_simp
  show "event_serve (threads (event_scene 5)) (event_bits (events (event_scene 5) 3) OR 7)
      (lists (event_scene 5) (EventQ 3)) = ([(1, 5)], 2)" by code_simp
qed simp

theorem rt_event_send_poisoned_witness:
  "rt_event_send 3 7 (event_scene 0) =
    (- RT_EINVAL, upd_event 3 (\<lambda>e. e\<lparr>event_bits := event_bits e OR 7\<rparr>) (event_scene 0))"
proof (rule rt_event_send_poisoned)
  show "lists (event_scene 0) (EventQ 3) = [1]" by code_simp
  show "\<not> event_option (event_info (threads (event_scene 0) 1))" by code_simp
qed simp

end
