(* ===== verification/Ipc_Queues.thy ===== *)
theory Ipc_Queues
  imports Ipc_Event
begin

text \<open>
  Mailboxes and message queues as parts of the kernel: the calls keep the invariants, wake the
  right threads, and at the level of the whole kernel state the non-blocking calls are an instance
  of the queue contract. A message queue has calls between their two critical sections, whose
  slots are neither queued nor free; \<open>mq_all k flight\<close> says so.
\<close>

section \<open>Mailboxes\<close>

lemma mb_tail_inv:
  assumes inv: "kinv k" "ipc_inv k" and room: "mb_entry (mailboxes k i) \<noteq> mb_size (mailboxes k i)"
  shows "kinv (snd (rt_mb_send_tail i v k))" and "ipc_inv (snd (rt_mb_send_tail i v k))"
proof -
  have "kinv (snd (rt_mb_send_tail i v k)) \<and> ipc_inv (snd (rt_mb_send_tail i v k))"
  proof (cases "mb_put v (mailboxes k i)")
    case (Done p)
    obtain r mb where p: "p = (r, mb)" by (cases p)
    have "mb_inv mb" if reg: "OMailbox i \<in> set (objects k)"
    proof -
      have "mb_inv (mailboxes k i)" using inv(2) reg by (simp add: ipc_inv_def mailbox_inv_def)
      from mb_put_room[OF this room, of v] show ?thesis using Done p by (metis exec.inject prod.inject)
    qed
    then have "ipc_inv (upd_mailbox i (\<lambda>_. mb) k)" by (intro ipc_inv_upd_mailbox inv)
    then show ?thesis
      using inv Done p by (simp add: rt_mb_send_tail_def Let_def kinv_list_resume ipc_inv_list_resume)
  qed (use inv in \<open>simp_all add: rt_mb_send_tail_def\<close>)
  then show "kinv (snd (rt_mb_send_tail i v k))" "ipc_inv (snd (rt_mb_send_tail i v k))" by simp_all
qed

lemma mb_recv_tail_inv:
  assumes inv: "kinv k" "ipc_inv k" and some: "mb_entry (mailboxes k i) \<noteq> 0"
  shows "kinv (snd (rt_mb_recv_tail i k))" and "ipc_inv (snd (rt_mb_recv_tail i k))"
proof -
  have "kinv (snd (rt_mb_recv_tail i k)) \<and> ipc_inv (snd (rt_mb_recv_tail i k))"
  proof (cases "mb_get (mailboxes k i)")
    case (Done p)
    obtain v mb where p: "p = (v, mb)" by (cases p)
    have "mb_inv mb" if reg: "OMailbox i \<in> set (objects k)"
    proof -
      have "mb_inv (mailboxes k i)" using inv(2) reg by (simp add: ipc_inv_def mailbox_inv_def)
      from mb_get_some[OF this some] show ?thesis using Done p by (metis exec.inject prod.inject)
    qed
    then have "ipc_inv (upd_mailbox i (\<lambda>_. mb) k)" by (intro ipc_inv_upd_mailbox inv)
    then show ?thesis
      using inv Done p by (simp add: rt_mb_recv_tail_def Let_def kinv_list_resume ipc_inv_list_resume)
  qed (use inv in \<open>simp_all add: rt_mb_recv_tail_def\<close>)
  then show "kinv (snd (rt_mb_recv_tail i k))" "ipc_inv (snd (rt_mb_recv_tail i k))" by simp_all
qed

text \<open>The loops, in the running thread.\<close>

lemma wait_state:
  assumes inv: "kinv k" "ipc_inv k" and rdy: "stat_of (threads k t) = RT_THREAD_READY"
    and l: "is_wait l" and "\<And>i. l \<noteq> SemQ i" "\<And>i. l \<noteq> MutexQ i" "\<And>i. l \<noteq> EventQ i"
  defines "k1 \<equiv> upd_thread t (\<lambda>th. th\<lparr>error := RT_EOK\<rparr>) k"
  shows "kinv (wait_time t time (rt_ipc_list_suspend l t flag k1))"
    and "ipc_inv (wait_time t time (rt_ipc_list_suspend l t flag k1))"
    and "waits_in l t flag time k1 (wait_time t time (rt_ipc_list_suspend l t flag k1))"
    and "error (threads (wait_time t time (rt_ipc_list_suspend l t flag k1)) t) = RT_EOK"
proof -
  have k1: "kinv k1" "ipc_inv k1" using inv by (simp_all add: k1_def)
  have r1: "stat_of (threads k1 t) = RT_THREAD_READY" using rdy by (simp add: k1_def)
  show "kinv (wait_time t time (rt_ipc_list_suspend l t flag k1))" by (rule kinv_block[OF k1(1) r1 l])
  show "ipc_inv (wait_time t time (rt_ipc_list_suspend l t flag k1))"
    by (rule ipc_inv_block[OF k1(2) l]) (use assms in auto)
  note b = block_effect[OF k1(1) r1 l, where flag = flag and time = time]
  show "waits_in l t flag time k1 (wait_time t time (rt_ipc_list_suspend l t flag k1))" by (rule b(1))
  show "error (threads (wait_time t time (rt_ipc_list_suspend l t flag k1)) t) = RT_EOK"
    using b(2) by (simp add: k1_def)
qed

lemma mb_send_loop_inv:
  assumes inv: "kinv k" "ipc_inv k" and rdy: "stat_of (threads k t) = RT_THREAD_READY"
  shows "kinv (snd (rt_mb_send_loop (Some t) i v timeout k))" and "ipc_inv (snd (rt_mb_send_loop (Some t) i v timeout k))"
  using wait_state(1,2)[OF inv rdy, of "MbSendQ i"] mb_tail_inv[OF inv, of i v] inv
  by (auto simp: rt_mb_send_loop_def Let_def)

lemma mb_recv_loop_inv:
  assumes inv: "kinv k" "ipc_inv k" and rdy: "stat_of (threads k t) = RT_THREAD_READY"
  shows "kinv (snd (rt_mb_recv_loop (Some t) i timeout k))" and "ipc_inv (snd (rt_mb_recv_loop (Some t) i timeout k))"
  using wait_state(1,2)[OF inv rdy, of "MbRecvQ i"] mb_recv_tail_inv[OF inv, of i] inv
  by (auto simp: rt_mb_recv_loop_def Let_def)

lemma mb_calls_inv:
  assumes inv: "kinv k" "ipc_inv k" and run: "running k t"
  shows "kinv (snd (rt_mb_send_wait i v timeout k))" and "ipc_inv (snd (rt_mb_send_wait i v timeout k))"
    and "kinv (snd (rt_mb_recv i timeout k))" and "ipc_inv (snd (rt_mb_recv i timeout k))"
    and "kinv (snd (rt_mb_send_resume t i v timeout td k))" and "ipc_inv (snd (rt_mb_send_resume t i v timeout td k))"
    and "kinv (snd (rt_mb_recv_resume t i timeout td k))" and "ipc_inv (snd (rt_mb_recv_resume t i timeout td k))"
proof -
  have rdy: "stat_of (threads k t) = RT_THREAD_READY" using run by (simp add: running_def)
  note l = mb_send_loop_inv[OF inv rdy] mb_recv_loop_inv[OF inv rdy]
  show "kinv (snd (rt_mb_send_wait i v timeout k))" "ipc_inv (snd (rt_mb_send_wait i v timeout k))"
    using run inv l by (auto simp: rt_mb_send_wait_def)
  show "kinv (snd (rt_mb_recv i timeout k))" "ipc_inv (snd (rt_mb_recv i timeout k))"
    using run inv l by (auto simp: rt_mb_recv_def)
  show "kinv (snd (rt_mb_send_resume t i v timeout td k))" "ipc_inv (snd (rt_mb_send_resume t i v timeout td k))"
    using inv l by (auto simp: rt_mb_send_resume_def)
  show "kinv (snd (rt_mb_recv_resume t i timeout td k))" "ipc_inv (snd (rt_mb_recv_resume t i timeout td k))"
    using inv l by (auto simp: rt_mb_recv_resume_def)
qed

lemma mb_control_inv:
  assumes inv: "kinv k" "ipc_inv k"
  shows "kinv (snd (rt_mb_control i cmd k))" and "ipc_inv (snd (rt_mb_control i cmd k))"
    and "kinv (snd (rt_mb_detach i k))" and "ipc_inv (snd (rt_mb_detach i k))"
    and "kinv (snd (rt_mb_delete i k))" and "ipc_inv (snd (rt_mb_delete i k))"
proof -
  let ?k = "rt_ipc_list_resume_all (MbSendQ i) (rt_ipc_list_resume_all (MbRecvQ i) k)"
  have k: "kinv ?k" "ipc_inv ?k" using inv by (simp_all add: kinv_resume_all ipc_inv_resume_all)
  have q: "quiet k ?k" by (rule quiet_trans[OF quiet_resume_all quiet_resume_all])
  have "mb_inv (mailboxes ?k i)" if "OMailbox i \<in> set (objects ?k)"
    using k(2) that by (simp add: ipc_inv_def mailbox_inv_def)
  then have "ipc_inv (upd_mailbox i (\<lambda>mb. mb\<lparr>mb_entry := 0, mb_in_offset := 0, mb_out_offset := 0\<rparr>) ?k)"
    by (intro ipc_inv_upd_mailbox k) (simp add: mb_inv_def)
  then show "ipc_inv (snd (rt_mb_control i cmd k))" "kinv (snd (rt_mb_control i cmd k))"
    using inv k by (simp_all add: rt_mb_control_def Let_def)
  show "kinv (snd (rt_mb_detach i k))" "ipc_inv (snd (rt_mb_detach i k))"
    "kinv (snd (rt_mb_delete i k))" "ipc_inv (snd (rt_mb_delete i k))"
    using k by (simp_all add: rt_mb_detach_def rt_mb_delete_def Let_def ipc_inv_object)
qed

lemma new_mailbox_inv:
  assumes inv: "ipc_inv k" and obj: "set (objects k') = insert (OMailbox i) (set (objects k))"
    and same: "sems k' = sems k" "mutexes k' = mutexes k" "events k' = events k" "mailboxes k' = mailboxes k"
    "threads k' = threads k" "lists k' = (lists k)(MbRecvQ i := [])"
    and mb: "mb_inv (new_mailbox pool n flag)"
  shows "ipc_inv (upd_list (MbSendQ i) (\<lambda>_. []) (upd_mailbox i (\<lambda>_. new_mailbox pool n flag) k'))"
proof -
  let ?k = "upd_list (MbSendQ i) (\<lambda>_. []) (upd_mailbox i (\<lambda>_. new_mailbox pool n flag) k')"
  have "mutex_ok ?k j = mutex_ok k j" for j
    by (rule mutex_ok_cong) (use same in simp_all)
  then show ?thesis
    using inv obj same mb by (auto simp: ipc_inv_def sem_inv_def mutex_inv_def event_inv_def mailbox_inv_def)
qed

lemma mb_init_inv:
  assumes inv: "kinv k" "ipc_inv k" and pool: "length pool = unat (ucast n :: u16)" "pool \<noteq> []"
  shows "kinv (snd (rt_mb_init i pool n flag k))" and "ipc_inv (snd (rt_mb_init i pool n flag k))"
    and "kinv (snd (rt_mb_create mem (Some pool) n flag k))" and "ipc_inv (snd (rt_mb_create mem (Some pool) n flag k))"
proof -
  note mb = mb_inv_new[OF pool, of flag]
  show "kinv (snd (rt_mb_init i pool n flag k))" "kinv (snd (rt_mb_create mem (Some pool) n flag k))"
    using inv(1) kinv_drop_list
    by (auto simp: rt_mb_init_def rt_mb_create_def rt_ipc_object_init_def Let_def split: option.split)
  show "ipc_inv (snd (rt_mb_init i pool n flag k))"
    unfolding rt_mb_init_def Let_def snd_conv
    by (rule new_mailbox_inv[OF inv(2)]) (simp_all add: rt_ipc_object_init_def upd_list_def mb)
  show "ipc_inv (snd (rt_mb_create mem (Some pool) n flag k))"
  proof (cases mem)
    case (Some j)
    have "ipc_inv (upd_list (MbSendQ j) (\<lambda>_. []) (upd_mailbox j (\<lambda>_. new_mailbox pool n flag)
        (rt_ipc_object_init (MbRecvQ j) (rt_object_allocate (OMailbox j) k))))"
      by (rule new_mailbox_inv[OF inv(2)])
        (simp_all add: rt_ipc_object_init_def upd_list_def rt_object_allocate_def mb)
    with Some show ?thesis by (simp add: rt_mb_create_def Let_def)
  qed (use inv in \<open>simp add: rt_mb_create_def\<close>)
qed

section \<open>The kernel's mailbox is a bounded queue\<close>

text \<open>
  The non-blocking calls on mailbox \<open>i\<close>, whoever makes them, as queue operations on the
  whole kernel state; a refused call leaves the state alone.
\<close>

definition kmb_inv :: "nat \<Rightarrow> kernel \<Rightarrow> bool" where
  "kmb_inv i k \<longleftrightarrow> kinv k \<and> ipc_inv k \<and> OMailbox i \<in> set (objects k)"

definition kmb_put :: "nat \<Rightarrow> u32 \<Rightarrow> kernel \<Rightarrow> kernel option" where
  "kmb_put i v k = (case rt_mb_send i v k of (Returned r, k') \<Rightarrow> if r = RT_EOK then Some k' else None | _ \<Rightarrow> None)"

definition kmb_get :: "nat \<Rightarrow> kernel \<Rightarrow> (u32 \<times> kernel) option" where
  "kmb_get i k = (case rt_mb_recv i 0 k of (Returned (r, Some v), k') \<Rightarrow> Some (v, k') | _ \<Rightarrow> None)"

lemma kmb_mailbox: "kmb_inv i k \<Longrightarrow> mb_inv (mailboxes k i)"
  by (simp add: kmb_inv_def ipc_inv_def mailbox_inv_def)

lemma objects_frames [simp]:
  "objects (rt_schedule k) = objects k" "objects (rt_ipc_list_resume l k) = objects k"
  "objects (upd_list l f k) = objects k" "objects (upd_thread t g k) = objects k"
  by (simp_all add: rt_ipc_list_resume_def rt_thread_resume_def rt_timer_stop_def rt_timer_deactivate_def
      rt_timer_remove_def rt_schedule_insert_thread_def tlist_remove_def upd_timer_def upd_list_def upd_thread_def
      Let_def split: list.split)

text \<open>What a successful send or receive does.\<close>

lemma mb_send_effect:
  assumes inv: "kmb_inv i k" and room: "mb_entry (mailboxes k i) \<noteq> mb_size (mailboxes k i)"
  obtains k' where "rt_mb_send_tail i v k = (Returned RT_EOK, k')" and "kmb_inv i k'"
    and "mb_contents (mailboxes k' i) = mb_contents (mailboxes k i) @ [v]"
    and "mb_size (mailboxes k' i) = mb_size (mailboxes k i)"
proof -
  obtain mb where p: "mb_put v (mailboxes k i) = Done (RT_EOK, mb)"
    "mb_contents mb = mb_contents (mailboxes k i) @ [v]" "mb_size mb = mb_size (mailboxes k i)"
    using mb_put_room[OF kmb_mailbox[OF inv] room, of v] by metis
  let ?k1 = "upd_mailbox i (\<lambda>_. mb) k"
  let ?k2 = "if lists k (MbRecvQ i) \<noteq> [] then rt_schedule (rt_ipc_list_resume (MbRecvQ i) ?k1) else ?k1"
  have eq: "rt_mb_send_tail i v k = (Returned RT_EOK, ?k2)" using p(1) by (simp add: rt_mb_send_tail_def Let_def)
  have "mailboxes ?k2 = mailboxes ?k1" using quietD(4)[OF quiet_list_resume] by simp
  moreover have "objects ?k2 = objects k" by simp
  moreover have "kinv ?k2" "ipc_inv ?k2"
    using mb_tail_inv[of k i v] inv room eq by (simp_all add: kmb_inv_def)
  ultimately show thesis
    using eq p(2,3) inv by (intro that[of ?k2]) (simp_all add: kmb_inv_def)
qed

lemma mb_recv_effect:
  assumes inv: "kmb_inv i k" and some: "mb_entry (mailboxes k i) \<noteq> 0"
  obtains k' where "rt_mb_recv_tail i k = (Returned (RT_EOK, Some (hd (mb_contents (mailboxes k i)))), k')"
    and "kmb_inv i k'" and "mb_contents (mailboxes k' i) = tl (mb_contents (mailboxes k i))"
    and "mb_size (mailboxes k' i) = mb_size (mailboxes k i)"
proof -
  obtain mb where p: "mb_get (mailboxes k i) = Done (hd (mb_contents (mailboxes k i)), mb)"
    "mb_contents mb = tl (mb_contents (mailboxes k i))" "mb_size mb = mb_size (mailboxes k i)"
    using mb_get_some[OF kmb_mailbox[OF inv] some] by metis
  let ?k1 = "upd_mailbox i (\<lambda>_. mb) k"
  let ?k2 = "if lists k (MbSendQ i) \<noteq> [] then rt_schedule (rt_ipc_list_resume (MbSendQ i) ?k1) else ?k1"
  have eq: "rt_mb_recv_tail i k = (Returned (RT_EOK, Some (hd (mb_contents (mailboxes k i)))), ?k2)"
    using p(1) by (simp add: rt_mb_recv_tail_def Let_def)
  have "mailboxes ?k2 = mailboxes ?k1" using quietD(4)[OF quiet_list_resume] by simp
  moreover have "objects ?k2 = objects k" by simp
  moreover have "kinv ?k2" "ipc_inv ?k2"
    using mb_recv_tail_inv[of k i] inv some eq by (simp_all add: kmb_inv_def)
  ultimately show thesis
    using eq p(2,3) inv by (intro that[of ?k2]) (simp_all add: kmb_inv_def)
qed

lemma mb_contents_empty: "mb_contents mb = [] \<longleftrightarrow> mb_entry mb = 0"
  by (auto simp: mb_contents_def unat_eq_0 dest: arg_cong[of _ _ length])

interpretation kmb: bounded_fifo "kmb_inv i" "\<lambda>k. unat (mb_size (mailboxes k i))" "\<lambda>_ _. True"
  "\<lambda>k. mb_contents (mailboxes k i)" "kmb_put i" "kmb_get i" for i
proof unfold_locales
  fix s :: kernel and x
  assume inv: "kmb_inv i s"
  have len: "length (mb_contents (mailboxes s i)) = unat (mb_entry (mailboxes s i))" by (simp add: mb_contents_def)
  show "length (mb_contents (mailboxes s i)) \<le> unat (mb_size (mailboxes s i))"
    using mb_invD(3)[OF kmb_mailbox[OF inv]] len by simp
  show "kmb_put i x s = None" if "length (mb_contents (mailboxes s i)) = unat (mb_size (mailboxes s i))"
    using that len by (simp add: kmb_put_def rt_mb_send_def rt_mb_send_wait_def unsigned_word_eqI RT_EFULL_def RT_EOK_def)
  show "\<exists>s'. kmb_put i x s = Some s' \<and> kmb_inv i s' \<and>
      mb_contents (mailboxes s' i) = mb_contents (mailboxes s i) @ [x] \<and>
      unat (mb_size (mailboxes s' i)) = unat (mb_size (mailboxes s i)) \<and> (\<lambda>_ :: u32. True) = (\<lambda>_. True)"
    if "length (mb_contents (mailboxes s i)) < unat (mb_size (mailboxes s i))"
  proof -
    have ne: "mb_entry (mailboxes s i) \<noteq> mb_size (mailboxes s i)" using that len by auto
    obtain k' where "rt_mb_send_tail i x s = (Returned RT_EOK, k')" "kmb_inv i k'"
      "mb_contents (mailboxes k' i) = mb_contents (mailboxes s i) @ [x]"
      "mb_size (mailboxes k' i) = mb_size (mailboxes s i)" using mb_send_effect[OF inv ne] .
    with ne show ?thesis by (simp add: kmb_put_def rt_mb_send_def rt_mb_send_wait_def rt_mb_send_loop_def)
  qed
  show "kmb_get i s = None" if "mb_contents (mailboxes s i) = []"
    using that by (simp add: mb_contents_empty kmb_get_def rt_mb_recv_def)
  show "\<exists>s'. kmb_get i s = Some (x, s') \<and> kmb_inv i s' \<and> mb_contents (mailboxes s' i) = xs \<and>
      unat (mb_size (mailboxes s' i)) = unat (mb_size (mailboxes s i)) \<and> (\<lambda>_ :: u32. True) = (\<lambda>_. True)"
    if c: "mb_contents (mailboxes s i) = x # xs" for xs
  proof -
    have ne: "mb_entry (mailboxes s i) \<noteq> 0" using c mb_contents_empty[of "mailboxes s i"] by simp
    obtain k' where "rt_mb_recv_tail i s = (Returned (RT_EOK, Some (hd (mb_contents (mailboxes s i)))), k')"
      "kmb_inv i k'" "mb_contents (mailboxes k' i) = tl (mb_contents (mailboxes s i))"
      "mb_size (mailboxes k' i) = mb_size (mailboxes s i)" using mb_recv_effect[OF inv ne] .
    with ne c show ?thesis by (simp add: kmb_get_def rt_mb_recv_def rt_mb_recv_loop_def)
  qed
qed

section \<open>Message queues\<close>

lemma mq_link_inv:
  assumes inv: "kinv k" "ipc_inv k"
  shows "kinv (snd (rt_mq_send_link lnk i k))" and "ipc_inv (snd (rt_mq_send_link lnk i k))"
    and "kinv (rt_mq_recv_free i msg k)" and "ipc_inv (rt_mq_recv_free i msg k)"
  using inv
  by (auto simp: rt_mq_send_link_def rt_mq_recv_free_def Let_def kinv_list_resume ipc_inv_list_resume split: prod.split)

lemma mq_send_loop_inv:
  assumes inv: "kinv k" "ipc_inv k" and rdy: "stat_of (threads k t) = RT_THREAD_READY"
  shows "kinv (snd (rt_mq_send_loop (Some t) i buf timeout k))" and "ipc_inv (snd (rt_mq_send_loop (Some t) i buf timeout k))"
  using wait_state(1,2)[OF inv rdy, of "MqSendQ i"] inv
  by (auto simp: rt_mq_send_loop_def Let_def mq_link_inv split: option.split exec.split prod.split)

lemma mq_recv_loop_inv:
  assumes inv: "kinv k" "ipc_inv k" and rdy: "stat_of (threads k t) = RT_THREAD_READY"
  shows "kinv (snd (rt_mq_recv_loop (Some t) i n timeout k))" and "ipc_inv (snd (rt_mq_recv_loop (Some t) i n timeout k))"
  using wait_state(1,2)[OF inv rdy, of "MqRecvQ i"] inv
  by (auto simp: rt_mq_recv_loop_def Let_def mq_link_inv split: option.split exec.split prod.split)

lemma mq_calls_inv:
  assumes inv: "kinv k" "ipc_inv k" and run: "running k t"
  shows "kinv (snd (rt_mq_send_wait i buf timeout k))" and "ipc_inv (snd (rt_mq_send_wait i buf timeout k))"
    and "kinv (snd (rt_mq_recv i n timeout k))" and "ipc_inv (snd (rt_mq_recv i n timeout k))"
    and "kinv (snd (rt_mq_urgent i buf k))" and "ipc_inv (snd (rt_mq_urgent i buf k))"
    and "kinv (snd (rt_mq_send_resume t i buf timeout td k))" and "ipc_inv (snd (rt_mq_send_resume t i buf timeout td k))"
    and "kinv (snd (rt_mq_recv_resume t i n timeout td k))" and "ipc_inv (snd (rt_mq_recv_resume t i n timeout td k))"
proof -
  have rdy: "stat_of (threads k t) = RT_THREAD_READY" using run by (simp add: running_def)
  note l = mq_send_loop_inv[OF inv rdy] mq_recv_loop_inv[OF inv rdy]
  show "kinv (snd (rt_mq_send_wait i buf timeout k))" "ipc_inv (snd (rt_mq_send_wait i buf timeout k))"
    using run inv l by (auto simp: rt_mq_send_wait_def)
  show "kinv (snd (rt_mq_recv i n timeout k))" "ipc_inv (snd (rt_mq_recv i n timeout k))"
    using run inv l by (auto simp: rt_mq_recv_def)
  show "kinv (snd (rt_mq_urgent i buf k))" "ipc_inv (snd (rt_mq_urgent i buf k))"
    using inv by (auto simp: rt_mq_urgent_def mq_link_inv split: option.split exec.split prod.split)
  show "kinv (snd (rt_mq_send_resume t i buf timeout td k))" "ipc_inv (snd (rt_mq_send_resume t i buf timeout td k))"
    using inv l by (auto simp: rt_mq_send_resume_def)
  show "kinv (snd (rt_mq_recv_resume t i n timeout td k))" "ipc_inv (snd (rt_mq_recv_resume t i n timeout td k))"
    using inv l by (auto simp: rt_mq_recv_resume_def)
qed

lemma mq_control_inv:
  assumes inv: "kinv k" "ipc_inv k"
  shows "kinv (snd (rt_mq_control i cmd k))" and "ipc_inv (snd (rt_mq_control i cmd k))"
    and "kinv (snd (rt_mq_detach i k))" and "ipc_inv (snd (rt_mq_detach i k))"
    and "kinv (snd (rt_mq_delete i k))" and "ipc_inv (snd (rt_mq_delete i k))"
  using inv
  by (auto simp: rt_mq_control_def rt_mq_detach_def rt_mq_delete_def Let_def kinv_resume_all ipc_inv_resume_all
      ipc_inv_object split: exec.split)

text \<open>The reset empties the queue within as many rounds as there are messages.\<close>

lemma mq_reset_step:
  "msg_queue_head mq = Some x \<Longrightarrow> mq_reset_loop (Suc n) mq =
     mq_reset_loop n (mq_release x (mq\<lparr>msg_queue_head := msg_next mq x,
       msg_queue_tail := (if msg_queue_tail mq = Some x then None else msg_queue_tail mq)\<rparr>))"
  by (subst mq_reset_loop.simps, cases mq) (simp add: Let_def)

lemma mq_reset_shape:
  assumes "mq_shape F qs fs mq" and "length qs \<le> n"
  obtains mq' fs' where "mq_reset_loop n mq = Done mq'" and "mq_shape F [] fs' (mq'\<lparr>mq_entry := 0\<rparr>)"
    and "mq_max_msgs mq' = mq_max_msgs mq" and "mq_msg_size mq' = mq_msg_size mq"
proof -
  have "\<exists>mq' fs'. mq_reset_loop n mq = Done mq' \<and> mq_shape F [] fs' (mq'\<lparr>mq_entry := 0\<rparr>) \<and>
      mq_max_msgs mq' = mq_max_msgs mq \<and> mq_msg_size mq' = mq_msg_size mq"
    if "mq_shape F qs fs (mq\<lparr>mq_entry := of_nat (length qs)\<rparr>)" "length qs \<le> n" for n
    using that
  proof (induction qs arbitrary: mq fs n)
    case Nil
    then have "msg_queue_head mq = None" by (simp add: mq_shape_def)
    then have "mq_reset_loop n mq = Done mq" by (simp add: mq_reset_loop.simps)
    with Nil.prems show ?case by (intro exI[of _ mq] exI[of _ fs]) simp
  next
    case (Cons x qs)
    let ?mq = "mq\<lparr>mq_entry := of_nat (length (x # qs))\<rparr>"
    obtain m where n: "n = Suc m" using Cons.prems(2) by (cases n) auto
    note d = mq_shapeD[OF Cons.prems(1)]
    let ?r = "mq_release x (mq\<lparr>msg_queue_head := msg_next mq x,
       msg_queue_tail := (if msg_queue_tail mq = Some x then None else msg_queue_tail mq)\<rparr>)"
    obtain mq1 where u: "mq_unlink ?mq = Done (x, mq1)" "mq_shape (insert x F) qs fs mq1"
      using mq_unlink_shape[OF Cons.prems(1)] by metis
    have "x \<notin> F" using d(4) by auto
    then have s: "mq_shape F qs (x # fs) (mq_release x mq1)" using mq_release_shape[OF u(2), of x] by simp
    have head: "msg_queue_head mq = Some x" using d(7) by simp
    have pos: "mq_entry ?mq \<noteq> 0" using d(10) by auto
    have "mq_release x mq1 = ?r\<lparr>mq_entry := mq_entry ?mq - 1\<rparr>"
      using u(1) head pos by (auto simp: mq_unlink_def Let_def mq_release_def word_gt_0)
    moreover have "mq_entry ?mq - 1 = of_nat (length qs)" by simp
    ultimately have "mq_shape F qs (x # fs) (?r\<lparr>mq_entry := of_nat (length qs)\<rparr>)" using s by simp
    then obtain mq' fs' where "mq_reset_loop m ?r = Done mq'" "mq_shape F [] fs' (mq'\<lparr>mq_entry := 0\<rparr>)"
      "mq_max_msgs mq' = mq_max_msgs ?r" "mq_msg_size mq' = mq_msg_size ?r"
      using Cons.IH[of "x # fs" ?r m] Cons.prems(2) n by auto
    then show ?case using mq_reset_step[OF head, of m] n by (auto simp: mq_release_def)
  qed
  moreover have "mq\<lparr>mq_entry := of_nat (length qs)\<rparr> = mq"
    using mq_shapeD(10)[OF assms(1), symmetric] by (cases mq) simp
  ultimately show thesis using assms that by metis
qed

section \<open>The kernel's message queue is a bounded queue\<close>

definition kmq_inv :: "nat \<Rightarrow> kernel \<Rightarrow> bool" where
  "kmq_inv i k \<longleftrightarrow> kinv k \<and> ipc_inv k \<and> mq_inv {} (mqueues k i)"

definition kmq_put :: "nat \<Rightarrow> u8 list \<Rightarrow> kernel \<Rightarrow> kernel option" where
  "kmq_put i buf k = (case rt_mq_send i buf k of (Returned r, k') \<Rightarrow> if r = RT_EOK then Some k' else None | _ \<Rightarrow> None)"

definition kmq_get :: "nat \<Rightarrow> kernel \<Rightarrow> (u8 list \<times> kernel) option" where
  "kmq_get i k = (case rt_mq_recv i (ucast (mq_msg_size (mqueues k i))) 0 k of
     (Returned (r, Some bs), k') \<Rightarrow> Some (bs, k') | _ \<Rightarrow> None)"

text \<open>A send that finds a free slot, and a receive that finds a message.\<close>

lemma kmq_inv_upd:
  "kinv k \<Longrightarrow> ipc_inv k \<Longrightarrow> mq_inv {} (f (mqueues k i)) \<Longrightarrow> kmq_inv i (upd_mq i f k)"
  by (simp add: kmq_inv_def)

lemma kmq_inv_quiet: "quiet k k' \<Longrightarrow> kinv k' \<Longrightarrow> kmq_inv i k \<Longrightarrow> kmq_inv i k'"
  using ipc_inv_quiet[of k k'] quietD(5)[of k k'] by (simp add: kmq_inv_def)

lemma quiet_wake_next: "quiet k (if lists k l \<noteq> [] then rt_schedule (rt_ipc_list_resume l k) else k)"
  using quiet_trans[OF quiet_list_resume quiet_schedule] by simp

lemma kinv_wake_next: "kinv k \<Longrightarrow> kinv (if lists k l \<noteq> [] then rt_schedule (rt_ipc_list_resume l k) else k)"
  by (simp add: kinv_list_resume)

lemma mq_send_effect:
  assumes inv: "kinv k" "ipc_inv k" and sh: "mq_shape {} qs (x # fs) (mqueues k i)"
    and len: "length buf \<le> unat (mq_msg_size (mqueues k i))"
  obtains k' where "rt_mq_send_loop self i buf timeout k = (Returned RT_EOK, k')" and "kmq_inv i k'"
    and "mq_contents (mqueues k' i) = mq_contents (mqueues k i) @ [blit 0 buf (msg_data (mqueues k i) x)]"
    and "mq_msg_size (mqueues k' i) = mq_msg_size (mqueues k i)"
    and "mq_max_msgs (mqueues k' i) = mq_max_msgs (mqueues k i)"
proof -
  obtain m1 m2 m3 where m: "mq_grab (mqueues k i) = Some (x, m1)" "mq_fill x buf m1 = Done m2"
    "mq_link x m2 = (RT_EOK, m3)" "mq_shape {} (qs @ [x]) fs m3"
    "mq_contents m3 = mq_contents (mqueues k i) @ [blit 0 buf (msg_data (mqueues k i) x)]"
    "mq_msg_size m3 = mq_msg_size (mqueues k i)" "mq_max_msgs m3 = mq_max_msgs (mqueues k i)"
    using mq_try_send_room[OF sh len] by metis
  have two: "upd_mq i f (upd_mq i g k) = upd_mq i (\<lambda>mq. f (g mq)) k" for f g by (simp add: upd_mq_def)
  let ?k1 = "upd_mq i (\<lambda>_. m3) k"
  let ?k2 = "if lists ?k1 (MqRecvQ i) \<noteq> [] then rt_schedule (rt_ipc_list_resume (MqRecvQ i) ?k1) else ?k1"
  have "rt_mq_send_loop self i buf timeout k = (Returned RT_EOK, ?k2)"
    using m(1-3) by (simp add: rt_mq_send_loop_def rt_mq_send_link_def Let_def two)
  moreover have k1: "kmq_inv i ?k1" by (rule kmq_inv_upd[OF inv]) (use m(4) in \<open>auto simp: mq_inv_def\<close>)
  moreover note q = quiet_wake_next[of ?k1 "MqRecvQ i"]
  have "kmq_inv i ?k2" by (rule kmq_inv_quiet[OF q kinv_wake_next k1]) (use k1 in \<open>simp add: kmq_inv_def\<close>)
  moreover have "mqueues ?k2 i = m3" using quietD(5)[OF q] by simp
  ultimately show thesis
    using m(5-7) by (intro that[of ?k2]) simp_all
qed

lemma mq_recv_effect:
  assumes inv: "kinv k" "ipc_inv k" and sh: "mq_shape {} (x # qs) fs (mqueues k i)"
  obtains k' where
    "rt_mq_recv_loop self i n timeout k = (Returned (RT_EOK, Some (take (unat n) (hd (mq_contents (mqueues k i))))), k')"
    and "kmq_inv i k'" and "mq_contents (mqueues k' i) = tl (mq_contents (mqueues k i))"
    and "mq_msg_size (mqueues k' i) = mq_msg_size (mqueues k i)"
    and "mq_max_msgs (mqueues k' i) = mq_max_msgs (mqueues k i)"
proof -
  obtain m1 where m: "mq_unlink (mqueues k i) = Done (x, m1)"
    "mq_contents (mqueues k i) = msg_data (mqueues k i) x # mq_contents (mq_release x m1)"
    "mq_bytes x n m1 = take (unat n) (msg_data (mqueues k i) x)" "mq_shape {} qs (x # fs) (mq_release x m1)"
    "mq_msg_size m1 = mq_msg_size (mqueues k i)" "mq_max_msgs m1 = mq_max_msgs (mqueues k i)" "mq_entry (mqueues k i) \<noteq> 0"
    using mq_unlink_first[OF sh] by metis
  have two: "upd_mq i f (upd_mq i g k) = upd_mq i (\<lambda>mq. f (g mq)) k" for f g by (simp add: upd_mq_def)
  let ?k1 = "upd_mq i (\<lambda>_. mq_release x m1) k"
  let ?k2 = "if lists ?k1 (MqSendQ i) \<noteq> [] then rt_schedule (rt_ipc_list_resume (MqSendQ i) ?k1) else ?k1"
  have "rt_mq_recv_loop self i n timeout k = (Returned (RT_EOK, Some (take (unat n) (hd (mq_contents (mqueues k i))))), ?k2)"
    using m(1-3,7) by (simp add: rt_mq_recv_loop_def rt_mq_recv_free_def Let_def two)
  moreover have k1: "kmq_inv i ?k1" by (rule kmq_inv_upd[OF inv]) (use m(4) in \<open>auto simp: mq_inv_def\<close>)
  moreover note q = quiet_wake_next[of ?k1 "MqSendQ i"]
  have "kmq_inv i ?k2" by (rule kmq_inv_quiet[OF q kinv_wake_next k1]) (use k1 in \<open>simp add: kmq_inv_def\<close>)
  moreover have "mqueues ?k2 i = mq_release x m1" using quietD(5)[OF q] by simp
  moreover have "mq_msg_size (mq_release x m1) = mq_msg_size m1" "mq_max_msgs (mq_release x m1) = mq_max_msgs m1"
    by (simp_all add: mq_release_def)
  ultimately show thesis
    using m(2,5,6) by (intro that[of ?k2]) simp_all
qed

interpretation kmq: bounded_fifo "kmq_inv i" "\<lambda>k. unat (mq_max_msgs (mqueues k i))"
  "\<lambda>k buf. length buf = unat (mq_msg_size (mqueues k i))" "\<lambda>k. mq_contents (mqueues k i)" "kmq_put i" "kmq_get i" for i
proof unfold_locales
  fix s :: kernel and x
  assume inv: "kmq_inv i s"
  then obtain qs fs where sh: "mq_shape {} qs fs (mqueues s i)" by (auto simp: kmq_inv_def mq_inv_def)
  have ki: "kinv s" "ipc_inv s" using inv by (simp_all add: kmq_inv_def)
  have cont: "mq_contents (mqueues s i) = map (msg_data (mqueues s i)) qs" using mq_contents_shape[OF sh] .
  have bound: "length qs + length fs = unat (mq_max_msgs (mqueues s i))" using mq_shape_bound[OF sh] by simp
  have slot: "length (msg_data (mqueues s i) y) = unat (mq_msg_size (mqueues s i))" if "y \<in> set qs \<union> set fs" for y
    using that mq_shapeD(6,11)[OF sh] by blast
  show "length (mq_contents (mqueues s i)) \<le> unat (mq_max_msgs (mqueues s i))" using cont bound by simp
  show "kmq_put i x s = None"
    if "length x = unat (mq_msg_size (mqueues s i))" "length (mq_contents (mqueues s i)) = unat (mq_max_msgs (mqueues s i))"
  proof -
    have "fs = []" using that(2) cont bound by simp
    then have "msg_queue_free (mqueues s i) = None" using mq_shapeD(8)[OF sh] by simp
    with that(1) show ?thesis by (simp add: kmq_put_def rt_mq_send_def rt_mq_send_wait_def RT_EFULL_def RT_EOK_def)
  qed
  show "\<exists>s'. kmq_put i x s = Some s' \<and> kmq_inv i s' \<and> mq_contents (mqueues s' i) = mq_contents (mqueues s i) @ [x] \<and>
      unat (mq_max_msgs (mqueues s' i)) = unat (mq_max_msgs (mqueues s i)) \<and>
      (\<lambda>b :: u8 list. length b = unat (mq_msg_size (mqueues s' i))) = (\<lambda>b. length b = unat (mq_msg_size (mqueues s i)))"
    if ok: "length x = unat (mq_msg_size (mqueues s i))"
      and room: "length (mq_contents (mqueues s i)) < unat (mq_max_msgs (mqueues s i))"
  proof -
    obtain y fs' where fs: "fs = y # fs'" using room cont bound by (cases fs) auto
    have whole: "blit 0 x (msg_data (mqueues s i) y) = x" by (rule blit_whole) (use slot[of y] fs ok in simp)
    have free: "msg_queue_free (mqueues s i) \<noteq> None" using mq_shapeD(8)[OF sh] fs by simp
    obtain k' where "rt_mq_send_loop (rt_thread_self s) i x 0 s = (Returned RT_EOK, k')" "kmq_inv i k'"
      "mq_contents (mqueues k' i) = mq_contents (mqueues s i) @ [blit 0 x (msg_data (mqueues s i) y)]"
      "mq_msg_size (mqueues k' i) = mq_msg_size (mqueues s i)" "mq_max_msgs (mqueues k' i) = mq_max_msgs (mqueues s i)"
      using mq_send_effect[OF ki sh[unfolded fs], of x] ok by (metis order_refl)
    with whole free ok show ?thesis by (simp add: kmq_put_def rt_mq_send_def rt_mq_send_wait_def)
  qed
  show "kmq_get i s = None" if "mq_contents (mqueues s i) = []"
    using that cont mq_shapeD(10)[OF sh] by (simp add: kmq_get_def rt_mq_recv_def unat_eq_0)
  show "\<exists>s'. kmq_get i s = Some (x, s') \<and> kmq_inv i s' \<and> mq_contents (mqueues s' i) = xs \<and>
      unat (mq_max_msgs (mqueues s' i)) = unat (mq_max_msgs (mqueues s i)) \<and>
      (\<lambda>b :: u8 list. length b = unat (mq_msg_size (mqueues s' i))) = (\<lambda>b. length b = unat (mq_msg_size (mqueues s i)))"
    if c: "mq_contents (mqueues s i) = x # xs" for xs
  proof -
    obtain y qs' where qs: "qs = y # qs'" using c cont by (cases qs) auto
    let ?n = "ucast (mq_msg_size (mqueues s i)) :: u32"
    have all: "take (unat ?n) x = x" using slot[of y] qs c cont by (simp add: unat_ucast_u16)
    have ne: "mq_entry (mqueues s i) \<noteq> 0" using mq_shapeD(10)[OF sh] qs by auto
    obtain k' where "rt_mq_recv_loop (rt_thread_self s) i ?n 0 s =
        (Returned (RT_EOK, Some (take (unat ?n) (hd (mq_contents (mqueues s i))))), k')" "kmq_inv i k'"
      "mq_contents (mqueues k' i) = tl (mq_contents (mqueues s i))"
      "mq_msg_size (mqueues k' i) = mq_msg_size (mqueues s i)" "mq_max_msgs (mqueues k' i) = mq_max_msgs (mqueues s i)"
      using mq_recv_effect[OF ki sh[unfolded qs], of "rt_thread_self s" ?n 0] .
    with c all ne show ?thesis by (simp add: kmq_get_def rt_mq_recv_def)
  qed
qed

text \<open>The four ways a call on a mailbox that may wait goes on.\<close>

lemma mailbox_wait_parts:
  assumes inv: "kmb_inv i k" and run: "running k t" and time: "timeout \<noteq> 0"
  defines "k1 \<equiv> upd_thread t (\<lambda>th. th\<lparr>error := RT_EOK\<rparr>) k"
  shows "mb_entry (mailboxes k i) = mb_size (mailboxes k i) \<Longrightarrow>
      \<exists>k'. rt_mb_send_wait i v timeout k = (Blocked, k') \<and> waits_in (MbSendQ i) t (mb_flag (mailboxes k i)) timeout k1 k' \<and>
        mailboxes k' = mailboxes k \<and> error (threads k' t) = RT_EOK \<and> kmb_inv i k'"
    and "mb_entry (mailboxes k i) = 0 \<Longrightarrow>
      \<exists>k'. rt_mb_recv i timeout k = (Blocked, k') \<and> waits_in (MbRecvQ i) t (mb_flag (mailboxes k i)) timeout k1 k' \<and>
        mailboxes k' = mailboxes k \<and> error (threads k' t) = RT_EOK \<and> kmb_inv i k'"
    and "error (threads k t) = RT_EOK \<Longrightarrow> mb_entry (mailboxes k i) \<noteq> mb_size (mailboxes k i) \<Longrightarrow>
      \<exists>k'. rt_mb_send_resume t i v timeout td k = (Returned RT_EOK, k') \<and>
        mb_contents (mailboxes k' i) = mb_contents (mailboxes k i) @ [v] \<and> kmb_inv i k'"
    and "error (threads k t) = RT_EOK \<Longrightarrow> mb_entry (mailboxes k i) \<noteq> 0 \<Longrightarrow>
      \<exists>k'. rt_mb_recv_resume t i timeout td k = (Returned (RT_EOK, Some (hd (mb_contents (mailboxes k i)))), k') \<and>
        mb_contents (mailboxes k' i) = tl (mb_contents (mailboxes k i)) \<and> kmb_inv i k'"
proof -
  have rdy: "stat_of (threads k t) = RT_THREAD_READY" using run by (simp add: running_def)
  have ki: "kinv k" "ipc_inv k" using inv by (simp_all add: kmb_inv_def)
  note w = wait_state[OF ki rdy, folded k1_def]
  have mk: "mailboxes k1 = mailboxes k" by (simp add: k1_def)
  let ?w = "\<lambda>l. wait_time t timeout (rt_ipc_list_suspend l t (mb_flag (mailboxes k i)) k1)"
  have same: "mailboxes (?w l) = mailboxes k" if "is_wait l" for l
    using quietD(4)[OF join_block[OF that, of t k1 timeout "mb_flag (mailboxes k i)"]] by (simp add: k1_def)
  have obj: "objects (?w l) = objects k" for l
    by (simp add: wait_time_def start_thread_timer_eq rt_ipc_list_suspend_def rt_thread_suspend_def Let_def k1_def
        rt_timer_start_def rt_timer_deactivate_def rt_timer_stop_def rt_timer_remove_def rt_schedule_remove_thread_def)
  show "\<exists>k'. rt_mb_send_wait i v timeout k = (Blocked, k') \<and> waits_in (MbSendQ i) t (mb_flag (mailboxes k i)) timeout k1 k' \<and>
        mailboxes k' = mailboxes k \<and> error (threads k' t) = RT_EOK \<and> kmb_inv i k'"
    if "mb_entry (mailboxes k i) = mb_size (mailboxes k i)"
    using that run time w[of "MbSendQ i"] same[of "MbSendQ i"] obj[of "MbSendQ i"] inv mk
    by (intro exI[of _ "?w (MbSendQ i)"]) (simp add: rt_mb_send_wait_def rt_mb_send_loop_def Let_def kmb_inv_def flip: k1_def)
  show "\<exists>k'. rt_mb_recv i timeout k = (Blocked, k') \<and> waits_in (MbRecvQ i) t (mb_flag (mailboxes k i)) timeout k1 k' \<and>
        mailboxes k' = mailboxes k \<and> error (threads k' t) = RT_EOK \<and> kmb_inv i k'"
    if "mb_entry (mailboxes k i) = 0"
    using that run time w[of "MbRecvQ i"] same[of "MbRecvQ i"] obj[of "MbRecvQ i"] inv mk
    by (intro exI[of _ "?w (MbRecvQ i)"]) (simp add: rt_mb_recv_def rt_mb_recv_loop_def Let_def kmb_inv_def flip: k1_def)
  show "\<exists>k'. rt_mb_send_resume t i v timeout td k = (Returned RT_EOK, k') \<and>
        mb_contents (mailboxes k' i) = mb_contents (mailboxes k i) @ [v] \<and> kmb_inv i k'"
    if "error (threads k t) = RT_EOK" and ne: "mb_entry (mailboxes k i) \<noteq> mb_size (mailboxes k i)"
    using mb_send_effect[OF inv ne, of v] that by (simp add: rt_mb_send_resume_def rt_mb_send_loop_def) metis
  show "\<exists>k'. rt_mb_recv_resume t i timeout td k = (Returned (RT_EOK, Some (hd (mb_contents (mailboxes k i)))), k') \<and>
        mb_contents (mailboxes k' i) = tl (mb_contents (mailboxes k i)) \<and> kmb_inv i k'"
    if "error (threads k t) = RT_EOK" and ne: "mb_entry (mailboxes k i) \<noteq> 0"
    using mb_recv_effect[OF inv ne] that by (simp add: rt_mb_recv_resume_def rt_mb_recv_loop_def) metis
qed

section \<open>Runs of calls on a message queue\<close>

text \<open>
  What a client expects of a queue of at most \<open>cap\<close> messages of at most \<open>sz\<close> bytes, as a
  specification over the messages alone: \<open>mq_expected sz cap ops ms rs ms'\<close> says that the
  answers \<open>rs\<close> to the calls \<open>ops\<close> and the messages \<open>ms'\<close> at the end are right for a queue
  that held \<open>ms\<close>. A receive copies whole slots, so that the bytes it delivers behind a short
  message are not determined.
\<close>

datatype mq_op = Send "u8 list" | Urgent "u8 list" | Recv u32

type_synonym mq_answer = "int \<times> u8 list option"

fun mq_expected :: "nat \<Rightarrow> nat \<Rightarrow> mq_op list \<Rightarrow> u8 list list \<Rightarrow> mq_answer list \<Rightarrow> u8 list list \<Rightarrow> bool" where
  "mq_expected sz cap [] ms rs ms' \<longleftrightarrow> rs = [] \<and> ms' = ms"
| "mq_expected sz cap (op # ops) ms [] ms' \<longleftrightarrow> False"
| "mq_expected sz cap (Send b # ops) ms (r # rs) ms' \<longleftrightarrow>
     (if length b > sz then r = (- RT_ERROR, None) \<and> mq_expected sz cap ops ms rs ms'
      else if length ms = cap then r = (- RT_EFULL, None) \<and> mq_expected sz cap ops ms rs ms'
      else r = (RT_EOK, None) \<and> mq_expected sz cap ops (ms @ [b]) rs ms')"
| "mq_expected sz cap (Urgent b # ops) ms (r # rs) ms' \<longleftrightarrow>
     (if length b > sz then r = (- RT_ERROR, None) \<and> mq_expected sz cap ops ms rs ms'
      else if length ms = cap then r = (- RT_EFULL, None) \<and> mq_expected sz cap ops ms rs ms'
      else r = (RT_EOK, None) \<and> mq_expected sz cap ops (b # ms) rs ms')"
| "mq_expected sz cap (Recv n # ops) ms (r # rs) ms' \<longleftrightarrow>
     (case ms of
        [] \<Rightarrow> r = (- RT_ETIMEOUT, None) \<and> mq_expected sz cap ops [] rs ms'
      | m # ms \<Rightarrow> (\<exists>bs. r = (RT_EOK, Some bs) \<and> length bs = min (unat n) sz \<and> take (length m) bs = take (unat n) m) \<and>
          mq_expected sz cap ops ms rs ms')"

text \<open>The calls of the kernel; a run ends without an answer if one of them blocks.\<close>

definition kmq_call :: "nat \<Rightarrow> mq_op \<Rightarrow> kernel \<Rightarrow> mq_answer call \<times> kernel" where
  "kmq_call i op k =
     (let plain = (\<lambda>(c, k). (case c of Returned r \<Rightarrow> Returned (r, None) | Blocked \<Rightarrow> Blocked, k))
      in case op of
           Send b \<Rightarrow> plain (rt_mq_send i b k)
         | Urgent b \<Rightarrow> plain (rt_mq_urgent i b k)
         | Recv n \<Rightarrow> rt_mq_recv i n 0 k)"

fun kmq_run :: "nat \<Rightarrow> mq_op list \<Rightarrow> kernel \<Rightarrow> (mq_answer list \<times> kernel) option" where
  "kmq_run i [] k = Some ([], k)"
| "kmq_run i (op # ops) k =
     (case kmq_call i op k of
        (Blocked, k) \<Rightarrow> None
      | (Returned r, k) \<Rightarrow> map_option (\<lambda>(rs, k). (r # rs, k)) (kmq_run i ops k))"

text \<open>The slots of the queue hold the messages \<open>ms\<close>, each at the beginning of its slot.\<close>

definition mq_holds :: "u8 list list \<Rightarrow> rt_messagequeue \<Rightarrow> bool" where
  "mq_holds ms mq \<longleftrightarrow> list_all2 (\<lambda>m slot. take (length m) slot = m) ms (mq_contents mq)"

lemma mq_holds_length: "mq_holds ms mq \<Longrightarrow> length (mq_contents mq) = length ms"
  by (simp add: mq_holds_def list_all2_lengthD)

text \<open>An urgent message goes in front: on a queue with a free slot and no calls in progress,
  \<open>rt_mq_urgent\<close> with a message that fits succeeds, and the next receive of that many bytes
  delivers exactly its bytes, before everything that was queued; on a full queue it fails and
  changes nothing, and a message that is too long is refused.\<close>

lemma rt_mq_urgent_front:
  assumes inv: "kmq_inv i k"
  shows "if length buf > unat (mq_msg_size (mqueues k i)) then rt_mq_urgent i buf k = (Returned (- RT_ERROR), k)
    else if length (mq_contents (mqueues k i)) = unat (mq_max_msgs (mqueues k i))
    then rt_mq_urgent i buf k = (Returned (- RT_EFULL), k)
    else \<exists>k' bs. rt_mq_urgent i buf k = (Returned RT_EOK, k') \<and> kmq_inv i k' \<and>
      mq_contents (mqueues k' i) = bs # mq_contents (mqueues k i) \<and> take (length buf) bs = buf \<and>
      mq_msg_size (mqueues k' i) = mq_msg_size (mqueues k i) \<and> mq_max_msgs (mqueues k' i) = mq_max_msgs (mqueues k i)"
proof -
  obtain qs fs where sh: "mq_shape {} qs fs (mqueues k i)" using inv by (auto simp: kmq_inv_def mq_inv_def)
  have ki: "kinv k" "ipc_inv k" using inv by (simp_all add: kmq_inv_def)
  have bound: "length (mq_contents (mqueues k i)) + length fs = unat (mq_max_msgs (mqueues k i))"
    using mq_shape_bound[OF sh] mq_contents_shape[OF sh] by simp
  consider "length buf > unat (mq_msg_size (mqueues k i))" | "length buf \<le> unat (mq_msg_size (mqueues k i))" "fs = []"
    | x fs' where "length buf \<le> unat (mq_msg_size (mqueues k i))" "fs = x # fs'"
    by (cases fs) (auto simp: not_le[symmetric])
  then show ?thesis
  proof cases
    case 1 then show ?thesis by (simp add: rt_mq_urgent_def)
  next
    case 2 then show ?thesis using bound mq_grab_none[OF sh] by (simp add: rt_mq_urgent_def)
  next
    case (3 x fs')
    obtain m1 m2 m3 where m: "mq_grab (mqueues k i) = Some (x, m1)" "mq_fill_urgent x buf m1 = Done m2"
      "mq_link_urgent x m2 = (RT_EOK, m3)" "mq_shape {} (x # qs) fs' m3"
      "mq_contents m3 = blit 0 buf (msg_data (mqueues k i) x) # mq_contents (mqueues k i)"
      "mq_msg_size m3 = mq_msg_size (mqueues k i)" "mq_max_msgs m3 = mq_max_msgs (mqueues k i)"
      using mq_try_urgent_room[OF sh[unfolded 3(2)] 3(1)] by metis
    have two: "upd_mq i f (upd_mq i g k) = upd_mq i (\<lambda>mq. f (g mq)) k" for f g by (simp add: upd_mq_def)
    let ?k1 = "upd_mq i (\<lambda>_. m3) k"
    let ?k2 = "if lists ?k1 (MqRecvQ i) \<noteq> [] then rt_schedule (rt_ipc_list_resume (MqRecvQ i) ?k1) else ?k1"
    have eq: "rt_mq_urgent i buf k = (Returned RT_EOK, ?k2)"
      using m(1-3) 3(1) by (simp add: rt_mq_urgent_def rt_mq_send_link_def Let_def two)
    have k1: "kmq_inv i ?k1" by (rule kmq_inv_upd[OF ki]) (use m(4) in \<open>auto simp: mq_inv_def\<close>)
    note q = quiet_wake_next[of ?k1 "MqRecvQ i"]
    have k2: "kmq_inv i ?k2" by (rule kmq_inv_quiet[OF q kinv_wake_next k1]) (use k1 in \<open>simp add: kmq_inv_def\<close>)
    have "mqueues ?k2 i = m3" using quietD(5)[OF q] by simp
    moreover have "length (msg_data (mqueues k i) x) = unat (mq_msg_size (mqueues k i))"
      using mq_shapeD(6)[OF sh] mq_shapeD(11)[OF sh, of x] 3(2) by auto
    ultimately show ?thesis
      using eq k2 m(5-7) 3 bound by (auto simp: blit_def intro!: exI[of _ ?k2])
  qed
qed

text \<open>A send, in the same way, at the end; and a receive.\<close>

lemma rt_mq_send_last:
  assumes inv: "kmq_inv i k"
  shows "if length buf > unat (mq_msg_size (mqueues k i)) then rt_mq_send i buf k = (Returned (- RT_ERROR), k)
    else if length (mq_contents (mqueues k i)) = unat (mq_max_msgs (mqueues k i))
    then rt_mq_send i buf k = (Returned (- RT_EFULL), k)
    else \<exists>k' bs. rt_mq_send i buf k = (Returned RT_EOK, k') \<and> kmq_inv i k' \<and>
      mq_contents (mqueues k' i) = mq_contents (mqueues k i) @ [bs] \<and> take (length buf) bs = buf \<and>
      mq_msg_size (mqueues k' i) = mq_msg_size (mqueues k i) \<and> mq_max_msgs (mqueues k' i) = mq_max_msgs (mqueues k i)"
proof -
  obtain qs fs where sh: "mq_shape {} qs fs (mqueues k i)" using inv by (auto simp: kmq_inv_def mq_inv_def)
  have ki: "kinv k" "ipc_inv k" using inv by (simp_all add: kmq_inv_def)
  have bound: "length (mq_contents (mqueues k i)) + length fs = unat (mq_max_msgs (mqueues k i))"
    using mq_shape_bound[OF sh] mq_contents_shape[OF sh] by simp
  consider "length buf > unat (mq_msg_size (mqueues k i))" | "length buf \<le> unat (mq_msg_size (mqueues k i))" "fs = []"
    | x fs' where "length buf \<le> unat (mq_msg_size (mqueues k i))" "fs = x # fs'"
    by (cases fs) (auto simp: not_le[symmetric])
  then show ?thesis
  proof cases
    case 1 then show ?thesis by (simp add: rt_mq_send_def rt_mq_send_wait_def)
  next
    case 2
    then have "msg_queue_free (mqueues k i) = None" using mq_shapeD(8)[OF sh] by simp
    with 2 show ?thesis using bound by (simp add: rt_mq_send_def rt_mq_send_wait_def)
  next
    case (3 x fs')
    have free: "msg_queue_free (mqueues k i) \<noteq> None" using mq_shapeD(8)[OF sh] 3(2) by simp
    obtain k' where "rt_mq_send_loop (rt_thread_self k) i buf 0 k = (Returned RT_EOK, k')" "kmq_inv i k'"
      "mq_contents (mqueues k' i) = mq_contents (mqueues k i) @ [blit 0 buf (msg_data (mqueues k i) x)]"
      "mq_msg_size (mqueues k' i) = mq_msg_size (mqueues k i)" "mq_max_msgs (mqueues k' i) = mq_max_msgs (mqueues k i)"
      using mq_send_effect[OF ki sh[unfolded 3(2)] 3(1)] by metis
    with free 3 bound show ?thesis by (simp add: rt_mq_send_def rt_mq_send_wait_def blit_def)
  qed
qed

lemma rt_mq_recv_first:
  assumes inv: "kmq_inv i k"
  shows "case mq_contents (mqueues k i) of
      [] \<Rightarrow> rt_mq_recv i n 0 k = (Returned (- RT_ETIMEOUT, None), k)
    | slot # slots \<Rightarrow> \<exists>k'. rt_mq_recv i n 0 k = (Returned (RT_EOK, Some (take (unat n) slot)), k') \<and> kmq_inv i k' \<and>
        mq_contents (mqueues k' i) = slots \<and> length slot = unat (mq_msg_size (mqueues k i)) \<and>
        mq_msg_size (mqueues k' i) = mq_msg_size (mqueues k i) \<and> mq_max_msgs (mqueues k' i) = mq_max_msgs (mqueues k i)"
proof -
  obtain qs fs where sh: "mq_shape {} qs fs (mqueues k i)" using inv by (auto simp: kmq_inv_def mq_inv_def)
  have ki: "kinv k" "ipc_inv k" using inv by (simp_all add: kmq_inv_def)
  note cont = mq_contents_shape[OF sh]
  show ?thesis
  proof (cases qs)
    case Nil
    then show ?thesis using cont mq_shapeD(10)[OF sh] by (simp add: rt_mq_recv_def unat_eq_0)
  next
    case (Cons x qs')
    have ne: "mq_entry (mqueues k i) \<noteq> 0" using mq_shapeD(10)[OF sh] Cons by auto
    have "length (msg_data (mqueues k i) x) = unat (mq_msg_size (mqueues k i))"
      using mq_shapeD(6)[OF sh] mq_shapeD(11)[OF sh, of x] Cons by auto
    moreover obtain k' where "rt_mq_recv_loop (rt_thread_self k) i n 0 k =
        (Returned (RT_EOK, Some (take (unat n) (hd (mq_contents (mqueues k i))))), k')" "kmq_inv i k'"
      "mq_contents (mqueues k' i) = tl (mq_contents (mqueues k i))"
      "mq_msg_size (mqueues k' i) = mq_msg_size (mqueues k i)" "mq_max_msgs (mqueues k' i) = mq_max_msgs (mqueues k i)"
      using mq_recv_effect[OF ki sh[unfolded Cons]] by metis
    ultimately show ?thesis using cont Cons ne by (simp add: rt_mq_recv_def)
  qed
qed

text \<open>One call refines its expectation; so does a run.\<close>

lemma mq_call_expected:
  assumes inv: "kmq_inv i k" and ms: "mq_holds ms (mqueues k i)"
  defines "sz \<equiv> unat (mq_msg_size (mqueues k i))" and "cap \<equiv> unat (mq_max_msgs (mqueues k i))"
  shows "\<exists>r k' ms'. kmq_call i op k = (Returned r, k') \<and> mq_expected sz cap [op] ms [r] ms' \<and> kmq_inv i k' \<and>
    mq_holds ms' (mqueues k' i) \<and> unat (mq_msg_size (mqueues k' i)) = sz \<and> unat (mq_max_msgs (mqueues k' i)) = cap"
proof -
  note l = mq_holds_length[OF ms]
  show ?thesis
  proof (cases op)
    case (Send b)
    consider "length b > sz" | "length b \<le> sz" "length ms = cap" | "length b \<le> sz" "length ms \<noteq> cap" by linarith
    then show ?thesis
      using rt_mq_send_last[OF inv, of b] ms inv
      by cases (auto simp: Send kmq_call_def l mq_holds_def sz_def[symmetric] cap_def[symmetric] list_all2_appendI
          split: if_splits)
  next
    case (Urgent b)
    consider "length b > sz" | "length b \<le> sz" "length ms = cap" | "length b \<le> sz" "length ms \<noteq> cap" by linarith
    then show ?thesis
      using rt_mq_urgent_front[OF inv, of b] ms inv
      by cases (auto simp: Urgent kmq_call_def l mq_holds_def sz_def[symmetric] cap_def[symmetric] split: if_splits)
  next
    case (Recv n)
    show ?thesis
    proof (cases ms)
      case Nil
      then have "mq_contents (mqueues k i) = []" using l by simp
      with rt_mq_recv_first[OF inv, of n] Nil ms inv show ?thesis
        by (simp add: Recv kmq_call_def sz_def cap_def)
    next
      case (Cons m ms0)
      then obtain slot slots where c: "mq_contents (mqueues k i) = slot # slots" "take (length m) slot = m"
        "list_all2 (\<lambda>m slot. take (length m) slot = m) ms0 slots"
        using ms by (auto simp: mq_holds_def list_all2_Cons1)
      have "take (length m) (take (unat n) slot) = take (unat n) m"
        using c(2) by (metis take_take min.commute)
      with rt_mq_recv_first[OF inv, of n] c Cons show ?thesis
        by (auto simp: Recv kmq_call_def mq_holds_def sz_def cap_def)
    qed
  qed
qed

lemma mq_expected_cons:
  "mq_expected sz cap [op] ms [r] ms1 \<Longrightarrow> mq_expected sz cap ops ms1 rs ms' \<Longrightarrow> mq_expected sz cap (op # ops) ms (r # rs) ms'"
  by (cases op) (auto split: if_splits list.splits)

lemma mq_expected_length: "mq_expected sz cap ops ms rs ms' \<Longrightarrow> length rs = length ops"
  by (induction sz cap ops ms rs ms' rule: mq_expected.induct) (auto split: if_splits list.splits)

lemma mq_run_expected:
  "kmq_inv i k \<Longrightarrow> mq_holds ms (mqueues k i) \<Longrightarrow>
    \<exists>rs k' ms'. kmq_run i ops k = Some (rs, k') \<and>
    mq_expected (unat (mq_msg_size (mqueues k i))) (unat (mq_max_msgs (mqueues k i))) ops ms rs ms' \<and>
    kmq_inv i k' \<and> mq_holds ms' (mqueues k' i) \<and> length ms' \<le> unat (mq_max_msgs (mqueues k i))"
proof (induction ops arbitrary: k ms)
  case Nil
  then show ?case using kmq.bounded[OF Nil(1)] mq_holds_length[OF Nil(2)] by simp
next
  case (Cons op ops)
  from mq_call_expected[OF Cons.prems, of op] obtain r k1 ms1 where
    c: "kmq_call i op k = (Returned r, k1)" "kmq_inv i k1" "mq_holds ms1 (mqueues k1 i)"
      "mq_expected (unat (mq_msg_size (mqueues k i))) (unat (mq_max_msgs (mqueues k i))) [op] ms [r] ms1"
      "unat (mq_msg_size (mqueues k1 i)) = unat (mq_msg_size (mqueues k i))"
      "unat (mq_max_msgs (mqueues k1 i)) = unat (mq_max_msgs (mqueues k i))" by blast
  from Cons.IH[OF c(2,3)] obtain rs k' ms' where
    "kmq_run i ops k1 = Some (rs, k')"
    "mq_expected (unat (mq_msg_size (mqueues k i))) (unat (mq_max_msgs (mqueues k i))) ops ms1 rs ms'"
    "kmq_inv i k'" "mq_holds ms' (mqueues k' i)" "length ms' \<le> unat (mq_max_msgs (mqueues k i))"
    unfolding c(5,6) by blast
  with c(1) mq_expected_cons[OF c(4)] show ?case by (auto simp del: mq_expected.simps)
qed

section \<open>Properties\<close>

text \<open>C21. A mailbox delivers in order and loses nothing: over any sequence of non-blocking sends
  and receives, by whatever threads and with whatever threads waiting, the words that the mailbox
  held and accepted are, in order, those that it delivered and still holds; it never holds more
  than its size, and the kernel stays consistent.\<close>

theorem mailbox_runs_in_order:
  assumes "kmb_inv i k" and "fifo_run (kmb_put i) (kmb_get i) ops k = (acc, out, k')"
  shows "mb_contents (mailboxes k i) @ acc = out @ mb_contents (mailboxes k' i) \<and> kmb_inv i k' \<and>
    unat (mb_size (mailboxes k' i)) = unat (mb_size (mailboxes k i)) \<and>
    length (mb_contents (mailboxes k' i)) \<le> unat (mb_size (mailboxes k i))"
  by (rule kmb.run_conserves[OF assms(1) _ assms(2)]) simp

text \<open>The same of messages that fill their slots: the queue as an instance of the contract.\<close>

theorem message_queue_conserves:
  assumes "kmq_inv i k" and "\<forall>buf. Put buf \<in> set ops \<longrightarrow> length buf = unat (mq_msg_size (mqueues k i))"
    and "fifo_run (kmq_put i) (kmq_get i) ops k = (acc, out, k')"
  shows "mq_contents (mqueues k i) @ acc = out @ mq_contents (mqueues k' i) \<and> kmq_inv i k' \<and>
    unat (mq_max_msgs (mqueues k' i)) = unat (mq_max_msgs (mqueues k i)) \<and>
    length (mq_contents (mqueues k' i)) \<le> unat (mq_max_msgs (mqueues k i))"
  by (rule kmq.run_conserves[OF assms])

text \<open>C22. Over any run of calls that do not wait, sends and urgent sends of messages of any length and
  receives of any length, by whatever threads and with whatever threads waiting, a message queue
  answers every call as a bounded queue of messages does: a send is refused with an error exactly
  when the message is longer than a slot, and with the full status exactly when the queue holds
  its maximum; otherwise the message goes to the end, an urgent one to the front; a receive
  of an empty queue times out, and any other delivers the bytes of the first message, as many as
  asked for, and takes it off. No call blocks or faults, and the kernel stays consistent.\<close>

theorem message_queue_runs_in_order:
  assumes "kmq_inv i k" and "mq_holds ms (mqueues k i)"
  shows "\<exists>rs k' ms'. kmq_run i ops k = Some (rs, k') \<and>
    mq_expected (unat (mq_msg_size (mqueues k i))) (unat (mq_max_msgs (mqueues k i))) ops ms rs ms' \<and>
    kmq_inv i k' \<and> mq_holds ms' (mqueues k' i) \<and> length ms' \<le> unat (mq_max_msgs (mqueues k i))"
  using assms by (rule mq_run_expected)

text \<open>A full mailbox makes a sender wait and an empty one a receiver: with a waiting time other
  than 0 the call suspends the running thread in its place of the right wait list with its timer
  set, leaves the mailbox as it is, and keeps the kernel consistent; if the thread then runs again
  without an error and finds room, or a word, its call completes.\<close>

theorem mailbox_calls_wait:
  assumes inv: "kmb_inv i k" and run: "running k t" and time: "timeout \<noteq> 0"
  defines "k1 \<equiv> upd_thread t (\<lambda>th. th\<lparr>error := RT_EOK\<rparr>) k"
  shows "(mb_entry (mailboxes k i) = mb_size (mailboxes k i) \<longrightarrow>
      (\<exists>k'. rt_mb_send_wait i v timeout k = (Blocked, k') \<and> waits_in (MbSendQ i) t (mb_flag (mailboxes k i)) timeout k1 k' \<and>
        mailboxes k' = mailboxes k \<and> error (threads k' t) = RT_EOK \<and> kmb_inv i k')) \<and>
    (mb_entry (mailboxes k i) = 0 \<longrightarrow>
      (\<exists>k'. rt_mb_recv i timeout k = (Blocked, k') \<and> waits_in (MbRecvQ i) t (mb_flag (mailboxes k i)) timeout k1 k' \<and>
        mailboxes k' = mailboxes k \<and> error (threads k' t) = RT_EOK \<and> kmb_inv i k')) \<and>
    (error (threads k t) = RT_EOK \<and> mb_entry (mailboxes k i) \<noteq> mb_size (mailboxes k i) \<longrightarrow>
      (\<exists>k'. rt_mb_send_resume t i v timeout td k = (Returned RT_EOK, k') \<and>
        mb_contents (mailboxes k' i) = mb_contents (mailboxes k i) @ [v] \<and> kmb_inv i k')) \<and>
    (error (threads k t) = RT_EOK \<and> mb_entry (mailboxes k i) \<noteq> 0 \<longrightarrow>
      (\<exists>k'. rt_mb_recv_resume t i timeout td k = (Returned (RT_EOK, Some (hd (mb_contents (mailboxes k i)))), k') \<and>
        mb_contents (mailboxes k' i) = tl (mb_contents (mailboxes k i)) \<and> kmb_inv i k'))"
  unfolding k1_def using mailbox_wait_parts[OF inv run time] by blast

text \<open>C23. Calls on a message queue may interleave between their critical sections: with the slots
  of the calls in progress in \<open>F\<close>, taking a free slot, filling a taken slot, linking it at
  the end or in front, unlinking the first message and freeing a slot each keep the pool
  partitioned into queue, free chain and \<open>F\<close>, never fault, and change the messages only where
  they should.\<close>

theorem mq_sections_interleave:
  assumes "mq_shape F qs fs mq"
  shows "(\<forall>x fs'. fs = x # fs' \<longrightarrow>
      (\<exists>mq'. mq_grab mq = Some (x, mq') \<and> mq_shape (insert x F) qs fs' mq' \<and> mq_contents mq' = mq_contents mq)) \<and>
    (\<forall>x buf. x \<in> F \<and> length buf \<le> unat (mq_msg_size mq) \<longrightarrow>
      (\<exists>mq'. mq_fill x buf mq = Done mq' \<and> mq_shape F qs fs mq' \<and> mq_contents mq' = mq_contents mq \<and>
        msg_next mq' x = None \<and> take (length buf) (msg_data mq' x) = buf)) \<and>
    (\<forall>x. x \<in> F \<and> msg_next mq x = None \<longrightarrow>
      (\<exists>mq'. mq_link x mq = (RT_EOK, mq') \<and> mq_shape (F - {x}) (qs @ [x]) fs mq' \<and>
        mq_contents mq' = mq_contents mq @ [msg_data mq x])) \<and>
    (\<forall>x. x \<in> F \<longrightarrow>
      (\<exists>mq'. mq_link_urgent x mq = (RT_EOK, mq') \<and> mq_shape (F - {x}) (x # qs) fs mq' \<and>
        mq_contents mq' = msg_data mq x # mq_contents mq)) \<and>
    (\<forall>x qs'. qs = x # qs' \<longrightarrow>
      (\<exists>mq'. mq_unlink mq = Done (x, mq') \<and> mq_shape (insert x F) qs' fs mq' \<and>
        mq_contents mq = msg_data mq' x # mq_contents mq')) \<and>
    (\<forall>x. x \<in> F \<longrightarrow> mq_shape (F - {x}) qs (x # fs) (mq_release x mq) \<and> mq_contents (mq_release x mq) = mq_contents mq)"
proof (intro conjI allI impI)
  note sh = assms and c = mq_contents_shape
  show "\<exists>mq'. mq_grab mq = Some (x, mq') \<and> mq_shape (insert x F) qs fs' mq' \<and> mq_contents mq' = mq_contents mq"
    if "fs = x # fs'" for x fs'
    using mq_grab_shape[OF sh[unfolded that]] c[OF sh] c by metis
  show "\<exists>mq'. mq_fill x buf mq = Done mq' \<and> mq_shape F qs fs mq' \<and> mq_contents mq' = mq_contents mq \<and>
        msg_next mq' x = None \<and> take (length buf) (msg_data mq' x) = buf"
    if a: "x \<in> F \<and> length buf \<le> unat (mq_msg_size mq)" for x buf
  proof -
    have x: "x \<in> F" "length buf \<le> unat (mq_msg_size mq)" using a by simp_all
    obtain mq' where m: "mq_fill x buf mq = Done mq'" "mq_shape F qs fs mq'" "msg_next mq' x = None"
      "msg_data mq' = (msg_data mq)(x := blit 0 buf (msg_data mq x))" using mq_fill_shape[OF sh x] by metis
    have "x \<notin> set qs" using x(1) mq_shapeD(4)[OF sh] by blast
    then have "mq_contents mq' = mq_contents mq" using c[OF sh] c[OF m(2)] m(4) by (simp add: map_upd_notin)
    with m show ?thesis by (intro exI[of _ mq']) (simp add: blit_def)
  qed
  show "\<exists>mq'. mq_link x mq = (RT_EOK, mq') \<and> mq_shape (F - {x}) (qs @ [x]) fs mq' \<and>
        mq_contents mq' = mq_contents mq @ [msg_data mq x]"
    if a: "x \<in> F \<and> msg_next mq x = None" for x
  proof -
    have x: "x \<in> F" "msg_next mq x = None" using a by simp_all
    obtain mq' where "mq_link x mq = (RT_EOK, mq')" "mq_shape (F - {x}) (qs @ [x]) fs mq'" "msg_data mq' = msg_data mq"
      using mq_link_shape[OF sh x] by metis
    then show ?thesis using c[OF sh] c by (intro exI[of _ mq']) simp
  qed
  show "\<exists>mq'. mq_link_urgent x mq = (RT_EOK, mq') \<and> mq_shape (F - {x}) (x # qs) fs mq' \<and>
        mq_contents mq' = msg_data mq x # mq_contents mq" if x: "x \<in> F" for x
  proof -
    obtain mq' where "mq_link_urgent x mq = (RT_EOK, mq')" "mq_shape (F - {x}) (x # qs) fs mq'" "msg_data mq' = msg_data mq"
      using mq_link_urgent_shape[OF sh x] by metis
    then show ?thesis using c[OF sh] c by (intro exI[of _ mq']) simp
  qed
  show "\<exists>mq'. mq_unlink mq = Done (x, mq') \<and> mq_shape (insert x F) qs' fs mq' \<and>
        mq_contents mq = msg_data mq' x # mq_contents mq'" if q: "qs = x # qs'" for x qs'
  proof -
    obtain mq' where "mq_unlink mq = Done (x, mq')" "mq_shape (insert x F) qs' fs mq'" "msg_data mq' = msg_data mq"
      using mq_unlink_shape[OF sh[unfolded q]] by metis
    then show ?thesis using c[OF sh] c q by (intro exI[of _ mq']) simp
  qed
  show "mq_shape (F - {x}) qs (x # fs) (mq_release x mq)" if "x \<in> F" for x by (rule mq_release_shape[OF sh that])
  then show "mq_contents (mq_release x mq) = mq_contents mq" if "x \<in> F" for x
    using c[OF sh] c[OF mq_release_shape[OF sh that]] by (simp add: mq_release_def)
qed

section \<open>Witnesses\<close>

definition mb_scene :: kernel where "mb_scene = snd (rt_mb_init 4 [0, 0] 2 RT_IPC_FLAG_FIFO two_threads)"

definition mq_scene :: kernel where "mq_scene = snd (rt_mq_init 6 (\<lambda>_. replicate 16 0) 4 40 RT_IPC_FLAG_FIFO two_threads)"

lemma mb_scene_inv: "kmb_inv 4 mb_scene"
proof -
  have "length [0 :: u32, 0] = unat (ucast (2 :: u32) :: u16)" by simp
  note i = mb_init_inv(1,2)[OF kinv_two_threads ipc_two_threads this, where i = 4 and flag = RT_IPC_FLAG_FIFO]
  have "OMailbox 4 \<in> set (objects mb_scene)" by code_simp
  with i(1,2) show ?thesis by (simp add: kmb_inv_def mb_scene_def)
qed

lemma mq_scene_inv: "kmq_inv 6 mq_scene"
proof -
  have mq: "mqueues mq_scene 6 = new_mq (\<lambda>_. replicate 16 0) 16 2 RT_IPC_FLAG_FIFO"
  proof -
    have "(ucast (RT_ALIGN 4 RT_ALIGN_SIZE) :: u16) = 16" by code_simp
    moreover have "(ucast ((40 :: u32) div (ucast (16 :: u16) + rt_mq_message_size)) :: u16) = 2" by code_simp
    ultimately show ?thesis by (simp add: mq_scene_def rt_mq_init_def Let_def upd_list_def)
  qed
  have sh: "mq_shape {} [] (rev [0..<unat (2 :: u16)]) (new_mq (\<lambda>_. replicate 16 0) 16 2 RT_IPC_FLAG_FIFO)"
    by (rule mq_shape_new) simp
  have ob: "ipc_inv (rt_object_init (OMq 6) two_threads)"
  proof -
    have ok: "mutex_ok (rt_object_init (OMq 6) two_threads) j = mutex_ok two_threads j" for j
      by (rule mutex_ok_cong) simp_all
    show ?thesis
      using ipc_two_threads by (simp add: ipc_inv_def sem_inv_def mutex_inv_def ok event_inv_def mailbox_inv_def)
  qed
  have drop: "ipc_inv k \<Longrightarrow> ipc_inv (upd_list (MqSendQ 6) (\<lambda>_. []) k)" for k
    by (rule ipc_inv_quiet[rotated]) (auto simp: quiet_def one_shot_def)
  have "ipc_inv mq_scene"
    unfolding mq_scene_def rt_mq_init_def Let_def snd_conv
    by (intro drop) (simp add: ob ipc_inv_init_list)
  moreover have "kinv mq_scene"
    unfolding mq_scene_def rt_mq_init_def Let_def snd_conv rt_ipc_object_init_def
    by (intro kinv_drop_list) (simp_all add: kinv_drop_list kinv_two_threads)
  ultimately show ?thesis using mq sh by (auto simp: kmq_inv_def mq_inv_def)
qed

theorem mailbox_runs_in_order_witness:
  "\<exists>acc out k'. fifo_run (kmb_put 4) (kmb_get 4) [Put 7, Put 8, Put 9, Get] mb_scene = (acc, out, k') \<and>
    mb_contents (mailboxes mb_scene 4) @ acc = out @ mb_contents (mailboxes k' 4) \<and> kmb_inv 4 k' \<and>
    unat (mb_size (mailboxes k' 4)) = unat (mb_size (mailboxes mb_scene 4)) \<and>
    length (mb_contents (mailboxes k' 4)) \<le> unat (mb_size (mailboxes mb_scene 4))"
proof -
  obtain acc out k' where r: "fifo_run (kmb_put 4) (kmb_get 4) [Put 7, Put 8, Put 9, Get] mb_scene = (acc, out, k')"
    using prod_cases3 by blast
  with mailbox_runs_in_order[OF mb_scene_inv r] show ?thesis by blast
qed

theorem message_queue_runs_in_order_witness:
  "\<exists>rs k' b. kmq_run 6 [Send [1, 2, 3, 4], Urgent [9], Send [5], Recv 1, Recv 20, Recv 4, Send (replicate 17 0)] mq_scene = Some (rs, k') \<and>
    rs = [(RT_EOK, None), (RT_EOK, None), (- RT_EFULL, None), (RT_EOK, Some [9]), (RT_EOK, Some ([1, 2, 3, 4] @ b)),
          (- RT_ETIMEOUT, None), (- RT_ERROR, None)] \<and> length b = 12 \<and> kmq_inv 6 k' \<and> mq_contents (mqueues k' 6) = []"
proof -
  have sz: "unat (mq_msg_size (mqueues mq_scene 6)) = 16" "unat (mq_max_msgs (mqueues mq_scene 6)) = 2" by code_simp+
  have "mq_contents (mqueues mq_scene 6) = []" by code_simp
  then have "mq_holds [] (mqueues mq_scene 6)" by (simp add: mq_holds_def)
  from message_queue_runs_in_order[OF mq_scene_inv this,
      of "[Send [1, 2, 3, 4], Urgent [9], Send [5], Recv 1, Recv 20, Recv 4, Send (replicate 17 0)]"]
  obtain rs k' ms' where r: "kmq_run 6 [Send [1, 2, 3, 4], Urgent [9], Send [5], Recv 1, Recv 20, Recv 4, Send (replicate 17 0)] mq_scene = Some (rs, k')"
    and e: "mq_expected 16 2 [Send [1, 2, 3, 4], Urgent [9], Send [5], Recv 1, Recv 20, Recv 4, Send (replicate 17 0)] [] rs ms'"
    and k': "kmq_inv 6 k'" "mq_holds ms' (mqueues k' 6)" unfolding sz by blast
  have "length rs = 7" using mq_expected_length[OF e] by simp
  then obtain r1 r2 r3 r4 r5 r6 r7 where rs: "rs = [r1, r2, r3, r4, r5, r6, r7]"
    by (auto simp: length_Suc_conv eval_nat_numeral)
  from e[unfolded rs] obtain x y where
    "r1 = (RT_EOK, None)" "r2 = (RT_EOK, None)" "r3 = (- RT_EFULL, None)" "r6 = (- RT_ETIMEOUT, None)"
    "r7 = (- RT_ERROR, None)" "ms' = []"
    and x: "r4 = (RT_EOK, Some x)" "length x = 1" "take 1 x = [9]"
    and y: "r5 = (RT_EOK, Some y)" "length y = 16" "take (Suc (Suc (Suc (Suc 0)))) y = [1, 2, 3, 4]"
    by auto
  moreover have "x = [9]" using x(2,3) by simp
  moreover have "y = [1, 2, 3, 4] @ drop 4 y" using append_take_drop_id[of 4 y] y(3) by (simp add: eval_nat_numeral)
  moreover have "mq_contents (mqueues k' 6) = []" using k'(2) \<open>ms' = []\<close> by (simp add: mq_holds_def)
  ultimately show ?thesis
    using r rs x(1) y(1,2) k'(1) by (intro exI[of _ rs] exI[of _ k'] exI[of _ "drop 4 y"]) simp
qed

theorem mailbox_calls_wait_witness:
  defines "k1 \<equiv> upd_thread 1 (\<lambda>th. th\<lparr>error := RT_EOK\<rparr>) mb_scene"
  shows "(\<exists>k'. rt_mb_recv 4 50 mb_scene = (Blocked, k') \<and>
      waits_in (MbRecvQ 4) 1 (mb_flag (mailboxes mb_scene 4)) 50 k1 k' \<and>
      mailboxes k' = mailboxes mb_scene \<and> error (threads k' 1) = RT_EOK \<and> kmb_inv 4 k') \<and>
    (\<exists>k'. rt_mb_send_resume 1 4 9 50 0 mb_scene = (Returned RT_EOK, k') \<and>
      mb_contents (mailboxes k' 4) = mb_contents (mailboxes mb_scene 4) @ [9] \<and> kmb_inv 4 k')"
proof -
  have run: "running mb_scene 1" by code_simp
  have e: "mb_entry (mailboxes mb_scene 4) = 0" "mb_entry (mailboxes mb_scene 4) \<noteq> mb_size (mailboxes mb_scene 4)"
    by code_simp+
  have ok: "error (threads mb_scene 1) = RT_EOK" by code_simp
  have "(50 :: u32) \<noteq> 0" by simp
  from mailbox_calls_wait[OF mb_scene_inv run this, of 9 0] show ?thesis
    using e ok unfolding k1_def by blast
qed

theorem mq_sections_interleave_witness:
  "\<exists>x mq'. mq_grab (mqueues mq_scene 6) = Some (x, mq') \<and> mq_inv {x} mq' \<and>
     mq_contents mq' = mq_contents (mqueues mq_scene 6)"
proof -
  obtain qs fs where sh: "mq_shape {} qs fs (mqueues mq_scene 6)" using mq_scene_inv by (auto simp: kmq_inv_def mq_inv_def)
  have "msg_queue_free (mqueues mq_scene 6) = Some 1" by code_simp
  then obtain x fs' where "fs = x # fs'" using mq_shapeD(8)[OF sh] by (cases fs) auto
  with mq_sections_interleave[OF sh] show ?thesis unfolding mq_inv_def by blast
qed

end
