(* ===== verification/Kernel_Steps.thy ===== *)
theory Kernel_Steps
  imports Ipc_Queues
begin

text \<open>
  The thread calls, the reaping of closed threads and the tick, as steps that keep the kernel
  and the IPC objects consistent: what \<open>Kernel_Run\<close> needs beside the IPC calls.
\<close>

section \<open>Thread calls are quiet\<close>

lemma quiet_startup: "quiet k (snd (rt_thread_startup t k))"
  unfolding rt_thread_startup_def Let_def
  by (auto intro!: quiet_trans[OF quiet_upd_thread quiet_trans[OF quiet_upd_thread
      quiet_trans[OF quiet_upd_thread quiet_trans[OF quiet_resume quiet_schedule]]]]
      quiet_trans[OF quiet_upd_thread quiet_trans[OF quiet_upd_thread quiet_trans[OF quiet_upd_thread quiet_resume]]])

lemma quiet_defunct: "quiet k (upd_list Defunct f k)"
  by (auto simp: quiet_def one_shot_def is_wait_def)

lemma quiet_ready_list: "quiet k (upd_list (Ready p) f k)"
  by (auto simp: quiet_def one_shot_def is_wait_def)

lemma quiet_if: "quiet k k1 \<Longrightarrow> quiet k k2 \<Longrightarrow> quiet k (if c then k1 else k2)"
  by simp

lemma quiet_bury:
  "quiet k (if c then rt_object_detach (OThread t) k else upd_list Defunct (\<lambda>xs. t # xs) k)"
  by (rule quiet_if[OF quiet_object(1) quiet_defunct])

lemma quiet_exit: "quiet k (rt_thread_exit k)"
  unfolding rt_thread_exit_def Let_def
  by (auto intro!: quiet_halted quiet_trans[OF quiet_remove_thread quiet_trans[OF quiet_upd_thread
      quiet_trans[OF quiet_timer_detach quiet_trans[OF quiet_object(1) quiet_schedule]]]]
      quiet_trans[OF quiet_remove_thread quiet_trans[OF quiet_upd_thread
      quiet_trans[OF quiet_timer_detach quiet_trans[OF quiet_defunct quiet_schedule]]]] split: option.split)

lemma quiet_detach: "quiet k (snd (rt_thread_detach t k))"
proof -
  have r: "quiet k (if c then rt_schedule_remove_thread t k else k)" for c
    by (rule quiet_if[OF quiet_remove_thread quiet_refl])
  show ?thesis
    unfolding rt_thread_detach_def Let_def
    using quiet_trans[OF r quiet_trans[OF quiet_timer_detach quiet_trans[OF quiet_upd_thread quiet_bury]]]
    by simp
qed

lemma quiet_delete: "quiet k (snd (rt_thread_delete t k))"
proof -
  have r: "quiet k (if c then rt_schedule_remove_thread t k else k)" for c
    by (rule quiet_if[OF quiet_remove_thread quiet_refl])
  show ?thesis
    unfolding rt_thread_delete_def Let_def
    using quiet_trans[OF r quiet_trans[OF quiet_timer_detach quiet_trans[OF quiet_upd_thread quiet_defunct]]]
    by simp
qed

lemma quiet_yield: "quiet k (snd (rt_thread_yield k))"
  unfolding rt_thread_yield_def Let_def
  by (auto intro!: quiet_halted quiet_trans[OF quiet_tlist_remove quiet_trans[OF quiet_ready_list quiet_schedule]]
      split: option.split)

lemma quiet_sleep: "quiet k (rt_thread_sleep ticks k)"
  unfolding rt_thread_sleep_def
  by (auto intro!: quiet_halted quiet_trans[OF quiet_suspend quiet_trans[OF quiet_start_thread_timer quiet_schedule]]
      split: option.split)

lemma quiet_sleep_resume: "quiet k (snd (rt_thread_sleep_resume t k))"
  unfolding rt_thread_sleep_resume_def by (auto intro: quiet_upd_thread)

lemma quiet_delay_until: "quiet k (snd (snd (rt_thread_delay_until cell inc k)))"
  unfolding rt_thread_delay_until_def Let_def
  by (auto intro!: quiet_halted quiet_trans[OF quiet_suspend quiet_trans[OF quiet_start_thread_timer quiet_schedule]]
      split: option.split)

lemma quiet_control: "quiet k (snd (rt_thread_control t cmd arg k))"
  unfolding rt_thread_control_def
  by (auto intro: quiet_change_priority quiet_startup quiet_detach quiet_delete)

lemma quiet_timer_remove: "quiet k (rt_timer_remove m k)"
  by (auto simp: quiet_def one_shot_def rt_timer_remove_def)

lemma quiet_timer_deactivate: "quiet k (rt_timer_deactivate m k)"
  by (auto simp: quiet_def one_shot_def rt_timer_deactivate_def)

lemma quiet_timeout: "quiet k (rt_thread_timeout t k)"
  unfolding rt_thread_timeout_def Let_def
  by (intro quiet_trans[OF quiet_upd_thread quiet_trans[OF quiet_tlist_remove
      quiet_trans[OF quiet_insert_thread quiet_schedule]]]) simp_all

lemma quiet_check_list: "quiet k (k\<lparr>check_list := c\<rparr>)"
  by (auto simp: quiet_def one_shot_def)

lemma quiet_fire: "quiet k (fire t k)"
proof -
  have take_t: "quiet k (timer_take (ThreadTimer t) k)"
    unfolding timer_take_def Let_def
    by (rule quiet_trans[OF quiet_trans[OF quiet_timer_remove quiet_if[OF quiet_timer_deactivate quiet_refl]] quiet_check_list])
  have "quiet k (timer_rearm (ThreadTimer t) k)" for k
    unfolding timer_rearm_def Let_def
    by (rule quiet_if[OF quiet_refl quiet_trans[OF quiet_timer_remove
        quiet_if[OF quiet_trans[OF quiet_timer_deactivate quiet_timer_start] quiet_refl]]])
  then show ?thesis unfolding fire_def by (rule quiet_trans[OF take_t quiet_trans[OF quiet_timeout]])
qed

lemma quiet_fold_fire: "quiet k (fold fire ts k)"
  by (induction ts arbitrary: k) (auto intro: quiet_trans[OF quiet_fire])

lemma quiet_reap: "quiet k (snd (reap ts k freed))"
  by (induction ts arbitrary: k freed)
    (auto simp: Let_def intro: quiet_trans[OF quiet_tlist_remove quiet_trans[OF quiet_object(2)]])


section \<open>Status values, start priorities and thread timers\<close>

text \<open>
  Every thread has one of the four states and a start priority in range, the timers of threads
  are one-shot, and no other timer runs.
\<close>

definition thread_ok :: "rt_thread \<Rightarrow> bool" where
  "thread_ok th \<longleftrightarrow> stat_of th \<in> {RT_THREAD_INIT, RT_THREAD_READY, RT_THREAD_SUSPEND, RT_THREAD_CLOSE} \<and>
     unat (init_priority th) < RT_THREAD_PRIORITY_MAX"

definition sane :: "kernel \<Rightarrow> bool" where
  "sane k \<longleftrightarrow> (\<forall>t. thread_ok (threads k t)) \<and> (\<forall>t. one_shot k (ThreadTimer t)) \<and>
     (\<forall>n. UserTimer n \<notin> set (timer_list k))"

lemma thread_ok_upd [simp]:
  "thread_ok (th\<lparr>error := e\<rparr>) = thread_ok th" "thread_ok (th\<lparr>current_priority := p\<rparr>) = thread_ok th"
  "thread_ok (th\<lparr>number_mask := m\<rparr>) = thread_ok th" "thread_ok (th\<lparr>event_set := a\<rparr>) = thread_ok th"
  "thread_ok (th\<lparr>event_info := b\<rparr>) = thread_ok th" "thread_ok (th\<lparr>remaining_tick := r\<rparr>) = thread_ok th"
  "thread_ok th \<Longrightarrow> thread_ok (set_stat RT_THREAD_READY th)"
  "thread_ok th \<Longrightarrow> thread_ok (set_stat RT_THREAD_SUSPEND th)"
  "thread_ok th \<Longrightarrow> thread_ok (th\<lparr>stat := RT_THREAD_SUSPEND\<rparr>)"
  "thread_ok th \<Longrightarrow> thread_ok (th\<lparr>stat := RT_THREAD_CLOSE\<rparr>)"
  by (simp_all add: thread_ok_def stat_of_def[of "th\<lparr>stat := s\<rparr>" for s])

lemma sane_timers:
  "sane k \<Longrightarrow> quiet k k' \<Longrightarrow> (\<And>t. thread_ok (threads k' t)) \<Longrightarrow> sane k'"
  unfolding sane_def quiet_def by blast

lemma sane_same: "sane k \<Longrightarrow> quiet k k' \<Longrightarrow> threads k' = threads k \<Longrightarrow> sane k'"
  by (rule sane_timers) (simp_all add: sane_def)

lemma sane_upd_thread: "sane k \<Longrightarrow> (\<And>th. thread_ok th \<Longrightarrow> thread_ok (f th)) \<Longrightarrow> sane (upd_thread t f k)"
  by (simp add: sane_def one_shot_def)

lemma sane_insert: "sane k \<Longrightarrow> sane (rt_schedule_insert_thread t k)"
  by (rule sane_timers[OF _ quiet_insert_thread]) (simp_all add: sane_def rt_schedule_insert_thread_def Let_def)

lemma sane_remove: "sane k \<Longrightarrow> sane (rt_schedule_remove_thread t k)"
  by (rule sane_same[OF _ quiet_remove_thread]) (simp_all add: rt_schedule_remove_thread_def Let_def)

lemma sane_schedule [simp]: "sane (rt_schedule k) \<longleftrightarrow> sane k"
  by (simp add: sane_def one_shot_def)

named_theorems sane_steps

lemma sane_basic [sane_steps]:
  "sane k \<Longrightarrow> sane (tlist_remove t k)" "sane k \<Longrightarrow> sane (upd_list l f k)"
  "sane k \<Longrightarrow> sane (upd_sem i f1 k)" "sane k \<Longrightarrow> sane (upd_mutex i f2 k)" "sane k \<Longrightarrow> sane (upd_event i f3 k)"
  "sane k \<Longrightarrow> sane (upd_mailbox i f4 k)" "sane k \<Longrightarrow> sane (upd_mq i f5 k)" "sane k \<Longrightarrow> sane (k\<lparr>halted := h\<rparr>)"
  "sane k \<Longrightarrow> sane (rt_object_init ob k)" "sane k \<Longrightarrow> sane (rt_object_detach ob k)"
  "sane k \<Longrightarrow> sane (rt_object_delete ob k)" "sane k \<Longrightarrow> sane (rt_object_allocate ob k)"
  "sane k \<Longrightarrow> sane (rt_schedule k)"
  by (simp_all add: sane_def one_shot_def rt_object_delete_def rt_object_allocate_def)

lemma sane_thread_steps [sane_steps]:
  "sane k \<Longrightarrow> sane (snd (rt_timer_stop m k))" "sane k \<Longrightarrow> sane (snd (rt_timer_detach m k))"
  "sane k \<Longrightarrow> sane (start_thread_timer t ticks k)"
  "sane k \<Longrightarrow> sane (snd (rt_thread_resume t k))" "sane k \<Longrightarrow> sane (snd (rt_thread_suspend t k))"
  "sane k \<Longrightarrow> sane (change_priority t p k)"
proof -
  assume k: "sane k"
  show stop: "sane (snd (rt_timer_stop m k))" for m
    by (rule sane_same[OF k quiet_timer_stop]) simp
  show "sane (snd (rt_timer_detach m k))"
    by (rule sane_same[OF k quiet_timer_detach]) simp
  show "sane (start_thread_timer t ticks k)"
    by (rule sane_same[OF k quiet_start_thread_timer]) (simp add: start_thread_timer_eq)
  have stop': "sane (snd (rt_timer_stop m k'))" if "sane k'" for k' m
    by (rule sane_same[OF that quiet_timer_stop]) simp
  show "sane (snd (rt_thread_resume t k))"
    using k by (simp add: rt_thread_resume_def Let_def sane_insert stop' sane_basic)
  show "sane (snd (rt_thread_suspend t k))"
    using k by (simp add: rt_thread_suspend_def Let_def stop' sane_remove sane_upd_thread)
  show "sane (change_priority t p k)"
    using k by (simp add: change_priority_def Let_def sane_insert sane_remove sane_upd_thread)
qed

lemma sane_upd_steps [sane_steps]:
  "sane k \<Longrightarrow> sane (upd_thread t (\<lambda>th. th\<lparr>error := e\<rparr>) k)"
  "sane k \<Longrightarrow> sane (upd_thread t (\<lambda>th. th\<lparr>event_set := a, event_info := b\<rparr>) k)"
  "sane k \<Longrightarrow> sane (upd_thread t (\<lambda>th. th\<lparr>event_set := event_set th AND c\<rparr>) k)"
  "sane k \<Longrightarrow> sane (upd_thread t (\<lambda>th. th\<lparr>remaining_tick := r th\<rparr>) k)"
  by (simp_all add: sane_upd_thread)

lemma sane_list_steps [sane_steps]:
  "sane k \<Longrightarrow> sane (rt_ipc_list_suspend l t flag k)" "sane k \<Longrightarrow> sane (rt_ipc_list_resume l k)"
  "sane k \<Longrightarrow> sane (rt_ipc_list_resume_all l k)" "sane k \<Longrightarrow> sane (rt_ipc_object_init l k)"
  "sane k \<Longrightarrow> sane (wait_time t time k)"
proof -
  assume k: "sane k"
  show "sane (rt_ipc_list_suspend l t flag k)"
    using k by (simp add: rt_ipc_list_suspend_def Let_def sane_steps)
  show "sane (rt_ipc_list_resume l k)" using k by (simp add: rt_ipc_list_resume_def sane_steps split: list.split)
  have "sane k \<Longrightarrow> sane (resume_all_loop n l k)" for n
    by (induction n arbitrary: k) (simp_all add: sane_steps split: list.split)
  then show "sane (rt_ipc_list_resume_all l k)" using k by (simp add: rt_ipc_list_resume_all_def)
  show "sane (rt_ipc_object_init l k)" using k by (simp add: rt_ipc_object_init_def sane_steps)
  show "sane (wait_time t time k)" using k by (simp add: wait_time_def sane_steps)
qed


lemma sane_threads [sane_steps]:
  "sane k \<Longrightarrow> sane (snd (rt_thread_startup t k))" "sane k \<Longrightarrow> sane (rt_thread_exit k)"
  "sane k \<Longrightarrow> sane (snd (rt_thread_detach t k))" "sane k \<Longrightarrow> sane (snd (rt_thread_delete t k))"
  "sane k \<Longrightarrow> sane (snd (rt_thread_yield k))" "sane k \<Longrightarrow> sane (rt_thread_sleep ticks k)"
  "sane k \<Longrightarrow> sane (snd (rt_thread_sleep_resume t k))"
  "sane k \<Longrightarrow> sane (snd (snd (rt_thread_delay_until cell inc k)))"
proof -
  assume k: "sane k"
  note defs = rt_thread_exit_def rt_thread_detach_def rt_thread_delete_def rt_thread_yield_def
    rt_thread_sleep_def rt_thread_sleep_resume_def rt_thread_delay_until_def rt_thread_startup_def
  show "sane (snd (rt_thread_startup t k))"
    unfolding defs Let_def using k by (simp add: sane_steps sane_upd_thread)
  show "sane (rt_thread_exit k)"
    unfolding defs Let_def using k by (simp add: sane_steps sane_upd_thread sane_remove split: option.split)
  show "sane (snd (rt_thread_detach t k))" "sane (snd (rt_thread_delete t k))"
    unfolding defs Let_def using k by (simp_all add: sane_steps sane_upd_thread sane_remove)
  show "sane (snd (rt_thread_yield k))" "sane (rt_thread_sleep ticks k)"
    "sane (snd (rt_thread_sleep_resume t k))" "sane (snd (snd (rt_thread_delay_until cell inc k)))"
    unfolding defs Let_def using k by (auto simp: sane_steps split: option.split)
qed

lemma sane_control [sane_steps]: "sane k \<Longrightarrow> sane (snd (rt_thread_control t cmd arg k))"
  by (simp add: rt_thread_control_def sane_steps)

lemma sane_fire: "sane k \<Longrightarrow> sane (fire t k)"
proof -
  assume k: "sane k"
  then have "one_shot k (ThreadTimer t)" by (simp add: sane_def)
  then have th: "threads (fire t k) = (threads k)(t := timed_out (threads k t))" by (rule fire_fields)
  show "sane (fire t k)"
  proof (rule sane_timers[OF k quiet_fire])
    show "thread_ok (threads (fire t k) u)" for u
      using k by (simp add: th sane_def timed_out_def)
  qed
qed

lemma sane_fold_fire: "sane k \<Longrightarrow> sane (fold fire ts k)"
  by (induction ts arbitrary: k) (simp_all add: sane_fire)

lemma sane_reap [sane_steps]: "sane k \<Longrightarrow> sane (snd (reap ts k freed))"
  by (induction ts arbitrary: k freed) (simp_all add: sane_steps)

section \<open>Reaping, creation and the tick\<close>

lemma kinv_object_delete_list:
  assumes inv: "kinv k" and t: "t \<in> set (lists k Defunct)"
  shows "kinv (tlist_remove t k)"
proof -
  have st: "stat_of (threads k t) = RT_THREAD_CLOSE" using wait_invD(4)[OF kinvD(3)[OF inv] t] .
  show ?thesis
  proof (rule kinvI)
    show "ready_inv (tlist_remove t k)" by (rule ready_inv_tlist_remove[OF kinvD(1)[OF inv]]) (simp add: st)
    show "timer_inv (tlist_remove t k)" by (rule timer_inv_cong[OF kinvD(2)[OF inv]]) simp_all
    have act: "active (tlist_remove t k) m \<longleftrightarrow> active k m" for m by (rule active_cong) simp
    note w = wait_invD[OF kinvD(3)[OF inv]]
    show "wait_inv (tlist_remove t k)"
    proof (rule wait_invI)
      show "distinct (lists (tlist_remove t k) l)" if "\<not> is_ready l" for l
        using w(1)[OF that] by (simp add: distinct_removeAll)
      show "l = l'" if "\<not> is_ready l" "\<not> is_ready l'" "u \<in> set (lists (tlist_remove t k) l)"
        "u \<in> set (lists (tlist_remove t k) l')" for l l' u
        using w(2)[OF that(1,2), of u] that(3,4) by simp
      show "stat_of (threads (tlist_remove t k) u) = RT_THREAD_SUSPEND"
        if "\<not> is_ready l" "l \<noteq> Defunct" "u \<in> set (lists (tlist_remove t k) l)" for l u
        using w(3)[OF that(1,2), of u] that(3) by simp
    qed (use w(4-6) act in auto)
  qed
qed

lemma kinv_reap:
  "kinv k \<Longrightarrow> set ts \<subseteq> set (lists k Defunct) \<Longrightarrow> distinct ts \<Longrightarrow> kinv (snd (reap ts k freed))"
proof (induction ts arbitrary: k freed)
  case (Cons t ts)
  have "kinv (tlist_remove t k)" using Cons.prems by (intro kinv_object_delete_list) auto
  moreover have "set ts \<subseteq> set (lists (rt_object_delete (OThread t) (tlist_remove t k)) Defunct)"
    using Cons.prems by (auto simp: rt_object_delete_def)
  ultimately show ?case using Cons.prems by (simp add: Cons.IH)
qed simp

lemma idle_inv:
  assumes "kinv k" and "ipc_inv k" and "sane k"
  shows "kinv (snd (rt_thread_idle_excute k))" and "ipc_inv (snd (rt_thread_idle_excute k))"
    and "sane (snd (rt_thread_idle_excute k))"
  using assms kinv_reap[OF assms(1) subset_refl wait_invD(1)[OF kinvD(3)[OF assms(1)]]] ipc_inv_quiet[OF quiet_reap]
  by (auto simp: rt_thread_idle_excute_def sane_steps)


text \<open>A control block that is in no list and whose timer is idle may be initialised.\<close>

definition unused :: "kernel \<Rightarrow> tid \<Rightarrow> bool" where
  "unused k t \<longleftrightarrow> stat_of (threads k t) \<in> {RT_THREAD_INIT, RT_THREAD_CLOSE} \<and> t \<notin> set (lists k Defunct)"

lemma unusedD:
  assumes inv: "kinv k" and u: "unused k t"
  shows "t \<notin> set (lists k l)" and "\<not> active k (ThreadTimer t)"
proof -
  have st: "stat_of (threads k t) \<noteq> RT_THREAD_READY" "stat_of (threads k t) \<noteq> RT_THREAD_SUSPEND"
    using u by (auto simp: unused_def)
  show "t \<notin> set (lists k l)"
    using u st suspended_not_ready[OF inv, of t] wait_invD(3)[OF kinvD(3)[OF inv], of l t]
    by (cases l) (auto simp: unused_def)
  show "\<not> active k (ThreadTimer t)" using wait_invD(6)[OF kinvD(3)[OF inv], of t] st by auto
qed

lemma rt_timer_init_frame [simp]:
  "threads (rt_timer_init m time flag k) = threads k" "lists (rt_timer_init m time flag k) = lists k"
  "timer_list (rt_timer_init m time flag k) = timer_list k" "ready_group (rt_timer_init m time flag k) = ready_group k"
  "timers (rt_timer_init m time flag k) = (timers k)(m := \<lparr>timer_flag = flag AND NOT RT_TIMER_FLAG_ACTIVATED,
     timer_init_tick = time, timeout_tick = 0\<rparr>)"
  "sems (rt_timer_init m time flag k) = sems k" "mutexes (rt_timer_init m time flag k) = mutexes k"
  "events (rt_timer_init m time flag k) = events k" "mailboxes (rt_timer_init m time flag k) = mailboxes k"
  "mqueues (rt_timer_init m time flag k) = mqueues k" "objects (rt_timer_init m time flag k) = OTimer m # objects k"
  by (simp_all add: rt_timer_init_def rt_timer_init_fields_def Let_def)

lemma init_fields_inv:
  fixes stktop start stksize ticks :: u32
  assumes inv: "kinv k" "ipc_inv k" "sane k" and u: "unused k t" and p: "unat prio < RT_THREAD_PRIORITY_MAX"
  defines "k' \<equiv> snd (rt_thread_init_fields t stktop start stksize prio ticks k)"
  shows "kinv k'" and "ipc_inv k'" and "sane k'"
proof -
  note uq = unusedD[OF inv(1) u]
  have act: "active k' m \<longleftrightarrow> active k m" for m
    using uq(2) by (auto simp: k'_def rt_thread_init_fields_def Let_def active_def bit_not_activated)
  have st: "stat_of (threads k' t) = RT_THREAD_INIT"
    by (simp add: k'_def rt_thread_init_fields_def Let_def stat_of_def)
  have same: "lists k' = lists k" "timer_list k' = timer_list k" "ready_group k' = ready_group k"
    "x \<noteq> t \<Longrightarrow> threads k' x = threads k x" for x
    by (simp_all add: k'_def rt_thread_init_fields_def Let_def)
  show "kinv k'"
  proof (rule kinvI)
    have ne: "x \<in> set (lists k l) \<Longrightarrow> x \<noteq> t" for x l using uq(1) by auto
    note r = ready_invD[OF kinvD(1)[OF inv(1)]] and w = wait_invD[OF kinvD(3)[OF inv(1)]]
    show "ready_inv k'"
    proof (rule ready_invI)
      show "u \<notin> {} \<and> stat_of (threads k' u) = RT_THREAD_READY \<and> wf_prio (threads k' u) \<and>
          unat (current_priority (threads k' u)) = q" if "u \<in> set (lists k' (Ready q))" for u q
        using r(2)[of u q] that ne[of u "Ready q"] by (simp add: same)
      show "u \<in> set (lists k' (Ready (unat (current_priority (threads k' u)))))"
        if "u \<notin> {}" "stat_of (threads k' u) = RT_THREAD_READY" for u
        using r(3)[of u] that st by (cases "u = t") (simp_all add: same)
    qed (use r in \<open>simp_all add: same\<close>)
    show "timer_inv k'" using kinvD(2)[OF inv(1)] by (simp add: timer_inv_def act same)
    show "wait_inv k'"
    proof (rule wait_invI)
      show "stat_of (threads k' u) = RT_THREAD_SUSPEND"
        if "\<not> is_ready l" "l \<noteq> Defunct" "u \<in> set (lists k' l)" for l u
        using w(3)[OF that(1,2), of u] that(3) ne[of u l] by (simp add: same)
      show "stat_of (threads k' u) = RT_THREAD_CLOSE" if "u \<in> set (lists k' Defunct)" for u
        using w(4)[of u] that ne[of u Defunct] by (simp add: same)
      show "wf_prio (threads k' u)" if "stat_of (threads k' u) = RT_THREAD_SUSPEND" for u
        using w(5)[of u] that st by (cases "u = t") (simp_all add: same)
      show "stat_of (threads k' u) = RT_THREAD_SUSPEND" if "active k' (ThreadTimer u)" for u
        using w(6)[of u] that uq(2) by (cases "u = t") (simp_all add: same act)
    qed (use w(1,2) in \<open>auto simp: same\<close>)
  qed
  have q: "quiet k k'"
    using inv(3) by (auto simp: quiet_def k'_def rt_thread_init_fields_def Let_def one_shot_def rt_timer_flags sane_def)
  show "ipc_inv k'" by (rule ipc_inv_quiet[OF q inv(2)])
  show "sane k'"
  proof (rule sane_timers[OF inv(3) q])
    show "thread_ok (threads k' x)" for x
      using inv(3) p by (cases "x = t")
        (simp_all add: same sane_def thread_ok_def k'_def rt_thread_init_fields_def Let_def stat_of_def)
  qed
qed


lemma quiet_register: "quiet k (rt_object_init (OThread t) k)" "quiet k (rt_object_allocate (OThread t) k)"
  by (auto simp: quiet_def one_shot_def rt_object_allocate_def)

lemma thread_init_inv:
  fixes stktop start stksize ticks :: u32
  assumes inv: "kinv k" "ipc_inv k" "sane k" and u: "unused k t" and p: "unat prio < RT_THREAD_PRIORITY_MAX"
  shows "kinv (snd (rt_thread_init t stktop start stksize prio ticks k))"
    and "ipc_inv (snd (rt_thread_init t stktop start stksize prio ticks k))"
    and "sane (snd (rt_thread_init t stktop start stksize prio ticks k))"
  using init_fields_inv[of "rt_object_init (OThread t) k" t prio] assms ipc_inv_quiet[OF quiet_register(1)]
  by (simp_all add: rt_thread_init_def sane_steps unused_def)

lemma thread_create_inv:
  fixes stktop stksize ticks :: u32
  assumes inv: "kinv k" "ipc_inv k" "sane k" and u: "\<And>t. mem = Some t \<Longrightarrow> unused k t"
    and p: "unat prio < RT_THREAD_PRIORITY_MAX"
  shows "kinv (snd (rt_thread_create mem stack_mem stktop stksize prio ticks k)) \<and>
    ipc_inv (snd (rt_thread_create mem stack_mem stktop stksize prio ticks k)) \<and>
    sane (snd (rt_thread_create mem stack_mem stktop stksize prio ticks k))"
proof (cases mem)
  case (Some t)
  let ?k = "rt_object_allocate (OThread t) k"
  have k: "kinv ?k" "ipc_inv ?k" "sane ?k"
    using inv ipc_inv_quiet[OF quiet_register(2)] by (simp_all add: sane_steps)
  have un: "unused ?k t" using u[OF Some] by (simp add: unused_def rt_object_allocate_def)
  show ?thesis
  proof (cases stack_mem)
    case None
    then show ?thesis
      using Some k ipc_inv_quiet[OF quiet_object(2)] by (simp add: rt_thread_create_def Let_def sane_steps)
  next
    case (Some stack)
    then show ?thesis
      using \<open>mem = Some t\<close> init_fields_inv[OF k un p] by (simp add: rt_thread_create_def Let_def)
  qed
qed (use inv in \<open>simp add: rt_thread_create_def\<close>)

lemma kinv_remaining: "kinv k \<Longrightarrow> kinv (upd_thread t (\<lambda>th. th\<lparr>remaining_tick := r th\<rparr>) k)"
  by (erule kinv_cong) (auto simp: stat_of_update)

text \<open>
  The tick returns, in a consistent state: with only one-shot timers of threads, as many rounds
  as there are timers, and one more, are enough for the check.
\<close>

definition tick_state :: "tid \<Rightarrow> kernel \<Rightarrow> kernel" where
  "tick_state t k =
     (let k = upd_thread t (\<lambda>th. th\<lparr>remaining_tick := remaining_tick th - 1\<rparr>) (k\<lparr>tick := tick k + 1\<rparr>)
      in if remaining_tick (threads k t) = 0
         then snd (rt_thread_yield (upd_thread t (\<lambda>th. th\<lparr>remaining_tick := init_tick th\<rparr>) k)) else k)"

lemma tick_advance:
  "kinv (k\<lparr>tick := n\<rparr>) = kinv k" "ipc_inv (k\<lparr>tick := n\<rparr>) = ipc_inv k" "sane (k\<lparr>tick := n\<rparr>) = sane k"
  "kinv (k\<lparr>check_list := c\<rparr>) = kinv k" "ipc_inv (k\<lparr>check_list := c\<rparr>) = ipc_inv k" "sane (k\<lparr>check_list := c\<rparr>) = sane k"
proof -
  have ok: "mutex_ok (k\<lparr>tick := n\<rparr>) i = mutex_ok k i" "mutex_ok (k\<lparr>check_list := c\<rparr>) i = mutex_ok k i" for i
    by (rule mutex_ok_cong; simp)+
  show "kinv (k\<lparr>tick := n\<rparr>) = kinv k" "kinv (k\<lparr>check_list := c\<rparr>) = kinv k"
    by (simp_all add: kinv_def ready_inv_except_def timer_inv_def wait_inv_def active_def)
  show "ipc_inv (k\<lparr>tick := n\<rparr>) = ipc_inv k" "ipc_inv (k\<lparr>check_list := c\<rparr>) = ipc_inv k"
    by (simp_all add: ipc_inv_def sem_inv_def mutex_inv_def ok event_inv_def mailbox_inv_def)
qed (simp_all add: sane_def one_shot_def)

lemma tick_state_inv:
  assumes "kinv k" and "ipc_inv k" and "sane k"
  shows "kinv (tick_state t k)" and "ipc_inv (tick_state t k)" and "sane (tick_state t k)"
    and "timer_list (tick_state t k) = timer_list k" and "tick (tick_state t k) = tick k + 1"
proof -
  have q: "quiet k' (upd_thread t (\<lambda>th. th\<lparr>remaining_tick := r th\<rparr>) k')" for k' r by (rule quiet_upd_thread) simp_all
  show "kinv (tick_state t k)"
    unfolding tick_state_def Let_def using assms(1)
    by (auto intro!: kinv_yield kinv_remaining simp: tick_advance)
  show "ipc_inv (tick_state t k)"
    using assms(2) by (simp add: tick_state_def Let_def ipc_inv_quiet[OF q] ipc_inv_quiet[OF quiet_yield] tick_advance)
  show "sane (tick_state t k)"
    using assms(3) by (simp add: tick_state_def Let_def sane_steps tick_advance)
  show "timer_list (tick_state t k) = timer_list k" "tick (tick_state t k) = tick k + 1"
    by (simp_all add: tick_state_def rt_thread_yield_def Let_def split: option.split)
qed

lemma sane_thread_timers: "sane k \<Longrightarrow> thread_timers k"
  unfolding thread_timers_def sane_def
proof (intro ballI)
  fix m assume "(\<forall>t. thread_ok (threads k t)) \<and> (\<forall>t. one_shot k (ThreadTimer t)) \<and> (\<forall>n. UserTimer n \<notin> set (timer_list k))"
    and "m \<in> set (timer_list k)"
  then show "one_shot k m \<and> (\<exists>t. m = ThreadTimer t)" by (cases m) auto
qed

lemma tick_inv:
  assumes inv: "kinv k" "ipc_inv k" "sane k" and t: "current_thread k = Some t"
    and fuel: "length (timer_list k) < fuel"
  shows "\<exists>k'. rt_tick_increase fuel cb k = Done k' \<and> kinv k' \<and> ipc_inv k' \<and> sane k' \<and>
    k' = (let k1 = (tick_state t k)\<lparr>check_list := []\<rparr> in fold fire (due_threads (tick k + 1) k1) k1)"
proof -
  note s = tick_state_inv[OF inv, of t]
  let ?k1 = "(tick_state t k)\<lparr>check_list := []\<rparr>"
  have "kinv ?k1" "sane ?k1" "ipc_inv ?k1" using s by (simp_all add: tick_advance)
  moreover from this have "thread_timers ?k1" by (simp add: sane_thread_timers)
  ultimately have "timer_check_loop fuel cb (tick k + 1) ?k1 = Done (fold fire (due_threads (tick k + 1) ?k1) ?k1) \<and>
      kinv (fold fire (due_threads (tick k + 1) ?k1) ?k1)"
    using timer_check_loop_fires[of ?k1 fuel cb] s fuel by simp
  moreover have "rt_tick_increase fuel cb k = timer_check_loop fuel cb (tick k + 1) ?k1"
    using t s(5) by (simp add: rt_tick_increase_def rt_thread_self_def tick_state_def Let_def rt_timer_check_def rt_tick_get_def)
  ultimately show ?thesis
    using \<open>sane ?k1\<close> \<open>ipc_inv ?k1\<close> ipc_inv_quiet[OF quiet_fold_fire] by (simp add: sane_fold_fire Let_def)
qed

end
