(* ===== verification/Kernel_Run.thy ===== *)
theory Kernel_Run
  imports Kernel_Steps
begin

text \<open>
  The running kernel: every call on threads and IPC objects, the tick interrupt and the idle
  thread as steps of one transition system, and what holds in every state it can reach. The timers
  are those of the threads, which the calls set and start; calls on further timers, which the
  program does not make, are not steps. A call
  is one step up to the point where it returns or switches away; the rest of a blocking call is a
  step of its own, which the relation allows whenever its thread runs. The side conditions
  \<open>call_ok\<close> are those the interface asks of its callers: a blocking call is made by the
  running thread, a control block that is initialised is not in use, priorities are in range,
  mutexes have been registered, an event is received with one of the two options, and a mailbox
  gets a pool of its size.
\<close>

section \<open>Calls\<close>

datatype thread_call =
    Thread_Init tid u32 u32 u32 u8 u32 | Thread_Create "tid option" "u32 option" u32 u32 u8 u32
  | Thread_Startup tid | Thread_Exit | Thread_Detach tid | Thread_Delete tid | Thread_Yield
  | Thread_Suspend tid | Thread_Resume tid | Thread_Sleep u32 | Thread_Sleep_Resume
  | Thread_Delay_Until u32 u32 | Thread_Control tid int u8 | Enter_Critical | Exit_Critical

datatype sync_call =
    Sem_Init nat u32 u8 | Sem_Create "nat option" u32 u8 | Sem_Detach nat | Sem_Delete nat
  | Sem_Take nat u32 | Sem_Release nat | Sem_Control nat int u32
  | Mutex_Init nat u8 | Mutex_Create "nat option" u8 | Mutex_Detach nat | Mutex_Delete nat
  | Mutex_Take nat u32 | Mutex_Release nat | Mutex_Control nat int
  | Event_Init nat u8 | Event_Create "nat option" u8 | Event_Detach nat | Event_Delete nat
  | Event_Send nat u32 | Event_Recv nat u32 u8 u32 | Event_Control nat int

datatype queue_call =
    Mb_Init nat "u32 list" u32 u8 | Mb_Create "nat option" "u32 list" u32 u8 | Mb_Detach nat | Mb_Delete nat
  | Mb_Send_Wait nat u32 u32 | Mb_Send_Resume nat u32 u32 u32 | Mb_Recv nat u32 | Mb_Recv_Resume nat u32 u32
  | Mb_Control nat int
  | Mq_Init nat "nat \<Rightarrow> u8 list" u32 u32 u8 | Mq_Create "nat option" "nat \<Rightarrow> u8 list" u32 u32 u8
  | Mq_Detach nat | Mq_Delete nat | Mq_Send_Wait nat "u8 list" u32 | Mq_Send_Resume nat "u8 list" u32 u32
  | Mq_Urgent nat "u8 list" | Mq_Recv nat u32 u32 | Mq_Recv_Resume nat u32 u32 u32 | Mq_Control nat int

text \<open>\<open>t\<close> is the thread that runs, for the second halves of the blocking calls.\<close>

fun run_thread_call :: "tid \<Rightarrow> thread_call \<Rightarrow> kernel \<Rightarrow> kernel" where
  "run_thread_call t (Thread_Init u stktop start stksize prio ticks) k =
     snd (rt_thread_init u stktop start stksize prio ticks k)"
| "run_thread_call t (Thread_Create mem stack stktop stksize prio ticks) k =
     snd (rt_thread_create mem stack stktop stksize prio ticks k)"
| "run_thread_call t (Thread_Startup u) k = snd (rt_thread_startup u k)"
| "run_thread_call t Thread_Exit k = rt_thread_exit k"
| "run_thread_call t (Thread_Detach u) k = snd (rt_thread_detach u k)"
| "run_thread_call t (Thread_Delete u) k = snd (rt_thread_delete u k)"
| "run_thread_call t Thread_Yield k = snd (rt_thread_yield k)"
| "run_thread_call t (Thread_Suspend u) k = snd (rt_thread_suspend u k)"
| "run_thread_call t (Thread_Resume u) k = snd (rt_thread_resume u k)"
| "run_thread_call t (Thread_Sleep ticks) k = rt_thread_sleep ticks k"
| "run_thread_call t Thread_Sleep_Resume k = snd (rt_thread_sleep_resume t k)"
| "run_thread_call t (Thread_Delay_Until cell inc) k = snd (snd (rt_thread_delay_until cell inc k))"
| "run_thread_call t (Thread_Control u cmd arg) k = snd (rt_thread_control u cmd arg k)"
| "run_thread_call t Enter_Critical k = rt_enter_critical k"
| "run_thread_call t Exit_Critical k = rt_exit_critical k"

fun run_sync_call :: "sync_call \<Rightarrow> kernel \<Rightarrow> kernel" where
  "run_sync_call (Sem_Init i v flag) k = snd (rt_sem_init i v flag k)"
| "run_sync_call (Sem_Create mem v flag) k = snd (rt_sem_create mem v flag k)"
| "run_sync_call (Sem_Detach i) k = snd (rt_sem_detach i k)"
| "run_sync_call (Sem_Delete i) k = snd (rt_sem_delete i k)"
| "run_sync_call (Sem_Take i time) k = snd (rt_sem_take i time k)"
| "run_sync_call (Sem_Release i) k = snd (rt_sem_release i k)"
| "run_sync_call (Sem_Control i cmd arg) k = snd (rt_sem_control i cmd arg k)"
| "run_sync_call (Mutex_Init i flag) k = snd (rt_mutex_init i flag k)"
| "run_sync_call (Mutex_Create mem flag) k = snd (rt_mutex_create mem flag k)"
| "run_sync_call (Mutex_Detach i) k = snd (rt_mutex_detach i k)"
| "run_sync_call (Mutex_Delete i) k = snd (rt_mutex_delete i k)"
| "run_sync_call (Mutex_Take i time) k = snd (rt_mutex_take i time k)"
| "run_sync_call (Mutex_Release i) k = snd (rt_mutex_release i k)"
| "run_sync_call (Mutex_Control i cmd) k = snd (rt_mutex_control i cmd k)"
| "run_sync_call (Event_Init i flag) k = snd (rt_event_init i flag k)"
| "run_sync_call (Event_Create mem flag) k = snd (rt_event_create mem flag k)"
| "run_sync_call (Event_Detach i) k = snd (rt_event_detach i k)"
| "run_sync_call (Event_Delete i) k = snd (rt_event_delete i k)"
| "run_sync_call (Event_Send i bits) k = snd (rt_event_send i bits k)"
| "run_sync_call (Event_Recv i bits opt time) k = snd (rt_event_recv i bits opt time k)"
| "run_sync_call (Event_Control i cmd) k = snd (rt_event_control i cmd k)"

fun run_queue_call :: "tid \<Rightarrow> queue_call \<Rightarrow> kernel \<Rightarrow> kernel" where
  "run_queue_call t (Mb_Init i pool n flag) k = snd (rt_mb_init i pool n flag k)"
| "run_queue_call t (Mb_Create mem pool n flag) k = snd (rt_mb_create mem (Some pool) n flag k)"
| "run_queue_call t (Mb_Detach i) k = snd (rt_mb_detach i k)"
| "run_queue_call t (Mb_Delete i) k = snd (rt_mb_delete i k)"
| "run_queue_call t (Mb_Send_Wait i v time) k = snd (rt_mb_send_wait i v time k)"
| "run_queue_call t (Mb_Send_Resume i v time td) k = snd (rt_mb_send_resume t i v time td k)"
| "run_queue_call t (Mb_Recv i time) k = snd (rt_mb_recv i time k)"
| "run_queue_call t (Mb_Recv_Resume i time td) k = snd (rt_mb_recv_resume t i time td k)"
| "run_queue_call t (Mb_Control i cmd) k = snd (rt_mb_control i cmd k)"
| "run_queue_call t (Mq_Init i pool msg_size pool_size flag) k = snd (rt_mq_init i pool msg_size pool_size flag k)"
| "run_queue_call t (Mq_Create mem pool msg_size max_msgs flag) k =
     snd (rt_mq_create mem (Some pool) msg_size max_msgs flag k)"
| "run_queue_call t (Mq_Detach i) k = snd (rt_mq_detach i k)"
| "run_queue_call t (Mq_Delete i) k = snd (rt_mq_delete i k)"
| "run_queue_call t (Mq_Send_Wait i buf time) k = snd (rt_mq_send_wait i buf time k)"
| "run_queue_call t (Mq_Send_Resume i buf time td) k = snd (rt_mq_send_resume t i buf time td k)"
| "run_queue_call t (Mq_Urgent i buf) k = snd (rt_mq_urgent i buf k)"
| "run_queue_call t (Mq_Recv i n time) k = snd (rt_mq_recv i n time k)"
| "run_queue_call t (Mq_Recv_Resume i n time td) k = snd (rt_mq_recv_resume t i n time td k)"
| "run_queue_call t (Mq_Control i cmd) k = snd (rt_mq_control i cmd k)"

section \<open>What callers owe\<close>

fun thread_call_ok :: "tid \<Rightarrow> thread_call \<Rightarrow> kernel \<Rightarrow> bool" where
  "thread_call_ok t (Thread_Init u stktop start stksize prio ticks) k \<longleftrightarrow>
     unused k u \<and> unat prio < RT_THREAD_PRIORITY_MAX"
| "thread_call_ok t (Thread_Create mem stack stktop stksize prio ticks) k \<longleftrightarrow>
     (case mem of None \<Rightarrow> True | Some u \<Rightarrow> unused k u) \<and> unat prio < RT_THREAD_PRIORITY_MAX"
| "thread_call_ok t (Thread_Startup u) k \<longleftrightarrow> stat_of (threads k u) = RT_THREAD_INIT"
| "thread_call_ok t (Thread_Control u cmd arg) k \<longleftrightarrow>
     (cmd = 0x02 \<longrightarrow> unat arg < RT_THREAD_PRIORITY_MAX) \<and> (cmd = 0x00 \<longrightarrow> stat_of (threads k u) = RT_THREAD_INIT)"
| "thread_call_ok t Thread_Exit k \<longleftrightarrow> running k t"
| "thread_call_ok t (Thread_Sleep ticks) k \<longleftrightarrow> running k t"
| "thread_call_ok t Thread_Sleep_Resume k \<longleftrightarrow> running k t"
| "thread_call_ok t (Thread_Delay_Until cell inc) k \<longleftrightarrow> running k t"
| "thread_call_ok t c k \<longleftrightarrow> True"

fun sync_call_ok :: "tid \<Rightarrow> sync_call \<Rightarrow> kernel \<Rightarrow> bool" where
  "sync_call_ok t (Sem_Take i time) k \<longleftrightarrow> running k t"
| "sync_call_ok t (Mutex_Take i time) k \<longleftrightarrow> running k t \<and> OMutex i \<in> set (objects k)"
| "sync_call_ok t (Mutex_Release i) k \<longleftrightarrow> running k t \<and> OMutex i \<in> set (objects k)"
| "sync_call_ok t (Event_Recv i bits opt time) k \<longleftrightarrow> running k t \<and> event_option opt"
| "sync_call_ok t c k \<longleftrightarrow> True"

fun queue_call_ok :: "tid \<Rightarrow> queue_call \<Rightarrow> kernel \<Rightarrow> bool" where
  "queue_call_ok t (Mb_Init i pool n flag) k \<longleftrightarrow> length pool = unat (ucast n :: u16) \<and> pool \<noteq> []"
| "queue_call_ok t (Mb_Create mem pool n flag) k \<longleftrightarrow> length pool = unat (ucast n :: u16) \<and> pool \<noteq> []"
| "queue_call_ok t (Mb_Detach i) k \<longleftrightarrow> True"
| "queue_call_ok t (Mb_Delete i) k \<longleftrightarrow> True"
| "queue_call_ok t (Mb_Control i cmd) k \<longleftrightarrow> True"
| "queue_call_ok t (Mq_Init i pool msg_size pool_size flag) k \<longleftrightarrow> True"
| "queue_call_ok t (Mq_Create mem pool msg_size max_msgs flag) k \<longleftrightarrow> True"
| "queue_call_ok t (Mq_Detach i) k \<longleftrightarrow> True"
| "queue_call_ok t (Mq_Delete i) k \<longleftrightarrow> True"
| "queue_call_ok t (Mq_Control i cmd) k \<longleftrightarrow> True"
| "queue_call_ok t c k \<longleftrightarrow> running k t"

section \<open>Steps and reachable states\<close>

inductive kstep :: "kernel \<Rightarrow> kernel \<Rightarrow> bool" where
  thread_call: "thread_call_ok t c k \<Longrightarrow> \<not> halted k \<Longrightarrow> kstep k (run_thread_call t c k)"
| sync_call: "sync_call_ok t c k \<Longrightarrow> \<not> halted k \<Longrightarrow> kstep k (run_sync_call c k)"
| queue_call: "queue_call_ok t c k \<Longrightarrow> \<not> halted k \<Longrightarrow> kstep k (run_queue_call t c k)"
| start: "\<not> halted k \<Longrightarrow> kstep k (rt_system_scheduler_start k)"
| schedule: "\<not> halted k \<Longrightarrow> kstep k (rt_schedule k)"
| tick: "rt_tick_increase (Suc (length (timer_list k))) cb k = Done k' \<Longrightarrow> \<not> halted k \<Longrightarrow> kstep k k'"
| idle: "\<not> halted k \<Longrightarrow> kstep k (snd (rt_thread_idle_excute k))"

inductive reachable :: "kernel \<Rightarrow> bool" where
  boot: "reachable (rt_system_scheduler_init kernel_bss)"
| step: "reachable k \<Longrightarrow> kstep k k' \<Longrightarrow> reachable k'"


section \<open>The invariant of the whole kernel\<close>

definition sys_inv :: "kernel \<Rightarrow> bool" where
  "sys_inv k \<longleftrightarrow> kinv k \<and> ipc_inv k \<and> sane k"

lemma sys_inv_quiet: "sys_inv k \<Longrightarrow> quiet k k' \<Longrightarrow> kinv k' \<Longrightarrow> sane k' \<Longrightarrow> sys_inv k'"
  by (simp add: sys_inv_def ipc_inv_quiet)

lemma sys_inv_parts: "sys_inv k \<Longrightarrow> kinv k" "sys_inv k \<Longrightarrow> ipc_inv k" "sys_inv k \<Longrightarrow> sane k"
  by (simp_all add: sys_inv_def)

lemma sane_stat:
  "sane k \<Longrightarrow> stat_of (threads k t) \<in> {RT_THREAD_INIT, RT_THREAD_READY, RT_THREAD_SUSPEND, RT_THREAD_CLOSE}"
  "sane k \<Longrightarrow> unat (init_priority (threads k t)) < RT_THREAD_PRIORITY_MAX"
  by (simp_all add: sane_def thread_ok_def)

lemma critical_inv: "sys_inv k \<Longrightarrow> sys_inv (rt_enter_critical k)" "sys_inv k \<Longrightarrow> sys_inv (rt_exit_critical k)"
proof -
  have lock: "sys_inv (k\<lparr>lock_nest := n\<rparr>) \<longleftrightarrow> sys_inv k" for n k
  proof -
    have ok: "mutex_ok (k\<lparr>lock_nest := n\<rparr>) i = mutex_ok k i" for i by (rule mutex_ok_cong; simp)
    show ?thesis
      by (simp add: sys_inv_def kinv_def ready_inv_except_def timer_inv_def wait_inv_def active_def ipc_inv_def
          sem_inv_def mutex_inv_def ok event_inv_def mailbox_inv_def sane_def one_shot_def)
  qed
  have sched: "sys_inv (rt_schedule k) \<longleftrightarrow> sys_inv k" for k by (simp add: sys_inv_def)
  show "sys_inv k \<Longrightarrow> sys_inv (rt_enter_critical k)" "sys_inv k \<Longrightarrow> sys_inv (rt_exit_critical k)"
    by (simp_all add: rt_enter_critical_def rt_exit_critical_def Let_def lock sched)
qed

lemma kinv_delay_until:
  assumes inv: "kinv k" and run: "running k t"
  shows "kinv (snd (snd (rt_thread_delay_until cell inc k)))"
proof -
  have c: "current_thread k = Some t" and rdy: "stat_of (threads k t) = RT_THREAD_READY"
    using run by (simp_all add: running_def)
  have "kinv (start_thread_timer t ticks (snd (rt_thread_suspend t k)))" for ticks
    by (rule kinv_start_thread_timer[OF kinv_suspend[OF inv] suspend_state(1)[OF inv rdy]])
  then show ?thesis using c inv by (simp add: rt_thread_delay_until_def Let_def)
qed

lemma thread_call_inv:
  assumes inv: "sys_inv k" and ok: "thread_call_ok t c k"
  shows "sys_inv (run_thread_call t c k)"
proof (cases c)
  case (Thread_Init u stktop start stksize prio ticks)
  then show ?thesis using thread_init_inv[OF sys_inv_parts[OF inv], of u prio] ok by (simp add: sys_inv_def)
next
  case (Thread_Create mem stack stktop stksize prio ticks)
  then have "unused k u" if "mem = Some u" for u using ok that by simp
  with Thread_Create show ?thesis
    using thread_create_inv[OF sys_inv_parts[OF inv], of mem prio] ok by (simp add: sys_inv_def)
next
  case (Thread_Startup u)
  then show ?thesis
    using sys_inv_quiet[OF inv quiet_startup] kinv_startup[OF sys_inv_parts(1)[OF inv]] sane_stat[OF sys_inv_parts(3)[OF inv]]
      ok sys_inv_parts[OF inv] by (simp add: sane_steps)
next
  case Thread_Exit
  then show ?thesis
    using sys_inv_quiet[OF inv quiet_exit] kinv_exit[OF sys_inv_parts(1)[OF inv], of t] ok sys_inv_parts[OF inv]
    by (simp add: sane_steps running_def)
next
  case (Thread_Detach u)
  then show ?thesis
    using sys_inv_quiet[OF inv quiet_detach kinv_detach[OF sys_inv_parts(1)[OF inv] sane_stat(1)]] sys_inv_parts[OF inv]
    by (simp add: sane_steps)
next
  case (Thread_Delete u)
  then show ?thesis
    using sys_inv_quiet[OF inv quiet_delete kinv_delete[OF sys_inv_parts(1)[OF inv] sane_stat(1)]] sys_inv_parts[OF inv]
    by (simp add: sane_steps)
next
  case (Thread_Control u cmd arg)
  have "kinv (snd (rt_thread_control u cmd arg k))"
    using kinv_change_priority[OF sys_inv_parts(1)[OF inv]] kinv_startup[OF sys_inv_parts(1)[OF inv]]
      kinv_detach[OF sys_inv_parts(1)[OF inv] sane_stat(1)] kinv_delete[OF sys_inv_parts(1)[OF inv] sane_stat(1)]
      sane_stat(2)[OF sys_inv_parts(3)[OF inv]] sys_inv_parts[OF inv] ok Thread_Control
    by (auto simp: rt_thread_control_def)
  with Thread_Control show ?thesis
    using sys_inv_quiet[OF inv quiet_control] sys_inv_parts[OF inv] by (simp add: sane_steps)
next
  case (Thread_Sleep ticks)
  then show ?thesis
    using sys_inv_quiet[OF inv quiet_sleep] kinv_sleep[OF sys_inv_parts(1)[OF inv], of t] ok sys_inv_parts[OF inv]
    by (simp add: sane_steps running_def)
next
  case (Thread_Delay_Until cell inc)
  then show ?thesis
    using sys_inv_quiet[OF inv quiet_delay_until] kinv_delay_until[OF sys_inv_parts(1)[OF inv], of t] ok sys_inv_parts[OF inv]
    by (simp add: sane_steps)
next
  case Thread_Sleep_Resume
  then show ?thesis
    using sys_inv_quiet[OF inv quiet_sleep_resume] sys_inv_parts[OF inv]
    by (simp add: rt_thread_sleep_resume_def sane_steps)
qed (use inv sys_inv_parts[OF inv] critical_inv sys_inv_quiet[OF inv quiet_yield] sys_inv_quiet[OF inv quiet_suspend]
      sys_inv_quiet[OF inv quiet_resume] in \<open>simp_all add: kinv_yield kinv_suspend kinv_resume sane_steps\<close>)


lemma sane_sync:
  assumes k: "sane k"
  shows "sane (run_sync_call c k)"
proof (cases c)
  case (Event_Send i bits)
  have walk: "sane k \<Longrightarrow> (case event_walk i ts b k of Inl r \<Rightarrow> sane (snd r) | Inr r \<Rightarrow> sane (snd r))" for ts b k
    by (induction ts arbitrary: b k) (simp_all add: Let_def sane_steps)
  have "sane (upd_event i (\<lambda>e. e\<lparr>event_bits := event_bits e OR bits\<rparr>) k)" using k by (simp add: sane_steps)
  from walk[OF this, of "lists k (EventQ i)" False]
  show ?thesis using k Event_Send by (auto simp: rt_event_send_def Let_def split: sum.splits prod.splits)
next
  case (Mutex_Take i time)
  then show ?thesis
    using k by (simp add: rt_mutex_take_def Let_def sane_steps split: option.split)
next
  case (Mutex_Release i)
  then show ?thesis
    using k by (auto simp: rt_mutex_release_def Let_def sane_steps split: option.split list.split)
next
  case (Event_Recv i bits opt time)
  then show ?thesis
    using k by (auto simp: rt_event_recv_def Let_def sane_steps split: option.split)
next
  case (Sem_Take i time)
  then show ?thesis using k by (auto simp: rt_sem_take_def Let_def sane_steps split: option.split)
qed (use k in \<open>auto simp: rt_sem_init_def rt_sem_create_def rt_sem_detach_def rt_sem_delete_def rt_sem_release_def
      rt_sem_control_def rt_mutex_init_def rt_mutex_create_def rt_mutex_detach_def rt_mutex_delete_def
      rt_mutex_control_def rt_event_init_def rt_event_create_def rt_event_detach_def rt_event_delete_def
      rt_event_control_def Let_def sane_steps split: option.split\<close>)

lemma sync_call_inv:
  assumes inv: "sys_inv k" and ok: "sync_call_ok t c k"
  shows "sys_inv (run_sync_call c k)"
proof -
  note i = sys_inv_parts(1,2)[OF inv]
  have "kinv (run_sync_call c k) \<and> ipc_inv (run_sync_call c k)"
    using ok mutex_take_inv[OF i, of t] mutex_release_inv[OF i, of t] event_recv_inv[OF i, of t]
    by (cases c) (simp_all add: i sem_init_inv sem_detach_inv sem_take_inv sem_release_inv sem_control_inv
        mutex_init_inv mutex_detach_inv rt_mutex_control_def event_init_inv event_detach_inv event_send_inv
        event_control_inv)
  then show ?thesis using sane_sync[OF sys_inv_parts(3)[OF inv]] by (simp add: sys_inv_def)
qed

lemma mq_register_inv:
  assumes inv: "kinv k" "ipc_inv k"
  shows "kinv (snd (rt_mq_init i pool msg_size pool_size flag k))"
    and "ipc_inv (snd (rt_mq_init i pool msg_size pool_size flag k))"
    and "kinv (snd (rt_mq_create mem pools msg_size max_msgs flag k))"
    and "ipc_inv (snd (rt_mq_create mem pools msg_size max_msgs flag k))"
proof -
  have drop: "ipc_inv k' \<Longrightarrow> ipc_inv (upd_list (MqRecvQ i) (\<lambda>_. []) k')" "ipc_inv k' \<Longrightarrow> ipc_inv (upd_list (MqSendQ i) (\<lambda>_. []) k')"
    for k' i by (auto elim!: ipc_inv_quiet[rotated] simp: quiet_def one_shot_def)
  have reg: "ipc_inv (rt_object_init (OMq i) k)" "ipc_inv (rt_object_allocate (OMq i) k)" for i
  proof -
    have ok: "mutex_ok (rt_object_init (OMq i) k) j = mutex_ok k j" "mutex_ok (rt_object_allocate (OMq i) k) j = mutex_ok k j"
      for j by (rule mutex_ok_cong; simp add: rt_object_allocate_def)+
    show "ipc_inv (rt_object_init (OMq i) k)" "ipc_inv (rt_object_allocate (OMq i) k)"
      using inv(2) by (simp_all add: ipc_inv_def sem_inv_def mutex_inv_def ok event_inv_def mailbox_inv_def)
        (simp_all add: rt_object_allocate_def)
  qed
  show "kinv (snd (rt_mq_init i pool msg_size pool_size flag k))"
    "kinv (snd (rt_mq_create mem pools msg_size max_msgs flag k))"
    using inv(1) by (auto simp: rt_mq_init_def rt_mq_create_def rt_ipc_object_init_def Let_def intro!: kinv_drop_list split: option.split)
  show "ipc_inv (snd (rt_mq_init i pool msg_size pool_size flag k))"
    "ipc_inv (snd (rt_mq_create mem pools msg_size max_msgs flag k))"
    using reg inv(2) by (auto simp: rt_mq_init_def rt_mq_create_def rt_ipc_object_init_def Let_def drop ipc_inv_object
        split: option.split)
qed


lemma sane_mailbox:
  assumes k: "sane k"
  shows "sane (snd (rt_mb_send_loop t i v time k))" and "sane (snd (rt_mb_recv_loop t i time k))"
  using k by (auto simp: rt_mb_send_loop_def rt_mb_recv_loop_def rt_mb_send_tail_def rt_mb_recv_tail_def Let_def
      sane_steps split: option.split exec.split prod.split)

lemma sane_mqueue:
  assumes k: "sane k"
  shows "sane (snd (rt_mq_send_loop t i buf time k))" and "sane (snd (rt_mq_recv_loop t i n time k))"
  using k by (auto simp: rt_mq_send_loop_def rt_mq_recv_loop_def rt_mq_send_link_def rt_mq_recv_free_def Let_def
      sane_steps split: option.split exec.split prod.split)

lemma sane_queue:
  assumes k: "sane k"
  shows "sane (run_queue_call t c k)"
proof (cases c)
  case (Mq_Urgent i buf)
  then show ?thesis
    using k by (auto simp: rt_mq_urgent_def rt_mq_send_link_def Let_def sane_steps split: option.split exec.split prod.split)
next
  case (Mq_Control i cmd)
  then show ?thesis
    using k by (auto simp: rt_mq_control_def Let_def sane_steps split: exec.split)
qed (use k in \<open>auto simp: rt_mb_init_def rt_mb_create_def rt_mb_detach_def rt_mb_delete_def rt_mb_send_wait_def
      rt_mb_send_resume_def rt_mb_recv_def rt_mb_recv_resume_def rt_mb_control_def rt_mq_init_def rt_mq_create_def
      rt_mq_detach_def rt_mq_delete_def rt_mq_send_wait_def rt_mq_send_resume_def rt_mq_recv_def rt_mq_recv_resume_def
      Let_def sane_steps sane_mailbox sane_mqueue split: option.split\<close>)

lemma queue_call_inv:
  assumes inv: "sys_inv k" and ok: "queue_call_ok t c k"
  shows "sys_inv (run_queue_call t c k)"
proof -
  note i = sys_inv_parts(1,2)[OF inv]
  have "kinv (run_queue_call t c k) \<and> ipc_inv (run_queue_call t c k)"
    using ok by (cases c) (simp_all add: i mb_init_inv mb_control_inv mb_calls_inv mq_register_inv mq_control_inv mq_calls_inv)
  then show ?thesis using sane_queue[OF sys_inv_parts(3)[OF inv]] by (simp add: sys_inv_def)
qed

lemma start_inv: "sys_inv k \<Longrightarrow> sys_inv (rt_system_scheduler_start k)"
proof -
  have cur: "sys_inv (k\<lparr>current_thread := c\<rparr>) \<longleftrightarrow> sys_inv k" "sys_inv (k\<lparr>halted := h\<rparr>) \<longleftrightarrow> sys_inv k" for c h
  proof -
    have ok: "mutex_ok (k\<lparr>current_thread := c\<rparr>) i = mutex_ok k i" "mutex_ok (k\<lparr>halted := h\<rparr>) i = mutex_ok k i" for i
      by (rule mutex_ok_cong; simp)+
    show "sys_inv (k\<lparr>current_thread := c\<rparr>) \<longleftrightarrow> sys_inv k" "sys_inv (k\<lparr>halted := h\<rparr>) \<longleftrightarrow> sys_inv k"
      by (simp_all add: sys_inv_def kinv_def ready_inv_except_def timer_inv_def wait_inv_def active_def ipc_inv_def
          sem_inv_def mutex_inv_def ok event_inv_def mailbox_inv_def sane_def one_shot_def)
  qed
  show "sys_inv k \<Longrightarrow> sys_inv (rt_system_scheduler_start k)"
    by (auto simp: rt_system_scheduler_start_def cur split: option.split list.split)
qed

lemma boot_inv: "sys_inv (rt_system_scheduler_init kernel_bss)"
proof -
  have "rt_system_scheduler_init kernel_bss = kernel_bss\<lparr>current_prio := 31\<rparr>"
    by (auto simp: rt_system_scheduler_init_def kernel_bss_def RT_THREAD_PRIORITY_MAX_def fun_eq_iff split: list_id.split)
  moreover have "sys_inv (kernel_bss\<lparr>current_prio := 31\<rparr>)"
    by (simp add: sys_inv_def kinv_def ready_inv_except_def timer_inv_def wait_inv_def kernel_bss_def zero_thread_def
      stat_of_def rt_stats active_def ipc_inv_def sem_inv_def mutex_inv_def event_inv_def mailbox_inv_def sane_def
      one_shot_def thread_ok_def RT_THREAD_PRIORITY_MAX_def)
  ultimately show ?thesis by simp
qed

lemma tick_fails: "current_thread k = None \<Longrightarrow> rt_tick_increase fuel cb k = Fault"
  by (simp add: rt_tick_increase_def Let_def rt_thread_self_def)

lemma kstep_inv:
  assumes "kstep k k'" and inv: "sys_inv k"
  shows "sys_inv k'"
  using assms(1)
proof (cases rule: kstep.cases)
  case (tick cb)
  obtain t where t: "current_thread k = Some t" using tick tick_fails[of k] by (cases "current_thread k") auto
  show ?thesis using tick_inv[OF sys_inv_parts[OF inv] t, of "Suc (length (timer_list k))" cb] tick by (auto simp: sys_inv_def)
next
  case schedule
  then show ?thesis using inv by (simp add: sys_inv_def)
next
  case idle
  then show ?thesis using idle_inv[OF sys_inv_parts[OF inv]] by (simp add: sys_inv_def)
qed (use inv in \<open>simp_all add: thread_call_inv sync_call_inv queue_call_inv start_inv\<close>)

lemma reachable_sys_inv: "reachable k \<Longrightarrow> sys_inv k"
  by (induction rule: reachable.induct) (auto intro: boot_inv kstep_inv)


section \<open>Runs of ticks\<close>

text \<open>\<open>n\<close> ticks with no call between them.\<close>

fun ticks :: "nat \<Rightarrow> (nat \<Rightarrow> kernel \<Rightarrow> kernel) \<Rightarrow> kernel \<Rightarrow> kernel exec" where
  "ticks 0 cb k = Done k"
| "ticks (Suc n) cb k =
     (case rt_tick_increase (Suc (length (timer_list k))) cb k of Done k' \<Rightarrow> ticks n cb k' | r \<Rightarrow> r)"

text \<open>The timeouts of the running timers, seen from \<open>base\<close>, are ordered and in range.\<close>

abbreviation timeouts_from :: "u32 \<Rightarrow> kernel \<Rightarrow> bool" where
  "timeouts_from base k \<equiv> timers_ordered base (\<lambda>x. timeout_tick (timers k x)) (timer_list k)"

lemma tick_state_frame:
  assumes "current_thread k = Some t"
  shows "timers (tick_state t k) = timers k" and "current_thread (tick_state t k) \<noteq> None"
    and "stat_of (threads (tick_state t k) u) = stat_of (threads k u)"
    and "error (threads (tick_state t k) u) = error (threads k u)"
  using assms current_schedule
  by (auto simp: tick_state_def rt_thread_yield_def Let_def simp del: not_None_eq split: option.split)

lemma tick_wakes:
  assumes inv: "sys_inv k" and cur: "current_thread k \<noteq> None" and o: "timeouts_from base k"
    and now: "tick k + 1 - base < RT_TICK_MAX div 2"
  shows "\<exists>k'. rt_tick_increase (Suc (length (timer_list k))) cb k = Done k' \<and> sys_inv k' \<and>
    current_thread k' \<noteq> None \<and> tick k' = tick k + 1 \<and> timeouts_from base k' \<and>
    timer_list k' = filter (\<lambda>m. \<not> due (tick k + 1) k m) (timer_list k) \<and>
    (\<forall>m. timeout_tick (timers k' m) = timeout_tick (timers k m)) \<and>
    (\<forall>t. ThreadTimer t \<in> set (timer_list k) \<and> due (tick k + 1) k (ThreadTimer t) \<longrightarrow>
       stat_of (threads k' t) = RT_THREAD_READY \<and> error (threads k' t) = - RT_ETIMEOUT)"
proof -
  obtain c where c: "current_thread k = Some c" using cur by auto
  let ?k = "tick_state c k"
  note s = tick_state_inv[OF sys_inv_parts[OF inv], of c] and f = tick_state_frame[OF c]
  have o': "timeouts_from base ?k" using o by (simp add: s(4) f(1))
  have dd: "due now ?k = due now k" for now by (simp add: due_def f(1) fun_eq_iff)
  obtain k' where k': "rt_timer_check (Suc (length (timer_list k))) cb ?k = Done k'"
    "timer_list k' = filter (\<lambda>m. \<not> due (tick k + 1) k m) (timer_list k)"
    "threads k' = (\<lambda>t. if times_out ?k t then timed_out (threads ?k t) else threads ?k t)"
    "\<forall>m. timeout_tick (timers k' m) = timeout_tick (timers k m)" "tick k' = tick k + 1" "current_thread k' \<noteq> None"
    using timer_check_wakes[OF s(1) sane_thread_timers[OF s(3)] o', of "Suc (length (timer_list k))" cb] now s(4,5) f
    by (auto simp: dd simp del: not_None_eq)
  have run: "rt_tick_increase (Suc (length (timer_list k))) cb k = Done k'"
    using c k'(1) by (simp add: rt_tick_increase_def rt_thread_self_def tick_state_def Let_def)
  have "sys_inv k'"
    using tick_inv[OF sys_inv_parts[OF inv] c, of "Suc (length (timer_list k))" cb] run by (auto simp: sys_inv_def)
  moreover have "timeouts_from base k'"
    unfolding k'(2) using o k'(4) by (auto simp: timers_ordered_def intro: sorted_filter)
  moreover have "stat_of (threads k' t) = RT_THREAD_READY \<and> error (threads k' t) = - RT_ETIMEOUT"
    if "ThreadTimer t \<in> set (timer_list k)" "due (tick k + 1) k (ThreadTimer t)" for t
    using that by (simp add: k'(3) times_out_def s(4,5) dd timed_out_def)
  ultimately show ?thesis using run k' by blast
qed


lemma not_yet_due:
  assumes "to - now = 1 + d" and "d < RT_TICK_MAX div 2 - 1" and "d \<noteq> 0"
  shows "\<not> (now + 1) - to < RT_TICK_MAX div 2"
proof -
  have "(now + 1) - to = - d" using assms(1) by (simp add: algebra_simps)
  moreover have "uint (- d) = 2 ^ 32 - uint d"
  proof -
    have "uint d mod 4294967296 = uint d" using uint_bounded[of d] by simp
    then show ?thesis using assms(3) by (simp add: uint_word_ariths zmod_zminus1_eq_if uint_0_iff)
  qed
  moreover have "uint d < 0x7ffffffe" using assms(2) by (simp add: half_range word_less_def)
  ultimately show ?thesis by (simp add: half_range word_less_def)
qed

lemma unat_succ: "unat x + 1 < 2 ^ 32 \<Longrightarrow> unat (x + 1) = unat x + 1" for x :: u32
  by (simp add: unat_word_ariths)

lemma ticks_sleep:
  assumes "sys_inv k" and "current_thread k \<noteq> None" and "timeouts_from base k"
    and "ThreadTimer t \<in> set (timer_list k)"
    and "timeout_tick (timers k (ThreadTimer t)) - tick k = of_nat (Suc n)"
    and "unat (tick k - base) + Suc n < 0x7fffffff"
  shows "(\<exists>k'. ticks (Suc n) cb k = Done k' \<and> sys_inv k' \<and> stat_of (threads k' t) = RT_THREAD_READY \<and>
      error (threads k' t) = - RT_ETIMEOUT) \<and>
    (\<forall>j \<le> n. \<exists>k'. ticks j cb k = Done k' \<and> ThreadTimer t \<in> set (timer_list k') \<and> sys_inv k')"
  using assms
proof (induction n arbitrary: k)
  case (0 k)
  have eq: "tick k + 1 - base = (tick k - base) + 1" by simp
  have "unat (tick k + 1 - base) = unat (tick k - base) + 1"
    unfolding eq by (rule unat_succ) (use 0(6) in simp)
  then have now: "tick k + 1 - base < RT_TICK_MAX div 2"
    using 0(6) by (simp add: half_range word_less_nat_alt)
  have "timeout_tick (timers k (ThreadTimer t)) = tick k + 1" using 0(5) by (simp add: algebra_simps)
  then have due: "due (tick k + 1) k (ThreadTimer t)" by (simp add: due_def half_range)
  with tick_wakes[OF 0(1-3) now, of cb] 0 show ?case by fastforce
next
  case (Suc n k)
  have eq: "tick k + 1 - base = (tick k - base) + 1" by simp
  have up: "unat (tick k + 1 - base) = unat (tick k - base) + 1"
    unfolding eq by (rule unat_succ) (use Suc.prems(6) in simp)
  then have now: "tick k + 1 - base < RT_TICK_MAX div 2"
    using Suc.prems(6) by (simp add: half_range word_less_nat_alt)
  have d: "(of_nat (Suc n) :: u32) < RT_TICK_MAX div 2 - 1" "(of_nat (Suc n) :: u32) \<noteq> 0"
    using Suc.prems(6) by (simp_all add: half_range word_less_nat_alt unat_of_nat word_unat_eq_iff del: of_nat_Suc)
  have "\<not> due (tick k + 1) k (ThreadTimer t)"
    unfolding due_def by (rule not_yet_due[OF _ d]) (use Suc.prems(5) in simp)
  with tick_wakes[OF Suc.prems(1-3) now, of cb] Suc.prems(4)
  obtain k1 where k1: "rt_tick_increase (Suc (length (timer_list k))) cb k = Done k1" "sys_inv k1"
    "current_thread k1 \<noteq> None" "tick k1 = tick k + 1" "timeouts_from base k1" "ThreadTimer t \<in> set (timer_list k1)"
    "timeout_tick (timers k1 (ThreadTimer t)) = timeout_tick (timers k (ThreadTimer t))" by fastforce
  have "timeout_tick (timers k1 (ThreadTimer t)) - tick k1 = of_nat (Suc n)"
    using Suc.prems(5) k1(4,7) by (simp add: algebra_simps)
  moreover have "unat (tick k1 - base) + Suc n < 0x7fffffff" using Suc.prems(6) up k1(4) by simp
  ultimately have ih: "(\<exists>k'. ticks (Suc n) cb k1 = Done k' \<and> sys_inv k' \<and> stat_of (threads k' t) = RT_THREAD_READY \<and>
      error (threads k' t) = - RT_ETIMEOUT) \<and>
    (\<forall>j \<le> n. \<exists>k'. ticks j cb k1 = Done k' \<and> ThreadTimer t \<in> set (timer_list k') \<and> sys_inv k')"
    by (intro Suc.IH[OF k1(2,3,5,6)])
  have "\<exists>k'. ticks j cb k = Done k' \<and> ThreadTimer t \<in> set (timer_list k') \<and> sys_inv k'" if "j \<le> Suc n" for j
    using that ih k1(1) Suc.prems(1,4) by (cases j) auto
  with ih k1(1) show ?case by simp
qed


section \<open>Properties\<close>

text \<open>C24. In every state the kernel can reach, whatever calls, ticks and idle rounds led there,
  the state of a thread says where it is: it is one of the four states; the ready list of a
  priority holds, once each, exactly the ready threads of that priority; a thread in a wait list
  is suspended and in no other list; a defunct thread is closed; and a running timer belongs to
  a suspended thread.\<close>

theorem reachable_thread_states:
  assumes "reachable k"
  shows "(\<forall>t. stat_of (threads k t) \<in> {RT_THREAD_INIT, RT_THREAD_READY, RT_THREAD_SUSPEND, RT_THREAD_CLOSE}) \<and>
    (\<forall>p. distinct (lists k (Ready p)) \<and> (\<forall>t. t \<in> set (lists k (Ready p)) \<longleftrightarrow>
       stat_of (threads k t) = RT_THREAD_READY \<and> unat (current_priority (threads k t)) = p)) \<and>
    (\<forall>l t. is_wait l \<and> t \<in> set (lists k l) \<longrightarrow>
       stat_of (threads k t) = RT_THREAD_SUSPEND \<and> (\<forall>l'. t \<in> set (lists k l') \<longrightarrow> l' = l)) \<and>
    (\<forall>t \<in> set (lists k Defunct). stat_of (threads k t) = RT_THREAD_CLOSE) \<and>
    (\<forall>t. ThreadTimer t \<in> set (timer_list k) \<longrightarrow> stat_of (threads k t) = RT_THREAD_SUSPEND)"
proof -
  note inv = sys_inv_parts[OF reachable_sys_inv[OF assms]]
  note r = ready_invD[OF kinvD(1)[OF inv(1)]] and w = wait_invD[OF kinvD(3)[OF inv(1)]]
  have susp: "t \<notin> set (lists k (Ready p))" if "stat_of (threads k t) = RT_THREAD_SUSPEND" for t p
    using suspended_not_ready[OF inv(1), of t p] that by simp
  have alone: "l' = l" if "is_wait l" "t \<in> set (lists k l)" "t \<in> set (lists k l')" for l l' t
  proof -
    have "\<not> is_ready l'" using that w(3)[of l t] susp[of t] by (cases l') (auto simp: is_wait_def)
    with that w(2)[of l' l t] show ?thesis by (simp add: is_wait_def)
  qed
  have "t \<in> set (lists k (Ready p)) \<longleftrightarrow>
      stat_of (threads k t) = RT_THREAD_READY \<and> unat (current_priority (threads k t)) = p" for t p
    using r(2)[of t p] r(3)[of t] by auto
  moreover have "stat_of (threads k t) = RT_THREAD_SUSPEND" if "ThreadTimer t \<in> set (timer_list k)" for t
    using w(6)[of t] kinvD(2)[OF inv(1)] that by (simp add: timer_inv_def)
  ultimately show ?thesis using sane_stat[OF inv(3)] r(1) w(3,4) alone by (auto simp: is_wait_def)
qed

text \<open>C25. In every state the kernel can reach, the IPC objects are consistent: nobody waits for a
  semaphore that is available; a registered mutex is free, with value 1 and no waiters, or owned,
  with value 0, held at least once, and not waited for by its owner; nobody waits for events that
  are there; and the offsets of a registered mailbox are within its pool and count its entries.\<close>

theorem reachable_objects_consistent:
  assumes "reachable k"
  shows "(\<forall>i. lists k (SemQ i) \<noteq> [] \<longrightarrow> sem_value (sems k i) = 0) \<and>
    (\<forall>i. OMutex i \<in> set (objects k) \<longrightarrow>
      (case owner (mutexes k i) of
         None \<Rightarrow> hold (mutexes k i) = 0 \<and> mutex_value (mutexes k i) = 1 \<and> lists k (MutexQ i) = []
       | Some t \<Rightarrow> hold (mutexes k i) \<noteq> 0 \<and> mutex_value (mutexes k i) = 0 \<and> t \<notin> set (lists k (MutexQ i)))) \<and>
    (\<forall>i. \<forall>t \<in> set (lists k (EventQ i)). \<not> event_hit (event_bits (events k i)) (threads k t)) \<and>
    (\<forall>i. OMailbox i \<in> set (objects k) \<longrightarrow> mb_inv (mailboxes k i))"
proof -
  have inv: "sem_inv k" "mutex_inv k" "event_inv k" "mailbox_inv k"
    using sys_inv_parts(2)[OF reachable_sys_inv[OF assms]] by (simp_all add: ipc_inv_def)
  have "case owner (mutexes k i) of
      None \<Rightarrow> hold (mutexes k i) = 0 \<and> mutex_value (mutexes k i) = 1 \<and> lists k (MutexQ i) = []
    | Some t \<Rightarrow> hold (mutexes k i) \<noteq> 0 \<and> mutex_value (mutexes k i) = 0 \<and> t \<notin> set (lists k (MutexQ i))"
    if "OMutex i \<in> set (objects k)" for i
    using inv(2) that by (auto simp: mutex_inv_def mutex_ok_def split: option.splits)
  with inv show ?thesis by (simp add: sem_inv_def event_inv_def mailbox_inv_def)
qed

text \<open>C26. The tick interrupt ends when the only timers are the one-shot timers of the threads: in
  every state that boot, calls on threads and IPC objects, ticks and rounds of the idle thread lead
  to and in which a thread runs, \<open>rt_tick_increase\<close> returns, with one round of its loop for each
  running timer and one more, in a state that is reachable again and one tick later. The steps do
  not include \<open>rt_timer_init\<close>, \<open>rt_timer_start\<close> and \<open>rt_timer_control\<close> on timers of an
  application, of which this program has none; with a periodic timer of period 0 the interrupt
  would not end (\<open>Timer_Check.periodic_timer_zero_diverges\<close>).\<close>

theorem reachable_tick_returns:
  assumes "reachable k" and "current_thread k \<noteq> None" and "\<not> halted k"
  shows "\<exists>k'. rt_tick_increase (Suc (length (timer_list k))) cb k = Done k' \<and> reachable k' \<and> tick k' = tick k + 1"
proof -
  obtain t where t: "current_thread k = Some t" using assms(2) by auto
  note inv = sys_inv_parts[OF reachable_sys_inv[OF assms(1)]]
  let ?k1 = "(tick_state t k)\<lparr>check_list := []\<rparr>"
  have "\<forall>u \<in> set ts. one_shot ?k1 (ThreadTimer u)" for ts
    using tick_state_inv(3)[OF inv, of t] by (simp add: sane_def one_shot_def)
  from fold_fire_frame[OF this] have "tick (fold fire ts ?k1) = tick k + 1" for ts
    using tick_state_inv(5)[OF inv, of t] by simp
  with tick_inv[OF inv t, of "Suc (length (timer_list k))" cb] show ?thesis
    using reachable.step[OF assms(1) kstep.tick[OF _ assms(3)]] by (auto simp: Let_def)
qed

text \<open>A sleeper is woken at its time and not before: with the running timers ordered and
  within half the tick range, a thread whose timer expires in \<open>n + 1\<close> ticks, in whatever list
  it waits, is still suspended after any smaller number of ticks and is ready, with the
  timeout error, after \<open>n + 1\<close> ticks; every tick returns, and the kernel stays consistent.\<close>

theorem sleeper_wakes_in_time:
  assumes "sys_inv k" and "current_thread k \<noteq> None"
    and "timers_ordered (tick k) (\<lambda>x. timeout_tick (timers k x)) (timer_list k)"
    and "ThreadTimer t \<in> set (timer_list k)"
    and "timeout_tick (timers k (ThreadTimer t)) - tick k = of_nat (Suc n)" and "Suc n < 0x7fffffff"
  shows "(\<exists>k'. ticks (Suc n) cb k = Done k' \<and> stat_of (threads k' t) = RT_THREAD_READY \<and>
      error (threads k' t) = - RT_ETIMEOUT \<and> sys_inv k') \<and>
    (\<forall>j \<le> n. \<exists>k'. ticks j cb k = Done k' \<and> stat_of (threads k' t) = RT_THREAD_SUSPEND \<and> sys_inv k')"
proof -
  have susp: "stat_of (threads k' t) = RT_THREAD_SUSPEND" if "sys_inv k'" "ThreadTimer t \<in> set (timer_list k')" for k'
    using wait_invD(6)[OF kinvD(3)[OF sys_inv_parts(1)[OF that(1)]]] kinvD(2)[OF sys_inv_parts(1)[OF that(1)]] that(2)
    by (simp add: timer_inv_def)
  have "unat (tick k - tick k) + Suc n < 0x7fffffff" using assms(6) by simp
  from ticks_sleep[OF assms(1-5) this, of cb] susp show ?thesis by blast
qed


section \<open>Witnesses\<close>

text \<open>A kernel that has been brought up: one thread, at priority 5, created and running.\<close>

definition first_thread :: kernel where
  "first_thread = run_thread_call 0 (Thread_Init 1 900 100 1000 5 10) (rt_system_scheduler_init kernel_bss)"

definition booted :: kernel where
  "booted = rt_system_scheduler_start (run_thread_call 0 (Thread_Startup 1) first_thread)"

lemma first_thread_eval: "\<not> halted first_thread" "stat_of (threads first_thread 1) = RT_THREAD_INIT"
  by code_simp+
lemma boot_eval: "\<not> halted (rt_system_scheduler_init kernel_bss)" "unused (rt_system_scheduler_init kernel_bss) 1"
  by code_simp+
lemma started_eval: "\<not> halted (run_thread_call 0 (Thread_Startup 1) first_thread)"
  by code_simp
lemma booted_eval: "\<not> halted booted" "current_thread booted = Some 1"
  by code_simp+


lemma reachable_booted: "reachable booted"
proof -
  have "thread_call_ok 0 (Thread_Init 1 900 100 1000 5 10) (rt_system_scheduler_init kernel_bss)"
    using boot_eval(2) by (simp add: RT_THREAD_PRIORITY_MAX_def)
  then have "reachable first_thread"
    unfolding first_thread_def by (intro reachable.step[OF reachable.boot] kstep.thread_call boot_eval(1))
  moreover have "thread_call_ok 0 (Thread_Startup 1) first_thread" using first_thread_eval(2) by simp
  ultimately have "reachable (run_thread_call 0 (Thread_Startup 1) first_thread)"
    by (rule reachable.step[OF _ kstep.thread_call[OF _ first_thread_eval(1)]])
  then show ?thesis unfolding booted_def by (rule reachable.step[OF _ kstep.start[OF started_eval]])
qed

definition booted_objects :: kernel where
  "booted_objects = run_queue_call 0 (Mb_Init 4 [0, 0] 2 RT_IPC_FLAG_FIFO) (run_sync_call (Mutex_Init 5 RT_IPC_FLAG_PRIO) booted)"

lemma reachable_booted_objects: "reachable booted_objects"
proof -
  have "reachable (run_sync_call (Mutex_Init 5 RT_IPC_FLAG_PRIO) booted)"
    by (rule reachable.step[OF reachable_booted kstep.sync_call[OF _ booted_eval(1)]]) simp
  moreover have "queue_call_ok 0 (Mb_Init 4 [0, 0] 2 RT_IPC_FLAG_FIFO) (run_sync_call (Mutex_Init 5 RT_IPC_FLAG_PRIO) booted)"
    by simp
  moreover have "\<not> halted (run_sync_call (Mutex_Init 5 RT_IPC_FLAG_PRIO) booted)" by code_simp
  ultimately show ?thesis unfolding booted_objects_def by (rule reachable.step[OF _ kstep.queue_call])
qed

lemma booted_objects_eval:
  "OMutex 5 \<in> set (objects booted_objects)" "owner (mutexes booted_objects 5) = None"
  "OMailbox 4 \<in> set (objects booted_objects)" "stat_of (threads booted 1) = RT_THREAD_READY"
  "unat (current_priority (threads booted 1)) = 5"
  by code_simp+

theorem reachable_thread_states_witness:
  "1 \<in> set (lists booted (Ready 5)) \<and> 1 \<notin> set (lists booted (SemQ 3)) \<and> ThreadTimer 1 \<notin> set (timer_list booted) \<and>
    stat_of (threads booted 9) \<in> {RT_THREAD_INIT, RT_THREAD_READY, RT_THREAD_SUSPEND, RT_THREAD_CLOSE}"
proof -
  note p = reachable_thread_states[OF reachable_booted]
  have "is_wait (SemQ 3)" by simp
  moreover have "stat_of (threads booted 1) \<noteq> RT_THREAD_SUSPEND" using booted_objects_eval(4) by simp
  ultimately show ?thesis using p booted_objects_eval(4,5) by blast
qed

theorem reachable_objects_consistent_witness:
  "hold (mutexes booted_objects 5) = 0 \<and> mutex_value (mutexes booted_objects 5) = 1 \<and>
    lists booted_objects (MutexQ 5) = [] \<and> mb_inv (mailboxes booted_objects 4)"
proof -
  note p = reachable_objects_consistent[OF reachable_booted_objects]
  from p have "case owner (mutexes booted_objects 5) of
      None \<Rightarrow> hold (mutexes booted_objects 5) = 0 \<and> mutex_value (mutexes booted_objects 5) = 1 \<and>
        lists booted_objects (MutexQ 5) = []
    | Some t \<Rightarrow> hold (mutexes booted_objects 5) \<noteq> 0 \<and> mutex_value (mutexes booted_objects 5) = 0 \<and>
        t \<notin> set (lists booted_objects (MutexQ 5))"
    using booted_objects_eval(1) by blast
  moreover from p have "mb_inv (mailboxes booted_objects 4)" using booted_objects_eval(3) by blast
  ultimately show ?thesis using booted_objects_eval(2) by simp
qed

theorem reachable_tick_returns_witness:
  "\<exists>k'. rt_tick_increase (Suc (length (timer_list booted))) (\<lambda>_ k. k) booted = Done k' \<and> reachable k' \<and>
    tick k' = tick booted + 1"
  by (rule reachable_tick_returns[OF reachable_booted _ booted_eval(1)]) (simp add: booted_eval(2))

text \<open>Thread 1 waits for semaphore 7 for at most 3 ticks, thread 2 runs.\<close>

definition sleeping :: kernel where
  "sleeping = snd (rt_sem_take 7 3 two_threads)"

lemma sleeping_eval:
  "current_thread sleeping = Some 2" "timer_list sleeping = [ThreadTimer 1]" "tick sleeping = 0"
  "timeout_tick (timers sleeping (ThreadTimer 1)) = 3"
  by code_simp+

lemma sys_inv_sleeping: "sys_inv sleeping"
proof -
  have "sane kernel_bss"
    by (simp add: sane_def one_shot_def kernel_bss_def zero_thread_def thread_ok_def stat_of_def rt_stats RT_THREAD_PRIORITY_MAX_def)
  then have "sane two_threads"
    unfolding two_threads_def sane_schedule
    by (intro sane_insert sane_upd_thread) (simp_all add: thread_ok_def stat_of_def)
  then have "sys_inv two_threads" using kinv_two_threads ipc_two_threads by (simp add: sys_inv_def)
  from sync_call_inv[OF this, of 1 "Sem_Take 7 3"] show ?thesis
    using two_threads_running(1) by (simp add: sleeping_def)
qed

theorem sleeper_wakes_in_time_witness:
  "(\<exists>k'. ticks (Suc 2) (\<lambda>_ k. k) sleeping = Done k' \<and> stat_of (threads k' 1) = RT_THREAD_READY \<and>
      error (threads k' 1) = - RT_ETIMEOUT \<and> sys_inv k') \<and>
    (\<exists>k'. ticks 2 (\<lambda>_ k. k) sleeping = Done k' \<and> stat_of (threads k' 1) = RT_THREAD_SUSPEND \<and> sys_inv k')"
proof -
  have "current_thread sleeping \<noteq> None" "ThreadTimer 1 \<in> set (timer_list sleeping)" by (simp_all add: sleeping_eval)
  moreover have "timers_ordered (tick sleeping) (\<lambda>x. timeout_tick (timers sleeping x)) (timer_list sleeping)"
    using sleeping_eval by (simp add: timers_ordered_def half_range)
  moreover have "timeout_tick (timers sleeping (ThreadTimer 1)) - tick sleeping = of_nat (Suc 2)"
    using sleeping_eval by simp
  ultimately show ?thesis
    using sleeper_wakes_in_time[OF sys_inv_sleeping, of 1 2 "\<lambda>_ k. k"] by simp
qed

end
