(* ===== verification/Printf.thy ===== *)
theory Printf
  imports Prelude
begin

text \<open>
  The formatted output of \<^verbatim>\<open>rt-thread-nano-3.1.5/src/kservice.c\<close>, configured with
  precisions and without \<open>long long\<close> and \<open>#\<close>: \<open>print_number\<close>, \<open>rt_vsnprintf\<close> and
  \<open>rt_kprintf\<close>. A C string is the list of its characters without the terminating null; a
  buffer is the list of the characters from its address on; \<open>str\<close> and \<open>end\<close> are
  32-bit addresses. Overflow of a signed integer or of a pointer, an argument of the wrong kind
  and an access outside the buffer are \<open>Fault\<close>. The second half states what the text of a format is, and
  shows that the code writes as much of it as fits.
\<close>

section \<open>The code\<close>

datatype c_arg = CInt u32 | CStr "string option" | CPtr u32

definition ZEROPAD :: u8 where [code_unfold]: "ZEROPAD = 1"
definition SIGN :: u8 where [code_unfold]: "SIGN = 2"
definition PLUS :: u8 where [code_unfold]: "PLUS = 4"
definition SPACE :: u8 where [code_unfold]: "SPACE = 8"
definition LEFT :: u8 where [code_unfold]: "LEFT = 16"
definition SPECIAL :: u8 where [code_unfold]: "SPECIAL = 32"
definition LARGE :: u8 where [code_unfold]: "LARGE = 64"

lemmas printf_flags = ZEROPAD_def SIGN_def PLUS_def SPACE_def LEFT_def SPECIAL_def LARGE_def

abbreviation flag :: "u8 \<Rightarrow> u8 \<Rightarrow> bool" where "flag type f \<equiv> type AND f \<noteq> 0"

definition is_digit :: "char \<Rightarrow> bool" where
  "is_digit c \<longleftrightarrow> (of_char c :: u32) - 48 < 10"

definition divide_base :: "nat \<Rightarrow> u32 \<Rightarrow> nat \<times> u32" where
  "divide_base base n = (if base = 10 then (unat (n mod 10), n div 10) else (unat (n mod 16), n div 16))"

fun skip_atoi :: "int \<Rightarrow> string \<Rightarrow> (int \<times> string) exec" where
  "skip_atoi i [] = Done (i, [])"
| "skip_atoi i (c # s) =
     (if is_digit c then
        if i * 10 + of_char c < 2 ^ 31 then skip_atoi (i * 10 + of_char c - 48) s else Fault
      else Done (i, c # s))"

text \<open>
  \<open>if (str < end) *str = c; ++ str;\<close> with the pointers of the code as addresses: the buffer
  lies at \<open>a\<close>, its end is \<open>e\<close>, and the state is the buffer and \<open>str\<close>. The increment of
  the last address overflows the pointer, which C leaves undefined.
\<close>

type_synonym extent = "u32 \<times> u32"
type_synonym obuf = "string \<times> u32"

definition emit :: "extent \<Rightarrow> char \<Rightarrow> obuf \<Rightarrow> obuf exec" where
  "emit x c = (\<lambda>(buf, str).
     exec_bind (if str < snd x then store_at (unat (str - fst x)) c buf else Done buf) (\<lambda>buf.
       if str = - 1 then Fault else Done (buf, str + 1)))"

text \<open>
  \<open>while (size-- > 0)\<close>, \<open>while (--width > 0)\<close> and \<open>while (len < width--)\<close> with a
  character; the counters are of type \<open>int\<close>.
\<close>

function pad :: "extent \<Rightarrow> char \<Rightarrow> int \<Rightarrow> obuf \<Rightarrow> (int \<times> obuf) exec" where
  "pad x c sz st =
     (if sz > 0 then exec_bind (emit x c st) (pad x c (sz - 1))
      else exec_bind (c_int (sz - 1)) (\<lambda>sz. Done (sz, st)))"
  by pat_completeness auto
termination by (relation "measure (\<lambda>(x, c, sz, st). nat sz)") auto

function pad_pre :: "extent \<Rightarrow> int \<Rightarrow> obuf \<Rightarrow> (int \<times> obuf) exec" where
  "pad_pre x width st =
     (if width - 1 > 0 then exec_bind (emit x CHR '' '' st) (pad_pre x (width - 1))
      else exec_bind (c_int (width - 1)) (\<lambda>width. Done (width, st)))"
  by pat_completeness auto
termination by (relation "measure (\<lambda>(x, width, st). nat width)") auto

function pad_from :: "extent \<Rightarrow> char \<Rightarrow> int \<Rightarrow> int \<Rightarrow> obuf \<Rightarrow> (int \<times> obuf) exec" where
  "pad_from x c len width st =
     (if len < width then exec_bind (emit x c st) (pad_from x c len (width - 1))
      else exec_bind (c_int (width - 1)) (\<lambda>width. Done (width, st)))"
  by pat_completeness auto
termination by (relation "measure (\<lambda>(x, c, len, width, st). nat (width - len))") auto

declare pad.simps [simp del] pad_pre.simps [simp del] pad_from.simps [simp del]

lemma divide_base_less: "divide_base base num = (d, num') \<Longrightarrow> num \<noteq> 0 \<Longrightarrow> unat num' < unat num"
  by (auto simp: divide_base_def unat_div unat_gt_0 split: if_splits)

text \<open>The conversion of \<open>print_number\<close> into \<open>char tmp[16]\<close>, least digit first.\<close>

function number_digits :: "string \<Rightarrow> nat \<Rightarrow> u32 \<Rightarrow> string \<Rightarrow> string exec" where
  "number_digits digits base num tmp =
     (if num = 0 then Done tmp
      else if length tmp \<ge> 16 then Fault
      else (let (d, num) = divide_base base num
            in exec_bind (load_at d digits) (\<lambda>c. number_digits digits base num (tmp @ [c]))))"
  by pat_completeness auto

termination
  by (relation "measure (\<lambda>(digits, base, num, tmp). unat num)") (auto dest: divide_base_less [OF sym])

declare number_digits.simps [simp del]

fun put_digits :: "extent \<Rightarrow> string \<Rightarrow> nat \<Rightarrow> obuf \<Rightarrow> obuf exec" where
  "put_digits x tmp 0 st = Done st"
| "put_digits x tmp (Suc i) st = exec_bind (load_at i tmp) (\<lambda>c. exec_bind (emit x c st) (put_digits x tmp i))"

text \<open>
  \<open>print_number\<close>, in two parts: the number and its sign, and the output of the digits \<open>tmp\<close>,
  whose \<open>size\<close> is decremented below 0 by the padding loops and by the sign.
\<close>

definition put_number :: "extent \<Rightarrow> string \<Rightarrow> char option \<Rightarrow> char \<Rightarrow> int \<Rightarrow> int \<Rightarrow> u8 \<Rightarrow> obuf \<Rightarrow> obuf exec" where
  "put_number x tmp sign c s precision type = (\<lambda>st.
     (let precision_bak = precision;
          i = length tmp;
          precision = (if int i > precision then int i else precision)
      in exec_bind (c_int (s - precision)) (\<lambda>sz.
         exec_bind (if \<not> flag type (ZEROPAD OR LEFT)
                    then pad x CHR '' '' (if sign \<noteq> None \<and> sz > 0 then sz - 1 else sz) st
                    else Done (sz, st)) (\<lambda>(sz, st).
         exec_bind (case sign of
                      Some ch \<Rightarrow> exec_bind (emit x ch st) (\<lambda>st. exec_bind (c_int (sz - 1)) (\<lambda>sz. Done (sz, st)))
                    | None \<Rightarrow> Done (sz, st)) (\<lambda>(sz, st).
         exec_bind (if \<not> flag type LEFT then pad x c sz st else Done (sz, st)) (\<lambda>(sz, st).
         exec_bind (pad_from x CHR ''0'' (int i) precision st) (\<lambda>(_, st).
         exec_bind (if precision_bak \<noteq> 0 then put_digits x tmp i st else Done st) (\<lambda>st.
         exec_bind (pad x CHR '' '' sz st) (\<lambda>(_, st). Done st)))))))))"

definition print_number :: "extent \<Rightarrow> u32 \<Rightarrow> nat \<Rightarrow> int \<Rightarrow> int \<Rightarrow> u8 \<Rightarrow> obuf \<Rightarrow> obuf exec" where
  "print_number x num base s precision type = (\<lambda>st.
     (let digits = (if flag type LARGE then ''0123456789ABCDEF'' else ''0123456789abcdef'');
          type = (if flag type LEFT then type AND NOT ZEROPAD else type);
          c = (if flag type ZEROPAD then CHR ''0'' else CHR '' '');
          sign = (if flag type SIGN then
                    (if sint num < 0 then Some CHR ''-''
                     else if flag type PLUS then Some CHR ''+''
                     else if flag type SPACE then Some CHR '' '' else None)
                  else None)
      in if flag type SIGN \<and> num = 2 ^ 31 then Fault
         else
           (let num = (if flag type SIGN \<and> sint num < 0 then - num else num)
            in exec_bind (if num = 0 then Done [CHR ''0''] else number_digits digits base num []) (\<lambda>tmp.
                 put_number x tmp sign c s precision type st))))"

text \<open>The directive after a percent sign: flags, width, precision and qualifier.\<close>

fun parse_flags :: "u8 \<Rightarrow> string \<Rightarrow> u8 \<times> string" where
  "parse_flags flags [] = (flags, [])"
| "parse_flags flags (c # fmt) =
     (if c = CHR ''-'' then parse_flags (flags OR LEFT) fmt
      else if c = CHR ''+'' then parse_flags (flags OR PLUS) fmt
      else if c = CHR '' '' then parse_flags (flags OR SPACE) fmt
      else if c = CHR ''#'' then parse_flags (flags OR SPECIAL) fmt
      else if c = CHR ''0'' then parse_flags (flags OR ZEROPAD) fmt
      else (flags, c # fmt))"

fun va_int :: "c_arg list \<Rightarrow> (u32 \<times> c_arg list) exec" where
  "va_int (CInt v # args) = Done (v, args)"
| "va_int args = Fault"

definition parse_width :: "u8 \<Rightarrow> string \<Rightarrow> c_arg list \<Rightarrow> (int \<times> u8 \<times> string \<times> c_arg list) exec" where
  "parse_width flags fmt args =
     (case fmt of
        [] \<Rightarrow> Done (- 1, flags, fmt, args)
      | c # fmt' \<Rightarrow>
          if is_digit c then exec_bind (skip_atoi 0 fmt) (\<lambda>(w, fmt). Done (w, flags, fmt, args))
          else if c = CHR ''*'' then
            exec_bind (va_int args) (\<lambda>(w, args).
              if sint w < 0 then
                (if w = 2 ^ 31 then Fault else Done (- sint w, flags OR LEFT, fmt', args))
              else Done (sint w, flags, fmt', args))
          else Done (- 1, flags, fmt, args))"

definition parse_precision :: "string \<Rightarrow> c_arg list \<Rightarrow> (int \<times> string \<times> c_arg list) exec" where
  "parse_precision fmt args =
     (case fmt of
        [] \<Rightarrow> Done (- 1, fmt, args)
      | d # fmt0 \<Rightarrow>
        if d \<noteq> CHR ''.'' then Done (- 1, fmt, args)
        else exec_bind
            (case fmt0 of
               [] \<Rightarrow> Done (- 1, fmt0, args)
             | c # fmt' \<Rightarrow>
                 if is_digit c then exec_bind (skip_atoi 0 fmt0) (\<lambda>(p, fmt). Done (p, fmt, args))
                 else if c = CHR ''*'' then exec_bind (va_int args) (\<lambda>(p, args). Done (sint p, fmt', args))
                 else Done (- 1, fmt0, args))
            (\<lambda>(p, fmt, args). Done (if p < 0 then 0 else p, fmt, args)))"

definition parse_qualifier :: "string \<Rightarrow> char option \<times> string" where
  "parse_qualifier fmt =
     (case fmt of
        [] \<Rightarrow> (None, fmt)
      | c # fmt' \<Rightarrow> if c = CHR ''h'' \<or> c = CHR ''l'' then (Some c, fmt') else (None, fmt))"

definition parse_directive ::
    "string \<Rightarrow> c_arg list \<Rightarrow> ((u8 \<times> int \<times> int \<times> char option) \<times> string \<times> c_arg list) exec" where
  "parse_directive fmt args =
     (let (flags, fmt) = parse_flags 0 fmt in
      exec_bind (parse_width flags fmt args) (\<lambda>(width, flags, fmt, args).
      exec_bind (parse_precision fmt args) (\<lambda>(precision, fmt, args).
        let (qualifier, fmt) = parse_qualifier fmt
        in Done ((flags, width, precision, qualifier), fmt, args))))"

text \<open>\<open>for (len = 0; len != field_width && s[len] != 0; len++)\<close>, with \<open>len\<close> of type \<open>int\<close>.\<close>

fun string_length :: "int \<Rightarrow> int \<Rightarrow> string \<Rightarrow> int exec" where
  "string_length width len [] = Done len"
| "string_length width len (c # s) =
     (if len \<noteq> width then exec_bind (c_int (len + 1)) (\<lambda>len'. string_length width len' s) else Done len)"

fun put_chars :: "extent \<Rightarrow> nat \<Rightarrow> string \<Rightarrow> obuf \<Rightarrow> obuf exec" where
  "put_chars x 0 s st = Done st"
| "put_chars x (Suc len) [] st = Fault"
| "put_chars x (Suc len) (c # s) st = exec_bind (emit x c st) (put_chars x len s)"

fun va_string :: "c_arg list \<Rightarrow> (string \<times> c_arg list) exec" where
  "va_string (CStr s # args) = Done (case s of None \<Rightarrow> ''(NULL)'' | Some s \<Rightarrow> s, args)"
| "va_string args = Fault"

fun va_pointer :: "c_arg list \<Rightarrow> (u32 \<times> c_arg list) exec" where
  "va_pointer (CPtr p # args) = Done (p, args)"
| "va_pointer args = Fault"

text \<open>The integer argument, by qualifier and sign.\<close>

definition va_number :: "char option \<Rightarrow> u8 \<Rightarrow> c_arg list \<Rightarrow> (u32 \<times> c_arg list) exec" where
  "va_number qualifier flags args =
     exec_bind (va_int args) (\<lambda>(v, args).
       Done (if qualifier = Some CHR ''h'' then
               (if flag flags SIGN then scast (ucast v :: u16) else ucast (ucast v :: u16))
             else v, args))"

text \<open>The \<open>switch\<close> on the conversion character.\<close>

definition convert ::
    "extent \<Rightarrow> u8 \<times> int \<times> int \<times> char option \<Rightarrow> char \<Rightarrow> c_arg list \<Rightarrow> obuf \<Rightarrow> (c_arg list \<times> obuf) exec" where
  "convert e spec x args = (\<lambda>st.
     (let (flags, width, precision, qualifier) = spec in
      if x = CHR ''c'' then
        exec_bind (if \<not> flag flags LEFT then pad_pre e width st else Done (width, st)) (\<lambda>(width, st).
        exec_bind (va_int args) (\<lambda>(v, args).
        exec_bind (emit e (char_of (unat v)) st) (\<lambda>st.
        exec_bind (pad_pre e width st) (\<lambda>(_, st). Done (args, st)))))
      else if x = CHR ''s'' then
        exec_bind (va_string args) (\<lambda>(s, args).
        exec_bind (string_length width 0 s) (\<lambda>len.
          let len = (if precision > 0 \<and> len > precision then precision else len)
          in exec_bind (if \<not> flag flags LEFT then pad_from e CHR '' '' len width st else Done (width, st)) (\<lambda>(width, st).
             exec_bind (put_chars e (nat len) s st) (\<lambda>st.
             exec_bind (pad_from e CHR '' '' len width st) (\<lambda>(_, st). Done (args, st))))))
      else if x = CHR ''p'' then
        exec_bind (va_pointer args) (\<lambda>(v, args).
          let (width, flags) = (if width = - 1 then (8, flags OR ZEROPAD) else (width, flags))
          in exec_bind (print_number e v 16 width precision flags st) (\<lambda>st. Done (args, st)))
      else if x = CHR ''%'' then exec_bind (emit e x st) (\<lambda>st. Done (args, st))
      else if x \<in> set ''oXxdiu'' then
        (let base = (if x = CHR ''o'' then 8 else if x = CHR ''x'' \<or> x = CHR ''X'' then 16 else 10);
             flags = (if x = CHR ''X'' then flags OR LARGE
                      else if x = CHR ''d'' \<or> x = CHR ''i'' then flags OR SIGN else flags)
         in exec_bind (va_number qualifier flags args) (\<lambda>(num, args).
            exec_bind (print_number e num base width precision flags st) (\<lambda>st. Done (args, st))))
      else exec_bind (emit e CHR ''%'' st) (\<lambda>st. exec_bind (emit e x st) (\<lambda>st. Done (args, st)))))"

lemma parse_flags_length: "length (snd (parse_flags f s)) \<le> length s"
  by (induction f s rule: parse_flags.induct) auto

lemma skip_atoi_length: "skip_atoi i s = Done (w, s') \<Longrightarrow> length s' \<le> length s"
  by (induction i s rule: skip_atoi.induct) (auto split: if_splits)

lemma parse_width_length: "parse_width f s as = Done (w, f', s', as') \<Longrightarrow> length s' \<le> length s"
  by (auto simp: parse_width_def exec_bind_Done_iff dest: skip_atoi_length split: list.splits if_splits)

lemma parse_precision_length: "parse_precision s as = Done (p, s', as') \<Longrightarrow> length s' \<le> length s"
  by (auto simp: parse_precision_def exec_bind_Done_iff dest!: skip_atoi_length split: list.splits if_splits)

lemma parse_directive_length:
  assumes "parse_directive s as = Done (spec, s', as')"
  shows "length s' \<le> length s"
proof -
  obtain f s1 where 1: "parse_flags 0 s = (f, s1)" by fastforce
  from assms obtain w f2 s2 as2 where "parse_width f s1 as = Done (w, f2, s2, as2)"
    and "\<exists>p s3 as3. parse_precision s2 as2 = Done (p, s3, as3) \<and> snd (parse_qualifier s3) = s'"
    by (auto simp: parse_directive_def 1 exec_bind_Done_iff Let_def case_prod_beta)
  moreover from this(2) obtain p s3 as3 where
    "parse_precision s2 as2 = Done (p, s3, as3)" "snd (parse_qualifier s3) = s'" by auto
  moreover from this(2) have "length s' \<le> length s3"
    by (auto simp: parse_qualifier_def split: list.splits if_splits)
  ultimately show ?thesis
    using parse_flags_length[of 0 s] 1 by (auto dest!: parse_width_length parse_precision_length)
qed

text \<open>The loop over the format.\<close>

function vsn_loop :: "extent \<Rightarrow> string \<Rightarrow> c_arg list \<Rightarrow> obuf \<Rightarrow> obuf exec" where
  "vsn_loop e [] args st = Done st"
| "vsn_loop e (c # fmt) args st =
     (if c \<noteq> CHR ''%'' then exec_bind (emit e c st) (vsn_loop e fmt args)
      else
        (case parse_directive fmt args of
           Done (spec, fmt', args) \<Rightarrow>
             (case fmt' of
                [] \<Rightarrow> emit e CHR ''%'' st
              | x # fmt'' \<Rightarrow> exec_bind (convert e spec x args st) (\<lambda>(args, st). vsn_loop e fmt'' args st))
         | Out_Of_Fuel \<Rightarrow> Out_Of_Fuel
         | Fault \<Rightarrow> Fault))"
  by pat_completeness auto
termination
  by (relation "measure (\<lambda>(e, fmt, args, st). length fmt)") (auto dest: parse_directive_length)

text \<open>The limit of the buffer at address \<open>a\<close>: \<open>end\<close> and the corrected \<open>size\<close>.\<close>

definition out_limit :: "u32 \<Rightarrow> u32 \<Rightarrow> u32 \<times> u32" where
  "out_limit a sz = (if a + sz < a then (- 1, - 1 - a) else (a + sz, sz))"

definition rt_vsnprintf :: "u32 \<Rightarrow> string \<Rightarrow> u32 \<Rightarrow> string \<Rightarrow> c_arg list \<Rightarrow> (u32 \<times> string) exec" where
  "rt_vsnprintf a buf sz fmt args =
     (let (e, sz) = out_limit a sz in
      exec_bind (vsn_loop (a, e) fmt args (buf, a)) (\<lambda>(buf, str).
        if sz > 0 then
          exec_bind (store_at (unat ((if str < e then str else e - 1) - a)) CHR 0x00 buf) (\<lambda>buf. Done (str - a, buf))
        else Done (str - a, buf)))"

definition rt_snprintf :: "u32 \<Rightarrow> string \<Rightarrow> u32 \<Rightarrow> string \<Rightarrow> c_arg list \<Rightarrow> (u32 \<times> string) exec" where
  "rt_snprintf a buf sz fmt args = rt_vsnprintf a buf sz fmt args"

definition rt_vsprintf :: "u32 \<Rightarrow> string \<Rightarrow> string \<Rightarrow> c_arg list \<Rightarrow> (u32 \<times> string) exec" where
  "rt_vsprintf a buf fmt args = rt_vsnprintf a buf (- 1) fmt args"

definition rt_sprintf :: "u32 \<Rightarrow> string \<Rightarrow> string \<Rightarrow> c_arg list \<Rightarrow> (u32 \<times> string) exec" where
  "rt_sprintf a buf fmt args = rt_vsprintf a buf fmt args"

text \<open>
  \<open>rt_kprintf\<close>: what goes to the console device, and the static buffer. Without a device the
  buffer is printed up to its null.
\<close>

definition RT_CONSOLEBUF_SIZE :: u32 where [code_unfold]: "RT_CONSOLEBUF_SIZE = 256"

definition rt_kprintf :: "u32 \<Rightarrow> bool \<Rightarrow> string \<Rightarrow> string \<Rightarrow> c_arg list \<Rightarrow> (string \<times> string) exec" where
  "rt_kprintf a device rt_log_buf fmt args =
     exec_bind (rt_vsnprintf a rt_log_buf (RT_CONSOLEBUF_SIZE - 1) fmt args) (\<lambda>(len, rt_log_buf).
       let len = (if len > RT_CONSOLEBUF_SIZE - 1 then RT_CONSOLEBUF_SIZE - 1 else len)
       in if device then
            (if unat len \<le> length rt_log_buf then Done (take (unat len) rt_log_buf, rt_log_buf) else Fault)
          else Done (takeWhile (\<lambda>c. c \<noteq> CHR 0x00) rt_log_buf, rt_log_buf))"

section \<open>The text of a format\<close>

definition digit_char :: "bool \<Rightarrow> nat \<Rightarrow> char" where
  "digit_char large d = (if large then ''0123456789ABCDEF'' else ''0123456789abcdef'') ! d"

fun numeral_text :: "bool \<Rightarrow> nat \<Rightarrow> nat \<Rightarrow> string" where
  "numeral_text large radix n =
     (if radix < 2 \<or> n < radix then [digit_char large n]
      else numeral_text large radix (n div radix) @ [digit_char large (n mod radix)])"

declare numeral_text.simps [simp del]

definition sign_text :: "u8 \<Rightarrow> bool \<Rightarrow> string" where
  "sign_text flags negative =
     (if \<not> flag flags SIGN then []
      else if negative then ''-'' else if flag flags PLUS then ''+'' else if flag flags SPACE then '' '' else [])"

text \<open>
  A number: its sign, zeros up to the precision, its digits (none when the precision is 0), and
  blanks to the width on the right, on the left, or as zeros after the sign.
\<close>

definition number_text :: "u32 \<Rightarrow> nat \<Rightarrow> int \<Rightarrow> int \<Rightarrow> u8 \<Rightarrow> string" where
  "number_text num base width precision flags =
     (let signed = flag flags SIGN;
          ds = numeral_text (flag flags LARGE) (if base = 10 then 10 else 16)
                 (if signed then nat \<bar>sint num\<bar> else unat num);
          sg = sign_text flags (sint num < 0);
          body = replicate (nat (precision - int (length ds))) CHR ''0'' @ (if precision = 0 then [] else ds);
          blanks = nat (width - max (int (length ds)) precision - int (length sg))
      in if flag flags LEFT then sg @ body @ replicate blanks CHR '' ''
         else if flag flags ZEROPAD then sg @ replicate blanks CHR ''0'' @ body
         else replicate blanks CHR '' '' @ sg @ body)"

text \<open>
  No text is defined for the negation of the least number, nor where the width less the digits
  and the decrements of the remaining size leave the range of \<open>int\<close>, which takes a precision
  within a few units of its limit.
\<close>

definition number_steps :: "u8 \<Rightarrow> bool \<Rightarrow> int" where
  "number_steps flags negative =
     (if flag flags LEFT then 1 else if flag flags ZEROPAD then 2 else 3) + int (length (sign_text flags negative))"

definition number_defined :: "u32 \<Rightarrow> nat \<Rightarrow> int \<Rightarrow> int \<Rightarrow> u8 \<Rightarrow> bool" where
  "number_defined num base width precision flags \<longleftrightarrow>
     \<not> (flag flags SIGN \<and> num = 2 ^ 31) \<and>
     - (2 ^ 31) \<le> width - max (int (length (numeral_text (flag flags LARGE) (if base = 10 then 10 else 16)
         (if flag flags SIGN then nat \<bar>sint num\<bar> else unat num)))) precision - number_steps flags (sint num < 0)"

definition number_conversion :: "u32 \<Rightarrow> nat \<Rightarrow> int \<Rightarrow> int \<Rightarrow> u8 \<Rightarrow> string exec" where
  "number_conversion num base width precision flags =
     (if number_defined num base width precision flags then Done (number_text num base width precision flags) else Fault)"

text \<open>A character or a string in its width.\<close>

definition fill_text :: "u8 \<Rightarrow> int \<Rightarrow> string \<Rightarrow> string" where
  "fill_text flags width t =
     (let blanks = replicate (nat (width - int (length t))) CHR '' ''
      in if flag flags LEFT then t @ blanks else blanks @ t)"

definition convert_text ::
    "u8 \<times> int \<times> int \<times> char option \<Rightarrow> char \<Rightarrow> c_arg list \<Rightarrow> (c_arg list \<times> string) exec" where
  "convert_text spec x args =
     (let (flags, width, precision, qualifier) = spec in
      if x = CHR ''c'' then exec_bind (va_int args) (\<lambda>(v, args). Done (args, fill_text flags width [char_of (unat v)]))
      else if x = CHR ''s'' then
        exec_bind (va_string args) (\<lambda>(s, args).
          if width < 0 \<and> 2 ^ 31 \<le> length s then Fault
          else
            let s = (if width < 0 then s else take (nat width) s);
                s = (if precision > 0 then take (nat precision) s else s)
            in Done (args, fill_text flags width s))
      else if x = CHR ''p'' then
        exec_bind (va_pointer args) (\<lambda>(v, args).
          exec_bind (if width = - 1 then number_conversion v 16 8 precision (flags OR ZEROPAD)
                     else number_conversion v 16 width precision flags) (\<lambda>t. Done (args, t)))
      else if x = CHR ''%'' then Done (args, [x])
      else if x \<in> set ''oXxdiu'' then
        (let base = (if x = CHR ''o'' then 8 else if x = CHR ''x'' \<or> x = CHR ''X'' then 16 else 10);
             flags = (if x = CHR ''X'' then flags OR LARGE
                      else if x = CHR ''d'' \<or> x = CHR ''i'' then flags OR SIGN else flags)
         in exec_bind (va_number qualifier flags args) (\<lambda>(num, args).
              exec_bind (number_conversion num base width precision flags) (\<lambda>t. Done (args, t))))
      else Done (args, [CHR ''%'', x]))"

function format_text :: "string \<Rightarrow> c_arg list \<Rightarrow> string exec" where
  "format_text [] args = Done []"
| "format_text (c # fmt) args =
     (if c \<noteq> CHR ''%'' then exec_bind (format_text fmt args) (\<lambda>t. Done (c # t))
      else
        (case parse_directive fmt args of
           Done (spec, fmt', args) \<Rightarrow>
             (case fmt' of
                [] \<Rightarrow> Done ''%''
              | x # fmt'' \<Rightarrow>
                  exec_bind (convert_text spec x args) (\<lambda>(args, t).
                    exec_bind (format_text fmt'' args) (\<lambda>t'. Done (t @ t'))))
         | Out_Of_Fuel \<Rightarrow> Out_Of_Fuel
         | Fault \<Rightarrow> Fault))"
  by pat_completeness auto
termination
  by (relation "measure (\<lambda>(fmt, args). length fmt)") (auto dest: parse_directive_length)

section \<open>The buffer\<close>

text \<open>
  What the buffer holds once \<open>cs\<close> has been put out with room for \<open>n\<close> characters, and the
  outcome of putting out \<open>cs\<close>: the pointer must stay below the end of the address space.
  Each piece of code puts more characters behind those that are out; the rules below say so for
  the code followed by a continuation \<open>k\<close>, which is the form the code has.
\<close>

definition written :: "nat \<Rightarrow> string \<Rightarrow> string \<Rightarrow> string" where
  "written n buf cs = take n cs @ drop (min n (length cs)) buf"

definition put_out :: "extent \<Rightarrow> string \<Rightarrow> string \<Rightarrow> obuf exec" where
  "put_out x buf cs =
     (if unat (fst x) + length cs < 2 ^ 32
      then Done (written (unat (snd x - fst x)) buf cs, fst x + of_nat (length cs)) else Fault)"

definition extent_ok :: "extent \<Rightarrow> string \<Rightarrow> bool" where
  "extent_ok x buf \<longleftrightarrow> fst x \<le> snd x \<and> unat (snd x - fst x) \<le> length buf"

lemma written_step:
  assumes "length cs < n" and "n \<le> length buf"
  shows "store_at (length cs) c (written n buf cs) = Done (written n buf (cs @ [c]))"
proof -
  have "drop (length cs) buf = buf ! length cs # drop (Suc (length cs)) buf"
    using assms by (simp add: Cons_nth_drop_Suc)
  then show ?thesis
    using assms by (auto simp: store_at_def written_def min_def list_update_append dest: le_antisym)
qed

lemma written_full: "n \<le> length cs \<Longrightarrow> written n buf (cs @ [c]) = written n buf cs"
  by (simp add: written_def min_def)

lemma put_out_emit:
  assumes "extent_ok x buf"
  shows "exec_bind (put_out x buf cs) (emit x c) = put_out x buf (cs @ [c])"
proof (cases "unat (fst x) + length cs < 2 ^ 32")
  case True
  let ?str = "fst x + of_nat (length cs)" and ?n = "unat (snd x - fst x)"
  have len: "unat (of_nat (length cs) :: u32) = length cs"
    using True by (intro unat_of_nat_small) simp
  then have str: "unat ?str = unat (fst x) + length cs" using True by (simp add: unat_word_ariths)
  have lim: "unat (snd x) = unat (fst x) + ?n"
    using assms by (simp add: extent_ok_def unat_sub word_le_nat_alt)
  have below: "?str < snd x \<longleftrightarrow> length cs < ?n" by (simp only: word_less_nat_alt str lim nat_add_left_cancel_less)
  have last: "?str = - 1 \<longleftrightarrow> \<not> unat (fst x) + length (cs @ [c]) < 2 ^ 32"
    using True by (auto simp: word_unat_eq_iff[of ?str] str unsigned_minus_1_eq_mask mask_eq_exp_minus_1)
  have "(if ?str < snd x then store_at (unat (?str - fst x)) c (written ?n buf cs) else Done (written ?n buf cs)) =
      Done (written ?n buf (cs @ [c]))"
    using assms by (auto simp: below len extent_ok_def written_step written_full)
  then show ?thesis
    using True last by (simp add: put_out_def emit_def add.assoc)
qed (simp add: put_out_def)

lemma put_out_bind_emit [simp]:
  "extent_ok x buf \<Longrightarrow>
     exec_bind (put_out x buf cs) (\<lambda>st. exec_bind (emit x c st) k) = exec_bind (put_out x buf (cs @ [c])) k"
  by (simp flip: exec_bind_assoc put_out_emit)

lemma put_out_const: "e \<noteq> Out_Of_Fuel \<Longrightarrow> exec_bind (put_out x buf cs) (\<lambda>st. exec_bind e (k st)) =
    exec_bind e (\<lambda>v. exec_bind (put_out x buf cs) (\<lambda>st. k st v))"
  by (cases e) (auto simp: put_out_def)

lemma c_int_fuel [simp]: "c_int v \<noteq> Out_Of_Fuel"
  by (simp add: c_int_def)

lemma put_out_fault [simp]: "exec_bind (put_out x buf cs) (\<lambda>st. Fault) = Fault"
  by (simp add: put_out_def)

lemma put_out_c_int: "exec_bind (put_out x buf cs) (\<lambda>st. exec_bind (c_int v) (k st)) =
    exec_bind (c_int v) (\<lambda>v. exec_bind (put_out x buf cs) (\<lambda>st. k st v))"
  by (rule put_out_const) simp

lemma replicate_nat_step: "0 \<le> j \<Longrightarrow> c # replicate (nat j) c = replicate (nat (j + 1)) c"
  by (simp add: nat_add_distrib)

lemma replicate_nat_step': "0 < j \<Longrightarrow> c # replicate (nat (j - 1)) c = replicate (nat j) c"
  using replicate_nat_step[of "j - 1" c] by simp

lemma put_out_pad:
  "extent_ok x buf \<Longrightarrow>
     exec_bind (put_out x buf cs) (\<lambda>st. exec_bind (pad x c sz st) k) =
       exec_bind (c_int (min sz 0 - 1)) (\<lambda>sz'. exec_bind (put_out x buf (cs @ replicate (nat sz) c)) (\<lambda>st. k (sz', st)))"
proof (induction "nat sz" arbitrary: sz cs)
  case 0
  then show ?case
    by (subst pad.simps) (simp add: exec_bind_assoc put_out_const min_def)
next
  case (Suc m)
  then have pos: "0 < sz" "m = nat (sz - 1)" "min (sz - 1) 0 = 0" "min sz 0 = 0" by auto
  with Suc.hyps(1)[OF pos(2) Suc.prems, of "cs @ [c]"] show ?case
    using Suc.prems by (subst pad.simps) (simp add: exec_bind_assoc replicate_nat_step')
qed

lemma put_out_pad_pre:
  "extent_ok x buf \<Longrightarrow>
     exec_bind (put_out x buf cs) (\<lambda>st. exec_bind (pad_pre x w st) k) =
       exec_bind (c_int (min w 1 - 1)) (\<lambda>w'. exec_bind (put_out x buf (cs @ replicate (nat (w - 1)) CHR '' '')) (\<lambda>st. k (w', st)))"
proof (induction "nat (w - 1)" arbitrary: w cs)
  case 0
  then show ?case
    by (subst pad_pre.simps) (simp add: exec_bind_assoc put_out_const min_def)
next
  case (Suc m)
  then have pos: "0 < w - 1" "m = nat ((w - 1) - 1)" "min (w - 1) 1 = 1" "min w 1 = 1" by auto
  with Suc.hyps(1)[OF pos(2) Suc.prems, of "cs @ [CHR '' '']"] replicate_nat_step'[OF pos(1), of "CHR '' ''"] show ?case
    using Suc.prems pos(3,4) by (subst pad_pre.simps) (simp add: exec_bind_assoc)
qed

lemma put_out_pad_from:
  "extent_ok x buf \<Longrightarrow>
     exec_bind (put_out x buf cs) (\<lambda>st. exec_bind (pad_from x c len w st) k) =
       exec_bind (c_int (min len w - 1)) (\<lambda>w'. exec_bind (put_out x buf (cs @ replicate (nat (w - len)) c)) (\<lambda>st. k (w', st)))"
proof (induction "nat (w - len)" arbitrary: w cs)
  case 0
  then show ?case
    by (subst pad_from.simps) (simp add: exec_bind_assoc put_out_const min_def)
next
  case (Suc m)
  then have pos: "0 < w - len" "m = nat ((w - 1) - len)" by auto
  have "w - 1 - len = w - len - 1" by simp
  with Suc.hyps(1)[OF pos(2) Suc.prems, of "cs @ [c]"] replicate_nat_step'[OF pos(1), of c] pos(1) show ?case
    using Suc.prems by (subst pad_from.simps) (simp add: exec_bind_assoc min_def)
qed

lemma put_out_digits:
  "extent_ok x buf \<Longrightarrow> i \<le> length tmp \<Longrightarrow>
     exec_bind (put_out x buf cs) (\<lambda>st. exec_bind (put_digits x tmp i st) k) =
       exec_bind (put_out x buf (cs @ rev (take i tmp))) k"
  by (induction i arbitrary: cs) (simp_all add: exec_bind_assoc take_Suc_conv_app_nth)

lemma put_out_chars:
  "extent_ok x buf \<Longrightarrow> len \<le> length s \<Longrightarrow>
     exec_bind (put_out x buf cs) (\<lambda>st. exec_bind (put_chars x len s st) k) =
       exec_bind (put_out x buf (cs @ take len s)) k"
  by (induction len arbitrary: s cs) (auto simp: Suc_le_length_iff exec_bind_assoc)

lemmas put_out_rules = exec_bind_assoc put_out_c_int put_out_pad put_out_pad_pre put_out_pad_from put_out_digits put_out_chars

lemma string_length_eq:
  "len < 2 ^ 31 \<Longrightarrow> 0 \<le> len \<Longrightarrow> w < 2 ^ 31 \<Longrightarrow>
     string_length w len s =
       (if w < len then (if 2 ^ 31 \<le> len + int (length s) then Fault else Done (len + int (length s)))
        else Done (min w (len + int (length s))))"
proof (induction s arbitrary: len)
  case (Cons c s)
  show ?case
  proof (cases "len = w")
    case False
    show ?thesis
    proof (cases "len + 1 < 2 ^ 31")
      case True
      with False Cons.IH[of "len + 1"] Cons.prems show ?thesis by (auto simp: min_def)
    next
      case last: False
      with False Cons.prems show ?thesis by (simp add: c_int_def)
    qed
  qed simp
qed auto

section \<open>The code writes the text\<close>

lemma flag_bits:
  "flag t ZEROPAD \<longleftrightarrow> bit t 0" "flag t SIGN \<longleftrightarrow> bit t 1" "flag t PLUS \<longleftrightarrow> bit t 2" "flag t SPACE \<longleftrightarrow> bit t 3"
  "flag t LEFT \<longleftrightarrow> bit t 4" "flag t LARGE \<longleftrightarrow> bit t 6" "flag t (ZEROPAD OR LEFT) \<longleftrightarrow> bit t 0 \<or> bit t 4"
proof -
  have "flag t (2 ^ k) \<longleftrightarrow> bit t k" for k
    by (metis and_exp_eq_0_iff_not_bit)
  from this[of 0] this[of 1] this[of 2] this[of 3] this[of 4] this[of 6]
  show flags: "flag t ZEROPAD \<longleftrightarrow> bit t 0" "flag t SIGN \<longleftrightarrow> bit t 1" "flag t PLUS \<longleftrightarrow> bit t 2" "flag t SPACE \<longleftrightarrow> bit t 3"
    "flag t LEFT \<longleftrightarrow> bit t 4" "flag t LARGE \<longleftrightarrow> bit t 6"
    by (simp_all add: printf_flags)
  have "t AND (ZEROPAD OR LEFT) = 0 \<longleftrightarrow> t AND ZEROPAD = 0 \<and> t AND LEFT = 0"
    by (simp add: bit.conj_disj_distrib or_eq_0_iff)
  with flags show "flag t (ZEROPAD OR LEFT) \<longleftrightarrow> bit t 0 \<or> bit t 4" by auto
qed

lemma bit_without_zeropad: "bit (t AND NOT ZEROPAD) k \<longleftrightarrow> bit t k \<and> k \<noteq> 0"
  by (auto simp: ZEROPAD_def bit_simps dest: bit_imp_le_length)

lemma length_numeral_text: "10 \<le> radix \<Longrightarrow> n < 10 ^ Suc k \<Longrightarrow> length (numeral_text l radix n) \<le> Suc k"
proof (induction k arbitrary: n)
  case 0
  then show ?case by (subst numeral_text.simps) simp
next
  case (Suc k)
  have "n div radix \<le> n div 10" using Suc.prems(1) by (rule div_le_mono2[rotated]) simp
  also have "\<dots> < 10 ^ Suc k" using Suc.prems(2) by (simp add: less_mult_imp_div_less)
  finally show ?case using Suc by (subst numeral_text.simps) simp
qed

lemma length_numeral_text_u32: "10 \<le> radix \<Longrightarrow> length (numeral_text l radix (unat (x :: u32))) \<le> 10"
  using length_numeral_text[of radix "unat x" 9 l] unsigned_less[of x, where ?'a = nat] by simp

lemma digit_load: "d < 16 \<Longrightarrow> load_at d (if l then ''0123456789ABCDEF'' else ''0123456789abcdef'') = Done (digit_char l d)"
  by (simp add: digit_char_def)

lemma divide_base_eq:
  "divide_base base num =
     (unat num mod (if base = 10 then 10 else 16), of_nat (unat num div (if base = 10 then 10 else 16)))"
  by (simp add: divide_base_def unat_mod word_arith_nat_div)

lemma number_digits_zero: "number_digits digits base 0 tmp = Done tmp"
  by (subst number_digits.simps) simp

lemma number_digits_step:
  "num \<noteq> 0 \<Longrightarrow> \<not> 16 \<le> length tmp \<Longrightarrow> r = (if base = 10 then 10 else 16) \<Longrightarrow>
     number_digits digits base num tmp =
       exec_bind (load_at (unat num mod r) digits)
         (\<lambda>c. number_digits digits base (of_nat (unat num div r)) (tmp @ [c]))"
  by (subst number_digits.simps) (simp add: divide_base_eq)

lemma number_digits_eq:
  assumes r: "r = (if base = 10 then 10 else 16)"
    and digits: "digits = (if l then ''0123456789ABCDEF'' else ''0123456789abcdef'')"
  shows "num \<noteq> 0 \<Longrightarrow> length tmp + length (numeral_text l r (unat num)) \<le> 16 \<Longrightarrow>
    number_digits digits base num tmp = Done (tmp @ rev (numeral_text l r (unat num)))"
proof (induction "unat num" arbitrary: num tmp rule: less_induct)
  case less
  let ?q = "of_nat (unat num div r) :: u32"
  have r1: "0 < r" "r \<le> 16" "1 < r" using r by auto
  have q: "unat ?q = unat num div r"
    by (rule unat_of_nat_small) (meson div_le_dividend le_less_trans unsigned_less)
  have "load_at (unat num mod r) digits = Done (digit_char l (unat num mod r))"
    unfolding digits by (rule digit_load) (rule less_le_trans[OF mod_less_divisor[OF r1(1)] r1(2)])
  moreover have "\<not> 16 \<le> length tmp"
    using less.prems(2) by (subst (asm) numeral_text.simps) (simp split: if_splits)
  ultimately have step: "number_digits digits base num tmp =
      number_digits digits base ?q (tmp @ [digit_char l (unat num mod r)])"
    using less.prems by (subst number_digits_step[OF _ _ r]) simp_all
  show ?case
  proof (cases "unat num < r")
    case True
    then have "?q = 0" by simp
    moreover have "numeral_text l r (unat num) = [digit_char l (unat num)]"
      using True by (subst numeral_text.simps) simp
    ultimately show ?thesis using True by (simp add: step number_digits_zero)
  next
    case False
    then have "0 < unat ?q" using q r1 by (simp add: div_greater_zero_iff)
    then have "?q \<noteq> 0" by (metis less_irrefl unsigned_0)
    moreover have "numeral_text l r (unat num) = numeral_text l r (unat num div r) @ [digit_char l (unat num mod r)]"
      using False r1 by (subst numeral_text.simps) simp
    moreover have "unat ?q < unat num" unfolding q using less.prems(1) r1 by (simp add: unat_gt_0)
    ultimately show ?thesis
      using less.hyps[of ?q "tmp @ [digit_char l (unat num mod r)]"] less.prems(2) by (simp add: step q)
  qed
qed

lemma number_tmp:
  assumes r: "r = (if base = 10 then 10 else 16)"
    and digits: "digits = (if l then ''0123456789ABCDEF'' else ''0123456789abcdef'')"
  shows "(if num = 0 then Done [CHR ''0''] else number_digits digits base num []) =
    Done (rev (numeral_text l r (unat num)))"
proof (cases "num = 0")
  case True
  have "numeral_text l r 0 = ''0''"
    using r by (subst numeral_text.simps) (simp add: digit_char_def)
  with True show ?thesis by simp
next
  case False
  moreover have "10 \<le> r" using r by simp
  ultimately show ?thesis
    using length_numeral_text_u32[of r l num] number_digits_eq[OF r digits False, of "[]"] by simp
qed

text \<open>The sign is dropped from the number by negating the word.\<close>

lemma sint_u32: "sint (w :: u32) = (if uint w < 2 ^ 31 then uint w else uint w - 2 ^ 32)"
proof (cases "uint w < 2 ^ 31")
  case True
  then show ?thesis
    using uint_ge_0[of w]
    by (simp add: sint_uint signed_take_bit_eq_take_bit_shift take_bit_eq_mod mod_pos_pos_trivial)
next
  case False
  have "uint w < 2 ^ 32" using uint_lt2p[of w] by simp
  with False have "(uint w - 2 ^ 31 + 2 ^ 32) mod 2 ^ 32 = uint w - 2 ^ 31"
    unfolding mod_add_self2 by (intro mod_pos_pos_trivial) simp_all
  with False show ?thesis
    by (simp add: sint_uint signed_take_bit_eq_take_bit_shift take_bit_eq_mod add.commute)
qed

lemma uint_minus_u32: "w \<noteq> (0 :: u32) \<Longrightarrow> uint (- w) = 2 ^ 32 - uint w"
proof -
  assume "w \<noteq> 0"
  then have "0 < uint w" using uint_ge_0[of w] by (metis order_le_less uint_0_iff)
  moreover have "uint w < 2 ^ 32" using uint_lt2p[of w] by simp
  ultimately have "(2 ^ 32 - uint w) mod 2 ^ 32 = 2 ^ 32 - uint w"
    by (intro mod_pos_pos_trivial) simp_all
  moreover have "uint (- w) = (- uint w) mod 2 ^ 32" by (simp add: uint_word_ariths(4))
  moreover have "(- uint w) mod 2 ^ 32 = (2 ^ 32 - uint w) mod (2 ^ 32 :: int)"
    using mod_add_self2[of "- uint w" "2 ^ 32 :: int"] by (simp add: algebra_simps)
  ultimately show ?thesis by simp
qed

lemma unat_magnitude:
  assumes "num \<noteq> (2 ^ 31 :: u32)"
  shows "unat (if sg \<and> sint num < 0 then - num else num) = (if sg then nat \<bar>sint num\<bar> else unat num)"
proof (cases "sint num < 0")
  case True
  then have "num \<noteq> 0" by auto
  from True have "\<not> uint num < 2 ^ 31" using uint_ge_0[of num] by (metis sint_u32 not_less)
  then have "\<bar>sint num\<bar> = 2 ^ 32 - uint num" using True by (simp add: sint_u32)
  then show ?thesis using True uint_minus_u32[OF \<open>num \<noteq> 0\<close>] 
    by (cases sg) (simp_all only: unat_eq_nat_uint if_True if_False simp_thms)
next
  case False
  then have "sg \<Longrightarrow> sint num = uint num"
    using uint_lt2p[of num] by (simp add: sint_u32 split: if_splits)
  with False show ?thesis by (simp only: unat_eq_nat_uint if_False simp_thms) auto
qed

text \<open>The layout of sign, zeros, digits and blanks.\<close>

definition number_layout :: "string \<Rightarrow> string \<Rightarrow> int \<Rightarrow> int \<Rightarrow> u8 \<Rightarrow> string" where
  "number_layout sg ds width precision flags =
     (let body = replicate (nat (precision - int (length ds))) CHR ''0'' @ (if precision = 0 then [] else ds);
          blanks = nat (width - max (int (length ds)) precision - int (length sg))
      in if flag flags LEFT then sg @ body @ replicate blanks CHR '' ''
         else if flag flags ZEROPAD then sg @ replicate blanks CHR ''0'' @ body
         else replicate blanks CHR '' '' @ sg @ body)"

lemma put_number_out:
  assumes x: "extent_ok x buf" and c: "c = (if flag type ZEROPAD then CHR ''0'' else CHR '' '')"
    and left: "flag type LEFT \<longrightarrow> \<not> flag type ZEROPAD"
    and rng: "- 1 \<le> w" "w < 2 ^ 31" "precision < 2 ^ 31" "0 < length ds" "length ds \<le> 16"
    and sg: "sg = (case sign of None \<Rightarrow> [] | Some ch \<Rightarrow> [ch])"
  shows "exec_bind (put_out x buf cs) (\<lambda>st. exec_bind (put_number x (rev ds) sign c w precision type st) k) =
    (if - (2 ^ 31) \<le> w - max (int (length ds)) precision -
          ((if flag type LEFT then 1 else if flag type ZEROPAD then 2 else 3) + int (length sg))
     then exec_bind (put_out x buf (cs @ number_layout sg ds w precision type)) k else Fault)"
proof -
  define P where "P = max (int (length ds)) precision"
  have p: "(if int (length ds) > precision then int (length ds) else precision) = P" by (simp add: P_def)
  have d: "nat (P - int (length ds)) = nat (precision - int (length ds))" by (simp add: P_def)
  have "1 \<le> int (length ds)" using rng(4) by linarith
  then have P: "1 \<le> P" "P < 2147483648" "min (int (length ds)) P = int (length ds)"
    using rng(3,5) by (auto simp: P_def le_max_iff_disj)
  then have r: "c_int (w - P) = Done (w - P)" "c_int (int (length ds) - 1) = Done (int (length ds) - 1)"
    using rng(1,2,4,5) by simp_all
  note rules = put_number_def number_layout_def P_def[symmetric] p d r P(3) flag_bits c sg Let_def put_out_rules
  show ?thesis
  proof (cases "0 \<le> w - P")
    case True
    then have "min (w - P) 0 = 0" "w - P - 1 < 2147483648" using rng(2) P(1) by auto
    with True show ?thesis
      using x left by (cases sign; cases "bit type 4"; cases "bit type 0") (simp_all add: rules)
  next
    case False
    then have neg: "min (w - P) 0 = w - P" "\<not> P < w" "nat (w - P) = 0" "min (w - P - 1) 0 = w - P - 1"
      "min (w - P - 2) 0 = w - P - 2" "length ds < 2147483649" using rng(5) by auto
    then show ?thesis
      using x left by (cases sign; cases "bit type 4"; cases "bit type 0") (auto simp: rules c_int_def)
  qed
qed

lemma number_text_layout:
  "number_text num base w precision flags =
     number_layout (sign_text flags (sint num < 0))
       (numeral_text (flag flags LARGE) (if base = 10 then 10 else 16)
         (if flag flags SIGN then nat \<bar>sint num\<bar> else unat num)) w precision flags"
  by (simp only: number_text_def number_layout_def Let_def)

lemma number_layout_without_zeropad:
  "number_layout sg ds w precision (if flag type LEFT then type AND NOT ZEROPAD else type) =
     number_layout sg ds w precision type"
  by (simp add: number_layout_def flag_bits bit_without_zeropad)

lemma length_numeral_text_pos: "0 < length (numeral_text l r n)"
  by (subst numeral_text.simps) simp

lemma print_number_out:
  assumes x: "extent_ok x buf" and rng: "- 1 \<le> w" "w < 2 ^ 31" "precision < 2 ^ 31"
  shows "exec_bind (put_out x buf cs) (\<lambda>st. exec_bind (print_number x num base w precision flags st) k) =
    exec_bind (number_conversion num base w precision flags) (\<lambda>t. exec_bind (put_out x buf (cs @ t)) k)"
proof (cases "flag flags SIGN \<and> num = 2 ^ 31")
  case True
  then show ?thesis
    by (auto simp: print_number_def number_conversion_def number_defined_def flag_bits bit_without_zeropad put_out_def)
next
  case ok: False
  define type where type: "type = (if flag flags LEFT then flags AND NOT ZEROPAD else flags)"
  define mag where mag: "mag = (if flag flags SIGN \<and> sint num < 0 then - num else num)"
  define r where r: "r = (if base = 10 then 10 else 16 :: nat)"
  define sign where sign: "sign = (if flag flags SIGN then
                 (if sint num < 0 then Some CHR ''-''
                  else if flag flags PLUS then Some CHR ''+''
                  else if flag flags SPACE then Some CHR '' '' else None)
               else None)"
  let ?ds = "numeral_text (flag flags LARGE) r (unat mag)"
  have flags: "flag type SIGN = flag flags SIGN" "flag type PLUS = flag flags PLUS" "flag type SPACE = flag flags SPACE"
    "flag type LARGE = flag flags LARGE" "flag type LEFT = flag flags LEFT"
    "(if flag type LEFT then 1 else if flag type ZEROPAD then 2 else 3 :: int) =
       (if flag flags LEFT then 1 else if flag flags ZEROPAD then 2 else 3)"
    and left: "flag type LEFT \<longrightarrow> \<not> flag type ZEROPAD"
    by (simp_all add: type flag_bits bit_without_zeropad)
  have mag_eq: "unat mag = (if flag flags SIGN then nat \<bar>sint num\<bar> else unat num)"
    using ok unat_magnitude[of num "flag flags SIGN"] by (cases "num = 2 ^ 31") (auto simp: mag)
  have no: "(flag flags SIGN \<and> num = 2 ^ 31) = False" using ok by simp
  have sg: "sign_text flags (sint num < 0) = (case sign of None \<Rightarrow> [] | Some ch \<Rightarrow> [ch])"
    by (simp add: sign_text_def sign)
  have ds: "0 < length ?ds" "length ?ds \<le> 16"
    using length_numeral_text_pos[of "flag flags LARGE" r "unat mag"] length_numeral_text_u32[of r "flag flags LARGE" mag]
    by (auto simp: r)
  have layout: "number_layout sg ds w precision type = number_layout sg ds w precision flags" for sg ds
    unfolding type by (rule number_layout_without_zeropad)
  have "exec_bind (put_out x buf cs) (\<lambda>st. exec_bind (print_number x num base w precision flags st) k) =
      exec_bind (put_out x buf cs) (\<lambda>st. exec_bind (put_number x (rev ?ds) sign
        (if flag type ZEROPAD then CHR ''0'' else CHR '' '') w precision type st) k)"
    unfolding print_number_def Let_def type[symmetric] flags(1-4) mag[symmetric] sign[symmetric] number_tmp[OF r refl]
      no if_False exec_bind.simps by (rule refl)
  also have "\<dots> = (if - (2 ^ 31) \<le> w - max (int (length ?ds)) precision -
          ((if flag type LEFT then 1 else if flag type ZEROPAD then 2 else 3) + int (length (sign_text flags (sint num < 0))))
     then exec_bind (put_out x buf (cs @ number_layout (sign_text flags (sint num < 0)) ?ds w precision type)) k else Fault)"
    by (rule put_number_out[OF x refl left rng ds sg])
  finally show ?thesis
    using ok unfolding flags(6) layout
    by (simp add: number_conversion_def number_defined_def number_steps_def number_text_layout mag_eq r)
qed

lemma put_string_out:
  assumes x: "extent_ok x buf" and u: "take (length u) s = u" and w: "- 1 \<le> w" "w < 2 ^ 31"
  shows "exec_bind (put_out x buf cs) (\<lambda>st.
      exec_bind (if \<not> flag flags LEFT then pad_from x CHR '' '' (int (length u)) w st else Done (w, st)) (\<lambda>(w, st).
        exec_bind (put_chars x (length u) s st) (\<lambda>st.
          exec_bind (pad_from x CHR '' '' (int (length u)) w st) (\<lambda>(_, st). k st)))) =
    exec_bind (put_out x buf (cs @ fill_text flags w u)) k"
proof -
  have len: "length u \<le> length s" using u by (metis length_take min.cobounded1 min_def)
  let ?m = "min (int (length u)) w"
  have m: "- 1 \<le> ?m" "?m < 2147483648" "min (int (length u)) (?m - 1) = ?m - 1" using w by auto
  then have c: "c_int (?m - 1) = Done (?m - 1)" "c_int (?m - 2) = Done (?m - 2)" by simp_all
  show ?thesis
    using x u len m
    by (cases "flag flags LEFT") (simp_all add: put_out_rules c fill_text_def min_less_iff_disj cong: if_cong)
qed

lemma string_length_take:
  assumes "- 1 \<le> w" and "w < 2 ^ 31"
  shows "string_length w 0 s =
    (if w < 0 \<and> 2 ^ 31 \<le> length s then Fault else Done (int (length (if w < 0 then s else take (nat w) s))))"
  using assms by (auto simp: string_length_eq min_def)

lemma convert_string:
  "convert e (flags, width, precision, qualifier) CHR ''s'' args = (\<lambda>st.
     exec_bind (va_string args) (\<lambda>(s, args).
     exec_bind (string_length width 0 s) (\<lambda>len.
       let len = (if precision > 0 \<and> len > precision then precision else len)
       in exec_bind (if \<not> flag flags LEFT then pad_from e CHR '' '' len width st else Done (width, st)) (\<lambda>(width, st).
          exec_bind (put_chars e (nat len) s st) (\<lambda>st.
          exec_bind (pad_from e CHR '' '' len width st) (\<lambda>(_, st). Done (args, st)))))))"
  by (simp add: convert_def Let_def)

text \<open>Nothing here runs out of fuel.\<close>

lemma exec_bind_fuel_iff: "exec_bind e f = Out_Of_Fuel \<longleftrightarrow> e = Out_Of_Fuel \<or> (\<exists>x. e = Done x \<and> f x = Out_Of_Fuel)"
  by (cases e) auto

lemma va_fuel [simp]: "va_int args \<noteq> Out_Of_Fuel" "va_string args \<noteq> Out_Of_Fuel" "va_pointer args \<noteq> Out_Of_Fuel"
  "va_number q f args \<noteq> Out_Of_Fuel"
proof -
  show va: "va_int args \<noteq> Out_Of_Fuel" by (cases args rule: va_int.cases) auto
  show "va_string args \<noteq> Out_Of_Fuel" by (cases args rule: va_string.cases) auto
  show "va_pointer args \<noteq> Out_Of_Fuel" by (cases args rule: va_pointer.cases) auto
  show "va_number q f args \<noteq> Out_Of_Fuel" using va by (auto simp: va_number_def exec_bind_fuel_iff)
qed

lemma skip_atoi_fuel [simp]: "skip_atoi i s \<noteq> Out_Of_Fuel"
  by (induction i s rule: skip_atoi.induct) auto

lemma exec_bind_no_fuel: "e \<noteq> Out_Of_Fuel \<Longrightarrow> (\<And>x. f x \<noteq> Out_Of_Fuel) \<Longrightarrow> exec_bind e f \<noteq> Out_Of_Fuel"
  by (cases e) auto

lemma if_no_fuel: "e \<noteq> Out_Of_Fuel \<Longrightarrow> f \<noteq> Out_Of_Fuel \<Longrightarrow> (if b then e else f) \<noteq> Out_Of_Fuel"
  by simp

lemma parse_width_fuel: "parse_width flags fmt args \<noteq> Out_Of_Fuel"
  unfolding parse_width_def case_prod_unfold
  by (cases fmt) (auto simp: exec_bind_fuel_iff split: if_splits)

lemma parse_precision_fuel: "parse_precision fmt args \<noteq> Out_Of_Fuel"
proof (cases fmt)
  case (Cons d fmt0)
  then show ?thesis
    unfolding parse_precision_def case_prod_unfold
    by (cases fmt0) (auto simp: exec_bind_fuel_iff split: if_splits)
qed (simp add: parse_precision_def)

lemma parse_directive_fuel [simp]: "parse_directive fmt args \<noteq> Out_Of_Fuel"
  unfolding parse_directive_def Let_def case_prod_unfold
  by (intro exec_bind_no_fuel parse_width_fuel parse_precision_fuel) simp

lemma number_conversion_fuel [simp]: "number_conversion num base width precision flags \<noteq> Out_Of_Fuel"
  by (simp add: number_conversion_def)

lemma convert_text_fuel [simp]: "convert_text spec x args \<noteq> Out_Of_Fuel"
  unfolding convert_text_def Let_def case_prod_unfold
  by (intro if_no_fuel exec_bind_no_fuel va_fuel number_conversion_fuel) simp_all

lemma format_text_fuel [simp]: "format_text fmt args \<noteq> Out_Of_Fuel"
  by (induction fmt args rule: format_text.induct)
    (auto simp: exec_bind_fuel_iff case_prod_beta split: exec.splits list.splits)

text \<open>Every number has a text when its precision is not near the limit of \<open>int\<close>.\<close>

lemma number_conversion_eq:
  assumes "\<not> (flag flags SIGN \<and> num = 2 ^ 31)" and "- 1 \<le> width" and "precision < 2147483600"
  shows "number_conversion num base width precision flags = Done (number_text num base width precision flags)"
proof -
  let ?ds = "numeral_text (flag flags LARGE) (if base = 10 then 10 else 16) (if flag flags SIGN then nat \<bar>sint num\<bar> else unat num)"
  define mag where "mag = (if flag flags SIGN \<and> sint num < 0 then - num else num)"
  have "unat mag = (if flag flags SIGN then nat \<bar>sint num\<bar> else unat num)"
    using assms(1) unat_magnitude[of num "flag flags SIGN"] by (cases "num = 2 ^ 31") (auto simp: mag_def)
  then have "length ?ds \<le> 10"
    using length_numeral_text_u32[of "if base = 10 then 10 else 16" "flag flags LARGE" mag] by simp
  then have "max (int (length ?ds)) precision < 2147483600" using assms(3) by simp
  moreover have "number_steps flags (sint num < 0) \<le> 4" by (simp add: number_steps_def sign_text_def)
  moreover have room: "- (2 ^ 31) \<le> width - M - k" if "M < 2147483600" "k \<le> 4" for M k :: int
    using that assms(2) by simp
  ultimately have "number_defined num base width precision flags"
    unfolding number_defined_def using assms(1) room by blast
  then show ?thesis by (simp add: number_conversion_def)
qed

text \<open>A conversion puts out its text.\<close>

lemma convert_out:
  assumes e: "extent_ok e buf" and w: "- 1 \<le> w" "w < 2 ^ 31" and p: "precision < 2 ^ 31"
  shows "exec_bind (put_out e buf cs) (\<lambda>st. exec_bind (convert e (flags, w, precision, qualifier) x args st) k) =
    exec_bind (convert_text (flags, w, precision, qualifier) x args)
      (\<lambda>(args, t). exec_bind (put_out e buf (cs @ t)) (\<lambda>st. k (args, st)))"
proof -
  let ?spec = "(flags, w, precision, qualifier)"
  consider "x = CHR ''c''" | "x = CHR ''s''" | "x = CHR ''p''" | "x = CHR ''%''" | "x \<in> set ''oXxdiu''"
    | "x \<notin> set ''csp%oXxdiu''" by fastforce
  then show ?thesis
  proof cases
    case 1
    let ?m = "min w 1"
    have m: "- 1 \<le> ?m" "?m < 2147483648" "min (?m - 1) 1 = ?m - 1" using w by auto
    then have c: "c_int (?m - 1) = Done (?m - 1)" "c_int (?m - 2) = Done (?m - 2)" "nat (?m - 2) = 0" by simp_all
    show ?thesis
      using e 1 m(3)
      by (cases "va_int args"; cases "flag flags LEFT")
        (simp_all add: convert_def convert_text_def fill_text_def put_out_rules c case_prod_beta)
  next
    case 2
    show ?thesis
    proof (cases "va_string args")
      case (Done sa)
      obtain s args' where sa: "sa = (s, args')" by fastforce
      define t where "t = (if w < 0 then s else take (nat w) s)"
      define u where "u = (if precision > 0 then take (nat precision) t else t)"
      have len: "(if precision > 0 \<and> int (length t) > precision then precision else int (length t)) = int (length u)"
        unfolding u_def by auto
      have "take (length u) s = u"
        unfolding u_def t_def by (auto simp: min_def intro!: arg_cong2[of _ _ _ _ take])
      note put = put_string_out[OF e this w, of cs flags "\<lambda>st. k (args', st)"]
      note scan = string_length_take[OF w, of s, folded t_def]
      show ?thesis
      proof (cases "w < 0 \<and> 2 ^ 31 \<le> length s")
        case True
        then show ?thesis by (simp add: 2 convert_string convert_text_def Done sa scan)
      next
        case False
        have "exec_bind (put_out e buf cs) (\<lambda>st. exec_bind (convert e ?spec x args st) k) =
            exec_bind (put_out e buf (cs @ fill_text flags w u)) (\<lambda>st. k (args', st))"
          unfolding 2 convert_string Done sa exec_bind.simps prod.case scan if_not_P[OF False] Let_def len nat_int
          by (rule trans[OF _ put]) (simp only: exec_bind_assoc case_prod_unfold exec_bind.simps)
        moreover have "convert_text ?spec x args = Done (args', fill_text flags w u)"
          using False by (simp add: convert_text_def 2 Done sa Let_def t_def u_def)
        ultimately show ?thesis by simp
      qed
    qed (use 2 in \<open>simp_all add: convert_def convert_text_def\<close>)
  next
    case 3
    then show ?thesis
      using e w p
      by (cases "va_pointer args"; cases "w = - 1")
        (simp_all add: convert_def convert_text_def Let_def case_prod_beta exec_bind_assoc print_number_out)
  next
    case 4
    then show ?thesis using e by (simp add: convert_def convert_text_def put_out_rules)
  next
    case 5
    let ?b = "if x = CHR ''o'' then 8 else if x = CHR ''x'' \<or> x = CHR ''X'' then 16 else 10 :: nat"
    let ?f = "if x = CHR ''X'' then flags OR LARGE else if x = CHR ''d'' \<or> x = CHR ''i'' then flags OR SIGN else flags"
    have ne: "x \<noteq> CHR ''c''" "x \<noteq> CHR ''s''" "x \<noteq> CHR ''p''" "x \<noteq> CHR ''%''" using 5 by auto
    have "convert e ?spec x args = (\<lambda>st. exec_bind (va_number qualifier ?f args) (\<lambda>(num, args).
        exec_bind (print_number e num ?b w precision ?f st) (\<lambda>st. Done (args, st))))"
      unfolding convert_def Let_def prod.case using ne 5 by (simp only: if_False if_True simp_thms)
    moreover have "convert_text ?spec x args = exec_bind (va_number qualifier ?f args) (\<lambda>(num, args).
        exec_bind (number_conversion num ?b w precision ?f) (\<lambda>t. Done (args, t)))"
      unfolding convert_text_def Let_def prod.case using ne 5 by (simp only: if_False if_True simp_thms)
    ultimately show ?thesis
      using e w p
      by (cases "va_number qualifier ?f args")
        (simp_all add: case_prod_beta exec_bind_assoc print_number_out del: if_split split del: if_split)
  next
    case 6
    then show ?thesis using e by (simp add: convert_def convert_text_def put_out_rules)
  qed
qed

lemma is_digit_iff: "is_digit c \<longleftrightarrow> 48 \<le> (of_char c :: nat) \<and> (of_char c :: nat) < 58"
proof -
  have "(of_char c :: u32) = of_nat (of_char c)" by (cases c) (simp add: of_char_Char)
  then have "unat (of_char c :: u32) = of_char c"
    using unat_of_nat_small[of "of_char c", where ?'a = 32] by (simp add: less_trans[of _ 256])
  then show ?thesis
    by (auto simp: is_digit_def word_less_nat_alt unat_sub_if' split: if_splits)
qed

lemma digit_int: "is_digit c \<Longrightarrow> 48 \<le> (of_char c :: int)"
  using of_nat_of_char[of c, where ?'a = int] unfolding is_digit_iff by linarith

lemma skip_atoi_range: "0 \<le> i \<Longrightarrow> i < 2 ^ 31 \<Longrightarrow> skip_atoi i s = Done (w, s') \<Longrightarrow> 0 \<le> w \<and> w < 2 ^ 31"
proof (induction i s rule: skip_atoi.induct)
  case (2 i c s)
  then show ?case
    by (auto dest: digit_int split: if_splits)
qed simp

lemma sint_u32_range: "- (2 ^ 31) \<le> sint (w :: u32)" "sint (w :: u32) < 2 ^ 31"
  using sint_ge[of w] sint_lt[of w] by simp_all

lemma sint_u32_least: "sint (w :: u32) = - (2 ^ 31) \<Longrightarrow> w = 2 ^ 31"
proof -
  assume "sint w = - (2 ^ 31)"
  have "uint w = 2 ^ 31"
  proof (cases "uint w < 2 ^ 31")
    case True
    then have "sint w = uint w" by (simp only: sint_u32 if_True)
    with \<open>sint w = - (2 ^ 31)\<close> have "uint w = - 2147483648" by simp
    then show ?thesis using uint_ge_0[of w] by linarith
  next
    case False
    then have "sint w = uint w - 2 ^ 32" by (simp only: sint_u32 if_False)
    with \<open>sint w = - (2 ^ 31)\<close> show ?thesis by simp
  qed
  then show ?thesis by (intro word_uint_eqI) simp
qed

lemma parse_width_range:
  assumes "parse_width f s as = Done (w, f', s', as')"
  shows "- 1 \<le> w \<and> w < 2 ^ 31"
proof -
  have "- sint v < 2 ^ 31" if "v \<noteq> 2 ^ 31" for v :: u32
    using sint_u32_range(1)[of v] sint_u32_least[of v] that by linarith
  then show ?thesis
    using assms sint_u32_range(2)
    by (auto simp: parse_width_def exec_bind_Done_iff dest!: skip_atoi_range[rotated 2] dest: digit_int
        split: list.splits if_splits)
qed

lemma parse_precision_range:
  assumes "parse_precision s as = Done (p, s', as')"
  shows "p < 2 ^ 31"
  using assms sint_u32_range(2)
  by (auto simp: parse_precision_def exec_bind_Done_iff dest!: skip_atoi_range[rotated 2] dest: digit_int
      split: list.splits if_splits)

lemma parse_directive_range:
  "parse_directive s as = Done ((f, w, p, q), s', as') \<Longrightarrow> - 1 \<le> w \<and> w < 2 ^ 31 \<and> p < 2 ^ 31"
  by (auto simp: parse_directive_def exec_bind_Done_iff Let_def case_prod_beta
      dest!: parse_width_range parse_precision_range)

lemma vsn_loop_out:
  "extent_ok e buf \<Longrightarrow>
     exec_bind (put_out e buf cs) (vsn_loop e fmt args) =
       exec_bind (format_text fmt args) (\<lambda>t. put_out e buf (cs @ t))"
proof (induction fmt args arbitrary: cs rule: format_text.induct)
  case (1 args)
  then show ?case by (simp add: put_out_def)
next
  case (2 c fmt args)
  show ?case
  proof (cases "c = CHR ''%''")
    case False
    then show ?thesis
      using 2(1)[of "cs @ [c]"] 2(3) by (simp add: put_out_rules)
  next
    case True
    show ?thesis
    proof (cases "parse_directive fmt args")
      case (Done d)
      obtain f w p q fmt' args' where d: "d = ((f, w, p, q), fmt', args')" by (metis surj_pair)
      show ?thesis
      proof (cases fmt')
        case Nil
        then show ?thesis using True Done d 2(3) by (simp add: put_out_emit)
      next
        case (Cons x fmt'')
        have rng: "- 1 \<le> w" "w < 2 ^ 31" "p < 2 ^ 31" using parse_directive_range[OF Done[unfolded d]] by auto
        show ?thesis
          using 2(2)[OF _ Done d[symmetric] refl Cons] convert_out[OF 2(3) rng, of cs f q x args' "\<lambda>(args, st). vsn_loop e fmt'' args st"]
            2(3) True Done d Cons
          by (cases "convert_text (f, w, p, q) x args'") (auto simp: case_prod_beta put_out_rules)
      qed
    qed (use True in \<open>simp_all\<close>)
  qed
qed

section \<open>Bounded output\<close>

lemma store_written:
  assumes "0 < n" and "n \<le> length buf"
  shows "store_at (if length t < n then length t else n - 1) c (written n buf t) =
    Done (take (n - 1) t @ c # drop (min n (length t + 1)) buf)"
proof (cases "length t < n")
  case True
  then have "drop (length t) buf = buf ! length t # drop (Suc (length t)) buf"
    using assms by (simp add: Cons_nth_drop_Suc)
  with True assms show ?thesis
    by (cases "n = Suc (length t)") (auto simp: written_def store_at_def list_update_append min_def)
next
  case False
  then have "take n t = take (n - 1) t @ [t ! (n - 1)]"
    using assms by (metis Suc_diff_1 diff_less less_le_trans not_less take_Suc_conv_app_nth zero_less_one)
  moreover have "\<not> length t \<le> n - 1" "n - 1 < length buf" using False assms by auto
  ultimately show ?thesis
    using False assms by (simp add: written_def store_at_def list_update_append min_def)
qed

lemma rt_vsnprintf_text:
  assumes "unat sz \<le> length buf" and "unat a + unat sz < 2 ^ 32"
  shows "rt_vsnprintf a buf sz fmt args =
    exec_bind (format_text fmt args) (\<lambda>t.
      if unat a + length t < 2 ^ 32
      then Done (of_nat (length t),
        if sz = 0 then buf
        else take (unat sz - 1) t @ CHR 0x00 # drop (min (unat sz) (length t + 1)) buf)
      else Fault)"
proof -
  have sum: "unat (a + sz) = unat a + unat sz" using assms(2) by (simp add: unat_word_ariths)
  have lim: "out_limit a sz = (a + sz, sz)" by (simp add: out_limit_def word_less_nat_alt sum)
  have ext: "extent_ok (a, a + sz) buf" using assms(1) by (simp add: extent_ok_def word_le_nat_alt sum)
  have start: "Done (buf, a) = put_out (a, a + sz) buf []"
    using unsigned_less[of a, where ?'a = nat] by (simp add: put_out_def written_def)
  have run: "vsn_loop (a, a + sz) fmt args (buf, a) = exec_bind (format_text fmt args) (put_out (a, a + sz) buf)"
    using vsn_loop_out[OF ext, of "[]" fmt args] by (simp flip: start)
  show ?thesis
  proof (cases "format_text fmt args")
    case (Done t)
    show ?thesis
    proof (cases "unat a + length t < 2 ^ 32")
      case True
      have len: "unat (of_nat (length t) :: u32) = length t" using True by (intro unat_of_nat_small) simp
      then have below: "a + of_nat (length t) < a + sz \<longleftrightarrow> length t < unat sz"
        using True by (simp add: word_less_nat_alt sum unat_word_ariths(1)[of a "of_nat (length t)"])
      have zero: "written 0 buf t = buf" by (simp add: written_def)
      have last: "unat (sz - 1) = unat sz - 1" if "sz \<noteq> 0" using that by (rule unat_dec_pos)
      have "unat ((if a + of_nat (length t) < a + sz then a + of_nat (length t) else a + sz - 1) - a) =
          (if length t < unat sz then length t else unat sz - 1)" if "sz \<noteq> 0"
        using last[OF that] by (simp add: below len)
      with True Done show ?thesis
        using store_written[OF _ assms(1)] zero
        by (simp add: rt_vsnprintf_def lim run put_out_def word_gt_0 unat_gt_0)
    qed (simp add: rt_vsnprintf_def lim run Done put_out_def)
  qed (simp_all add: rt_vsnprintf_def lim run)
qed

text \<open>C27. \<open>rt_vsnprintf\<close> writes the text of the format, as much of it as fits, and a null: it
  never touches the buffer beyond the given size, always terminates what it wrote, and returns
  the length of the whole text. It faults exactly when the text is not defined or when its
  characters, whether stored or only counted, lead the output pointer to the end of the address
  space. The text is not defined for an argument of the wrong kind, a width or precision beyond
  the range of \<open>int\<close>, a negation that overflows, a string of \<open>2 ^ 31\<close> characters without a
  width, and a number whose precision is so large that the decrements of the remaining size
  leave the range of \<open>int\<close> (\<open>number_defined\<close>).\<close>

theorem rt_vsnprintf_formats:
  assumes "unat sz \<le> length buf" and "unat a + unat sz < 2 ^ 32"
  shows "rt_vsnprintf a buf sz fmt args =
    exec_bind (format_text fmt args) (\<lambda>t.
      if unat a + length t < 2 ^ 32
      then Done (of_nat (length t),
        if sz = 0 then buf
        else take (unat sz - 1) t @ CHR 0x00 # drop (min (unat sz) (length t + 1)) buf)
      else Fault)"
  using assms by (rule rt_vsnprintf_text)

theorem rt_vsnprintf_formats_witness:
  "rt_vsnprintf 0x1000 ''~~~~~~~~'' 6 ''R %03u'' [CInt 1234] = Done (6, ''R 123'' @ CHR 0x00 # ''~~'')"
proof -
  have t: "format_text ''R %03u'' [CInt 1234] = Done ''R 1234''" by code_simp
  show ?thesis
    using rt_vsnprintf_formats[of 6 "''~~~~~~~~''" "0x1000" "''R %03u''" "[CInt 1234]"]
    by (simp add: t del: format_text.simps)
qed

text \<open>
  Where the text is not what the conversion means: octal numbers come out in base 16, a
  precision of 0 drops the digits of every number, and the width cuts a string.
\<close>

lemma octal_is_hexadecimal: "number_text num 8 width precision flags = number_text num 16 width precision flags"
  by (simp add: number_text_def)

text \<open>A precision of \<open>INT_MAX\<close> has no text: the remaining size of \<open>print_number\<close> underflows.\<close>

lemma precision_limit: "format_text ''%.*d'' [CInt 0x7fffffff, CInt 5] = Fault"
  by code_simp

lemma format_text_deviations:
  "format_text ''%o'' [CInt 8] = Done ''8''"
  "format_text ''%.0d'' [CInt 5] = Done []"
  "format_text ''%2s'' [CStr (Some ''abc'')] = Done ''ab''"
  by code_simp+

lemma rt_kprintf_text:
  assumes "length rt_log_buf = 256" and "unat a + 256 < 2 ^ 32"
    and "format_text fmt args = Done t" and "unat a + length t < 2 ^ 32"
  shows "\<exists>buf. rt_kprintf a True rt_log_buf fmt args =
      Done (if length t \<le> 254 then t else take 254 t @ [CHR 0x00], buf) \<and> length buf = 256"
proof -
  let ?buf = "take 254 t @ CHR 0x00 # drop (min 255 (length t + 1)) rt_log_buf"
  have out: "rt_vsnprintf a rt_log_buf 255 fmt args = Done (of_nat (length t), ?buf)"
    using rt_vsnprintf_text[of 255 rt_log_buf a fmt args] assms by simp
  have len: "unat (of_nat (length t) :: u32) = length t"
    using assms(4) unat_of_nat_small[of "length t", where ?'a = 32] by simp
  consider "length t \<le> 254" | "length t = 255" | "255 < length t" by linarith
  then show ?thesis
    using assms(1)
    by cases (simp_all add: rt_kprintf_def RT_CONSOLEBUF_SIZE_def word_less_nat_alt out len)
qed

text \<open>\<open>rt_kprintf\<close> sends the whole text to the console device when it has at most 254
  characters; of a longer one it sends the first 254 and the terminating null of its buffer.\<close>

theorem rt_kprintf_sends:
  assumes "length rt_log_buf = 256" and "unat a + 256 < 2 ^ 32"
    and "format_text fmt args = Done t" and "unat a + length t < 2 ^ 32"
  shows "\<exists>buf. rt_kprintf a True rt_log_buf fmt args =
      Done (if length t \<le> 254 then t else take 254 t @ [CHR 0x00], buf) \<and> length buf = 256"
  using assms by (rule rt_kprintf_text)

theorem rt_kprintf_sends_witness:
  "\<exists>buf. rt_kprintf 0x80100000 True (replicate 256 CHR 0x00) (replicate 300 CHR ''x'') [] =
      Done (replicate 254 CHR ''x'' @ [CHR 0x00], buf) \<and> length buf = 256"
proof -
  have "format_text (replicate n CHR ''x'') [] = Done (replicate n CHR ''x'')" for n
    by (induction n) simp_all
  from rt_kprintf_sends[OF _ _ this, of "replicate 256 CHR 0x00" "0x80100000" 300] show ?thesis by simp
qed

end
