(* ===== verification/Sensor.thy ===== *)
theory Sensor
  imports Mock_Bus Printf Rt_Thread
begin

text \<open>
  The sensor monitor \<^verbatim>\<open>sw/app/sensor/sensor.c\<close>: a thread reads the attitude, reports it on
  the console at most twice a second, and shows it on the display when it has changed; two shell
  commands start and stop it and select the display. The record \<open>monitor\<close> holds the static
  variables of the program, the state of the display driver, the kernel, the board and what the
  console has been sent. Other threads run when the monitor reads one of its volatile flags:
  \<open>others\<close> is what they do. The last part composes sensor, formatted output and display.
\<close>

section \<open>State\<close>

definition SENSOR_DISPLAY_PERIOD_MS :: u32 where [code_unfold]: "SENSOR_DISPLAY_PERIOD_MS = 200"
definition SENSOR_REPORT_PERIOD_MS :: u32 where [code_unfold]: "SENSOR_REPORT_PERIOD_MS = 500"
definition SENSOR_IMU_TIMEOUT_MS :: u32 where [code_unfold]: "SENSOR_IMU_TIMEOUT_MS = 100"
definition SENSOR_THREAD_STACK_SIZE :: u32 where [code_unfold]: "SENSOR_THREAD_STACK_SIZE = 4096"
definition SENSOR_THREAD_PRIORITY :: u8 where [code_unfold]: "SENSOR_THREAD_PRIORITY = 22"
definition SENSOR_THREAD_TIMESLICE :: u32 where [code_unfold]: "SENSOR_THREAD_TIMESLICE = 10"
definition SENSOR_STOP_POLL_MS :: u32 where [code_unfold]: "SENSOR_STOP_POLL_MS = 10"

lemmas sensor_consts = SENSOR_DISPLAY_PERIOD_MS_def SENSOR_REPORT_PERIOD_MS_def SENSOR_IMU_TIMEOUT_MS_def
  SENSOR_THREAD_STACK_SIZE_def SENSOR_THREAD_PRIORITY_def SENSOR_THREAD_TIMESLICE_def SENSOR_STOP_POLL_MS_def

record 'b monitor =
  board :: 'b
  display :: ssd1306
  kern :: kernel
  console :: string
  rt_log_buf :: string
  sensor_thread :: "tid option"
  sensor_stop_requested :: bool
  display_startup_pending :: bool
  display_startup_result :: int

record sensor_refresh_state =
  display_initialized :: bool
  display_attitude_valid :: bool
  shown_attitude :: ms601m_attitude
  report_initialized :: bool
  report_last_ms :: u32
  report_attitude :: ms601m_attitude
  sample_initialized :: bool
  sample_attitude_valid :: bool

text \<open>The surroundings: the bus, the addresses of the log buffer and of the stack, the other threads.\<close>

record 'b sensor_env =
  env_bus :: "'b monitor_bus"
  log_addr :: u32
  stack_addr :: u32
  others :: "'b monitor \<Rightarrow> 'b monitor"

definition monitor_printf :: "'b sensor_env \<Rightarrow> string \<Rightarrow> c_arg list \<Rightarrow> 'b monitor \<Rightarrow> 'b monitor exec" where
  "monitor_printf env fmt args w =
     exec_bind (rt_kprintf (log_addr env) True (rt_log_buf w) fmt args) (\<lambda>(s, b).
       Done (w\<lparr>console := console w @ s, rt_log_buf := b\<rparr>))"

text \<open>A character array as a C string.\<close>

definition c_string :: "string \<Rightarrow> string exec" where
  "c_string b = (if CHR 0x00 \<in> set b then Done (takeWhile (\<lambda>c. c \<noteq> CHR 0x00) b) else Fault)"

definition local_printf :: "'b sensor_env \<Rightarrow> string \<Rightarrow> string \<Rightarrow> c_arg list \<Rightarrow> string exec" where
  "local_printf env buf fmt args =
     exec_bind (rt_snprintf (stack_addr env) buf (of_nat (length buf)) fmt args) (\<lambda>(_, b). c_string b)"

section \<open>Formatting and display\<close>

definition abs_i32 :: "int \<Rightarrow> u32" where
  "abs_i32 v = (if v < 0 then of_int (- v) else of_int v)"

definition sign_char :: "int \<Rightarrow> c_arg" where
  "sign_char v = CInt (if v < 0 then of_char CHR ''-'' else of_char CHR ''+'')"

definition format_angle_value :: "'b sensor_env \<Rightarrow> string \<Rightarrow> int \<Rightarrow> string exec" where
  "format_angle_value env buf v =
     (let magnitude = abs_i32 v
      in local_printf env buf ''%c%03u.%u'' [sign_char v, CInt (magnitude div 10), CInt (magnitude mod 10)])"

definition attitude_changed :: "ms601m_attitude \<Rightarrow> ms601m_attitude \<Rightarrow> bool" where
  "attitude_changed l r \<longleftrightarrow> roll_tenth_degree l \<noteq> roll_tenth_degree r \<or>
     pitch_tenth_degree l \<noteq> pitch_tenth_degree r \<or> yaw_tenth_degree l \<noteq> yaw_tenth_degree r"

definition print_attitude :: "'b sensor_env \<Rightarrow> ms601m_attitude \<Rightarrow> 'b monitor \<Rightarrow> 'b monitor exec" where
  "print_attitude env a w =
     (let r = abs_i32 (roll_tenth_degree a); p = abs_i32 (pitch_tenth_degree a); y = abs_i32 (yaw_tenth_degree a)
      in monitor_printf env (''MS601M: roll=%c%u.%u pitch=%c%u.%u yaw=%c%u.%u deg'' @ [CHR 0x0A])
           [sign_char (roll_tenth_degree a), CInt (r div 10), CInt (r mod 10),
            sign_char (pitch_tenth_degree a), CInt (p div 10), CInt (p mod 10),
            sign_char (yaw_tenth_degree a), CInt (y div 10), CInt (y mod 10)] w)"

definition display_lines :: "'b sensor_env \<Rightarrow> string list \<Rightarrow> 'b monitor \<Rightarrow> (int \<times> 'b monitor) exec" where
  "display_lines env ls w =
     exec_bind (ssd1306_show_frame (env_bus env) (display w) (map Some ls) (board w)) (\<lambda>(r, d, b).
       Done (r, w\<lparr>display := d, board := b\<rparr>))"

definition display_idle_screen :: "'b sensor_env \<Rightarrow> 'b monitor \<Rightarrow> (int \<times> 'b monitor) exec" where
  "display_idle_screen env w = display_lines env [''Ydrsail'', ''RT-Thread'', [], []] w"

definition sensor_display_startup :: "'b sensor_env \<Rightarrow> 'b monitor \<Rightarrow> (int \<times> 'b monitor) exec" where
  "sensor_display_startup env w =
     (if display_startup_pending w then Done (- RT_EBUSY, w)
      else exec_bind (display_lines env [''Ydrsail'', ''RT-Thread'', [], []] (w\<lparr>display_startup_pending := True\<rparr>)) (\<lambda>(r, w).
             Done (r, w\<lparr>display_startup_result := r, display_startup_pending := False\<rparr>)))"

fun sensor_display_wait_ready :: "nat \<Rightarrow> 'b sensor_env \<Rightarrow> 'b monitor \<Rightarrow> (int \<times> 'b monitor) exec" where
  "sensor_display_wait_ready 0 env w = Out_Of_Fuel"
| "sensor_display_wait_ready (Suc fuel) env w =
     (let w = others env w
      in if display_startup_pending w then sensor_display_wait_ready fuel env w
         else Done (display_startup_result w, w))"

text \<open>\<open>roll\<close>, \<open>pitch\<close> and \<open>yaw\<close> are the uninitialised arrays of that name.\<close>

definition display_attitude ::
    "'b sensor_env \<Rightarrow> string \<times> string \<times> string \<Rightarrow> ms601m_attitude \<Rightarrow> bool \<Rightarrow> 'b monitor \<Rightarrow> (int \<times> 'b monitor) exec" where
  "display_attitude env arrays a valid w =
     (let (roll, pitch, yaw) = arrays;
          attitude_line = ''R NO DATA'' @ replicate 13 CHR 0x00;
          yaw_line = ''Y NO DATA'' @ replicate 13 CHR 0x00
      in exec_bind
           (if valid then
              exec_bind (format_angle_value env roll (roll_tenth_degree a)) (\<lambda>roll.
              exec_bind (format_angle_value env pitch (pitch_tenth_degree a)) (\<lambda>pitch.
              exec_bind (format_angle_value env yaw (yaw_tenth_degree a)) (\<lambda>yaw.
              exec_bind (local_printf env attitude_line ''R %s P %s'' [CStr (Some roll), CStr (Some pitch)]) (\<lambda>l3.
              exec_bind (local_printf env yaw_line ''Y %s'' [CStr (Some yaw)]) (\<lambda>l4.
              Done (l3, l4))))))
            else exec_bind (c_string attitude_line) (\<lambda>l3. exec_bind (c_string yaw_line) (\<lambda>l4. Done (l3, l4))))
           (\<lambda>(l3, l4). display_lines env [''Ydrsail'', ''ANGLE SENSOR'', l3, l4] w))"

section \<open>The worker\<close>

definition zero_attitude :: ms601m_attitude where
  "zero_attitude = \<lparr>roll_tenth_degree = 0, pitch_tenth_degree = 0, yaw_tenth_degree = 0\<rparr>"

definition sensor_state_zero :: sensor_refresh_state where
  "sensor_state_zero =
     \<lparr>display_initialized = False, display_attitude_valid = False, shown_attitude = zero_attitude,
      report_initialized = False, report_last_ms = 0, report_attitude = zero_attitude,
      sample_initialized = False, sample_attitude_valid = False\<rparr>"

text \<open>\<open>stack\<close> is what the uninitialised arrays hold: the parser's frame, and the three of the display.\<close>

definition refresh_sensors ::
    "nat \<Rightarrow> 'b sensor_env \<Rightarrow> u8 list \<times> string \<times> string \<times> string \<Rightarrow> sensor_refresh_state \<Rightarrow> u32 \<Rightarrow> 'b monitor
      \<Rightarrow> (int \<times> sensor_refresh_state \<times> 'b monitor) exec" where
  "refresh_sensors fuel env stack s now_ms w =
     exec_bind (ms601m_read_attitude fuel (env_bus env) (fst stack) (Some zero_attitude) SENSOR_IMU_TIMEOUT_MS (board w))
       (\<lambda>(imu_result, att, b).
       let a = (case att of None \<Rightarrow> zero_attitude | Some a \<Rightarrow> a);
           w = w\<lparr>board := b\<rparr>;
           valid = (imu_result = YDRASIL_DRIVER_OK);
           display_changed = (\<not> display_initialized s \<or> display_attitude_valid s \<noteq> valid \<or>
                              valid \<and> attitude_changed a (shown_attitude s))
       in exec_bind
            (if \<not> sample_initialized s \<or> sample_attitude_valid s \<noteq> valid then
               exec_bind (if \<not> valid then monitor_printf env (''MS601M attitude timeout: %d'' @ [CHR 0x0A]) [CInt (of_int imu_result)] w
                          else Done w) (\<lambda>w.
                 Done (s\<lparr>sample_initialized := True, sample_attitude_valid := valid\<rparr>, w))
             else Done (s, w)) (\<lambda>(s, w).
          exec_bind
            (if valid \<and> (\<not> report_initialized s \<or>
                         attitude_changed a (report_attitude s) \<and> now_ms - report_last_ms s \<ge> SENSOR_REPORT_PERIOD_MS) then
               exec_bind (print_attitude env a w) (\<lambda>w.
                 Done (s\<lparr>report_attitude := a, report_last_ms := now_ms, report_initialized := True\<rparr>, w))
             else Done (s, w)) (\<lambda>(s, w).
          if display_changed then
            exec_bind (display_attitude env (snd stack) a valid w) (\<lambda>(r, w).
              if r \<noteq> YDRASIL_DRIVER_OK then
                exec_bind (monitor_printf env (''OLED update failed: %d'' @ [CHR 0x0A]) [CInt (of_int r)] w) (\<lambda>w. Done (r, s, w))
              else
                (let s = s\<lparr>display_initialized := True, display_attitude_valid := valid\<rparr>
                 in Done (YDRASIL_DRIVER_OK, if valid then s\<lparr>shown_attitude := a\<rparr> else s, w)))
          else Done (YDRASIL_DRIVER_OK, s, w))))"

fun wait_for_next_refresh :: "nat \<Rightarrow> 'b sensor_env \<Rightarrow> u32 \<Rightarrow> 'b monitor \<Rightarrow> 'b monitor exec" where
  "wait_for_next_refresh 0 env start_ms w = Out_Of_Fuel"
| "wait_for_next_refresh (Suc fuel) env start_ms w =
     (let w = others env w in
      if sensor_stop_requested w then Done w
      else
        (let (now, b) = bus_millis (env_bus env) (board w);
             w = w\<lparr>board := b\<rparr>;
             elapsed = now - start_ms
         in if elapsed \<ge> SENSOR_DISPLAY_PERIOD_MS then Done w
            else
              (let remaining = SENSOR_DISPLAY_PERIOD_MS - elapsed;
                   pause = (if remaining < SENSOR_STOP_POLL_MS then remaining else SENSOR_STOP_POLL_MS)
               in wait_for_next_refresh fuel env start_ms (w\<lparr>board := bus_delay_ms (env_bus env) pause b\<rparr>))))"

text \<open>The loop of \<open>sensor_worker\<close>; \<open>stack\<close> holds the same garbage in every round.\<close>

fun sensor_loop ::
    "nat \<Rightarrow> 'b sensor_env \<Rightarrow> u8 list \<times> string \<times> string \<times> string \<Rightarrow> sensor_refresh_state \<Rightarrow> 'b monitor \<Rightarrow> 'b monitor exec" where
  "sensor_loop 0 env stack s w = Out_Of_Fuel"
| "sensor_loop (Suc fuel) env stack s w =
     (let w = others env w in
      if sensor_stop_requested w then Done w
      else
        (let (start_ms, b) = bus_millis (env_bus env) (board w); w = w\<lparr>board := b\<rparr>
         in exec_bind (refresh_sensors fuel env stack s start_ms w) (\<lambda>(result, s, w).
            exec_bind (if result \<noteq> YDRASIL_DRIVER_OK
                       then monitor_printf env (''sensor refresh failed: %d'' @ [CHR 0x0A]) [CInt (of_int result)] w
                       else Done w) (\<lambda>w.
            exec_bind (wait_for_next_refresh fuel env start_ms w) (\<lambda>w.
            sensor_loop fuel env stack s w)))))"

definition sensor_worker ::
    "nat \<Rightarrow> 'b sensor_env \<Rightarrow> u8 list \<times> string \<times> string \<times> string \<Rightarrow> 'b monitor \<Rightarrow> 'b monitor exec" where
  "sensor_worker fuel env stack w =
     exec_bind (sensor_loop fuel env stack sensor_state_zero w) (\<lambda>w.
     exec_bind (display_idle_screen env w) (\<lambda>(display_result, w).
       let w = w\<lparr>sensor_stop_requested := False, sensor_thread := None\<rparr>
       in exec_bind (if display_result \<noteq> YDRASIL_DRIVER_OK
                     then monitor_printf env (''OLED idle screen failed: %d'' @ [CHR 0x0A]) [CInt (of_int display_result)] w
                     else Done w) (\<lambda>w.
          monitor_printf env (''sensor monitor stopped'' @ [CHR 0x0A]) [] w)))"

section \<open>Commands\<close>

definition parse_sensor_mode :: "string option \<Rightarrow> int" where
  "parse_sensor_mode argument =
     (if argument = None \<or> argument = Some ''all'' \<or> argument = Some ''imu''
      then YDRASIL_DRIVER_OK else YDRASIL_DRIVER_EINVAL)"

text \<open>A message on a line of its own, and the status that the command returns after it.\<close>

definition answer :: "'b sensor_env \<Rightarrow> string \<Rightarrow> c_arg list \<Rightarrow> int \<Rightarrow> 'b monitor \<Rightarrow> (int \<times> 'b monitor) exec" where
  "answer env msg args r w = exec_bind (monitor_printf env (msg @ [CHR 0x0A]) args w) (\<lambda>w. Done (r, w))"

text \<open>
  \<open>argv\<close> are the words of the command line, \<open>mem\<close> and \<open>stack_mem\<close> what the allocator returns
  for the thread and for its stack, of which \<open>stktop\<close> is the initial stack pointer.
\<close>

definition sensor_command ::
    "'b sensor_env \<Rightarrow> tid option \<Rightarrow> u32 option \<Rightarrow> u32 \<Rightarrow> string list \<Rightarrow> 'b monitor \<Rightarrow> (int \<times> 'b monitor) exec" where
  "sensor_command env mem stack_mem stktop argv w =
     (if length argv = 2 \<and> argv ! 1 = ''stop'' then
        (if sensor_thread w = None then answer env ''sensor monitor is not running'' [] YDRASIL_DRIVER_OK w
         else answer env ''sensor monitor stop requested'' [] YDRASIL_DRIVER_OK (w\<lparr>sensor_stop_requested := True\<rparr>))
      else if length argv > 2 \<or> parse_sensor_mode (if length argv = 2 then Some (argv ! 1) else None) \<noteq> YDRASIL_DRIVER_OK then
        answer env ''usage: sensor [all|imu|stop]'' [] YDRASIL_DRIVER_EINVAL w
      else if sensor_thread w \<noteq> None then answer env ''sensor monitor is already running'' [] (- RT_EBUSY) w
      else if display_startup_pending w then
        answer env ''OLED startup display is still in progress'' [] (- RT_EBUSY) w
      else
        (let w = w\<lparr>sensor_stop_requested := False\<rparr>;
             (thread, k) = rt_thread_create mem stack_mem stktop SENSOR_THREAD_STACK_SIZE SENSOR_THREAD_PRIORITY
                             SENSOR_THREAD_TIMESLICE (kern w);
             w = w\<lparr>kern := k\<rparr>
         in case thread of
              None \<Rightarrow> answer env ''sensor monitor thread allocation failed'' [] (- RT_ENOMEM) w
            | Some t \<Rightarrow>
                (let w = w\<lparr>sensor_thread := Some t\<rparr>;
                     (result, k) = rt_thread_startup t (kern w);
                     w = w\<lparr>kern := k\<rparr>
                 in if result \<noteq> RT_EOK then
                      answer env ''sensor monitor thread startup failed: %d'' [CInt (of_int result)] result
                        (w\<lparr>sensor_thread := None, kern := snd (rt_thread_delete t k)\<rparr>)
                    else answer env ''sensor monitor started: 200 ms display, 500 ms report'' [] YDRASIL_DRIVER_OK w)))"

definition oled_profiles :: "(string \<times> int \<times> int) list" where
  "oled_profiles =
     [(''ssd1306'', SSD1306_CONTROLLER_SSD1306, 1), (''ssd1306-flip'', SSD1306_CONTROLLER_SSD1306, 0),
      (''sh1106'', SSD1306_CONTROLLER_SH1106, 1), (''sh1106-flip'', SSD1306_CONTROLLER_SH1106, 0)]"

definition oled_test_command :: "'b sensor_env \<Rightarrow> string list \<Rightarrow> 'b monitor \<Rightarrow> (int \<times> 'b monitor) exec" where
  "oled_test_command env argv w =
     (case (if length argv = 2 then map_of oled_profiles (argv ! 1) else None) of
        None \<Rightarrow> answer env ''usage: oled_test [ssd1306|ssd1306-flip|sh1106|sh1106-flip]'' [] YDRASIL_DRIVER_EINVAL w
      | Some (controller, flipped) \<Rightarrow>
          if sensor_thread w \<noteq> None then
            answer env (''run '' @ [CHR 0x27] @ ''sensor stop'' @ [CHR 0x27] @ '' before changing the OLED profile'') [] (- RT_EBUSY) w
          else if display_startup_pending w then
            answer env ''OLED startup display is still in progress'' [] (- RT_EBUSY) w
          else
            exec_bind (ssd1306_configure (env_bus env) controller flipped (display w) (board w)) (\<lambda>(result, d, b).
              let w = w\<lparr>display := d, board := b\<rparr>
              in exec_bind (if result = YDRASIL_DRIVER_OK
                            then display_lines env [''Ydrsail'', ''ANGLE TEST'', ''R+90.0 P-45.0'', ''Y+22.5''] w
                            else Done (result, w)) (\<lambda>(result, w).
                   if result \<noteq> YDRASIL_DRIVER_OK then answer env ''OLED test failed: %d'' [CInt (of_int result)] result w
                   else answer env ''OLED profile selected: %s'' [CStr (Some (argv ! 1))] YDRASIL_DRIVER_OK w)))"

section \<open>What is printed and shown\<close>

definition angle_text :: "int \<Rightarrow> string" where
  "angle_text v =
     (let m = nat \<bar>v\<bar>
      in (if v < 0 then CHR ''-'' else CHR ''+'') #
         map (digit_char False) [m div 1000, m div 100 mod 10, m div 10 mod 10] @ [CHR ''.'', digit_char False (m mod 10)])"

lemma length_angle_text [simp]: "length (angle_text v) = 6"
  by (simp add: angle_text_def Let_def)

lemma digit_char_no_null: "d < 10 \<Longrightarrow> digit_char l d \<noteq> CHR 0x00"
  using nth_mem[of d "''0123456789abcdef''"] nth_mem[of d "''0123456789ABCDEF''"] by (auto simp: digit_char_def)

lemma angle_text_no_null: "\<bar>v\<bar> \<le> 9999 \<Longrightarrow> CHR 0x00 \<notin> set (angle_text v)"
  by (auto simp: angle_text_def Let_def dest!: sym[of "CHR 0x00"] digit_char_no_null[THEN notE, rotated])

lemma numeral_text_digit: "n < 10 \<Longrightarrow> numeral_text l 10 n = [digit_char l n]"
  by (subst numeral_text.simps) simp

lemma numeral_text_more: "10 \<le> n \<Longrightarrow> numeral_text l 10 n = numeral_text l 10 (n div 10) @ [digit_char l (n mod 10)]"
  by (subst numeral_text.simps) simp

lemma number_text_03:
  assumes "unat n < 1000"
  shows "number_text n 10 3 (- 1) ZEROPAD =
    map (digit_char False) [unat n div 100, unat n div 10 mod 10, unat n mod 10]"
proof -
  have zero: "digit_char False 0 = CHR ''0''" by (simp add: digit_char_def)
  consider "unat n < 10" | "10 \<le> unat n" "unat n < 100" | "100 \<le> unat n" by linarith
  then show ?thesis
  proof cases
    case 1
    then show ?thesis
      by (simp add: number_text_layout number_layout_def printf_flags sign_text_def numeral_text_digit zero numeral_2_eq_2)
  next
    case 2
    then show ?thesis
      by (simp add: number_text_layout number_layout_def printf_flags sign_text_def numeral_text_more numeral_text_digit
          zero div_less)
  next
    case 3
    with assms show ?thesis
      by (simp add: number_text_layout number_layout_def printf_flags sign_text_def numeral_text_more numeral_text_digit
          div_mult2_eq[symmetric])
  qed
qed

lemma unat_abs_i32: "\<bar>v\<bar> < 2 ^ 31 \<Longrightarrow> unat (abs_i32 v) = nat \<bar>v\<bar>"
proof -
  assume "\<bar>v\<bar> < 2 ^ 31"
  moreover have "abs_i32 v = of_nat (nat \<bar>v\<bar>)" by (cases "v < 0") (simp_all add: abs_i32_def)
  ultimately show ?thesis using unat_of_nat_small[of "nat \<bar>v\<bar>", where ?'a = 32] by simp
qed

lemma local_printf_eq:
  assumes "unat (stack_addr env) + length buf < 2 ^ 32" and t: "format_text fmt args = Done t"
    and "CHR 0x00 \<notin> set t" and "length t < length buf"
  shows "local_printf env buf fmt args = Done t"
proof -
  have n: "unat (of_nat (length buf) :: u32) = length buf"
    using assms(1) by (intro unat_of_nat_small) simp
  moreover have "(of_nat (length buf) :: u32) \<noteq> 0" using n assms(4) by (metis less_nat_zero_code unsigned_0)
  moreover have "takeWhile (\<lambda>c. c \<noteq> CHR 0x00) (t @ CHR 0x00 # xs) = t" for xs
    using assms(3) by (simp add: takeWhile_append)
  ultimately show ?thesis
    using rt_vsnprintf_text[of "of_nat (length buf)" buf "stack_addr env" fmt args] assms
    by (simp add: local_printf_def rt_snprintf_def c_string_def)
qed

lemma printf_flags_unset: "ZEROPAD AND SIGN = 0" "(0 :: u8) AND SIGN = 0"
  by (simp_all add: printf_flags)

lemma directive_digits:
  "is_digit CHR ''3''" "\<not> is_digit CHR ''c''" "\<not> is_digit CHR ''u''" "\<not> is_digit CHR ''s''" "\<not> is_digit CHR ''d''"
  by code_simp+

lemma number_text_digit: "unat n < 10 \<Longrightarrow> number_text n 10 (- 1) (- 1) 0 = [digit_char False (unat n)]"
  by (simp add: number_text_layout number_layout_def printf_flags sign_text_def numeral_text_digit)

lemma parse_plain:
  assumes "c \<in> {CHR ''c'', CHR ''u'', CHR ''s'', CHR ''d''}"
  shows "parse_directive (c # fmt) args = Done ((0, - 1, - 1, None), c # fmt, args)"
proof -
  have "\<not> is_digit c" using assms directive_digits by blast
  moreover have "c \<notin> set ''-+ #0*.hl''" using assms by fastforce
  ultimately show ?thesis
    by (simp add: parse_directive_def parse_width_def parse_precision_def parse_qualifier_def)
qed

lemma parse_03u:
  "parse_directive (CHR ''0'' # CHR ''3'' # CHR ''u'' # fmt) args = Done ((ZEROPAD, 3, - 1, None), CHR ''u'' # fmt, args)"
  by (simp add: parse_directive_def parse_width_def parse_precision_def parse_qualifier_def directive_digits printf_flags)

lemma sign_chars: "char_of (45 :: nat) = CHR ''-''" "char_of (43 :: nat) = CHR ''+''"
  by code_simp+

lemma zeropad: "ZEROPAD AND SIGN = 0"
  by (simp add: printf_flags)

lemma format_angle:
  assumes "\<bar>v\<bar> \<le> 9999"
  defines "m \<equiv> abs_i32 v"
  shows "format_text ''%c%03u.%u'' [sign_char v, CInt (m div 10), CInt (m mod 10)] = Done (angle_text v)"
proof -
  have m: "unat m = nat \<bar>v\<bar>" unfolding m_def using assms(1) by (intro unat_abs_i32) simp
  have d: "unat (m div 10) = nat \<bar>v\<bar> div 10" "unat (m mod 10) = nat \<bar>v\<bar> mod 10"
    by (simp_all add: unat_div unat_mod m)
  have "nat \<bar>v\<bar> div 10 < 1000" using assms(1) by linarith
  then have hi: "number_text (m div 10) 10 3 (- 1) ZEROPAD =
      map (digit_char False) [nat \<bar>v\<bar> div 1000, nat \<bar>v\<bar> div 100 mod 10, nat \<bar>v\<bar> div 10 mod 10]"
    by (subst number_text_03) (simp_all add: d div_mult2_eq[symmetric])
  have lo: "number_text (m mod 10) 10 (- 1) (- 1) 0 = [digit_char False (nat \<bar>v\<bar> mod 10)]"
    by (subst number_text_digit) (simp_all add: d)
  show ?thesis
    by (simp add: parse_plain parse_03u convert_text_def va_number_def sign_char_def fill_text_def number_conversion_eq printf_flags_unset hi lo
        angle_text_def Let_def sign_chars zeropad)
qed

section \<open>Sensor to display\<close>

definition attitude_lines :: "ms601m_attitude \<Rightarrow> string list" where
  "attitude_lines a =
     [''Ydrsail'', ''ANGLE SENSOR'',
      ''R '' @ angle_text (roll_tenth_degree a) @ '' P '' @ angle_text (pitch_tenth_degree a),
      ''Y '' @ angle_text (yaw_tenth_degree a)]"

definition angles_in_range :: "ms601m_attitude \<Rightarrow> bool" where
  "angles_in_range a \<longleftrightarrow> \<bar>roll_tenth_degree a\<bar> \<le> 9999 \<and> \<bar>pitch_tenth_degree a\<bar> \<le> 9999 \<and> \<bar>yaw_tenth_degree a\<bar> \<le> 9999"

text \<open>The buffers are those of the code and do not wrap around the end of the address space.\<close>

definition env_ok :: "'b sensor_env \<Rightarrow> 'b monitor \<Rightarrow> bool" where
  "env_ok env w \<longleftrightarrow> unat (stack_addr env) + 22 < 2 ^ 32 \<and> unat (log_addr env) + 256 < 2 ^ 32 \<and> length (rt_log_buf w) = 256"

definition arrays_ok :: "string \<times> string \<times> string \<Rightarrow> bool" where
  "arrays_ok arrays \<longleftrightarrow> (case arrays of (r, p, y) \<Rightarrow> length r = 7 \<and> length p = 7 \<and> length y = 7)"

lemma format_angle_value_eq:
  assumes "unat (stack_addr env) + 22 < 2 ^ 32" and "length buf = 7" and "\<bar>v\<bar> \<le> 9999"
  shows "format_angle_value env buf v = Done (angle_text v)"
  unfolding format_angle_value_def Let_def
  using assms by (intro local_printf_eq format_angle angle_text_no_null) simp_all

lemma format_R_P: "length a < 2 ^ 31 \<Longrightarrow> length b < 2 ^ 31 \<Longrightarrow> format_text ''R %s P %s'' [CStr (Some a), CStr (Some b)] = Done (''R '' @ a @ '' P '' @ b)"
  and format_Y: "length a < 2 ^ 31 \<Longrightarrow> format_text ''Y %s'' [CStr (Some a)] = Done (''Y '' @ a)"
  by (simp_all add: parse_plain convert_text_def fill_text_def)

lemma c_string_no_data:
  "c_string (''R NO DATA'' @ replicate 13 CHR 0x00) = Done ''R NO DATA''"
  "c_string (''Y NO DATA'' @ replicate 13 CHR 0x00) = Done ''Y NO DATA''"
  by (simp_all add: c_string_def)

lemma display_attitude_eq:
  assumes "env_ok env w" and "arrays_ok arrays" and "valid \<longrightarrow> angles_in_range a"
  shows "display_attitude env arrays a valid w =
    display_lines env (if valid then attitude_lines a else [''Ydrsail'', ''ANGLE SENSOR'', ''R NO DATA'', ''Y NO DATA'']) w"
proof -
  obtain r p y where arrays: "arrays = (r, p, y)" and len: "length r = 7" "length p = 7" "length y = 7"
    using assms(2) by (auto simp: arrays_ok_def split: prod.splits)
  have sp: "unat (stack_addr env) + 22 < 2 ^ 32" using assms(1) by (simp add: env_ok_def)
  show ?thesis
  proof (cases valid)
    case True
    with assms(3) have rng: "\<bar>roll_tenth_degree a\<bar> \<le> 9999" "\<bar>pitch_tenth_degree a\<bar> \<le> 9999" "\<bar>yaw_tenth_degree a\<bar> \<le> 9999"
      by (simp_all add: angles_in_range_def)
    have "local_printf env (''R NO DATA'' @ replicate 13 CHR 0x00) ''R %s P %s''
        [CStr (Some (angle_text (roll_tenth_degree a))), CStr (Some (angle_text (pitch_tenth_degree a)))] =
      Done (''R '' @ angle_text (roll_tenth_degree a) @ '' P '' @ angle_text (pitch_tenth_degree a))"
      using sp angle_text_no_null[OF rng(1)] angle_text_no_null[OF rng(2)]
      by (intro local_printf_eq) (simp_all add: format_R_P del: format_text.simps)
    moreover have "local_printf env (''Y NO DATA'' @ replicate 13 CHR 0x00) ''Y %s'' [CStr (Some (angle_text (yaw_tenth_degree a)))] =
      Done (''Y '' @ angle_text (yaw_tenth_degree a))"
      using sp angle_text_no_null[OF rng(3)] by (intro local_printf_eq) (simp_all add: format_Y del: format_text.simps)
    ultimately show ?thesis
      using True rng sp len by (simp add: display_attitude_def arrays format_angle_value_eq attitude_lines_def)
  next
    case False
    then show ?thesis by (simp only: display_attitude_def arrays c_string_no_data Let_def prod.case if_False exec_bind.simps)
  qed
qed

section \<open>The console\<close>

definition value_text :: "int \<Rightarrow> string" where
  "value_text v =
     (let m = nat \<bar>v\<bar>
      in (if v < 0 then CHR ''-'' else CHR ''+'') # numeral_text False 10 (m div 10) @ [CHR ''.'', digit_char False (m mod 10)])"

definition report_text :: "ms601m_attitude \<Rightarrow> string" where
  "report_text a =
     ''MS601M: roll='' @ value_text (roll_tenth_degree a) @ '' pitch='' @ value_text (pitch_tenth_degree a) @
     '' yaw='' @ value_text (yaw_tenth_degree a) @ '' deg'' @ [CHR 0x0A]"

definition int_text :: "int \<Rightarrow> string" where
  "int_text v = (if v < 0 then [CHR ''-''] else []) @ numeral_text False 10 (nat \<bar>v\<bar>)"

lemma number_text_u: "number_text n 10 (- 1) (- 1) 0 = numeral_text False 10 (unat n)"
  by (simp add: number_text_layout number_layout_def printf_flags sign_text_def)

lemma sint_of_int_u32: "- (2 ^ 31) \<le> v \<Longrightarrow> v < 2 ^ 31 \<Longrightarrow> sint (of_int v :: u32) = v"
  using signed_take_bit_int_eq_self[of 31 v] by (simp add: sint_sbintrunc')

lemma number_text_d:
  assumes "- (2 ^ 31) < v" and "v < 2 ^ 31"
  shows "number_text (of_int v) 10 (- 1) (- 1) SIGN = int_text v"
proof -
  have "sint (of_int v :: u32) = v" using assms by (intro sint_of_int_u32) simp_all
  then show ?thesis
    by (simp add: number_text_layout number_layout_def printf_flags sign_text_def int_text_def)
qed

lemma monitor_printf_eq:
  assumes "env_ok env w" and "format_text fmt args = Done t" and "length t \<le> 254"
  shows "\<exists>lb. monitor_printf env fmt args w = Done (w\<lparr>console := console w @ t, rt_log_buf := lb\<rparr>) \<and> length lb = 256"
proof -
  have lb: "length (rt_log_buf w) = 256" "unat (log_addr env) + 256 < 2 ^ 32"
    using assms(1,3) by (simp_all add: env_ok_def)
  then have "unat (log_addr env) + length t < 2 ^ 32" using assms(3) by linarith
  from rt_kprintf_text[OF lb assms(2) this] assms(3) show ?thesis
    by (auto simp: monitor_printf_def)
qed

lemma format_value:
  assumes "\<bar>v\<bar> \<le> 9999"
  defines "m \<equiv> abs_i32 v"
  shows "char_of (unat (if v < 0 then of_char CHR ''-'' else of_char CHR ''+'' :: u32)) #
      numeral_text False 10 (unat (m div 10)) @ CHR ''.'' # numeral_text False 10 (unat (m mod 10)) @ xs =
    value_text v @ xs"
proof -
  have m: "unat m = nat \<bar>v\<bar>" unfolding m_def using assms(1) by (intro unat_abs_i32) simp
  then show ?thesis
    by (simp add: unat_div unat_mod value_text_def Let_def sign_chars numeral_text_digit)
qed

lemma print_attitude_eq:
  assumes "env_ok env w" and "angles_in_range a"
  shows "\<exists>lb. print_attitude env a w = Done (w\<lparr>console := console w @ report_text a, rt_log_buf := lb\<rparr>) \<and> length lb = 256"
proof -
  have rng: "\<bar>roll_tenth_degree a\<bar> \<le> 9999" "\<bar>pitch_tenth_degree a\<bar> \<le> 9999" "\<bar>yaw_tenth_degree a\<bar> \<le> 9999"
    using assms(2) by (simp_all add: angles_in_range_def)
  have len: "length (value_text v) \<le> 6" if "\<bar>v\<bar> \<le> 9999" for v
    using that length_numeral_text[of 10 "nat \<bar>v\<bar> div 10" 2 False] by (simp add: value_text_def Let_def)
  show ?thesis
    unfolding print_attitude_def Let_def
    using assms(1) len[OF rng(1)] len[OF rng(2)] len[OF rng(3)]
    by (intro monitor_printf_eq)
      (simp_all add: parse_plain convert_text_def va_number_def sign_char_def fill_text_def number_conversion_eq
        printf_flags_unset number_text_u
        format_value rng report_text_def)
qed

section \<open>A refresh\<close>

text \<open>What no bus function touches, reading the sensor leaves alone.\<close>

lemma ms601m_loop_keeps:
  assumes "\<And>b n b'. bus_millis bus b = (n, b') \<Longrightarrow> f b' = f b"
    and "\<And>b r x b'. bus_uart1_getc bus b = (r, x, b') \<Longrightarrow> f b' = f b"
    and "\<And>k b. f (bus_delay_ms bus k b) = f b"
  shows "ms601m_loop fuel bus start timeout att p b = Done (r, a, b') \<Longrightarrow> f b' = f b"
proof (induction fuel arbitrary: p b)
  case (Suc fuel)
  obtain n b1 where m: "bus_millis bus b = (n, b1)" by fastforce
  obtain st x b2 where g: "bus_uart1_getc bus b1 = (st, x, b2)" by (metis surj_pair)
  have "f b1 = f b" "f b2 = f b1" "f (bus_delay_ms bus 1 b2) = f b2"
    using assms m g by blast+
  moreover have "f b' = f b1 \<or> f b' = f b2 \<or> f b' = f (bus_delay_ms bus 1 b2)"
  proof (cases "n - start < timeout \<and> st = YDRASIL_DRIVER_OK")
    case True
    with Suc.prems obtain c rr where "ms601m_byte c p = Done rr"
      and rest: "(case rr of Inr a \<Rightarrow> Done (YDRASIL_DRIVER_OK, a, b2)
        | Inl p' \<Rightarrow> ms601m_loop fuel bus start timeout att p' b2) = Done (r, a, b')"
      by (auto simp: m g exec_bind_Done_iff split: option.splits)
    then show ?thesis using Suc.IH by (cases rr) auto
  next
    case False
    then show ?thesis using Suc.prems Suc.IH[of p "bus_delay_ms bus 1 b2"] by (auto simp: m g split: if_splits)
  qed
  ultimately show ?case by metis
qed simp

lemma mock_read_framebuffer:
  assumes "ms601m_read_attitude fuel mock_bus junk (Some att) timeout m = Done (r, a, m')"
  shows "framebuffer m' = framebuffer m"
proof -
  have "ms601m_loop fuel mock_bus start timeout att p b = Done (r, a, b') \<Longrightarrow> framebuffer b' = framebuffer b"
    for start p b r a b'
    by (rule ms601m_loop_keeps) (auto simp: mock_bus_def mock_millis_def mock_uart1_getc_def mock_delay_ms_def split: if_splits)
  with assms show ?thesis
    by (auto simp: ms601m_read_attitude_def exec_bind_Done_iff Let_def mock_bus_def mock_millis_def mock_uart1_reset_def
        split: if_splits prod.splits)
qed

text \<open>Of the texts a refresh prints, and of the state it leaves, by what it read and what it showed.\<close>

definition report_due :: "sensor_refresh_state \<Rightarrow> bool \<Rightarrow> ms601m_attitude \<Rightarrow> u32 \<Rightarrow> bool" where
  "report_due s valid a now \<longleftrightarrow> valid \<and> (\<not> report_initialized s \<or>
     attitude_changed a (report_attitude s) \<and> now - report_last_ms s \<ge> 500)"

definition redraw_due :: "sensor_refresh_state \<Rightarrow> bool \<Rightarrow> ms601m_attitude \<Rightarrow> bool" where
  "redraw_due s valid a \<longleftrightarrow> \<not> display_initialized s \<or> display_attitude_valid s \<noteq> valid \<or>
     valid \<and> attitude_changed a (shown_attitude s)"

definition sampled :: "sensor_refresh_state \<Rightarrow> bool \<Rightarrow> sensor_refresh_state" where
  "sampled s valid = s\<lparr>sample_initialized := True, sample_attitude_valid := valid\<rparr>"

definition timeout_text :: "sensor_refresh_state \<Rightarrow> int \<Rightarrow> string" where
  "timeout_text s r =
     (if r \<noteq> YDRASIL_DRIVER_OK \<and> (\<not> sample_initialized s \<or> sample_attitude_valid s)
      then ''MS601M attitude timeout: '' @ int_text r @ [CHR 0x0A] else [])"

definition reported :: "sensor_refresh_state \<Rightarrow> bool \<Rightarrow> ms601m_attitude \<Rightarrow> u32 \<Rightarrow> sensor_refresh_state" where
  "reported s valid a now =
     (if report_due s valid a now then s\<lparr>report_attitude := a, report_last_ms := now, report_initialized := True\<rparr> else s)"

lemma length_int_text: "- (2 ^ 31) < v \<Longrightarrow> v < 2 ^ 31 \<Longrightarrow> length (int_text v) \<le> 11"
  using length_numeral_text[of 10 "nat \<bar>v\<bar>" 9 False] by (auto simp: int_text_def nat_less_iff)

lemma printf_int:
  assumes "env_ok env w" and "- (2 ^ 31) < v" and "v < 2 ^ 31"
    and "format_text fmt [CInt (of_int v)] = Done (pre @ int_text v @ post)" and "length pre + length post \<le> 200"
  shows "\<exists>lb. monitor_printf env fmt [CInt (of_int v)] w =
    Done (w\<lparr>console := console w @ pre @ int_text v @ post, rt_log_buf := lb\<rparr>) \<and> length lb = 256"
  using length_int_text[OF assms(2,3)] assms(5) by (intro monitor_printf_eq assms(1,4)) simp

lemma no_overflow_int: "- (2 ^ 31) < v \<Longrightarrow> v < 2 ^ 31 \<Longrightarrow> (of_int v :: u32) \<noteq> 2 ^ 31"
  using sint_of_int_u32[of v] by auto

lemma format_timeout:
  "- (2 ^ 31) < v \<Longrightarrow> v < 2 ^ 31 \<Longrightarrow>
     format_text (''MS601M attitude timeout: %d'' @ [CHR 0x0A]) [CInt (of_int v)] =
       Done (''MS601M attitude timeout: '' @ int_text v @ [CHR 0x0A])"
  and format_failed:
  "- (2 ^ 31) < v \<Longrightarrow> v < 2 ^ 31 \<Longrightarrow>
     format_text (''OLED update failed: %d'' @ [CHR 0x0A]) [CInt (of_int v)] =
       Done (''OLED update failed: '' @ int_text v @ [CHR 0x0A])"
  using no_overflow_int[of v] number_text_d[of v]
  by (simp_all add: parse_plain convert_text_def va_number_def number_conversion_eq)

definition no_data_lines :: "string list" where
  "no_data_lines = [''Ydrsail'', ''ANGLE SENSOR'', ''R NO DATA'', ''Y NO DATA'']"

lemma sampled_same: "sample_initialized s \<Longrightarrow> sample_attitude_valid s = valid \<Longrightarrow> sampled s valid = s"
  by (auto simp: sampled_def)

lemma report_due_sampled [simp]: "report_due (sampled s v) valid a now = report_due s valid a now"
  by (simp add: report_due_def sampled_def)

lemma env_ok_update [simp]:
  "env_ok env (w\<lparr>console := c\<rparr>) = env_ok env w" "env_ok env (w\<lparr>board := b\<rparr>) = env_ok env w"
  "length lb = 256 \<Longrightarrow> env_ok env w \<Longrightarrow> env_ok env (w\<lparr>rt_log_buf := lb\<rparr>)"
  by (simp_all add: env_ok_def)

lemma refresh_sensors_eq:
  fixes now :: u32 and s :: sensor_refresh_state
  assumes env: "env_ok env w" and arr: "arrays_ok arrays"
    and read: "ms601m_read_attitude fuel (env_bus env) junk (Some zero_attitude) 100 (board w) = Done (imu, Some a, b)"
    and imu: "- (2 ^ 31) < imu" "imu < 2 ^ 31" and ang: "imu = YDRASIL_DRIVER_OK \<longrightarrow> angles_in_range a"
  defines "valid \<equiv> imu = YDRASIL_DRIVER_OK"
  defines "s1 \<equiv> reported (sampled s valid) valid a now"
  shows "\<exists>lb. length lb = 256 \<and>
    (let w1 = w\<lparr>board := b, console := console w @ timeout_text s imu @ (if report_due s valid a now then report_text a else []),
                rt_log_buf := lb\<rparr>
     in refresh_sensors fuel env (junk, arrays) s now w =
       (if redraw_due s valid a then
          exec_bind (display_lines env (if valid then attitude_lines a else no_data_lines) w1) (\<lambda>(r, w2).
            if r \<noteq> YDRASIL_DRIVER_OK then
              exec_bind (monitor_printf env (''OLED update failed: %d'' @ [CHR 0x0A]) [CInt (of_int r)] w2) (\<lambda>w3. Done (r, s1, w3))
            else Done (YDRASIL_DRIVER_OK,
              (if valid then (\<lambda>s. s\<lparr>shown_attitude := a\<rparr>) else id)
                (s1\<lparr>display_initialized := True, display_attitude_valid := valid\<rparr>), w2))
        else Done (YDRASIL_DRIVER_OK, s1, w1)))"
proof -
  define w0 where "w0 = w\<lparr>board := b\<rparr>"
  have e0: "env_ok env w0" using env by (simp add: w0_def)
  have "\<exists>lb. length lb = 256 \<and>
    (if \<not> sample_initialized s \<or> sample_attitude_valid s \<noteq> valid then
       exec_bind (if \<not> valid then monitor_printf env (''MS601M attitude timeout: %d'' @ [CHR 0x0A]) [CInt (of_int imu)] w0
                  else Done w0) (\<lambda>w. Done (s\<lparr>sample_initialized := True, sample_attitude_valid := valid\<rparr>, w))
     else Done (s, w0)) = Done (sampled s valid, w0\<lparr>console := console w0 @ timeout_text s imu, rt_log_buf := lb\<rparr>)"
  proof (cases "\<not> valid \<and> (\<not> sample_initialized s \<or> sample_attitude_valid s)")
    case True
    with printf_int[OF e0 imu format_timeout[OF imu]] show ?thesis
      by (auto simp: timeout_text_def valid_def sampled_def)
  next
    case False
    have "timeout_text s imu = []" using False by (auto simp: timeout_text_def valid_def)
    with False e0 show ?thesis
      by (intro exI[of _ "rt_log_buf w0"]) (auto simp: sampled_def env_ok_def)
  qed
  then obtain lb1 where lb1: "length lb1 = 256" and first: "(if \<not> sample_initialized s \<or> sample_attitude_valid s \<noteq> valid then
       exec_bind (if \<not> valid then monitor_printf env (''MS601M attitude timeout: %d'' @ [CHR 0x0A]) [CInt (of_int imu)] w0
                  else Done w0) (\<lambda>w. Done (s\<lparr>sample_initialized := True, sample_attitude_valid := valid\<rparr>, w))
     else Done (s, w0)) = Done (sampled s valid, w0\<lparr>console := console w0 @ timeout_text s imu, rt_log_buf := lb1\<rparr>)"
    by blast
  define w1 where "w1 = w0\<lparr>console := console w0 @ timeout_text s imu, rt_log_buf := lb1\<rparr>"
  have e1: "env_ok env w1" using e0 lb1 by (simp add: w1_def)
  have "\<exists>lb. length lb = 256 \<and>
    (if report_due s valid a now then
       exec_bind (print_attitude env a w1) (\<lambda>w.
         Done ((sampled s valid)\<lparr>report_attitude := a, report_last_ms := now, report_initialized := True\<rparr>, w))
     else Done (sampled s valid, w1)) =
    Done (s1, w1\<lparr>console := console w1 @ (if report_due s valid a now then report_text a else []), rt_log_buf := lb\<rparr>)"
  proof (cases "report_due s valid a now")
    case True
    then have "angles_in_range a" using ang by (simp add: report_due_def valid_def)
    from print_attitude_eq[OF e1 this] True show ?thesis
      by (auto simp: s1_def reported_def)
  next
    case False
    with e1 show ?thesis
      by (intro exI[of _ "rt_log_buf w1"]) (auto simp: s1_def reported_def env_ok_def)
  qed
  then obtain lb2 where lb2: "length lb2 = 256" and second: "(if report_due s valid a now then
       exec_bind (print_attitude env a w1) (\<lambda>w.
         Done ((sampled s valid)\<lparr>report_attitude := a, report_last_ms := now, report_initialized := True\<rparr>, w))
     else Done (sampled s valid, w1)) =
    Done (s1, w1\<lparr>console := console w1 @ (if report_due s valid a now then report_text a else []), rt_log_buf := lb2\<rparr>)"
    by blast
  define w2 where "w2 = w1\<lparr>console := console w1 @ (if report_due s valid a now then report_text a else []), rt_log_buf := lb2\<rparr>"
  have w2: "w2 = w\<lparr>board := b, console := console w @ timeout_text s imu @
      (if report_due s valid a now then report_text a else []), rt_log_buf := lb2\<rparr>"
    by (simp add: w2_def w1_def w0_def)
  have "env_ok env w2" using e1 lb2 by (simp add: w2_def)
  note disp = display_attitude_eq[OF this arr ang[folded valid_def], folded no_data_lines_def]
  show ?thesis
    apply (rule exI[of _ lb2], rule conjI, rule lb2)
    unfolding Let_def w2[symmetric]
    unfolding refresh_sensors_def SENSOR_IMU_TIMEOUT_MS_def SENSOR_REPORT_PERIOD_MS_def fst_conv snd_conv read
      exec_bind.simps prod.case Let_def option.case valid_def[symmetric] w0_def[symmetric] first w1_def[symmetric]
      report_due_def[symmetric] redraw_due_def[symmetric]
    unfolding report_due_sampled second w2_def[symmetric] exec_bind.simps prod.case disp
    by (cases valid) (simp_all only: if_True if_False id_apply refl)
qed

text \<open>
  Showing the picture, and complaining when that fails: the console gets the complaint and
  nothing else, and the outcome is that of the display.
\<close>

definition failure_text :: "int \<Rightarrow> string" where
  "failure_text r = (if r \<noteq> YDRASIL_DRIVER_OK then ''OLED update failed: '' @ int_text r @ [CHR 0x0A] else [])"

lemma redraw_console:
  assumes "(if c then exec_bind (display_lines env ls w1) (\<lambda>(r, w2).
        if r \<noteq> YDRASIL_DRIVER_OK then
          exec_bind (monitor_printf env (''OLED update failed: %d'' @ [CHR 0x0A]) [CInt (of_int r)] w2) (\<lambda>w3. Done (r, s1, w3))
        else Done (YDRASIL_DRIVER_OK, s2, w2))
      else Done (YDRASIL_DRIVER_OK, s1, w1)) = Done (r, s', w')"
    and "env_ok env w1" and r: "- (2 ^ 31) < r" "r < 2 ^ 31"
  shows "console w' = console w1 @ failure_text r \<and>
    (if c then \<exists>d' b'. ssd1306_show_frame (env_bus env) (display w1) (map Some ls) (board w1) = Done (r, d', b')
     else r = YDRASIL_DRIVER_OK) \<and> (s' = s1 \<or> s' = s2)"
proof (cases c)
  case True
  with assms(1) obtain r1 d1 b1 where
    f: "ssd1306_show_frame (env_bus env) (display w1) (map Some ls) (board w1) = Done (r1, d1, b1)"
    by (auto simp: exec_bind_Done_iff display_lines_def)
  define w2 where "w2 = w1\<lparr>display := d1, board := b1\<rparr>"
  have e2: "env_ok env w2" using assms(2) by (simp add: w2_def env_ok_def)
  have run: "(if r1 \<noteq> YDRASIL_DRIVER_OK then
      exec_bind (monitor_printf env (''OLED update failed: %d'' @ [CHR 0x0A]) [CInt (of_int r1)] w2) (\<lambda>w3. Done (r1, s1, w3))
      else Done (YDRASIL_DRIVER_OK, s2, w2)) = Done (r, s', w')"
    using assms(1) True by (simp only: if_True display_lines_def f exec_bind.simps prod.case w2_def)
  have "r1 = r" using run by (auto simp: exec_bind_Done_iff split: if_splits)
  with run printf_int[OF e2 r format_failed[OF r]] f True show ?thesis
    by (auto simp: failure_text_def w2_def split: if_splits)
qed (use assms(1) in \<open>simp add: failure_text_def\<close>)

text \<open>C29. What the monitor prints: whatever the bus does, when a refresh reads the sensor with status
  \<open>imu\<close>, then, whether it ends well or not, the console gets the notice of a timeout with the status
  when the sensor has just been lost; then the attitude exactly when it is the first one, or has
  changed and 500 ms have passed since the last report; then, when the refresh fails, the line
  \<open>OLED update failed\<close> with the status; and nothing else. The refresh ends with the status of the
  picture it shows, which is drawn exactly when it is due. The state for the next refresh records
  the report. Statuses are values of \<open>int\<close> that have a negation.\<close>

theorem refresh_sensors_reports:
  assumes "env_ok env w" and "arrays_ok arrays"
    and "ms601m_read_attitude fuel (env_bus env) junk (Some zero_attitude) 100 (board w) = Done (imu, Some a, b)"
    and "- (2 ^ 31) < imu" and "imu < 2 ^ 31" and "imu = YDRASIL_DRIVER_OK \<longrightarrow> angles_in_range a"
    and "refresh_sensors fuel env (junk, arrays) s now w = Done (r, s', w')"
    and "- (2 ^ 31) < r" and "r < 2 ^ 31"
  shows "console w' = console w @ timeout_text s imu @
      (if report_due s (imu = YDRASIL_DRIVER_OK) a now then report_text a else []) @ failure_text r \<and>
    (if redraw_due s (imu = YDRASIL_DRIVER_OK) a
     then \<exists>d' b'. ssd1306_show_frame (env_bus env) (display w)
       (map Some (if imu = YDRASIL_DRIVER_OK then attitude_lines a else no_data_lines)) b = Done (r, d', b')
     else r = YDRASIL_DRIVER_OK) \<and>
    report_last_ms s' = (if report_due s (imu = YDRASIL_DRIVER_OK) a now then now else report_last_ms s) \<and>
    report_attitude s' = (if report_due s (imu = YDRASIL_DRIVER_OK) a now then a else report_attitude s) \<and>
    report_initialized s' = (report_initialized s \<or> imu = YDRASIL_DRIVER_OK) \<and>
    sample_initialized s' \<and> sample_attitude_valid s' = (imu = YDRASIL_DRIVER_OK)"
proof -
  let ?v = "imu = YDRASIL_DRIVER_OK"
  let ?s1 = "reported (sampled s ?v) ?v a now"
  let ?t = "timeout_text s imu @ (if report_due s ?v a now then report_text a else [])"
  have s1: "report_last_ms ?s1 = (if report_due s ?v a now then now else report_last_ms s)"
    "report_attitude ?s1 = (if report_due s ?v a now then a else report_attitude s)"
    "report_initialized ?s1 = (report_initialized s \<or> ?v)" "sample_initialized ?s1" "sample_attitude_valid ?s1 = ?v"
    by (auto simp: reported_def report_due_def sampled_def)
  from refresh_sensors_eq[OF assms(1-6), of s now] obtain lb where lb: "length lb = 256"
    and eq: "let w1 = w\<lparr>board := b, console := console w @ ?t, rt_log_buf := lb\<rparr>
     in refresh_sensors fuel env (junk, arrays) s now w =
       (if redraw_due s ?v a then
          exec_bind (display_lines env (if ?v then attitude_lines a else no_data_lines) w1) (\<lambda>(r, w2).
            if r \<noteq> YDRASIL_DRIVER_OK then
              exec_bind (monitor_printf env (''OLED update failed: %d'' @ [CHR 0x0A]) [CInt (of_int r)] w2) (\<lambda>w3. Done (r, ?s1, w3))
            else Done (YDRASIL_DRIVER_OK,
              (if ?v then (\<lambda>s. s\<lparr>shown_attitude := a\<rparr>) else id)
                (?s1\<lparr>display_initialized := True, display_attitude_valid := ?v\<rparr>), w2))
        else Done (YDRASIL_DRIVER_OK, ?s1, w1))" by blast
  let ?w1 = "w\<lparr>board := b, console := console w @ ?t, rt_log_buf := lb\<rparr>"
  let ?s2 = "(if ?v then (\<lambda>s. s\<lparr>shown_attitude := a\<rparr>) else id) (?s1\<lparr>display_initialized := True, display_attitude_valid := ?v\<rparr>)"
  have "env_ok env ?w1" using assms(1) lb by (simp add: env_ok_def)
  note shown = redraw_console[OF eq[unfolded Let_def assms(7), symmetric] this assms(8,9)]
  have w1: "display ?w1 = display w" "board ?w1 = b" "console ?w1 = console w @ ?t" by simp_all
  from shown have s': "s' = ?s1 \<or> s' = ?s2" by blast
  note shown = shown[unfolded w1, THEN conjunct1] shown[unfolded w1, THEN conjunct2, THEN conjunct1]
  from s' s1 have "report_last_ms s' = (if report_due s ?v a now then now else report_last_ms s)"
    "report_attitude s' = (if report_due s ?v a now then a else report_attitude s)"
    "report_initialized s' = (report_initialized s \<or> ?v)" "sample_initialized s'" "sample_attitude_valid s' = ?v"
    by (auto split: if_splits)
  with shown show ?thesis by (intro conjI) (simp_all only: append_assoc)
qed

lemma angles_in_range_attitude_of: "angles_in_range (attitude_of roll pitch yaw)"
  using attitude_tenth_degrees_sint[of roll] attitude_tenth_degrees_sint[of pitch] attitude_tenth_degrees_sint[of yaw]
  by (auto simp: angles_in_range_def attitude_of_def)

lemma env_ok_log: "env_ok env w \<Longrightarrow> rt_log_buf w' = lb \<Longrightarrow> length lb = 256 \<Longrightarrow> env_ok env w'"
  by (simp add: env_ok_def)

lemma refresh_on_mock:
  assumes "env_bus env = mock_bus" and "env_ok env w" and "arrays_ok arrays" and "length junk = 28"
    and "board w = mock_ms601m_set_attitude_raw roll pitch yaw m" and "length (uart_frame m) = 32" and "panel m"
    and "111 < fuel" and "redraw_due s True (attitude_of roll pitch yaw)"
  shows "\<exists>s' w'. refresh_sensors fuel env (junk, arrays) s now w = Done (YDRASIL_DRIVER_OK, s', w') \<and>
    (\<forall>i < 4. take 128 (drop (column_offset (display w)) (framebuffer (board w') ! (2 * i))) =
       centered_row (attitude_lines (attitude_of roll pitch yaw) ! i)) \<and>
    display_initialized s' \<and> display_attitude_valid s' \<and> shown_attitude s' = attitude_of roll pitch yaw \<and>
    env_ok env w'"
proof -
  let ?a = "attitude_of roll pitch yaw"
  have "11 + unat (100 :: u32) < fuel" using assms(8) by simp
  from mock_read_attitude[OF assms(6) _ assms(4) this, of zero_attitude roll pitch yaw] obtain b where
    read: "ms601m_read_attitude fuel mock_bus junk (Some zero_attitude) 100 (board w) = Done (YDRASIL_DRIVER_OK, Some ?a, b)"
    unfolding assms(5) by auto
  have "framebuffer b = framebuffer m"
    using mock_read_framebuffer[OF read] by (simp add: assms(5) mock_ms601m_set_attitude_raw_def Let_def)
  then have "panel b" using assms(7) by (simp add: panel_def)
  have "- (2 ^ 31) < YDRASIL_DRIVER_OK" "YDRASIL_DRIVER_OK < 2 ^ 31" by (simp_all add: driver_status)
  note refresh_sensors_eq[OF assms(2,3) read[folded assms(1)] this, of s now,
      unfolded simp_thms(6) if_True eqTrueI[OF assms(9)] Let_def]
  with angles_in_range_attitude_of obtain lb where lb: "length lb = 256"
    and eq: "refresh_sensors fuel env (junk, arrays) s now w =
        exec_bind (display_lines env (attitude_lines ?a) (w\<lparr>board := b,
          console := console w @ timeout_text s YDRASIL_DRIVER_OK @
            (if report_due s True ?a now then report_text ?a else []), rt_log_buf := lb\<rparr>)) (\<lambda>(r, w2).
          if r \<noteq> YDRASIL_DRIVER_OK then
            exec_bind (monitor_printf env (''OLED update failed: %d'' @ [CHR 0x0A]) [CInt (of_int r)] w2)
              (\<lambda>w3. Done (r, reported (sampled s True) True ?a now, w3))
          else Done (YDRASIL_DRIVER_OK,
            (reported (sampled s True) True ?a now)\<lparr>display_initialized := True, display_attitude_valid := True,
               shown_attitude := ?a\<rparr>, w2))"
    by blast
  have frame: "map Some (attitude_lines ?a) = [Some (attitude_lines ?a ! 0), Some (attitude_lines ?a ! 1),
      Some (attitude_lines ?a ! 2), Some (attitude_lines ?a ! 3)]"
    by (simp add: attitude_lines_def)
  from show_frame_displays[OF \<open>panel b\<close>] obtain d' m' where
    drawn: "ssd1306_show_frame mock_bus (display w) (map Some (attitude_lines ?a)) b = Done (YDRASIL_DRIVER_OK, d', m')"
    and pic: "\<forall>i < 4. take 128 (drop (column_offset (display w)) (framebuffer m' ! (2 * i))) =
       centered_row ([attitude_lines ?a ! 0, attitude_lines ?a ! 1, attitude_lines ?a ! 2, attitude_lines ?a ! 3] ! i)"
    unfolding frame by blast
  have "[attitude_lines ?a ! 0, attitude_lines ?a ! 1, attitude_lines ?a ! 2, attitude_lines ?a ! 3] = attitude_lines ?a"
    by (simp add: attitude_lines_def)
  with pic show ?thesis
    using eq assms(2) lb by (simp add: Let_def display_lines_def assms(1) drawn env_ok_def)
qed

text \<open>C28. From the wire to the picture: when the sensor of the simulated board sends an attitude that
  the display does not show yet, one refresh ends well, and then the panel shows the four centered
  lines with the name, the title, and roll, pitch and yaw with their sign, three digits, the point and
  one digit; the state records the attitude that is shown.\<close>

theorem refresh_shows_angles:
  assumes "env_bus env = mock_bus" and "env_ok env w" and "arrays_ok arrays" and "length junk = 28"
    and "board w = mock_ms601m_set_attitude_raw roll pitch yaw m" and "length (uart_frame m) = 32" and "panel m"
    and "111 < fuel" and "redraw_due s True (attitude_of roll pitch yaw)"
  shows "\<exists>s' w'. refresh_sensors fuel env (junk, arrays) s now w = Done (YDRASIL_DRIVER_OK, s', w') \<and>
    (\<forall>i < 4. take 128 (drop (column_offset (display w)) (framebuffer (board w') ! (2 * i))) =
       centered_row (attitude_lines (attitude_of roll pitch yaw) ! i)) \<and>
    display_initialized s' \<and> display_attitude_valid s' \<and> shown_attitude s' = attitude_of roll pitch yaw \<and>
    env_ok env w'"
  using assms by (rule refresh_on_mock)

definition sample_env :: "mock sensor_env" where
  "sample_env = \<lparr>env_bus = mock_bus, log_addr = 0x80100000, stack_addr = 0x80108000, others = id\<rparr>"

definition sample_monitor :: "mock monitor" where
  "sample_monitor =
     \<lparr>board = mock_ms601m_set_attitude_raw 16384 57344 4096 mock_monitor_reset, display = ssd1306_power_on, kern = kernel_bss,
      console = [], rt_log_buf = replicate 256 CHR 0x00, sensor_thread = None, sensor_stop_requested = False,
      display_startup_pending = False, display_startup_result = 0\<rparr>"

definition sample_arrays :: "string \<times> string \<times> string" where
  "sample_arrays = (replicate 7 CHR ''?'', replicate 7 CHR ''?'', replicate 7 CHR ''?'')"

lemma sample_ok:
  "env_bus sample_env = mock_bus" "env_ok sample_env (sample_monitor)" "arrays_ok sample_arrays"
  "board (sample_monitor) = mock_ms601m_set_attitude_raw 16384 57344 4096 mock_monitor_reset"
  "length (uart_frame mock_monitor_reset) = 32" "panel mock_monitor_reset"
  "redraw_due sensor_state_zero True a"
  by (simp_all add: sample_env_def sample_monitor_def env_ok_def sample_arrays_def arrays_ok_def mock_monitor_reset_def
      panel_def mock_consts redraw_due_def sensor_state_zero_def)

theorem refresh_shows_angles_witness:
  "\<exists>s' w'. refresh_sensors 200 sample_env (replicate 28 0, sample_arrays) sensor_state_zero 1000 (sample_monitor) =
      Done (YDRASIL_DRIVER_OK, s', w') \<and>
    (\<forall>i < 4. take 128 (drop (column_offset (display (sample_monitor))) (framebuffer (board w') ! (2 * i))) =
       centered_row (attitude_lines (attitude_of 16384 57344 4096) ! i)) \<and>
    display_initialized s' \<and> display_attitude_valid s' \<and> shown_attitude s' = attitude_of 16384 57344 4096 \<and>
    env_ok sample_env w'"
  by (rule refresh_shows_angles[OF sample_ok(1-3) _ sample_ok(4-6)]) (simp_all add: sample_ok(7))

text \<open>The same board with a display that does not answer.\<close>

definition deaf_env :: "mock sensor_env" where
  "deaf_env = sample_env\<lparr>env_bus := mock_bus\<lparr>bus_spi0_write := \<lambda>_ b. (YDRASIL_DRIVER_ETIMEOUT, b)\<rparr>\<rparr>"

lemma ms601m_loop_spi:
  "ms601m_loop fuel (bus\<lparr>bus_spi0_write := f\<rparr>) start timeout att p b = ms601m_loop fuel bus start timeout att p b"
proof (induction fuel arbitrary: p b)
  case (Suc fuel)
  then show ?case by (simp add: Let_def cong: if_cong option.case_cong sum.case_cong prod.case_cong)
qed simp

lemma deaf_frame:
  assumes "initialized d = 0"
  shows "\<exists>d' b'. ssd1306_show_frame (env_bus deaf_env) d [Some l0, Some l1, Some l2, Some l3] b =
    Done (YDRASIL_DRIVER_ETIMEOUT, d', b')"
  using assms render_lines_defined[of 0 "[Some l0, Some l1, Some l2, Some l3]" "replicate 8 (replicate 128 0)"]
  by (auto simp: ssd1306_show_frame_sent ssd1306_consts deaf_env_def sent_init_def oled_reset_and_configure_def
      oled_command_def oled_write_def Let_def driver_status)

lemma deaf_lines:
  assumes "initialized (display w) = 0" and "env_ok deaf_env w"
  shows "\<exists>w'. display_lines deaf_env (attitude_lines a) w = Done (YDRASIL_DRIVER_ETIMEOUT, w') \<and> env_ok deaf_env w'"
proof -
  obtain d' b' where "ssd1306_show_frame (env_bus deaf_env) (display w) (map Some (attitude_lines a)) (board w) =
      Done (YDRASIL_DRIVER_ETIMEOUT, d', b')"
    using deaf_frame[OF assms(1)] by (fastforce simp: attitude_lines_def)
  then show ?thesis using assms(2) by (simp add: display_lines_def env_ok_def)
qed

theorem refresh_sensors_reports_witness:
  "(\<exists>s' w'. refresh_sensors 200 sample_env (replicate 28 0, sample_arrays) sensor_state_zero 1000 sample_monitor =
      Done (YDRASIL_DRIVER_OK, s', w') \<and>
    console w' = report_text (attitude_of 16384 57344 4096) \<and> report_last_ms s' = 1000 \<and>
    report_attitude s' = attitude_of 16384 57344 4096) \<and>
   (\<exists>s' w'. refresh_sensors 200 deaf_env (replicate 28 0, sample_arrays) sensor_state_zero 1000 sample_monitor =
      Done (YDRASIL_DRIVER_ETIMEOUT, s', w') \<and>
    console w' = report_text (attitude_of 16384 57344 4096) @ ''OLED update failed: -3'' @ [CHR 0x0A])"
proof
  let ?a = "attitude_of 16384 57344 4096"
  obtain s' w' where run: "refresh_sensors 200 sample_env (replicate 28 0, sample_arrays) sensor_state_zero 1000 sample_monitor =
      Done (YDRASIL_DRIVER_OK, s', w')"
    using refresh_on_mock[OF sample_ok(1-3) _ sample_ok(4-6), of "replicate 28 0" 200 sensor_state_zero 1000]
    by (auto simp: sample_ok(7))
  obtain b where read: "ms601m_read_attitude 200 (env_bus sample_env) (replicate 28 0) (Some zero_attitude) 100 (board sample_monitor) =
      Done (YDRASIL_DRIVER_OK, Some ?a, b)"
    using mock_read_attitude[OF sample_ok(5), of 100 "replicate 28 0" 200 zero_attitude 16384 57344 4096]
    by (auto simp: sample_ok(1,4))
  have due: "report_due sensor_state_zero True ?a 1000" "console sample_monitor = []"
      "timeout_text sensor_state_zero YDRASIL_DRIVER_OK = []"
    by (simp_all add: report_due_def sensor_state_zero_def sample_monitor_def timeout_text_def)
  from refresh_sensors_reports[OF sample_ok(2,3) read _ _ _ run] run
  show "\<exists>s' w'. refresh_sensors 200 sample_env (replicate 28 0, sample_arrays) sensor_state_zero 1000 sample_monitor =
      Done (YDRASIL_DRIVER_OK, s', w') \<and>
    console w' = report_text ?a \<and> report_last_ms s' = 1000 \<and> report_attitude s' = ?a"
    using due angles_in_range_attitude_of by (auto simp: driver_status failure_text_def)
  have env: "env_ok deaf_env sample_monitor" using sample_ok(2) by (simp add: env_ok_def deaf_env_def)
  have deaf: "ms601m_read_attitude 200 (env_bus deaf_env) (replicate 28 0) (Some zero_attitude) 100 (board sample_monitor) =
      Done (YDRASIL_DRIVER_OK, Some ?a, b)"
    using read by (simp add: ms601m_read_attitude_def deaf_env_def sample_ok(1) ms601m_loop_spi)
  have "- (2 ^ 31) < YDRASIL_DRIVER_OK" "YDRASIL_DRIVER_OK < 2 ^ 31" by (simp_all add: driver_status)
  note eq = refresh_sensors_eq[OF env sample_ok(3) deaf this, of sensor_state_zero 1000,
      unfolded simp_thms(6) if_True eqTrueI[OF sample_ok(7)] Let_def]
  with angles_in_range_attitude_of obtain lb where lb: "length lb = 256"
    and eq: "refresh_sensors 200 deaf_env (replicate 28 0, sample_arrays) sensor_state_zero 1000 sample_monitor =
        exec_bind (display_lines deaf_env (attitude_lines ?a) (sample_monitor\<lparr>board := b,
          console := console sample_monitor @ timeout_text sensor_state_zero YDRASIL_DRIVER_OK @
            (if report_due sensor_state_zero True ?a 1000 then report_text ?a else []), rt_log_buf := lb\<rparr>)) (\<lambda>(r, w2).
          if r \<noteq> YDRASIL_DRIVER_OK then
            exec_bind (monitor_printf deaf_env (''OLED update failed: %d'' @ [CHR 0x0A]) [CInt (of_int r)] w2)
              (\<lambda>w3. Done (r, reported (sampled sensor_state_zero True) True ?a 1000, w3))
          else Done (YDRASIL_DRIVER_OK,
            (reported (sampled sensor_state_zero True) True ?a 1000)\<lparr>display_initialized := True, display_attitude_valid := True,
               shown_attitude := ?a\<rparr>, w2))"
    by blast
  obtain w2 where shown: "display_lines deaf_env (attitude_lines ?a) (sample_monitor\<lparr>board := b,
          console := console sample_monitor @ timeout_text sensor_state_zero YDRASIL_DRIVER_OK @
            (if report_due sensor_state_zero True ?a 1000 then report_text ?a else []), rt_log_buf := lb\<rparr>) =
      Done (YDRASIL_DRIVER_ETIMEOUT, w2)" and w2: "env_ok deaf_env w2"
    using deaf_lines[of "sample_monitor\<lparr>board := b,
          console := console sample_monitor @ timeout_text sensor_state_zero YDRASIL_DRIVER_OK @
            (if report_due sensor_state_zero True ?a 1000 then report_text ?a else []), rt_log_buf := lb\<rparr>" ?a] env lb
    by (auto simp: sample_monitor_def ssd1306_power_on_def env_ok_def)
  have status: "- (2 ^ 31) < YDRASIL_DRIVER_ETIMEOUT" "YDRASIL_DRIVER_ETIMEOUT < 2 ^ 31"
    "YDRASIL_DRIVER_ETIMEOUT \<noteq> YDRASIL_DRIVER_OK" by (simp_all add: driver_status)
  obtain s' w' where run: "refresh_sensors 200 deaf_env (replicate 28 0, sample_arrays) sensor_state_zero 1000 sample_monitor =
      Done (YDRASIL_DRIVER_ETIMEOUT, s', w')"
    using printf_int[OF w2 status(1,2) format_failed[OF status(1,2)]] status(3) unfolding eq shown by auto
  from refresh_sensors_reports[OF env sample_ok(3) deaf _ _ _ run] run due
  show "\<exists>s' w'. refresh_sensors 200 deaf_env (replicate 28 0, sample_arrays) sensor_state_zero 1000 sample_monitor =
      Done (YDRASIL_DRIVER_ETIMEOUT, s', w') \<and>
    console w' = report_text ?a @ ''OLED update failed: -3'' @ [CHR 0x0A]"
    using angles_in_range_attitude_of by (auto simp: driver_status failure_text_def int_text_def numeral_text_digit digit_char_def)
qed

end
