(* ===== verification/Heap.thy ===== *)
theory Heap
  imports Rt_Def
begin

text \<open>
  The small-memory allocator \<^verbatim>\<open>rt-thread-nano-3.1.5/src/mem.c\<close>. The heap is cut into blocks,
  each a header of 16 bytes and its contents; the headers link a block to the next and the previous
  one. A pointer into the heap is an offset from \<open>heap_ptr\<close>; headers and contents are kept
  apart: that no header lies in the contents of a block is part of the invariant. The semaphore makes
  each call one step; hooks and the complaint about a bad block are left out. The walk along the
  blocks has fuel: the invariant says how much is enough.
\<close>

section \<open>The code\<close>

definition HEAP_MAGIC :: u16 where [code_unfold]: "HEAP_MAGIC = 0x1ea0"
definition MIN_SIZE :: u32 where [code_unfold]: "MIN_SIZE = 12"

definition RT_ALIGN_DOWN :: "u32 \<Rightarrow> u32 \<Rightarrow> u32" where
  "RT_ALIGN_DOWN sz align = sz AND NOT (align - 1)"

text \<open>\<open>sizeof(struct heap_mem)\<close> is 12.\<close>

definition MIN_SIZE_ALIGNED :: u32 where "MIN_SIZE_ALIGNED = RT_ALIGN MIN_SIZE RT_ALIGN_SIZE"
definition SIZEOF_STRUCT_MEM :: u32 where "SIZEOF_STRUCT_MEM = RT_ALIGN 12 RT_ALIGN_SIZE"

record heap_mem =
  magic :: u16
  used :: u16
  mem_next :: u32
  mem_prev :: u32

record heap =
  heap_ptr :: u32
  heap_end :: u32
  lfree :: u32
  mem_size_aligned :: u32
  used_mem :: u32
  max_mem :: u32
  blocks :: "u32 \<Rightarrow> heap_mem"
  contents :: "u32 \<Rightarrow> u8"

definition upd_block :: "u32 \<Rightarrow> (heap_mem \<Rightarrow> heap_mem) \<Rightarrow> heap \<Rightarrow> heap" where
  "upd_block p f h = h\<lparr>blocks := (blocks h)(p := f (blocks h p))\<rparr>"

definition plug_holes :: "u32 \<Rightarrow> heap \<Rightarrow> heap" where
  "plug_holes mem h =
     (let nmem = mem_next (blocks h mem);
          h = (if mem \<noteq> nmem \<and> used (blocks h nmem) = 0 \<and> nmem \<noteq> heap_end h then
                 (let h = (if lfree h = nmem then h\<lparr>lfree := mem\<rparr> else h);
                      h = upd_block mem (\<lambda>b. b\<lparr>mem_next := mem_next (blocks h nmem)\<rparr>) h
                  in upd_block (mem_next (blocks h nmem)) (\<lambda>b. b\<lparr>mem_prev := mem\<rparr>) h)
               else h);
          pmem = mem_prev (blocks h mem)
      in if pmem \<noteq> mem \<and> used (blocks h pmem) = 0 then
           (let h = (if lfree h = mem then h\<lparr>lfree := pmem\<rparr> else h);
                h = upd_block pmem (\<lambda>b. b\<lparr>mem_next := mem_next (blocks h mem)\<rparr>) h
            in upd_block (mem_next (blocks h mem)) (\<lambda>b. b\<lparr>mem_prev := pmem\<rparr>) h)
         else h)"

definition rt_system_heap_init :: "u32 \<Rightarrow> u32 \<Rightarrow> heap \<Rightarrow> heap" where
  "rt_system_heap_init begin_addr end_addr h =
     (let begin_align = RT_ALIGN begin_addr RT_ALIGN_SIZE;
          end_align = RT_ALIGN_DOWN end_addr RT_ALIGN_SIZE
      in if end_align > 2 * SIZEOF_STRUCT_MEM \<and> end_align - 2 * SIZEOF_STRUCT_MEM \<ge> begin_align then
           (let h = h\<lparr>mem_size_aligned := end_align - begin_align - 2 * SIZEOF_STRUCT_MEM, heap_ptr := begin_align\<rparr>;
                last = mem_size_aligned h + SIZEOF_STRUCT_MEM;
                h = upd_block 0 (\<lambda>b. b\<lparr>magic := HEAP_MAGIC, mem_next := last, mem_prev := 0, used := 0\<rparr>) h;
                h = h\<lparr>heap_end := last\<rparr>;
                h = upd_block last (\<lambda>b. b\<lparr>magic := HEAP_MAGIC, used := 1, mem_next := last, mem_prev := last\<rparr>) h
            in h\<lparr>lfree := 0\<rparr>)
         else h)"

text \<open>The search of \<open>rt_malloc\<close> from \<open>ptr\<close> on.\<close>

fun malloc_search :: "nat \<Rightarrow> u32 \<Rightarrow> u32 \<Rightarrow> heap \<Rightarrow> u32 option exec" where
  "malloc_search 0 sz ptr h = Out_Of_Fuel"
| "malloc_search (Suc fuel) sz ptr h =
     (if ptr < mem_size_aligned h - sz then
        if used (blocks h ptr) = 0 \<and> mem_next (blocks h ptr) - (ptr + SIZEOF_STRUCT_MEM) \<ge> sz then Done (Some ptr)
        else malloc_search fuel sz (mem_next (blocks h ptr)) h
      else Done None)"

text \<open>\<open>while (lfree->used && lfree != heap_end)\<close>.\<close>

fun advance_lfree :: "nat \<Rightarrow> heap \<Rightarrow> heap exec" where
  "advance_lfree 0 h = Out_Of_Fuel"
| "advance_lfree (Suc fuel) h =
     (if used (blocks h (lfree h)) \<noteq> 0 \<and> lfree h \<noteq> heap_end h
      then advance_lfree fuel (h\<lparr>lfree := mem_next (blocks h (lfree h))\<rparr>)
      else Done h)"

definition count_used :: "u32 \<Rightarrow> heap \<Rightarrow> heap" where
  "count_used n h =
     (let h = h\<lparr>used_mem := used_mem h + n\<rparr>
      in if max_mem h < used_mem h then h\<lparr>max_mem := used_mem h\<rparr> else h)"

text \<open>The cut of a block at \<open>ptr2\<close> into two.\<close>

definition split_block :: "u32 \<Rightarrow> u32 \<Rightarrow> heap \<Rightarrow> heap" where
  "split_block ptr ptr2 h =
     (let h = upd_block ptr2 (\<lambda>b. b\<lparr>magic := HEAP_MAGIC, used := 0, mem_next := mem_next (blocks h ptr), mem_prev := ptr\<rparr>) h;
          h = upd_block ptr (\<lambda>b. b\<lparr>mem_next := ptr2\<rparr>) h
      in if mem_next (blocks h ptr2) \<noteq> mem_size_aligned h + SIZEOF_STRUCT_MEM
         then upd_block (mem_next (blocks h ptr2)) (\<lambda>b. b\<lparr>mem_prev := ptr2\<rparr>) h else h)"

definition malloc_take :: "u32 \<Rightarrow> u32 \<Rightarrow> heap \<Rightarrow> heap" where
  "malloc_take sz ptr h =
     (let h = (if mem_next (blocks h ptr) - (ptr + SIZEOF_STRUCT_MEM) \<ge> sz + SIZEOF_STRUCT_MEM + MIN_SIZE_ALIGNED then
                 count_used (sz + SIZEOF_STRUCT_MEM)
                   (upd_block ptr (\<lambda>b. b\<lparr>used := 1\<rparr>) (split_block ptr (ptr + SIZEOF_STRUCT_MEM + sz) h))
               else
                 (let h = upd_block ptr (\<lambda>b. b\<lparr>used := 1\<rparr>) h
                  in count_used (mem_next (blocks h ptr) - ptr) h))
      in upd_block ptr (\<lambda>b. b\<lparr>magic := HEAP_MAGIC\<rparr>) h)"

definition rt_malloc :: "nat \<Rightarrow> u32 \<Rightarrow> heap \<Rightarrow> (u32 option \<times> heap) exec" where
  "rt_malloc fuel sz h =
     (if sz = 0 then Done (None, h)
      else
        (let sz = RT_ALIGN sz RT_ALIGN_SIZE in
         if sz > mem_size_aligned h then Done (None, h)
         else
           (let sz = (if sz < MIN_SIZE_ALIGNED then MIN_SIZE_ALIGNED else sz) in
            exec_bind (malloc_search fuel sz (lfree h) h) (\<lambda>found.
              case found of
                None \<Rightarrow> Done (None, h)
              | Some ptr \<Rightarrow>
                  exec_bind (let h = malloc_take sz ptr h in if ptr = lfree h then advance_lfree fuel h else Done h)
                    (\<lambda>h. Done (Some (heap_ptr h + ptr + SIZEOF_STRUCT_MEM), h))))))"

text \<open>Whether a pointer lies in the heap, and the block it is the contents of.\<close>

definition in_heap :: "heap \<Rightarrow> u32 \<Rightarrow> bool" where
  "in_heap h rmem \<longleftrightarrow> \<not> (rmem < heap_ptr h \<or> rmem \<ge> heap_ptr h + heap_end h)"

definition block_of :: "heap \<Rightarrow> u32 \<Rightarrow> u32" where
  "block_of h rmem = rmem - SIZEOF_STRUCT_MEM - heap_ptr h"

definition rt_free :: "u32 option \<Rightarrow> heap \<Rightarrow> heap" where
  "rt_free rmem h =
     (case rmem of
        None \<Rightarrow> h
      | Some rmem \<Rightarrow>
          if \<not> in_heap h rmem then h
          else
            (let mem = block_of h rmem;
                 h = upd_block mem (\<lambda>b. b\<lparr>used := 0, magic := HEAP_MAGIC\<rparr>) h;
                 h = (if mem < lfree h then h\<lparr>lfree := mem\<rparr> else h);
                 h = h\<lparr>used_mem := used_mem h - (mem_next (blocks h mem) - mem)\<rparr>
             in plug_holes mem h))"

text \<open>\<open>memcpy\<close> and \<open>memset\<close> on the contents, at addresses.\<close>

definition copy_bytes :: "u32 \<Rightarrow> u32 \<Rightarrow> u32 \<Rightarrow> heap \<Rightarrow> heap" where
  "copy_bytes dst src n h =
     h\<lparr>contents := (\<lambda>a. if a - dst < n then contents h (src + (a - dst)) else contents h a)\<rparr>"

definition zero_bytes :: "u32 \<Rightarrow> u32 \<Rightarrow> heap \<Rightarrow> heap" where
  "zero_bytes dst n h = h\<lparr>contents := (\<lambda>a. if a - dst < n then 0 else contents h a)\<rparr>"

definition rt_realloc :: "nat \<Rightarrow> u32 option \<Rightarrow> u32 \<Rightarrow> heap \<Rightarrow> (u32 option \<times> heap) exec" where
  "rt_realloc fuel rmem newsize h =
     (let newsize = RT_ALIGN newsize RT_ALIGN_SIZE in
      if newsize > mem_size_aligned h then Done (None, h)
      else if newsize = 0 then Done (None, rt_free rmem h)
      else
        (case rmem of
           None \<Rightarrow> rt_malloc fuel newsize h
         | Some rm \<Rightarrow>
             if \<not> in_heap h rm then Done (Some rm, h)
             else
               (let ptr = block_of h rm;
                    sz = mem_next (blocks h ptr) - ptr - SIZEOF_STRUCT_MEM
                in if sz = newsize then Done (Some rm, h)
                   else if newsize + SIZEOF_STRUCT_MEM + MIN_SIZE < sz then
                     (let h = h\<lparr>used_mem := used_mem h - (sz - newsize)\<rparr>;
                          ptr2 = ptr + SIZEOF_STRUCT_MEM + newsize;
                          h = split_block ptr ptr2 h;
                          h = (if ptr2 < lfree h then h\<lparr>lfree := ptr2\<rparr> else h)
                      in Done (Some rm, plug_holes ptr2 h))
                   else
                     exec_bind (rt_malloc fuel newsize h) (\<lambda>(nmem, h).
                       case nmem of
                         None \<Rightarrow> Done (None, h)
                       | Some nm \<Rightarrow>
                           Done (Some nm, rt_free (Some rm) (copy_bytes nm rm (if sz < newsize then sz else newsize) h))))))"

definition rt_calloc :: "nat \<Rightarrow> u32 \<Rightarrow> u32 \<Rightarrow> heap \<Rightarrow> (u32 option \<times> heap) exec" where
  "rt_calloc fuel count sz h =
     exec_bind (rt_malloc fuel (count * sz) h) (\<lambda>(p, h).
       Done (p, case p of None \<Rightarrow> h | Some p \<Rightarrow> zero_bytes p (count * sz) h))"

definition rt_memory_info :: "heap \<Rightarrow> u32 \<times> u32 \<times> u32" where
  "rt_memory_info h = (mem_size_aligned h, used_mem h, max_mem h)"

section \<open>The layout of the heap\<close>

lemma heap_sizes:
  "SIZEOF_STRUCT_MEM = 16" "MIN_SIZE_ALIGNED = 16" "RT_ALIGN_SIZE = 16" "MIN_SIZE = 12"
  by (simp_all add: SIZEOF_STRUCT_MEM_def MIN_SIZE_ALIGNED_def RT_ALIGN_def RT_ALIGN_SIZE_def MIN_SIZE_def)

abbreviation nx :: "heap \<Rightarrow> u32 \<Rightarrow> u32" where "nx h p \<equiv> mem_next (blocks h p)"

text \<open>
  \<open>P\<close> are the positions of the headers, with the one at the end: the links go to the neighbours,
  every block has room for 16 bytes, and positions and sizes are multiples of 16.
\<close>

definition layout :: "heap \<Rightarrow> u32 set \<Rightarrow> bool" where
  "layout h P \<longleftrightarrow>
     heap_end h = mem_size_aligned h + 16 \<and> unat (heap_end h) = unat (mem_size_aligned h) + 16 \<and>
     unat (heap_ptr h) + unat (heap_end h) + 16 \<le> 2 ^ 32 \<and> 16 dvd unat (heap_ptr h) \<and> 16 \<le> unat (heap_ptr h) \<and>
     0 \<in> P \<and> heap_end h \<in> P \<and> (\<forall>p\<in>P. p \<le> heap_end h \<and> 16 dvd unat p) \<and>
     (\<forall>p\<in>P. p < heap_end h \<longrightarrow> nx h p \<in> P \<and> unat p + 32 \<le> unat (nx h p) \<and> (\<forall>q\<in>P. q \<le> p \<or> nx h p \<le> q)) \<and>
     (\<forall>p\<in>P. p < heap_end h \<longrightarrow> nx h p < heap_end h \<longrightarrow> mem_prev (blocks h (nx h p)) = p) \<and>
     mem_prev (blocks h 0) = 0 \<and> nx h (heap_end h) = heap_end h"

lemma layoutD:
  assumes "layout h P"
  shows "heap_end h = mem_size_aligned h + 16" "unat (heap_end h) = unat (mem_size_aligned h) + 16"
    "unat (heap_ptr h) + unat (heap_end h) + 16 \<le> 2 ^ 32" "0 \<in> P" "heap_end h \<in> P"
    "p \<in> P \<Longrightarrow> p \<le> heap_end h" "p \<in> P \<Longrightarrow> 16 dvd unat p"
    "p \<in> P \<Longrightarrow> p < heap_end h \<Longrightarrow> nx h p \<in> P"
    "p \<in> P \<Longrightarrow> p < heap_end h \<Longrightarrow> unat p + 32 \<le> unat (nx h p)"
    "p \<in> P \<Longrightarrow> p < heap_end h \<Longrightarrow> q \<in> P \<Longrightarrow> p < q \<Longrightarrow> nx h p \<le> q"
    "p \<in> P \<Longrightarrow> p < heap_end h \<Longrightarrow> nx h p < heap_end h \<Longrightarrow> mem_prev (blocks h (nx h p)) = p"
    "mem_prev (blocks h 0) = 0" "nx h (heap_end h) = heap_end h"
  using assms unfolding layout_def by (blast | metis not_less)+

lemma layout_base: "layout h P \<Longrightarrow> 16 dvd unat (heap_ptr h)" "layout h P \<Longrightarrow> 16 \<le> unat (heap_ptr h)"
  by (simp_all add: layout_def)

lemma layout_less:
  assumes "layout h P" and "p \<in> P" and "p < heap_end h"
  shows "p < nx h p" "nx h p \<le> heap_end h"
  using layoutD(9)[OF assms] layoutD(6)[OF assms(1) layoutD(8)[OF assms]] by (simp_all add: word_less_nat_alt)

lemma layout_gap: "layout h P \<Longrightarrow> p \<in> P \<Longrightarrow> p < heap_end h \<Longrightarrow> q \<in> P \<Longrightarrow> q \<le> p \<or> nx h p \<le> q"
  by (simp add: layout_def)

text \<open>The layout is that of the fields it mentions.\<close>

lemma layout_cong:
  assumes "layout h P" and "heap_end h' = heap_end h" and "mem_size_aligned h' = mem_size_aligned h"
    and "heap_ptr h' = heap_ptr h"
    and "\<And>p. nx h' p = nx h p" and "\<And>p. mem_prev (blocks h' p) = mem_prev (blocks h p)"
  shows "layout h' P"
  using assms(1) unfolding layout_def assms(2-)  .

lemma upd_block_simps [simp]:
  "blocks (upd_block p f h) = (blocks h)(p := f (blocks h p))"
  "heap_ptr (upd_block p f h) = heap_ptr h" "heap_end (upd_block p f h) = heap_end h"
  "lfree (upd_block p f h) = lfree h" "mem_size_aligned (upd_block p f h) = mem_size_aligned h"
  "used_mem (upd_block p f h) = used_mem h" "max_mem (upd_block p f h) = max_mem h"
  "contents (upd_block p f h) = contents h"
  by (simp_all add: upd_block_def)

text \<open>Two blocks share no byte.\<close>

lemma layout_apart:
  assumes "layout h P" and "p \<in> P" and "q \<in> P" and "p < heap_end h" and "q < heap_end h" and "p \<noteq> q"
  shows "{unat p..<unat (nx h p)} \<inter> {unat q..<unat (nx h q)} = {}"
proof (cases "p < q")
  case True
  with layoutD(10)[OF assms(1,2,4,3)] have "unat (nx h p) \<le> unat q" by (simp add: word_le_nat_alt)
  then show ?thesis by auto
next
  case False
  with assms(6) have "q < p" by simp
  with layoutD(10)[OF assms(1,3,5,2)] have "unat (nx h q) \<le> unat p" by (simp add: word_le_nat_alt)
  then show ?thesis by auto
qed

text \<open>Merging a block with the next one.\<close>

definition merge_next :: "u32 \<Rightarrow> heap \<Rightarrow> heap" where
  "merge_next p h = (let n = nx h p; h = upd_block p (\<lambda>b. b\<lparr>mem_next := nx h n\<rparr>) h
                     in upd_block (nx h n) (\<lambda>b. b\<lparr>mem_prev := p\<rparr>) h)"

lemma merge_layout:
  assumes lay: "layout h P" and p: "p \<in> P" "p < heap_end h" and n: "nx h p < heap_end h"
  defines "m \<equiv> nx h p"
  shows "layout (merge_next p h) (P - {m})"
    and "nx (merge_next p h) q = (if q = p then nx h m else nx h q)"
    and "used (blocks (merge_next p h) q) = used (blocks h q)"
proof -
  have pm: "p < m" "m \<in> P" "m < heap_end h" using layout_less[OF lay p] layoutD(8)[OF lay p] n by (simp_all add: m_def)
  note mn = layout_less[OF lay pm(2,3)]
  let ?h = "merge_next p h"
  show nx: "nx ?h q = (if q = p then nx h m else nx h q)" for q
    using pm mn by (auto simp: merge_next_def Let_def m_def)
  show "used (blocks ?h q) = used (blocks h q)" by (simp add: merge_next_def Let_def)
  have pr: "mem_prev (blocks ?h q) = (if q = nx h m then p else mem_prev (blocks h q))" for q
    using pm mn by (auto simp: merge_next_def Let_def m_def)
  have ends: "heap_end ?h = heap_end h" "mem_size_aligned ?h = mem_size_aligned h" "heap_ptr ?h = heap_ptr h"
    by (simp_all add: merge_next_def Let_def)
  have "nx h q \<noteq> m" if "q \<in> P" "q \<noteq> p" "q < heap_end h" for q
  proof
    assume "nx h q = m"
    then have "mem_prev (blocks h m) = q" using layoutD(11)[OF lay that(1,3)] pm(3) by simp
    moreover have "mem_prev (blocks h m) = p" using layoutD(11)[OF lay p] pm(3) by (simp add: m_def)
    ultimately show False using that(2) by simp
  qed
  note other = this
  have step: "nx ?h q \<in> P - {m} \<and> unat q + 32 \<le> unat (nx ?h q) \<and> (\<forall>r\<in>P - {m}. r \<le> q \<or> nx ?h q \<le> r)"
    if q: "q \<in> P - {m}" "q < heap_end h" for q
  proof (cases "q = p")
    case True
    have "nx h m \<le> r" if "r \<in> P - {m}" "\<not> r \<le> p" for r
      using layoutD(10)[OF lay p, of r] layoutD(10)[OF lay pm(2,3), of r] that by (auto simp: m_def not_le order_le_less)
    moreover have "nx h m \<in> P" "nx h m \<noteq> m" using layoutD(8)[OF lay pm(2,3)] mn by auto
    moreover have "unat p + 32 \<le> unat (nx h m)"
      using layoutD(9)[OF lay p] layoutD(9)[OF lay pm(2,3)] by (simp add: m_def)
    ultimately show ?thesis using True by (auto simp: nx)
  next
    case False
    have "q \<in> P" using q by simp
    from layoutD(8,9)[OF lay this q(2)] layout_gap[OF lay this q(2)] other[OF this False q(2)] show ?thesis
      using False by (simp add: nx)
  qed
  have links: "mem_prev (blocks ?h (nx ?h q)) = q" if q: "q \<in> P - {m}" "q < heap_end h" "nx ?h q < heap_end h" for q
  proof (cases "q = p")
    case False
    have "nx h q \<noteq> nx h m"
    proof
      assume eq: "nx h q = nx h m"
      have "nx h q < heap_end h" "q \<in> P" using q False by (simp_all add: nx)
      note lt = this
      have "mem_prev (blocks h (nx h q)) = q" by (rule layoutD(11)[OF lay lt(2) q(2) lt(1)])
      moreover have "mem_prev (blocks h (nx h m)) = m" by (rule layoutD(11)[OF lay pm(2,3)]) (rule lt(1)[unfolded eq])
      moreover have "q \<noteq> m" using q(1) by blast
      ultimately show False unfolding eq by metis
    qed
    with False q show ?thesis using layoutD(11)[OF lay, of q] by (simp add: nx pr)
  qed (simp add: nx pr)
  have "m \<noteq> 0" "nx h m \<noteq> 0" using pm mn by (auto simp: word_less_nat_alt)
  then show "layout ?h (P - {m})"
    using lay pm p step links unfolding layout_def ends by (auto simp: nx pr)
qed

text \<open>Cutting a block in two.\<close>

lemma split_layout:
  assumes lay: "layout h P" and p: "p \<in> P" "p < heap_end h"
    and q: "unat p + 32 \<le> unat q" "unat q + 32 \<le> unat (nx h p)" "16 dvd unat q"
  shows "layout (split_block p q h) (insert q P)" and "q \<notin> P"
    and "nx (split_block p q h) r = (if r = p then q else if r = q then nx h p else nx h r)"
    and "used (blocks (split_block p q h) r) = (if r = q then 0 else used (blocks h r))"
proof -
  let ?h = "split_block p q h"
  let ?n = "nx h p"
  note n = layout_less[OF lay p]
  have ord: "p < q" "q < ?n" "q < heap_end h" using q n by (simp_all add: word_less_nat_alt word_le_nat_alt)
  show "q \<notin> P" using layoutD(10)[OF lay p, of q] ord by auto
  have e: "mem_size_aligned h + SIZEOF_STRUCT_MEM = heap_end h" using layoutD(1)[OF lay] by (simp add: heap_sizes)
  show nx: "nx ?h r = (if r = p then q else if r = q then ?n else nx h r)" for r
    using ord by (auto simp: split_block_def Let_def e)
  show "used (blocks ?h r) = (if r = q then 0 else used (blocks h r))"
    using ord by (auto simp: split_block_def Let_def e)
  have pr: "mem_prev (blocks ?h r) =
      (if r = q then p else if r = ?n \<and> ?n \<noteq> heap_end h then q else mem_prev (blocks h r))" for r
    using ord by (auto simp: split_block_def Let_def e)
  have ends: "heap_end ?h = heap_end h" "mem_size_aligned ?h = mem_size_aligned h" "heap_ptr ?h = heap_ptr h"
    by (simp_all add: split_block_def Let_def)
  have step: "nx ?h r \<in> insert q P \<and> unat r + 32 \<le> unat (nx ?h r) \<and> (\<forall>s\<in>insert q P. s \<le> r \<or> nx ?h r \<le> s)"
    if r: "r \<in> insert q P" "r < heap_end h" for r
  proof -
    consider "r = p" | "r = q" | "r \<noteq> p" "r \<noteq> q" "r \<in> P" using r by auto
    then show ?thesis
    proof cases
      case 1
      have "s \<le> p \<or> q \<le> s" if "s \<in> P" for s
        using layout_gap[OF lay p that] ord by auto
      then show ?thesis using 1 q(1) ord by (auto simp: nx not_le)
    next
      case 2
      have "s \<le> q \<or> ?n \<le> s" if "s \<in> P" for s
        using layoutD(10)[OF lay p that] ord by (cases "p < s") auto
      then show ?thesis using 2 q(2) ord layoutD(8)[OF lay p] by (auto simp: nx)
    next
      case 3
      have "q \<le> r \<or> nx h r \<le> q"
      proof (cases "r < p")
        case True
        with layoutD(10)[OF lay 3(3) r(2) p(1)] ord show ?thesis by (auto dest: order.trans less_imp_le)
      next
        case False
        with 3(1) have "p < r" by simp
        with layoutD(10)[OF lay p 3(3)] ord have "q \<le> r" by simp
        then show ?thesis by simp
      qed
      then show ?thesis
        using 3 layoutD(8,9)[OF lay 3(3) r(2)] layout_gap[OF lay 3(3) r(2)] by (auto simp: nx)
    qed
  qed
  have links: "mem_prev (blocks ?h (nx ?h r)) = r" if r: "r \<in> insert q P" "r < heap_end h" "nx ?h r < heap_end h" for r
  proof -
    consider "r = p" | "r = q" | "r \<noteq> p" "r \<noteq> q" "r \<in> P" using r by auto
    then show ?thesis
    proof cases
      case 3
      then have "nx h r \<in> P" "mem_prev (blocks h (nx h r)) = r"
        using layoutD(8,11)[OF lay, of r] r by (auto simp: nx)
      moreover from this 3 have "nx h r \<noteq> q" using \<open>q \<notin> P\<close> by auto
      moreover have "nx h r \<noteq> ?n"
      proof
        assume eq: "nx h r = ?n"
        then have "mem_prev (blocks h ?n) = r" using calculation(2) by simp
        moreover have "mem_prev (blocks h ?n) = p" using layoutD(11)[OF lay p] r(3) eq 3 by (simp add: nx)
        ultimately show False using 3 by simp
      qed
      ultimately show ?thesis using 3 by (simp add: nx pr)
    qed (use r ord in \<open>auto simp: nx pr\<close>)
  qed
  have "q \<noteq> 0" "?n \<noteq> 0" using ord by auto
  then show "layout ?h (insert q P)"
    using lay ord p q(3) step links unfolding layout_def ends by (auto simp: nx pr)
qed

section \<open>The invariant\<close>

definition users :: "heap \<Rightarrow> u32 set \<Rightarrow> u32 set" where
  "users h P = {p \<in> P. p < heap_end h \<and> used (blocks h p) \<noteq> 0}"

text \<open>
  No two neighbouring blocks are free, \<open>lfree\<close> is the first free one, and the statistics count the
  bytes of the used ones. \<open>coalesced_but m\<close> leaves out what a block that becomes free at \<open>m\<close>
  may break.
\<close>

definition coalesced_but :: "u32 set \<Rightarrow> heap \<Rightarrow> u32 set \<Rightarrow> bool" where
  "coalesced_but M h P \<longleftrightarrow>
     (\<forall>p\<in>P. p < heap_end h \<longrightarrow> used (blocks h p) = 0 \<longrightarrow> p \<notin> M \<longrightarrow> nx h p \<notin> M \<longrightarrow> used (blocks h (nx h p)) \<noteq> 0)"

definition first_free :: "heap \<Rightarrow> u32 set \<Rightarrow> bool" where
  "first_free h P \<longleftrightarrow> lfree h \<in> P \<and> (lfree h = heap_end h \<or> used (blocks h (lfree h)) = 0) \<and>
     (\<forall>p\<in>P. p < lfree h \<longrightarrow> used (blocks h p) \<noteq> 0)"

definition counted :: "heap \<Rightarrow> u32 set \<Rightarrow> bool" where
  "counted h P \<longleftrightarrow> used_mem h = (\<Sum>p\<in>users h P. nx h p - p)"

definition heap_inv :: "heap \<Rightarrow> u32 set \<Rightarrow> bool" where
  "heap_inv h P \<longleftrightarrow> layout h P \<and> used (blocks h (heap_end h)) = 1 \<and> coalesced_but {} h P \<and> first_free h P \<and> counted h P"

definition same_frame :: "heap \<Rightarrow> heap \<Rightarrow> bool" where
  "same_frame h h' \<longleftrightarrow> heap_ptr h' = heap_ptr h \<and> heap_end h' = heap_end h \<and>
     mem_size_aligned h' = mem_size_aligned h \<and> contents h' = contents h"

lemma layout_pred:
  assumes lay: "layout h P" and m: "m \<in> P" "m < heap_end h" "m \<noteq> 0"
  shows "mem_prev (blocks h m) \<in> P" "mem_prev (blocks h m) < m" "nx h (mem_prev (blocks h m)) = m"
proof -
  let ?Q = "{q \<in> P. q < m}"
  define p where "p = Max ?Q"
  have "0 \<in> ?Q" using layoutD(4)[OF lay] m(3) by (simp add: word_gt_0)
  then have "?Q \<noteq> {}" by blast
  then have pQ: "p \<in> ?Q" unfolding p_def by (intro Max_in) simp_all
  have pmax: "\<And>q. q \<in> ?Q \<Longrightarrow> q \<le> p" unfolding p_def by (intro Max_ge) simp_all
  from pQ have p: "p \<in> P" "p < m" by simp_all
  then have pe: "p < heap_end h" using m(2) by simp
  note p = p pe
  have "nx h p \<le> m" using layoutD(10)[OF lay p(1,3) m(1) p(2)] .
  moreover have "\<not> nx h p < m"
  proof
    assume "nx h p < m"
    then have "nx h p \<le> p" using pmax[of "nx h p"] layoutD(8)[OF lay p(1,3)] by simp
    with layout_less(1)[OF lay p(1,3)] show False by simp
  qed
  ultimately have "nx h p = m" by simp
  with layoutD(11)[OF lay p(1,3)] m(2) have "mem_prev (blocks h m) = p" by simp
  with p \<open>nx h p = m\<close> show "mem_prev (blocks h m) \<in> P" "mem_prev (blocks h m) < m" "nx h (mem_prev (blocks h m)) = m"
    by simp_all
qed

text \<open>A merge of two free blocks, of which the second is not the first free one.\<close>

lemma merge_free:
  assumes lay: "layout h P" and p: "p \<in> P" "p < heap_end h" and n: "nx h p < heap_end h"
    and free: "used (blocks h p) = 0" "used (blocks h (nx h p)) = 0"
    and ff: "first_free h P" and cnt: "counted h P" and e: "used (blocks h (heap_end h)) = 1"
  defines "h' \<equiv> merge_next p h" and "P' \<equiv> P - {nx h p}"
  shows "layout h' P'" "first_free h' P'" "counted h' P'" "used (blocks h' (heap_end h')) = 1"
    "users h' P' = users h P" "\<forall>q\<in>users h P. nx h' q = nx h q" "same_frame h h'"
    "lfree h \<noteq> nx h p"
proof -
  note ml = merge_layout[OF lay p n]
  note less = layout_less[OF lay p]
  have ends: "heap_end h' = heap_end h" "lfree h' = lfree h" "used_mem h' = used_mem h"
    by (simp_all add: h'_def merge_next_def Let_def)
  show "same_frame h h'" by (simp add: h'_def merge_next_def Let_def same_frame_def)
  show "layout h' P'" unfolding h'_def P'_def by (rule ml(1))
  have "\<not> p < lfree h" using ff p free by (auto simp: first_free_def)
  then show lf: "lfree h \<noteq> nx h p" using less by auto
  have u: "used (blocks h' q) = used (blocks h q)" for q unfolding h'_def by (rule ml(3))
  from ff lf show "first_free h' P'" unfolding first_free_def ends u P'_def by auto
  show "used (blocks h' (heap_end h')) = 1" unfolding ends u by (rule e)
  show us: "users h' P' = users h P" using free unfolding users_def ends u by (auto simp: P'_def)
  show nx: "\<forall>q\<in>users h P. nx h' q = nx h q" using free by (auto simp: users_def h'_def ml(2))
  have "(\<Sum>q\<in>users h P. nx h' q - q) = (\<Sum>q\<in>users h P. nx h q - q)" using nx by (intro sum.cong) auto
  then show "counted h' P'" using cnt by (simp add: counted_def us ends)
qed

text \<open>What holds when the block \<open>m\<close> has just become free.\<close>

definition freed :: "u32 \<Rightarrow> heap \<Rightarrow> u32 set \<Rightarrow> bool" where
  "freed m h P \<longleftrightarrow> layout h P \<and> used (blocks h (heap_end h)) = 1 \<and> m \<in> P \<and> m < heap_end h \<and> used (blocks h m) = 0 \<and>
     coalesced_but {m} h P \<and> first_free h P \<and> counted h P"

lemma plug_holes_merges:
  assumes "layout h P" and "m \<in> P" and "m < heap_end h" and "lfree h \<noteq> nx h m"
  shows "plug_holes m h =
    (let h1 = (if used (blocks h (nx h m)) = 0 \<and> nx h m \<noteq> heap_end h then merge_next m h else h);
         p = mem_prev (blocks h1 m)
     in if p \<noteq> m \<and> used (blocks h1 p) = 0 then
          (let h2 = upd_block p (\<lambda>b. b\<lparr>mem_next := nx h1 m\<rparr>) (if lfree h1 = m then h1\<lparr>lfree := p\<rparr> else h1)
           in upd_block (nx h2 m) (\<lambda>b. b\<lparr>mem_prev := p\<rparr>) h2)
        else h1)"
proof -
  from layout_less(1)[OF assms(1-3)] have "m \<noteq> nx h m" by (rule less_imp_neq)
  with assms(4) show ?thesis by (simp add: plug_holes_def merge_next_def Let_def)
qed

lemma plug_holes_inv:
  assumes "freed m h P"
  shows "\<exists>P'. heap_inv (plug_holes m h) P' \<and> users (plug_holes m h) P' = users h P \<and>
    (\<forall>q\<in>users h P. nx (plug_holes m h) q = nx h q) \<and> same_frame h (plug_holes m h)"
proof -
  have f: "layout h P" "used (blocks h (heap_end h)) = 1" "m \<in> P" "m < heap_end h" "used (blocks h m) = 0"
    "coalesced_but {m} h P" "first_free h P" "counted h P" using assms by (simp_all add: freed_def)
  note less = layout_less[OF f(1,3,4)]
  have "\<not> m < lfree h" using f(3,5,7) by (auto simp: first_free_def)
  then have lf: "lfree h \<noteq> nx h m" using less by auto
  define h1 where "h1 = (if used (blocks h (nx h m)) = 0 \<and> nx h m \<noteq> heap_end h then merge_next m h else h)"
  have "\<exists>P1. freed m h1 P1 \<and> used (blocks h1 (nx h1 m)) \<noteq> 0 \<and> users h1 P1 = users h P \<and>
    (\<forall>q\<in>users h P. nx h1 q = nx h q) \<and> same_frame h h1"
  proof (cases "used (blocks h (nx h m)) = 0 \<and> nx h m \<noteq> heap_end h")
    case True
    with less(2) have n: "nx h m < heap_end h" by (simp add: order_le_less)
    from True have h1: "h1 = merge_next m h" by (simp add: h1_def)
    note mf = merge_free[OF f(1,3,4) n f(5) _ f(7,8,2)]
    note ml = merge_layout[OF f(1,3,4) n]
    have e: "heap_end h1 = heap_end h" by (simp add: h1 merge_next_def Let_def)
    have nP: "nx h m \<in> P" using layoutD(8)[OF f(1,3,4)] .
    note ln = layout_less[OF f(1) nP n]
    have "used (blocks h (nx h (nx h m))) \<noteq> 0"
      using f(6) nP n True less ln unfolding coalesced_but_def by fastforce
    then have "used (blocks h1 (nx h1 m)) \<noteq> 0" by (simp add: h1 ml)
    moreover have "coalesced_but {m} h1 (P - {nx h m})"
      using f(6) unfolding coalesced_but_def e by (auto simp: h1 ml)
    ultimately show ?thesis
      using mf True f(3,4,5) less by (intro exI[of _ "P - {nx h m}"]) (auto simp: freed_def h1 ml e[unfolded h1])
  next
    case False
    then have "h1 = h" by (auto simp: h1_def)
    with False f(2) assms show ?thesis by (intro exI[of _ P]) (auto simp: same_frame_def)
  qed
  then obtain P1 where g: "freed m h1 P1" "used (blocks h1 (nx h1 m)) \<noteq> 0" "users h1 P1 = users h P"
    "\<forall>q\<in>users h P. nx h1 q = nx h q" "same_frame h h1" by blast
  then have f1: "layout h1 P1" "used (blocks h1 (heap_end h1)) = 1" "m \<in> P1" "m < heap_end h1" "used (blocks h1 m) = 0"
    "coalesced_but {m} h1 P1" "first_free h1 P1" "counted h1 P1" by (simp_all add: freed_def)
  define p where "p = mem_prev (blocks h1 m)"
  show ?thesis
  proof (cases "p \<noteq> m \<and> used (blocks h1 p) = 0")
    case False
    have plug: "plug_holes m h = h1"
      using False unfolding plug_holes_merges[OF f(1,3,4) lf] h1_def[symmetric] Let_def p_def[symmetric] by (rule if_not_P)
    have "coalesced_but {} h1 P1"
      unfolding coalesced_but_def
    proof (intro ballI impI)
      fix q assume q: "q \<in> P1" "q < heap_end h1" "used (blocks h1 q) = 0"
      show "used (blocks h1 (nx h1 q)) \<noteq> 0"
      proof (cases "q = m \<or> nx h1 q \<noteq> m")
        case True
        with q f1(6) g(2) show ?thesis by (auto simp: coalesced_but_def)
      next
        case nxm: False
        then have "p = q" using layoutD(11)[OF f1(1) q(1,2)] f1(4) by (simp add: p_def)
        with False q nxm show ?thesis by auto
      qed
    qed
    with f1 g plug show ?thesis by (auto simp: heap_inv_def)
  next
    case True
    have m0: "m \<noteq> 0" using True layoutD(12)[OF f1(1)] by (auto simp: p_def)
    note pr = layout_pred[OF f1(1,3,4) m0, folded p_def]
    have pe: "p < heap_end h1" using pr(2) f1(4) by simp
    have n: "nx h1 p < heap_end h1" using pr(3) f1(4) by simp
    note mf = merge_free[OF f1(1) pr(1) pe n _ _ f1(7,8,2), unfolded pr(3)]
    note ml = merge_layout[OF f1(1) pr(1) pe n, unfolded pr(3)]
    have lfm: "lfree h1 \<noteq> m" using mf(8) True f1(5) by simp
    have plug: "plug_holes m h = merge_next p h1"
      using True lfm unfolding plug_holes_merges[OF f(1,3,4) lf] h1_def[symmetric] Let_def p_def[symmetric]
      by (simp add: merge_next_def Let_def pr(3))
    have e: "heap_end (merge_next p h1) = heap_end h1" by (simp add: merge_next_def Let_def)
    have "coalesced_but {} (merge_next p h1) (P1 - {m})"
      unfolding coalesced_but_def
    proof (intro ballI impI)
      fix q assume q: "q \<in> P1 - {m}" "q < heap_end (merge_next p h1)" "used (blocks (merge_next p h1) q) = 0"
      show "used (blocks (merge_next p h1) (nx (merge_next p h1) q)) \<noteq> 0"
      proof (cases "q = p")
        case True
        then show ?thesis using g(2) by (simp add: ml)
      next
        case False
        have "nx h1 q \<noteq> m"
          using layoutD(11)[OF f1(1), of q] q(1) q(2)[unfolded e] f1(4) False p_def by (metis DiffD1)
        with False q f1(6) show ?thesis by (simp add: ml e coalesced_but_def)
      qed
    qed
    moreover have "heap_inv (merge_next p h1) (P1 - {m}) \<or> \<not> coalesced_but {} (merge_next p h1) (P1 - {m})"
      using mf True f1(5) by (simp add: heap_inv_def)
    ultimately show ?thesis
      using mf(5-7) True f1(5) g unfolding plug by (intro exI[of _ "P1 - {m}"]) (auto simp: same_frame_def)
  qed
qed

section \<open>Allocation\<close>

lemma fuel_step:
  fixes e :: nat assumes "p + 32 \<le> n" and "n \<le> e" and "(e - p) div 32 < Suc f"
  shows "(e - n) div 32 < f"
  using assms by linarith

lemma malloc_search_finds:
  assumes lay: "layout h P" and "p \<in> P" and fuel: "(unat (heap_end h) - unat p) div 32 < fuel"
    and sz: "sz \<le> mem_size_aligned h"
  shows "\<exists>r. malloc_search fuel sz p h = Done r \<and>
    (case r of
       Some q \<Rightarrow> q \<in> P \<and> p \<le> q \<and> q < heap_end h \<and> used (blocks h q) = 0 \<and> sz \<le> nx h q - (q + 16)
     | None \<Rightarrow> \<forall>q\<in>P. p \<le> q \<longrightarrow> used (blocks h q) = 0 \<longrightarrow> q < mem_size_aligned h - sz \<longrightarrow> \<not> sz \<le> nx h q - (q + 16))"
  using assms(2,3)
proof (induction fuel arbitrary: p)
  case (Suc fuel)
  have end_less: "q < heap_end h" if "q < mem_size_aligned h - sz" for q
    using that layoutD(2)[OF lay] sz by (simp add: word_less_nat_alt word_le_nat_alt unat_sub)
  show ?case
  proof (cases "p < mem_size_aligned h - sz")
    case False
    then show ?thesis by (auto simp: not_less dest: order.strict_trans2)
  next
    case True
    note p = Suc.prems(1) end_less[OF True]
    show ?thesis
    proof (cases "used (blocks h p) = 0 \<and> sz \<le> nx h p - (p + 16)")
      case hit: True
      then show ?thesis using True p by (simp add: heap_sizes)
    next
      case miss: False
      have nP: "nx h p \<in> P" using layoutD(8)[OF lay p] .
      have "(unat (heap_end h) - unat (nx h p)) div 32 < fuel"
        by (rule fuel_step[OF layoutD(9)[OF lay p] layout_less(2)[OF lay p, unfolded word_le_nat_alt] Suc.prems(2)])
      from Suc.IH[OF nP this] obtain r where r: "malloc_search fuel sz (nx h p) h = Done r"
        "case r of
           Some q \<Rightarrow> q \<in> P \<and> nx h p \<le> q \<and> q < heap_end h \<and> used (blocks h q) = 0 \<and> sz \<le> nx h q - (q + 16)
         | None \<Rightarrow> \<forall>q\<in>P. nx h p \<le> q \<longrightarrow> used (blocks h q) = 0 \<longrightarrow> q < mem_size_aligned h - sz \<longrightarrow> \<not> sz \<le> nx h q - (q + 16)"
        by blast
      have "malloc_search (Suc fuel) sz p h = Done r" using True miss r(1) by (auto simp: heap_sizes)
      moreover have "p \<le> q" if "nx h p \<le> q" for q using layout_less(1)[OF lay p] that by simp
      moreover have "q = p \<or> nx h p \<le> q" if "q \<in> P" "p \<le> q" for q using layout_gap[OF lay p that(1)] that(2) by auto
      ultimately show ?thesis using r(2) miss by (auto split: option.splits)
    qed
  qed
qed simp

lemma advance_lfree_finds:
  assumes lay: "layout h P" and "lfree h \<in> P" and "(unat (heap_end h) - unat (lfree h)) div 32 < fuel"
    and "\<forall>p\<in>P. p < lfree h \<longrightarrow> used (blocks h p) \<noteq> 0"
  shows "\<exists>l. advance_lfree fuel h = Done (h\<lparr>lfree := l\<rparr>) \<and> first_free (h\<lparr>lfree := l\<rparr>) P"
  using assms
proof (induction fuel arbitrary: h)
  case (Suc fuel)
  show ?case
  proof (cases "used (blocks h (lfree h)) \<noteq> 0 \<and> lfree h \<noteq> heap_end h")
    case False
    then show ?thesis using Suc.prems by (intro exI[of _ "lfree h"]) (auto simp: first_free_def)
  next
    case True
    have le: "lfree h < heap_end h" using True layoutD(6)[OF Suc.prems(1,2)] by (auto simp: order_le_less)
    note l = Suc.prems(1,2) le
    let ?h = "h\<lparr>lfree := nx h (lfree h)\<rparr>"
    have "layout ?h P" using l(1) by (rule layout_cong) simp_all
    moreover have "lfree ?h \<in> P" using layoutD(8)[OF l] by simp
    moreover have "(unat (heap_end ?h) - unat (lfree ?h)) div 32 < fuel"
      using fuel_step[OF layoutD(9)[OF l] layout_less(2)[OF l, unfolded word_le_nat_alt] Suc.prems(3)]
      by simp
    moreover have "used (blocks h p) \<noteq> 0" if p: "p \<in> P" "p < nx h (lfree h)" for p
    proof (cases "p = lfree h")
      case False
      with layout_gap[OF l p(1)] p(2) have "p < lfree h" by auto
      with Suc.prems(4) p(1) show ?thesis by blast
    qed (use True in simp)
    ultimately show ?thesis using Suc.IH[of ?h] True by simp
  qed
qed simp

text \<open>Taking a free block, whole or cut: everything but the first free block is as it should be.\<close>

lemma sum_insert_users:
  assumes "users h' P' = insert p (users h P)" and "p \<notin> users h P" and "\<forall>q\<in>users h P. nx h' q = nx h q"
  shows "(\<Sum>q\<in>users h' P'. nx h' q - q) = (nx h' p - p) + (\<Sum>q\<in>users h P. nx h q - q)"
proof -
  have "(\<Sum>q\<in>users h P. nx h' q - q) = (\<Sum>q\<in>users h P. nx h q - q)" using assms(3) by (intro sum.cong) auto
  then show ?thesis using assms(2) by (simp add: assms(1))
qed

lemma count_used_simps [simp]:
  "blocks (count_used n h) = blocks h" "heap_ptr (count_used n h) = heap_ptr h"
  "heap_end (count_used n h) = heap_end h" "lfree (count_used n h) = lfree h"
  "mem_size_aligned (count_used n h) = mem_size_aligned h" "used_mem (count_used n h) = used_mem h + n"
  "contents (count_used n h) = contents h"
  by (simp_all add: count_used_def Let_def)

lemma split_block_simps [simp]:
  "heap_ptr (split_block p q h) = heap_ptr h" "heap_end (split_block p q h) = heap_end h"
  "lfree (split_block p q h) = lfree h" "mem_size_aligned (split_block p q h) = mem_size_aligned h"
  "used_mem (split_block p q h) = used_mem h" "contents (split_block p q h) = contents h"
  by (simp_all add: split_block_def Let_def)

text \<open>What taking the block \<open>p\<close> leaves.\<close>

definition taken :: "u32 \<Rightarrow> u32 \<Rightarrow> heap \<Rightarrow> u32 set \<Rightarrow> heap \<Rightarrow> u32 set \<Rightarrow> bool" where
  "taken sz p h P h' P' \<longleftrightarrow>
     layout h' P' \<and> used (blocks h' (heap_end h')) = 1 \<and> coalesced_but {} h' P' \<and> counted h' P' \<and>
     users h' P' = insert p (users h P) \<and> (\<forall>q\<in>users h P. nx h' q = nx h q) \<and>
     p \<in> P' \<and> P \<subseteq> P' \<and> unat p + 16 + unat sz \<le> unat (nx h' p) \<and> same_frame h h' \<and> lfree h' = lfree h \<and>
     (\<forall>q\<in>P'. q < lfree h \<longrightarrow> used (blocks h' q) \<noteq> 0)"


lemma malloc_take_takes:
  assumes lay: "layout h P" and e: "used (blocks h (heap_end h)) = 1" and co: "coalesced_but {} h P" and ff: "first_free h P"
    and cnt: "counted h P" and p: "p \<in> P" "p < heap_end h" and free: "used (blocks h p) = 0"
    and sz: "sz \<le> nx h p - (p + 16)" "16 dvd unat sz" "16 \<le> unat sz"
  shows "\<exists>P'. taken sz p h P (malloc_take sz p h) P'"
proof -
  note less = layout_less[OF lay p] layoutD(9)[OF lay p]
  have room: "unat (nx h p - (p + 16)) = unat (nx h p) - (unat p + 16)"
  proof -
    have "unat (p + 16) = unat p + 16" using less(3) unat_u32[of "nx h p"] by (simp add: unat_word_ariths)
    with less(3) show ?thesis by (simp add: unat_sub word_le_nat_alt)
  qed
  have below: "\<forall>q\<in>P. q < lfree h \<longrightarrow> used (blocks h q) \<noteq> 0" using ff by (simp add: first_free_def)
  have lp: "lfree h \<le> p" using below p free by (metis not_less)
  have nu: "p \<notin> users h P" using free by (simp add: users_def)
  have nxu: "used (blocks h (nx h p)) \<noteq> 0" using co p free by (simp add: coalesced_but_def)
  show ?thesis
  proof (cases "nx h p - (p + SIZEOF_STRUCT_MEM) \<ge> sz + SIZEOF_STRUCT_MEM + MIN_SIZE_ALIGNED")
    case False
    define h' where "h' = malloc_take sz p h"
    have h': "blocks h' = (blocks h)(p := (blocks h p)\<lparr>used := 1, magic := HEAP_MAGIC\<rparr>)"
      "heap_ptr h' = heap_ptr h" "heap_end h' = heap_end h" "lfree h' = lfree h" "mem_size_aligned h' = mem_size_aligned h"
      "used_mem h' = used_mem h + (nx h p - p)" "contents h' = contents h"
      using False by (simp_all add: h'_def malloc_take_def Let_def)
    have b: "nx h' q = nx h q" "mem_prev (blocks h' q) = mem_prev (blocks h q)" "used (blocks h' q) = (if q = p then 1 else used (blocks h q))"
      for q by (simp_all add: h'(1))
    have "layout h' P" using lay by (rule layout_cong) (simp_all add: h' b)
    moreover have us: "users h' P = insert p (users h P)" using p by (auto simp: users_def h'(2-) b)
    moreover have "counted h' P"
      using sum_insert_users[OF us nu] cnt by (simp add: counted_def h'(2-) b)
    moreover have "coalesced_but {} h' P" using co by (auto simp: coalesced_but_def h'(2-) b)
    moreover have "unat p + 16 + unat sz \<le> unat (nx h' p)" using sz(1) room less(3) by (simp add: b word_le_nat_alt)
    ultimately show ?thesis
      using e p below lp unfolding h'_def[symmetric] by (intro exI[of _ P]) (auto simp: taken_def b h'(2-) same_frame_def)
  next
    case True
    define q where "q = p + 16 + sz"
    have "unat (sz + 32) \<le> unat (nx h p) - (unat p + 16)"
      using True room by (simp add: heap_sizes word_le_nat_alt add.commute)
    moreover have "unat sz + 32 < 2 ^ 32"
      using sz(1) room less(3) p(2) layoutD(3)[OF lay] less(2) layout_base(2)[OF lay] by (simp add: word_le_nat_alt word_less_nat_alt)
    ultimately have fits: "unat p + 48 + unat sz \<le> unat (nx h p)"
      using less(3) by (simp add: unat_word_ariths)
    then have uq: "unat q = unat p + 16 + unat sz"
      using unat_u32[of "nx h p"] by (simp add: q_def unat_word_ariths)
    have q: "unat p + 32 \<le> unat q" "unat q + 32 \<le> unat (nx h p)" "16 dvd unat q"
      using fits uq sz(2,3) layoutD(7)[OF lay p(1)] by (simp_all add: dvd_add)
    note sp = split_layout[OF lay p q]
    define h' where "h' = malloc_take sz p h"
    let ?s = "split_block p q h"
    have h': "blocks h' = (blocks ?s)(p := (blocks ?s p)\<lparr>used := 1, magic := HEAP_MAGIC\<rparr>)"
      "heap_ptr h' = heap_ptr h" "heap_end h' = heap_end h" "lfree h' = lfree h" "mem_size_aligned h' = mem_size_aligned h"
      "used_mem h' = used_mem h + (sz + 16)" "contents h' = contents h"
      using True by (simp_all add: h'_def malloc_take_def Let_def q_def heap_sizes add.assoc)
    have pq: "p < q" "q < heap_end h" using q less by (simp_all add: word_less_nat_alt word_le_nat_alt)
    have b: "nx h' r = (if r = p then q else if r = q then nx h p else nx h r)" "mem_prev (blocks h' r) = mem_prev (blocks ?s r)"
      "used (blocks h' r) = (if r = p then 1 else if r = q then 0 else used (blocks h r))" for r
      using pq by (auto simp: h'(1) sp)
    have "layout h' (insert q P)" using sp(1) by (rule layout_cong) (auto simp: h')
    moreover have us: "users h' (insert q P) = insert p (users h P)" using p pq sp(2) by (auto simp: users_def h'(2-) b)
    moreover have nx': "\<forall>r\<in>users h P. nx h' r = nx h r" using sp(2) nu by (auto simp: users_def b)
    moreover have "q - p = sz + 16" by (simp add: q_def)
    then have "counted h' (insert q P)"
      using sum_insert_users[OF us nu nx'] cnt by (simp add: counted_def h'(2-) b add.commute)
    moreover have "coalesced_but {} h' (insert q P)"
      unfolding coalesced_but_def
    proof (intro ballI impI)
      fix r assume r: "r \<in> insert q P" "r < heap_end h'" "used (blocks h' r) = 0"
      show "used (blocks h' (nx h' r)) \<noteq> 0"
      proof (cases "r = q")
        case True
        with nxu q(2) pq show ?thesis by (auto simp: b)
      next
        case False
        with r have rP: "r \<in> P" "r < heap_end h" "used (blocks h r) = 0" "r \<noteq> p" by (auto simp: b h'(2-) split: if_splits)
        then have "used (blocks h (nx h r)) \<noteq> 0" "nx h r \<in> P" using co layoutD(8)[OF lay] by (auto simp: coalesced_but_def)
        with sp(2) False rP show ?thesis by (auto simp: b)
      qed
    qed
    moreover have "used (blocks h' (heap_end h')) = 1" using e pq p by (auto simp: b h'(2-))
    moreover have "\<forall>r\<in>insert q P. r < lfree h \<longrightarrow> used (blocks h' r) \<noteq> 0" using below lp pq by (auto simp: b)
    ultimately show ?thesis
      using p uq unfolding h'_def[symmetric] by (intro exI[of _ "insert q P"]) (auto simp: taken_def b h'(2-) same_frame_def)
  qed
qed

end
