(* ===== verification/Heap_Use.thy ===== *)
theory Heap_Use
  imports Heap
begin

text \<open>
  What the allocator of \<open>Heap\<close> gives its users: the regions it has handed out and not got back lie
  apart, keep their bytes, and are again one free block when all are back. \<open>memory_allocator\<close> is
  the contract; the code's operations are an instance of it.
\<close>

section \<open>The blocks of a heap\<close>

text \<open>The headers that the links reach from the first block.\<close>

inductive_set headers :: "heap \<Rightarrow> u32 set" for h where
  first: "0 \<in> headers h"
| link: "p \<in> headers h \<Longrightarrow> p < heap_end h \<Longrightarrow> nx h p \<in> headers h"

lemma headers_layout:
  assumes lay: "layout h P"
  shows "headers h = P"
proof
  show "headers h \<subseteq> P"
  proof
    fix p assume "p \<in> headers h"
    then show "p \<in> P" by induction (use layoutD(4,8)[OF lay] in auto)
  qed
next
  have "unat p \<le> n \<Longrightarrow> p \<in> P \<Longrightarrow> p < heap_end h \<Longrightarrow> p \<in> headers h" for p n
  proof (induction n arbitrary: p)
    case 0
    then show ?case by (simp add: unat_eq_0 headers.first)
  next
    case (Suc n)
    show ?case
    proof (cases "p = 0")
      case False
      note pr = layout_pred[OF lay Suc.prems(2,3) False]
      let ?q = "mem_prev (blocks h p)"
      have "?q \<in> headers h" using pr(1,2) Suc.prems by (intro Suc.IH) (auto simp: word_less_nat_alt)
      then show ?thesis using headers.link[of ?q h] pr(2,3) Suc.prems(3) by simp
    qed (simp add: headers.first)
  qed
  note inner = this[OF order_refl]
  show "P \<subseteq> headers h"
  proof
    fix p assume p: "p \<in> P"
    show "p \<in> headers h"
    proof (cases "p = heap_end h")
      case False
      with p layoutD(6)[OF lay p] show ?thesis by (intro inner) (auto simp: order_le_less)
    next
      case True
      show ?thesis
      proof (cases "heap_end h = 0")
        case False
        let ?q = "Max {q \<in> P. q < heap_end h}"
        have "0 \<in> {q \<in> P. q < heap_end h}" using layoutD(4)[OF lay] False by (simp add: word_gt_0)
        then have q: "?q \<in> {q \<in> P. q < heap_end h}" by (intro Max_in) auto
        then have qq: "?q \<in> P" "?q < heap_end h" by simp_all
        have "nx h ?q = heap_end h"
        proof (rule ccontr)
          assume "nx h ?q \<noteq> heap_end h"
          then have "nx h ?q \<in> {q \<in> P. q < heap_end h}"
            using layoutD(8)[OF lay qq] layout_less(2)[OF lay qq] by (simp add: order_le_less)
          then have "nx h ?q \<le> ?q" by (intro Max_ge) auto
          with layout_less(1)[OF lay qq] show False by simp
        qed
        with headers.link[OF inner[OF qq] qq(2)] True show ?thesis by simp
      qed (use True headers.first in simp)
    qed
  qed
qed

definition heap_ok :: "heap \<Rightarrow> bool" where
  "heap_ok h \<longleftrightarrow> heap_inv h (headers h)"

lemma heap_okI: "heap_inv h P \<Longrightarrow> heap_ok h"
  using headers_layout[of h P] by (simp add: heap_ok_def heap_inv_def)

lemma heap_inv_headers: "heap_inv h P \<Longrightarrow> headers h = P"
  by (simp add: heap_inv_def headers_layout)

text \<open>The regions in use: the addresses handed out, and the bytes each may use.\<close>

definition mem_address :: "heap \<Rightarrow> u32 \<Rightarrow> u32" where
  "mem_address h p = heap_ptr h + p + SIZEOF_STRUCT_MEM"

definition live :: "heap \<Rightarrow> u32 set" where
  "live h = mem_address h ` users h (headers h)"

definition room :: "heap \<Rightarrow> u32 \<Rightarrow> nat" where
  "room h a = unat (nx h (block_of h a)) - unat (block_of h a) - 16"

lemma block_of_address [simp]: "block_of h (mem_address h p) = p"
  by (simp add: block_of_def mem_address_def)

lemma unat_address:
  assumes "layout h P" and "p \<in> P" and "p < heap_end h"
  shows "unat (mem_address h p) = unat (heap_ptr h) + unat p + 16"
    and "unat (mem_address h p) + room h (mem_address h p) = unat (heap_ptr h) + unat (nx h p)"
    and "in_heap h (mem_address h p)"
proof -
  note le = layoutD(3,9)[OF assms(1)] layoutD(9)[OF assms] layout_less(2)[OF assms]
  have "unat (heap_ptr h) + unat p + 16 < 2 ^ 32" using le by (simp add: word_le_nat_alt)
  then show a: "unat (mem_address h p) = unat (heap_ptr h) + unat p + 16"
    by (simp add: mem_address_def heap_sizes unat_word_ariths)
  show "unat (mem_address h p) + room h (mem_address h p) = unat (heap_ptr h) + unat (nx h p)"
    using le(3) by (simp add: a room_def)
  have "unat (heap_ptr h + heap_end h) = unat (heap_ptr h) + unat (heap_end h)"
    using le(1) by (simp add: unat_word_ariths)
  then show "in_heap h (mem_address h p)"
    using le(3,4) a by (simp add: in_heap_def word_less_nat_alt word_le_nat_alt)
qed

text \<open>The bytes of two live regions are different, and all lie in the heap.\<close>

definition region :: "heap \<Rightarrow> u32 \<Rightarrow> nat set" where
  "region h a = {unat a..<unat a + room h a}"

lemma regions_apart:
  assumes "heap_ok h" and "a \<in> live h" and "b \<in> live h" and "a \<noteq> b"
  shows "region h a \<inter> region h b = {}"
proof -
  have lay: "layout h (headers h)" using assms(1) by (simp add: heap_ok_def heap_inv_def)
  obtain p q where p: "a = mem_address h p" "p \<in> headers h" "p < heap_end h"
    and q: "b = mem_address h q" "q \<in> headers h" "q < heap_end h"
    using assms(2,3) by (auto simp: live_def users_def)
  have "p \<noteq> q" using assms(4) p(1) q(1) by auto
  note ap = layout_apart[OF lay p(2) q(2) p(3) q(3) this]
  show ?thesis
    using ap unat_address(1,2)[OF lay p(2,3)] unat_address(1,2)[OF lay q(2,3)]
      layoutD(9)[OF lay p(2,3)] layoutD(9)[OF lay q(2,3)]
    by (auto simp: region_def p(1) q(1))
qed

lemma region_in_heap:
  assumes "heap_ok h" and "a \<in> live h"
  shows "region h a \<subseteq> {unat (heap_ptr h) + 16..<unat (heap_ptr h) + unat (heap_end h)}" and "16 dvd unat a" and "a \<noteq> 0"
    and "in_heap h a"
proof -
  have lay: "layout h (headers h)" using assms(1) by (simp add: heap_ok_def heap_inv_def)
  obtain p where p: "a = mem_address h p" "p \<in> headers h" "p < heap_end h"
    using assms(2) by (auto simp: live_def users_def)
  note u = unat_address[OF lay p(2,3)]
  show "region h a \<subseteq> {unat (heap_ptr h) + 16..<unat (heap_ptr h) + unat (heap_end h)}"
    using u(1,2) layout_less(2)[OF lay p(2,3)] by (auto simp: region_def p(1) word_le_nat_alt)
  show "16 dvd unat a" using u(1) layout_base(1)[OF lay] layoutD(7)[OF lay p(2)] by (simp add: p(1) dvd_add)
  have "unat a \<noteq> 0" using u(1) by (simp add: p(1))
  then show "a \<noteq> 0" by auto
  show "in_heap h a" using u(3) by (simp add: p(1))
qed

section \<open>The operations keep the invariant\<close>

lemma same_frame_address:
  "same_frame h h' \<Longrightarrow> mem_address h' p = mem_address h p" "same_frame h h' \<Longrightarrow> block_of h' a = block_of h a"
  by (simp_all add: same_frame_def mem_address_def block_of_def)

lemma same_room:
  assumes "same_frame h h'" and "\<forall>q\<in>users h P. nx h' q = nx h q" and "headers h = P" and "a \<in> live h"
  shows "room h' a = room h a"
  using assms by (auto simp: room_def live_def same_frame_address)

text \<open>The size that the code rounds a request to.\<close>

definition rounded :: "u32 \<Rightarrow> u32" where
  "rounded sz = (let sz = RT_ALIGN sz RT_ALIGN_SIZE in if sz < MIN_SIZE_ALIGNED then MIN_SIZE_ALIGNED else sz)"

lemma RT_ALIGN_16: "RT_ALIGN sz 16 = push_bit 4 (drop_bit 4 (sz + 15))"
proof -
  have "(16 :: u32) - 1 = mask 4" by (simp add: mask_eq_exp_minus_1)
  moreover have "sz + 16 - 1 = sz + 15" by simp
  ultimately have "RT_ALIGN sz 16 = (sz + 15) AND NOT (mask 4)" by (simp only: RT_ALIGN_def)
  also have "\<dots> = push_bit 4 (drop_bit 4 (sz + 15))" by (rule bit_word_eqI) (auto simp: bit_simps)
  finally show ?thesis .
qed

lemma RT_ALIGN_unat:
  "unat (RT_ALIGN sz 16) = (if unat sz \<le> 4294967280 then (unat sz + 15) div 16 * 16 else 0)"
proof -
  have "(unat sz + 15) mod 4294967296 = (if unat sz \<le> 4294967280 then unat sz + 15 else unat sz + 15 - 4294967296)"
    using unat_u32[of sz] by (simp add: mod_if)
  moreover have "(unat sz + 15 - 4294967296) div 16 = 0" using unat_u32[of sz] by simp
  moreover have "(unat sz + 15) div 16 * 16 < 4294967296" if "unat sz \<le> 4294967280" using that by linarith
  ultimately show ?thesis
    by (simp add: RT_ALIGN_16 push_bit_eq_mult drop_bit_eq_div unat_word_ariths unat_div)
qed

lemma rounded_ok: "16 dvd unat (rounded sz)" "16 \<le> unat (rounded sz)"
  "unat sz \<le> 4294967280 \<Longrightarrow> unat sz \<le> unat (rounded sz)"
  by (auto simp: rounded_def Let_def heap_sizes RT_ALIGN_unat word_less_nat_alt)

lemma heap_room_min:
  assumes "heap_inv h P"
  shows "16 \<le> mem_size_aligned h"
proof -
  have lay: "layout h P" and e: "used (blocks h (heap_end h)) = 1" using assms by (simp_all add: heap_inv_def)
  have "heap_end h \<noteq> 0"
    using layoutD(2)[OF lay] by auto
  then have "0 < heap_end h" by (simp add: word_gt_0)
  note z = layoutD(9)[OF lay layoutD(4)[OF lay] this] layout_less(2)[OF lay layoutD(4)[OF lay] this]
  then show ?thesis using layoutD(2)[OF lay] by (simp add: word_le_nat_alt)
qed

lemma rounded_fits:
  assumes "heap_inv h P" and "\<not> RT_ALIGN sz RT_ALIGN_SIZE > mem_size_aligned h"
  shows "rounded sz \<le> mem_size_aligned h"
  using assms(2) heap_room_min[OF assms(1)] by (simp add: rounded_def Let_def heap_sizes not_less)

text \<open>\<open>rt_malloc\<close> finds a free block, or there is none that would do.\<close>

lemma rt_malloc_cases:
  assumes inv: "heap_inv h P" and fuel: "unat (heap_end h) div 32 < fuel"
  obtains (none) "rt_malloc fuel sz h = Done (None, h)"
      "sz = 0 \<or> mem_size_aligned h < RT_ALIGN sz RT_ALIGN_SIZE \<or>
       (\<forall>q\<in>P. used (blocks h q) = 0 \<longrightarrow> q < mem_size_aligned h - rounded sz \<longrightarrow> \<not> rounded sz \<le> nx h q - (q + 16))"
  | (some) p h' P' where "rt_malloc fuel sz h = Done (Some (mem_address h p), h')" "heap_inv h' P'"
      "p \<notin> users h P" "users h' P' = insert p (users h P)" "\<forall>q\<in>users h P. nx h' q = nx h q" "same_frame h h'"
      "unat p + 16 + unat (rounded sz) \<le> unat (nx h' p)"
proof -
  have lay: "layout h P" and e: "used (blocks h (heap_end h)) = 1" and co: "coalesced_but {} h P"
    and ff: "first_free h P" and cnt: "counted h P" using inv by (simp_all add: heap_inv_def)
  show thesis
  proof (cases "sz = 0 \<or> mem_size_aligned h < RT_ALIGN sz RT_ALIGN_SIZE")
    case True
    then show thesis by (intro none) (auto simp: rt_malloc_def Let_def)
  next
    case False
    have lP: "lfree h \<in> P" using ff by (simp add: first_free_def)
    have f: "(unat (heap_end h) - unat (lfree h)) div 32 < fuel"
      using fuel by (meson diff_le_self div_le_mono le_less_trans)
    have fit: "rounded sz \<le> mem_size_aligned h" using rounded_fits[OF inv] False by blast
    from malloc_search_finds[OF lay lP f fit] obtain r where
      r: "malloc_search fuel (rounded sz) (lfree h) h = Done r"
        "case r of
          Some q \<Rightarrow> q \<in> P \<and> lfree h \<le> q \<and> q < heap_end h \<and> used (blocks h q) = 0 \<and> rounded sz \<le> nx h q - (q + 16)
        | None \<Rightarrow> \<forall>q\<in>P. lfree h \<le> q \<longrightarrow> used (blocks h q) = 0 \<longrightarrow> q < mem_size_aligned h - rounded sz \<longrightarrow>
            \<not> rounded sz \<le> nx h q - (q + 16)" by blast
    have code: "rt_malloc fuel sz h = exec_bind (malloc_search fuel (rounded sz) (lfree h) h) (\<lambda>found.
        case found of None \<Rightarrow> Done (None, h)
        | Some ptr \<Rightarrow> exec_bind (let h = malloc_take (rounded sz) ptr h in if ptr = lfree h then advance_lfree fuel h else Done h)
            (\<lambda>h. Done (Some (heap_ptr h + ptr + SIZEOF_STRUCT_MEM), h)))"
      using False unfolding rt_malloc_def rounded_def Let_def by (simp only: if_False de_Morgan_disj simp_thms)
    show thesis
    proof (cases r)
      case None
      have "lfree h \<le> q" if "q \<in> P" "used (blocks h q) = 0" for q
        using ff that by (metis first_free_def not_less)
      with r None show thesis by (intro none) (auto simp: code)
    next
      case (Some p)
      with r(2) have p: "p \<in> P" "p < heap_end h" "used (blocks h p) = 0" "rounded sz \<le> nx h p - (p + 16)" by simp_all
      from malloc_take_takes[OF lay e co ff cnt p rounded_ok(1,2)] obtain P' where
        "taken (rounded sz) p h P (malloc_take (rounded sz) p h) P'" by blast
      moreover define h1 where "h1 = malloc_take (rounded sz) p h"
      ultimately have t: "taken (rounded sz) p h P h1 P'" by simp
      then have t': "layout h1 P'" "used (blocks h1 (heap_end h1)) = 1" "coalesced_but {} h1 P'" "counted h1 P'"
        "users h1 P' = insert p (users h P)" "\<forall>q\<in>users h P. nx h1 q = nx h q" "p \<in> P'"
        "unat p + 16 + unat (rounded sz) \<le> unat (nx h1 p)" "same_frame h h1" "lfree h1 = lfree h"
        "\<forall>q\<in>P'. q < lfree h \<longrightarrow> used (blocks h1 q) \<noteq> 0" "P \<subseteq> P'" by (simp_all add: taken_def)
      have nu: "p \<notin> users h P" using p(3) by (simp add: users_def)
      have ends: "heap_end h1 = heap_end h" using t'(9) by (simp add: same_frame_def)
      have "\<exists>l. (if p = lfree h1 then advance_lfree fuel h1 else Done h1) = Done (h1\<lparr>lfree := l\<rparr>) \<and>
        first_free (h1\<lparr>lfree := l\<rparr>) P'"
      proof (cases "p = lfree h1")
        case True
        have "\<exists>l. advance_lfree fuel h1 = Done (h1\<lparr>lfree := l\<rparr>) \<and> first_free (h1\<lparr>lfree := l\<rparr>) P'"
          by (rule advance_lfree_finds[OF t'(1)]) (use True t'(7,10,11) f ends in simp_all)
        with True show ?thesis by (simp only: if_True refl)
      next
        case False
        have "lfree h \<in> P'" using ff t'(12) by (auto simp: first_free_def)
        moreover have "lfree h = heap_end h1 \<or> used (blocks h1 (lfree h)) = 0"
        proof (cases "lfree h = heap_end h")
          case False
          then have "lfree h \<notin> users h1 P'" using ff t'(5,10) \<open>p \<noteq> lfree h1\<close> by (auto simp: first_free_def users_def)
          moreover have "lfree h < heap_end h1" using ff layoutD(6)[OF lay] False ends by (auto simp: first_free_def order_le_less)
          ultimately show ?thesis using \<open>lfree h \<in> P'\<close> by (simp add: users_def)
        qed (simp add: ends)
        ultimately show ?thesis using False t'(10,11) by (intro exI[of _ "lfree h1"]) (simp add: first_free_def)
      qed
      then obtain l where l: "(if p = lfree h1 then advance_lfree fuel h1 else Done h1) = Done (h1\<lparr>lfree := l\<rparr>)"
        "first_free (h1\<lparr>lfree := l\<rparr>) P'" by blast
      let ?h = "h1\<lparr>lfree := l\<rparr>"
      have "layout ?h P'" using t'(1) by (rule layout_cong) simp_all
      then have "heap_inv ?h P'"
        using t' l(2) by (auto simp: heap_inv_def coalesced_but_def counted_def users_def)
      moreover have "rt_malloc fuel sz h = Done (Some (mem_address h p), ?h)"
        using t'(9) unfolding code r(1) Some exec_bind.simps option.case Let_def h1_def[symmetric] l(1)
        by (simp add: mem_address_def same_frame_def)
      ultimately show thesis
        using nu t' by (intro some[of p ?h P']) (auto simp: users_def same_frame_def)
    qed
  qed
qed

lemma rt_free_keeps:
  assumes inv: "heap_inv h P" and p: "p \<in> users h P"
  obtains P' where "heap_inv (rt_free (Some (mem_address h p)) h) P'"
    "users (rt_free (Some (mem_address h p)) h) P' = users h P - {p}"
    "\<forall>q\<in>users h P - {p}. nx (rt_free (Some (mem_address h p)) h) q = nx h q"
    "same_frame h (rt_free (Some (mem_address h p)) h)"
proof -
  have lay: "layout h P" and e: "used (blocks h (heap_end h)) = 1" and co: "coalesced_but {} h P"
    and ff: "first_free h P" and cnt: "counted h P" using inv by (simp_all add: heap_inv_def)
  have pP: "p \<in> P" "p < heap_end h" "used (blocks h p) \<noteq> 0" using p by (simp_all add: users_def)
  define h1 where "h1 = upd_block p (\<lambda>b. b\<lparr>used := 0, magic := HEAP_MAGIC\<rparr>) h"
  define h2 where "h2 = (if p < lfree h then h1\<lparr>lfree := p\<rparr> else h1)\<lparr>used_mem := used_mem h - (nx h p - p)\<rparr>"
  have code: "rt_free (Some (mem_address h p)) h = plug_holes p h2"
    using unat_address(3)[OF lay pP(1,2)] by (simp add: rt_free_def Let_def h2_def h1_def)
  have h2: "heap_ptr h2 = heap_ptr h" "heap_end h2 = heap_end h" "mem_size_aligned h2 = mem_size_aligned h"
    "contents h2 = contents h" "lfree h2 = (if p < lfree h then p else lfree h)" "used_mem h2 = used_mem h - (nx h p - p)"
    by (simp_all add: h2_def h1_def)
  have b: "nx h2 q = nx h q" "mem_prev (blocks h2 q) = mem_prev (blocks h q)"
    "used (blocks h2 q) = (if q = p then 0 else used (blocks h q))" for q by (simp_all add: h2_def h1_def)
  have us: "users h2 P = users h P - {p}" by (auto simp: users_def h2 b)
  have "layout h2 P" using lay by (rule layout_cong) (simp_all add: h2 b)
  moreover have "counted h2 P"
    using cnt p by (simp add: counted_def us b h2 sum_diff1)
  moreover have "first_free h2 P" using ff pP by (auto simp: first_free_def h2 b)
  moreover have "coalesced_but {p} h2 P" using co by (auto simp: coalesced_but_def h2 b)
  ultimately have "freed p h2 P" using e pP by (auto simp: freed_def h2 b)
  from plug_holes_inv[OF this] obtain P' where P': "heap_inv (plug_holes p h2) P'"
    "users (plug_holes p h2) P' = users h P - {p}" "\<forall>q\<in>users h P - {p}. nx (plug_holes p h2) q = nx h q"
    "same_frame h2 (plug_holes p h2)" unfolding us b by blast
  then show thesis using that unfolding code by (auto simp: same_frame_def h2)
qed

text \<open>In terms of the heap alone.\<close>

lemma rt_malloc_ok:
  assumes ok: "heap_ok h" and fuel: "unat (heap_end h) div 32 < fuel"
  shows "\<exists>r h'. rt_malloc fuel sz h = Done (r, h') \<and> heap_ok h' \<and> same_frame h h' \<and> (\<forall>a\<in>live h. room h' a = room h a) \<and>
    (case r of None \<Rightarrow> h' = h | Some a \<Rightarrow> a \<notin> live h \<and> live h' = insert a (live h) \<and> unat (rounded sz) \<le> room h' a)"
proof -
  define P where "P = headers h"
  have inv: "heap_inv h P" using ok by (simp add: heap_ok_def P_def)
  from inv fuel show ?thesis
  proof (cases rule: rt_malloc_cases[where sz = sz])
    case none
    with ok show ?thesis by (simp add: same_frame_def)
  next
    case (some p h' P')
    have liv: "live h' = insert (mem_address h p) (live h)"
      using some(4,6) unfolding live_def heap_inv_headers[OF some(2)] P_def by (simp add: same_frame_address)
    have inj: "mem_address h p \<notin> live h"
      using some(3) by (auto simp: live_def P_def) (metis block_of_address)
    have "\<forall>a\<in>live h. room h' a = room h a" using same_room[OF some(6,5)] by (simp add: P_def)
    with some liv inj show ?thesis by (auto intro: heap_okI simp: room_def same_frame_address)
  qed
qed

lemma rt_free_ok:
  assumes ok: "heap_ok h" and a: "a \<in> live h"
  shows "heap_ok (rt_free (Some a) h) \<and> same_frame h (rt_free (Some a) h) \<and>
    live (rt_free (Some a) h) = live h - {a} \<and> (\<forall>b\<in>live h - {a}. room (rt_free (Some a) h) b = room h b)"
proof -
  have inv: "heap_inv h (headers h)" using ok by (simp add: heap_ok_def)
  obtain p where p: "a = mem_address h p" "p \<in> users h (headers h)" using a by (auto simp: live_def)
  obtain P' where P': "heap_inv (rt_free (Some a) h) P'" "users (rt_free (Some a) h) P' = users h (headers h) - {p}"
    "\<forall>q\<in>users h (headers h) - {p}. nx (rt_free (Some a) h) q = nx h q" "same_frame h (rt_free (Some a) h)"
    using rt_free_keeps[OF inv p(2)] unfolding p(1) by metis
  have inj: "inj (mem_address h)" by (rule inj_on_inverseI[where g = "block_of h"]) simp
  have "live (rt_free (Some a) h) = live h - {a}"
  proof -
    have u: "users (rt_free (Some a) h) (headers (rt_free (Some a) h)) = users h (headers h) - {p}"
      using P'(2) heap_inv_headers[OF P'(1)] by simp
    have m: "mem_address (rt_free (Some a) h) = mem_address h" using P'(4) by (auto simp: same_frame_address)
    show ?thesis by (simp only: live_def u m image_set_diff[OF inj]) (simp add: p(1))
  qed
  moreover have "room (rt_free (Some a) h) b = room h b" if b: "b \<in> live h - {a}" for b
  proof -
    obtain q where q: "b = mem_address h q" "q \<in> users h (headers h)"
      using b unfolding live_def by blast
    with b p(1) have "q \<in> users h (headers h) - {p}" by auto
    with P'(3,4) q(1) show ?thesis by (simp add: room_def same_frame_address)
  qed
  ultimately show ?thesis using P'(1,4) by (blast intro: heap_okI)
qed

section \<open>The contract\<close>

text \<open>
  A client asks for regions and gives back those it holds; what a request to give back another one
  would do is not asked, and the run passes over it. \<open>serve\<close> runs the requests: it keeps the
  regions that the client holds, with the number of bytes asked for, and the allocator's state.
\<close>

datatype request = Want u32 | Give_Back u32

fun serve :: "(u32 \<Rightarrow> 's \<Rightarrow> (u32 option \<times> 's) exec) \<Rightarrow> (u32 \<Rightarrow> 's \<Rightarrow> 's) \<Rightarrow> request list \<Rightarrow> (u32 \<rightharpoonup> u32) \<Rightarrow> 's \<Rightarrow> ((u32 \<rightharpoonup> u32) \<times> 's) exec" where
  "serve alloc give [] held s = Done (held, s)"
| "serve alloc give (Want n # rs) held s =
     exec_bind (alloc n s) (\<lambda>(r, s). serve alloc give rs (case r of None \<Rightarrow> held | Some a \<Rightarrow> held(a \<mapsto> n)) s)"
| "serve alloc give (Give_Back a # rs) held s =
     (if held a = None then serve alloc give rs held s else serve alloc give rs (held(a := None)) (give a s))"

locale memory_allocator =
  fixes ok :: "'s \<Rightarrow> bool" and live :: "'s \<Rightarrow> u32 set" and room :: "'s \<Rightarrow> u32 \<Rightarrow> nat" and fits :: "u32 \<Rightarrow> bool"
    and alloc :: "u32 \<Rightarrow> 's \<Rightarrow> (u32 option \<times> 's) exec" and give :: "u32 \<Rightarrow> 's \<Rightarrow> 's"
  assumes alloc_ok: "ok s \<Longrightarrow> \<exists>r s'. alloc n s = Done (r, s') \<and> ok s' \<and> (\<forall>a\<in>live s. room s' a = room s a) \<and>
      (case r of None \<Rightarrow> live s' = live s
       | Some a \<Rightarrow> a \<notin> live s \<and> live s' = insert a (live s) \<and> (fits n \<longrightarrow> unat n \<le> room s' a))"
    and give_ok: "ok s \<Longrightarrow> a \<in> live s \<Longrightarrow> ok (give a s) \<and> live (give a s) = live s - {a} \<and>
      (\<forall>b\<in>live s - {a}. room (give a s) b = room s b)"
    and apart: "ok s \<Longrightarrow> a \<in> live s \<Longrightarrow> b \<in> live s \<Longrightarrow> a \<noteq> b \<Longrightarrow>
      {unat a..<unat a + room s a} \<inter> {unat b..<unat b + room s b} = {}"
begin

definition honoured :: "(u32 \<rightharpoonup> u32) \<Rightarrow> 's \<Rightarrow> bool" where
  "honoured held s \<longleftrightarrow> ok s \<and> dom held = live s \<and> (\<forall>a n. held a = Some n \<longrightarrow> fits n \<longrightarrow> unat n \<le> room s a)"

lemma honoured_want:
  assumes "honoured held s"
  obtains r s' where "alloc n s = Done (r, s')" "honoured (case r of None \<Rightarrow> held | Some a \<Rightarrow> held(a \<mapsto> n)) s'"
proof -
  from assms have s: "ok s" "dom held = live s" "\<forall>a n. held a = Some n \<longrightarrow> fits n \<longrightarrow> unat n \<le> room s a"
    by (simp_all add: honoured_def)
  from alloc_ok[OF s(1), of n] obtain r s' where a: "alloc n s = Done (r, s')" "ok s'" "\<forall>a\<in>live s. room s' a = room s a"
    "case r of None \<Rightarrow> live s' = live s
     | Some a \<Rightarrow> a \<notin> live s \<and> live s' = insert a (live s) \<and> (fits n \<longrightarrow> unat n \<le> room s' a)" by blast
  have old: "unat m \<le> room s' b" if "held b = Some m" "fits m" for b m
  proof -
    have "b \<in> live s" using that(1) s(2) by auto
    then show ?thesis using s(3) a(3) that by simp
  qed
  have "honoured (case r of None \<Rightarrow> held | Some a \<Rightarrow> held(a \<mapsto> n)) s'"
    using a(2,4) old s(2) by (cases r) (auto simp: honoured_def)
  with a(1) that show thesis by blast
qed

lemma honoured_give:
  assumes "honoured held s" and "held a \<noteq> None"
  shows "honoured (held(a := None)) (give a s)"
proof -
  from assms have s: "ok s" "dom held = live s" "a \<in> live s" by (auto simp: honoured_def)
  note g = give_ok[OF s(1,3)]
  have "unat m \<le> room (give a s) b" if "(held(a := None)) b = Some m" "fits m" for b m
  proof -
    have "b \<in> live s - {a}" "held b = Some m" using that s(2) by (auto split: if_splits)
    then show ?thesis using assms(1) g that(2) by (simp add: honoured_def)
  qed
  with g s(2) show ?thesis by (simp add: honoured_def)
qed

lemma serve_honours:
  assumes "honoured held s"
  shows "\<exists>held' s'. serve alloc give rs held s = Done (held', s') \<and> honoured held' s'"
  using assms
proof (induction rs arbitrary: held s)
  case (Cons r rs)
  show ?case
  proof (cases r)
    case (Want n)
    from honoured_want[OF Cons.prems, of n] obtain r' s' where
      a: "alloc n s = Done (r', s')" "honoured (case r' of None \<Rightarrow> held | Some a \<Rightarrow> held(a \<mapsto> n)) s'" by blast
    then show ?thesis using Cons.IH[OF a(2)] Want by simp
  next
    case (Give_Back a)
    show ?thesis
    proof (cases "held a")
      case None
      then show ?thesis using Cons.IH[OF Cons.prems] Give_Back by simp
    next
      case (Some n)
      then have "held a \<noteq> None" by simp
      from Cons.IH[OF honoured_give[OF Cons.prems this]] show ?thesis using Give_Back Some
        by (simp only: serve.simps option.simps if_False)
    qed
  qed
qed simp

lemma honoured_apart:
  assumes "honoured held s" and "held a \<noteq> None" and "held b \<noteq> None" and "a \<noteq> b"
  shows "{unat a..<unat a + room s a} \<inter> {unat b..<unat b + room s b} = {}"
  using assms by (intro apart) (auto simp: honoured_def)

end

section \<open>The code keeps the contract\<close>

definition heap_ready :: "nat \<Rightarrow> u32 \<Rightarrow> u32 \<Rightarrow> heap \<Rightarrow> bool" where
  "heap_ready fuel base end_pos h \<longleftrightarrow> heap_ok h \<and> heap_ptr h = base \<and> heap_end h = end_pos \<and> unat end_pos div 32 < fuel"

definition representable :: "u32 \<Rightarrow> bool" where
  "representable n \<longleftrightarrow> unat n \<le> 4294967280"

abbreviation give_back :: "u32 \<Rightarrow> heap \<Rightarrow> heap" where
  "give_back a \<equiv> rt_free (Some a)"

interpretation small_heap: memory_allocator "heap_ready fuel base end_pos" live room representable "rt_malloc fuel" give_back
  for fuel base end_pos
proof
  fix n h assume "heap_ready fuel base end_pos h"
  then have h: "heap_ok h" "unat (heap_end h) div 32 < fuel" "heap_ptr h = base" "heap_end h = end_pos" by (simp_all add: heap_ready_def)
  from rt_malloc_ok[OF h(1,2), of n] obtain r h' where a: "rt_malloc fuel n h = Done (r, h')" "heap_ok h'" "same_frame h h'"
    "\<forall>a\<in>live h. room h' a = room h a"
    "case r of None \<Rightarrow> h' = h | Some a \<Rightarrow> a \<notin> live h \<and> live h' = insert a (live h) \<and> unat (rounded n) \<le> room h' a"
    by blast
  have "heap_ready fuel base end_pos h'" using a(2,3) h by (simp add: heap_ready_def same_frame_def)
  moreover have "case r of None \<Rightarrow> live h' = live h
    | Some a \<Rightarrow> a \<notin> live h \<and> live h' = insert a (live h) \<and> (representable n \<longrightarrow> unat n \<le> room h' a)"
    using a(5) rounded_ok(3)[of n] by (auto simp: representable_def split: option.splits)
  ultimately show "\<exists>r h'. rt_malloc fuel n h = Done (r, h') \<and> heap_ready fuel base end_pos h' \<and> (\<forall>a\<in>live h. room h' a = room h a) \<and>
    (case r of None \<Rightarrow> live h' = live h
     | Some a \<Rightarrow> a \<notin> live h \<and> live h' = insert a (live h) \<and> (representable n \<longrightarrow> unat n \<le> room h' a))"
    using a(1,4) by blast
next
  fix a h assume "heap_ready fuel base end_pos h" and "a \<in> live h"
  then show "heap_ready fuel base end_pos (give_back a h) \<and> live (give_back a h) = live h - {a} \<and>
    (\<forall>b\<in>live h - {a}. room (give_back a h) b = room h b)"
    using rt_free_ok[of h a] by (simp add: heap_ready_def same_frame_def)
next
  fix a b h assume "heap_ready fuel base end_pos h" "a \<in> live h" "b \<in> live h" "a \<noteq> b"
  then show "{unat a..<unat a + room h a} \<inter> {unat b..<unat b + room h b} = {}"
    using regions_apart[of h a b] by (simp add: heap_ready_def region_def)
qed

text \<open>The heap that \<open>rt_system_heap_init\<close> sets up: one free block.\<close>

lemma RT_ALIGN_DOWN_unat: "unat (RT_ALIGN_DOWN sz 16) = unat sz div 16 * 16"
proof -
  have "(16 :: u32) - 1 = mask 4" by (simp add: mask_eq_exp_minus_1)
  then have "RT_ALIGN_DOWN sz 16 = sz AND NOT (mask 4)" by (simp only: RT_ALIGN_DOWN_def)
  also have "\<dots> = push_bit 4 (drop_bit 4 sz)" by (rule bit_word_eqI) (auto simp: bit_simps)
  finally have e: "RT_ALIGN_DOWN sz 16 = push_bit 4 (drop_bit 4 sz)" .
  have "unat sz div 16 * 16 < 4294967296" using unat_u32[of sz] by linarith
  then show ?thesis by (simp add: e push_bit_eq_mult drop_bit_eq_div unat_word_ariths unat_div)
qed

definition heap_area :: "u32 \<Rightarrow> u32 \<Rightarrow> bool" where
  "heap_area b e \<longleftrightarrow> 0 < unat b \<and> unat b \<le> 4294967280 \<and>
     (unat b + 15) div 16 * 16 + 48 \<le> unat e div 16 * 16"

lemma heap_init_ok:
  assumes area: "heap_area b e" and "used_mem h = 0"
  defines "h' \<equiv> rt_system_heap_init b e h"
  shows "heap_ok h'" "live h' = {}" "unat (heap_end h') + 16 = unat e div 16 * 16 - (unat b + 15) div 16 * 16"
    "unat (heap_ptr h') = (unat b + 15) div 16 * 16"
proof -
  define B E where "B = RT_ALIGN b 16" and "E = RT_ALIGN_DOWN e 16"
  have B: "unat B = (unat b + 15) div 16 * 16" using area by (simp add: B_def heap_area_def RT_ALIGN_unat)
  have E: "unat E = unat e div 16 * 16" by (simp add: E_def RT_ALIGN_DOWN_unat)
  have BE: "unat B + 48 \<le> unat E" "16 \<le> unat B" "16 dvd unat B" "16 dvd unat E" 
    using area by (auto simp: B E heap_area_def)
  have E32: "unat (E - 32) = unat E - 32" using BE by (simp add: unat_sub word_le_nat_alt)
  then have c: "E > 2 * SIZEOF_STRUCT_MEM \<and> E - 2 * SIZEOF_STRUCT_MEM \<ge> B"
    using BE by (simp add: heap_sizes word_less_nat_alt word_le_nat_alt)
  have h': "blocks h' = (blocks h)(0 := (blocks h 0)\<lparr>magic := HEAP_MAGIC, mem_next := E - B - 16, mem_prev := 0, used := 0\<rparr>,
       E - B - 16 := (blocks h (E - B - 16))\<lparr>magic := HEAP_MAGIC, used := 1, mem_next := E - B - 16, mem_prev := E - B - 16\<rparr>)"
    "heap_end h' = E - B - 16" "heap_ptr h' = B" "mem_size_aligned h' = E - B - 32" "lfree h' = 0" "used_mem h' = 0"
    using c by (simp_all add: h'_def rt_system_heap_init_def Let_def heap_sizes assms(2) algebra_simps flip: B_def E_def)
  let ?e = "E - B - 16"
  have ue: "unat ?e = unat E - unat B - 16" "unat (E - B - 32) = unat E - unat B - 32"
    using BE by (simp_all add: unat_sub word_le_nat_alt)
  have pos: "0 < ?e" "?e \<noteq> 0" using ue(1) BE by (auto simp: word_less_nat_alt)
  have lay: "layout h' {0, ?e}"
    using BE ue pos unat_u32[of E] by (auto simp: layout_def h' dvd_diff_nat)
  then have hd: "headers h' = {0, ?e}" by (rule headers_layout)
  have us: "users h' (headers h') = {}" using pos by (auto simp: users_def hd h')
  have "heap_inv h' (headers h')"
    using lay pos us by (auto simp: heap_inv_def hd coalesced_but_def first_free_def counted_def h')
  then show "heap_ok h'" by (simp add: heap_ok_def)
  show "live h' = {}" by (simp add: live_def us)
  show "unat (heap_end h') + 16 = unat e div 16 * 16 - (unat b + 15) div 16 * 16"
    using BE by (simp add: h' ue flip: B E)
  show "unat (heap_ptr h') = (unat b + 15) div 16 * 16" by (simp add: h' flip: B)
qed

text \<open>A heap with nothing in use is one free block.\<close>

lemma empty_heap:
  assumes ok: "heap_ok h" and none: "live h = {}"
  shows "headers h = {0, heap_end h}" "lfree h = 0" "used_mem h = 0"
proof -
  define P where "P = headers h"
  have inv: "heap_inv h P" using ok by (simp add: heap_ok_def P_def)
  then have lay: "layout h P" and co: "coalesced_but {} h P" and ff: "first_free h P" and cnt: "counted h P"
    by (simp_all add: heap_inv_def)
  have us: "users h P = {}" using none by (simp add: live_def P_def)
  then have free: "used (blocks h p) = 0" if "p \<in> P" "p < heap_end h" for p using that by (auto simp: users_def)
  have "p = 0 \<or> p = heap_end h" if p: "p \<in> P" for p
  proof (rule ccontr)
    assume "\<not> (p = 0 \<or> p = heap_end h)"
    then have "p < heap_end h" "p \<noteq> 0" using layoutD(6)[OF lay p] by (auto simp: order_le_less)
    note pr = layout_pred[OF lay p this]
    have "mem_prev (blocks h p) < heap_end h" using pr(2) \<open>p < heap_end h\<close> by simp
    with co pr(1,3) free[OF pr(1)] free[OF p \<open>p < heap_end h\<close>] show False by (auto simp: coalesced_but_def)
  qed
  then show hd: "headers h = {0, heap_end h}" using layoutD(4,5)[OF lay] by (auto simp: P_def)
  show "used_mem h = 0" using cnt us by (simp add: counted_def)
  have "0 < heap_end h" using layoutD(2)[OF lay] by (simp add: word_less_nat_alt)
  then show "lfree h = 0"
    using ff free[OF layoutD(4)[OF lay]] by (metis first_free_def layoutD(4)[OF lay] word_gt_0 )
qed

section \<open>Changing the size of a region\<close>

lemma shrink_keeps:
  assumes inv: "heap_inv h P" and p: "p \<in> users h P" and sz: "sz = nx h p - p - 16"
    and n: "16 dvd unat n" "16 \<le> unat n" "unat n + 28 < unat sz"
  defines "q \<equiv> p + 16 + n"
  defines "h1 \<equiv> split_block p q (h\<lparr>used_mem := used_mem h - (sz - n)\<rparr>)"
  defines "h' \<equiv> plug_holes q (if q < lfree h1 then h1\<lparr>lfree := q\<rparr> else h1)"
  obtains P' where "heap_inv h' P'" "users h' P' = users h P" "\<forall>r\<in>users h P - {p}. nx h' r = nx h r"
    "nx h' p = q" "unat q = unat p + 16 + unat n" "same_frame h h'"
proof -
  have lay: "layout h P" and e: "used (blocks h (heap_end h)) = 1" and co: "coalesced_but {} h P"
    and ff: "first_free h P" and cnt: "counted h P" using inv by (simp_all add: heap_inv_def)
  have pP: "p \<in> P" "p < heap_end h" "used (blocks h p) \<noteq> 0" using p by (simp_all add: users_def)
  note less = layoutD(9)[OF lay pP(1,2)] layout_less[OF lay pP(1,2)]
  have usz: "unat sz + unat p + 16 = unat (nx h p)"
  proof -
    have "unat (nx h p - p) = unat (nx h p) - unat p" using less by (simp add: unat_sub order_less_imp_le)
    with less(1) show ?thesis by (simp add: sz unat_sub word_le_nat_alt)
  qed
  have "16 dvd unat (nx h p)" using layoutD(7)[OF lay layoutD(8)[OF lay pP(1,2)]] .
  then have "16 dvd unat sz + (unat p + 16)" using usz by (simp add: add.assoc)
  then have dsz: "16 dvd unat sz" using layoutD(7)[OF lay pP(1)] by (simp add: dvd_add_left_iff)
  have gap: "unat n + 32 \<le> unat sz" using dsz n(1,3) by presburger
  have uq: "unat q = unat p + 16 + unat n"
    using gap usz unat_u32[of "nx h p"] by (simp add: q_def unat_word_ariths)
  have q: "unat p + 32 \<le> unat q" "unat q + 32 \<le> unat (nx h p)" "16 dvd unat q"
    using uq gap usz n layoutD(7)[OF lay pP(1)] by simp_all
  define h0 where "h0 = h\<lparr>used_mem := used_mem h - (sz - n)\<rparr>"
  have h0: "heap_end h0 = heap_end h" "blocks h0 = blocks h" by (simp_all add: h0_def)
  have lay0: "layout h0 P" using lay by (rule layout_cong) (simp_all add: h0_def)
  note sp = split_layout[OF lay0 pP(1) _ q(1) _ q(3), unfolded h0, OF pP(2) q(2), folded h1_def[folded h0_def]]
  have h1: "h1 = split_block p q h0" by (simp add: h1_def h0_def)
  note sp = sp[folded h1]
  define h2 where "h2 = (if q < lfree h1 then h1\<lparr>lfree := q\<rparr> else h1)"
  have pq: "p < q" "q < heap_end h" "q < nx h p" using q less by (simp_all add: word_less_nat_alt word_le_nat_alt)
  have h2: "heap_ptr h2 = heap_ptr h" "heap_end h2 = heap_end h" "mem_size_aligned h2 = mem_size_aligned h"
    "contents h2 = contents h" "lfree h2 = (if q < lfree h then q else lfree h)" "used_mem h2 = used_mem h - (sz - n)"
    by (simp_all add: h2_def h1 h0_def)
  have b: "nx h2 r = (if r = p then q else if r = q then nx h p else nx h r)"
    "used (blocks h2 r) = (if r = q then 0 else used (blocks h r))" for r by (simp_all add: h2_def sp(3,4))
  have lay2: "layout h2 (insert q P)" using sp(1) by (rule layout_cong) (simp_all add: h2_def)
  have us: "users h2 (insert q P) = users h P" using sp(2) pq by (auto simp: users_def h2 b)
  have nq: "q \<notin> users h P" using sp(2) by (auto simp: users_def)
  have "(\<Sum>r\<in>users h P. nx h2 r - r) = (q - p) + (\<Sum>r\<in>users h P - {p}. nx h2 r - r)"
    using p by (simp add: sum.remove b)
  also have "(\<Sum>r\<in>users h P - {p}. nx h2 r - r) = (\<Sum>r\<in>users h P - {p}. nx h r - r)"
    using nq by (intro sum.cong) (auto simp: b)
  also have "\<dots> = used_mem h - (nx h p - p)" using cnt p by (simp add: counted_def sum_diff1)
  finally have "used_mem h2 = (\<Sum>r\<in>users h P. nx h2 r - r)" by (simp add: h2(6) sz q_def algebra_simps)
  then have "counted h2 (insert q P)" unfolding counted_def us .
  moreover have "first_free h2 (insert q P)" using ff sp(2) pq by (auto simp: first_free_def h2 b)
  moreover have "coalesced_but {q} h2 (insert q P)"
    using co sp(2) pP(3) by (auto simp: coalesced_but_def h2 b)
  moreover have "used (blocks h2 (heap_end h2)) = 1" using e pq by (auto simp: b h2)
  ultimately have "freed q h2 (insert q P)" using lay2 pq by (simp add: freed_def b h2)
  from plug_holes_inv[OF this] obtain P' where "heap_inv (plug_holes q h2) P'"
    "users (plug_holes q h2) P' = users h P" "\<forall>r\<in>users h P. nx (plug_holes q h2) r = nx h2 r"
    "same_frame h2 (plug_holes q h2)" unfolding us by blast
  then show thesis
    using p nq uq by (intro that[of P']) (auto simp: h'_def h2_def[symmetric] b same_frame_def h2)
qed

lemma rounded_RT_ALIGN:
  assumes "representable n" and "n \<noteq> 0"
  shows "RT_ALIGN n RT_ALIGN_SIZE = rounded n" and "unat n \<le> unat (rounded n)"
    and "rounded (rounded n) = rounded n" and "rounded n \<noteq> 0"
    and "RT_ALIGN (rounded n) RT_ALIGN_SIZE = rounded n"
proof -
  have "0 < unat n" using assms(2) by (simp add: unat_gt_0)
  then have "16 \<le> unat (RT_ALIGN n 16)" using assms(1) by (simp add: RT_ALIGN_unat representable_def)
  then show r: "RT_ALIGN n RT_ALIGN_SIZE = rounded n"
    by (simp add: rounded_def Let_def heap_sizes word_less_nat_alt)
  show "unat n \<le> unat (rounded n)" using assms(1) rounded_ok(3) by (simp add: representable_def)
  show "rounded n \<noteq> 0" using rounded_ok(2)[of n] by auto
  have "unat (rounded n) \<le> 4294967280" using rounded_ok(1)[of n] unat_u32[of "rounded n"] by (auto elim!: dvdE)
  then have "unat (RT_ALIGN (rounded n) 16) = unat (rounded n)"
    using rounded_ok(1)[of n] by (auto simp: RT_ALIGN_unat elim!: dvdE)
  then show rr: "RT_ALIGN (rounded n) RT_ALIGN_SIZE = rounded n" by (simp add: heap_sizes word_unat_eq_iff)
  show "rounded (rounded n) = rounded n"
    using rr rounded_ok(2)[of n] by (simp add: rounded_def[of "rounded n"] Let_def heap_sizes word_less_nat_alt)
qed

lemma copy_keeps:
  assumes "heap_ok h"
  shows "heap_ok (copy_bytes d s n h)" and "live (copy_bytes d s n h) = live h" and "room (copy_bytes d s n h) = room h"
proof -
  let ?h = "copy_bytes d s n h"
  have f: "blocks ?h = blocks h" "heap_end ?h = heap_end h" "heap_ptr ?h = heap_ptr h" "lfree ?h = lfree h"
    "mem_size_aligned ?h = mem_size_aligned h" "used_mem ?h = used_mem h" by (simp_all add: copy_bytes_def)
  have inv: "heap_inv h (headers h)" using assms by (simp add: heap_ok_def)
  then have "layout h (headers h)" by (simp add: heap_inv_def)
  then have lay: "layout ?h (headers h)" by (rule layout_cong) (simp_all only: f)
  then have "heap_inv ?h (headers h)"
    using inv by (simp add: heap_inv_def coalesced_but_def first_free_def counted_def users_def f)
  then show "heap_ok ?h" by (rule heap_okI)
  have hd: "headers ?h = headers h" using lay by (rule headers_layout)
  have "mem_address ?h = mem_address h" by (auto simp: mem_address_def f)
  then show "live ?h = live h" by (simp add: live_def hd users_def f)
  show "room ?h = room h" by (auto simp: room_def block_of_def f)
qed

text \<open>What \<open>rt_realloc\<close> does to a live region.\<close>

definition moved :: "u32 \<Rightarrow> u32 \<Rightarrow> heap \<Rightarrow> u32 \<Rightarrow> heap \<Rightarrow> bool" where
  "moved a n h a' h' \<longleftrightarrow> heap_ok h' \<and> same_frame h (h'\<lparr>contents := contents h\<rparr>) \<and>
     live h' = insert a' (live h - {a}) \<and> a' \<notin> live h - {a} \<and> unat n \<le> room h' a' \<and>
     (\<forall>i<min (room h a) (unat n). contents h' (a' + of_nat i) = contents h (a + of_nat i)) \<and>
     (\<forall>b\<in>live h - {a}. room h' b = room h b \<and> (\<forall>i<room h b. contents h' (b + of_nat i) = contents h (b + of_nat i)))"

lemma copy_bytes_contents:
  "contents (copy_bytes d s n h) x = (if x - d < n then contents h (s + (x - d)) else contents h x)"
  by (simp add: copy_bytes_def)

lemma address_offset:
  assumes "heap_ok h" and "a \<in> live h" and "i < room h a"
  shows "unat (a + of_nat i) = unat a + i" and "unat a + i \<in> region h a"
proof -
  have "layout h (headers h)" using assms(1) by (simp add: heap_ok_def heap_inv_def)
  note top = layoutD(3)[OF this]
  show r: "unat a + i \<in> region h a" using assms(3) by (simp add: region_def)
  with region_in_heap(1)[OF assms(1,2)] have "unat a + i < unat (heap_ptr h) + unat (heap_end h)" by auto
  then show "unat (a + of_nat i) = unat a + i" using top by (simp add: unat_word_ariths unat_of_nat)
qed

lemma moved_by_copy:
  assumes ok: "heap_ok h" and a: "a \<in> live h" and ok1: "heap_ok h1" and f: "same_frame h h1" and a': "a' \<notin> live h"
    and lv: "live h1 = insert a' (live h)" and rm: "\<forall>b\<in>live h. room h1 b = room h b"
    and n: "unat n \<le> unat m" "unat m \<le> room h1 a'" and k: "k = (if sz < m then sz else m)" "unat sz = room h a"
  shows "moved a n h a' (rt_free (Some a) (copy_bytes a' a k h1))"
proof -
  let ?h2 = "copy_bytes a' a k h1"
  note c = copy_keeps[OF ok1, of a' a k]
  have ne: "a' \<noteq> a" using a a' by auto
  have "a \<in> live ?h2" using lv a by (simp add: c)
  note fr = rt_free_ok[OF c(1) this]
  have same: "contents (rt_free (Some a) ?h2) = contents ?h2" using fr by (simp add: same_frame_def)
  have a'1: "a' \<in> live h1" and lvh: "live h \<subseteq> live h1" using lv by auto
  have mk: "unat k = min (room h a) (unat m)" using k by (auto simp: word_less_nat_alt)
  have new: "contents ?h2 (a' + of_nat i) = contents h (a + of_nat i)" if "i < min (room h a) (unat n)" for i
  proof -
    have i: "i < unat k" using that n(1) mk by simp
    have "unat (of_nat i :: u32) = i" using i unat_u32[of k] by (simp add: unat_of_nat)
    then show ?thesis using i f by (simp add: copy_bytes_contents word_less_nat_alt same_frame_def)
  qed
  have old: "contents ?h2 (b + of_nat i) = contents h (b + of_nat i)" if b: "b \<in> live h" and i: "i < room h b" for b i
  proof -
    have b1: "b \<in> live h1" "i < room h1 b" "b \<noteq> a'" using b i lvh rm a' by auto
    let ?x = "b + of_nat i"
    note off = address_offset[OF ok1 b1(1,2)]
    have "\<not> ?x - a' < k"
    proof
      assume lt: "?x - a' < k"
      define j where "j = unat (?x - a')"
      have j: "j < unat k" using lt by (simp add: j_def word_less_nat_alt)
      then have jr: "j < room h1 a'" using n(2) mk by simp
      have "?x = a' + of_nat j" by (simp add: j_def)
      with address_offset[OF ok1 a'1 jr] off have "unat b + i \<in> region h1 a'" by simp
      with regions_apart[OF ok1 b1(1) a'1 b1(3)] off(2) show False by blast
    qed
    then show ?thesis using f by (simp add: copy_bytes_contents same_frame_def)
  qed
  show ?thesis
    unfolding moved_def same
    using fr c lv rm n new old a' ne f
    by (auto simp: same_frame_def copy_bytes_def)
qed

lemma rt_realloc_moves:
  assumes ok: "heap_ok h" and fuel: "unat (heap_end h) div 32 < fuel" and a: "a \<in> live h" and n: "representable n" "n \<noteq> 0"
  shows "\<exists>r h'. rt_realloc fuel (Some a) n h = Done (r, h') \<and> (case r of None \<Rightarrow> h' = h | Some a' \<Rightarrow> moved a n h a' h')"
proof -
  define P where "P = headers h"
  have inv: "heap_inv h P" using ok by (simp add: heap_ok_def P_def)
  then have lay: "layout h P" by (simp add: heap_inv_def)
  obtain p where p: "a = mem_address h p" "p \<in> users h P" using a by (auto simp: live_def P_def)
  then have pP: "p \<in> P" "p < heap_end h" by (simp_all add: users_def)
  note ra = rounded_RT_ALIGN[OF n]
  define m where "m = rounded n"
  define sz where "sz = nx h p - p - 16"
  have usz: "unat sz = room h a"
    using layoutD(9)[OF lay pP] layout_less(1)[OF lay pP]
    by (simp add: sz_def room_def p(1) unat_sub word_le_nat_alt order_less_imp_le)
  have inh: "in_heap h a" unfolding p(1) by (rule unat_address(3)[OF lay pP])
  have code: "rt_realloc fuel (Some a) n h =
    (if m > mem_size_aligned h then Done (None, h)
     else if sz = m then Done (Some a, h)
     else if m + 16 + 12 < sz then
       (let h1 = split_block p (p + 16 + m) (h\<lparr>used_mem := used_mem h - (sz - m)\<rparr>)
        in Done (Some a, plug_holes (p + 16 + m) (if p + 16 + m < lfree h1 then h1\<lparr>lfree := p + 16 + m\<rparr> else h1)))
     else exec_bind (rt_malloc fuel m h) (\<lambda>(nm, h). case nm of None \<Rightarrow> Done (None, h)
       | Some b \<Rightarrow> Done (Some b, rt_free (Some a) (copy_bytes b a (if sz < m then sz else m) h))))"
    using inh ra(1,4) unfolding rt_realloc_def Let_def m_def[symmetric] p(1) block_of_address sz_def heap_sizes
    by (simp only: option.case if_False simp_thms block_of_address)
  consider (no) "m > mem_size_aligned h" | (same) "\<not> m > mem_size_aligned h" "sz = m"
    | (shrink) "\<not> m > mem_size_aligned h" "sz \<noteq> m" "m + 16 + 12 < sz"
    | (copy) "\<not> m > mem_size_aligned h" "sz \<noteq> m" "\<not> m + 16 + 12 < sz" by blast
  then show ?thesis
  proof cases
    case no
    then show ?thesis unfolding code by simp
  next
    case same
    then have "moved a n h a h" using ok a usz ra(2) by (auto simp: moved_def same_frame_def m_def)
    with same show ?thesis unfolding code by simp
  next
    case shrink
    have "unat (m + 28) < unat sz" using shrink(3) by (simp add: word_less_nat_alt add.assoc)
    moreover have "unat (m + 28) = unat m + 28"
      using shrink(1) layoutD(2,3)[OF lay] layout_base(2)[OF lay] by (simp add: unat_word_ariths not_less word_le_nat_alt)
    ultimately have "unat m + 28 < unat sz" by simp
    note sk = shrink_keeps[OF inv p(2) sz_def _ _ this]
    obtain P' h' where h': "heap_inv h' P'" "users h' P' = users h P" "\<forall>r\<in>users h P - {p}. nx h' r = nx h r"
      "nx h' p = p + 16 + m" "unat (p + 16 + m) = unat p + 16 + unat m" "same_frame h h'"
      "rt_realloc fuel (Some a) n h = Done (Some a, h')"
      using sk[of thesis] rounded_ok[of n] shrink unfolding code m_def[symmetric] Let_def by auto
    have lv: "live h' = live h"
      using h'(2,6) unfolding live_def heap_inv_headers[OF h'(1)] P_def by (simp add: same_frame_address)
    have "room h' b = room h b" if b: "b \<in> live h - {a}" for b
    proof -
      obtain q where "b = mem_address h q" "q \<in> users h P" using b unfolding live_def P_def by blast
      moreover from this b p(1) have "q \<in> users h P - {p}" by auto
      ultimately show ?thesis using h'(3,6) by (simp add: room_def same_frame_address)
    qed
    moreover have "room h' a = unat m" using h'(4-6) by (simp add: room_def same_frame_address p(1))
    ultimately have "moved a n h a h'"
      using h'(1,6) lv a ra(2) heap_okI[OF h'(1)] by (auto simp: moved_def same_frame_def m_def)
    with h'(7) show ?thesis by simp
  next
    case copy
    from rt_malloc_ok[OF ok fuel, of m] obtain r h1 where
      r: "rt_malloc fuel m h = Done (r, h1)" "heap_ok h1" "same_frame h h1" "\<forall>a\<in>live h. room h1 a = room h a"
        "case r of None \<Rightarrow> h1 = h | Some b \<Rightarrow> b \<notin> live h \<and> live h1 = insert b (live h) \<and> unat (rounded m) \<le> room h1 b"
      by blast
    show ?thesis
    proof (cases r)
      case None
      with copy r show ?thesis unfolding code by simp
    next
      case (Some b)
      have "moved a n h b (rt_free (Some a) (copy_bytes b a (if sz < m then sz else m) h1))"
        using r Some ra(2,3) by (intro moved_by_copy[OF ok a r(2,3) _ _ r(4) _ _ refl usz]) (simp_all add: m_def)
      with copy r(1) Some show ?thesis unfolding code by simp
    qed
  qed
qed

lemma moved_needs:
  assumes "moved a n h a' h'" shows "heap_ok h'" "a' \<in> live h'" "unat n \<le> room h' a'"
  using assms by (auto simp: moved_def)

text \<open>A request near \<open>2^32\<close> wraps in \<open>RT_ALIGN\<close> and is served as one for 16 bytes.\<close>

lemma rt_malloc_wraps:
  assumes "heap_ok h" and "\<not> representable n"
  shows "rt_malloc fuel n h = rt_malloc fuel 16 h"
proof -
  have "16 \<le> mem_size_aligned h" using assms(1) by (auto simp: heap_ok_def intro: heap_room_min)
  moreover have "unat (RT_ALIGN n 16) = 0" using assms(2) by (simp add: RT_ALIGN_unat representable_def)
  then have "RT_ALIGN n 16 = 0" by (simp add: unat_eq_0)
  moreover have "n \<noteq> 0" using assms(2) by (auto simp: representable_def)
  moreover have "RT_ALIGN 16 16 = (16 :: u32)" by (simp add: RT_ALIGN_def)
  moreover have "\<not> mem_size_aligned h < 16" using calculation(1) by simp
  ultimately show ?thesis by (simp add: rt_malloc_def Let_def heap_sizes)
qed

section \<open>Properties\<close>

text \<open>An area of 256 bytes, to try the allocator on.\<close>

definition blank_heap :: heap where
  "blank_heap = \<lparr>heap_ptr = 0, heap_end = 0, lfree = 0, mem_size_aligned = 0, used_mem = 0, max_mem = 0,
     blocks = (\<lambda>_. \<lparr>magic = 0, used = 0, mem_next = 0, mem_prev = 0\<rparr>), contents = (\<lambda>_. 0)\<rparr>"

definition small_area :: heap where
  "small_area = rt_system_heap_init 0x1004 0x1100 blank_heap"

lemma small_area_ok: "heap_area 0x1004 0x1100" "heap_ok small_area" "live small_area = {}" "unat (heap_end small_area) div 32 < 9"
proof -
  show area: "heap_area 0x1004 0x1100" by (simp add: heap_area_def)
  note init = heap_init_ok[OF area, of blank_heap, folded small_area_def]
  from init show "heap_ok small_area" "live small_area = {}" by (simp_all add: blank_heap_def)
  have "unat (heap_end small_area) + 16 = 240" using init(3) by (simp add: blank_heap_def)
  then show "unat (heap_end small_area) div 32 < 9" by simp
qed

lemma empty_heap_grants:
  assumes ok: "heap_ok h" "live h = {}" and f: "unat (heap_end h) div 32 < fuel"
    and n: "n \<noteq> 0" "unat n + 16 \<le> unat (mem_size_aligned h)"
  shows "\<exists>a h'. rt_malloc fuel n h = Done (Some a, h')"
proof -
  define P where "P = headers h"
  have inv: "heap_inv h P" using ok(1) by (simp add: heap_ok_def P_def)
  then have lay: "layout h P" by (simp add: heap_inv_def)
  have e0: "0 < heap_end h" using layoutD(2)[OF lay] by (simp add: word_less_nat_alt)
  have z: "0 \<in> P" "used (blocks h 0) = 0" using layoutD(4)[OF lay] ok(2) e0 by (auto simp: live_def users_def P_def)
  have nx0: "nx h 0 = heap_end h"
    using layoutD(8)[OF lay z(1) e0] layout_less(1)[OF lay z(1) e0] empty_heap(1)[OF ok] by (auto simp: P_def)
  have top: "unat n \<le> 4294967280 - 32" using n(2) layoutD(2,3)[OF lay] layout_base(2)[OF lay] by simp
  then have rep: "representable n" by (simp add: representable_def)
  note ra = rounded_RT_ALIGN[OF rep n(1)]
  have "16 dvd unat (mem_size_aligned h) + 16" using layoutD(7)[OF lay layoutD(5)[OF lay]] layoutD(2)[OF lay] by simp
  then have dvd: "16 dvd unat (mem_size_aligned h)" by presburger
  have "unat (rounded n) = (unat n + 15) div 16 * 16" using ra(1) top by (simp add: heap_sizes RT_ALIGN_unat flip: ra(1))
  then have rn: "unat (rounded n) < unat (mem_size_aligned h)" using n(2) dvd by (auto elim!: dvdE)
  show ?thesis
  proof (cases rule: rt_malloc_cases[OF inv f, where sz = n])
    case 1
    have "0 < mem_size_aligned h - rounded n" using rn by (simp add: word_less_nat_alt unat_sub word_le_nat_alt)
    moreover have "rounded n \<le> nx h 0 - (0 + 16)" using rn layoutD(1)[OF lay] by (simp add: nx0 word_le_nat_alt)
    moreover have "\<not> mem_size_aligned h < RT_ALIGN n RT_ALIGN_SIZE" unfolding ra(1) using rn by (simp add: word_less_nat_alt)
    ultimately show ?thesis using 1(2) n(1) z by blast
  qed blast
qed

text \<open>A run from the initial heap.\<close>

lemma serve_from_init:
  assumes "heap_area b e" and "used_mem h0 = 0" and "unat e div 32 < fuel"
  shows "\<exists>held h. serve (rt_malloc fuel) give_back rs Map.empty (rt_system_heap_init b e h0) = Done (held, h) \<and>
    heap_ok h \<and> heap_ptr h = heap_ptr (rt_system_heap_init b e h0) \<and> heap_end h = heap_end (rt_system_heap_init b e h0) \<and>
    unat (heap_end h) div 32 < fuel \<and> dom held = live h \<and>
    (\<forall>a n. held a = Some n \<longrightarrow> representable n \<longrightarrow> unat n \<le> room h a)"
proof -
  let ?h = "rt_system_heap_init b e h0"
  note init = heap_init_ok[OF assms(1,2)]
  have "unat (heap_end ?h) \<le> unat e" using init(3) by simp
  then have f: "unat (heap_end ?h) div 32 < fuel" using assms(3) by (meson div_le_mono le_less_trans)
  have "small_heap.honoured fuel (heap_ptr ?h) (heap_end ?h) Map.empty ?h"
    using init f by (simp add: small_heap.honoured_def heap_ready_def)
  from small_heap.serve_honours[OF this, of rs] show ?thesis
    by (auto simp: small_heap.honoured_def heap_ready_def)
qed

lemma small_area_first: "\<exists>h. rt_malloc 137 20 small_area = Done (Some 0x1020, h)"
proof -
  have "(case rt_malloc 137 20 small_area of Done (r, h) \<Rightarrow> r | _ \<Rightarrow> None) = Some 0x1020" by code_simp
  then show ?thesis by (auto split: exec.splits)
qed

lemma small_area_live: "\<exists>h. heap_ok h \<and> unat (heap_end h) div 32 < 9 \<and> 0x1020 \<in> live h"
proof -
  obtain h where h: "rt_malloc 137 20 small_area = Done (Some 0x1020, h)" using small_area_first by blast
  have "unat (heap_end small_area) div 32 < 137" using small_area_ok(4) by simp
  from rt_malloc_ok[OF small_area_ok(2) this, of 20] h small_area_ok(4) show ?thesis by (auto simp: same_frame_def)
qed

text \<open>C30. Whatever requests are made of a heap that \<open>rt_system_heap_init\<close> has just set up, and in
  whatever order regions come back, every call returns; the regions in use are those the client holds;
  each lies in the area given to the heap, at a multiple of 16, has at least the bytes asked for
  (sizes above \<open>0xFFFFFFF0\<close> excepted: \<open>RT_ALIGN\<close> wraps there), and no two share a byte.\<close>

theorem heap_regions_apart:
  assumes "heap_area b e" and "used_mem h0 = 0" and "unat e div 32 < fuel"
  shows "\<exists>held h. serve (rt_malloc fuel) give_back rs Map.empty (rt_system_heap_init b e h0) = Done (held, h) \<and>
    dom held = live h \<and>
    (\<forall>a n. held a = Some n \<longrightarrow> representable n \<longrightarrow> unat n \<le> room h a) \<and>
    (\<forall>a\<in>dom held. 16 dvd unat a \<and> region h a \<subseteq> {unat b..<unat e}) \<and>
    (\<forall>a\<in>dom held. \<forall>c\<in>dom held. a \<noteq> c \<longrightarrow> region h a \<inter> region h c = {})"
proof -
  let ?h = "rt_system_heap_init b e h0"
  note run = serve_from_init[OF assms(1-3), of rs]
  then obtain held h where h: "serve (rt_malloc fuel) give_back rs Map.empty ?h = Done (held, h)"
    "heap_ok h" "heap_ptr h = heap_ptr ?h" "heap_end h = heap_end ?h" "dom held = live h"
    "\<forall>a n. held a = Some n \<longrightarrow> representable n \<longrightarrow> unat n \<le> room h a" by blast
  note init = heap_init_ok(3,4)[OF assms(1,2)]
  have "unat b \<le> unat (heap_ptr ?h)" "unat (heap_ptr ?h) + unat (heap_end ?h) \<le> unat e"
    using init assms(1) by (auto simp: heap_area_def)
  then have "region h a \<subseteq> {unat b..<unat e}" if "a \<in> live h" for a
    using region_in_heap(1)[OF h(2) that] unfolding h(3,4) by fastforce
  then show ?thesis
    using h region_in_heap(2)[OF h(2)] regions_apart[OF h(2)]
    by (intro exI[of _ held] exI[of _ h]) (simp only: simp_thms; blast)
qed

theorem heap_regions_apart_witness:
  "\<exists>held h. serve (rt_malloc 137) give_back [Want 20, Want 33, Give_Back 0x1020, Want 8] Map.empty small_area = Done (held, h) \<and>
    dom held = live h \<and>
    (\<forall>a n. held a = Some n \<longrightarrow> representable n \<longrightarrow> unat n \<le> room h a) \<and>
    (\<forall>a\<in>dom held. 16 dvd unat a \<and> region h a \<subseteq> {0x1004..<0x1100}) \<and>
    (\<forall>a\<in>dom held. \<forall>c\<in>dom held. a \<noteq> c \<longrightarrow> region h a \<inter> region h c = {})"
  using heap_regions_apart[OF small_area_ok(1), of blank_heap 137 "[Want 20, Want 33, Give_Back 0x1020, Want 8]"]
  by (simp add: small_area_def blank_heap_def)

text \<open>C31. When the client has given everything back, the heap is one free block again, the counter of
  used bytes is zero, and any request smaller than the heap is granted: nothing has been lost.\<close>

theorem heap_comes_back:
  assumes "heap_area b e" and "used_mem h0 = 0" and "unat e div 32 < fuel"
    and run: "serve (rt_malloc fuel) give_back rs Map.empty (rt_system_heap_init b e h0) = Done (held, h)"
    and "dom held = {}"
  shows "headers h = {0, heap_end h} \<and> used_mem h = 0 \<and>
    (\<forall>n. n \<noteq> 0 \<longrightarrow> unat n + 16 \<le> unat (mem_size_aligned h) \<longrightarrow> (\<exists>a h'. rt_malloc fuel n h = Done (Some a, h')))"
proof -
  from serve_from_init[OF assms(1-3), of rs] run assms(5) have ok: "heap_ok h" "live h = {}"
    and f: "unat (heap_end h) div 32 < fuel" by auto
  show ?thesis using empty_heap[OF ok] empty_heap_grants[OF ok f] by blast
qed

theorem heap_comes_back_witness:
  "\<exists>h. serve (rt_malloc 137) give_back [Want 20, Give_Back 0x1020] Map.empty small_area = Done (Map.empty, h) \<and>
    headers h = {0, heap_end h} \<and> used_mem h = 0"
proof -
  obtain h where "rt_malloc 137 20 small_area = Done (Some 0x1020, h)" using small_area_first by blast
  then have "serve (rt_malloc 137) give_back [Want 20, Give_Back 0x1020] Map.empty small_area = Done (Map.empty, give_back 0x1020 h)"
    by simp
  note run = this
  have "used_mem blank_heap = 0" "unat (0x1100 :: u32) div 32 < 137" by (simp_all add: blank_heap_def)
  from heap_comes_back[OF small_area_ok(1) this run[unfolded small_area_def]] run show ?thesis by auto
qed

text \<open>C32. \<open>rt_realloc\<close> of a region in use returns. When it returns a region, that region has the bytes
  asked for, begins with the bytes of the old one (as many as fit), and is in use in its place, while
  every other region keeps its place, its room and its bytes. When it returns none, the heap is as it was.\<close>

theorem rt_realloc_keeps_bytes:
  assumes "heap_ok h" and "unat (heap_end h) div 32 < fuel" and "a \<in> live h" and "representable n" and "n \<noteq> 0"
  shows "\<exists>r h'. rt_realloc fuel (Some a) n h = Done (r, h') \<and>
    (case r of
       None \<Rightarrow> h' = h
     | Some a' \<Rightarrow> heap_ok h' \<and> live h' = insert a' (live h - {a}) \<and> unat n \<le> room h' a' \<and>
         (\<forall>i<min (room h a) (unat n). contents h' (a' + of_nat i) = contents h (a + of_nat i)) \<and>
         (\<forall>c\<in>live h - {a}. c \<noteq> a' \<and> room h' c = room h c \<and>
            (\<forall>i<room h c. contents h' (c + of_nat i) = contents h (c + of_nat i))))"
proof -
  from rt_realloc_moves[OF assms] obtain r h' where
    r: "rt_realloc fuel (Some a) n h = Done (r, h')" "case r of None \<Rightarrow> h' = h | Some a' \<Rightarrow> moved a n h a' h'" by blast
  then show ?thesis by (cases r) (auto simp: moved_def)
qed

theorem rt_realloc_keeps_bytes_witness:
  "\<exists>h r h'. 0x1020 \<in> live h \<and> rt_realloc 9 (Some 0x1020) 50 h = Done (r, h') \<and>
    (case r of None \<Rightarrow> h' = h
     | Some a' \<Rightarrow> 50 \<le> room h' a' \<and> (\<forall>i<min (room h 0x1020) 50. contents h' (a' + of_nat i) = contents h (0x1020 + of_nat i)))"
proof -
  obtain h where h: "heap_ok h" "unat (heap_end h) div 32 < 9" "0x1020 \<in> live h" using small_area_live by blast
  have "representable 50" by (simp add: representable_def)
  from rt_realloc_keeps_bytes[OF h this] obtain r h' where r: "rt_realloc 9 (Some 0x1020) 50 h = Done (r, h')"
    "case r of None \<Rightarrow> h' = h
     | Some a' \<Rightarrow> 50 \<le> room h' a' \<and> (\<forall>i<min (room h 0x1020) 50. contents h' (a' + of_nat i) = contents h (0x1020 + of_nat i))"
    by (force split: option.splits)
  with h(3) show ?thesis by blast
qed

end
