(* ===== verification/Kstring.thy ===== *)
theory Kstring
  imports Prelude
begin

text \<open>
  Bytes and strings: the routines at the head of \<^verbatim>\<open>rt-thread-nano-3.1.5/src/kservice.c\<close>, with
  their loops over words, and the plain loops of \<^verbatim>\<open>sw/bsp/lib/memory.c\<close>. Memory is a partial
  function from addresses to bytes; an access to an address that is not mapped is a fault. \<open>char\<close>
  is unsigned and \<open>long\<close> has four bytes, in little-endian order, as on the target.
\<close>

section \<open>Memory\<close>

type_synonym memory = "u32 \<Rightarrow> u8 option"

definition load8 :: "memory \<Rightarrow> u32 \<Rightarrow> u8 exec" where
  "load8 m a = (case m a of None \<Rightarrow> Fault | Some x \<Rightarrow> Done x)"

definition store8 :: "u32 \<Rightarrow> u8 \<Rightarrow> memory \<Rightarrow> memory exec" where
  "store8 a x m = (if m a = None then Fault else Done (m(a \<mapsto> x)))"

definition byte_of :: "u32 \<Rightarrow> nat \<Rightarrow> u8" where
  "byte_of w i = ucast (drop_bit (8 * i) w)"

definition load32 :: "memory \<Rightarrow> u32 \<Rightarrow> u32 exec" where
  "load32 m a =
     exec_bind (load8 m a) (\<lambda>b0. exec_bind (load8 m (a + 1)) (\<lambda>b1.
     exec_bind (load8 m (a + 2)) (\<lambda>b2. exec_bind (load8 m (a + 3)) (\<lambda>b3.
       Done (ucast b0 OR push_bit 8 (ucast b1) OR push_bit 16 (ucast b2) OR push_bit 24 (ucast b3))))))"

definition store32 :: "u32 \<Rightarrow> u32 \<Rightarrow> memory \<Rightarrow> memory exec" where
  "store32 a w m =
     exec_bind (store8 a (byte_of w 0) m) (\<lambda>m. exec_bind (store8 (a + 1) (byte_of w 1) m) (\<lambda>m.
     exec_bind (store8 (a + 2) (byte_of w 2) m) (\<lambda>m. store8 (a + 3) (byte_of w 3) m)))"

section \<open>Filling and copying\<close>

text \<open>\<open>memset\<close> and \<open>memcpy\<close> of \<open>memory.c\<close>, byte by byte.\<close>

fun memset :: "u32 \<Rightarrow> u32 \<Rightarrow> nat \<Rightarrow> memory \<Rightarrow> memory exec" where
  "memset out v 0 m = Done m"
| "memset out v (Suc n) m = exec_bind (store8 out (ucast v) m) (\<lambda>m. memset (out + 1) v n m)"

fun memcpy :: "u32 \<Rightarrow> u32 \<Rightarrow> nat \<Rightarrow> memory \<Rightarrow> memory exec" where
  "memcpy out src 0 m = Done m"
| "memcpy out src (Suc n) m =
     exec_bind (load8 m src) (\<lambda>x. exec_bind (store8 out x m) (\<lambda>m. memcpy (out + 1) (src + 1) n m))"

definition LBLOCKSIZE :: nat where [code_unfold]: "LBLOCKSIZE = 4"

text \<open>\<open>UNALIGNED(X)\<close> and \<open>TOO_SMALL(LEN)\<close>.\<close>

definition unaligned :: "u32 \<Rightarrow> bool" where "unaligned a \<longleftrightarrow> a AND of_nat (LBLOCKSIZE - 1) \<noteq> 0"
definition unaligned2 :: "u32 \<Rightarrow> u32 \<Rightarrow> bool" where
  "unaligned2 a b \<longleftrightarrow> (a AND of_nat (LBLOCKSIZE - 1)) OR (b AND of_nat (LBLOCKSIZE - 1)) \<noteq> 0"

text \<open>The loops over words return how far they got.\<close>

function set_blocks :: "u32 \<Rightarrow> u32 \<times> nat \<times> memory \<Rightarrow> (u32 \<times> nat \<times> memory) exec" where
  "set_blocks buffer (a, n, m) =
     (if n \<ge> LBLOCKSIZE * 4 then
        exec_bind (store32 a buffer m) (\<lambda>m. exec_bind (store32 (a + 4) buffer m) (\<lambda>m.
        exec_bind (store32 (a + 8) buffer m) (\<lambda>m. exec_bind (store32 (a + 12) buffer m) (\<lambda>m.
          set_blocks buffer (a + 16, n - 4 * LBLOCKSIZE, m)))))
      else Done (a, n, m))"
  by pat_completeness auto
termination by (relation "measure (\<lambda>(buffer, a, n, m). n)") (auto simp: LBLOCKSIZE_def)

function set_words :: "u32 \<Rightarrow> u32 \<times> nat \<times> memory \<Rightarrow> (u32 \<times> nat \<times> memory) exec" where
  "set_words buffer (a, n, m) =
     (if n \<ge> LBLOCKSIZE then exec_bind (store32 a buffer m) (\<lambda>m. set_words buffer (a + 4, n - LBLOCKSIZE, m))
      else Done (a, n, m))"
  by pat_completeness auto
termination by (relation "measure (\<lambda>(buffer, a, n, m). n)") (auto simp: LBLOCKSIZE_def)

fun set_bytes :: "u8 \<Rightarrow> u32 \<times> nat \<times> memory \<Rightarrow> memory exec" where
  "set_bytes d (a, 0, m) = Done m"
| "set_bytes d (a, Suc n, m) = exec_bind (store8 a d m) (\<lambda>m. set_bytes d (a + 1, n, m))"

definition rt_memset :: "u32 \<Rightarrow> u32 \<Rightarrow> u32 \<Rightarrow> memory \<Rightarrow> memory exec" where
  "rt_memset s c count m =
     (let d = c AND 0xff;
          start = (s, unat count, m)
      in if \<not> unat count < LBLOCKSIZE \<and> \<not> unaligned s then
           (let buffer = push_bit 8 d OR d;
                buffer = buffer OR push_bit 16 buffer
            in exec_bind (set_blocks buffer start) (\<lambda>r. exec_bind (set_words buffer r) (set_bytes (ucast d))))
         else set_bytes (ucast d) start)"

definition copy_word :: "u32 \<Rightarrow> u32 \<Rightarrow> memory \<Rightarrow> memory exec" where
  "copy_word d s m = exec_bind (load32 m s) (\<lambda>w. store32 d w m)"

function copy_blocks :: "u32 \<times> u32 \<times> nat \<times> memory \<Rightarrow> (u32 \<times> u32 \<times> nat \<times> memory) exec" where
  "copy_blocks (d, s, n, m) =
     (if n \<ge> LBLOCKSIZE * 4 then
        exec_bind (copy_word d s m) (\<lambda>m. exec_bind (copy_word (d + 4) (s + 4) m) (\<lambda>m.
        exec_bind (copy_word (d + 8) (s + 8) m) (\<lambda>m. exec_bind (copy_word (d + 12) (s + 12) m) (\<lambda>m.
          copy_blocks (d + 16, s + 16, n - LBLOCKSIZE * 4, m)))))
      else Done (d, s, n, m))"
  by pat_completeness auto
termination by (relation "measure (\<lambda>(d, s, n, m). n)") (auto simp: LBLOCKSIZE_def)

function copy_words :: "u32 \<times> u32 \<times> nat \<times> memory \<Rightarrow> (u32 \<times> u32 \<times> nat \<times> memory) exec" where
  "copy_words (d, s, n, m) =
     (if n \<ge> LBLOCKSIZE then exec_bind (copy_word d s m) (\<lambda>m. copy_words (d + 4, s + 4, n - LBLOCKSIZE, m))
      else Done (d, s, n, m))"
  by pat_completeness auto
termination by (relation "measure (\<lambda>(d, s, n, m). n)") (auto simp: LBLOCKSIZE_def)

fun copy_rest :: "u32 \<times> u32 \<times> nat \<times> memory \<Rightarrow> memory exec" where
  "copy_rest (d, s, 0, m) = Done m"
| "copy_rest (d, s, Suc n, m) =
     exec_bind (load8 m s) (\<lambda>x. exec_bind (store8 d x m) (\<lambda>m. copy_rest (d + 1, s + 1, n, m)))"

text \<open>
  \<open>len\<close> is an \<open>int\<close>, but every comparison of it is unsigned. Counts of \<open>2^31\<close> and more, for which
  C leaves the conversion and the decrement of \<open>len\<close> open, are read as the target's wrap-around.
\<close>

definition rt_memcpy :: "u32 \<Rightarrow> u32 \<Rightarrow> u32 \<Rightarrow> memory \<Rightarrow> memory exec" where
  "rt_memcpy dst src count m =
     (let start = (dst, src, unat count, m)
      in if \<not> unat count < LBLOCKSIZE * 4 \<and> \<not> unaligned2 src dst
         then exec_bind (copy_blocks start) (\<lambda>r. exec_bind (copy_words r) copy_rest)
         else copy_rest start)"

fun move_down :: "u32 \<Rightarrow> u32 \<Rightarrow> nat \<Rightarrow> memory \<Rightarrow> memory exec" where
  "move_down tmp s 0 m = Done m"
| "move_down tmp s (Suc n) m =
     exec_bind (load8 m (s - 1)) (\<lambda>x. exec_bind (store8 (tmp - 1) x m) (\<lambda>m. move_down (tmp - 1) (s - 1) n m))"

definition rt_memmove :: "u32 \<Rightarrow> u32 \<Rightarrow> u32 \<Rightarrow> memory \<Rightarrow> memory exec" where
  "rt_memmove dest src n m =
     (if src < dest \<and> dest < src + n then move_down (dest + n) (src + n) (unat n) m
      else copy_rest (dest, src, unat n, m))"

text \<open>The difference of the first bytes that differ.\<close>

fun rt_memcmp :: "u32 \<Rightarrow> u32 \<Rightarrow> nat \<Rightarrow> memory \<Rightarrow> int exec" where
  "rt_memcmp cs ct 0 m = Done 0"
| "rt_memcmp cs ct (Suc n) m =
     exec_bind (load8 m cs) (\<lambda>x. exec_bind (load8 m ct) (\<lambda>y.
       let res = uint x - uint y in if res \<noteq> 0 then Done res else rt_memcmp (cs + 1) (ct + 1) n m))"

section \<open>Strings\<close>

text \<open>Where a string ends is not known beforehand: the loops have fuel for its length.\<close>

fun strlen_from :: "nat \<Rightarrow> u32 \<Rightarrow> u32 \<Rightarrow> memory \<Rightarrow> u32 exec" where
  "strlen_from 0 s sc m = Out_Of_Fuel"
| "strlen_from (Suc fuel) s sc m =
     exec_bind (load8 m sc) (\<lambda>x. if x \<noteq> 0 then strlen_from fuel s (sc + 1) m else Done (sc - s))"

definition rt_strlen :: "nat \<Rightarrow> u32 \<Rightarrow> memory \<Rightarrow> u32 exec" where
  "rt_strlen fuel s m = strlen_from fuel s s m"

text \<open>The byte is read before the length is compared with \<open>maxlen\<close>.\<close>

fun strnlen_from :: "nat \<Rightarrow> u32 \<Rightarrow> u32 \<Rightarrow> u32 \<Rightarrow> memory \<Rightarrow> u32 exec" where
  "strnlen_from 0 s maxlen sc m = Out_Of_Fuel"
| "strnlen_from (Suc fuel) s maxlen sc m =
     exec_bind (load8 m sc) (\<lambda>x.
       if x \<noteq> 0 \<and> sc - s < maxlen then strnlen_from fuel s maxlen (sc + 1) m else Done (sc - s))"

definition rt_strnlen :: "nat \<Rightarrow> u32 \<Rightarrow> u32 \<Rightarrow> memory \<Rightarrow> u32 exec" where
  "rt_strnlen fuel s maxlen m = strnlen_from fuel s maxlen s m"

fun rt_strcmp :: "nat \<Rightarrow> u32 \<Rightarrow> u32 \<Rightarrow> memory \<Rightarrow> int exec" where
  "rt_strcmp 0 cs ct m = Out_Of_Fuel"
| "rt_strcmp (Suc fuel) cs ct m =
     exec_bind (load8 m cs) (\<lambda>x. exec_bind (load8 m ct) (\<lambda>y.
       if x \<noteq> 0 \<and> x = y then rt_strcmp fuel (cs + 1) (ct + 1) m else Done (uint x - uint y)))"

text \<open>\<open>__res\<close> is a signed char: the difference is cut to eight bits.\<close>

fun rt_strncmp :: "u32 \<Rightarrow> u32 \<Rightarrow> nat \<Rightarrow> memory \<Rightarrow> int exec" where
  "rt_strncmp cs ct 0 m = Done 0"
| "rt_strncmp cs ct (Suc n) m =
     exec_bind (load8 m cs) (\<lambda>x. exec_bind (load8 m ct) (\<lambda>y.
       let res = sint (x - y) in if res \<noteq> 0 \<or> x = 0 then Done res
         else rt_strncmp (cs + 1) (ct + 1) n m))"

definition lower_case :: "u8 \<Rightarrow> int" where
  "lower_case x = (let c = uint x in if c \<ge> 65 \<and> c \<le> 90 then c + 32 else c)"

fun rt_strcasecmp :: "nat \<Rightarrow> u32 \<Rightarrow> u32 \<Rightarrow> memory \<Rightarrow> int exec" where
  "rt_strcasecmp 0 a b m = Out_Of_Fuel"
| "rt_strcasecmp (Suc fuel) a b m =
     exec_bind (load8 m a) (\<lambda>x. exec_bind (load8 m b) (\<lambda>y.
       let ca = lower_case x; cb = lower_case y
       in if ca = cb \<and> ca \<noteq> 0 then rt_strcasecmp fuel (a + 1) (b + 1) m else Done (ca - cb)))"

fun rt_strncpy :: "u32 \<Rightarrow> u32 \<Rightarrow> nat \<Rightarrow> memory \<Rightarrow> memory exec" where
  "rt_strncpy d s 0 m = Done m"
| "rt_strncpy d s (Suc n) m =
     exec_bind (load8 m s) (\<lambda>x. exec_bind (store8 d x m) (\<lambda>m.
       if x = 0 then set_bytes 0 (d + 1, n, m) else rt_strncpy (d + 1) (s + 1) n m))"

text \<open>\<open>l1\<close> is the length of what is left of \<open>s1\<close>.\<close>

fun strstr_from :: "nat \<Rightarrow> u32 \<Rightarrow> u32 \<Rightarrow> nat \<Rightarrow> memory \<Rightarrow> u32 option exec" where
  "strstr_from l1 s1 s2 l2 m =
     (if l1 \<ge> l2 \<and> l1 > 0 then
        exec_bind (rt_memcmp s1 s2 l2 m) (\<lambda>r.
          if r = 0 then Done (Some s1) else strstr_from (l1 - 1) (s1 + 1) s2 l2 m)
      else Done None)"

declare strstr_from.simps [simp del]

definition rt_strstr :: "nat \<Rightarrow> u32 \<Rightarrow> u32 \<Rightarrow> memory \<Rightarrow> u32 option exec" where
  "rt_strstr fuel s1 s2 m =
     exec_bind (rt_strlen fuel s2 m) (\<lambda>l2.
       if l2 = 0 then Done (Some s1)
       else exec_bind (rt_strlen fuel s1 m) (\<lambda>l1. strstr_from (unat l1) s1 s2 (unat l2) m))"

section \<open>The word loops are byte loops\<close>

declare set_blocks.simps [simp del] set_words.simps [simp del] copy_blocks.simps [simp del] copy_words.simps [simp del]

text \<open>The loops as functions of the memory.\<close>

lemma memset_fun:
  "memset a v 0 = Done" "memset a v (Suc n) = (\<lambda>m. exec_bind (store8 a (ucast v) m) (memset (a + 1) v n))"
  by (simp_all add: fun_eq_iff)

lemma memcpy_fun:
  "memcpy d s 0 = Done"
  "memcpy d s (Suc n) = (\<lambda>m. exec_bind (load8 m s) (\<lambda>x. exec_bind (store8 d x m) (memcpy (d + 1) (s + 1) n)))"
  by (simp_all add: fun_eq_iff)

lemma memset_add: "memset a v (n + k) = (\<lambda>m. exec_bind (memset a v n m) (memset (a + of_nat n) v k))"
  by (induction n arbitrary: a) (simp_all add: memset_fun exec_bind_assoc add_ac)

lemma memcpy_add: "memcpy d s (n + k) = (\<lambda>m. exec_bind (memcpy d s n m) (memcpy (d + of_nat n) (s + of_nat n) k))"
  by (induction n arbitrary: d s) (simp_all add: memcpy_fun exec_bind_assoc add_ac)

lemma memset_4: "n \<ge> 4 \<Longrightarrow> memset a v n = (\<lambda>m. exec_bind (memset a v 4 m) (memset (a + 4) v (n - 4)))"
  using memset_add[of a v 4 "n - 4"] by simp

lemma memcpy_4: "n \<ge> 4 \<Longrightarrow> memcpy d s n = (\<lambda>m. exec_bind (memcpy d s 4 m) (memcpy (d + 4) (s + 4) (n - 4)))"
  using memcpy_add[of d s 4 "n - 4"] by simp

text \<open>The low byte of a word.\<close>

lemma and_255: "c AND 0xff = take_bit 8 (c :: u32)"
  by (simp add: take_bit_eq_mask mask_eq_exp_minus_1)

lemma set_bytes_memset: "set_bytes (ucast v) (a, n, m) = memset a v n m"
  by (induction n arbitrary: a m) simp_all

lemma copy_rest_memcpy: "copy_rest (d, s, n, m) = memcpy d s n m"
  by (induction n arbitrary: d s m) simp_all

lemma byte_of_buffer:
  assumes "i < 4" and that: "d = c AND 0xff"
  shows "byte_of ((push_bit 8 d OR d) OR push_bit 16 (push_bit 8 d OR d)) i = ucast c"
proof -
  have "i = 0 \<or> i = 1 \<or> i = 2 \<or> i = 3" using assms(1) by auto
  then show ?thesis
    unfolding that and_255 byte_of_def by (intro bit_word_eqI) (auto simp: bit_simps)
qed

lemma store32_memset:
  assumes "\<And>i. i < 4 \<Longrightarrow> byte_of buffer i = ucast v"
  shows "store32 a buffer m = memset a v 4 m"
proof -
  have "memset a v 4 = memset a v (Suc (Suc (Suc (Suc 0))))" by (simp add: numeral_eq_Suc)
  then show ?thesis using assms[of 0] assms[of 1] assms[of 2] assms[of 3] by (simp add: memset_fun store32_def add.assoc)
qed

lemma set_loops_memset:
  assumes "\<And>i. i < 4 \<Longrightarrow> byte_of buffer i = ucast v"
  shows "exec_bind (set_words buffer (a, n, m)) (set_bytes (ucast v)) = memset a v n m"
    and "exec_bind (set_blocks buffer (a, n, m)) (\<lambda>r. exec_bind (set_words buffer r) (set_bytes (ucast v))) = memset a v n m"
proof -
  note w = store32_memset[OF assms]
  show words: "exec_bind (set_words buffer (a, n, m)) (set_bytes (ucast v)) = memset a v n m" for a n m
  proof (induction n arbitrary: a m rule: less_induct)
    case (less n)
    show ?case
    proof (cases "n \<ge> 4")
      case True
      then show ?thesis
        using less.IH[of "n - 4"] by (subst set_words.simps) (simp add: LBLOCKSIZE_def w exec_bind_assoc memset_4[OF True])
    next
      case False
      then show ?thesis by (subst set_words.simps) (simp add: LBLOCKSIZE_def set_bytes_memset)
    qed
  qed
  show "exec_bind (set_blocks buffer (a, n, m)) (\<lambda>r. exec_bind (set_words buffer r) (set_bytes (ucast v))) = memset a v n m"
  proof (induction n arbitrary: a m rule: less_induct)
    case (less n)
    show ?case
    proof (cases "n \<ge> 16")
      case True
      then have "memset a v n = (\<lambda>m. exec_bind (memset a v 4 m) (\<lambda>m. exec_bind (memset (a + 4) v 4 m) (\<lambda>m.
          exec_bind (memset (a + 8) v 4 m) (\<lambda>m. exec_bind (memset (a + 12) v 4 m) (memset (a + 16) v (n - 16))))))"
        by (simp add: memset_4[of n] memset_4[of "n - 4"] memset_4[of "n - 8"] memset_4[of "n - 12"] exec_bind_assoc add.assoc)
      then show ?thesis
        using True less.IH[of "n - 16"] by (subst set_blocks.simps) (simp add: LBLOCKSIZE_def w exec_bind_assoc)
    next
      case False
      then show ?thesis by (subst set_blocks.simps) (simp add: LBLOCKSIZE_def words)
    qed
  qed
qed

lemma rt_memset_is_memset: "rt_memset s c count m = memset s c (unat count) m"
proof -
  have u: "ucast (c AND 0xff) = (ucast c :: u8)"
    unfolding and_255 by (intro bit_word_eqI) (auto simp: bit_simps)
  show ?thesis
    unfolding rt_memset_def Let_def u
    using set_loops_memset(2)[OF byte_of_buffer[OF _ refl], of c s "unat count" m] by (auto simp: set_bytes_memset)
qed

text \<open>Aligned words that overlap are the same word.\<close>

lemma aligned_mod: "a AND of_nat (LBLOCKSIZE - 1) = (0 :: u32) \<longleftrightarrow> unat a mod 4 = 0"
proof -
  have "a AND 3 = take_bit 2 a" by (simp add: take_bit_eq_mask mask_eq_exp_minus_1)
  moreover have "take_bit 2 a = 0 \<longleftrightarrow> take_bit 2 (unat a) = 0" by (simp add: unat_eq_0 flip: unsigned_take_bit_eq)
  ultimately show ?thesis by (simp add: LBLOCKSIZE_def take_bit_eq_mod)
qed

lemma offset_mod:
  assumes "unat (a :: u32) mod 4 = 0" and "i \<le> 4"
  shows "unat (a + of_nat i) mod 4 = i mod 4"
proof -
  have "unat (of_nat i :: u32) = i" using assms(2) by (intro unat_of_nat_small) simp
  then have "unat (a + of_nat i) = (unat a + i) mod 4294967296" by (simp add: unat_word_ariths)
  also have "\<dots> mod 4 = (unat a + i) mod 4" by (rule mod_mod_cancel) simp
  also have "\<dots> = (unat a mod 4 + i) mod 4" by (rule mod_add_left_eq[symmetric])
  finally show ?thesis using assms(1) by simp
qed

lemma aligned_step: "unat (a :: u32) mod 4 = 0 \<Longrightarrow> unat (a + 4) mod 4 = 0"
  using offset_mod[of a 4] by simp

lemma word_bytes:
  fixes b0 b1 b2 b3 :: u8
  defines "w \<equiv> ucast b0 OR push_bit 8 (ucast b1) OR push_bit 16 (ucast b2) OR push_bit 24 (ucast b3) :: u32"
  shows "byte_of w 0 = b0" "byte_of w 1 = b1" "byte_of w 2 = b2" "byte_of w 3 = b3"
  by (intro bit_word_eqI; auto simp: byte_of_def w_def bit_simps dest: bit_imp_le_length)+


lemma copy_word_memcpy:
  assumes d: "unat d mod 4 = 0" and s: "unat s mod 4 = 0"
  shows "copy_word d s m = memcpy d s 4 m"
proof -
  have other: "s + of_nat i \<noteq> d + of_nat j" if "i < 4" "j < 4" "i \<noteq> j" for i j
  proof
    assume "s + of_nat i = d + of_nat j"
    then have "unat (s + of_nat i) mod 4 = unat (d + of_nat j) mod 4" by simp
    with offset_mod[OF s, of i] offset_mod[OF d, of j] that show False by simp
  qed
  have n: "s + 1 \<noteq> d" "s + 2 \<noteq> d" "s + 3 \<noteq> d" "s + 2 \<noteq> d + 1" "s + 3 \<noteq> d + 1" "s + 3 \<noteq> d + 2"
    using other[of 1 0] other[of 2 0] other[of 3 0] other[of 2 1] other[of 3 1] other[of 3 2] by simp_all
  have "memcpy d s 4 m = memcpy d s (Suc (Suc (Suc (Suc 0)))) m" by (simp add: numeral_eq_Suc)
  also have "\<dots> = copy_word d s m"
    unfolding copy_word_def load32_def store32_def
    by (cases "m s"; cases "m (s + 1)"; cases "m (s + 2)"; cases "m (s + 3)")
      (simp_all add: memcpy_fun load8_def store8_def word_bytes word_bytes(2)[unfolded One_nat_def] n add.assoc)
  finally show ?thesis by simp
qed


lemma copy_loops_memcpy:
  assumes "unat d mod 4 = 0" and "unat s mod 4 = 0"
  shows "exec_bind (copy_words (d, s, n, m)) copy_rest = memcpy d s n m"
    and "exec_bind (copy_blocks (d, s, n, m)) (\<lambda>r. exec_bind (copy_words r) copy_rest) = memcpy d s n m"
proof -
  have words: "unat d mod 4 = 0 \<Longrightarrow> unat s mod 4 = 0 \<Longrightarrow> exec_bind (copy_words (d, s, n, m)) copy_rest = memcpy d s n m"
    for d s n m
  proof (induction n arbitrary: d s m rule: less_induct)
    case (less n)
    show ?case
    proof (cases "n \<ge> 4")
      case True
      then show ?thesis
        using less.IH[of "n - 4"] less.prems
        by (subst copy_words.simps)
          (simp add: LBLOCKSIZE_def copy_word_memcpy exec_bind_assoc memcpy_4[OF True] aligned_step)
    next
      case False
      then show ?thesis by (subst copy_words.simps) (simp add: LBLOCKSIZE_def copy_rest_memcpy)
    qed
  qed
  show "exec_bind (copy_words (d, s, n, m)) copy_rest = memcpy d s n m" by (rule words[OF assms])
  show "exec_bind (copy_blocks (d, s, n, m)) (\<lambda>r. exec_bind (copy_words r) copy_rest) = memcpy d s n m"
    using assms
  proof (induction n arbitrary: d s m rule: less_induct)
    case (less n)
    show ?case
    proof (cases "n \<ge> 16")
      case True
      have al: "unat (a + 4) mod 4 = 0" "unat (a + 8) mod 4 = 0" "unat (a + 12) mod 4 = 0" "unat (a + 16) mod 4 = 0"
        if "unat a mod 4 = 0" for a :: u32
        using aligned_step[OF that] aligned_step[of "a + 4"] aligned_step[of "a + 8"] aligned_step[of "a + 12"]
        by (simp_all add: add.assoc)
      have "memcpy d s n = (\<lambda>m. exec_bind (memcpy d s 4 m) (\<lambda>m. exec_bind (memcpy (d + 4) (s + 4) 4 m) (\<lambda>m.
          exec_bind (memcpy (d + 8) (s + 8) 4 m) (\<lambda>m. exec_bind (memcpy (d + 12) (s + 12) 4 m) (memcpy (d + 16) (s + 16) (n - 16))))))"
        using True
        by (simp add: memcpy_4[of n] memcpy_4[of "n - 4"] memcpy_4[of "n - 8"] memcpy_4[of "n - 12"] exec_bind_assoc add.assoc)
      then show ?thesis
        using True less.IH[of "n - 16"] less.prems al
        by (subst copy_blocks.simps) (simp add: LBLOCKSIZE_def copy_word_memcpy exec_bind_assoc)
    next
      case False
      then show ?thesis using words[OF less.prems] by (subst copy_blocks.simps) (simp add: LBLOCKSIZE_def)
    qed
  qed
qed

lemma rt_memcpy_eq: "rt_memcpy dst src count m = memcpy dst src (unat count) m"
proof (cases "\<not> unat count < LBLOCKSIZE * 4 \<and> \<not> unaligned2 src dst")
  case True
  then have "src AND of_nat (LBLOCKSIZE - 1) = 0" "dst AND of_nat (LBLOCKSIZE - 1) = 0"
    by (auto simp: unaligned2_def or_eq_0_iff)
  note al = this[THEN aligned_mod[THEN iffD1]]
  from True copy_loops_memcpy(2)[OF al(2,1), of "unat count" m] show ?thesis
    by (simp add: rt_memcpy_def Let_def)
qed (auto simp: rt_memcpy_def copy_rest_memcpy)

section \<open>What they compute\<close>

definition mapped :: "memory \<Rightarrow> u32 \<Rightarrow> nat \<Rightarrow> bool" where
  "mapped m a n \<longleftrightarrow> unat a + n \<le> 2 ^ 32 \<and> (\<forall>i<n. m (a + of_nat i) \<noteq> None)"

text \<open>The bytes of one region placed in another, whatever the overlap.\<close>

definition moved_bytes :: "u32 \<Rightarrow> u32 \<Rightarrow> nat \<Rightarrow> memory \<Rightarrow> memory" where
  "moved_bytes d s n m = (\<lambda>a. if unat (a - d) < n then m (s + (a - d)) else m a)"


lemma mapped_first: "mapped m a (Suc n) \<Longrightarrow> \<exists>x. m a = Some x"
  by (auto simp: mapped_def dest!: spec[of _ 0])

lemma mapped_rest:
  assumes "mapped m a (Suc n)" and "0 < n"
  shows "mapped m (a + 1) n" and "unat (a + 1) = unat a + 1"
proof -
  show u: "unat (a + 1) = unat a + 1" using assms by (simp add: mapped_def unat_word_ariths)
  have "m (a + 1 + of_nat i) \<noteq> None" if "i < n" for i
    using assms(1) that unfolding mapped_def by (metis Suc_less_eq add.assoc of_nat_Suc)
  with u assms show "mapped m (a + 1) n" by (simp add: mapped_def)
qed

lemma mapped_upd: "mapped m a n \<Longrightarrow> mapped (m(b \<mapsto> x)) a n"
  by (simp add: mapped_def)

lemma mapped_less: "mapped m a (Suc n) \<Longrightarrow> mapped m a n"
  by (simp add: mapped_def)

lemma mapped_at: "mapped m a n \<Longrightarrow> i < n \<Longrightarrow> unat (a + of_nat i) = unat a + i \<and> m (a + of_nat i) \<noteq> None"
  by (simp add: mapped_def unat_word_ariths unat_of_nat)

lemma unat_minus_eq: "a \<noteq> d \<Longrightarrow> unat (a - (d + 1)) = unat (a - d :: u32) - 1"
proof -
  assume "a \<noteq> d"
  then have "a - d \<noteq> 0" by simp
  then have "unat (a - d - 1) = unat (a - d) - 1" by (simp add: unat_minus_one)
  then show ?thesis by (simp add: diff_diff_eq)
qed

lemma moved_bytes_first:
  assumes d: "mapped m d (Suc n)" and s: "mapped m s (Suc n)" and o': "unat d \<le> unat s \<or> unat s + Suc n \<le> unat d"
  shows "moved_bytes (d + 1) (s + 1) n (m(d := m s)) = moved_bytes d s (Suc n) m"
proof
  fix a
  show "moved_bytes (d + 1) (s + 1) n (m(d := m s)) a = moved_bytes d s (Suc n) m a"
  proof (cases "a = d")
    case True
    have "unat (d - (d + 1)) = 4294967295" by (simp add: unsigned_minus_1_eq_mask mask_eq_exp_minus_1)
    moreover have "n < 4294967296" using d by (simp add: mapped_def)
    ultimately show ?thesis using True by (simp add: moved_bytes_def)
  next
    case False
    define k where "k = unat (a - d)"
    have k: "unat (a - (d + 1)) = k - 1" "0 < k" using unat_minus_eq[OF False] False by (simp_all add: k_def unat_gt_0)
    have ak: "a - d = of_nat k" by (simp add: k_def)
    have "s + (a - d) \<noteq> d" if "k < Suc n"
      using mapped_at[OF s that] o' k(2) that by (auto simp: ak)
    moreover have "s + 1 + (a - (d + 1)) = s + (a - d)" by simp
    moreover have "k - 1 < n \<longleftrightarrow> k < Suc n" using k(2) by auto
    ultimately show ?thesis using False k(1) by (auto simp: moved_bytes_def simp flip: k_def)
  qed
qed

lemma memcpy_moves:
  assumes "mapped m d n" and "mapped m s n" and "unat d \<le> unat s \<or> unat s + n \<le> unat d"
  shows "memcpy d s n m = Done (moved_bytes d s n m)"
  using assms
proof (induction n arbitrary: d s m)
  case 0
  then show ?case by (simp add: moved_bytes_def fun_eq_iff)
next
  case (Suc n)
  obtain x y where x: "m s = Some x" and y: "m d = Some y" using Suc.prems(1,2) mapped_first by blast
  have "memcpy (d + 1) (s + 1) n (m(d \<mapsto> x)) = Done (moved_bytes (d + 1) (s + 1) n (m(d \<mapsto> x)))"
  proof (cases "n = 0")
    case True
    then show ?thesis by (simp add: moved_bytes_def fun_eq_iff)
  next
    case False
    then show ?thesis
      using Suc.prems mapped_rest[of m d n] mapped_rest[of m s n] by (intro Suc.IH mapped_upd) (simp_all, auto)
  qed
  then show ?case using x y moved_bytes_first[OF Suc.prems] by (simp add: load8_def store8_def)
qed

lemma move_down_moves:
  assumes "mapped m d n" and "mapped m s n" and "unat s \<le> unat d"
  shows "move_down (d + of_nat n) (s + of_nat n) n m = Done (moved_bytes d s n m)"
  using assms
proof (induction n arbitrary: m)
  case 0
  then show ?case by (simp add: moved_bytes_def fun_eq_iff)
next
  case (Suc n)
  let ?d = "d + of_nat n" and ?s = "s + of_nat n"
  have at: "unat ?d = unat d + n" "m ?d \<noteq> None" "unat ?s = unat s + n" "m ?s \<noteq> None"
    using mapped_at[OF Suc.prems(1), of n] mapped_at[OF Suc.prems(2), of n] by simp_all
  then obtain x where x: "m ?s = Some x" by auto
  have nn: "n < 2 ^ 32" using Suc.prems(1) by (simp add: mapped_def)
  have ih: "move_down ?d ?s n (m(?d \<mapsto> x)) = Done (moved_bytes d s n (m(?d \<mapsto> x)))"
    using Suc.prems by (intro Suc.IH mapped_upd) (simp_all add: mapped_less)
  have "moved_bytes d s n (m(?d \<mapsto> x)) = moved_bytes d s (Suc n) m"
  proof
    fix a
    define k where "k = unat (a - d)"
    have ak: "a - d = of_nat k" by (simp add: k_def)
    then have a: "a = ?d \<longleftrightarrow> k = n"
    proof -
      have "a = ?d \<longleftrightarrow> a - d = of_nat n" by (auto simp: diff_eq_eq add.commute)
      also have "\<dots> \<longleftrightarrow> unat (a - d) = n" using nn by (auto simp: unat_of_nat_small)
      finally show ?thesis by (simp only: k_def)
    qed
    have "s + (a - d) \<noteq> ?d" if "k < n"
    proof
      assume "s + (a - d) = ?d"
      then have "unat (s + of_nat k) = unat ?d" by (simp only: ak)
      then show False using mapped_at[OF Suc.prems(2), of k] at(1) that Suc.prems(3) by linarith
    qed
    moreover have "s + (a - d) = ?s" if "k = n" using that ak by simp
    ultimately show "moved_bytes d s n (m(?d \<mapsto> x)) a = moved_bytes d s (Suc n) m a"
      using a x by (auto simp: moved_bytes_def simp flip: k_def)
  qed
  moreover have e: "a + of_nat (Suc n) - 1 = a + of_nat n" for a :: u32 by simp
  ultimately show ?case unfolding move_down.simps e using ih x at(2) by (auto simp: load8_def store8_def)
qed

text \<open>The two directions of \<open>rt_memmove\<close>: the result is that of a copy through another buffer. The
  source must end below the top of the address space: \<open>src + n\<close> is compared after it has wrapped.\<close>

lemma rt_memmove_moves:
  assumes d: "mapped m dest (unat n)" and s: "mapped m src (unat n)" and top: "unat src + unat n < 2 ^ 32"
  shows "rt_memmove dest src n m = Done (moved_bytes dest src (unat n) m)"
proof -
  have u: "unat (src + n) = unat src + unat n" using top by (simp add: unat_word_ariths)
  show ?thesis
  proof (cases "src < dest \<and> dest < src + n")
    case True
    then show ?thesis
      using move_down_moves[OF d s] by (simp add: rt_memmove_def word_less_nat_alt)
  next
    case False
    then have "unat dest \<le> unat src \<or> unat src + unat n \<le> unat dest" by (auto simp: word_less_nat_alt u)
    then show ?thesis using False memcpy_moves[OF d s] by (auto simp: rt_memmove_def copy_rest_memcpy)
  qed
qed

section \<open>What the string routines compute\<close>

text \<open>The string at an address, without its terminating zero.\<close>

fun string_at :: "memory \<Rightarrow> u32 \<Rightarrow> u8 list \<Rightarrow> bool" where
  "string_at m a [] \<longleftrightarrow> m a = Some 0"
| "string_at m a (x # xs) \<longleftrightarrow> x \<noteq> 0 \<and> m a = Some x \<and> string_at m (a + 1) xs"

lemma strlen_from_length:
  "string_at m a xs \<Longrightarrow> length xs < fuel \<Longrightarrow> strlen_from fuel s a m = Done (a + of_nat (length xs) - s)"
proof (induction xs arbitrary: a fuel)
  case Nil
  then show ?case by (cases fuel) (simp_all add: load8_def)
next
  case (Cons x xs)
  then show ?case by (cases fuel) (simp_all add: load8_def add.assoc)
qed

lemma rt_strlen_length:
  "string_at m s xs \<Longrightarrow> length xs < fuel \<Longrightarrow> rt_strlen fuel s m = Done (of_nat (length xs))"
  by (simp add: rt_strlen_def strlen_from_length)

text \<open>\<open>rt_strcmp\<close> is zero exactly for equal strings and otherwise has the sign of their order.\<close>

lemma uint_pos: "x \<noteq> 0 \<Longrightarrow> 0 < uint (x :: u8)"
  using uint_0_iff[of x] by (simp add: order_less_le)

lemma rt_strcmp_orders:
  assumes "string_at m a xs" and "string_at m b ys" and "length xs < fuel"
  shows "\<exists>r. rt_strcmp fuel a b m = Done r \<and> (r = 0 \<longleftrightarrow> xs = ys)
     \<and> (r < 0 \<longleftrightarrow> (xs, ys) \<in> lexord {(x, y). x < y})"
  using assms
proof (induction xs arbitrary: a b ys fuel)
  case Nil
  then show ?case
    by (cases fuel; cases ys) (auto simp: load8_def word_less_def dest: uint_pos)
next
  case (Cons x xs)
  then obtain f where f: "fuel = Suc f" by (cases fuel) auto
  show ?case
  proof (cases ys)
    case Nil
    then show ?thesis using Cons.prems f by (auto simp: load8_def uint_0_iff)
  next
    case (Cons y zs)
    then show ?thesis
      using Cons.prems Cons.IH[of "a + 1" "b + 1" zs f] f
      by (cases "x = y") (auto simp: load8_def word_less_def word_uint_eq_iff)
  qed
qed

text \<open>\<open>rt_strncmp\<close> orders bytes that differ by more than 127 the wrong way round.\<close>

lemma strncmp_sign:
  "rt_strncmp 0 1 1 [0 \<mapsto> 0xff, 1 \<mapsto> 1] = Done (-2)" "rt_strcmp 1 0 1 [0 \<mapsto> 0xff, 1 \<mapsto> 1] = Done 254"
  by (simp_all add: load8_def)

text \<open>\<open>rt_strnlen\<close> reads the byte after the last one it was allowed to look at.\<close>

lemma strnlen_reads_past: "rt_strnlen (Suc (Suc 0)) 0 1 [0 \<mapsto> 65] = Fault"
  by (simp add: rt_strnlen_def load8_def)

section \<open>The properties\<close>

text \<open>C33. The kernel's \<open>rt_memset\<close> and \<open>rt_memcpy\<close>, which write and copy whole words where the addresses
  are aligned, compute exactly what the byte loops of \<open>memory.c\<close> compute, for every count, every
  alignment, overlapping regions and accesses that fault.\<close>

theorem word_loops_are_byte_loops:
  "rt_memset s c count m = memset s c (unat count) m \<and> rt_memcpy dst src count m = memcpy dst src (unat count) m"
  by (simp add: rt_memset_is_memset rt_memcpy_eq)

end
