(* ===== verification/Msh.thy ===== *)
theory Msh
  imports Prelude "HOL-Library.Sublist"
begin

text \<open>
  The command interpreter \<^verbatim>\<open>rt-thread-nano-3.1.5/components/finsh/msh.c\<close>: a command line is cut
  into words where it stands, the first word is looked up in the table of commands that the linker
  collects, and the command is called with the words; and the completion of a word from that table.
  The buffer of the line is an array, a pointer into it an index, what is printed is part of the
  result, and what a command does is an argument \<open>call\<close>: it gives the return value, the text printed and the new state of the rest.
\<close>

definition FINSH_ARG_MAX :: nat where [code_unfold]: "FINSH_ARG_MAX = 10"

record 'f finsh_syscall =
  name :: string
  desc :: string
  func :: 'f

text \<open>What \<open>rt_kprintf\<close> sends of a text: its buffer holds 254 characters (\<open>Printf.rt_kprintf_sends\<close>).\<close>

definition kprint :: "string \<Rightarrow> string" where
  "kprint t = (if length t \<le> 254 then t else take 254 t @ [CHR 0x00])"

definition NUL :: char where [code_unfold]: "NUL = CHR 0x00"

definition blank :: "char \<Rightarrow> bool" where
  "blank c \<longleftrightarrow> c = CHR '' '' \<or> c = CHR 0x09"

section \<open>Strings in the buffer\<close>

text \<open>The string that starts at an index; it must end in the buffer.\<close>

definition string_from :: "nat \<Rightarrow> string \<Rightarrow> string exec" where
  "string_from i buf =
     (if NUL \<in> set (drop i buf) then Done (takeWhile (\<lambda>c. c \<noteq> NUL) (drop i buf)) else Fault)"

text \<open>\<open>strncmp(s, t, n) == 0\<close> for strings that end with their lists or with a null.\<close>

definition first_char :: "string \<Rightarrow> char" where
  "first_char s = (case s of [] \<Rightarrow> NUL | c # _ \<Rightarrow> c)"

fun same_prefix :: "nat \<Rightarrow> string \<Rightarrow> string \<Rightarrow> bool" where
  "same_prefix 0 s t = True"
| "same_prefix (Suc n) s t \<longleftrightarrow>
     first_char s = first_char t \<and> (first_char s = NUL \<or> same_prefix n (tl s) (tl t))"

section \<open>Words\<close>

text \<open>The loops of \<open>msh_split\<close>. \<open>ptr\<close> is always \<open>cmd + position\<close>.\<close>

function skip_blanks :: "nat \<Rightarrow> nat \<Rightarrow> nat \<times> string \<Rightarrow> (nat \<times> string) exec" where
  "skip_blanks cmd len (position, buf) =
     exec_bind (load_at (cmd + position) buf) (\<lambda>c.
       if blank c \<and> position < len
       then exec_bind (store_at (cmd + position) NUL buf) (\<lambda>buf. skip_blanks cmd len (position + 1, buf))
       else Done (position, buf))"
  by pat_completeness auto
termination by (relation "measure (\<lambda>(cmd, len, position, buf). len - position)") auto

function quote_end :: "nat \<Rightarrow> nat \<Rightarrow> string \<Rightarrow> nat \<Rightarrow> nat exec" where
  "quote_end cmd len buf position =
     exec_bind (load_at (cmd + position) buf) (\<lambda>c.
       if c \<noteq> CHR 0x22 \<and> position < len then
         exec_bind (if c = CHR 0x5c then load_at (cmd + position + 1) buf else Done c) (\<lambda>c'.
           quote_end cmd len buf (if c = CHR 0x5c \<and> c' = CHR 0x22 then position + 2 else position + 1))
       else Done position)"
  by pat_completeness auto
termination by (relation "measure (\<lambda>(cmd, len, buf, position). len - position)") auto

function word_end :: "nat \<Rightarrow> nat \<Rightarrow> string \<Rightarrow> nat \<Rightarrow> nat exec" where
  "word_end cmd len buf position =
     exec_bind (load_at (cmd + position) buf) (\<lambda>c.
       if \<not> blank c \<and> position < len then word_end cmd len buf (position + 1) else Done position)"
  by pat_completeness auto
termination by (relation "measure (\<lambda>(cmd, len, buf, position). len - position)") auto

text \<open>The strings that \<open>argv\<close> points to.\<close>

fun words_at :: "string \<Rightarrow> nat list \<Rightarrow> string list exec" where
  "words_at buf [] = Done []"
| "words_at buf (i # argv) = exec_bind (string_from i buf) (\<lambda>s. exec_bind (words_at buf argv) (\<lambda>ss. Done (s # ss)))"

text \<open>
  The message about a line with more words than \<open>argv\<close> has room for: it is printed when anything, a blank
  even, follows the tenth word.
\<close>

definition too_many_args :: "string list \<Rightarrow> string" where
  "too_many_args ws =
     kprint (''Too many args ! We only Use:'' @ [CHR 0x0a]) @ concat (map (\<lambda>w. kprint (w @ '' '')) ws) @ kprint [CHR 0x0a]"

text \<open>The result: \<open>argv\<close>, whose length is \<open>argc\<close>, what is printed, and the buffer.\<close>

function split_loop :: "nat \<Rightarrow> nat \<Rightarrow> nat \<times> nat list \<times> string \<Rightarrow> (nat list \<times> string \<times> string) exec" where
  "split_loop cmd len (position, argv, buf) =
     (if \<not> position < len then Done (argv, [], buf)
      else exec_bind (skip_blanks cmd len (position, buf)) (\<lambda>(position, buf).
        if length argv \<ge> FINSH_ARG_MAX
        then exec_bind (words_at buf argv) (\<lambda>ws. Done (argv, too_many_args ws, buf))
        else if position \<ge> len then Done (argv, [], buf)
        else exec_bind (load_at (cmd + position) buf) (\<lambda>c.
          if c = CHR 0x22 then
            (let position = position + 1; argv = argv @ [cmd + position] in
             exec_bind (quote_end cmd len buf position) (\<lambda>position.
               if position \<ge> len then Done (argv, [], buf)
               else exec_bind (store_at (cmd + position) NUL buf) (\<lambda>buf.
                 split_loop cmd len (position + 1, argv, buf))))
          else
            (let argv = argv @ [cmd + position] in
             exec_bind (word_end cmd len buf position) (\<lambda>position.
               if position \<ge> len then Done (argv, [], buf) else split_loop cmd len (position, argv, buf))))))"
  by pat_completeness auto
termination by (relation "measure (\<lambda>(cmd, len, position, argv, buf). FINSH_ARG_MAX - length argv)") auto

definition msh_split :: "nat \<Rightarrow> nat \<Rightarrow> string \<Rightarrow> (nat list \<times> string \<times> string) exec" where
  "msh_split cmd len buf = split_loop cmd len (0, [], buf)"

declare skip_blanks.simps [simp del] quote_end.simps [simp del] word_end.simps [simp del] split_loop.simps [simp del]

section \<open>Commands\<close>

definition is_command :: "'f finsh_syscall \<Rightarrow> bool" where
  "is_command index \<longleftrightarrow> same_prefix 6 (name index) ''__cmd_''"

text \<open>The first command whose name is the first \<open>size\<close> characters at \<open>cmd\<close>.\<close>

fun msh_get_cmd :: "'f finsh_syscall list \<Rightarrow> string \<Rightarrow> nat \<Rightarrow> 'f option" where
  "msh_get_cmd [] cmd size' = None"
| "msh_get_cmd (index # table) cmd size' =
     (if is_command index \<and> same_prefix size' (drop 6 (name index)) cmd
         \<and> first_char (drop (6 + size') (name index)) = NUL
      then Some (func index) else msh_get_cmd table cmd size')"

text \<open>
  \<open>-RT_ERROR\<close> is \<open>None\<close>. The words are read when the command is called; what \<open>msh_split\<close> has printed comes
  before what the command prints.
\<close>

definition msh_exec_cmd ::
    "('f \<Rightarrow> string list \<Rightarrow> 'w \<Rightarrow> int \<times> string \<times> 'w) \<Rightarrow> 'f finsh_syscall list \<Rightarrow> nat \<Rightarrow> nat \<Rightarrow> string \<Rightarrow> 'w
      \<Rightarrow> ((int \<times> string \<times> 'w) option \<times> string) exec" where
  "msh_exec_cmd call table cmd len buf w =
     exec_bind (word_end cmd len buf 0) (\<lambda>cmd0_size.
       if cmd0_size = 0 then Done (None, buf)
       else (case msh_get_cmd table (drop cmd buf) cmd0_size of
           None \<Rightarrow> Done (None, buf)
         | Some cmd_func \<Rightarrow>
             exec_bind (msh_split cmd len buf) (\<lambda>(argv, said, buf).
               if argv = [] then Done (None, buf)
               else exec_bind (words_at buf argv) (\<lambda>args.
                 let (ret, out, w) = call cmd_func args w in Done (Some (ret, said @ out, w), buf)))))"

fun trim_blanks :: "nat \<Rightarrow> nat \<Rightarrow> string \<Rightarrow> (nat \<times> nat) exec" where
  "trim_blanks cmd 0 buf = Done (cmd, 0)"
| "trim_blanks cmd (Suc len) buf =
     exec_bind (load_at cmd buf) (\<lambda>c. if blank c then trim_blanks (cmd + 1) len buf else Done (cmd, Suc len))"

function name_end :: "string \<Rightarrow> nat \<Rightarrow> nat exec" where
  "name_end buf tcmd =
     (if tcmd < length buf
      then (if buf ! tcmd \<noteq> CHR '' '' \<and> buf ! tcmd \<noteq> NUL then name_end buf (tcmd + 1) else Done tcmd)
      else Fault)"
  by pat_completeness auto
termination by (relation "measure (\<lambda>(buf, tcmd). length buf - tcmd)") auto

declare name_end.simps [simp del]

definition msh_exec ::
    "('f \<Rightarrow> string list \<Rightarrow> 'w \<Rightarrow> int \<times> string \<times> 'w) \<Rightarrow> 'f finsh_syscall list \<Rightarrow> nat \<Rightarrow> nat \<Rightarrow> string \<Rightarrow> 'w
      \<Rightarrow> ((int \<times> string \<times> 'w) \<times> string) exec" where
  "msh_exec call table cmd len buf w =
     exec_bind (trim_blanks cmd len buf) (\<lambda>(cmd, len).
       if len = 0 then Done ((0, [], w), buf)
       else exec_bind (msh_exec_cmd call table cmd len buf w) (\<lambda>(r, buf). case r of
           Some cmd_ret \<Rightarrow> Done (cmd_ret, buf)
         | None \<Rightarrow>
             exec_bind (name_end buf cmd) (\<lambda>tcmd.
             exec_bind (store_at tcmd NUL buf) (\<lambda>buf.
             exec_bind (string_from cmd buf) (\<lambda>s.
               Done ((-1, kprint (s @ '': command not found.'' @ [CHR 0x0a]), w), buf))))))"

section \<open>Completion\<close>

fun str_common :: "string \<Rightarrow> string \<Rightarrow> nat" where
  "str_common (a # s) (b # t) = (if a \<noteq> NUL \<and> b \<noteq> NUL \<and> a = b then Suc (str_common s t) else 0)"
| "str_common s t = 0"

text \<open>\<open>%-16s - %s\<close>: the conversion cuts a name at 16 characters (\<open>Printf.convert_text\<close>).\<close>

definition msh_help :: "'f finsh_syscall list \<Rightarrow> string" where
  "msh_help table =
     kprint (''RT-Thread shell commands:'' @ [CHR 0x0a]) @
     concat (map (\<lambda>index. let n = drop 6 (name index) in
         kprint (take 16 n @ replicate (16 - length n) (CHR '' '') @ '' - '' @ desc index @ [CHR 0x0a]))
       (filter is_command table)) @
     kprint [CHR 0x0a]"

text \<open>The loop over the table: \<open>name_ptr\<close>, \<open>min_length\<close> and what is printed.\<close>

fun complete_loop :: "'f finsh_syscall list \<Rightarrow> string \<Rightarrow> string option \<times> nat \<times> string \<Rightarrow> (string option \<times> nat \<times> string) exec" where
  "complete_loop [] pfx r = Done r"
| "complete_loop (index # table) pfx (name_ptr, min_length, out) =
     (if \<not> is_command index then complete_loop table pfx (name_ptr, min_length, out)
      else exec_bind (string_from 0 pfx) (\<lambda>p.
        let cmd_name = drop 6 (name index) in
        if same_prefix (length p) p cmd_name then
          (let (nm, min_length) = (case name_ptr of
               Some nm \<Rightarrow> if min_length = 0 then (cmd_name, length cmd_name) else (nm, min_length)
             | None \<Rightarrow> (cmd_name, length cmd_name));
               l = str_common nm cmd_name
           in complete_loop table pfx
                (Some nm, if l < min_length then l else min_length, out @ kprint (cmd_name @ [CHR 0x0a])))
        else complete_loop table pfx (name_ptr, min_length, out)))"

text \<open>\<open>rt_strncpy\<close> into the line: the name has at least \<open>min_length\<close> characters.\<close>

definition copy_name :: "string \<Rightarrow> nat \<Rightarrow> string \<Rightarrow> string exec" where
  "copy_name nm n buf =
     (if n \<le> length buf then Done (take n (nm @ replicate n NUL) @ drop n buf) else Fault)"

definition msh_auto_complete :: "'f finsh_syscall list \<Rightarrow> string \<Rightarrow> (string \<times> string) exec" where
  "msh_auto_complete table pfx =
     exec_bind (load_at 0 pfx) (\<lambda>c.
       if c = NUL then Done (msh_help table, pfx)
       else exec_bind (complete_loop table pfx (None, 0, [])) (\<lambda>(name_ptr, min_length, out).
         case name_ptr of None \<Rightarrow> Done (out, pfx)
         | Some nm \<Rightarrow> exec_bind (copy_name nm min_length pfx) (\<lambda>pfx. Done (out, pfx))))"


section \<open>The words of a line\<close>

text \<open>
  Words are separated by blanks; a word that starts with a double quote goes on to the next one that
  is not behind a backslash, or to the end of the line.
\<close>

function quoted :: "string \<Rightarrow> string \<times> string" where
  "quoted [] = ([], [])"
| "quoted (c # cs) =
     (if c = CHR 0x22 then ([], cs)
      else if c = CHR 0x5c \<and> first_char cs = CHR 0x22 then (let (w, r) = quoted (tl cs) in (c # CHR 0x22 # w, r))
      else (let (w, r) = quoted cs in (c # w, r)))"
  by pat_completeness auto
termination by (relation "measure length") auto

lemma quoted_length: "length (snd (quoted cs)) \<le> length cs"
proof (induction cs rule: quoted.induct)
  case (2 c cs)
  then show ?case by (auto simp: Let_def split: prod.splits)
qed simp

function line_words :: "string \<Rightarrow> string list" where
  "line_words [] = []"
| "line_words (c # cs) =
     (if blank c then line_words cs
      else if c = CHR 0x22 then fst (quoted cs) # line_words (snd (quoted cs))
      else (c # takeWhile (\<lambda>c. \<not> blank c) cs) # line_words (dropWhile (\<lambda>c. \<not> blank c) cs))"
  by pat_completeness auto
termination
  by (relation "measure length") (auto simp: quoted_length less_Suc_eq_le intro: length_dropWhile_le)

text \<open>What is left of a line behind its first \<open>n\<close> words.\<close>

fun line_rest :: "nat \<Rightarrow> string \<Rightarrow> string" where
  "line_rest 0 cs = cs"
| "line_rest (Suc n) cs = (case dropWhile blank cs of
       [] \<Rightarrow> []
     | c # ds \<Rightarrow> line_rest n (if c = CHR 0x22 then snd (quoted ds) else dropWhile (\<lambda>c. \<not> blank c) (c # ds)))"

text \<open>Where a quoted word ends.\<close>

lemma quoted_parts:
  "cs = fst (quoted cs) \<and> snd (quoted cs) = [] \<or> cs = fst (quoted cs) @ CHR 0x22 # snd (quoted cs)"
proof (induction cs rule: quoted.induct)
  case (2 c cs)
  have "cs = CHR 0x22 # tl cs" if "first_char cs = CHR 0x22"
    using that by (cases cs) (simp_all add: first_char_def NUL_def)
  with 2 show ?case by (auto simp: Let_def split_beta)
qed simp

lemma load_append [simp]:
  "load_at (length pre) (pre @ c # post) = Done c" "cmd + position = length pre \<Longrightarrow> load_at (cmd + position) (pre @ c # post) = Done c"
  by (simp_all add: load_at_def)

lemma store_append [simp]:
  "cmd + position = length pre \<Longrightarrow> store_at (cmd + position) x (pre @ c # post) = Done (pre @ x # post)"
  by (simp add: store_at_def)

text \<open>The buffer is \<open>pre @ rest @ NUL # post\<close>; \<open>rest\<close> is what is left of the line.\<close>

lemma skip_blanks_run:
  assumes "cmd + position = length pre" and "len = position + length rest"
  shows "skip_blanks cmd len (position, pre @ rest @ NUL # post) =
     Done (position + length (takeWhile blank rest),
       (pre @ replicate (length (takeWhile blank rest)) NUL) @ dropWhile blank rest @ NUL # post)"
  using assms
proof (induction rest arbitrary: position pre)
  case Nil
  then show ?case by (subst skip_blanks.simps) (simp add: blank_def NUL_def)
next
  case (Cons c cs)
  show ?case
  proof (cases "blank c")
    case True
    then show ?thesis
      using Cons.prems Cons.IH[of "position + 1" "pre @ [NUL]"] by (subst skip_blanks.simps) simp
  next
    case False
    then show ?thesis using Cons.prems by (subst skip_blanks.simps) simp
  qed
qed

lemma word_end_run:
  assumes "cmd + position = length pre" and "len = position + length rest"
  shows "word_end cmd len (pre @ rest @ NUL # post) position = Done (position + length (takeWhile (\<lambda>c. \<not> blank c) rest))"
  using assms
proof (induction rest arbitrary: position pre)
  case Nil
  then show ?case by (subst word_end.simps) (simp add: blank_def NUL_def)
next
  case (Cons c cs)
  then show ?case
    using Cons.IH[of "position + 1" "pre @ [c]"] by (subst word_end.simps) simp
qed

lemma quote_end_run:
  assumes "cmd + position = length pre" and "len = position + length rest"
  shows "quote_end cmd len (pre @ rest @ NUL # post) position = Done (position + length (fst (quoted rest)))"
  using assms
proof (induction rest arbitrary: position pre rule: quoted.induct)
  case 1
  then show ?case by (subst quote_end.simps) (simp add: NUL_def)
next
  case (2 c cs)
  show ?case
  proof (cases "c = CHR 0x22")
    case True
    then show ?thesis using "2.prems" by (subst quote_end.simps) simp
  next
    case nq: False
    show ?thesis
    proof (cases "c = CHR 0x5c \<and> first_char cs = CHR 0x22")
      case True
      then obtain ds where cs: "cs = CHR 0x22 # ds" by (cases cs) (auto simp: first_char_def NUL_def)
      have "cmd + (position + 2) = length (pre @ [c, CHR 0x22])" using "2.prems" by simp
      then show ?thesis
        using "2.prems" "2.IH"(1)[OF nq True, of "position + 2" "pre @ [c, CHR 0x22]"] True
          load_append(2)[of cmd "position + 1" "pre @ [c]" "CHR 0x22" "ds @ NUL # post"]
        by (subst quote_end.simps) (simp add: cs first_char_def split_beta)
    next
      case False
      have "load_at (cmd + position + 1) (pre @ (c # cs) @ NUL # post) = Done (first_char cs)"
        using "2.prems" load_append(2)[of cmd "position + 1" "pre @ [c]"]
        by (cases cs) (simp_all add: first_char_def)
      then show ?thesis
        using "2.prems" "2.IH"(2)[OF nq False, of "position + 1" "pre @ [c]"] nq False
        by (subst quote_end.simps) (auto simp: split_beta)
    qed
  qed
qed

lemma string_from_split:
  "NUL \<notin> set w \<Longrightarrow> i = length p \<Longrightarrow> string_from i (p @ w @ NUL # post) = Done w"
proof -
  assume "NUL \<notin> set w" and "i = length p"
  then have "takeWhile (\<lambda>c. c \<noteq> NUL) (w @ NUL # post) = w" by (subst takeWhile_append2) auto
  with \<open>i = length p\<close> show ?thesis by (simp add: string_from_def)
qed

lemma line_words_skip: "line_words (dropWhile blank cs) = line_words cs"
  by (induction cs) simp_all

lemma line_words_word:
  assumes "dropWhile blank cs = c # ds"
  shows "\<not> blank c" and "line_words cs = (if c = CHR 0x22 then fst (quoted ds) # line_words (snd (quoted ds))
      else takeWhile (\<lambda>c. \<not> blank c) (c # ds) # line_words (dropWhile (\<lambda>c. \<not> blank c) (c # ds)))"
proof -
  show b: "\<not> blank c" using hd_dropWhile[of blank cs] assms by simp
  have "line_words cs = line_words (c # ds)" using line_words_skip[of cs] assms by simp
  with b show "line_words cs = (if c = CHR 0x22 then fst (quoted ds) # line_words (snd (quoted ds))
      else takeWhile (\<lambda>c. \<not> blank c) (c # ds) # line_words (dropWhile (\<lambda>c. \<not> blank c) (c # ds)))" by simp
qed

lemma words_at_append:
  "words_at buf (argv @ argv') = exec_bind (words_at buf argv) (\<lambda>ws. exec_bind (words_at buf argv') (\<lambda>ws'. Done (ws @ ws')))"
proof (induction argv)
  case Nil
  show ?case by (cases "words_at buf argv'") simp_all
next
  case (Cons i argv)
  then show ?case
    by (cases "string_from i buf"; cases "words_at buf argv"; cases "words_at buf argv'") simp_all
qed

text \<open>
  What a run of the loop leaves of the buffer: the part before \<open>pre\<close> and the part behind the line as they
  were, and a null in the place of a blank at the beginning.
\<close>

definition split_buffer :: "string \<Rightarrow> string \<Rightarrow> string \<Rightarrow> string \<Rightarrow> bool" where
  "split_buffer pre rest post buf \<longleftrightarrow>
     (\<exists>mid. length mid = length rest \<and> buf = pre @ mid @ NUL # post \<and>
        (rest \<noteq> [] \<and> blank (hd rest) \<longrightarrow> hd mid = NUL))"

text \<open>One word more in front.\<close>

lemma split_buffer_word:
  assumes r: "split_buffer (p @ q @ w @ stop) r post buf" and "NUL \<notin> set w"
    and stop: "stop = [NUL] \<or> stop = [] \<and> (r = [] \<or> blank (hd r))"
    and len: "length rest = length (q @ w @ stop @ r)"
    and hd: "rest \<noteq> [] \<and> blank (hd rest) \<longrightarrow> q \<noteq> [] \<and> hd q = NUL"
  shows "split_buffer p rest post buf" and "string_from (length (p @ q)) buf = Done w"
proof -
  obtain mid where mid: "length mid = length r" "buf = (p @ q @ w @ stop) @ mid @ NUL # post"
      "r \<noteq> [] \<and> blank (hd r) \<longrightarrow> hd mid = NUL"
    using r by (auto simp: split_buffer_def)
  have "\<exists>more. buf = (p @ q) @ w @ NUL # more"
  proof (cases "stop = [NUL]")
    case True
    with mid show ?thesis by simp
  next
    case False
    with stop have s: "stop = []" "r = [] \<or> blank (hd r)" by auto
    with mid show ?thesis by (cases mid) auto
  qed
  then show "string_from (length (p @ q)) buf = Done w" using string_from_split[OF assms(2) refl] by metis
  have "length (q @ w @ stop @ mid) = length rest" "buf = p @ (q @ w @ stop @ mid) @ NUL # post"
    using mid len by simp_all
  moreover have "rest \<noteq> [] \<and> blank (hd rest) \<longrightarrow> hd (q @ w @ stop @ mid) = NUL" using hd by auto
  ultimately show "split_buffer p rest post buf" unfolding split_buffer_def by blast
qed

text \<open>The outcome of the loop: the words, those collected before it first, and the message.\<close>

definition splits :: "(nat list \<times> string \<times> string) exec \<Rightarrow> string list \<Rightarrow> nat \<Rightarrow> string \<Rightarrow> string \<Rightarrow> string \<Rightarrow> bool" where
  "splits r ws n pre rest post \<longleftrightarrow>
     (\<exists>argv buf. r = Done (argv, if line_rest n rest = [] then [] else too_many_args (ws @ take n (line_words rest)), buf) \<and>
        words_at buf argv = Done (ws @ take n (line_words rest)) \<and> split_buffer pre rest post buf)"

lemma splits_word:
  assumes r: "splits s (ws @ [w]) n (p @ q @ w @ stop) r post" and "NUL \<notin> set w"
    and stop: "stop = [NUL] \<or> stop = [] \<and> (r = [] \<or> blank (hd r))"
    and len: "length rest = length (q @ w @ stop @ r)"
    and hd: "rest \<noteq> [] \<and> blank (hd rest) \<longrightarrow> q \<noteq> [] \<and> hd q = NUL"
    and lw: "line_words rest = w # line_words r" and lr: "line_rest (Suc n) rest = line_rest n r"
  shows "splits s ws (Suc n) p rest post"
  using r split_buffer_word(1)[OF _ assms(2) stop len hd] unfolding splits_def lw lr by auto

lemma split_loop_words:
  assumes "cmd + position = length pre" and "len = position + length rest" and "NUL \<notin> set rest"
    and "length argv \<le> FINSH_ARG_MAX"
    and "\<And>buf. split_buffer pre rest post buf \<Longrightarrow> words_at buf argv = Done ws"
  shows "splits (split_loop cmd len (position, argv, pre @ rest @ NUL # post)) ws (FINSH_ARG_MAX - length argv) pre rest post"
  using assms
proof (induction "length rest" arbitrary: position pre rest argv ws rule: less_induct)
  case less
  note IH = less.hyps and prems = less.prems
  define k where "k = length (takeWhile blank rest)"
  define q where "q = replicate k NUL"
  let ?rest = "dropWhile blank rest"
  have rest: "rest = takeWhile blank rest @ ?rest" by simp
  have len: "k + length ?rest = length rest" unfolding k_def by (metis length_append rest)
  have hq: "rest \<noteq> [] \<and> blank (hd rest) \<longrightarrow> q \<noteq> [] \<and> hd q = NUL"
    by (cases rest) (auto simp: q_def k_def)
  have nn: "NUL \<notin> set ?rest" using prems(3) by (meson set_dropWhileD)
  have skip: "skip_blanks cmd len (position, pre @ rest @ NUL # post) = Done (position + k, (pre @ q) @ ?rest @ NUL # post)"
    using skip_blanks_run[OF prems(1,2)] by (simp add: k_def q_def)
  have stop: "split_buffer pre rest post ((pre @ q) @ ?rest @ NUL # post)"
    unfolding split_buffer_def
    by (intro exI[of _ "q @ ?rest"]) (use len hq in \<open>auto simp: q_def\<close>)
  note words = prems(5)[OF stop]
  show ?case
  proof (cases "rest = [] \<or> length argv \<ge> FINSH_ARG_MAX \<or> ?rest = []")
    case True
    then consider "rest = []" | "rest \<noteq> []" "length argv \<ge> FINSH_ARG_MAX" | "rest \<noteq> []" "\<not> length argv \<ge> FINSH_ARG_MAX" "?rest = []"
      by blast
    then show ?thesis
    proof cases
      case 1
      then have "line_rest (FINSH_ARG_MAX - length argv) rest = []" by (cases "FINSH_ARG_MAX - length argv") simp_all
      then show ?thesis using 1 prems(2) prems(5)[of "pre @ NUL # post"]
        by (subst split_loop.simps) (simp add: splits_def split_buffer_def)
    next
      case 2
      then have "split_loop cmd len (position, argv, pre @ rest @ NUL # post) =
          Done (argv, too_many_args ws, (pre @ q) @ ?rest @ NUL # post)"
        using prems(2) skip words by (subst split_loop.simps) simp
      then show ?thesis using stop 2 words by (simp add: splits_def)
    next
      case 3
      have "length ?rest = 0" by (simp only: 3(3) list.size)
      then have "len \<le> position + k" using prems(2) len by linarith
      with 3(1,2) have "split_loop cmd len (position, argv, pre @ rest @ NUL # post) = Done (argv, [], (pre @ q) @ ?rest @ NUL # post)"
        using prems(2) skip by (subst split_loop.simps) simp
      moreover have "line_words rest = []" using line_words_skip[of rest] 3(3) by simp
      moreover have "line_rest (FINSH_ARG_MAX - length argv) rest = []"
        using 3(2,3) by (cases "FINSH_ARG_MAX - length argv") (simp_all del: dropWhile_eq_Nil_conv)
      ultimately show ?thesis using stop words by (simp add: splits_def)
    qed
  next
    case False
    then obtain c ds where c: "?rest = c # ds" by (cases ?rest) auto
    note w = line_words_word[OF c]
    have at: "cmd + (position + k) = length (pre @ q)" using prems(1) by (simp add: q_def)
    have lens: "len = position + k + length (c # ds)" using prems(2) len c by simp
    have n: "FINSH_ARG_MAX - length argv = Suc (FINSH_ARG_MAX - Suc (length argv))" "Suc (length argv) \<le> FINSH_ARG_MAX"
      using False by auto
    have pos: "position < len" "\<not> position + k \<ge> len" using lens by simp_all
    show ?thesis
    proof (cases "c = CHR 0x22")
      case True
      let ?w = "fst (quoted ds)" and ?r = "snd (quoted ds)" and ?q = "q @ [c]"
      let ?argv = "argv @ [length (pre @ ?q)]"
      have lw: "line_words rest = ?w # line_words ?r" using w(2) True by simp
      have lr: "line_rest (Suc m) rest = line_rest m ?r" for m using c True by simp
      have hq': "rest \<noteq> [] \<and> blank (hd rest) \<longrightarrow> ?q \<noteq> [] \<and> hd ?q = NUL" using hq by auto
      have at': "cmd + (position + k + 1) = length (pre @ ?q)" using at by simp
      have qe: "quote_end cmd len ((pre @ ?q) @ ds @ NUL # post) (position + k + 1) = Done (position + k + 1 + length ?w)"
        by (rule quote_end_run) (use at' lens in auto)
      have step: "split_loop cmd len (position, argv, pre @ rest @ NUL # post) =
          (if position + k + 1 + length ?w \<ge> len then Done (?argv, [], (pre @ ?q) @ ds @ NUL # post)
           else exec_bind (store_at (cmd + (position + k + 1 + length ?w)) NUL ((pre @ ?q) @ ds @ NUL # post))
             (\<lambda>buf. split_loop cmd len (position + k + 1 + length ?w + 1, ?argv, buf)))"
        using pos skip n c True at at' qe load_append(2)[OF at, of c "ds @ NUL # post"]
        by (subst split_loop.simps) (simp add: add.assoc)
      have nw: "NUL \<notin> set ?w" using nn c quoted_parts[of ds]
        by (metis Un_iff list.set_intros(2) set_append)
      from quoted_parts[of ds] show ?thesis
      proof
        assume e: "ds = ?w \<and> ?r = []"
        have lrest: "length rest = length (?q @ ?w @ [] @ ?r)" using len c e by (simp add: q_def)
        have b: "split_buffer (pre @ ?q @ ?w @ []) ?r post ((pre @ ?q) @ ds @ NUL # post)"
          using e by (simp add: split_buffer_def)
        note word = split_buffer_word[OF b nw _ lrest hq']
        have "length ?w = length ds" using e by simp
        then have "split_loop cmd len (position, argv, pre @ rest @ NUL # post) = Done (?argv, [], (pre @ ?q) @ ds @ NUL # post)"
          using step lens by simp
        moreover have "words_at ((pre @ ?q) @ ds @ NUL # post) ?argv = Done (ws @ [?w])"
          using prems(5)[OF word(1)] word(2) e by (simp add: words_at_append)
        moreover have "line_rest m ?r = []" for m using e by (cases m) simp_all
        ultimately show ?thesis using word(1) e unfolding splits_def n(1) lw lr by simp
      next
        assume e: "ds = ?w @ CHR 0x22 # ?r"
        let ?pre = "pre @ ?q @ ?w @ [NUL]"
        have l: "length ds = length ?w + 1 + length ?r" by (subst e) simp
        have st: "store_at (cmd + (position + k + 1 + length ?w)) NUL ((pre @ ?q) @ ds @ NUL # post) = Done (?pre @ ?r @ NUL # post)"
          using store_append[of cmd "position + k + 1 + length ?w" "pre @ ?q @ ?w" NUL "CHR 0x22" "?r @ NUL # post"] at' 
          by (subst (2) e) simp
        have shorter: "length ?r < length rest" using l len c by simp
        have a: "cmd + (position + k + 1 + length ?w + 1) = length ?pre" "len = position + k + 1 + length ?w + 1 + length ?r"
          "length ?argv \<le> FINSH_ARG_MAX"
          using at' lens l n(2) by simp_all
        have nr: "NUL \<notin> set ?r" using nn c e by (metis Un_iff list.set_intros(2) set_append)
        have lrest: "length rest = length (?q @ ?w @ [NUL] @ ?r)" using l len c by (simp add: q_def)
        have wd: "words_at buf ?argv = Done (ws @ [?w])" if "split_buffer ?pre ?r post buf" for buf
          using split_buffer_word[OF that nw _ lrest hq'] prems(5) by (simp add: words_at_append)
        have "splits (split_loop cmd len (position + k + 1 + length ?w + 1, ?argv, ?pre @ ?r @ NUL # post)) (ws @ [?w])
            (FINSH_ARG_MAX - Suc (length argv)) ?pre ?r post"
          using IH[OF shorter a(1,2) nr a(3) wd] by simp
        moreover have "split_loop cmd len (position, argv, pre @ rest @ NUL # post) =
            split_loop cmd len (position + k + 1 + length ?w + 1, ?argv, ?pre @ ?r @ NUL # post)"
          using step st a(2) by simp
        ultimately show ?thesis unfolding n(1) using splits_word[OF _ nw _ lrest hq' lw lr] by simp
      qed
    next
      case nq: False
      let ?w = "takeWhile (\<lambda>c. \<not> blank c) (c # ds)" and ?r = "dropWhile (\<lambda>c. \<not> blank c) (c # ds)"
      let ?argv = "argv @ [length (pre @ q)]"
      have lw: "line_words rest = ?w # line_words ?r" using w(2) nq by simp
      have lr: "line_rest (Suc m) rest = line_rest m ?r" for m using c nq by simp
      have e: "c # ds = ?w @ ?r" by simp
      have l: "length (c # ds) = length ?w + length ?r" by (metis e length_append)
      have we: "word_end cmd len ((pre @ q) @ (c # ds) @ NUL # post) (position + k) = Done (position + k + length ?w)"
        by (rule word_end_run) (use at lens in auto)
      have step: "split_loop cmd len (position, argv, pre @ rest @ NUL # post) =
          (if position + k + length ?w \<ge> len then Done (?argv, [], (pre @ q) @ (c # ds) @ NUL # post)
           else split_loop cmd len (position + k + length ?w, ?argv, (pre @ q) @ (c # ds) @ NUL # post))"
        using pos skip n c nq at we load_append(2)[OF at, of c "ds @ NUL # post"]
        by (subst split_loop.simps) (simp add: add.assoc)
      have nr: "NUL \<notin> set ?r" "NUL \<notin> set ?w" using nn c by (metis set_dropWhileD, metis set_takeWhileD)
      have r0: "?r = [] \<or> blank (hd ?r)" using hd_dropWhile[of "\<lambda>c. \<not> blank c" "c # ds"] by blast
      have buf: "(pre @ q) @ (c # ds) @ NUL # post = (pre @ q @ ?w @ []) @ ?r @ NUL # post"
        by (subst e) (simp only: append.assoc append_Nil append_Nil2)
      have lrest: "length rest = length (q @ ?w @ [] @ ?r)" using l len c by (simp add: q_def)
      have wd: "words_at buf ?argv = Done (ws @ [?w])" if "split_buffer (pre @ q @ ?w @ []) ?r post buf" for buf
        using split_buffer_word[OF that nr(2) _ lrest hq] r0 prems(5) by (simp add: words_at_append)
      show ?thesis
      proof (cases "?r = []")
        case True
        then have "position + k + length ?w \<ge> len" using l lens by simp
        then have s: "split_loop cmd len (position, argv, pre @ rest @ NUL # post) = Done (?argv, [], (pre @ q) @ (c # ds) @ NUL # post)"
          using step by simp
        have b: "split_buffer (pre @ q @ ?w @ []) ?r post ((pre @ q) @ (c # ds) @ NUL # post)"
          unfolding buf True by (simp add: split_buffer_def)
        have "line_rest m ?r = []" "line_words ?r = []" for m unfolding True by (cases m) simp_all
        then show ?thesis
          using s wd[OF b] split_buffer_word(1)[OF b nr(2) _ lrest hq] r0 unfolding splits_def n(1) lw lr by simp
      next
        case False
        have "length ?w > 0" using w(1) by simp
        then have shorter: "length ?r < length rest" using l len[unfolded c] by linarith
        have a: "cmd + (position + k + length ?w) = length (pre @ q @ ?w @ [])" "len = position + k + length ?w + length ?r"
          "length ?argv \<le> FINSH_ARG_MAX"
          using at lens l n(2) by (simp_all only: length_append list.size)
        have "\<not> position + k + length ?w \<ge> len" using a(2) False by (simp only: length_greater_0_conv[symmetric])
        then have "split_loop cmd len (position, argv, pre @ rest @ NUL # post) =
            split_loop cmd len (position + k + length ?w, ?argv, (pre @ q) @ (c # ds) @ NUL # post)"
          unfolding step by (rule if_not_P)
        also have "\<dots> = split_loop cmd len (position + k + length ?w, ?argv, (pre @ q @ ?w @ []) @ ?r @ NUL # post)"
          by (rule arg_cong[OF buf])
        finally have s: "split_loop cmd len (position, argv, pre @ rest @ NUL # post) = \<dots>" .
        have "splits (split_loop cmd len (position + k + length ?w, ?argv, (pre @ q @ ?w @ []) @ ?r @ NUL # post)) (ws @ [?w])
            (FINSH_ARG_MAX - Suc (length argv)) (pre @ q @ ?w @ []) ?r post"
          using IH[OF shorter a(1,2) nr(1) a(3) wd] by simp
        then show ?thesis unfolding n(1) s using splits_word[OF _ nr(2) _ lrest hq lw lr] r0 by blast
      qed
    qed
  qed
qed

text \<open>What is printed about a line with too many words.\<close>

definition words_note :: "string \<Rightarrow> string" where
  "words_note line =
     (if line_rest FINSH_ARG_MAX line = [] then [] else too_many_args (take FINSH_ARG_MAX (line_words line)))"

lemma msh_split_words:
  assumes "NUL \<notin> set text"
  shows "\<exists>argv buf. msh_split (length pre) (length text) (pre @ text @ NUL # post) = Done (argv, words_note text, buf) \<and>
     words_at buf argv = Done (take FINSH_ARG_MAX (line_words text)) \<and> length buf = length (pre @ text @ NUL # post)"
  using split_loop_words[of "length pre" 0 pre "length text" "text" "[]" post "[]"] assms
  by (auto simp: msh_split_def splits_def split_buffer_def words_note_def)

section \<open>A command line is executed\<close>

text \<open>What a line means, with the table as an association of names.\<close>

definition find_command :: "'f finsh_syscall list \<Rightarrow> string \<Rightarrow> 'f option" where
  "find_command table c = map_option func (find (\<lambda>index. name index = ''__cmd_'' @ c) table)"

definition run_line ::
    "('f \<Rightarrow> string list \<Rightarrow> 'w \<Rightarrow> int \<times> string \<times> 'w) \<Rightarrow> 'f finsh_syscall list \<Rightarrow> string \<Rightarrow> 'w \<Rightarrow> int \<times> string \<times> 'w" where
  "run_line call table text w =
     (let t = dropWhile blank text in
      if t = [] then (0, [], w)
      else case find_command table (takeWhile (\<lambda>c. \<not> blank c) t) of
          Some f \<Rightarrow> (let (ret, out, w) = call f (take FINSH_ARG_MAX (line_words t)) w in (ret, words_note t @ out, w))
        | None \<Rightarrow> (-1, kprint (takeWhile (\<lambda>c. c \<noteq> CHR '' '') t @ '': command not found.'' @ [CHR 0x0a]), w))"

text \<open>The names in the table are strings.\<close>

definition table_ok :: "'f finsh_syscall list \<Rightarrow> bool" where
  "table_ok table \<longleftrightarrow> (\<forall>index\<in>set table. NUL \<notin> set (name index))"

lemma first_char_simps [simp]: "first_char [] = NUL" "first_char (c # s) = c"
  by (simp_all add: first_char_def)

lemma same_prefix_prefix: "NUL \<notin> set t \<Longrightarrow> same_prefix (length t) s t \<longleftrightarrow> prefix t s"
proof (induction t arbitrary: s)
  case (Cons c t)
  then show ?case by (cases s) auto
qed simp

lemma same_prefix_prefix2: "NUL \<notin> set s \<Longrightarrow> same_prefix (length s) s t \<longleftrightarrow> prefix s t"
proof (induction s arbitrary: t)
  case (Cons c s)
  then show ?case by (cases t) auto
qed simp

lemma same_prefix_append: "NUL \<notin> set t \<Longrightarrow> same_prefix (length t) s (t @ r) \<longleftrightarrow> prefix t s"
proof (induction t arbitrary: s)
  case (Cons c t)
  then show ?case by (cases s) auto
qed simp

lemma is_command_prefix: "is_command index \<longleftrightarrow> prefix ''__cmd_'' (name index)"
proof -
  have "same_prefix (length ''__cmd_'') (name index) ''__cmd_'' \<longleftrightarrow> prefix ''__cmd_'' (name index)"
    by (rule same_prefix_prefix) (simp add: NUL_def)
  moreover have "length ''__cmd_'' = 6" by simp
  ultimately show ?thesis by (simp only: is_command_def)
qed

lemma msh_get_cmd_find:
  assumes "table_ok table" and "NUL \<notin> set c"
  shows "msh_get_cmd table (c @ rest) (length c) = find_command table c"
  using assms(1)
proof (induction table)
  case (Cons index table)
  have "NUL \<notin> set (name index)" using Cons.prems by (simp add: table_ok_def)
  then have "is_command index \<and> same_prefix (length c) (drop 6 (name index)) (c @ rest) \<and>
      first_char (drop (6 + length c) (name index)) = NUL \<longleftrightarrow> name index = ''__cmd_'' @ c"
  proof -
    assume nn: "NUL \<notin> set (name index)"
    have d: "drop (6 + length c) (''__cmd_'' @ n) = drop (length c) n" for n
    proof -
      have "drop (length c) (drop 6 (''__cmd_'' @ n)) = drop (length c) n" by simp
      then show ?thesis by (simp only: drop_drop add.commute)
    qed
    have "prefix c n \<and> first_char (drop (length c) n) = NUL \<longleftrightarrow> n = c" if "NUL \<notin> set n" for n
      using that by (auto simp: prefix_def first_char_def split: list.splits)
    note here = this
    show ?thesis
    proof (cases "prefix ''__cmd_'' (name index)")
      case True
      then obtain n where n: "name index = ''__cmd_'' @ n" by (rule prefixE)
      have "NUL \<notin> set n" using nn unfolding n set_append by blast
      moreover have "drop 6 (name index) = n" unfolding n by simp
      moreover have "drop (6 + length c) (name index) = drop (length c) n" unfolding n by (rule d)
      ultimately show ?thesis
        unfolding is_command_prefix same_prefix_append[OF assms(2)] using True here[of n]
        by (simp only: n same_append_eq simp_thms)
    next
      case False
      then show ?thesis unfolding is_command_prefix by (metis prefixI)
    qed
  qed
  then show ?case using Cons by (simp add: find_command_def table_ok_def)
qed (simp add: find_command_def)

lemma trim_blanks_run:
  "trim_blanks (length pre) (length rest) (pre @ rest @ NUL # post) =
     Done (length pre + length (takeWhile blank rest), length (dropWhile blank rest))"
proof (induction rest arbitrary: pre)
  case (Cons c cs)
  then show ?case using Cons[of "pre @ [c]"] by simp
qed simp

lemma name_end_run:
  assumes "NUL \<notin> set rest"
  shows "name_end (pre @ rest @ NUL # post) (length pre) = Done (length pre + length (takeWhile (\<lambda>c. c \<noteq> CHR '' '') rest))"
  using assms
proof (induction rest arbitrary: pre)
  case Nil
  then show ?case by (subst name_end.simps) simp
next
  case (Cons c cs)
  then show ?case using Cons.IH[of "pre @ [c]"] by (subst name_end.simps) auto
qed

text \<open>The error message: the name up to the first space.\<close>

lemma not_found_text:
  assumes "NUL \<notin> set rest"
  shows "exec_bind (name_end (pre @ rest @ NUL # post) (length pre)) (\<lambda>tcmd.
      exec_bind (store_at tcmd NUL (pre @ rest @ NUL # post)) (\<lambda>buf.
      exec_bind (string_from (length pre) buf) (\<lambda>s. Done (f s buf)))) =
    Done (f (takeWhile (\<lambda>c. c \<noteq> CHR '' '') rest)
      ((pre @ rest @ NUL # post)[length pre + length (takeWhile (\<lambda>c. c \<noteq> CHR '' '') rest) := NUL]))"
proof -
  let ?w = "takeWhile (\<lambda>c. c \<noteq> CHR '' '') rest" and ?r = "dropWhile (\<lambda>c. c \<noteq> CHR '' '') rest"
  let ?buf = "(pre @ rest @ NUL # post)[length pre + length ?w := NUL]"
  have e: "rest = ?w @ ?r" by simp
  have "\<exists>more. ?buf = pre @ ?w @ NUL # more"
  proof (cases ?r)
    case Nil
    then have w: "?w = rest" using e by (metis append_Nil2)
    show ?thesis unfolding w by (simp add: list_update_append)
  next
    case (Cons c cs)
    then have "pre @ rest @ NUL # post = (pre @ ?w) @ c # (cs @ NUL # post)" using e by (metis append.assoc append_Cons)
    then have "?buf = (pre @ ?w) @ NUL # (cs @ NUL # post)" by (metis length_append list_update_length)
    then show ?thesis by auto
  qed
  then have "string_from (length pre) ?buf = Done ?w"
    using string_from_split[of ?w "length pre" pre] assms by (metis set_takeWhileD)
  moreover have "length ?w \<le> length rest" by (rule length_takeWhile_le)
  ultimately show ?thesis using name_end_run[OF assms] by (simp add: store_at_def)
qed

lemma msh_exec_run_line:
  assumes tab: "table_ok table" and tx: "NUL \<notin> set text"
  shows "\<exists>buf. msh_exec call table 0 (length text) (text @ NUL # post) w = Done (run_line call table text w, buf) \<and>
     length buf = length (text @ NUL # post)"
proof -
  let ?b = "takeWhile blank text" and ?t = "dropWhile blank text"
  have buf: "text @ NUL # post = ?b @ ?t @ NUL # post" by (metis append.assoc takeWhile_dropWhile_id)
  have trim: "trim_blanks 0 (length text) (text @ NUL # post) = Done (length ?b, length ?t)"
    using trim_blanks_run[of "[]" "text" post] by simp
  show ?thesis
  proof (cases ?t)
    case Nil
    then have "\<forall>c\<in>set text. blank c" by simp
    then show ?thesis using trim Nil by (simp add: msh_exec_def run_line_def)
  next
    case (Cons c cs)
    let ?c = "takeWhile (\<lambda>c. \<not> blank c) ?t"
    have nt: "NUL \<notin> set ?t" "NUL \<notin> set ?c" using tx by (meson set_dropWhileD set_takeWhileD)+
    have nb: "\<not> blank c" using hd_dropWhile[of blank "text"] Cons by simp
    have we: "word_end (length ?b) (length ?t) (?b @ ?t @ NUL # post) 0 = Done (length ?c)"
      using word_end_run[of "length ?b" 0 ?b "length ?t" ?t post] by simp
    have ne: "?c \<noteq> []" "line_words ?t \<noteq> []" "?t \<noteq> []" using nb by (simp_all add: Cons)
    have get: "msh_get_cmd table (drop (length ?b) (?b @ ?t @ NUL # post)) (length ?c) = find_command table ?c"
    proof -
      have "drop (length ?b) (?b @ x) = x" for x by simp
      moreover have "?t @ NUL # post = ?c @ dropWhile (\<lambda>c. \<not> blank c) ?t @ NUL # post" by (simp flip: append.assoc)
      ultimately show ?thesis using msh_get_cmd_find[OF tab nt(2)] by metis
    qed
    from msh_split_words[OF nt(1), of ?b post] obtain argv sbuf where
      s: "msh_split (length ?b) (length ?t) (?b @ ?t @ NUL # post) = Done (argv, words_note ?t, sbuf)"
        "words_at sbuf argv = Done (take FINSH_ARG_MAX (line_words ?t))" "length sbuf = length (?b @ ?t @ NUL # post)" by blast
    have "argv \<noteq> []" using s(2) ne(2) by (auto simp: FINSH_ARG_MAX_def)
    show ?thesis
    proof (cases "find_command table ?c")
      case None
      then have "msh_exec_cmd call table (length ?b) (length ?t) (?b @ ?t @ NUL # post) w = Done (None, ?b @ ?t @ NUL # post)"
        unfolding msh_exec_cmd_def we get exec_bind.simps using ne(1) by simp
      then show ?thesis
        unfolding msh_exec_def trim buf[symmetric] exec_bind.simps
        using ne(3) None not_found_text[OF nt(1), of ?b post
            "\<lambda>s buf. ((-1, kprint (s @ '': command not found.'' @ [CHR 0x0a]), w), buf)"]
        by (auto simp: run_line_def buf[symmetric] Let_def)
    next
      case (Some f)
      then have "msh_exec_cmd call table (length ?b) (length ?t) (?b @ ?t @ NUL # post) w =
          Done (Some (let (ret, out, w) = call f (take FINSH_ARG_MAX (line_words ?t)) w in (ret, words_note ?t @ out, w)), sbuf)"
        unfolding msh_exec_cmd_def we get exec_bind.simps using ne(1) s \<open>argv \<noteq> []\<close> by (simp add: split_beta)
      then show ?thesis
        unfolding msh_exec_def trim exec_bind.simps
        using ne(3) Some s(3) by (auto simp: run_line_def buf[symmetric] Let_def)
    qed
  qed
qed


section \<open>A word is completed\<close>

definition candidates :: "'f finsh_syscall list \<Rightarrow> string \<Rightarrow> string list" where
  "candidates table p = filter (prefix p) (map (\<lambda>index. drop 6 (name index)) (filter is_command table))"

definition completed :: "'f finsh_syscall list \<Rightarrow> string \<Rightarrow> string" where
  "completed table p =
     (if p = [] \<or> candidates table p = [] then p else Longest_common_prefix (set (candidates table p)))"

definition completion_text :: "'f finsh_syscall list \<Rightarrow> string \<Rightarrow> string" where
  "completion_text table p =
     (if p = [] then msh_help table else concat (map (\<lambda>n. kprint (n @ [CHR 0x0a])) (candidates table p)))"

lemma str_common_length: "NUL \<notin> set s \<Longrightarrow> str_common s t = length (longest_common_prefix s t)"
  by (induction s t rule: str_common.induct) auto

lemma common_insert:
  assumes "L \<noteq> {}"
  shows "Longest_common_prefix (insert x L) = longest_common_prefix (Longest_common_prefix L) x"
proof (rule Longest_common_prefix_eq)
  show "\<forall>xs\<in>insert x L. prefix (longest_common_prefix (Longest_common_prefix L) x) xs"
    using Longest_common_prefix_prefix[of _ L] longest_common_prefix_prefix1 longest_common_prefix_prefix2
    by (metis insert_iff prefix_order.trans)
  show "\<forall>qs. (\<forall>xs\<in>insert x L. prefix qs xs) \<longrightarrow> length qs \<le> length (longest_common_prefix (Longest_common_prefix L) x)"
    by (intro allI impI prefix_length_le longest_common_prefix_max_prefix)
      (auto intro: Longest_common_prefix_max_prefix[OF assms])
qed simp

text \<open>\<open>nm\<close> and \<open>min_length\<close> stand for the common prefix of what was found.\<close>

lemma common_step:
  assumes "nm \<in> L" and "take n nm = Longest_common_prefix L" and "n \<le> length nm" and "NUL \<notin> set nm"
  shows "take (min n (str_common nm x)) nm = Longest_common_prefix (insert x L)"
proof -
  have "prefix (longest_common_prefix nm x) nm" by (rule longest_common_prefix_prefix1)
  then have c: "take (str_common nm x) nm = longest_common_prefix nm x"
    unfolding str_common_length[OF assms(4)] by (metis append_eq_conv_conj prefixE)
  have "prefix (take (min n (str_common nm x)) nm) (longest_common_prefix (take n nm) x)"
    by (rule longest_common_prefix_max_prefix)
      (metis min.cobounded1 take_is_prefix take_take min.commute,
       metis c longest_common_prefix_prefix2 min.cobounded2 prefix_order.trans take_is_prefix take_take)
  moreover have "prefix (longest_common_prefix (take n nm) x) (take (min n (str_common nm x)) nm)"
  proof -
    let ?q = "longest_common_prefix (take n nm) x"
    have q: "prefix ?q (take n nm)" "prefix ?q x" by (rule longest_common_prefix_prefix1, rule longest_common_prefix_prefix2)
    then have "prefix ?q (longest_common_prefix nm x)"
      by (metis longest_common_prefix_max_prefix prefix_order.trans take_is_prefix)
    with q(1) c show ?thesis
      by (metis min.commute min_def prefix_length_le take_take append_eq_conv_conj prefixE prefixI)
  qed
  ultimately have "take (min n (str_common nm x)) nm = longest_common_prefix (take n nm) x"
    by (rule prefix_order.antisym)
  moreover have "L \<noteq> {}" using assms(1) by blast
  ultimately show ?thesis using assms(2) common_insert[of L x] by simp
qed

declare complete_loop.simps(2) [simp del]

lemma common_single: "longest_common_prefix s s = s" "Longest_common_prefix {s} = s"
proof -
  show "longest_common_prefix s s = s" by (induction s) simp_all
  show "Longest_common_prefix {s} = s" by (rule Longest_common_prefix_eq) (auto simp: prefix_length_le)
qed

lemma complete_loop_run:
  assumes "table_ok table" and p: "string_from 0 buf = Done p" and "p \<noteq> []" and np: "NUL \<notin> set p"
    and "case name_ptr of None \<Rightarrow> cs = [] \<and> n = 0
      | Some nm \<Rightarrow> nm \<in> set cs \<and> take n nm = Longest_common_prefix (set cs) \<and> 0 < n \<and> n \<le> length nm \<and> NUL \<notin> set nm"
    and "\<forall>c\<in>set cs. prefix p c"
  shows "\<exists>name_ptr' n'. complete_loop table buf (name_ptr, n, out) =
      Done (name_ptr', n', out @ concat (map (\<lambda>n. kprint (n @ [CHR 0x0a])) (candidates table p))) \<and>
    (case name_ptr' of None \<Rightarrow> cs @ candidates table p = []
      | Some nm \<Rightarrow> cs @ candidates table p \<noteq> [] \<and>
          take n' nm = Longest_common_prefix (set (cs @ candidates table p)) \<and> n' \<le> length nm)"
  using assms(1,5,6)
proof (induction table arbitrary: name_ptr n out cs)
  case Nil
  then show ?case by (auto simp: candidates_def split: option.splits)
next
  case (Cons index table)
  let ?c = "drop 6 (name index)"
  have tab: "table_ok table" "NUL \<notin> set (name index)" using Cons.prems(1) by (simp_all add: table_ok_def)
  show ?case
  proof (cases "is_command index \<and> prefix p ?c")
    case False
    then have a: "complete_loop (index # table) buf (name_ptr, n, out) = complete_loop table buf (name_ptr, n, out)"
      using p same_prefix_prefix2[OF np] by (simp add: complete_loop.simps(2))
    have b: "candidates (index # table) p = candidates table p" using False by (auto simp: candidates_def)
    show ?thesis unfolding a b by (rule Cons.IH[OF tab(1) Cons.prems(2,3)])
  next
    case True
    have nc: "NUL \<notin> set ?c" using tab(2) by (meson in_set_dropD)
    define nm where "nm = (case name_ptr of Some nm \<Rightarrow> nm | None \<Rightarrow> ?c)"
    define m where "m = (case name_ptr of Some nm \<Rightarrow> n | None \<Rightarrow> length ?c)"
    have nm: "NUL \<notin> set nm" using Cons.prems(2) nc by (auto simp: nm_def split: option.splits)
    have n': "take (min m (str_common nm ?c)) nm = Longest_common_prefix (set (cs @ [?c])) \<and> min m (str_common nm ?c) \<le> length nm
        \<and> nm \<in> set (cs @ [?c])"
    proof (cases name_ptr)
      case None
      with Cons.prems(2) nc show ?thesis by (simp add: nm_def m_def str_common_length common_single)
    next
      case (Some nm')
      then have s: "nm = nm'" "m = n" by (simp_all add: nm_def m_def)
      have "take (min n (str_common nm' ?c)) nm' = Longest_common_prefix (insert ?c (set cs))"
        using Cons.prems(2) Some by (intro common_step) auto
      then show ?thesis using Cons.prems(2) Some unfolding s by auto
    qed
    have "prefix p (Longest_common_prefix (set (cs @ [?c])))"
      using Cons.prems(3) True by (intro Longest_common_prefix_max_prefix) auto
    then have "0 < min m (str_common nm ?c)" using n' \<open>p \<noteq> []\<close> by (metis gr0I prefix_Nil take0)
    moreover have "candidates (index # table) p = ?c # candidates table p" using True by (simp add: candidates_def)
    moreover have "complete_loop (index # table) buf (name_ptr, n, out) =
        complete_loop table buf (Some nm, min m (str_common nm ?c), out @ kprint (?c @ [CHR 0x0a]))"
      using p same_prefix_prefix2[OF np] True Cons.prems(2)
      by (auto simp: complete_loop.simps(2) nm_def m_def min_def Let_def split: option.splits)
    ultimately show ?thesis
      using Cons.IH[OF tab(1), where name_ptr="Some nm" and cs="cs @ [?c]" and n="min m (str_common nm ?c)"
          and out="out @ kprint (?c @ [CHR 0x0a])"]
        Cons.prems(3) True n' nm by (auto split: option.splits)
  qed
qed


lemma completed_extends:
  "prefix p (completed table p)" "c \<in> set (candidates table p) \<Longrightarrow> prefix (completed table p) c"
proof -
  show "prefix p (completed table p)"
    unfolding completed_def by (auto simp: candidates_def intro!: Longest_common_prefix_max_prefix)
  show "prefix (completed table p) c" if "c \<in> set (candidates table p)"
    using that by (auto simp: completed_def candidates_def intro: Longest_common_prefix_prefix)
qed

lemma msh_auto_complete_run:
  assumes "table_ok table" and np: "NUL \<notin> set p" and "length (completed table p) < length p + k"
  shows "msh_auto_complete table (p @ replicate k NUL) =
     Done (completion_text table p, completed table p @ replicate (length p + k - length (completed table p)) NUL)"
proof (cases "p = []")
  case True
  then show ?thesis using assms(3) by (cases k) (simp_all add: msh_auto_complete_def completion_text_def completed_def)
next
  case False
  then obtain c cs where c: "p = c # cs" by (cases p) auto
  have k: "0 < k" using assms(3) completed_extends(1)[of p table] prefix_length_le by (metis add_0_right not_gr_zero not_le)
  then have s: "string_from 0 (p @ replicate k NUL) = Done p"
    using string_from_split[OF np, of 0 "[]" "replicate (k - 1) NUL"] by (cases k) simp_all
  from complete_loop_run[OF assms(1) s False np, where name_ptr=None and cs="[]" and n=0 and out="[]", unfolded append_Nil] obtain name_ptr n where
    r: "complete_loop table (p @ replicate k NUL) (None, 0, []) = Done (name_ptr, n, completion_text table p)"
      "case name_ptr of None \<Rightarrow> candidates table p = []
        | Some nm \<Rightarrow> candidates table p \<noteq> [] \<and>
            take n nm = Longest_common_prefix (set (candidates table p)) \<and> n \<le> length nm"
    using False by (auto simp: completion_text_def)
  show ?thesis
  proof (cases name_ptr)
    case None
    then show ?thesis using r np c by (auto simp: msh_auto_complete_def completed_def)
  next
    case (Some nm)
    then have nm: "candidates table p \<noteq> []" "take n nm = Longest_common_prefix (set (candidates table p))" "n \<le> length nm"
      using r(2) by simp_all
    have t1: "take n nm = completed table p" using nm(1,2) False by (simp add: completed_def)
    moreover have "n = length (completed table p)" using nm(3) by (simp flip: t1)
    ultimately have t: "take n nm = completed table p" "n = length (completed table p)" by simp_all
    have "length p \<le> n" using completed_extends(1)[of p table] t(2) by (simp add: prefix_length_le)
    moreover have "n < length p + k" using assms(3) t(2) by simp
    ultimately have "copy_name nm n (p @ replicate k NUL) = Done (take n nm @ replicate (length p + k - n) NUL)"
      using nm(3) by (simp add: copy_name_def)
    then have "copy_name nm n (p @ replicate k NUL) =
        Done (completed table p @ replicate (length p + k - length (completed table p)) NUL)"
      by (simp only: t(1) t(2)[symmetric])
    then show ?thesis using r(1) Some np c by (auto simp: msh_auto_complete_def)
  qed
qed

end
