(* ===== verification/Shell.thy ===== *)
theory Shell
  imports Msh
begin

text \<open>
  The shell \<^verbatim>\<open>rt-thread-nano-3.1.5/components/finsh/shell.c\<close>: the thread that reads keys, edits
  the line in its buffer with what is on the terminal, keeps a history of lines, completes words and
  executes lines. A key is what \<open>finsh_getchar\<close> gives (\<open>char\<close> is unsigned on the target). The
  last part proves that the buffer, the screen and an editor on plain strings go together.
\<close>

section \<open>The state\<close>

definition FINSH_CMD_SIZE :: nat where [code_unfold]: "FINSH_CMD_SIZE = 128"
definition FINSH_HISTORY_LINES :: nat where [code_unfold]: "FINSH_HISTORY_LINES = 5"

datatype input_stat = WAIT_NORMAL | WAIT_SPEC_KEY | WAIT_FUNC_KEY

text \<open>\<open>finsh_prompt_custom\<close> is a static variable beside the structure.\<close>

record finsh_shell =
  input_state :: input_stat
  echo_mode :: bool
  prompt_mode :: bool
  current_history :: "16 word"
  history_count :: "16 word"
  cmd_history :: "string list"
  line :: string
  line_position :: "16 word"
  line_curpos :: "16 word"
  finsh_prompt_custom :: "string option"

text \<open>From \<open>rt_calloc\<close>, \<open>finsh_system_init\<close> and the first lines of the thread.\<close>

definition finsh_system_init :: finsh_shell where
  "finsh_system_init =
     \<lparr>input_state = WAIT_NORMAL, echo_mode = True, prompt_mode = True, current_history = 0, history_count = 0,
      cmd_history = replicate FINSH_HISTORY_LINES (replicate FINSH_CMD_SIZE NUL),
      line = replicate FINSH_CMD_SIZE NUL, line_position = 0, line_curpos = 0, finsh_prompt_custom = None\<rparr>"

text \<open>The buffer of the prompt has \<open>RT_CONSOLEBUF_SIZE + 1\<close> bytes.\<close>

definition finsh_get_prompt :: "finsh_shell \<Rightarrow> string" where
  "finsh_get_prompt sh =
     (if \<not> prompt_mode sh then []
      else case finsh_prompt_custom sh of Some p \<Rightarrow> take 256 p | None \<Rightarrow> ''msh '' @ ''>'')"

text \<open>\<open>granted\<close>: whether \<open>rt_malloc\<close> gives memory for the new prompt.\<close>

definition finsh_set_prompt :: "bool \<Rightarrow> string option \<Rightarrow> finsh_shell \<Rightarrow> finsh_shell" where
  "finsh_set_prompt granted prompt sh = sh\<lparr>finsh_prompt_custom := (if granted then prompt else None)\<rparr>"

definition finsh_set_prompt_mode :: "u32 \<Rightarrow> finsh_shell \<Rightarrow> finsh_shell" where
  "finsh_set_prompt_mode mode sh = sh\<lparr>prompt_mode := bit mode 0\<rparr>"

definition finsh_set_echo :: "u32 \<Rightarrow> finsh_shell \<Rightarrow> finsh_shell" where
  "finsh_set_echo echo sh = sh\<lparr>echo_mode := bit echo 0\<rparr>"

section \<open>The operations\<close>

text \<open>\<open>memmove\<close> within an array.\<close>

definition move_in :: "nat \<Rightarrow> nat \<Rightarrow> nat \<Rightarrow> string \<Rightarrow> string exec" where
  "move_in dst src n buf =
     (if dst + n \<le> length buf \<and> src + n \<le> length buf
      then Done (take dst buf @ take n (drop src buf) @ drop (dst + n) buf) else Fault)"

definition backspaces :: "nat \<Rightarrow> string" where "backspaces n = concat (replicate n (kprint [CHR 0x08]))"

definition shell_handle_history :: "finsh_shell \<Rightarrow> string exec" where
  "shell_handle_history sh =
     exec_bind (string_from 0 (line sh)) (\<lambda>s.
       Done (kprint ([CHR 0x1b] @ ''[2K'' @ [CHR 0x0d]) @ kprint (finsh_get_prompt sh @ s)))"

definition padded_line :: "finsh_shell \<Rightarrow> string exec" where
  "padded_line sh =
     (let n = unat (line_position sh) in
      if n \<le> FINSH_CMD_SIZE then Done (take n (line sh) @ replicate (FINSH_CMD_SIZE - n) NUL) else Fault)"

definition shell_push_history :: "finsh_shell \<Rightarrow> finsh_shell exec" where
  "shell_push_history sh =
     exec_bind
       (if line_position sh \<noteq> 0 then
          (if unat (history_count sh) \<ge> FINSH_HISTORY_LINES then
             exec_bind (load_at (FINSH_HISTORY_LINES - 1) (cmd_history sh)) (\<lambda>h.
               if h \<noteq> line sh then
                 exec_bind (padded_line sh) (\<lambda>l.
                   Done (sh\<lparr>cmd_history := tl (cmd_history sh) @ [l], history_count := of_nat FINSH_HISTORY_LINES\<rparr>))
               else Done sh)
           else
             exec_bind (if history_count sh = 0 then Done True
                        else exec_bind (load_at (unat (history_count sh - 1)) (cmd_history sh)) (\<lambda>h. Done (h \<noteq> line sh)))
               (\<lambda>new. if new then
                   exec_bind (padded_line sh) (\<lambda>l.
                   exec_bind (store_at (unat (history_count sh)) l (cmd_history sh)) (\<lambda>hs.
                     Done (sh\<lparr>current_history := history_count sh, cmd_history := hs, history_count := history_count sh + 1\<rparr>)))
                 else Done sh))
        else Done sh)
       (\<lambda>sh. Done (sh\<lparr>current_history := history_count sh\<rparr>))"

text \<open>A line of the history comes into the buffer.\<close>

definition show_history :: "finsh_shell \<Rightarrow> (finsh_shell \<times> string) exec" where
  "show_history sh =
     exec_bind (load_at (unat (current_history sh)) (cmd_history sh)) (\<lambda>h.
     exec_bind (string_from 0 h) (\<lambda>s.
       let sh = sh\<lparr>line := h, line_position := of_nat (length s), line_curpos := of_nat (length s)\<rparr>
       in exec_bind (shell_handle_history sh) (\<lambda>out. Done (sh, out))))"

definition key_up :: "finsh_shell \<Rightarrow> (finsh_shell \<times> string) exec" where
  "key_up sh =
     (if current_history sh > 0 then show_history (sh\<lparr>current_history := current_history sh - 1\<rparr>)
      else Done (sh\<lparr>current_history := 0\<rparr>, []))"

definition key_down :: "finsh_shell \<Rightarrow> (finsh_shell \<times> string) exec" where
  "key_down sh =
     (if uint (current_history sh) < uint (history_count sh) - 1
      then show_history (sh\<lparr>current_history := current_history sh + 1\<rparr>)
      else if history_count sh \<noteq> 0 then show_history (sh\<lparr>current_history := history_count sh - 1\<rparr>)
      else Done (sh, []))"

definition key_left :: "finsh_shell \<Rightarrow> finsh_shell \<times> string" where
  "key_left sh =
     (if line_curpos sh \<noteq> 0 then (sh\<lparr>line_curpos := line_curpos sh - 1\<rparr>, kprint [CHR 0x08]) else (sh, []))"

definition key_right :: "finsh_shell \<Rightarrow> (finsh_shell \<times> string) exec" where
  "key_right sh =
     (if line_curpos sh < line_position sh
      then exec_bind (load_at (unat (line_curpos sh)) (line sh)) (\<lambda>c.
        Done (sh\<lparr>line_curpos := line_curpos sh + 1\<rparr>, kprint [c]))
      else Done (sh, []))"

definition shell_auto_complete :: "'f finsh_syscall list \<Rightarrow> finsh_shell \<Rightarrow> (finsh_shell \<times> string) exec" where
  "shell_auto_complete table sh =
     exec_bind (msh_auto_complete table (line sh)) (\<lambda>(out, l).
     exec_bind (string_from 0 l) (\<lambda>s.
       Done (sh\<lparr>line := l\<rparr>, kprint [CHR 0x0a] @ out @ kprint (finsh_get_prompt sh @ s))))"

definition key_tab :: "'f finsh_syscall list \<Rightarrow> finsh_shell \<Rightarrow> (finsh_shell \<times> string) exec" where
  "key_tab table sh =
     exec_bind (shell_auto_complete table sh) (\<lambda>(sh', out).
     exec_bind (string_from 0 (line sh')) (\<lambda>s.
       Done (sh'\<lparr>line_position := of_nat (length s), line_curpos := of_nat (length s)\<rparr>,
             backspaces (unat (line_curpos sh)) @ out)))"

definition key_backspace :: "finsh_shell \<Rightarrow> (finsh_shell \<times> string) exec" where
  "key_backspace sh =
     (if line_curpos sh = 0 then Done (sh, [])
      else
        (let sh = sh\<lparr>line_position := line_position sh - 1, line_curpos := line_curpos sh - 1\<rparr>;
             p = unat (line_position sh); c = unat (line_curpos sh)
         in if p > c then
              exec_bind (move_in c (c + 1) (p - c) (line sh)) (\<lambda>l.
              exec_bind (store_at p NUL l) (\<lambda>l.
              exec_bind (string_from c l) (\<lambda>s.
                Done (sh\<lparr>line := l\<rparr>, kprint ([CHR 0x08] @ s @ ''  '' @ [CHR 0x08]) @ backspaces (p + 1 - c)))))
            else
              exec_bind (store_at p NUL (line sh)) (\<lambda>l.
                Done (sh\<lparr>line := l\<rparr>, kprint ([CHR 0x08] @ '' '' @ [CHR 0x08])))))"

definition key_enter ::
    "('f \<Rightarrow> string list \<Rightarrow> 'w \<Rightarrow> int \<times> string \<times> 'w) \<Rightarrow> 'f finsh_syscall list \<Rightarrow> finsh_shell \<Rightarrow> 'w \<Rightarrow> (finsh_shell \<times> string \<times> 'w) exec" where
  "key_enter call table sh w =
     exec_bind (shell_push_history sh) (\<lambda>sh.
     exec_bind (msh_exec call table 0 (unat (line_position sh)) (line sh) w) (\<lambda>((ret, out, w), l).
       Done (sh\<lparr>line := replicate FINSH_CMD_SIZE NUL, line_position := 0, line_curpos := 0\<rparr>,
             (if echo_mode sh then kprint [CHR 0x0a] else []) @ out @ kprint (finsh_get_prompt sh), w)))"

text \<open>A character for the line. With the echo off the cursor is still moved back.\<close>

definition key_normal :: "char \<Rightarrow> finsh_shell \<Rightarrow> (finsh_shell \<times> string) exec" where
  "key_normal ch sh =
     (let sh = (if unat (line_position sh) \<ge> FINSH_CMD_SIZE then sh\<lparr>line_position := 0\<rparr> else sh);
          p = unat (line_position sh); c = unat (line_curpos sh)
      in exec_bind
           (if c < p then
              exec_bind (move_in (c + 1) c (p - c) (line sh)) (\<lambda>l.
              exec_bind (store_at c ch l) (\<lambda>l.
              exec_bind (if echo_mode sh then exec_bind (string_from c l) (\<lambda>s. Done (kprint s)) else Done []) (\<lambda>out.
                Done (l, out @ backspaces (p - c)))))
            else exec_bind (store_at p ch (line sh)) (\<lambda>l. Done (l, if echo_mode sh then kprint [ch] else [])))
           (\<lambda>(l, out).
             let sh = sh\<lparr>line := l, line_position := line_position sh + 1, line_curpos := line_curpos sh + 1\<rparr>
             in Done (if unat (line_position sh) \<ge> FINSH_CMD_SIZE then sh\<lparr>line_position := 0, line_curpos := 0\<rparr> else sh, out)))"

text \<open>One round of the loop of \<open>finsh_thread_entry\<close>: the shell, what is printed, and the rest.\<close>

definition plainly :: "'w \<Rightarrow> (finsh_shell \<times> string) exec \<Rightarrow> (finsh_shell \<times> string \<times> 'w) exec" where
  "plainly w e = exec_bind e (\<lambda>(sh, out). Done (sh, out, w))"

definition shell_key ::
    "('f \<Rightarrow> string list \<Rightarrow> 'w \<Rightarrow> int \<times> string \<times> 'w) \<Rightarrow> 'f finsh_syscall list \<Rightarrow> char \<Rightarrow> finsh_shell \<times> 'w \<Rightarrow> (finsh_shell \<times> string \<times> 'w) exec" where
  "shell_key call table ch = (\<lambda>(sh, w).
     if ch = CHR 0x1b then Done (sh\<lparr>input_state := WAIT_SPEC_KEY\<rparr>, [], w)
     else if input_state sh = WAIT_SPEC_KEY \<and> ch = CHR 0x5b then Done (sh\<lparr>input_state := WAIT_FUNC_KEY\<rparr>, [], w)
     else
       (let func = (input_state sh = WAIT_FUNC_KEY); sh = sh\<lparr>input_state := WAIT_NORMAL\<rparr>
        in if func \<and> ch = CHR 0x41 then plainly w (key_up sh)
           else if func \<and> ch = CHR 0x42 then plainly w (key_down sh)
           else if func \<and> ch = CHR 0x44 then plainly w (Done (key_left sh))
           else if func \<and> ch = CHR 0x43 then plainly w (key_right sh)
           else if ch = NUL \<or> ch = CHR 0xff then Done (sh, [], w)
           else if ch = CHR 0x09 then plainly w (key_tab table sh)
           else if ch = CHR 0x7f \<or> ch = CHR 0x08 then plainly w (key_backspace sh)
           else if ch = CHR 0x0d \<or> ch = CHR 0x0a then key_enter call table sh w
           else plainly w (key_normal ch sh)))"

fun finsh_thread_entry ::
    "('f \<Rightarrow> string list \<Rightarrow> 'w \<Rightarrow> int \<times> string \<times> 'w) \<Rightarrow> 'f finsh_syscall list \<Rightarrow> string \<Rightarrow> finsh_shell \<times> 'w \<Rightarrow> (finsh_shell \<times> string \<times> 'w) exec" where
  "finsh_thread_entry call table [] (sh, w) = Done (sh, [], w)"
| "finsh_thread_entry call table (ch # keys) (sh, w) =
     exec_bind (shell_key call table ch (sh, w)) (\<lambda>(sh, out, w).
     exec_bind (finsh_thread_entry call table keys (sh, w)) (\<lambda>(sh, out', w). Done (sh, out @ out', w)))"

end
