(* ===== verification/Shell_Editor.thy ===== *)
theory Shell_Editor
  imports Shell
begin

text \<open>
  What the shell of \<open>Shell\<close> is for its user: an editor on plain strings, whose line is on the
  terminal with the cursor in the right place, and which executes the line that is shown. The
  terminal is the abstract one of this theory, with lines of any length.
\<close>

section \<open>The terminal\<close>

text \<open>The row of the cursor, the column, and an escape sequence that is not complete.\<close>

record screen =
  row :: string
  col :: nat
  escape :: string

definition put_char :: "char \<Rightarrow> screen \<Rightarrow> screen" where
  "put_char c s =
     s\<lparr>row := (if col s < length (row s) then (row s)[col s := c]
               else row s @ replicate (col s - length (row s)) (CHR '' '') @ [c]),
       col := col s + 1\<rparr>"

definition term_char :: "screen \<Rightarrow> char \<Rightarrow> screen" where
  "term_char s c =
     (if escape s \<noteq> [] then
        (let e = escape s @ [c] in
         if e = [CHR 0x1b] @ ''[2K'' then s\<lparr>row := [], escape := []\<rparr>
         else if prefix e ([CHR 0x1b] @ ''[2K'') then s\<lparr>escape := e\<rparr> else s\<lparr>escape := []\<rparr>)
      else if c = CHR 0x1b then s\<lparr>escape := [c]\<rparr>
      else if c = CHR 0x0a then s\<lparr>row := [], col := 0\<rparr>
      else if c = CHR 0x0d then s\<lparr>col := 0\<rparr>
      else if c = CHR 0x08 then s\<lparr>col := col s - 1\<rparr>
      else if c = NUL then s
      else put_char c s)"

definition terminal :: "string \<Rightarrow> screen \<Rightarrow> screen" where
  "terminal out s = foldl term_char s out"

lemma term_append [simp]: "terminal (a @ b) s = terminal b (terminal a s)"
  by (simp add: terminal_def)

lemma term_Nil [simp]: "terminal [] s = s"
  by (simp add: terminal_def)

lemma term_Cons: "terminal (c # a) s = terminal a (term_char s c)"
  by (simp add: terminal_def)

definition printable :: "char \<Rightarrow> bool" where
  "printable c \<longleftrightarrow> 0x20 \<le> (of_char c :: nat) \<and> (of_char c :: nat) < 0x7f"

text \<open>What commands may print: it leaves nothing behind the cursor.\<close>

definition plain :: "char \<Rightarrow> bool" where
  "plain c \<longleftrightarrow> printable c \<or> c = CHR 0x0a \<or> c = NUL"

lemma printable_not [simp]:
  "\<not> printable NUL" "\<not> printable (CHR 0x08)" "\<not> printable (CHR 0x09)" "\<not> printable (CHR 0x0a)" "\<not> printable (CHR 0x0d)"
  "\<not> printable (CHR 0x1b)" "\<not> printable (CHR 0x7f)" "\<not> printable (CHR 0xff)"
  "printable (CHR '' '')"
  by (simp_all add: printable_def NUL_def)

lemma term_printable:
  assumes "printable c" and "escape s = []"
  shows "term_char s c = put_char c s"
  using assms by (auto simp: term_char_def)

definition on_row :: "screen \<Rightarrow> string \<Rightarrow> string \<Rightarrow> bool" where
  "on_row s a b \<longleftrightarrow> row s = a @ b \<and> col s = length a \<and> escape s = []"

lemma term_text:
  assumes "on_row s a b" and "\<forall>c\<in>set t. printable c"
  shows "on_row (terminal t s) (a @ t) (drop (length t) b)"
  using assms
proof (induction t arbitrary: s a b)
  case (Cons c t)
  have "on_row (put_char c s) (a @ [c]) (drop 1 b)"
    using Cons.prems(1) by (cases b) (auto simp: on_row_def put_char_def list_update_append)
  from Cons.IH[OF this] Cons.prems(2) show ?case
    using Cons.prems(1) by (simp add: term_Cons term_printable on_row_def)
qed simp

lemma term_back:
  assumes "on_row s (a @ b) c"
  shows "on_row (terminal (replicate (length b) (CHR 0x08)) s) a (b @ c)"
  using assms
proof (induction b arbitrary: c s rule: rev_induct)
  case (snoc x b)
  have "on_row (term_char s (CHR 0x08)) (a @ b) (x # c)"
    using snoc.prems by (auto simp: on_row_def term_char_def)
  from snoc.IH[OF this] show ?case by (simp add: term_Cons)
qed simp

lemma term_newline: "escape s = [] \<Longrightarrow> on_row (terminal [CHR 0x0a] s) [] []"
  by (simp add: on_row_def term_Cons term_char_def)

lemma term_clear: "escape s = [] \<Longrightarrow> on_row (terminal ([CHR 0x1b] @ ''[2K'' @ [CHR 0x0d]) s) [] []"
  by (simp add: on_row_def term_Cons term_char_def)

lemma term_plain:
  assumes "on_row s a []" and "\<forall>c\<in>set t. plain c"
  shows "\<exists>a'. on_row (terminal t s) a' []"
  using assms
proof (induction t arbitrary: s a)
  case (Cons c t)
  have "\<exists>a'. on_row (term_char s c) a' []"
  proof (cases "printable c")
    case True
    then show ?thesis using term_text[OF Cons.prems(1), of "[c]"] by (auto simp: term_Cons)
  next
    case False
    then show ?thesis using Cons.prems by (auto simp: plain_def on_row_def term_char_def NUL_def)
  qed
  with Cons show ?case by (auto simp: term_Cons)
qed auto

section \<open>The editor\<close>

record editor =
  left :: string
  right :: string
  lines :: "string list"
  shown :: nat
  keys :: input_stat

definition recall :: "nat \<Rightarrow> editor \<Rightarrow> editor" where
  "recall i e = e\<lparr>left := lines e ! i, right := [], shown := i\<rparr>"

definition remember :: "string \<Rightarrow> string list \<Rightarrow> string list" where
  "remember t h =
     (if t = [] \<or> h \<noteq> [] \<and> last h = t then h
      else (if length h \<ge> FINSH_HISTORY_LINES then tl h else h) @ [t])"

text \<open>\<open>None\<close>: the line is full.\<close>

definition editor_key ::
    "('f \<Rightarrow> string list \<Rightarrow> 'w \<Rightarrow> int \<times> string \<times> 'w) \<Rightarrow> 'f finsh_syscall list \<Rightarrow> char \<Rightarrow> editor \<times> 'w \<Rightarrow> (editor \<times> 'w) option" where
  "editor_key call table ch = (\<lambda>(e, w).
     if ch = CHR 0x1b then Some (e\<lparr>keys := WAIT_SPEC_KEY\<rparr>, w)
     else if keys e = WAIT_SPEC_KEY \<and> ch = CHR 0x5b then Some (e\<lparr>keys := WAIT_FUNC_KEY\<rparr>, w)
     else
       (let func = (keys e = WAIT_FUNC_KEY); e = e\<lparr>keys := WAIT_NORMAL\<rparr>
        in if func \<and> ch = CHR 0x41 then Some (if shown e = 0 then e else recall (shown e - 1) e, w)
           else if func \<and> ch = CHR 0x42 then
             Some (if lines e = [] then e
                   else recall (if Suc (shown e) < length (lines e) then Suc (shown e) else length (lines e) - 1) e, w)
           else if func \<and> ch = CHR 0x44 then
             Some (if left e = [] then e else e\<lparr>left := butlast (left e), right := last (left e) # right e\<rparr>, w)
           else if func \<and> ch = CHR 0x43 then
             Some (case right e of [] \<Rightarrow> e | c # cs \<Rightarrow> e\<lparr>left := left e @ [c], right := cs\<rparr>, w)
           else if ch = NUL \<or> ch = CHR 0xff then Some (e, w)
           else if ch = CHR 0x09 then Some (e\<lparr>left := completed table (left e @ right e), right := []\<rparr>, w)
           else if ch = CHR 0x7f \<or> ch = CHR 0x08 then Some (e\<lparr>left := butlast (left e)\<rparr>, w)
           else if ch = CHR 0x0d \<or> ch = CHR 0x0a then
             (let t = left e @ right e; h = remember t (lines e) in
              Some (e\<lparr>left := [], right := [], lines := h, shown := length h\<rparr>, snd (snd (run_line call table t w))))
           else if Suc (length (left e @ right e)) \<ge> FINSH_CMD_SIZE then None
           else Some (e\<lparr>left := left e @ [ch]\<rparr>, w)))"

fun editor_run ::
    "('f \<Rightarrow> string list \<Rightarrow> 'w \<Rightarrow> int \<times> string \<times> 'w) \<Rightarrow> 'f finsh_syscall list \<Rightarrow> string \<Rightarrow> editor \<times> 'w \<Rightarrow> (editor \<times> 'w) option" where
  "editor_run call table [] ew = Some ew"
| "editor_run call table (ch # cs) ew =
     (case editor_key call table ch ew of None \<Rightarrow> None | Some ew \<Rightarrow> editor_run call table cs ew)"

section \<open>The buffer and the screen show the editor\<close>

definition word_ok :: "string \<Rightarrow> bool" where
  "word_ok t \<longleftrightarrow> length t < FINSH_CMD_SIZE \<and> (\<forall>c\<in>set t. printable c)"

definition padded :: "string \<Rightarrow> string" where
  "padded t = t @ replicate (FINSH_CMD_SIZE - length t) NUL"

definition edits :: "finsh_shell \<Rightarrow> editor \<Rightarrow> bool" where
  "edits sh e \<longleftrightarrow>
     echo_mode sh \<and> input_state sh = keys e \<and>
     word_ok (left e @ right e) \<and> line sh = padded (left e @ right e) \<and>
     unat (line_position sh) = length (left e @ right e) \<and> unat (line_curpos sh) = length (left e) \<and>
     length (cmd_history sh) = FINSH_HISTORY_LINES \<and> length (lines e) \<le> FINSH_HISTORY_LINES \<and>
     (\<forall>i < length (lines e). cmd_history sh ! i = padded (lines e ! i)) \<and> (\<forall>t\<in>set (lines e). word_ok t) \<and>
     unat (history_count sh) = length (lines e) \<and> unat (current_history sh) = shown e \<and> shown e \<le> length (lines e)"

text \<open>On the screen: the prompt, the line with the cursor, and blanks.\<close>

definition displays :: "screen \<Rightarrow> string \<Rightarrow> editor \<Rightarrow> bool" where
  "displays s p e \<longleftrightarrow> (\<exists>a k. on_row s (a @ p @ left e) (right e @ replicate k (CHR '' '')))"

text \<open>The table and the commands: names fit in a line, and what is printed is plain.\<close>

definition commands_ok :: "('f \<Rightarrow> string list \<Rightarrow> 'w \<Rightarrow> int \<times> string \<times> 'w) \<Rightarrow> 'f finsh_syscall list \<Rightarrow> bool" where
  "commands_ok call table \<longleftrightarrow>
     (\<forall>index\<in>set table. word_ok (name index) \<and> (\<forall>c\<in>set (desc index). printable c)) \<and>
     (\<forall>f args w. \<forall>c\<in>set (fst (snd (call f args w))). plain c)"

lemma padded_length [simp]: "word_ok t \<Longrightarrow> length (padded t) = FINSH_CMD_SIZE"
  by (simp add: padded_def word_ok_def)

lemma word_ok_NUL: "word_ok t \<Longrightarrow> NUL \<notin> set t"
  using printable_not(1) by (auto simp: word_ok_def)

lemma string_padded: "word_ok (p @ t) \<Longrightarrow> string_from (length p) (padded (p @ t)) = Done t"
proof -
  assume ok: "word_ok (p @ t)"
  have n: "FINSH_CMD_SIZE - length (p @ t) = Suc (FINSH_CMD_SIZE - Suc (length (p @ t)))" using ok by (auto simp: word_ok_def)
  have "NUL \<notin> set t" using word_ok_NUL[OF ok] by simp
  from string_from_split[OF this refl, of p] show ?thesis unfolding padded_def n by simp
qed

lemma kprint_short [simp]: "length t \<le> 254 \<Longrightarrow> kprint t = t"
  by (simp add: kprint_def)

lemma backspaces_replicate: "backspaces n = replicate n (CHR 0x08)"
  by (induction n) (simp_all add: backspaces_def)


section \<open>Every key keeps them together\<close>

text \<open>A prompt that leaves room for the line in the console buffer.\<close>

definition prompt_ok :: "string \<Rightarrow> bool" where
  "prompt_ok p \<longleftrightarrow> length p \<le> 100 \<and> (\<forall>c\<in>set p. printable c)"

definition keeps :: "string \<Rightarrow> screen \<Rightarrow> (finsh_shell \<times> string) exec \<Rightarrow> editor \<Rightarrow> bool" where
  "keeps p s r e \<longleftrightarrow>
     (\<exists>sh out. r = Done (sh, out) \<and> edits sh e \<and> finsh_get_prompt sh = p \<and> displays (terminal out s) p e)"

lemma keepsI:
  "r = Done (sh, out) \<Longrightarrow> edits sh e \<Longrightarrow> finsh_get_prompt sh = p \<Longrightarrow> displays (terminal out s) p e \<Longrightarrow> keeps p s r e"
  by (auto simp: keeps_def)

lemma prompt_fields [simp]:
  "finsh_get_prompt (sh\<lparr>line := l\<rparr>) = finsh_get_prompt sh" "finsh_get_prompt (sh\<lparr>line_position := x\<rparr>) = finsh_get_prompt sh"
  "finsh_get_prompt (sh\<lparr>line_curpos := x\<rparr>) = finsh_get_prompt sh" "finsh_get_prompt (sh\<lparr>current_history := x\<rparr>) = finsh_get_prompt sh"
  "finsh_get_prompt (sh\<lparr>history_count := x\<rparr>) = finsh_get_prompt sh" "finsh_get_prompt (sh\<lparr>cmd_history := h\<rparr>) = finsh_get_prompt sh"
  "finsh_get_prompt (sh\<lparr>input_state := i\<rparr>) = finsh_get_prompt sh"
  by (simp_all add: finsh_get_prompt_def)

lemma editsD:
  assumes "edits sh e"
  shows "unat (line_position sh) = length (left e) + length (right e)" "unat (line_curpos sh) = length (left e)"
    "word_ok (left e @ right e)" "line sh = padded (left e @ right e)" "length (left e) + length (right e) < 128"
    "echo_mode sh" "\<forall>c\<in>set (left e). printable c" "\<forall>c\<in>set (right e). printable c"
  using assms by (auto simp: edits_def word_ok_def FINSH_CMD_SIZE_def)

text \<open>What the editor knows of the shell beside the line.\<close>

lemma edits_line:
  assumes "edits sh e" and "word_ok (l @ r)" and "unat p = length (l @ r)" and "unat c = length l"
  shows "edits (sh\<lparr>line := padded (l @ r), line_position := p, line_curpos := c\<rparr>) (e\<lparr>left := l, right := r\<rparr>)"
  using assms by (simp add: edits_def)

lemma displaysE:
  assumes "displays s p e"
  obtains a k where "on_row s ((a @ p) @ left e) (right e @ replicate k (CHR '' ''))"
  using assms by (auto simp: displays_def)

lemma displaysI:
  "on_row s ((a @ p) @ left e) (right e @ replicate k (CHR '' '')) \<Longrightarrow> displays s p e"
  by (auto simp: displays_def)

lemma unat_pred: "x \<noteq> 0 \<Longrightarrow> unat (x - 1 :: 16 word) = unat x - 1"
  by (simp add: unat_minus_one)

lemma unat_succ_u16: "unat (x :: 16 word) < 65535 \<Longrightarrow> unat (x + 1) = Suc (unat x)"
  by (simp add: unat_word_ariths)

lemma key_left_keeps:
  assumes ed: "edits sh e" and d: "displays s p e" and p: "finsh_get_prompt sh = p"
  shows "keeps p s (Done (key_left sh)) (if left e = [] then e else e\<lparr>left := butlast (left e), right := last (left e) # right e\<rparr>)"
proof (cases "left e" rule: rev_cases)
  case Nil
  then have "line_curpos sh = 0" using editsD(2)[OF ed] by (simp add: unat_eq_0)
  then show ?thesis using assms Nil by (intro keepsI[where out="[]"]) (simp_all add: key_left_def)
next
  case (snoc l x)
  have n0: "line_curpos sh \<noteq> 0" using editsD(2)[OF ed] snoc by auto
  have ed': "edits (sh\<lparr>line_curpos := line_curpos sh - 1\<rparr>) (e\<lparr>left := l, right := x # right e\<rparr>)"
    using ed snoc n0 by (simp add: edits_def unat_pred)
  obtain a k where "on_row s ((a @ p) @ left e) (right e @ replicate k (CHR '' ''))" using d by (rule displaysE)
  then have "on_row (terminal [CHR 0x08] s) ((a @ p) @ l) (x # right e @ replicate k (CHR '' ''))"
    using term_back[of s "(a @ p) @ l" "[x]"] snoc by simp
  then have d': "displays (terminal [CHR 0x08] s) p (e\<lparr>left := l, right := x # right e\<rparr>)" by (intro displaysI[of _ a _ _ k]) simp
  have "keeps p s (Done (key_left sh)) (e\<lparr>left := l, right := x # right e\<rparr>)"
    by (rule keepsI[OF _ ed' _ d']) (use n0 p in \<open>simp_all add: key_left_def\<close>)
  then show ?thesis using snoc by simp
qed

lemma key_right_keeps:
  assumes ed: "edits sh e" and d: "displays s p e" and p: "finsh_get_prompt sh = p"
  shows "keeps p s (key_right sh) (case right e of [] \<Rightarrow> e | c # cs \<Rightarrow> e\<lparr>left := left e @ [c], right := cs\<rparr>)"
proof (cases "right e")
  case Nil
  then have "\<not> line_curpos sh < line_position sh" using editsD(1,2)[OF ed] by (simp add: word_less_nat_alt)
  then show ?thesis using assms Nil by (intro keepsI[where out="[]"]) (simp_all add: key_right_def)
next
  case (Cons c cs)
  note f = editsD[OF ed]
  have lt: "line_curpos sh < line_position sh" using f(1,2) Cons by (simp add: word_less_nat_alt)
  have "unat (line_curpos sh + 1) = Suc (length (left e))" using f(2,5) unat_succ_u16[of "line_curpos sh"] by simp
  then have ed': "edits (sh\<lparr>line_curpos := line_curpos sh + 1\<rparr>) (e\<lparr>left := left e @ [c], right := cs\<rparr>)"
    using ed Cons by (simp add: edits_def)
  obtain a k where "on_row s ((a @ p) @ left e) (right e @ replicate k (CHR '' ''))" using d by (rule displaysE)
  then have "on_row (terminal [c] s) ((a @ p) @ left e @ [c]) (cs @ replicate k (CHR '' ''))"
    using term_text[of s "(a @ p) @ left e" _ "[c]"] Cons f(8) by fastforce
  then have d': "displays (terminal [c] s) p (e\<lparr>left := left e @ [c], right := cs\<rparr>)" by (intro displaysI[of _ a _ _ k]) simp
  have "load_at (unat (line_curpos sh)) (line sh) = Done c"
    using f(2,4) Cons load_append(1)[of "left e" c] by (simp add: padded_def)
  then have "keeps p s (key_right sh) (e\<lparr>left := left e @ [c], right := cs\<rparr>)"
    by (intro keepsI[OF _ ed' _ d']) (use lt p in \<open>simp_all add: key_right_def\<close>)
  then show ?thesis using Cons by simp
qed

lemma take_padded: "word_ok (l @ r) \<Longrightarrow> take (length l) (padded (l @ r)) = l \<and> drop (length l) (padded (l @ r)) = r @ replicate (FINSH_CMD_SIZE - length (l @ r)) NUL"
  by (simp add: padded_def)

lemma key_backspace_keeps:
  assumes ed: "edits sh e" and d: "displays s p e" and p: "finsh_get_prompt sh = p"
  shows "keeps p s (key_backspace sh) (e\<lparr>left := butlast (left e)\<rparr>)"
proof (cases "left e" rule: rev_cases)
  case Nil
  then have "line_curpos sh = 0" using editsD(2)[OF ed] by (simp add: unat_eq_0)
  moreover have "e\<lparr>left := butlast (left e)\<rparr> = e" using Nil by (cases e) simp
  ultimately show ?thesis using assms by (intro keepsI[where out="[]"]) (simp_all add: key_backspace_def)
next
  case (snoc l x)
  note f = editsD[OF ed]
  let ?r = "right e" and ?sh = "sh\<lparr>line_position := line_position sh - 1, line_curpos := line_curpos sh - 1\<rparr>"
  have n0: "line_curpos sh \<noteq> 0" "line_position sh \<noteq> 0" using f(1,2) snoc by auto
  have u: "unat (line_position ?sh) = length l + length ?r" "unat (line_curpos ?sh) = length l"
    using f(1,2) n0 snoc by (simp_all add: unat_pred)
  have ok: "word_ok (l @ ?r)" using f(3) snoc by (simp add: word_ok_def)
  have ed': "edits (?sh\<lparr>line := padded (l @ ?r)\<rparr>) (e\<lparr>left := l\<rparr>)"
    using ed ok u by (simp add: edits_def)
  have len: "length l + length ?r + 1 < 128" using f(5) snoc by simp
  obtain m where m: "FINSH_CMD_SIZE - length (l @ ?r) = Suc (Suc m)" "FINSH_CMD_SIZE - length (left e @ ?r) = Suc m"
    using len snoc by (auto simp: FINSH_CMD_SIZE_def intro: that[of "126 - (length l + length ?r)"])
  have line: "line sh = (l @ [x]) @ ?r @ replicate (Suc m) NUL" using f(4) snoc m(2) by (simp add: padded_def)
  obtain a k where row: "on_row s ((a @ p) @ l @ [x]) (?r @ replicate k (CHR '' ''))" using d snoc by (auto elim: displaysE)
  show ?thesis
  proof (cases "?r = []")
    case True
    have st: "store_at (length l) NUL (line sh) = Done (padded l)"
      using line True m by (simp add: store_at_def padded_def list_update_append)
    have "on_row (terminal ([CHR 0x08] @ '' '' @ [CHR 0x08]) s) ((a @ p) @ l) (replicate (Suc k) (CHR '' ''))"
    proof -
      have "on_row (terminal [CHR 0x08] s) ((a @ p) @ l) (x # replicate k (CHR '' ''))"
        using term_back[of s "(a @ p) @ l" "[x]"] row True by simp
      from term_text[OF this, of "'' ''"] have "on_row (terminal '' '' (terminal [CHR 0x08] s)) (((a @ p) @ l) @ '' '') (replicate k (CHR '' ''))"
        by simp
      from term_back[OF this] show ?thesis by (simp add: term_Cons)
    qed
    then have d': "displays (terminal ([CHR 0x08] @ '' '' @ [CHR 0x08]) s) p (e\<lparr>left := l\<rparr>)"
      using True by (intro displaysI[of _ a _ _ "Suc k"]) simp
    have "key_backspace sh = Done (?sh\<lparr>line := padded (l @ ?r)\<rparr>, [CHR 0x08] @ '' '' @ [CHR 0x08])"
      using n0 u True st by (simp add: key_backspace_def Let_def)
    from keepsI[OF this ed' _ d'] p show ?thesis using snoc by simp
  next
    case False
    obtain z y where zy: "x # ?r = z @ [y]" by (cases "x # ?r" rule: rev_cases) auto
    have lz: "length z = length ?r" using arg_cong[OF zy, of length] by simp
    have "line sh = l @ z @ y # replicate (Suc m) NUL"
      using line arg_cong[OF zy, of "\<lambda>t. l @ t @ replicate (Suc m) NUL"] by simp
    then have "drop (length l + length ?r) (line sh) = y # replicate (Suc m) NUL" by (simp add: lz)
    moreover have "take (length l) (line sh) = l" "take (length ?r) (drop (Suc (length l)) (line sh)) = ?r"
      "length (line sh) = length l + length ?r + Suc (Suc m)" by (simp_all add: line)
    ultimately have "move_in (length l) (length l + 1) (length ?r) (line sh) = Done ((l @ ?r) @ y # replicate (Suc m) NUL)"
      by (simp add: move_in_def)
    moreover have "store_at (length l + length ?r) NUL ((l @ ?r) @ y # replicate (Suc m) NUL) = Done (padded (l @ ?r))"
      using m(1) store_append[of 0 "length l + length ?r" "l @ ?r" NUL y "replicate (Suc m) NUL"] by (simp add: padded_def)
    ultimately have mv: "exec_bind (move_in (length l) (length l + 1) (length ?r) (line sh)) (\<lambda>b. store_at (length l + length ?r) NUL b) =
        Done (padded (l @ ?r))" by (simp only: exec_bind.simps)
    have st: "string_from (length l) (padded (l @ ?r)) = Done ?r" by (rule string_padded[OF ok])
    let ?out = "[CHR 0x08] @ ?r @ ''  '' @ [CHR 0x08]"
    have out: "kprint ?out = ?out" using len by (intro kprint_short) simp
    have "on_row (terminal [CHR 0x08] s) ((a @ p) @ l) (x # ?r @ replicate k (CHR '' ''))"
      using term_back[of s "(a @ p) @ l" "[x]"] row by simp
    from term_text[OF this, of "?r @ ''  ''"] f(8)
    have "on_row (terminal (?r @ ''  '') (terminal [CHR 0x08] s)) (((a @ p) @ l @ ?r @ '' '') @ '' '') (replicate (k - 1) (CHR '' ''))"
      by (cases k) auto
    from term_back[OF this] have "on_row (terminal ?out s) (((a @ p) @ l) @ ?r @ '' '') (replicate k' (CHR '' ''))" if "k' = Suc (k - 1)" for k'
      using that by (simp add: term_Cons)
    from term_back[OF this[OF refl]]
    have "on_row (terminal (?out @ replicate (Suc (length ?r)) (CHR 0x08)) s) ((a @ p) @ l) (?r @ replicate (Suc (Suc (k - 1))) (CHR '' ''))"
      by (simp add: term_Cons)
    then have d': "displays (terminal (?out @ replicate (Suc (length ?r)) (CHR 0x08)) s) p (e\<lparr>left := l\<rparr>)"
      by (intro displaysI[of _ a _ _ "Suc (Suc (k - 1))"]) simp
    have "key_backspace sh = Done (?sh\<lparr>line := padded (l @ ?r)\<rparr>, ?out @ replicate (Suc (length ?r)) (CHR 0x08))"
      using n0 u False mv st out by (auto simp: key_backspace_def Let_def exec_bind_Done_iff backspaces_replicate)
    from keepsI[OF this ed' _ d'] p show ?thesis using snoc by simp
  qed
qed


lemma key_normal_keeps:
  assumes ed: "edits sh e" and d: "displays s p e" and p: "finsh_get_prompt sh = p" and ch: "printable ch"
    and room: "Suc (length (left e @ right e)) < FINSH_CMD_SIZE"
  shows "keeps p s (key_normal ch sh) (e\<lparr>left := left e @ [ch]\<rparr>)"
proof -
  note f = editsD[OF ed]
  let ?l = "left e" and ?r = "right e"
  let ?sh = "sh\<lparr>line := padded ((?l @ [ch]) @ ?r), line_position := line_position sh + 1, line_curpos := line_curpos sh + 1\<rparr>"
  have ok: "word_ok ((?l @ [ch]) @ ?r)" using f(7,8) ch room by (auto simp: word_ok_def)
  have u: "unat (line_position sh + 1) = Suc (length ?l + length ?r)" "unat (line_curpos sh + 1) = Suc (length ?l)"
    using f(1,2,5) unat_succ_u16[of "line_position sh"] unat_succ_u16[of "line_curpos sh"] by simp_all
  have ed': "edits ?sh (e\<lparr>left := ?l @ [ch]\<rparr>)" using ed ok u by (simp add: edits_def)
  have sz: "length ?l + length ?r < 127" using room by (simp add: FINSH_CMD_SIZE_def)
  obtain m where m: "FINSH_CMD_SIZE - (length ?l + length ?r) = Suc m" "FINSH_CMD_SIZE - Suc (length ?l + length ?r) = m"
    using room by (cases "FINSH_CMD_SIZE - (length ?l + length ?r)") auto
  have line: "line sh = ?l @ ?r @ replicate (Suc m) NUL" using f(4) m(1) by (simp add: padded_def)
  have new: "padded ((?l @ [ch]) @ ?r) = ?l @ ch # ?r @ replicate m NUL" using m(2) by (simp add: padded_def)
  obtain a k where row: "on_row s ((a @ p) @ ?l) (?r @ replicate k (CHR '' ''))" using d by (rule displaysE)
  have small: "\<not> unat (line_position sh) \<ge> FINSH_CMD_SIZE" "\<not> unat (line_position sh + 1) \<ge> FINSH_CMD_SIZE"
    using f(1) u(1) sz by (simp_all add: FINSH_CMD_SIZE_def)
  show ?thesis
  proof (cases "?r = []")
    case True
    have "store_at (length ?l) ch (line sh) = Done (padded ((?l @ [ch]) @ ?r))"
      using store_append[of 0 "length ?l" ?l ch NUL "replicate m NUL"]
      by (subst new) (simp add: line True)
    then have k: "key_normal ch sh = Done (?sh, [ch])"
      using f(1,2,6) True small u by (simp add: key_normal_def Let_def)
    have "on_row (terminal [ch] s) ((a @ p) @ ?l @ [ch]) (drop 1 (replicate k (CHR '' '')))"
      using term_text[OF row, of "[ch]"] ch True by simp
    then have "displays (terminal [ch] s) p (e\<lparr>left := ?l @ [ch]\<rparr>)"
      using True by (intro displaysI[of _ a _ _ "k - 1"]) simp
    from keepsI[OF k ed' _ this] p show ?thesis by simp
  next
    case False
    then obtain y r' where r: "?r = y # r'" by (cases ?r) auto
    have "take (Suc (length ?l)) (line sh) = ?l @ [y]" "take (length ?r) (drop (length ?l) (line sh)) = ?r"
      "length (line sh) = length ?l + length ?r + Suc m" using r by (simp_all add: line)
    moreover have "drop (Suc (length ?l) + length ?r) (line sh) = replicate m NUL" by (simp add: line)
    ultimately have "move_in (length ?l + 1) (length ?l) (length ?r) (line sh) = Done (?l @ y # (?r @ replicate m NUL))"
      by (simp add: move_in_def)
    moreover have "store_at (length ?l) ch (?l @ y # (?r @ replicate m NUL)) = Done (padded ((?l @ [ch]) @ ?r))"
      using store_append[of 0 "length ?l" ?l ch y "?r @ replicate m NUL"]
      by (subst new) simp
    ultimately have mv: "exec_bind (move_in (length ?l + 1) (length ?l) (length ?r) (line sh)) (\<lambda>b. store_at (length ?l) ch b) =
        Done (padded ((?l @ [ch]) @ ?r))" by (simp only: exec_bind.simps)
    have st: "string_from (length ?l) (padded ((?l @ [ch]) @ ?r)) = Done (ch # ?r)"
      using string_padded[of ?l "ch # ?r"] ok by simp
    let ?out = "(ch # ?r) @ replicate (length ?r) (CHR 0x08)"
    have out: "kprint (ch # ?r) = ch # ?r" using sz by (intro kprint_short) simp
    have k: "key_normal ch sh = Done (?sh, ?out)"
      using f(1,2,6) False small u mv st out
      by (auto simp: key_normal_def Let_def exec_bind_Done_iff backspaces_replicate)
    have "on_row (terminal (ch # ?r) s) (((a @ p) @ ?l @ [ch]) @ ?r) (drop (Suc (length ?r)) (?r @ replicate k (CHR '' '')))"
      using term_text[OF row, of "ch # ?r"] ch f(8) by simp
    from term_back[OF this] have "on_row (terminal ?out s) ((a @ p) @ ?l @ [ch]) (?r @ replicate (k - 1) (CHR '' ''))"
      by (simp add: term_Cons)
    then have "displays (terminal ?out s) p (e\<lparr>left := ?l @ [ch]\<rparr>)" by (intro displaysI[of _ a _ _ "k - 1"]) simp
    from keepsI[OF k ed' _ this] p show ?thesis by simp
  qed
qed

lemma show_history_keeps:
  assumes ed: "edits sh e" and d: "displays s p e" and p: "finsh_get_prompt sh = p" "prompt_ok p"
    and i: "i < length (lines e)" "unat x = i"
  shows "keeps p s (show_history (sh\<lparr>current_history := x\<rparr>)) (recall i e)"
proof -
  let ?t = "lines e ! i"
  have e: "word_ok ?t" "cmd_history sh ! i = padded ?t" "length (cmd_history sh) = FINSH_HISTORY_LINES" "length (lines e) \<le> FINSH_HISTORY_LINES"
    using ed i(1) by (simp_all add: edits_def)
  let ?sh = "sh\<lparr>current_history := x, line := padded ?t, line_position := of_nat (length ?t), line_curpos := of_nat (length ?t)\<rparr>"
  have len: "length ?t < 128" using e(1) by (simp add: word_ok_def FINSH_CMD_SIZE_def)
  then have u: "unat (of_nat (length ?t) :: 16 word) = length ?t" by (intro unat_of_nat_small) simp
  have ed': "edits ?sh (recall i e)" using ed e u i by (simp add: edits_def recall_def)
  have st: "string_from 0 (padded ?t) = Done ?t" using string_padded[of "[]" ?t] e(1) by simp
  let ?out = "([CHR 0x1b] @ ''[2K'' @ [CHR 0x0d]) @ p @ ?t"
  have k: "show_history (sh\<lparr>current_history := x\<rparr>) = Done (?sh, ?out)"
    using e i p len st by (simp add: show_history_def shell_handle_history_def Let_def prompt_ok_def load_at_def)
  have esc: "escape s = []" using d by (auto simp: displays_def on_row_def)
  have "on_row (terminal ?out s) ([] @ p @ ?t) []"
    using term_text[OF term_clear[OF esc], of "p @ ?t"] p(2) e(1)
    by (auto simp: prompt_ok_def word_ok_def simp flip: term_append)
  then have "displays (terminal ?out s) p (recall i e)" by (intro displaysI[of _ "[]" _ _ 0]) (simp add: recall_def)
  from keepsI[OF k ed' _ this] p show ?thesis by simp
qed

lemma history_keys_keep:
  assumes ed: "edits sh e" and d: "displays s p e" and p: "finsh_get_prompt sh = p" "prompt_ok p"
  shows "keeps p s (key_up sh) (if shown e = 0 then e else recall (shown e - 1) e)"
    and "keeps p s (key_down sh) (if lines e = [] then e
      else recall (if Suc (shown e) < length (lines e) then Suc (shown e) else length (lines e) - 1) e)"
proof -
  have c: "unat (history_count sh) = length (lines e)" "unat (current_history sh) = shown e" "shown e \<le> length (lines e)"
    "length (lines e) \<le> 5"
    using ed by (simp_all add: edits_def FINSH_HISTORY_LINES_def)
  have refl': "keeps p s (Done (sh, [])) e" using assms by (intro keepsI[where out="[]"]) simp_all
  show "keeps p s (key_up sh) (if shown e = 0 then e else recall (shown e - 1) e)"
  proof (cases "shown e = 0")
    case True
    then have "current_history sh = 0" using c(2) by (simp add: unat_eq_0)
    moreover from this have "sh\<lparr>current_history := 0\<rparr> = sh" by (cases sh) simp
    ultimately have "key_up sh = Done (sh, [])" by (simp add: key_up_def)
    then show ?thesis using True refl' by simp
  next
    case False
    then have n0: "current_history sh \<noteq> 0" using c(2) by auto
    have "keeps p s (show_history (sh\<lparr>current_history := current_history sh - 1\<rparr>)) (recall (shown e - 1) e)"
      using False c n0 by (intro show_history_keeps assms) (simp_all add: unat_pred)
    then show ?thesis using False n0 by (simp add: key_up_def word_gt_0)
  qed
  show "keeps p s (key_down sh) (if lines e = [] then e
      else recall (if Suc (shown e) < length (lines e) then Suc (shown e) else length (lines e) - 1) e)"
  proof (cases "lines e = []")
    case True
    then have "history_count sh = 0" using c(1) by (simp add: unat_eq_0)
    moreover have "\<not> uint (current_history sh) < - 1" using uint_nonnegative[of "current_history sh"] by linarith
    ultimately have "key_down sh = Done (sh, [])" by (simp add: key_down_def)
    then show ?thesis using True refl' by simp
  next
    case False
    then have n0: "history_count sh \<noteq> 0" using c(1) by auto
    have lt: "uint (current_history sh) < uint (history_count sh) - 1 \<longleftrightarrow> Suc (shown e) < length (lines e)"
    proof -
      have "uint (current_history sh) = int (shown e)" "uint (history_count sh) = int (length (lines e))"
        by (simp_all flip: c(1,2))
      then show ?thesis by linarith
    qed
    have "keeps p s (show_history (sh\<lparr>current_history := current_history sh + 1\<rparr>)) (recall (Suc (shown e)) e)"
      if "Suc (shown e) < length (lines e)"
      using that c by (intro show_history_keeps assms) (simp_all add: unat_succ_u16)
    moreover have "keeps p s (show_history (sh\<lparr>current_history := history_count sh - 1\<rparr>)) (recall (length (lines e) - 1) e)"
      using False c n0 by (intro show_history_keeps assms) (simp_all add: unat_pred)
    ultimately show ?thesis using False n0 lt by (simp add: key_down_def)
  qed
qed


lemma kprint_chars: "c \<in> set (kprint t) \<Longrightarrow> c \<in> set t \<or> c = NUL"
  by (auto simp: kprint_def NUL_def dest: in_set_takeD split: if_splits)

lemma candidate_ok: "commands_ok call table \<Longrightarrow> n \<in> set (candidates table t) \<Longrightarrow> word_ok n"
proof -
  assume c: "commands_ok call table" and "n \<in> set (candidates table t)"
  then obtain index where i: "index \<in> set table" "n = drop 6 (name index)" by (auto simp: candidates_def)
  then have "word_ok (name index)" using c by (simp add: commands_ok_def)
  then show "word_ok n" unfolding i(2) word_ok_def by (auto dest: in_set_dropD)
qed

lemma completed_ok:
  assumes "commands_ok call table" and "word_ok t"
  shows "word_ok (completed table t)"
proof (cases "t = [] \<or> candidates table t = []")
  case False
  then obtain n where n: "n \<in> set (candidates table t)" by (cases "candidates table t") auto
  have "prefix (completed table t) n" by (rule completed_extends(2)[OF n])
  with candidate_ok[OF assms(1) n] show ?thesis
    unfolding word_ok_def by (meson le_less_trans prefix_length_le set_mono_prefix subsetD)
qed (use assms(2) in \<open>auto simp: completed_def\<close>)

lemma kprint_plain: "(\<And>c. c \<in> set t \<Longrightarrow> plain c) \<Longrightarrow> c \<in> set (kprint t) \<Longrightarrow> plain c"
  using kprint_chars[of c t] by (auto simp: plain_def)

lemma completion_plain:
  assumes "commands_ok call table" and "c \<in> set (completion_text table t)"
  shows "plain c"
proof (cases "t = []")
  case True
  have "printable c" if "index \<in> set table" "c \<in> set (take 16 (drop 6 (name index))) \<or> c \<in> set (desc index)" for index c
  proof -
    have "c \<in> set (name index) \<or> c \<in> set (desc index)" using that(2) by (meson in_set_dropD in_set_takeD)
    then show ?thesis using assms(1) that(1) by (auto simp: commands_ok_def word_ok_def)
  qed
  then have "plain c" if "index \<in> set table"
      "c \<in> set (kprint (take 16 (drop 6 (name index)) @ replicate n (CHR '' '') @ '' - '' @ desc index @ [CHR 0x0a]))" for index c n
    using that by (elim kprint_plain[rotated]) (auto simp: plain_def printable_def)
  moreover have "plain c" if "c \<in> set (kprint (''RT-Thread shell commands:'' @ [CHR 0x0a]))" for c
    using that by (elim kprint_plain[rotated]) (auto simp: plain_def printable_def)
  moreover have "plain c" if "c \<in> set (kprint [CHR 0x0a])" for c
    using that by (elim kprint_plain[rotated]) (simp add: plain_def)
  ultimately show ?thesis
    using assms(2) True by (auto simp: completion_text_def msh_help_def Let_def)
next
  case False
  then show ?thesis
    using assms(2) candidate_ok[OF assms(1)] by (fastforce simp: completion_text_def plain_def word_ok_def dest!: kprint_chars)
qed

lemma key_tab_keeps:
  assumes ed: "edits sh e" and d: "displays s p e" and p: "finsh_get_prompt sh = p" "prompt_ok p"
    and cmds: "commands_ok call table"
  shows "keeps p s (key_tab table sh) (e\<lparr>left := completed table (left e @ right e), right := []\<rparr>)"
proof -
  note f = editsD[OF ed]
  let ?t = "left e @ right e"
  let ?c = "completed table ?t"
  have tab: "table_ok table" using cmds word_ok_NUL by (auto simp: commands_ok_def table_ok_def)
  have ok: "word_ok ?c" by (rule completed_ok[OF cmds f(3)])
  have len: "length ?c < 128" "length ?t < 128" using ok f(3) by (simp_all add: word_ok_def FINSH_CMD_SIZE_def)
  have pad: "padded t = t @ replicate (128 - length t) NUL" for t by (simp add: padded_def FINSH_CMD_SIZE_def)
  have ac: "msh_auto_complete table (line sh) = Done (completion_text table ?t, padded ?c)"
    using msh_auto_complete_run[OF tab word_ok_NUL[OF f(3)], of "128 - length ?t"] len unfolding f(4) pad by simp
  have st: "string_from 0 (padded ?c) = Done ?c" using string_padded[of "[]" ?c] ok by simp
  let ?sh = "sh\<lparr>line := padded ?c, line_position := of_nat (length ?c), line_curpos := of_nat (length ?c)\<rparr>"
  have u: "unat (of_nat (length ?c) :: 16 word) = length ?c" using len(1) by (intro unat_of_nat_small) simp
  have ed': "edits ?sh (e\<lparr>left := ?c, right := []\<rparr>)" using ed ok u by (simp add: edits_def)
  let ?out = "replicate (length (left e)) (CHR 0x08) @ [CHR 0x0a] @ completion_text table ?t @ (p @ ?c)"
  have k: "key_tab table sh = Done (?sh, ?out)"
    using ac st p len(1) f(2) by (simp add: key_tab_def shell_auto_complete_def backspaces_replicate prompt_ok_def)
  have plain: "\<forall>c\<in>set (completion_text table ?t). plain c" using completion_plain[OF cmds] by blast
  obtain a k where "on_row s ((a @ p) @ left e) (right e @ replicate k (CHR '' ''))" using d by (rule displaysE)
  then have "on_row (terminal (replicate (length (left e)) (CHR 0x08)) s) (a @ p) (left e @ right e @ replicate k (CHR '' ''))"
    by (rule term_back)
  then have "on_row (terminal [CHR 0x0a] (terminal (replicate (length (left e)) (CHR 0x08)) s)) [] []"
    by (intro term_newline) (simp add: on_row_def)
  from term_plain[OF this plain] obtain a' where
    "on_row (terminal (completion_text table ?t) (terminal [CHR 0x0a] (terminal (replicate (length (left e)) (CHR 0x08)) s))) a' []" by blast
  from term_text[OF this, of "p @ ?c"] p(2) ok have "on_row (terminal ?out s) (a' @ p @ ?c) []"
    by (auto simp: prompt_ok_def word_ok_def term_Cons)
  then have "displays (terminal ?out s) p (e\<lparr>left := ?c, right := []\<rparr>)" by (intro displaysI[of _ a' _ _ 0]) simp
  from keepsI[OF k ed' _ this] p show ?thesis by simp
qed

lemma push_history_remembers:
  assumes ed: "edits sh e"
  shows "\<exists>sh'. shell_push_history sh = Done sh' \<and> line sh' = line sh \<and> line_position sh' = line_position sh \<and>
    echo_mode sh' = echo_mode sh \<and> finsh_get_prompt sh' = finsh_get_prompt sh \<and>
    (let h = remember (left e @ right e) (lines e) in
       edits sh' (e\<lparr>lines := h, shown := length h\<rparr>))"
proof -
  note f = editsD[OF ed]
  let ?t = "left e @ right e"
  have c: "unat (history_count sh) = length (lines e)" "unat (current_history sh) = shown e" "shown e \<le> length (lines e)"
    "length (lines e) \<le> 5" "length (cmd_history sh) = 5" "\<And>i. i < length (lines e) \<Longrightarrow> cmd_history sh ! i = padded (lines e ! i)"
    "\<And>t. t \<in> set (lines e) \<Longrightarrow> word_ok t"
    using ed by (simp_all add: edits_def FINSH_HISTORY_LINES_def)
  have inj: "padded a = padded b \<longleftrightarrow> a = b" if "word_ok a" "word_ok b" for a b
    using string_padded[of "[]"] that by (metis append_Nil exec.inject)
  have pl: "padded_line sh = Done (padded ?t)"
    using f(1,4,5) by (simp add: padded_line_def padded_def FINSH_CMD_SIZE_def)
  have nz: "line_position sh \<noteq> 0 \<longleftrightarrow> ?t \<noteq> []" using f(1) by (auto simp: unat_eq_0[symmetric])
  have last: "cmd_history sh ! (length (lines e) - 1) = padded (last (lines e))" "word_ok (last (lines e))" if "lines e \<noteq> []"
    using c(6)[of "length (lines e) - 1"] c(7)[of "last (lines e)"] that by (simp_all add: last_conv_nth)
  have same: "cmd_history sh ! (length (lines e) - 1) \<noteq> line sh \<longleftrightarrow> last (lines e) \<noteq> ?t" if "lines e \<noteq> []"
    using last[OF that] inj[OF last(2)[OF that] f(3)] f(4) by auto
  have hc: "unat (history_count sh) \<ge> FINSH_HISTORY_LINES \<longleftrightarrow> length (lines e) = 5" "history_count sh = 0 \<longleftrightarrow> lines e = []"
    "lines e \<noteq> [] \<Longrightarrow> unat (history_count sh - 1) = length (lines e) - 1"
    using c(1,4) by (auto simp: FINSH_HISTORY_LINES_def unat_pred simp flip: unat_eq_0)
  have old: "edits (sh\<lparr>current_history := history_count sh\<rparr>) (e\<lparr>shown := length (lines e)\<rparr>)"
    using ed by (simp add: edits_def)
  show ?thesis
  proof (cases "?t = [] \<or> lines e \<noteq> [] \<and> last (lines e) = ?t")
    case True
    then have rem: "remember ?t (lines e) = lines e" by (simp add: remember_def)
    have "shell_push_history sh = Done (sh\<lparr>current_history := history_count sh\<rparr>)"
    proof (cases "?t = []")
      case True
      then have "line_position sh = 0" using nz by blast
      then show ?thesis by (simp add: shell_push_history_def)
    next
      case False
      with True have l: "lines e \<noteq> []" "last (lines e) = ?t" by blast+
      have "length (lines e) - 1 < 5" using c(4) by simp
      then show ?thesis
        using same[OF l(1)] l hc nz False c(5)
        by (auto simp: shell_push_history_def load_at_def FINSH_HISTORY_LINES_def)
    qed
    moreover have "e\<lparr>lines := lines e, shown := n\<rparr> = e\<lparr>shown := n\<rparr>" for n by simp
    ultimately show ?thesis unfolding rem Let_def using old by simp
  next
    case new: False
    show ?thesis
    proof (cases "length (lines e) = 5")
      case True
      then have rem: "remember ?t (lines e) = tl (lines e) @ [?t]" using new by (auto simp: remember_def FINSH_HISTORY_LINES_def)
      let ?sh = "sh\<lparr>cmd_history := tl (cmd_history sh) @ [padded ?t], history_count := 5, current_history := 5\<rparr>"
      have l: "lines e \<noteq> []" using True by auto
      have "shell_push_history sh = Done ?sh"
        using same[OF l] hc nz new True c(5) pl l
        by (auto simp: shell_push_history_def load_at_def FINSH_HISTORY_LINES_def)
      moreover have "edits ?sh (e\<lparr>lines := tl (lines e) @ [?t], shown := 5\<rparr>)"
      proof -
        have "(tl (cmd_history sh) @ [padded ?t]) ! i = padded ((tl (lines e) @ [?t]) ! i)" if "i < 5" for i
          using that True c(5) c(6)[of "Suc i"] by (auto simp: nth_append nth_tl)
        moreover have "word_ok t" if "t \<in> set (tl (lines e) @ [?t])" for t
          using that f(3) c(7) l by (auto dest: list.set_sel(2))
        ultimately show ?thesis using ed True c(5) by (simp add: edits_def FINSH_HISTORY_LINES_def)
      qed
      ultimately show ?thesis unfolding rem Let_def using True by simp
    next
      case False
      then have lt: "length (lines e) < 5" using c(4) by simp
      have rem: "remember ?t (lines e) = lines e @ [?t]" using new lt by (auto simp: remember_def FINSH_HISTORY_LINES_def)
      let ?sh = "sh\<lparr>current_history := history_count sh + 1, cmd_history := (cmd_history sh)[length (lines e) := padded ?t], history_count := history_count sh + 1\<rparr>"
      have nf: "length (lines e) \<noteq> 5" using False .
      have "shell_push_history sh = Done ?sh"
      proof (cases "lines e = []")
        case True
        then show ?thesis
          using hc nz new c(1,5) pl by (auto simp: shell_push_history_def store_at_def)
      next
        case l: False
        have "length (lines e) - 1 < 5" using lt by simp
        then show ?thesis
          using same[OF l] hc nz new nf c(1,5) lt pl l by (auto simp: shell_push_history_def load_at_def store_at_def)
      qed
      moreover have "edits ?sh (e\<lparr>lines := lines e @ [?t], shown := Suc (length (lines e))\<rparr>)"
      proof -
        have "(cmd_history sh)[length (lines e) := padded ?t] ! i = padded ((lines e @ [?t]) ! i)" if "i < Suc (length (lines e))" for i
          using that lt c(5) c(6)[of i] by (auto simp: nth_append nth_list_update less_Suc_eq)
        moreover have "unat (history_count sh + 1) = Suc (length (lines e))" using c(1) lt unat_succ_u16[of "history_count sh"] by simp
        ultimately show ?thesis using ed lt c(5,7) f(3) by (auto simp: edits_def FINSH_HISTORY_LINES_def)
      qed
      ultimately show ?thesis unfolding rem Let_def by simp
    qed
  qed
qed

lemma line_words_chars: "w \<in> set (line_words cs) \<Longrightarrow> set w \<subseteq> set cs"
proof (induction cs rule: line_words.induct)
  case (2 c cs)
  have q: "set (fst (quoted cs)) \<subseteq> set cs" "set (snd (quoted cs)) \<subseteq> set cs"
    using quoted_parts[of cs] by (metis empty_iff list.set(1) set_append set_subset_Cons subsetI sup_ge1 Un_iff list.set_intros(2))+
  have t: "set (takeWhile p cs) \<subseteq> set cs" "set (dropWhile p cs) \<subseteq> set cs" for p
    by (auto dest: set_takeWhileD set_dropWhileD)
  show ?case
    using "2.prems" "2.IH" q t[of "\<lambda>c. \<not> blank c"] by (fastforce split: if_splits)
qed simp

lemma words_note_plain:
  assumes "word_ok t"
  shows "\<forall>c\<in>set (words_note (dropWhile blank t)). plain c"
proof -
  have "set w \<subseteq> set t" if "w \<in> set (take n (line_words (dropWhile blank t)))" for w n
    using line_words_chars[of w "dropWhile blank t"] in_set_takeD[OF that] by (auto dest: set_dropWhileD)
  then have w: "plain c" if "c \<in> set w" "w \<in> set (take n (line_words (dropWhile blank t)))" for c w n
    using that assms by (auto simp: word_ok_def plain_def)
  have "plain c" if c: "c \<in> set (too_many_args ws)" and ws: "\<forall>w\<in>set ws. \<forall>c\<in>set w. plain c" for c ws
  proof -
    have "plain c" if "c \<in> set (kprint (''Too many args ! We only Use:'' @ [CHR 0x0a]))"
      using that by (elim kprint_plain[rotated]) (auto simp: plain_def printable_def)
    moreover have "plain c" if "c \<in> set (kprint [CHR 0x0a])"
      using that by (elim kprint_plain[rotated]) (simp add: plain_def)
    moreover have "plain c" if "w \<in> set ws" "c \<in> set (kprint (w @ '' ''))" for w
    proof (rule kprint_plain[OF _ that(2)])
      fix d assume "d \<in> set (w @ '' '')"
      then have "d \<in> set w \<or> d = CHR '' ''" by auto
      then show "plain d" using ws that(1) by (auto simp: plain_def)
    qed
    ultimately show ?thesis using c unfolding too_many_args_def set_append set_concat set_map by blast
  qed
  then have "plain c" if "c \<in> set (too_many_args (take FINSH_ARG_MAX (line_words (dropWhile blank t))))" for c
    using that w by blast
  then show ?thesis unfolding words_note_def by (cases "line_rest FINSH_ARG_MAX (dropWhile blank t) = []") simp_all
qed

lemma run_line_plain:
  assumes "commands_ok call table" and "word_ok t"
  shows "\<forall>c\<in>set (fst (snd (run_line call table t w))). plain c"
proof -
  let ?t = "dropWhile blank t"
  have "printable c" if "c \<in> set (takeWhile q ?t)" for c q
    using assms(2) that by (auto simp: word_ok_def dest!: set_takeWhileD set_dropWhileD)
  then have "plain c" if "c \<in> set (kprint (takeWhile q ?t @ '': command not found.'' @ [CHR 0x0a]))" for c q
    using that by (elim kprint_plain[rotated]) (auto simp: plain_def printable_def)
  moreover have "plain c" if "c \<in> set (fst (snd (call f args w)))" for c f args
    using assms(1) that by (simp add: commands_ok_def)
  ultimately show ?thesis
    using words_note_plain[OF assms(2)] by (auto simp: run_line_def split_beta Let_def split: option.split)
qed

lemma key_enter_keeps:
  assumes ed: "edits sh e" and d: "displays s p e" and p: "finsh_get_prompt sh = p" "prompt_ok p"
    and cmds: "commands_ok call table"
  shows "\<exists>sh' out. key_enter call table sh w = Done (sh', out, snd (snd (run_line call table (left e @ right e) w))) \<and>
    (let h = remember (left e @ right e) (lines e) in
      keeps p s (Done (sh', out)) (e\<lparr>left := [], right := [], lines := h, shown := length h\<rparr>))"
proof -
  note f = editsD[OF ed]
  let ?t = "left e @ right e"
  let ?h = "remember ?t (lines e)"
  obtain ret said w' where rl: "run_line call table ?t w = (ret, said, w')" by (cases "run_line call table ?t w") auto
  obtain sh1 where s1: "shell_push_history sh = Done sh1" "line sh1 = line sh" "line_position sh1 = line_position sh"
      "echo_mode sh1" "finsh_get_prompt sh1 = p" "edits sh1 (e\<lparr>lines := ?h, shown := length ?h\<rparr>)"
    using push_history_remembers[OF ed] f(6) p(1) by (auto simp: Let_def)
  have tab: "table_ok table" using cmds word_ok_NUL by (auto simp: commands_ok_def table_ok_def)
  obtain m where m: "FINSH_CMD_SIZE - length ?t = Suc m" using f(3) by (cases "FINSH_CMD_SIZE - length ?t") (auto simp: word_ok_def)
  then have "line sh1 = ?t @ NUL # replicate m NUL" using s1(2) f(4) by (simp add: padded_def)
  then obtain buf where ex: "msh_exec call table 0 (unat (line_position sh1)) (line sh1) w = Done ((ret, said, w'), buf)"
    using msh_exec_run_line[OF tab word_ok_NUL[OF f(3)], of call "replicate m NUL" w] f(1) s1(3) rl by auto
  let ?sh = "sh1\<lparr>line := replicate FINSH_CMD_SIZE NUL, line_position := 0, line_curpos := 0\<rparr>"
  let ?out = "[CHR 0x0a] @ said @ p"
  have k: "key_enter call table sh w = Done (?sh, ?out, w')"
    using s1 ex p by (simp add: key_enter_def prompt_ok_def)
  have "padded [] = replicate FINSH_CMD_SIZE NUL" by (simp add: padded_def)
  then have ed': "edits ?sh (e\<lparr>left := [], right := [], lines := ?h, shown := length ?h\<rparr>)"
    using s1(6) by (simp add: edits_def word_ok_def FINSH_CMD_SIZE_def)
  have plain: "\<forall>c\<in>set said. plain c" using run_line_plain[OF cmds f(3), of w] rl by simp
  have "escape s = []" using d by (auto simp: displays_def on_row_def)
  from term_plain[OF term_newline[OF this] plain] obtain a where "on_row (terminal said (terminal [CHR 0x0a] s)) a []" by blast
  from term_text[OF this, of p] p(2) have "on_row (terminal ?out s) (a @ p) []"
    by (simp add: prompt_ok_def term_Cons)
  then have d': "displays (terminal ?out s) p (e\<lparr>left := [], right := [], lines := ?h, shown := length ?h\<rparr>)"
    by (intro displaysI[of _ a _ _ 0]) simp
  have "keeps p s (Done (?sh, ?out)) (e\<lparr>left := [], right := [], lines := ?h, shown := length ?h\<rparr>)"
    by (rule keepsI[OF refl ed' _ d']) (use s1(5) in simp)
  then show ?thesis using k rl by (auto simp: Let_def)
qed

text \<open>One key.\<close>

definition key_ok :: "char \<Rightarrow> bool" where
  "key_ok c \<longleftrightarrow> printable c \<or> c \<in> {NUL, CHR 0x08, CHR 0x09, CHR 0x0a, CHR 0x0d, CHR 0x1b, CHR 0x7f, CHR 0xff}"

definition together :: "string \<Rightarrow> finsh_shell \<Rightarrow> screen \<Rightarrow> editor \<Rightarrow> bool" where
  "together p sh s e \<longleftrightarrow> edits sh e \<and> displays s p e \<and> finsh_get_prompt sh = p \<and> prompt_ok p"

lemma keeps_together:
  assumes "keeps p s r e" and "prompt_ok p"
  shows "\<exists>sh out. plainly w r = Done (sh, out, w) \<and> together p sh (terminal out s) e"
  using assms by (auto simp: keeps_def plainly_def together_def)

lemma together_state:
  assumes "together p sh s e"
  shows "together p (sh\<lparr>input_state := i\<rparr>) s (e\<lparr>keys := i\<rparr>)"
  using assms by (auto simp: together_def edits_def displays_def)

lemma shell_key_together:
  assumes t: "together p sh s e" and key: "key_ok ch" and cmds: "commands_ok call table"
    and e: "editor_key call table ch (e, w) = Some (e', w')"
  shows "\<exists>sh' out. shell_key call table ch (sh, w) = Done (sh', out, w') \<and> together p sh' (terminal out s) e'"
proof -
  have st: "input_state sh = keys e" using t by (simp add: together_def edits_def)
  let ?sh = "sh\<lparr>input_state := WAIT_NORMAL\<rparr>" and ?e = "e\<lparr>keys := WAIT_NORMAL\<rparr>"
  have t': "together p ?sh s ?e" by (rule together_state[OF t])
  then have n: "edits ?sh ?e" "displays s p ?e" "finsh_get_prompt ?sh = p" and p: "prompt_ok p" by (simp_all add: together_def)
  note keep = keeps_together[OF _ p]
  show ?thesis
  proof (cases "ch = CHR 0x1b \<or> keys e = WAIT_SPEC_KEY \<and> ch = CHR 0x5b")
    case True
    then show ?thesis using e together_state[OF t] st by (auto simp: shell_key_def editor_key_def split: if_splits)
  next
    case esc: False
    note defs = shell_key_def editor_key_def Let_def st
    show ?thesis
    proof (cases "keys e = WAIT_FUNC_KEY \<and> ch \<in> {CHR 0x41, CHR 0x42, CHR 0x43, CHR 0x44}")
      case True
      then consider "ch = CHR 0x41" | "ch = CHR 0x42" | "ch = CHR 0x43" | "ch = CHR 0x44" by blast
      then show ?thesis
      proof cases
        case 1
        then have "shell_key call table ch (sh, w) = plainly w (key_up ?sh)"
          "editor_key call table ch (e, w) = Some (if shown ?e = 0 then ?e else recall (shown ?e - 1) ?e, w)"
          using True esc by (auto simp: defs)
        then show ?thesis using e keep[OF history_keys_keep(1)[OF n p], of w] by simp
      next
        case 2
        then have "shell_key call table ch (sh, w) = plainly w (key_down ?sh)"
          "editor_key call table ch (e, w) = Some (if lines ?e = [] then ?e
            else recall (if Suc (shown ?e) < length (lines ?e) then Suc (shown ?e) else length (lines ?e) - 1) ?e, w)"
          using True esc by (auto simp: defs)
        then show ?thesis using e keep[OF history_keys_keep(2)[OF n p], of w] by simp
      next
        case 3
        then have "shell_key call table ch (sh, w) = plainly w (key_right ?sh)"
          "editor_key call table ch (e, w) = Some (case right ?e of [] \<Rightarrow> ?e | c # cs \<Rightarrow> ?e\<lparr>left := left ?e @ [c], right := cs\<rparr>, w)"
          using True esc by (auto simp: defs split: list.splits)
        then show ?thesis using e keep[OF key_right_keeps[OF n], of w] by simp
      next
        case 4
        then have "shell_key call table ch (sh, w) = plainly w (Done (key_left ?sh))"
          "editor_key call table ch (e, w) = Some (if left ?e = [] then ?e
            else ?e\<lparr>left := butlast (left ?e), right := last (left ?e) # right ?e\<rparr>, w)"
          using True esc by (auto simp: defs)
        then show ?thesis using e keep[OF key_left_keeps[OF n], of w] by simp
      qed
    next
      case func: False
      have no: "(ch = CHR 0x1b) = False" "(keys e = WAIT_SPEC_KEY \<and> ch = CHR 0x5b) = False"
          "(keys e = WAIT_FUNC_KEY \<and> ch = CHR 0x41) = False" "(keys e = WAIT_FUNC_KEY \<and> ch = CHR 0x42) = False"
          "(keys e = WAIT_FUNC_KEY \<and> ch = CHR 0x43) = False" "(keys e = WAIT_FUNC_KEY \<and> ch = CHR 0x44) = False"
        using esc func by blast+
      have sk: "shell_key call table ch (sh, w) =
          (if ch = NUL \<or> ch = CHR 0xff then Done (?sh, [], w)
           else if ch = CHR 0x09 then plainly w (key_tab table ?sh)
           else if ch = CHR 0x7f \<or> ch = CHR 0x08 then plainly w (key_backspace ?sh)
           else if ch = CHR 0x0d \<or> ch = CHR 0x0a then key_enter call table ?sh w
           else plainly w (key_normal ch ?sh))"
        by (simp only: shell_key_def Let_def prod.case st no if_False)
      let ?h = "remember (left ?e @ right ?e) (lines ?e)"
      have ek: "editor_key call table ch (e, w) =
          (if ch = NUL \<or> ch = CHR 0xff then Some (?e, w)
           else if ch = CHR 0x09 then Some (?e\<lparr>left := completed table (left ?e @ right ?e), right := []\<rparr>, w)
           else if ch = CHR 0x7f \<or> ch = CHR 0x08 then Some (?e\<lparr>left := butlast (left ?e)\<rparr>, w)
           else if ch = CHR 0x0d \<or> ch = CHR 0x0a then
             Some (?e\<lparr>left := [], right := [], lines := ?h, shown := length ?h\<rparr>, snd (snd (run_line call table (left ?e @ right ?e) w)))
           else if Suc (length (left ?e @ right ?e)) \<ge> FINSH_CMD_SIZE then None
           else Some (?e\<lparr>left := left ?e @ [ch]\<rparr>, w))"
        by (simp only: editor_key_def Let_def prod.case no if_False)
      consider "ch = NUL \<or> ch = CHR 0xff" | "ch = CHR 0x09" | "ch = CHR 0x7f \<or> ch = CHR 0x08"
        | "ch = CHR 0x0d \<or> ch = CHR 0x0a" | "printable ch" using key esc by (auto simp: key_ok_def)
      then show ?thesis
      proof cases
        case 1
        then show ?thesis using e t' sk ek by (simp only: if_True) auto
      next
        case 2
        then have "shell_key call table ch (sh, w) = plainly w (key_tab table ?sh)"
          "editor_key call table ch (e, w) = Some (?e\<lparr>left := completed table (left ?e @ right ?e), right := []\<rparr>, w)"
          using sk ek by (simp_all add: NUL_def)
        then show ?thesis using e keep[OF key_tab_keeps[OF n p cmds], of w] by simp
      next
        case 3
        then have "shell_key call table ch (sh, w) = plainly w (key_backspace ?sh)"
          "editor_key call table ch (e, w) = Some (?e\<lparr>left := butlast (left ?e)\<rparr>, w)"
          using sk ek by (auto simp add: NUL_def)
        then show ?thesis using e keep[OF key_backspace_keeps[OF n], of w] by simp
      next
        case 4
        then have "shell_key call table ch (sh, w) = key_enter call table ?sh w"
          "editor_key call table ch (e, w) = Some (?e\<lparr>left := [], right := [], lines := ?h, shown := length ?h\<rparr>,
            snd (snd (run_line call table (left ?e @ right ?e) w)))"
          using sk ek by (auto simp add: NUL_def)
        then show ?thesis using e key_enter_keeps[OF n p cmds, of w] p by (auto simp: Let_def keeps_def together_def)
      next
        case 5
        then have ne: "ch \<noteq> NUL" "ch \<noteq> CHR 0xff" "ch \<noteq> CHR 0x09" "ch \<noteq> CHR 0x7f" "ch \<noteq> CHR 0x08" "ch \<noteq> CHR 0x0d" "ch \<noteq> CHR 0x0a"
          using printable_not by blast+
        have full: "editor_key call table ch (e, w) =
            (if Suc (length (left ?e @ right ?e)) \<ge> FINSH_CMD_SIZE then None else Some (?e\<lparr>left := left ?e @ [ch]\<rparr>, w))"
          using ek ne by simp
        then have room: "Suc (length (left ?e @ right ?e)) < FINSH_CMD_SIZE" using e by (auto split: if_splits)
        have "shell_key call table ch (sh, w) = plainly w (key_normal ch ?sh)" using sk ne by simp
        then show ?thesis using keep[OF key_normal_keeps[OF n 5 room], of w] full room e by auto
      qed
    qed
  qed
qed

lemma thread_together:
  assumes "together p sh s e" and "\<forall>c\<in>set cs. key_ok c" and "commands_ok call table"
    and "editor_run call table cs (e, w) = Some (e', w')"
  shows "\<exists>sh' out. finsh_thread_entry call table cs (sh, w) = Done (sh', out, w') \<and> together p sh' (terminal out s) e'"
  using assms(1,2,4)
proof (induction cs arbitrary: sh s e w)
  case (Cons c cs)
  then obtain e1 w1 where e1: "editor_key call table c (e, w) = Some (e1, w1)" "editor_run call table cs (e1, w1) = Some (e', w')"
    by (auto split: option.splits)
  from shell_key_together[OF Cons.prems(1) _ assms(3) e1(1)] Cons.prems(2) obtain sh1 out1 where
    s1: "shell_key call table c (sh, w) = Done (sh1, out1, w1)" "together p sh1 (terminal out1 s) e1" by auto
  from Cons.IH[OF s1(2) _ e1(2)] Cons.prems(2) s1(1) show ?case by auto
qed auto


section \<open>From the start of the thread\<close>

definition empty_editor :: editor where
  "empty_editor = \<lparr>left = [], right = [], lines = [], shown = 0, keys = WAIT_NORMAL\<rparr>"

text \<open>The thread prints the prompt before it reads the first key.\<close>

definition first_screen :: screen where
  "first_screen = terminal (kprint (finsh_get_prompt finsh_system_init)) \<lparr>row = [], col = 0, escape = []\<rparr>"

lemma init_prompt: "finsh_get_prompt finsh_system_init = ''msh >''"
  by (simp add: finsh_get_prompt_def finsh_system_init_def)

lemma msh_prompt_ok: "prompt_ok ''msh >''"
  by (simp add: prompt_ok_def printable_def)

lemma init_together: "together ''msh >'' finsh_system_init first_screen empty_editor"
proof -
  have "on_row \<lparr>row = [], col = 0, escape = []\<rparr> [] []" by (simp add: on_row_def)
  from term_text[OF this, of "''msh >''"] msh_prompt_ok have "on_row first_screen ''msh >'' []"
    by (simp add: first_screen_def init_prompt prompt_ok_def)
  then have "displays first_screen ''msh >'' empty_editor"
    by (intro displaysI[of _ "[]" _ _ 0]) (simp add: empty_editor_def)
  moreover have "edits finsh_system_init empty_editor"
    by (simp add: edits_def finsh_system_init_def empty_editor_def word_ok_def padded_def FINSH_CMD_SIZE_def)
  ultimately show ?thesis using init_prompt msh_prompt_ok by (simp add: together_def)
qed

text \<open>A line of 128 characters.\<close>

lemma editor_types:
  assumes "\<forall>c\<in>set cs. printable c" and "length (left e @ right e) + length cs < FINSH_CMD_SIZE" and "keys e = WAIT_NORMAL"
  shows "editor_run call table cs (e, w) = Some (e\<lparr>left := left e @ cs\<rparr>, w)"
  using assms
proof (induction cs arbitrary: e)
  case (Cons c cs)
  have "c \<notin> {NUL, CHR 0x08, CHR 0x09, CHR 0x0a, CHR 0x0d, CHR 0x1b, CHR 0x7f, CHR 0xff}"
    using Cons.prems(1) printable_not by auto
  moreover have "e\<lparr>keys := WAIT_NORMAL\<rparr> = e" using Cons.prems(3) by (cases e) simp
  ultimately have "editor_key call table c (e, w) = Some (e\<lparr>left := left e @ [c]\<rparr>, w)"
    using Cons.prems by (simp add: editor_key_def Let_def)
  then show ?case using Cons.IH[of "e\<lparr>left := left e @ [c]\<rparr>"] Cons.prems by simp
qed simp

lemma thread_append:
  "finsh_thread_entry call table (cs @ ds) (sh, w) =
     exec_bind (finsh_thread_entry call table cs (sh, w)) (\<lambda>(sh, out, w).
       exec_bind (finsh_thread_entry call table ds (sh, w)) (\<lambda>(sh, out', w). Done (sh, out @ out', w)))"
proof (induction cs arbitrary: sh w)
  case Nil
  show ?case by (cases "finsh_thread_entry call table ds (sh, w)") auto
next
  case (Cons c cs)
  show ?case
  proof (cases "shell_key call table c (sh, w)")
    case (Done r)
    obtain sh1 out1 w1 where r: "r = (sh1, out1, w1)" by (cases r) auto
    show ?thesis
      using Cons.IH[of sh1 w1]
      by (cases "finsh_thread_entry call table cs (sh1, w1)")
        (auto simp: Done r split_beta exec_bind_assoc)
  qed simp_all
qed

text \<open>Printable keys do not depend on the commands.\<close>

lemma printable_keys:
  "\<forall>c\<in>set cs. printable c \<Longrightarrow> finsh_thread_entry call table cs shw = finsh_thread_entry call' table' cs shw"
proof (induction cs arbitrary: shw)
  case Nil
  show ?case by (cases shw) simp
next
  case (Cons c cs)
  obtain sh w where shw: "shw = (sh, w)" by (cases shw)
  have "c \<noteq> CHR 0x09" "c \<noteq> CHR 0x0d" "c \<noteq> CHR 0x0a" using Cons.prems printable_not by auto
  then have "shell_key call table c shw = shell_key call' table' c shw" by (simp add: shell_key_def shw Let_def)
  moreover have "finsh_thread_entry call table cs = finsh_thread_entry call' table' cs"
    using Cons by (simp add: fun_eq_iff)
  ultimately show ?case by (simp add: shw)
qed

lemma full_line:
  assumes "edits sh e" and "keys e = WAIT_NORMAL" and "right e = []" and "length (left e) = 127" and "printable c"
  shows "\<exists>sh' out. shell_key call table c (sh, w) = Done (sh', out, w) \<and> line sh' = left e @ [c] \<and>
    line_position sh' = 0 \<and> line_curpos sh' = 0 \<and> input_state sh' = WAIT_NORMAL"
proof -
  note f = editsD[OF assms(1)]
  have ne: "c \<notin> {NUL, CHR 0x08, CHR 0x09, CHR 0x0a, CHR 0x0d, CHR 0x1b, CHR 0x7f, CHR 0xff}"
    using assms(5) printable_not by auto
  have st: "input_state sh = WAIT_NORMAL" using assms(1,2) by (simp add: edits_def)
  have u: "unat (line_position sh) = 127" "unat (line_curpos sh) = 127" "unat (line_position sh + 1) = 128"
    using f(1,2) assms(3,4) unat_succ_u16[of "line_position sh"] by simp_all
  have "line sh = left e @ [NUL]" using f(4) assms(3,4) by (simp add: padded_def FINSH_CMD_SIZE_def)
  then have "store_at 127 c (line sh) = Done (left e @ [c])" using assms(4) by (simp add: store_at_def list_update_append)
  then show ?thesis
    using ne st u by (simp add: shell_key_def plainly_def key_normal_def Let_def FINSH_CMD_SIZE_def)
qed

lemma unterminated:
  assumes "NUL \<notin> set l" and "l \<noteq> []"
  shows "exec_bind (msh_auto_complete table l) (\<lambda>(out, l). exec_bind (string_from 0 l) (g out l)) = Fault"
proof -
  have st: "string_from 0 l = Fault" using assms by (simp add: string_from_def)
  have "complete_loop table l (None, 0, []) = Fault \<or> complete_loop table l (None, 0, []) = Done (None, 0, [])"
    by (induction table) (simp_all add: complete_loop.simps(2) st)
  moreover have "hd l \<noteq> NUL" using assms hd_in_set by metis
  ultimately show ?thesis
    using assms(2) st by (cases l) (auto simp: msh_auto_complete_def)
qed

section \<open>Properties\<close>

text \<open>C36. The shell does to its line, to its history and to the terminal what an editor on plain strings
  does. From the start of the thread, for any sequence of printable characters, editing, history, completion,
  escape and return keys in which the line does not reach 128 characters: no access leaves a buffer; the row of
  the terminal ends with the prompt and the line, with the cursor at its place and blanks behind it;
  the buffer holds the line that is shown; and the commands executed were the lines shown when
  return was pressed (\<open>run_line\<close>), cut into their words. What is printed in between belongs to the
  output: the text of a command behind the message about more than ten words, the message about an unknown
  command, the listings of completion and help.\<close>

theorem shell_edits_what_is_shown:
  assumes "editor_run call table cs (empty_editor, w) = Some (e, w')"
    and "\<forall>c\<in>set cs. key_ok c" and "commands_ok call table"
  shows "\<exists>sh out a k. finsh_thread_entry call table cs (finsh_system_init, w) = Done (sh, out, w') \<and>
    row (terminal out first_screen) = a @ ''msh >'' @ left e @ right e @ replicate k (CHR '' '') \<and>
    col (terminal out first_screen) = length (a @ ''msh >'' @ left e) \<and>
    string_from 0 (line sh) = Done (left e @ right e) \<and> unat (line_curpos sh) = length (left e)"
proof -
  from thread_together[OF init_together assms(2,3,1)] obtain sh out where
    r: "finsh_thread_entry call table cs (finsh_system_init, w) = Done (sh, out, w')"
      "edits sh e" "displays (terminal out first_screen) ''msh >'' e" by (auto simp: together_def)
  obtain a k where "on_row (terminal out first_screen) ((a @ ''msh >'') @ left e) (right e @ replicate k (CHR '' ''))"
    using r(3) by (rule displaysE)
  moreover have "string_from 0 (line sh) = Done (left e @ right e)"
    using editsD(3,4)[OF r(2)] string_padded[of "[]" "left e @ right e"] by simp
  ultimately show ?thesis using r(1) editsD(2)[OF r(2)] by (auto simp: on_row_def)
qed

text \<open>A table with one command, which keeps what it is called with.\<close>

definition note_call :: "nat \<Rightarrow> string list \<Rightarrow> string list list \<Rightarrow> int \<times> string \<times> string list list" where
  "note_call f args w = (0, ''ok'' @ [CHR 0x0a], w @ [args])"

definition one_command :: "nat finsh_syscall list" where
  "one_command = [\<lparr>name = ''__cmd_led'', desc = ''Set a LED'', func = 7\<rparr>]"

text \<open>The keys: \<open>l\<close>, \<open>x\<close>, backspace, \<open>ed 1\<close>, left, \<open>"\<close>, return, up, and \<open>2\<close>.\<close>

definition some_keys :: string where
  "some_keys = ''lx'' @ [CHR 0x08] @ ''ed 1'' @ [CHR 0x1b, CHR 0x5b, CHR 0x44] @ [CHR 0x22] @ [CHR 0x0d] @
     [CHR 0x1b, CHR 0x5b, CHR 0x41] @ ''2''"

theorem shell_edits_what_is_shown_witness:
  "\<exists>sh out a k. finsh_thread_entry note_call one_command some_keys (finsh_system_init, []) = Done (sh, out, [[''led'', ''1'']]) \<and>
    row (terminal out first_screen) = a @ ''msh >'' @ (''led '' @ [CHR 0x22] @ ''12'') @ replicate k (CHR '' '') \<and>
    col (terminal out first_screen) = length a + 12 \<and>
    string_from 0 (line sh) = Done (''led '' @ [CHR 0x22] @ ''12'') \<and> unat (line_curpos sh) = 7"
proof -
  have r: "editor_run note_call one_command some_keys (empty_editor, []) =
      Some (\<lparr>left = ''led '' @ [CHR 0x22] @ ''12'', right = [], lines = [''led '' @ [CHR 0x22] @ ''1''], shown = 0, keys = WAIT_NORMAL\<rparr>, [[''led'', ''1'']])"
    by (simp add: some_keys_def empty_editor_def editor_key_def Let_def NUL_def FINSH_CMD_SIZE_def recall_def
        remember_def FINSH_HISTORY_LINES_def run_line_def blank_def find_command_def one_command_def note_call_def FINSH_ARG_MAX_def first_char_def)
  have "\<forall>c\<in>set some_keys. key_ok c" by (simp add: some_keys_def key_ok_def printable_def)
  moreover have "commands_ok note_call one_command"
    by (simp add: commands_ok_def one_command_def note_call_def word_ok_def plain_def printable_def FINSH_CMD_SIZE_def)
  ultimately show ?thesis using shell_edits_what_is_shown[OF r] by (auto simp: eval_nat_numeral)
qed

text \<open>C37. A line that reaches 128 characters. The 128th fills the buffer, which has no room for the null,
  and puts both positions back to 0, with the characters left where they are: they are on the screen, but return would
  execute an empty line; and a tab then reads behind the end of the buffer.\<close>

theorem full_line_is_read_past:
  fixes call :: "'f \<Rightarrow> string list \<Rightarrow> 'w \<Rightarrow> int \<times> string \<times> 'w"
  assumes "\<forall>c\<in>set cs. printable c" and "length cs = 128"
  shows "\<exists>sh out. finsh_thread_entry call table cs (finsh_system_init, w) = Done (sh, out, w) \<and>
    line sh = cs \<and> line_position sh = 0 \<and> line_curpos sh = 0 \<and>
    shell_key call table (CHR 0x09) (sh, w) = Fault"
proof -
  obtain ds c where cs: "cs = ds @ [c]" "length ds = 127" using assms(2) by (cases cs rule: rev_cases) auto
  let ?call = "\<lambda>(f :: 'f) (args :: string list) (w :: 'w). (0 :: int, [] :: string, w)"
  let ?none = "[] :: 'f finsh_syscall list"
  have "commands_ok ?call ?none" by (simp add: commands_ok_def)
  note together = thread_together[OF init_together _ this]
  have "editor_run ?call ?none ds (empty_editor, w) = Some (empty_editor\<lparr>left := ds\<rparr>, w)"
    using editor_types[of ds empty_editor ?call ?none w] assms(1) cs by (simp add: empty_editor_def FINSH_CMD_SIZE_def)
  moreover have "\<forall>c\<in>set ds. key_ok c" using assms(1) cs(1) by (simp add: key_ok_def)
  ultimately obtain sh out where
    r: "finsh_thread_entry ?call ?none ds (finsh_system_init, w) = Done (sh, out, w)" "edits sh (empty_editor\<lparr>left := ds\<rparr>)"
    using together[of ds w "empty_editor\<lparr>left := ds\<rparr>" w] by (auto simp: together_def)
  have "finsh_thread_entry call table ds (finsh_system_init, w) = Done (sh, out, w)"
    using r(1) printable_keys[of ds call table _ ?call ?none] assms(1) cs(1) by simp
  moreover obtain sh' out' where k: "shell_key call table c (sh, w) = Done (sh', out', w)" "line sh' = cs"
    "line_position sh' = 0" "line_curpos sh' = 0" "input_state sh' = WAIT_NORMAL"
    using full_line[OF r(2), of c call table w] assms(1) cs by (auto simp: empty_editor_def)
  ultimately have "finsh_thread_entry call table cs (finsh_system_init, w) = Done (sh', out @ out', w)"
    by (simp add: cs(1) thread_append)
  moreover have "NUL \<notin> set cs" "cs \<noteq> []" using assms printable_not(1) by auto
  then have "key_tab table (sh'\<lparr>input_state := WAIT_NORMAL\<rparr>) = Fault"
    using unterminated[of cs table "\<lambda>out l s. Done (sh'\<lparr>input_state := WAIT_NORMAL, line := l\<rparr>, kprint [CHR 0x0a] @ out @ kprint (finsh_get_prompt sh' @ s))"]
    by (simp add: key_tab_def shell_auto_complete_def k(2))
  then have "shell_key call table (CHR 0x09) (sh', w) = Fault"
    using k(5) by (simp add: shell_key_def plainly_def NUL_def)
  ultimately show ?thesis using k by blast
qed

text \<open>128 times the letter \<open>a\<close>.\<close>

theorem full_line_is_read_past_witness:
  "\<exists>sh out. finsh_thread_entry note_call one_command (replicate 128 (CHR ''a'')) (finsh_system_init, []) = Done (sh, out, []) \<and>
    line sh = replicate 128 (CHR ''a'') \<and> line_position sh = 0 \<and> line_curpos sh = 0 \<and>
    shell_key note_call one_command (CHR 0x09) (sh, []) = Fault"
  by (rule full_line_is_read_past) (simp_all add: printable_def)

end
