(* ===== verification/Uart.thy ===== *)
theory Uart
  imports Mmio Fifo Rt_Def
begin

text \<open>
  The console driver \<^verbatim>\<open>sw/bsp/rtthread/drivers/drv_uart.c\<close>: the receive interrupt
  puts bytes into a ring of 128 slots, of which one stays free, and \<open>uart_read\<close> takes them
  out, with interrupts enabled. The ring is a bounded queue; the last part shows that the reader
  and the interrupt may interleave at every step of the reader. The registers are those of any
  device; waiting for the transmitter or for the receiver has fuel. The registration with the
  device layer is not modelled.
\<close>

section \<open>The driver\<close>

definition UART_RX_BUFFER_SIZE :: nat where [code_unfold]: "UART_RX_BUFFER_SIZE = 128"

record uart_device =
  rx_buffer :: "u8 list"
  rx_head :: u16
  rx_tail :: u16

text \<open>\<open>(i + 1U) & (UART_RX_BUFFER_SIZE - 1U)\<close>.\<close>

definition rx_next :: "u16 \<Rightarrow> u16" where
  "rx_next i = (i + 1) AND of_nat (UART_RX_BUFFER_SIZE - 1)"

fun ydrasil_console_putc :: "nat \<Rightarrow> 'd mmio \<Rightarrow> u8 \<Rightarrow> 'd \<Rightarrow> 'd exec" where
  "ydrasil_console_putc 0 io ch d = Out_Of_Fuel"
| "ydrasil_console_putc (Suc fuel) io ch d =
     (let (v, d) = mm_read io (YDRASIL_UART0_BASE + lsr) d
      in if v AND UART_LSR_THR_EMPTY = 0 then ydrasil_console_putc fuel io ch d
         else Done (mm_write io (YDRASIL_UART0_BASE + rbr_thr_dll) (ucast ch) d))"

fun rt_hw_console_getchar :: "nat \<Rightarrow> 'd mmio \<Rightarrow> 'd \<Rightarrow> (u8 \<times> 'd) exec" where
  "rt_hw_console_getchar 0 io d = Out_Of_Fuel"
| "rt_hw_console_getchar (Suc fuel) io d =
     (let (v, d) = mm_read io (YDRASIL_UART0_BASE + lsr) d
      in if v AND UART_LSR_DATA_READY = 0 then rt_hw_console_getchar fuel io d
         else (let (x, d) = mm_read io (YDRASIL_UART0_BASE + rbr_thr_dll) d in Done (ucast x, d)))"

definition uart_hw_configure :: "'d mmio \<Rightarrow> u32 \<Rightarrow> 'd \<Rightarrow> 'd" where
  "uart_hw_configure io regs d =
     (let divisor = (YDRASIL_APB_FREQ_HZ + YDRASIL_UART_BAUD div 2) div YDRASIL_UART_BAUD;
          d = mm_write io (regs + ier_dlm) 0 d;
          d = mm_write io (regs + lcr) 0x80 d;
          d = mm_write io (regs + rbr_thr_dll) (divisor AND 0xff) d;
          d = mm_write io (regs + ier_dlm) (drop_bit 8 divisor AND 0xff) d;
          d = mm_write io (regs + lcr) 0x03 d;
          d = mm_write io (regs + iir_fcr) 0x06 d
      in mm_write io (regs + ier_dlm) 0x01 d)"

definition uart_init :: "'d mmio \<Rightarrow> u32 \<Rightarrow> uart_device \<Rightarrow> 'd \<Rightarrow> int \<times> uart_device \<times> 'd" where
  "uart_init io regs u d = (RT_EOK, u\<lparr>rx_head := 0, rx_tail := 0\<rparr>, uart_hw_configure io regs d)"

definition uart_open :: "'d mmio \<Rightarrow> u32 \<Rightarrow> 'd \<Rightarrow> int \<times> 'd" where
  "uart_open io regs d = (RT_EOK, mm_modify io (regs + ier_dlm) (\<lambda>v. v OR 0x01) d)"

definition uart_close :: "'d mmio \<Rightarrow> u32 \<Rightarrow> 'd \<Rightarrow> int \<times> 'd" where
  "uart_close io regs d = (RT_EOK, mm_modify io (regs + ier_dlm) (\<lambda>v. v AND NOT 0x01) d)"

definition uart_control :: "int \<Rightarrow> int" where
  "uart_control command = - RT_ENOSYS"

text \<open>One round of the loop of \<open>uart_read\<close>: the byte it takes, if there is one.\<close>

definition uart_take :: "uart_device \<Rightarrow> (u8 \<times> uart_device) option exec" where
  "uart_take u =
     (if rx_tail u \<noteq> rx_head u
      then exec_bind (load_at (unat (rx_tail u)) (rx_buffer u)) (\<lambda>x. Done (Some (x, u\<lparr>rx_tail := rx_next (rx_tail u)\<rparr>)))
      else Done None)"

text \<open>\<open>uart_read\<close> into a buffer of \<open>size\<close> bytes: the bytes it stores.\<close>

fun uart_read :: "nat \<Rightarrow> uart_device \<Rightarrow> (u8 list \<times> uart_device) exec" where
  "uart_read 0 u = Done ([], u)"
| "uart_read (Suc n) u =
     exec_bind (uart_take u) (\<lambda>r. case r of
        None \<Rightarrow> Done ([], u)
      | Some (x, u') \<Rightarrow> exec_bind (uart_read n u') (\<lambda>(xs, u''). Done (x # xs, u'')))"

fun uart_write :: "nat \<Rightarrow> 'd mmio \<Rightarrow> u8 list \<Rightarrow> 'd \<Rightarrow> 'd exec" where
  "uart_write fuel io [] d = Done d"
| "uart_write fuel io (x # xs) d =
     exec_bind (if x = 0x0a then ydrasil_console_putc fuel io 0x0d d else Done d) (\<lambda>d.
       exec_bind (ydrasil_console_putc fuel io x d) (uart_write fuel io xs))"

text \<open>A received byte goes into the ring, or is dropped when the ring is full.\<close>

definition uart_receive :: "u8 \<Rightarrow> uart_device \<Rightarrow> (bool \<times> uart_device) exec" where
  "uart_receive byte u =
     (let next = rx_next (rx_head u) in
      if next \<noteq> rx_tail u
      then exec_bind (store_at (unat (rx_head u)) byte (rx_buffer u)) (\<lambda>b. Done (True, u\<lparr>rx_buffer := b, rx_head := next\<rparr>))
      else Done (False, u))"

text \<open>The interrupt: \<open>received\<close> counts the bytes stored, for the callback of the device layer.\<close>

fun uart0_irq :: "nat \<Rightarrow> 'd mmio \<Rightarrow> u32 \<Rightarrow> uart_device \<Rightarrow> 'd \<Rightarrow> (u32 \<times> uart_device \<times> 'd) exec" where
  "uart0_irq 0 io received u d = Out_Of_Fuel"
| "uart0_irq (Suc fuel) io received u d =
     (let (v, d) = mm_read io (YDRASIL_UART0_BASE + lsr) d in
      if v AND UART_LSR_DATA_READY = 0 then Done (received, u, d)
      else
        (let (x, d) = mm_read io (YDRASIL_UART0_BASE + rbr_thr_dll) d
         in exec_bind (uart_receive (ucast x) u) (\<lambda>(stored, u).
              uart0_irq fuel io (if stored then received + 1 else received) u d)))"

section \<open>The ring is a bounded queue\<close>

definition uart_count :: "uart_device \<Rightarrow> nat" where
  "uart_count u = (unat (rx_head u) + (128 - unat (rx_tail u))) mod 128"

definition uart_inv :: "uart_device \<Rightarrow> bool" where
  "uart_inv u \<longleftrightarrow> length (rx_buffer u) = 128 \<and> unat (rx_head u) < 128 \<and> unat (rx_tail u) < 128"

definition uart_contents :: "uart_device \<Rightarrow> u8 list" where
  "uart_contents u = ring_contents (rx_buffer u) (unat (rx_tail u)) (uart_count u)"

lemma and_127: "unat (x AND 127 :: u16) = unat x mod 128"
proof -
  have "x AND 127 = take_bit 7 x" by (simp add: take_bit_eq_mask mask_eq_exp_minus_1)
  then have "unat (x AND 127) = take_bit 7 (unat x)" by (simp add: unsigned_take_bit_eq)
  then show ?thesis by (simp add: take_bit_eq_mod)
qed

lemma rx_next_mod: "unat i < 128 \<Longrightarrow> unat (rx_next i) = Suc (unat i) mod 128"
  by (simp add: rx_next_def UART_RX_BUFFER_SIZE_def and_127 unat_word_ariths)


lemma uart_count_facts:
  assumes "uart_inv u"
  shows "uart_count u < 128" and "uart_count u = 0 \<longleftrightarrow> rx_tail u = rx_head u"
    and "uart_count u = 127 \<longleftrightarrow> rx_next (rx_head u) = rx_tail u"
    and "(unat (rx_tail u) + uart_count u) mod 128 = unat (rx_head u)"
proof -
  have b: "unat (rx_head u) < 128" "unat (rx_tail u) < 128" using assms by (simp_all add: uart_inv_def)
  have c: "uart_count u = (if unat (rx_tail u) \<le> unat (rx_head u) then unat (rx_head u) - unat (rx_tail u)
      else unat (rx_head u) + 128 - unat (rx_tail u))"
    using b by (auto simp: uart_count_def mod_if)
  show "uart_count u < 128" using b by (auto simp: c)
  show "uart_count u = 0 \<longleftrightarrow> rx_tail u = rx_head u" using b by (auto simp: c word_unat_eq_iff)
  show "uart_count u = 127 \<longleftrightarrow> rx_next (rx_head u) = rx_tail u"
    using b rx_next_mod[OF b(1)] by (auto simp: c word_unat_eq_iff mod_if)
  show "(unat (rx_tail u) + uart_count u) mod 128 = unat (rx_head u)" using b by (auto simp: c mod_if)
qed

lemma uart_receive_full: "uart_inv u \<Longrightarrow> uart_count u = 127 \<Longrightarrow> uart_receive x u = Done (False, u)"
  using uart_count_facts(3)[of u] by (simp add: uart_receive_def Let_def)

lemma uart_receive_room:
  assumes inv: "uart_inv u" and room: "uart_count u < 127"
  shows "\<exists>u'. uart_receive x u = Done (True, u') \<and> uart_inv u' \<and> uart_contents u' = uart_contents u @ [x] \<and>
    uart_count u' = Suc (uart_count u) \<and> rx_tail u' = rx_tail u"
proof -
  note f = uart_count_facts[OF inv]
  have b: "length (rx_buffer u) = 128" "unat (rx_head u) < 128" "unat (rx_tail u) < 128"
    using inv by (simp_all add: uart_inv_def)
  let ?u = "u\<lparr>rx_buffer := (rx_buffer u)[unat (rx_head u) := x], rx_head := rx_next (rx_head u)\<rparr>"
  have nx: "unat (rx_next (rx_head u)) = Suc (unat (rx_head u)) mod 128" by (rule rx_next_mod[OF b(2)])
  have inv': "uart_inv ?u" using b nx by (simp add: uart_inv_def)
  have "uart_count ?u = Suc (uart_count u)"
  proof -
    have "uart_count ?u = (Suc (unat (rx_head u)) + (128 - unat (rx_tail u))) mod 128"
      by (simp add: uart_count_def nx mod_add_left_eq)
    also have "\<dots> = Suc (uart_count u) mod 128" by (simp add: uart_count_def mod_Suc_eq)
    finally show ?thesis using room by simp
  qed
  moreover have "uart_contents ?u = uart_contents u @ [x]"
    unfolding uart_contents_def calculation
    using ring_put[of "uart_count u" "rx_buffer u" "unat (rx_tail u)" x] b room f(4) by simp
  moreover have "uart_receive x u = Done (True, ?u)"
    using f(3) room b by (auto simp: uart_receive_def Let_def)
  ultimately show ?thesis using inv' by (intro exI[of _ ?u]) simp
qed

lemma uart_take_first:
  assumes inv: "uart_inv u" and some: "uart_count u \<noteq> 0"
  shows "\<exists>u'. uart_take u = Done (Some (hd (uart_contents u), u')) \<and> u' = u\<lparr>rx_tail := rx_next (rx_tail u)\<rparr> \<and> uart_inv u' \<and>
    uart_contents u' = tl (uart_contents u) \<and> uart_count u' = uart_count u - 1 \<and>
    hd (uart_contents u) = rx_buffer u ! unat (rx_tail u)"
proof -
  note f = uart_count_facts[OF inv]
  have b: "length (rx_buffer u) = 128" "unat (rx_head u) < 128" "unat (rx_tail u) < 128"
    using inv by (simp_all add: uart_inv_def)
  let ?u = "u\<lparr>rx_tail := rx_next (rx_tail u)\<rparr>"
  have nx: "unat (rx_next (rx_tail u)) = Suc (unat (rx_tail u)) mod 128" by (rule rx_next_mod[OF b(3)])
  have count: "uart_count ?u = uart_count u - 1"
    using b some f(2) by (auto simp: uart_count_def nx mod_if word_unat_eq_iff)
  have get: "uart_contents u = rx_buffer u ! unat (rx_tail u) # ring_contents (rx_buffer u) (Suc (unat (rx_tail u)) mod 128) (uart_count u - 1)"
    using ring_get[of "uart_count u" "unat (rx_tail u)" "rx_buffer u"] b some by (simp add: uart_contents_def)
  have "uart_contents ?u = tl (uart_contents u)" unfolding get by (simp add: uart_contents_def nx count)
  moreover have "uart_take u = Done (Some (hd (uart_contents u), ?u))"
    using some f(2) b unfolding get by (auto simp: uart_take_def)
  moreover have "uart_inv ?u" using b nx by (simp add: uart_inv_def)
  ultimately show ?thesis using count get by simp
qed

text \<open>The contract of \<open>Fifo\<close>, with the receive interrupt as the producer and a read of one byte.\<close>

definition uart_put :: "u8 \<Rightarrow> uart_device \<Rightarrow> uart_device option" where
  "uart_put x u = (case uart_receive x u of Done (True, u') \<Rightarrow> Some u' | _ \<Rightarrow> None)"

definition uart_get :: "uart_device \<Rightarrow> (u8 \<times> uart_device) option" where
  "uart_get u = (case uart_read 1 u of Done ([x], u') \<Rightarrow> Some (x, u') | _ \<Rightarrow> None)"

interpretation ring: bounded_fifo uart_inv "\<lambda>_. 127" "\<lambda>_ _. True" uart_contents uart_put uart_get
proof unfold_locales
  fix u :: uart_device and x :: u8 and xs
  assume inv: "uart_inv u"
  have len: "length (uart_contents u) = uart_count u" by (simp add: uart_contents_def)
  show "length (uart_contents u) \<le> 127" using uart_count_facts(1)[OF inv] len by simp
  show "uart_put x u = None" if "length (uart_contents u) = 127"
    using uart_receive_full[OF inv] that len by (simp add: uart_put_def)
  show "\<exists>s'. uart_put x u = Some s' \<and> uart_inv s' \<and> uart_contents s' = uart_contents u @ [x] \<and> (127 :: nat) = 127 \<and>
      (\<lambda>_ :: u8. True) = (\<lambda>_. True)" if "length (uart_contents u) < 127"
    using uart_receive_room[OF inv, of x] that len by (auto simp: uart_put_def)
  show "uart_get u = None" if "uart_contents u = []"
    using uart_count_facts(2)[OF inv] that len by (simp add: uart_get_def uart_take_def)
  show "\<exists>s'. uart_get u = Some (x, s') \<and> uart_inv s' \<and> uart_contents s' = xs \<and> (127 :: nat) = 127 \<and>
      (\<lambda>_ :: u8. True) = (\<lambda>_. True)" if "uart_contents u = x # xs"
    using uart_take_first[OF inv] that len by (auto simp: uart_get_def)
qed


section \<open>The reader and the interrupt interleave\<close>

text \<open>
  \<open>uart_read\<close> runs with interrupts enabled, so a byte may arrive between any two of the
  steps of its loop: the test, the load of the byte, and the store of the new tail. The state is
  the ring, where the reader is, and what was accepted and delivered so far.
\<close>

datatype uart_reader = Testing | Loading | Storing u8

datatype uart_event = Received u8 | Reader_Step

definition reader_step :: "uart_device \<times> uart_reader \<times> u8 list \<Rightarrow> (uart_device \<times> uart_reader \<times> u8 list) exec" where
  "reader_step = (\<lambda>(u, pc, out).
     case pc of
       Testing \<Rightarrow> Done (u, if rx_tail u \<noteq> rx_head u then Loading else Testing, out)
     | Loading \<Rightarrow> exec_bind (load_at (unat (rx_tail u)) (rx_buffer u)) (\<lambda>x. Done (u, Storing x, out))
     | Storing x \<Rightarrow> Done (u\<lparr>rx_tail := rx_next (rx_tail u)\<rparr>, Testing, out @ [x]))"

text \<open>Without interrupts the three steps are one round of \<open>uart_read\<close>.\<close>

lemma reader_steps_take:
  "exec_bind (reader_step (u, Testing, out)) (\<lambda>s. exec_bind (reader_step s) reader_step) =
     exec_bind (uart_take u) (\<lambda>r. case r of None \<Rightarrow> Done (u, Testing, out) | Some (x, u') \<Rightarrow> Done (u', Testing, out @ [x]))"
  by (cases "load_at (unat (rx_tail u)) (rx_buffer u)") (simp_all add: reader_step_def uart_take_def)

fun uart_run :: "uart_event list \<Rightarrow> uart_device \<times> uart_reader \<times> u8 list \<Rightarrow>
    (u8 list \<times> u8 list \<times> uart_device \<times> uart_reader \<times> u8 list) exec" where
  "uart_run [] s = Done ([], [], s)"
| "uart_run (Received x # es) (u, pc, out) =
     exec_bind (uart_receive x u) (\<lambda>(stored, u').
       exec_bind (uart_run es (u', pc, out)) (\<lambda>(acc, lost, s).
         if stored then Done (x # acc, lost, s) else Done (acc, x # lost, s)))"
| "uart_run (Reader_Step # es) s = exec_bind (reader_step s) (uart_run es)"

text \<open>What the reader holds back: a byte that it has loaded is still in the ring.\<close>

definition reader_ok :: "uart_device \<Rightarrow> uart_reader \<Rightarrow> bool" where
  "reader_ok u pc \<longleftrightarrow>
     (case pc of Testing \<Rightarrow> True | Loading \<Rightarrow> uart_count u \<noteq> 0
      | Storing x \<Rightarrow> uart_count u \<noteq> 0 \<and> x = hd (uart_contents u))"

lemma uart_contents_ne: "uart_count u \<noteq> 0 \<Longrightarrow> uart_contents u \<noteq> []"
  using length_ring_contents[of "rx_buffer u" "unat (rx_tail u)" "uart_count u"] unfolding uart_contents_def by force

lemma reader_step_ok:
  assumes inv: "uart_inv u" and ok: "reader_ok u pc"
  shows "\<exists>u' pc' out'. reader_step (u, pc, out) = Done (u', pc', out') \<and> uart_inv u' \<and> reader_ok u' pc' \<and>
    out' @ uart_contents u' = out @ uart_contents u"
proof (cases pc)
  case Testing
  then show ?thesis using inv uart_count_facts(2)[OF inv] by (auto simp: reader_step_def reader_ok_def)
next
  case Loading
  then have some: "uart_count u \<noteq> 0" using ok by (simp add: reader_ok_def)
  have "load_at (unat (rx_tail u)) (rx_buffer u) = Done (rx_buffer u ! unat (rx_tail u))"
    using inv by (simp add: uart_inv_def)
  moreover have "rx_buffer u ! unat (rx_tail u) = hd (uart_contents u)" using uart_take_first[OF inv some] by auto
  ultimately show ?thesis using Loading inv some by (simp add: reader_step_def reader_ok_def)
next
  case (Storing x)
  then have some: "uart_count u \<noteq> 0" and x: "x = hd (uart_contents u)" using ok by (simp_all add: reader_ok_def)
  from uart_take_first[OF inv some] obtain u' where "u' = u\<lparr>rx_tail := rx_next (rx_tail u)\<rparr>" "uart_inv u'"
    "uart_contents u' = tl (uart_contents u)" by auto
  then show ?thesis
    using Storing x uart_contents_ne[OF some] by (simp add: reader_step_def reader_ok_def)
qed

lemma receive_ok:
  assumes inv: "uart_inv u" and ok: "reader_ok u pc"
  shows "\<exists>stored u'. uart_receive x u = Done (stored, u') \<and> uart_inv u' \<and> reader_ok u' pc \<and>
    uart_contents u' = uart_contents u @ (if stored then [x] else []) \<and> (stored \<longleftrightarrow> uart_count u < 127)"
proof (cases "uart_count u < 127")
  case True
  from uart_receive_room[OF inv True, of x] obtain u' where u': "uart_receive x u = Done (True, u')" "uart_inv u'"
    "uart_contents u' = uart_contents u @ [x]" "uart_count u' = Suc (uart_count u)" by auto
  then have "reader_ok u' pc"
    using ok uart_contents_ne[of u] by (cases pc) (auto simp: reader_ok_def)
  with u' True show ?thesis by auto
next
  case False
  with uart_count_facts(1)[OF inv] have "uart_count u = 127" by simp
  with uart_receive_full[OF inv] inv ok show ?thesis by auto
qed

text \<open>C11. The console loses no byte it accepted and keeps their order, although its reader and its
  receive interrupt share the ring without a lock: over any interleaving of received bytes with
  the single steps of the reader's loop, no access leaves the buffer, what was delivered and
  what the ring still holds is what it held at first followed by the accepted bytes, and every
  byte was accepted or counted as lost.\<close>

theorem uart_ring_interleaves:
  assumes "uart_inv u" and "reader_ok u pc"
  shows "\<exists>acc lost u' pc' out'. uart_run es (u, pc, out) = Done (acc, lost, u', pc', out') \<and>
    out' @ uart_contents u' = out @ uart_contents u @ acc \<and> length (uart_contents u') \<le> 127 \<and>
    uart_inv u' \<and> reader_ok u' pc' \<and>
    length acc + length lost = length (filter (\<lambda>e. e \<noteq> Reader_Step) es)"
  using assms
proof (induction es arbitrary: u pc out)
  case Nil
  then show ?case using ring.bounded[of u] by auto
next
  case (Cons e es)
  show ?case
  proof (cases e)
    case (Received x)
    obtain stored u1 where u1: "uart_receive x u = Done (stored, u1)" "uart_inv u1" "reader_ok u1 pc"
      "uart_contents u1 = uart_contents u @ (if stored then [x] else [])"
      using receive_ok[OF Cons.prems, of x] by auto
    from Cons.IH[OF u1(2,3), of out] show ?thesis
      using Received u1(1,4) by (cases stored) auto
  next
    case Reader_Step
    obtain u1 pc1 out1 where "reader_step (u, pc, out) = Done (u1, pc1, out1)" "uart_inv u1" "reader_ok u1 pc1"
      "out1 @ uart_contents u1 = out @ uart_contents u"
      using reader_step_ok[OF Cons.prems, of out] by auto
    with Cons.IH[of u1 pc1 out1] Reader_Step show ?thesis by (auto simp: append_assoc[symmetric] simp del: append_assoc)
  qed
qed

theorem uart_ring_interleaves_witness:
  "\<exists>acc lost u' pc' out'. uart_run [Received 7, Reader_Step, Reader_Step, Received 8, Reader_Step]
      (\<lparr>rx_buffer = replicate 128 0, rx_head = 127, rx_tail = 127\<rparr>, Testing, []) = Done (acc, lost, u', pc', out') \<and>
    out' @ uart_contents u' = acc \<and> uart_inv u' \<and> length acc + length lost = 2"
proof -
  let ?u = "\<lparr>rx_buffer = replicate 128 0, rx_head = 127, rx_tail = 127\<rparr> :: uart_device"
  have "uart_inv ?u" "uart_contents ?u = []" "reader_ok ?u Testing"
    by (simp_all add: uart_inv_def uart_contents_def uart_count_def reader_ok_def)
  note ok = this
  have two: "length (filter (\<lambda>e. e \<noteq> Reader_Step) [Received 7, Reader_Step, Reader_Step, Received 8, Reader_Step]) = 2"
    by simp
  from uart_ring_interleaves[OF ok(1,3), of "[Received 7, Reader_Step, Reader_Step, Received 8, Reader_Step]" "[]"]
  show ?thesis unfolding two ok(2) append_Nil by blast
qed

end
