(* ===== verification/Device.thy ===== *)
theory Device
  imports Uart
begin

text \<open>
  Devices: \<^verbatim>\<open>rt-thread-nano-3.1.5/src/device.c\<close>, the console device of \<^verbatim>\<open>kservice.c\<close>, and the
  console driver as a device. A device has its operations as functions on the state \<open>'s\<close> of its
  driver, some of which may be missing, and callbacks, which are values of a type \<open>'c\<close>. The
  contract \<open>char_driver\<close> is what the layer needs of a driver. Messages of failed calls are left out.
\<close>

section \<open>The device\<close>

definition RT_DEVICE_FLAG_RDWR :: u16 where [code_unfold]: "RT_DEVICE_FLAG_RDWR = 0x003"
definition RT_DEVICE_FLAG_STANDALONE :: u16 where [code_unfold]: "RT_DEVICE_FLAG_STANDALONE = 0x008"
definition RT_DEVICE_FLAG_ACTIVATED :: u16 where [code_unfold]: "RT_DEVICE_FLAG_ACTIVATED = 0x010"
definition RT_DEVICE_FLAG_STREAM :: u16 where [code_unfold]: "RT_DEVICE_FLAG_STREAM = 0x040"
definition RT_DEVICE_FLAG_INT_RX :: u16 where [code_unfold]: "RT_DEVICE_FLAG_INT_RX = 0x100"
definition RT_DEVICE_OFLAG_CLOSE :: u16 where [code_unfold]: "RT_DEVICE_OFLAG_CLOSE = 0x000"
definition RT_DEVICE_OFLAG_RDWR :: u16 where [code_unfold]: "RT_DEVICE_OFLAG_RDWR = 0x003"
definition RT_DEVICE_OFLAG_OPEN :: u16 where [code_unfold]: "RT_DEVICE_OFLAG_OPEN = 0x008"
definition RT_DEVICE_OFLAG_MASK :: u16 where [code_unfold]: "RT_DEVICE_OFLAG_MASK = 0xf0f"

lemmas device_flags = RT_DEVICE_FLAG_RDWR_def RT_DEVICE_FLAG_STANDALONE_def RT_DEVICE_FLAG_ACTIVATED_def
  RT_DEVICE_FLAG_STREAM_def RT_DEVICE_FLAG_INT_RX_def RT_DEVICE_OFLAG_CLOSE_def RT_DEVICE_OFLAG_RDWR_def
  RT_DEVICE_OFLAG_OPEN_def RT_DEVICE_OFLAG_MASK_def

text \<open>A read gives the bytes it stores into the buffer, a write takes the bytes of its buffer.\<close>

record 's device_ops =
  device_init :: "('s \<Rightarrow> int \<times> 's) option"
  device_open :: "(u16 \<Rightarrow> 's \<Rightarrow> int \<times> 's) option"
  device_close :: "('s \<Rightarrow> int \<times> 's) option"
  device_read :: "(nat \<Rightarrow> 's \<Rightarrow> (u8 list \<times> 's) exec) option"
  device_write :: "(u8 list \<Rightarrow> 's \<Rightarrow> (nat \<times> 's) exec) option"
  device_control :: "(int \<Rightarrow> 's \<Rightarrow> int \<times> 's) option"

record ('s, 'c) rt_device =
  dev_name :: string
  dev_flag :: u16
  open_flag :: u16
  ref_count :: u8
  rx_indicate :: "'c option"
  tx_complete :: "'c option"
  ops :: "'s device_ops"

section \<open>The operations\<close>

definition rt_device_init :: "('s, 'c) rt_device \<times> 's \<Rightarrow> int \<times> ('s, 'c) rt_device \<times> 's" where
  "rt_device_init = (\<lambda>(dev, s).
     case device_init (ops dev) of
       None \<Rightarrow> (RT_EOK, dev, s)
     | Some f \<Rightarrow>
         if dev_flag dev AND RT_DEVICE_FLAG_ACTIVATED = 0 then
           (let (result, s) = f s in
            if result \<noteq> RT_EOK then (result, dev, s)
            else (result, dev\<lparr>dev_flag := dev_flag dev OR RT_DEVICE_FLAG_ACTIVATED\<rparr>, s))
         else (RT_EOK, dev, s))"

text \<open>The second half of \<open>rt_device_open\<close>, for a device that is active.\<close>

definition open_active :: "u16 \<Rightarrow> ('s, 'c) rt_device \<times> 's \<Rightarrow> int \<times> ('s, 'c) rt_device \<times> 's" where
  "open_active oflag = (\<lambda>(dev, s).
     if dev_flag dev AND RT_DEVICE_FLAG_STANDALONE \<noteq> 0 \<and> open_flag dev AND RT_DEVICE_OFLAG_OPEN \<noteq> 0
     then (- RT_EBUSY, dev, s)
     else
       (let (result, dev, s) = (case device_open (ops dev) of
              Some f \<Rightarrow> (let (result, s) = f oflag s in (result, dev, s))
            | None \<Rightarrow> (RT_EOK, dev\<lparr>open_flag := oflag AND RT_DEVICE_OFLAG_MASK\<rparr>, s))
        in if result = RT_EOK \<or> result = - RT_ENOSYS
           then (result, dev\<lparr>open_flag := open_flag dev OR RT_DEVICE_OFLAG_OPEN, ref_count := ref_count dev + 1\<rparr>, s)
           else (result, dev, s)))"

definition rt_device_open :: "u16 \<Rightarrow> ('s, 'c) rt_device \<times> 's \<Rightarrow> int \<times> ('s, 'c) rt_device \<times> 's" where
  "rt_device_open oflag = (\<lambda>(dev, s).
     if dev_flag dev AND RT_DEVICE_FLAG_ACTIVATED = 0 then
       (let (result, s) = (case device_init (ops dev) of Some f \<Rightarrow> f s | None \<Rightarrow> (RT_EOK, s)) in
        if result \<noteq> RT_EOK then (result, dev, s)
        else open_active oflag (dev\<lparr>dev_flag := dev_flag dev OR RT_DEVICE_FLAG_ACTIVATED\<rparr>, s))
     else open_active oflag (dev, s))"

definition rt_device_close :: "('s, 'c) rt_device \<times> 's \<Rightarrow> int \<times> ('s, 'c) rt_device \<times> 's" where
  "rt_device_close = (\<lambda>(dev, s).
     if ref_count dev = 0 then (- RT_ERROR, dev, s)
     else
       (let dev = dev\<lparr>ref_count := ref_count dev - 1\<rparr> in
        if ref_count dev \<noteq> 0 then (RT_EOK, dev, s)
        else
          (let (result, s) = (case device_close (ops dev) of Some f \<Rightarrow> f s | None \<Rightarrow> (RT_EOK, s))
           in (result,
               (if result = RT_EOK \<or> result = - RT_ENOSYS then dev\<lparr>open_flag := RT_DEVICE_OFLAG_CLOSE\<rparr> else dev), s))))"

text \<open>\<open>Inl e\<close>: the call returns 0 with \<open>errno\<close> set to \<open>e\<close>.\<close>

definition rt_device_read :: "nat \<Rightarrow> ('s, 'c) rt_device \<times> 's \<Rightarrow> ((int + u8 list) \<times> 's) exec" where
  "rt_device_read size' = (\<lambda>(dev, s).
     if ref_count dev = 0 then Done (Inl (- RT_ERROR), s)
     else case device_read (ops dev) of
         Some f \<Rightarrow> exec_bind (f size' s) (\<lambda>(bytes, s). Done (Inr bytes, s))
       | None \<Rightarrow> Done (Inl (- RT_ENOSYS), s))"

definition rt_device_write :: "u8 list \<Rightarrow> ('s, 'c) rt_device \<times> 's \<Rightarrow> ((int + nat) \<times> 's) exec" where
  "rt_device_write buffer = (\<lambda>(dev, s).
     if ref_count dev = 0 then Done (Inl (- RT_ERROR), s)
     else case device_write (ops dev) of
         Some f \<Rightarrow> exec_bind (f buffer s) (\<lambda>(n, s). Done (Inr n, s))
       | None \<Rightarrow> Done (Inl (- RT_ENOSYS), s))"

definition rt_device_control :: "int \<Rightarrow> ('s, 'c) rt_device \<times> 's \<Rightarrow> int \<times> 's" where
  "rt_device_control cmd = (\<lambda>(dev, s).
     case device_control (ops dev) of Some f \<Rightarrow> f cmd s | None \<Rightarrow> (- RT_ENOSYS, s))"

definition rt_device_set_rx_indicate :: "'c option \<Rightarrow> ('s, 'c) rt_device \<Rightarrow> int \<times> ('s, 'c) rt_device" where
  "rt_device_set_rx_indicate rx_ind dev = (RT_EOK, dev\<lparr>rx_indicate := rx_ind\<rparr>)"

definition rt_device_set_tx_complete :: "'c option \<Rightarrow> ('s, 'c) rt_device \<Rightarrow> int \<times> ('s, 'c) rt_device" where
  "rt_device_set_tx_complete tx_done dev = (RT_EOK, dev\<lparr>tx_complete := tx_done\<rparr>)"

text \<open>
  The registered devices, by name; \<open>rt_object_init\<close> keeps the first \<open>RT_NAME_MAX\<close> characters of
  a name and \<open>rt_object_find\<close> compares as many. A device that is found is known by that name.
\<close>

definition RT_NAME_MAX :: nat where [code_unfold]: "RT_NAME_MAX = 16"

type_synonym ('s, 'c) devices = "string \<Rightarrow> ('s, 'c) rt_device option"

definition rt_device_find :: "string \<Rightarrow> ('s, 'c) devices \<Rightarrow> string option" where
  "rt_device_find name devs = (if devs (take RT_NAME_MAX name) = None then None else Some (take RT_NAME_MAX name))"

definition rt_device_register :: "('s, 'c) rt_device \<Rightarrow> string \<Rightarrow> u16 \<Rightarrow> ('s, 'c) devices \<Rightarrow> int \<times> ('s, 'c) devices" where
  "rt_device_register dev name flags devs =
     (if rt_device_find name devs \<noteq> None then (- RT_ERROR, devs)
      else (RT_EOK, devs(take RT_NAME_MAX name \<mapsto>
              dev\<lparr>dev_name := take RT_NAME_MAX name, dev_flag := flags, ref_count := 0, open_flag := 0\<rparr>)))"

definition rt_device_unregister :: "string \<Rightarrow> ('s, 'c) devices \<Rightarrow> int \<times> ('s, 'c) devices" where
  "rt_device_unregister name devs = (RT_EOK, devs(name := None))"

section \<open>The console device\<close>

text \<open>Calls on a registered device change the device and the state that all drivers share.\<close>

definition on_device :: "(('s, 'c) rt_device \<times> 's \<Rightarrow> int \<times> ('s, 'c) rt_device \<times> 's) \<Rightarrow> string \<Rightarrow> ('s, 'c) devices \<times> 's \<Rightarrow> ('s, 'c) devices \<times> 's" where
  "on_device f name = (\<lambda>(devs, s). case devs name of
       None \<Rightarrow> (devs, s)
     | Some dev \<Rightarrow> (let (_, dev, s) = f (dev, s) in (devs(name \<mapsto> dev), s)))"

text \<open>The result, the console device, the devices and the drivers.\<close>

definition rt_console_set_device ::
    "string \<Rightarrow> string option \<times> ('s, 'c) devices \<times> 's \<Rightarrow> string option \<times> string option \<times> ('s, 'c) devices \<times> 's" where
  "rt_console_set_device name = (\<lambda>(console, devs, s).
     let old_device = console; new_device = rt_device_find name devs in
     if new_device = old_device then (None, console, devs, s)
     else case new_device of
         None \<Rightarrow> (old_device, console, devs, s)
       | Some new \<Rightarrow>
           (let (devs, s) = (case old_device of Some old \<Rightarrow> on_device rt_device_close old (devs, s) | None \<Rightarrow> (devs, s));
                (devs, s) = on_device (rt_device_open (RT_DEVICE_OFLAG_RDWR OR RT_DEVICE_FLAG_STREAM)) new (devs, s)
            in (old_device, Some new, devs, s)))"

text \<open>The output of \<open>rt_kprintf\<close> and \<open>rt_kputs\<close> to the console device.\<close>

definition console_write :: "u8 list \<Rightarrow> ('s, 'c) rt_device \<times> 's \<Rightarrow> (('s, 'c) rt_device \<times> 's) exec" where
  "console_write text' = (\<lambda>(dev, s).
     let old_flag = open_flag dev in
     exec_bind (rt_device_write text' (dev\<lparr>open_flag := open_flag dev OR RT_DEVICE_FLAG_STREAM\<rparr>, s)) (\<lambda>(_, s).
       Done (dev\<lparr>open_flag := old_flag\<rparr>, s)))"

section \<open>The console driver as a device\<close>

definition uart_ops :: "nat \<Rightarrow> 'd mmio \<Rightarrow> u32 \<Rightarrow> (uart_device \<times> 'd) device_ops" where
  "uart_ops fuel io regs =
     \<lparr>device_init = Some (\<lambda>(u, d). uart_init io regs u d),
      device_open = Some (\<lambda>oflag (u, d). let (r, d) = uart_open io regs d in (r, (u, d))),
      device_close = Some (\<lambda>(u, d). let (r, d) = uart_close io regs d in (r, (u, d))),
      device_read = Some (\<lambda>n (u, d). exec_bind (uart_read n u) (\<lambda>(xs, u). Done (xs, (u, d)))),
      device_write = Some (\<lambda>xs (u, d). exec_bind (uart_write fuel io xs d) (\<lambda>d. Done (length xs, (u, d)))),
      device_control = Some (\<lambda>cmd s. (uart_control cmd, s))\<rparr>"

section \<open>Calls that come and go\<close>

datatype dev_call = Init_Device | Open_Device u16 | Close_Device

fun dev_step :: "dev_call \<Rightarrow> ('s, 'c) rt_device \<times> 's \<Rightarrow> int \<times> ('s, 'c) rt_device \<times> 's" where
  "dev_step Init_Device = rt_device_init"
| "dev_step (Open_Device oflag) = rt_device_open oflag"
| "dev_step Close_Device = rt_device_close"

text \<open>What the layer promises: it counts those who hold the device.\<close>

fun holders_step :: "bool \<Rightarrow> dev_call \<Rightarrow> nat \<Rightarrow> int \<times> nat" where
  "holders_step alone Init_Device n = (RT_EOK, n)"
| "holders_step alone (Open_Device oflag) n = (if alone \<and> n \<noteq> 0 then (- RT_EBUSY, n) else (RT_EOK, Suc n))"
| "holders_step alone Close_Device n = (if n = 0 then (- RT_ERROR, n) else (RT_EOK, n - 1))"

fun run_calls :: "(dev_call \<Rightarrow> 'a \<Rightarrow> int \<times> 'a) \<Rightarrow> dev_call list \<Rightarrow> 'a \<Rightarrow> int list \<times> 'a" where
  "run_calls f [] a = ([], a)"
| "run_calls f (c # cs) a = (let (r, a) = f c a; (rs, a) = run_calls f cs a in (r # rs, a))"

definition opens :: "dev_call list \<Rightarrow> nat" where
  "opens cs = length (filter (\<lambda>c. case c of Open_Device _ \<Rightarrow> True | _ \<Rightarrow> False) cs)"

lemma opens_simps [simp]:
  "opens [] = 0" "opens (Init_Device # cs) = opens cs" "opens (Open_Device f # cs) = Suc (opens cs)" "opens (Close_Device # cs) = opens cs"
  by (simp_all add: opens_def)

definition standalone :: "('s, 'c) rt_device \<Rightarrow> bool" where
  "standalone dev \<longleftrightarrow> dev_flag dev AND RT_DEVICE_FLAG_STANDALONE \<noteq> 0"

definition activated :: "('s, 'c) rt_device \<Rightarrow> bool" where
  "activated dev \<longleftrightarrow> dev_flag dev AND RT_DEVICE_FLAG_ACTIVATED \<noteq> 0"

lemma flag_activates:
  "(f OR RT_DEVICE_FLAG_ACTIVATED) AND RT_DEVICE_FLAG_ACTIVATED \<noteq> 0"
  "(f OR RT_DEVICE_FLAG_ACTIVATED) AND RT_DEVICE_FLAG_STANDALONE = f AND RT_DEVICE_FLAG_STANDALONE"
  "(f OR RT_DEVICE_OFLAG_OPEN) AND RT_DEVICE_OFLAG_OPEN \<noteq> 0"
  by (auto simp: device_flags word_ao_dist)

text \<open>
  A device with \<open>n\<close> holders. Its driver is in a state \<open>blank\<close> until it is initialised, and then in its
  invariant.
\<close>

definition held :: "'s device_ops \<Rightarrow> ('s \<Rightarrow> bool) \<Rightarrow> ('s \<Rightarrow> bool) \<Rightarrow> bool \<Rightarrow> nat \<Rightarrow> ('s, 'c) rt_device \<times> 's \<Rightarrow> bool" where
  "held drv blank good alone n = (\<lambda>(dev, s).
     ops dev = drv \<and> ref_count dev = of_nat n \<and> n < 256 \<and> (standalone dev \<longleftrightarrow> alone) \<and>
     (open_flag dev AND RT_DEVICE_OFLAG_OPEN \<noteq> 0 \<longleftrightarrow> n \<noteq> 0) \<and> (n \<noteq> 0 \<longrightarrow> activated dev) \<and>
     (if activated dev then good s else blank s))"

lemma of_nat_u8_zero: "n < 256 \<Longrightarrow> (of_nat n :: u8) = 0 \<longleftrightarrow> n = 0"
proof -
  assume "n < 256"
  then have "unat (of_nat n :: u8) = n" by (intro unat_of_nat_small) simp
  then show ?thesis by auto
qed

locale char_driver =
  fixes drv :: "'s device_ops" and blank good :: "'s \<Rightarrow> bool"
  assumes drv_init: "blank s \<Longrightarrow> \<exists>f s'. device_init drv = Some f \<and> f s = (RT_EOK, s') \<and> good s'"
    and drv_open: "good s \<Longrightarrow> \<exists>f s'. device_open drv = Some f \<and> f oflag s = (RT_EOK, s') \<and> good s'"
    and drv_close: "good s \<Longrightarrow> \<exists>f s'. device_close drv = Some f \<and> f s = (RT_EOK, s') \<and> good s'"
    and drv_read: "good s \<Longrightarrow> \<exists>f xs s'. device_read drv = Some f \<and> f n s = Done (xs, s') \<and> length xs \<le> n \<and> good s'"
begin

lemma init_held:
  assumes "held drv blank good alone n ds"
  shows "\<exists>ds'. rt_device_init ds = (RT_EOK, ds') \<and> held drv blank good alone n ds'"
proof -
  obtain dev s where ds: "ds = (dev, s)" by force
  show ?thesis
  proof (cases "activated dev")
    case True
    with assms show ?thesis by (auto simp: ds held_def rt_device_init_def activated_def split: option.split)
  next
    case False
    with assms have h: "blank s" "n = 0" "ops dev = drv" by (simp_all add: ds held_def)
    from drv_init[OF h(1)] obtain f s' where f: "device_init drv = Some f" "f s = (RT_EOK, s')" "good s'" by blast
    let ?dev = "dev\<lparr>dev_flag := dev_flag dev OR RT_DEVICE_FLAG_ACTIVATED\<rparr>"
    have "rt_device_init ds = (RT_EOK, ?dev, s')"
      using f h(3) False by (simp add: ds rt_device_init_def activated_def)
    moreover have "held drv blank good alone n (?dev, s')"
      using assms f(3) flag_activates[of "dev_flag dev"] by (simp add: ds held_def standalone_def activated_def)
    ultimately show ?thesis by blast
  qed
qed

lemma open_active_held:
  assumes "held drv blank good alone n (dev, s)" and "activated dev" and "n < 255"
  shows "\<exists>ds'. open_active oflag (dev, s) = (fst (holders_step alone (Open_Device oflag) n), ds') \<and>
    held drv blank good alone (snd (holders_step alone (Open_Device oflag) n)) ds'"
proof (cases "alone \<and> n \<noteq> 0")
  case True
  with assms show ?thesis by (auto simp: open_active_def held_def standalone_def)
next
  case False
  have h: "good s" "ops dev = drv" "ref_count dev = of_nat n" using assms by (simp_all add: held_def)
  from drv_open[OF h(1), of oflag] obtain f s' where f: "device_open drv = Some f" "f oflag s = (RT_EOK, s')" "good s'" by blast
  let ?dev = "dev\<lparr>open_flag := open_flag dev OR RT_DEVICE_OFLAG_OPEN, ref_count := ref_count dev + 1\<rparr>"
  have "dev_flag dev AND RT_DEVICE_FLAG_STANDALONE = 0 \<or> open_flag dev AND RT_DEVICE_OFLAG_OPEN = 0"
    using False assms(1) by (auto simp: held_def standalone_def)
  then have "open_active oflag (dev, s) = (RT_EOK, ?dev, s')"
    using f h(2) by (auto simp: open_active_def)
  moreover have "held drv blank good alone (Suc n) (?dev, s')"
    using assms f(3) flag_activates(3)[of "open_flag dev"] by (simp add: held_def standalone_def activated_def)
  ultimately show ?thesis using False by auto
qed

lemma open_held:
  assumes "held drv blank good alone n ds" and "n < 255"
  shows "\<exists>ds'. rt_device_open oflag ds = (fst (holders_step alone (Open_Device oflag) n), ds') \<and>
    held drv blank good alone (snd (holders_step alone (Open_Device oflag) n)) ds'"
proof -
  obtain dev s where ds: "ds = (dev, s)" by force
  show ?thesis
  proof (cases "activated dev")
    case True
    with open_active_held[of alone n dev s oflag] assms show ?thesis by (simp add: ds rt_device_open_def activated_def)
  next
    case False
    with assms have h: "blank s" "n = 0" "ops dev = drv" by (simp_all add: ds held_def)
    from drv_init[OF h(1)] obtain f s' where f: "device_init drv = Some f" "f s = (RT_EOK, s')" "good s'" by blast
    let ?dev = "dev\<lparr>dev_flag := dev_flag dev OR RT_DEVICE_FLAG_ACTIVATED\<rparr>"
    have a: "activated ?dev" "held drv blank good alone n (?dev, s')"
      using assms f(3) flag_activates[of "dev_flag dev"] by (simp_all add: ds held_def standalone_def activated_def)
    have "rt_device_open oflag ds = open_active oflag (?dev, s')"
      using f h(3) False by (simp add: ds rt_device_open_def activated_def)
    with open_active_held[OF a(2,1) assms(2)] show ?thesis by simp
  qed
qed

lemma close_held:
  assumes "held drv blank good alone n ds"
  shows "\<exists>ds'. rt_device_close ds = (fst (holders_step alone Close_Device n), ds') \<and>
    held drv blank good alone (snd (holders_step alone Close_Device n)) ds'"
proof -
  obtain dev s where ds: "ds = (dev, s)" by force
  have h: "ops dev = drv" "ref_count dev = of_nat n" "n < 256" using assms by (simp_all add: ds held_def)
  note zero = of_nat_u8_zero
  show ?thesis
  proof (cases n)
    case 0
    then have "rt_device_close ds = (- RT_ERROR, ds)" using h(2) by (simp add: ds rt_device_close_def)
    with assms 0 show ?thesis by (intro exI[of _ ds]) simp
  next
    case (Suc m)
    then have d: "(of_nat n :: u8) - 1 = of_nat m" "m < 256" "(of_nat n :: u8) \<noteq> 0" using h(3) zero[of n] by simp_all
    have act: "activated dev" "good s" using assms Suc by (simp_all add: ds held_def split: if_splits)
    show ?thesis
    proof (cases m)
      case 0
      from drv_close[OF act(2)] obtain f s' where f: "device_close drv = Some f" "f s = (RT_EOK, s')" "good s'" by blast
      with assms d h Suc 0 act show ?thesis
        by (auto simp: ds rt_device_close_def held_def standalone_def activated_def RT_DEVICE_OFLAG_CLOSE_def)
    next
      case (Suc j)
      then have "(of_nat m :: u8) \<noteq> 0" using zero[OF d(2)] by simp
      with assms d h Suc \<open>n = Suc m\<close> act show ?thesis
        by (auto simp: ds rt_device_close_def held_def standalone_def activated_def)
    qed
  qed
qed

lemma run_held:
  assumes "held drv blank good alone n ds" and "n + opens cs < 256"
  shows "\<exists>ds'. run_calls dev_step cs ds = (fst (run_calls (holders_step alone) cs n), ds') \<and>
    held drv blank good alone (snd (run_calls (holders_step alone) cs n)) ds'"
  using assms
proof (induction cs arbitrary: n ds)
  case (Cons c cs)
  have "\<exists>ds'. dev_step c ds = (fst (holders_step alone c n), ds') \<and> held drv blank good alone (snd (holders_step alone c n)) ds'"
  proof (cases c)
    case Init_Device
    with init_held[OF Cons.prems(1)] show ?thesis by simp
  next
    case (Open_Device oflag)
    with open_held[OF Cons.prems(1), of oflag] Cons.prems(2) show ?thesis by simp
  next
    case Close_Device
    with close_held[OF Cons.prems(1)] show ?thesis by simp
  qed
  then obtain ds' where ds': "dev_step c ds = (fst (holders_step alone c n), ds')"
    "held drv blank good alone (snd (holders_step alone c n)) ds'" by blast
  have "snd (holders_step alone c n) + opens cs < 256" using Cons.prems(2) by (cases c) (auto split: if_splits)
  from Cons.IH[OF ds'(2) this] ds'(1) show ?case by (auto simp: case_prod_beta Let_def)
qed auto

lemma read_held:
  assumes "held drv blank good alone n (dev, s)"
  shows "n = 0 \<Longrightarrow> rt_device_read size' (dev, s) = Done (Inl (- RT_ERROR), s)"
    and "n \<noteq> 0 \<Longrightarrow> \<exists>xs s'. rt_device_read size' (dev, s) = Done (Inr xs, s') \<and> length xs \<le> size' \<and> held drv blank good alone n (dev, s')"
proof -
  have h: "ops dev = drv" "ref_count dev = of_nat n" "n < 256" using assms by (simp_all add: held_def)
  show "n = 0 \<Longrightarrow> rt_device_read size' (dev, s) = Done (Inl (- RT_ERROR), s)"
    using h by (simp add: rt_device_read_def)
  assume n: "n \<noteq> 0"
  then have "ref_count dev \<noteq> 0" using h(2) of_nat_u8_zero[OF h(3)] by simp
  moreover have act: "activated dev" "good s" using assms n by (simp_all add: held_def split: if_splits)
  moreover from drv_read[OF act(2), of size'] obtain f xs s' where
    "device_read drv = Some f" "f size' s = Done (xs, s')" "length xs \<le> size'" "good s'" by blast
  ultimately show "\<exists>xs s'. rt_device_read size' (dev, s) = Done (Inr xs, s') \<and> length xs \<le> size' \<and> held drv blank good alone n (dev, s')"
    using h(1) assms by (intro exI[of _ xs] exI[of _ s']) (simp add: rt_device_read_def held_def)
qed

end


section \<open>The console as a device\<close>

lemma uart_read_takes:
  assumes "uart_inv u"
  shows "\<exists>u'. uart_read n u = Done (take n (uart_contents u), u') \<and> uart_inv u' \<and> uart_contents u' = drop n (uart_contents u)"
  using assms
proof (induction n arbitrary: u)
  case (Suc n)
  show ?case
  proof (cases "uart_count u = 0")
    case True
    then have "uart_contents u = []" by (simp add: uart_contents_def)
    moreover have "uart_take u = Done None" using True uart_count_facts(2)[OF Suc.prems] by (simp add: uart_take_def)
    ultimately show ?thesis using Suc.prems by simp
  next
    case False
    from uart_take_first[OF Suc.prems False] obtain u1 where u1: "uart_take u = Done (Some (hd (uart_contents u), u1))"
      "uart_inv u1" "uart_contents u1 = tl (uart_contents u)" by auto
    moreover from Suc.IH[OF u1(2)] obtain u2 where "uart_read n u1 = Done (take n (uart_contents u1), u2)" "uart_inv u2"
      "uart_contents u2 = drop n (uart_contents u1)" by blast
    moreover have "uart_contents u = hd (uart_contents u) # tl (uart_contents u)" using uart_contents_ne[OF False] by simp
    ultimately show ?thesis by (metis (no_types, lifting) case_prod_conv drop_Suc exec_bind.simps(1) option.simps(5) take_Suc_Cons uart_read.simps(2))
  qed
qed simp

definition uart_blank :: "uart_device \<times> 'd \<Rightarrow> bool" where
  "uart_blank = (\<lambda>(u, d). length (rx_buffer u) = 128)"

definition uart_good :: "uart_device \<times> 'd \<Rightarrow> bool" where
  "uart_good = (\<lambda>(u, d). uart_inv u)"

interpretation console: char_driver "uart_ops fuel io regs" uart_blank uart_good
proof unfold_locales
  fix s :: "uart_device \<times> 'a" and oflag n
  obtain u d where s: "s = (u, d)" by force
  show "\<exists>f s'. device_init (uart_ops fuel io regs) = Some f \<and> f s = (RT_EOK, s') \<and> uart_good s'" if "uart_blank s"
    using that by (simp add: s uart_ops_def uart_init_def uart_blank_def uart_good_def uart_inv_def)
  assume g: "uart_good s"
  show "\<exists>f s'. device_open (uart_ops fuel io regs) = Some f \<and> f oflag s = (RT_EOK, s') \<and> uart_good s'"
    "\<exists>f s'. device_close (uart_ops fuel io regs) = Some f \<and> f s = (RT_EOK, s') \<and> uart_good s'"
    using g by (simp_all add: s uart_ops_def uart_open_def uart_close_def uart_good_def)
  show "\<exists>f xs s'. device_read (uart_ops fuel io regs) = Some f \<and> f n s = Done (xs, s') \<and> length xs \<le> n \<and> uart_good s'"
    using g uart_read_takes[of u n] by (auto simp: s uart_ops_def uart_good_def)
qed

text \<open>The device that \<open>ydrasil_uart0_init\<close> registers.\<close>

definition uart0_flags :: u16 where
  "uart0_flags = RT_DEVICE_FLAG_RDWR OR RT_DEVICE_FLAG_INT_RX OR RT_DEVICE_FLAG_STREAM"

definition uart0_device :: "nat \<Rightarrow> 'd mmio \<Rightarrow> (uart_device \<times> 'd, 'c) rt_device" where
  "uart0_device fuel io = \<lparr>dev_name = [], dev_flag = 0, open_flag = 0, ref_count = 0, rx_indicate = None, tx_complete = None,
     ops = uart_ops fuel io YDRASIL_UART0_BASE\<rparr>"

lemma uart0_registered:
  "devs ''uart0'' = None \<Longrightarrow> \<exists>dev. rt_device_register (uart0_device fuel io) ''uart0'' uart0_flags devs = (RT_EOK, devs(''uart0'' \<mapsto> dev)) \<and>
     (length (rx_buffer u) = 128 \<longrightarrow> held (uart_ops fuel io YDRASIL_UART0_BASE) uart_blank uart_good False 0 (dev, u, d))"
  by (rule exI[of _ "uart0_device fuel io\<lparr>dev_name := ''uart0'', dev_flag := uart0_flags\<rparr>"])
    (simp add: rt_device_register_def rt_device_find_def RT_NAME_MAX_def held_def uart0_device_def activated_def standalone_def
      uart0_flags_def device_flags uart_blank_def)

text \<open>C38. The console device counts its holders. After any calls of \<open>rt_device_init\<close>, \<open>rt_device_open\<close> and
  \<open>rt_device_close\<close> on it, with fewer than 256 opens, every call has answered as the count says; the
  reference count is the number of holders, the device is flagged open exactly when there are some;
  without holders a read is refused, with holders it takes the oldest bytes of the ring.\<close>

theorem console_counts_holders:
  assumes "held (uart_ops fuel io regs) uart_blank uart_good False n (dev, u, d)" and "n + opens cs < 256"
    and "run_calls (holders_step False) cs n = (rs, m)"
  shows "\<exists>dev' u' d'. run_calls dev_step cs (dev, u, d) = (rs, dev', u', d') \<and> unat (ref_count dev') = m \<and>
    (open_flag dev' AND RT_DEVICE_OFLAG_OPEN \<noteq> 0 \<longleftrightarrow> m \<noteq> 0) \<and>
    (m = 0 \<longrightarrow> rt_device_read size' (dev', u', d') = Done (Inl (- RT_ERROR), u', d')) \<and>
    (m \<noteq> 0 \<longrightarrow> (\<exists>u''. rt_device_read size' (dev', u', d') = Done (Inr (take size' (uart_contents u')), u'', d') \<and>
       uart_contents u'' = drop size' (uart_contents u')))"
proof -
  from console.run_held[OF assms(1,2)] assms(3) obtain dev' u' d' where
    r: "run_calls dev_step cs (dev, u, d) = (rs, dev', u', d')"
      "held (uart_ops fuel io regs) uart_blank uart_good False m (dev', u', d')" by auto
  have m: "m < 256" "ref_count dev' = of_nat m" "open_flag dev' AND RT_DEVICE_OFLAG_OPEN \<noteq> 0 \<longleftrightarrow> m \<noteq> 0"
    "ops dev' = uart_ops fuel io regs" using r(2) by (simp_all add: held_def)
  have rd: "\<exists>u''. rt_device_read size' (dev', u', d') = Done (Inr (take size' (uart_contents u')), u'', d') \<and>
       uart_contents u'' = drop size' (uart_contents u')" if "m \<noteq> 0"
  proof -
    have "ref_count dev' \<noteq> 0" using m(2) of_nat_u8_zero[OF m(1)] that by simp
    moreover have "uart_inv u'" using r(2) that by (simp add: held_def uart_good_def split: if_splits)
    ultimately show ?thesis
      using m(4) uart_read_takes[of u' size'] by (auto simp: rt_device_read_def uart_ops_def)
  qed
  have "unat (ref_count dev') = m" unfolding m(2) using m(1) by (intro unat_of_nat_small) simp
  with r m(3) rd console.read_held(1)[OF r(2)] show ?thesis by auto
qed

theorem console_counts_holders_witness:
  "\<exists>dev' u' d'. run_calls dev_step [Open_Device 3, Open_Device 0x143, Close_Device, Close_Device, Close_Device]
      ((uart0_device 1 \<lparr>mm_read = \<lambda>a d. (0, d), mm_write = \<lambda>a v d. d\<rparr> :: (uart_device \<times> unit, unit) rt_device)\<lparr>dev_flag := uart0_flags\<rparr>,
       \<lparr>rx_buffer = replicate 128 0, rx_head = 5, rx_tail = 3\<rparr>, ()) =
      ([RT_EOK, RT_EOK, RT_EOK, RT_EOK, - RT_ERROR], dev', u', d') \<and>
    unat (ref_count dev') = 0 \<and> rt_device_read 4 (dev', u', d') = Done (Inl (- RT_ERROR), u', d')"
proof -
  let ?io = "\<lparr>mm_read = \<lambda>a d. (0, d), mm_write = \<lambda>a v d. d\<rparr> :: unit mmio"
  let ?dev = "(uart0_device 1 ?io :: (uart_device \<times> unit, unit) rt_device)\<lparr>dev_flag := uart0_flags\<rparr>"
  let ?u = "\<lparr>rx_buffer = replicate 128 0, rx_head = 5, rx_tail = 3\<rparr> :: uart_device"
  let ?cs = "[Open_Device 3, Open_Device 0x143, Close_Device, Close_Device, Close_Device]"
  have h: "held (uart_ops 1 ?io YDRASIL_UART0_BASE) uart_blank uart_good False 0 (?dev, ?u, ())"
    by (simp add: held_def uart0_device_def activated_def standalone_def uart0_flags_def device_flags uart_blank_def)
  have "0 + opens ?cs < 256" by simp
  moreover have "run_calls (holders_step False) ?cs 0 = ([RT_EOK, RT_EOK, RT_EOK, RT_EOK, - RT_ERROR], 0)" by simp
  ultimately show ?thesis using console_counts_holders[OF h, of ?cs _ 0 4] by fastforce
qed

section \<open>Where the counting ends\<close>

text \<open>The reference count has eight bits: the 256th open wraps it to 0, and the holders can neither read nor close.\<close>

lemma open_many:
  "activated dev \<Longrightarrow> \<not> standalone dev \<Longrightarrow> device_open (ops dev) = None \<Longrightarrow>
     \<exists>rs dev'. run_calls dev_step (replicate n (Open_Device f)) (dev, s) = (rs, dev', s) \<and>
       ref_count dev' = ref_count dev + of_nat n \<and> activated dev' \<and> \<not> standalone dev' \<and> ops dev' = ops dev"
proof (induction n arbitrary: dev)
  case (Suc n)
  let ?dev = "dev\<lparr>open_flag := f AND RT_DEVICE_OFLAG_MASK OR RT_DEVICE_OFLAG_OPEN, ref_count := ref_count dev + 1\<rparr>"
  have "dev_step (Open_Device f) (dev, s) = (RT_EOK, ?dev, s)"
    using Suc.prems by (auto simp: rt_device_open_def open_active_def activated_def standalone_def)
  moreover from Suc.IH[of ?dev] Suc.prems obtain rs dev' where
    "run_calls dev_step (replicate n (Open_Device f)) (?dev, s) = (rs, dev', s)"
    "ref_count dev' = ref_count dev + 1 + of_nat n" "activated dev'" "\<not> standalone dev'" "ops dev' = ops dev"
    by (auto simp: activated_def standalone_def)
  ultimately show ?case by (auto simp: algebra_simps)
qed auto

lemma opens_wrap:
  assumes "activated dev" "\<not> standalone dev" "device_open (ops dev) = None" "ref_count dev = 0"
  shows "\<exists>rs dev'. run_calls dev_step (replicate 256 (Open_Device f)) (dev, s) = (rs, dev', s) \<and>
    rt_device_close (dev', s) = (- RT_ERROR, dev', s)"
proof -
  have "(of_nat 256 :: u8) = 0" by simp
  with open_many[OF assms(1-3), of 256 f s] assms(4) obtain rs dev' where
    "run_calls dev_step (replicate 256 (Open_Device f)) (dev, s) = (rs, dev', s)" "ref_count dev' = 0" by auto
  then show ?thesis by (auto simp: rt_device_close_def)
qed

text \<open>
  When the driver refuses to close, the count is 0 all the same and the device still flagged open: a
  device that stands alone then answers every open with \<open>-RT_EBUSY\<close> and every close with \<open>-RT_ERROR\<close>.
\<close>

lemma failed_close_locks:
  assumes "standalone dev" "activated dev" "open_flag dev AND RT_DEVICE_OFLAG_OPEN \<noteq> 0" "ref_count dev = 1"
    and "device_close (ops dev) = Some f" "f s = (e, s')" "e \<noteq> RT_EOK" "e \<noteq> - RT_ENOSYS"
  shows "\<exists>dev'. rt_device_close (dev, s) = (e, dev', s') \<and> rt_device_open g (dev', s') = (- RT_EBUSY, dev', s') \<and>
    rt_device_close (dev', s') = (- RT_ERROR, dev', s')"
  using assms by (auto simp: rt_device_close_def rt_device_open_def open_active_def standalone_def activated_def)

end
