(* ===== verification/Plic.thy ===== *)
theory Plic
  imports Mmio Rt_Def
begin

text \<open>
  External interrupts: \<^verbatim>\<open>sw/bsp/rtthread/drivers/drv_plic.c\<close> on the interrupt controller of
  the SoC, \<^verbatim>\<open>hw/ip/ydrasil_perip/rtl/ydrasil_plic.sv\<close>. The controller works cycle by
  cycle beside an outside world of which it sees the eight request lines: \<open>lines\<close> reads them,
  \<open>go\<close> is a cycle of that world, \<open>gap\<close> the number of cycles before the next access. A handler is a
  value of a type \<open>'h\<close>, and \<open>call\<close> is what calling it does to the software state and the controller.
\<close>

section \<open>The controller\<close>

record 'x plic =
  pending :: u8
  enable :: u8
  force :: u8
  outside :: 'x

definition REG_PENDING :: u32 where [code_unfold]: "REG_PENDING = 0x00"
definition REG_ENABLE :: u32 where [code_unfold]: "REG_ENABLE = 0x04"
definition REG_CLAIM :: u32 where [code_unfold]: "REG_CLAIM = 0x08"
definition REG_FORCE :: u32 where [code_unfold]: "REG_FORCE = 0x0c"

lemmas plic_offsets = REG_PENDING_def REG_ENABLE_def REG_CLAIM_def REG_FORCE_def

datatype plic_access = No_Access | Read_At u32 | Write_At u32 u32

text \<open>The sources that ask, the lowest first; the controller names the first one, from 1.\<close>

definition asking :: "'x plic \<Rightarrow> nat list" where
  "asking p = filter (\<lambda>i. bit (pending p AND enable p) i) [0..<8]"

definition claim_id :: "'x plic \<Rightarrow> u32" where
  "claim_id p = (case asking p of [] \<Rightarrow> 0 | i # _ \<Rightarrow> of_nat (Suc i))"

definition plic_irq :: "'x plic \<Rightarrow> bool" where
  "plic_irq p \<longleftrightarrow> pending p AND enable p \<noteq> 0"

definition plic_value :: "u32 \<Rightarrow> 'x plic \<Rightarrow> u32" where
  "plic_value off p =
     (if off = REG_PENDING then ucast (pending p)
      else if off = REG_ENABLE then ucast (enable p)
      else if off = REG_CLAIM then claim_id p
      else if off = REG_FORCE then ucast (force p)
      else 0)"

text \<open>The clock edge. A claim, read or written, clears its bit after new requests are taken in.\<close>

definition cleared_at :: "plic_access \<Rightarrow> 'x plic \<Rightarrow> u32" where
  "cleared_at acc p =
     (case acc of
        No_Access \<Rightarrow> 0
      | Read_At off \<Rightarrow> if off = REG_CLAIM then claim_id p else 0
      | Write_At off v \<Rightarrow> if off = REG_CLAIM \<and> 0 < v \<and> v \<le> 8 then v else 0)"

definition plic_cycle :: "('x \<Rightarrow> u8) \<Rightarrow> ('x \<Rightarrow> 'x) \<Rightarrow> plic_access \<Rightarrow> 'x plic \<Rightarrow> 'x plic" where
  "plic_cycle lines go acc p =
     (let taken = pending p OR lines (outside p) OR force p;
          id = cleared_at acc p
      in \<lparr>pending = (if id = 0 then taken else unset_bit (unat id - 1) taken),
          enable = (case acc of Write_At off v \<Rightarrow> if off = REG_ENABLE then ucast v else enable p | _ \<Rightarrow> enable p),
          force = (case acc of Write_At off v \<Rightarrow> if off = REG_FORCE then ucast v else force p | _ \<Rightarrow> force p),
          outside = go (outside p)\<rparr>)"

definition plic_reach :: "('x \<Rightarrow> u8) \<Rightarrow> ('x \<Rightarrow> 'x) \<Rightarrow> ('x \<Rightarrow> nat) \<Rightarrow> 'x plic \<Rightarrow> 'x plic" where
  "plic_reach lines go gap p = (plic_cycle lines go No_Access ^^ gap (outside p)) p"

definition plic_io :: "('x \<Rightarrow> u8) \<Rightarrow> ('x \<Rightarrow> 'x) \<Rightarrow> ('x \<Rightarrow> nat) \<Rightarrow> 'x plic mmio" where
  "plic_io lines go gap =
     \<lparr>mm_read = (\<lambda>a p. let p = plic_reach lines go gap p; off = take_bit 16 a
                        in (plic_value off p, plic_cycle lines go (Read_At off) p)),
      mm_write = (\<lambda>a v p. plic_cycle lines go (Write_At (take_bit 16 a) v) (plic_reach lines go gap p))\<rparr>"

section \<open>The driver\<close>

definition YDRASIL_IRQ_COUNT :: nat where [code_unfold]: "YDRASIL_IRQ_COUNT = 8"
definition YDRASIL_IRQ_UART0 :: nat where [code_unfold]: "YDRASIL_IRQ_UART0 = 0"

record 'h irq_entry =
  handler :: "'h option"
  parameter :: u32

definition ydrasil_plic_register ::
    "'d mmio \<Rightarrow> nat \<Rightarrow> 'h option \<Rightarrow> u32 \<Rightarrow> 'h irq_entry list \<times> 'd \<Rightarrow> int \<times> 'h irq_entry list \<times> 'd" where
  "ydrasil_plic_register io source h par = (\<lambda>(table, d).
     if source \<ge> YDRASIL_IRQ_COUNT \<or> h = None then (- RT_EINVAL, table, d)
     else (RT_EOK, table[source := \<lparr>handler = h, parameter = par\<rparr>],
           mm_modify io (YDRASIL_PLIC_BASE + 0x04) (\<lambda>v. v OR push_bit source 1) d))"

text \<open>
  The loop of the interrupt handler, with the number of dispatches that are left. The claim is read
  before that number is looked at.
\<close>

primrec mext_loop :: "'d mmio \<Rightarrow> ('h \<Rightarrow> u32 \<Rightarrow> 's \<times> 'd \<Rightarrow> ('s \<times> 'd) exec) \<Rightarrow> 'h irq_entry list \<Rightarrow> nat \<Rightarrow> 's \<times> 'd \<Rightarrow> ('s \<times> 'd) exec" where
  "mext_loop io call table 0 sd = Done (fst sd, snd (mm_read io (YDRASIL_PLIC_BASE + 0x08) (snd sd)))"
| "mext_loop io call table (Suc n) sd =
     (let (claim, d) = mm_read io (YDRASIL_PLIC_BASE + 0x08) (snd sd) in
      if claim = 0 then Done (fst sd, d)
      else
        (let source = unat (claim - 1) in
         exec_bind (if source < YDRASIL_IRQ_COUNT
                    then (case handler (table ! source) of None \<Rightarrow> Done (fst sd, d)
                          | Some h \<Rightarrow> call h (parameter (table ! source)) (fst sd, d))
                    else Done (fst sd, d))
           (\<lambda>(s, d). mext_loop io call table n (s, mm_write io (YDRASIL_PLIC_BASE + 0x08) claim d))))"

definition mext_isr :: "'d mmio \<Rightarrow> ('h \<Rightarrow> u32 \<Rightarrow> 's \<times> 'd \<Rightarrow> ('s \<times> 'd) exec) \<Rightarrow> 'h irq_entry list \<Rightarrow> 's \<times> 'd \<Rightarrow> ('s \<times> 'd) exec" where
  "mext_isr io call table = mext_loop io call table (YDRASIL_IRQ_COUNT * 2)"

fun plic_drain :: "nat \<Rightarrow> 'd mmio \<Rightarrow> 'd \<Rightarrow> 'd exec" where
  "plic_drain 0 io d = Out_Of_Fuel"
| "plic_drain (Suc fuel) io d =
     (let (v, d) = mm_read io (YDRASIL_PLIC_BASE + 0x00) d in
      if v = 0 then Done d
      else (let (claim, d) = mm_read io (YDRASIL_PLIC_BASE + 0x08) d in
            if claim = 0 then Done d
            else plic_drain fuel io (mm_write io (YDRASIL_PLIC_BASE + 0x08) claim d)))"

text \<open>The table and the controller; the vector and \<open>mie\<close> are set in \<open>Board\<close>.\<close>

definition plic_reset :: "nat \<Rightarrow> 'd mmio \<Rightarrow> 'd \<Rightarrow> ('h irq_entry list \<times> 'd) exec" where
  "plic_reset fuel io d =
     (let d = mm_write io (YDRASIL_PLIC_BASE + 0x04) 0 d;
          d = mm_write io (YDRASIL_PLIC_BASE + 0x0c) 0 d
      in exec_bind (plic_drain fuel io d) (\<lambda>d. Done (replicate YDRASIL_IRQ_COUNT \<lparr>handler = None, parameter = 0\<rparr>, d)))"

section \<open>Serving\<close>

text \<open>A record of the handlers called, beside whatever they do.\<close>

definition noted :: "('h \<Rightarrow> u32 \<Rightarrow> 's \<times> 'd \<Rightarrow> ('s \<times> 'd) exec) \<Rightarrow> 'h \<Rightarrow> u32 \<Rightarrow> ('s \<times> 'h list) \<times> 'd \<Rightarrow> (('s \<times> 'h list) \<times> 'd) exec" where
  "noted call h par = (\<lambda>((s, hs), d). exec_bind (call h par (s, d)) (\<lambda>(s, d). Done ((s, hs @ [h]), d)))"

lemma mext_loop_returns:
  assumes "\<And>h par s d. \<exists>s' d'. call h par (s, d) = Done (s', d')"
  shows "\<exists>s' d'. mext_loop io call table n sd = Done (s', d')"
proof (induction n arbitrary: sd)
  case (Suc n)
  show ?case
  proof (cases "mm_read io (YDRASIL_PLIC_BASE + 0x08) (snd sd)")
    case (Pair claim d)
    have "\<exists>s' d'. (if unat (claim - 1) < YDRASIL_IRQ_COUNT
        then (case handler (table ! unat (claim - 1)) of None \<Rightarrow> Done (fst sd, d)
              | Some h \<Rightarrow> call h (parameter (table ! unat (claim - 1))) (fst sd, d))
        else Done (fst sd, d)) = Done (s', d')"
      using assms by (simp split: option.split)
    then obtain s' d' where "(if unat (claim - 1) < YDRASIL_IRQ_COUNT
        then (case handler (table ! unat (claim - 1)) of None \<Rightarrow> Done (fst sd, d)
              | Some h \<Rightarrow> call h (parameter (table ! unat (claim - 1))) (fst sd, d))
        else Done (fst sd, d)) = Done (s', d')" by blast
    then show ?thesis using Suc.IH Pair by (simp add: Let_def)
  qed
qed simp

text \<open>
  A controller at rest: nothing is forced and every line that is up has been taken in. In quiet
  cycles nothing changes but the outside world, whose lines stay as they are.
\<close>

definition settled :: "('x \<Rightarrow> u8) \<Rightarrow> 'x plic \<Rightarrow> bool" where
  "settled lines p \<longleftrightarrow> force p = 0 \<and> pending p OR lines (outside p) = pending p"

lemma quiet_cycles:
  assumes go: "\<And>x. lines (go x) = lines x" and "settled lines p"
  shows "pending ((plic_cycle lines go No_Access ^^ n) p) = pending p"
    and "enable ((plic_cycle lines go No_Access ^^ n) p) = enable p"
    and "force ((plic_cycle lines go No_Access ^^ n) p) = force p"
    and "lines (outside ((plic_cycle lines go No_Access ^^ n) p)) = lines (outside p)"
proof (induction n)
  case (Suc n)
  let ?q = "(plic_cycle lines go No_Access ^^ n) p"
  case 1 show ?case using Suc assms(2) by (simp add: plic_cycle_def cleared_at_def Let_def settled_def or.assoc)
  case 2 show ?case using Suc by (simp add: plic_cycle_def Let_def)
  case 3 show ?case using Suc by (simp add: plic_cycle_def Let_def)
  case 4 show ?case using Suc go by (simp add: plic_cycle_def Let_def)
qed simp_all


text \<open>The accesses to the claim register.\<close>

lemma plic_claim_address: "take_bit 16 (YDRASIL_PLIC_BASE + 0x08) = REG_CLAIM"
  by (simp add: YDRASIL_PLIC_BASE_def REG_CLAIM_def take_bit_eq_mod)

lemma asking_cong: "(\<And>i. i < 8 \<Longrightarrow> bit (pending p AND enable p) i = bit (pending q AND enable q) i) \<Longrightarrow> asking p = asking q"
  unfolding asking_def by (rule filter_cong) auto

lemma asking_less: "i \<in> set (asking p) \<Longrightarrow> i < 8"
  by (auto simp: asking_def)

lemma claim_id_first: "asking p = i # is \<Longrightarrow> claim_id p = of_nat (Suc i) \<and> unat (claim_id p) = Suc i \<and> unat (claim_id p - 1) = i"
proof -
  assume a: "asking p = i # is"
  have "i < 8" using asking_less[of i p] a by simp
  then have "unat (of_nat i :: u32) = i" "unat (of_nat (Suc i) :: u32) = Suc i"
    by (rule_tac [!] unat_of_nat_small) simp_all
  with a show ?thesis by (simp add: claim_id_def)
qed

lemma settled_bits: "settled lines p \<longleftrightarrow> force p = 0 \<and> (\<forall>j. bit (lines (outside p)) j \<longrightarrow> bit (pending p) j)"
proof -
  have "a OR b = a \<longleftrightarrow> (\<forall>j. bit b j \<longrightarrow> bit a j)" for a b :: u8
    by (metis bit_or_iff bit_word_eqI)
  then show ?thesis by (simp add: settled_def)
qed

lemma claim_read:
  assumes go: "\<And>x. lines (go x) = lines x" and "settled lines p"
  obtains p' where "mm_read (plic_io lines go gap) (YDRASIL_PLIC_BASE + 0x08) p = (claim_id p, p')"
    "pending p' = (if claim_id p = 0 then pending p else unset_bit (unat (claim_id p) - 1) (pending p))"
    "enable p' = enable p" "force p' = 0" "lines (outside p') = lines (outside p)"
proof -
  let ?q = "plic_reach lines go gap p"
  note q = quiet_cycles[OF go assms(2), of "gap (outside p)", folded plic_reach_def]
  have c: "claim_id ?q = claim_id p" using q asking_cong[of ?q p] by (simp add: claim_id_def)
  have "pending ?q OR lines (outside ?q) OR force ?q = pending p" using q assms(2) by (simp add: settled_def)
  then show thesis
    using q assms(2) go
    by (intro that[of "plic_cycle lines go (Read_At REG_CLAIM) ?q"])
      (simp_all add: plic_io_def Let_def plic_claim_address plic_value_def plic_cycle_def cleared_at_def c settled_def plic_offsets)
qed

lemma claim_write:
  assumes go: "\<And>x. lines (go x) = lines x" and "settled lines p" and "i < 8"
  obtains p' where "mm_write (plic_io lines go gap) (YDRASIL_PLIC_BASE + 0x08) (of_nat (Suc i)) p = p'"
    "pending p' = unset_bit i (pending p)" "enable p' = enable p" "force p' = 0" "lines (outside p') = lines (outside p)"
proof -
  let ?q = "plic_reach lines go gap p"
  note q = quiet_cycles[OF go assms(2), of "gap (outside p)", folded plic_reach_def]
  have t: "pending ?q OR lines (outside ?q) OR force ?q = pending p" using q assms(2) by (simp add: settled_def)
  have "unat (of_nat (Suc i) :: u32) = Suc i" using assms(3) by (intro unat_of_nat_small) simp
  then have v: "0 < (of_nat (Suc i) :: u32)" "(of_nat (Suc i) :: u32) \<le> 8" "unat (of_nat (Suc i) :: u32) - 1 = i"
    "(of_nat (Suc i) :: u32) \<noteq> 0"
    using assms(3) by (auto simp: word_less_nat_alt word_le_nat_alt simp del: of_nat_Suc)
  show thesis
    using q assms(2) go v t
    by (intro that[of "plic_cycle lines go (Write_At REG_CLAIM (of_nat (Suc i))) ?q"])
      (simp_all add: plic_io_def Let_def plic_claim_address plic_cycle_def cleared_at_def settled_def plic_offsets del: of_nat_Suc)
qed

text \<open>
  What is asked of the handler of source \<open>i\<close>: it returns with the line of its device down, and with
  the other lines and requests as they were.
\<close>

definition lowers :: "('x \<Rightarrow> u8) \<Rightarrow> ('s \<times> 'x plic \<Rightarrow> ('s \<times> 'x plic) exec) \<Rightarrow> nat \<Rightarrow> bool" where
  "lowers lines run i \<longleftrightarrow>
     (\<forall>s p. force p = 0 \<longrightarrow> (\<forall>j. j \<noteq> i \<longrightarrow> bit (lines (outside p)) j \<longrightarrow> bit (pending p) j) \<longrightarrow>
        (\<exists>s' p'. run (s, p) = Done (s', p') \<and> enable p' = enable p \<and> force p' = 0 \<and>
           lines (outside p') = unset_bit i (lines (outside p)) \<and>
           (\<forall>j. j \<noteq> i \<longrightarrow> bit (pending p') j = bit (pending p) j)))"

definition served_by :: "('x \<Rightarrow> u8) \<Rightarrow> ('h \<Rightarrow> u32 \<Rightarrow> 's \<times> 'x plic \<Rightarrow> ('s \<times> 'x plic) exec) \<Rightarrow> 'h irq_entry list \<Rightarrow> nat \<Rightarrow> bool" where
  "served_by lines call table i \<longleftrightarrow>
     (\<exists>h. handler (table ! i) = Some h \<and> lowers lines (call h (parameter (table ! i))) i)"

lemma mext_loop_serves:
  assumes go: "\<And>x. lines (go x) = lines x"
  shows "settled lines p \<Longrightarrow> length (asking p) \<le> n \<Longrightarrow> \<forall>i\<in>set (asking p). served_by lines call table i \<Longrightarrow>
    \<exists>s' p'. mext_loop (plic_io lines go gap) (noted call) table n ((s, hs), p) =
        Done ((s', hs @ map (\<lambda>i. the (handler (table ! i))) (asking p)), p') \<and>
      settled lines p' \<and> asking p' = [] \<and> enable p' = enable p"
proof (induction n arbitrary: s hs p)
  case 0
  then have none: "asking p = []" by simp
  then have c0: "claim_id p = 0" by (simp add: claim_id_def)
  obtain p' where p': "mm_read (plic_io lines go gap) (YDRASIL_PLIC_BASE + 0x08) p = (claim_id p, p')"
    "pending p' = pending p" "enable p' = enable p" "force p' = 0" "lines (outside p') = lines (outside p)"
    using claim_read[OF go 0(1), of gap] c0 by auto
  then have "asking p' = asking p" by (intro asking_cong) simp
  with p' none 0(1) show ?case by (auto simp: settled_def)
next
  case (Suc n)
  note r = claim_read[OF go Suc.prems(1), of gap]
  show ?case
  proof (cases "asking p")
    case Nil
    then have c0: "claim_id p = 0" by (simp add: claim_id_def)
    obtain p' where p': "mm_read (plic_io lines go gap) (YDRASIL_PLIC_BASE + 0x08) p = (claim_id p, p')"
      "pending p' = pending p" "enable p' = enable p" "force p' = 0" "lines (outside p') = lines (outside p)"
      using r unfolding c0 by (metis (full_types))
    then have "asking p' = asking p" by (intro asking_cong) simp
    with p' Nil Suc.prems(1) c0 show ?thesis by (auto simp: settled_def)
  next
    case (Cons i "is")
    note id = claim_id_first[OF Cons]
    have i: "i < 8" using asking_less[of i p] Cons by simp
    have id0: "claim_id p \<noteq> 0" using id by auto
    obtain p1 where p1: "mm_read (plic_io lines go gap) (YDRASIL_PLIC_BASE + 0x08) p = (claim_id p, p1)"
      "pending p1 = unset_bit i (pending p)" "enable p1 = enable p" "force p1 = 0" "lines (outside p1) = lines (outside p)"
    proof (rule r)
      fix q assume "mm_read (plic_io lines go gap) (YDRASIL_PLIC_BASE + 0x08) p = (claim_id p, q)"
        "pending q = (if claim_id p = 0 then pending p else unset_bit (unat (claim_id p) - 1) (pending p))"
        "enable q = enable p" "force q = 0" "lines (outside q) = lines (outside p)"
      moreover have "unat (claim_id p) - 1 = i" using id[THEN conjunct2, THEN conjunct1] by arith
      ultimately show thesis using id0 by (intro that[of q]) simp_all
    qed
    obtain h where h: "handler (table ! i) = Some h" "lowers lines (call h (parameter (table ! i))) i"
      using Suc.prems(3) Cons by (auto simp: served_by_def)
    have "bit (pending p1) j" if "j \<noteq> i" "bit (lines (outside p1)) j" for j
      using Suc.prems(1) that p1(2,5) by (auto simp: settled_bits bit_simps)
    with h(2) p1(4) obtain s' p2 where p2: "call h (parameter (table ! i)) (s, p1) = Done (s', p2)" "enable p2 = enable p1"
      "force p2 = 0" "lines (outside p2) = unset_bit i (lines (outside p1))" "\<forall>j. j \<noteq> i \<longrightarrow> bit (pending p2) j = bit (pending p1) j"
      unfolding lowers_def by blast
    have set2: "settled lines p2"
      using Suc.prems(1) p2 p1 by (auto simp: settled_bits bit_simps)
    obtain p3 where p3: "mm_write (plic_io lines go gap) (YDRASIL_PLIC_BASE + 0x08) (of_nat (Suc i)) p2 = p3"
      "pending p3 = unset_bit i (pending p2)" "enable p3 = enable p2" "force p3 = 0" "lines (outside p3) = lines (outside p2)"
      using claim_write[OF go set2 i, of gap] by blast
    have set3: "settled lines p3"
      using set2 p2(4) p3 by (auto simp: settled_bits bit_simps)
    have "asking p3 = filter (\<lambda>j. j \<noteq> i) (asking p)"
      unfolding asking_def filter_filter
      by (rule filter_cong) (auto simp: bit_simps p3 p2 p1)
    also have "\<dots> = is"
    proof -
      have "distinct (asking p)" by (simp add: asking_def)
      then show ?thesis using Cons by (auto intro: filter_True)
    qed
    finally have ask3: "asking p3 = is" .
    have u: "unat (of_nat i :: u32) = i" using i by (intro unat_of_nat_small) simp
    have step: "mext_loop (plic_io lines go gap) (noted call) table (Suc n) ((s, hs), p) =
        mext_loop (plic_io lines go gap) (noted call) table n ((s', hs @ [h]), p3)"
      using p1(1) id0 id i h(1) p2(1) p3(1) u by (simp add: Let_def YDRASIL_IRQ_COUNT_def noted_def)
    have "length (asking p3) \<le> n" "\<forall>j\<in>set (asking p3). served_by lines call table j"
      using Suc.prems(2,3) Cons ask3 by simp_all
    from Suc.IH[OF set3 this, of s' "hs @ [h]"] show ?thesis
      unfolding step using ask3 Cons h(1) p1(3) p2(2) p3(3) by simp
  qed
qed


lemma plic_irq_asking: "plic_irq p \<longleftrightarrow> asking p \<noteq> []"
proof -
  have "(pending p AND enable p = 0) \<longleftrightarrow> (\<forall>i<8. \<not> bit (pending p AND enable p) i)"
    by (auto simp: bit_eq_iff)
  then show ?thesis by (auto simp: plic_irq_def asking_def filter_empty_conv)
qed

text \<open>
  \<open>ydrasil_plic_init\<close> means to drain what is pending, but it has disabled every source, and then the
  controller names none: whatever was pending stays so.
\<close>

lemma plic_write_quiet:
  assumes go: "\<And>x. lines (go x) = lines x" and "settled lines p"
  shows "settled lines (mm_write (plic_io lines go gap) (YDRASIL_PLIC_BASE + 0x04) 0 p)"
    and "settled lines (mm_write (plic_io lines go gap) (YDRASIL_PLIC_BASE + 0x0c) 0 p)"
    and "pending (mm_write (plic_io lines go gap) (YDRASIL_PLIC_BASE + 0x04) 0 p) = pending p"
    and "pending (mm_write (plic_io lines go gap) (YDRASIL_PLIC_BASE + 0x0c) 0 p) = pending p"
    and "enable (mm_write (plic_io lines go gap) (YDRASIL_PLIC_BASE + 0x04) 0 p) = 0"
    and "enable (mm_write (plic_io lines go gap) (YDRASIL_PLIC_BASE + 0x0c) 0 p) = enable p"
proof -
  note q = quiet_cycles[OF go assms(2), of "gap (outside p)", folded plic_reach_def]
  let ?q = "plic_reach lines go gap p"
  have t: "pending ?q OR lines (outside ?q) OR force ?q = pending p" using q assms(2) by (simp add: settled_def)
  have a: "take_bit 16 (YDRASIL_PLIC_BASE + 0x04) = REG_ENABLE" "take_bit 16 (YDRASIL_PLIC_BASE + 0x0c) = REG_FORCE"
    by (simp_all add: YDRASIL_PLIC_BASE_def plic_offsets take_bit_eq_mod)
  note simps = plic_io_def Let_def a plic_cycle_def cleared_at_def plic_offsets
  show "pending (mm_write (plic_io lines go gap) (YDRASIL_PLIC_BASE + 0x04) 0 p) = pending p"
    "pending (mm_write (plic_io lines go gap) (YDRASIL_PLIC_BASE + 0x0c) 0 p) = pending p"
    "enable (mm_write (plic_io lines go gap) (YDRASIL_PLIC_BASE + 0x04) 0 p) = 0"
    "enable (mm_write (plic_io lines go gap) (YDRASIL_PLIC_BASE + 0x0c) 0 p) = enable p"
    using q t by (simp_all add: simps)
  show "settled lines (mm_write (plic_io lines go gap) (YDRASIL_PLIC_BASE + 0x04) 0 p)"
    "settled lines (mm_write (plic_io lines go gap) (YDRASIL_PLIC_BASE + 0x0c) 0 p)"
    using q t go assms(2) by (simp_all add: simps settled_def)
qed

lemma plic_reset_drains_nothing:
  assumes go: "\<And>x. lines (go x) = lines x" and "settled lines p"
  shows "\<exists>table p'. plic_reset (Suc fuel) (plic_io lines go gap) p = Done (table, p') \<and> enable p' = 0 \<and> pending p' = pending p"
proof -
  let ?io = "plic_io lines go gap"
  define p1 where "p1 = mm_write ?io (YDRASIL_PLIC_BASE + 0x04) 0 p"
  define p2 where "p2 = mm_write ?io (YDRASIL_PLIC_BASE + 0x0c) 0 p1"
  note w1 = plic_write_quiet[OF go assms(2), of gap, folded p1_def]
  note w2 = plic_write_quiet[OF go w1(1), of gap, folded p2_def]
  define q where "q = plic_reach lines go gap p2"
  note q = quiet_cycles[OF go w2(2), of "gap (outside p2)", folded plic_reach_def q_def]
  define p3 where "p3 = plic_cycle lines go (Read_At REG_PENDING) q"
  have "take_bit 16 (YDRASIL_PLIC_BASE + 0x00) = REG_PENDING"
    by (simp add: YDRASIL_PLIC_BASE_def plic_offsets take_bit_eq_mod)
  then have r: "mm_read ?io (YDRASIL_PLIC_BASE + 0x00) p2 = (ucast (pending p), p3)"
    using q w1 w2 by (simp add: plic_io_def Let_def q_def p3_def plic_value_def)
  have p3: "settled lines p3" "enable p3 = 0" "pending p3 = pending p"
    using q w1 w2 go by (simp_all add: p3_def plic_cycle_def cleared_at_def plic_offsets settled_def Let_def)
  have c0: "claim_id p3 = 0" using p3(2) by (simp add: claim_id_def asking_def)
  obtain p4 where p4: "mm_read ?io (YDRASIL_PLIC_BASE + 0x08) p3 = (0, p4)" "pending p4 = pending p3" "enable p4 = enable p3"
    using claim_read[OF go p3(1), of gap] unfolding c0 by (metis (full_types))
  have "plic_drain (Suc fuel) ?io p2 = (if ucast (pending p) = (0 :: u32) then Done p3 else Done p4)"
    using r p4(1) by simp
  then show ?thesis
    using p3 p4 by (auto simp: plic_reset_def Let_def simp flip: p1_def p2_def)
qed

section \<open>Properties\<close>

text \<open>C35. The external interrupt of a controller whose request lines are levels. When every source
  that asks has a registered handler that returns with the line of its device down, \<open>mext_isr\<close>
  returns; it has called the handlers of the sources that asked, each once and in the order of their
  numbers, and at the end the controller asks for nothing and no enabled line is up.\<close>

theorem mext_isr_serves:
  assumes "\<forall>x. lines (go x) = lines x" and "settled lines p"
    and "\<forall>i\<in>set (asking p). served_by lines call table i"
  shows "\<exists>s' p'. mext_isr (plic_io lines go gap) (noted call) table ((s, []), p) =
      Done ((s', map (\<lambda>i. the (handler (table ! i))) (asking p)), p') \<and>
    \<not> plic_irq p' \<and> enable p' = enable p \<and> (\<forall>i<8. bit (enable p') i \<longrightarrow> \<not> bit (lines (outside p')) i)"
proof -
  have "length (asking p) \<le> length [0..<8]" unfolding asking_def by (rule length_filter_le)
  then have "length (asking p) \<le> YDRASIL_IRQ_COUNT * 2" by (simp add: YDRASIL_IRQ_COUNT_def)
  from mext_loop_serves[OF _ assms(2) this assms(3), of go gap s "[]"] assms(1) obtain s' p' where
    r: "mext_isr (plic_io lines go gap) (noted call) table ((s, []), p) =
      Done ((s', map (\<lambda>i. the (handler (table ! i))) (asking p)), p')" "settled lines p'" "asking p' = []" "enable p' = enable p"
    unfolding mext_isr_def by auto
  have "\<not> bit (lines (outside p')) i" if "i < 8" "bit (enable p') i" for i
    using r(2,3) that by (auto simp: settled_bits asking_def filter_empty_conv bit_simps)
  with r show ?thesis by (auto simp: plic_irq_asking)
qed

text \<open>A world of eight wires, which a handler pulls down.\<close>

definition wire_call :: "nat \<Rightarrow> u32 \<Rightarrow> nat \<times> u8 plic \<Rightarrow> (nat \<times> u8 plic) exec" where
  "wire_call h par = (\<lambda>(s, p). Done (Suc s, p\<lparr>outside := unset_bit h (outside p)\<rparr>))"

definition wire_plic :: "u8 plic" where
  "wire_plic = \<lparr>pending = 5, enable = 7, force = 0, outside = 5\<rparr>"

theorem mext_isr_serves_witness:
  "\<exists>s' p'. mext_isr (plic_io (\<lambda>x. x) (\<lambda>x. x) (\<lambda>_. 2)) (noted wire_call) (map (\<lambda>i. \<lparr>handler = Some i, parameter = 0\<rparr>) [0..<8])
      ((0, []), wire_plic) = Done ((s', [0, 2]), p') \<and> \<not> plic_irq p'"
proof -
  let ?table = "map (\<lambda>i. \<lparr>handler = Some i, parameter = 0\<rparr>) [0..<8]"
  have ask: "asking wire_plic = [0, 2]" by code_simp
  have "settled (\<lambda>x. x) wire_plic" by (simp add: settled_def wire_plic_def)
  moreover have "\<forall>i\<in>set (asking wire_plic). served_by (\<lambda>x. x) wire_call ?table i"
    unfolding ask by (simp add: served_by_def lowers_def wire_call_def numeral_2_eq_2)
  ultimately show ?thesis
    using mext_isr_serves[of "\<lambda>x. x" "\<lambda>x. x" wire_plic wire_call ?table "\<lambda>_. 2" 0] unfolding ask by fastforce
qed

text \<open>
  A request that is a pulse is lost when it comes between the claim and its completion: the
  completion clears it. Here two pulses come at cycles 0 and 3, and the handler is called once.
\<close>

definition pulses :: "nat \<Rightarrow> u8" where "pulses t = (if t = 0 \<or> t = 3 then 1 else 0)"

lemma pulse_lost:
  "(case mext_isr (plic_io pulses Suc (\<lambda>_. 1)) (noted (\<lambda>h par sd. Done sd)) (replicate 8 \<lparr>handler = Some (0 :: nat), parameter = 0\<rparr>)
      ((0 :: nat, []), \<lparr>pending = 0, enable = 1, force = 0, outside = 0\<rparr>) of
      Done ((s, hs), p) \<Rightarrow> length hs = 1 \<and> \<not> plic_irq p \<and> outside p > 3
    | _ \<Rightarrow> False)"
  by code_simp

end
