(* ===== verification/Clint.thy ===== *)
theory Clint
  imports Mmio Kernel_Run
begin

text \<open>
  The system tick: \<^verbatim>\<open>sw/bsp/rtthread/drivers/drv_mtime.c\<close> on the machine timer of the SoC,
  \<^verbatim>\<open>hw/ip/ydrasil_utils/rtl/ydrasil_clint.sv\<close>. The timer counts at every clock cycle, also between
  the accesses of the driver: how many cycles pass before the access number \<open>i\<close> is an argument
  \<open>wait i\<close>, of which the properties know a bound only. Times are far below \<open>2^64\<close> cycles.
\<close>

section \<open>The timer\<close>

record clint =
  msip :: bool
  mtime :: u64
  mtimecmp :: u64
  accesses :: nat

definition low_word :: "u64 \<Rightarrow> u32" where "low_word x = ucast x"
definition high_word :: "u64 \<Rightarrow> u32" where "high_word x = ucast (drop_bit 32 x)"

text \<open>\<open>((uint64_t)hi << 32) | lo\<close>.\<close>

definition two_words :: "u32 \<Rightarrow> u32 \<Rightarrow> u64" where
  "two_words hi lo = push_bit 32 (ucast hi) OR ucast lo"

definition MSIP_OFFSET :: u32 where [code_unfold]: "MSIP_OFFSET = 0x0000"
definition MTIMECMP_LO :: u32 where [code_unfold]: "MTIMECMP_LO = 0x4000"
definition MTIMECMP_HI :: u32 where [code_unfold]: "MTIMECMP_HI = 0x4004"
definition MTIME_LO :: u32 where [code_unfold]: "MTIME_LO = 0xBFF8"
definition MTIME_HI :: u32 where [code_unfold]: "MTIME_HI = 0xBFFC"

lemmas clint_offsets = MSIP_OFFSET_def MTIMECMP_LO_def MTIMECMP_HI_def MTIME_LO_def MTIME_HI_def

definition timer_irq :: "clint \<Rightarrow> bool" where
  "timer_irq c \<longleftrightarrow> mtime c \<ge> mtimecmp c"

definition pass :: "nat \<Rightarrow> clint \<Rightarrow> clint" where
  "pass n c = c\<lparr>mtime := mtime c + of_nat n\<rparr>"

definition clint_value :: "u32 \<Rightarrow> clint \<Rightarrow> u32" where
  "clint_value a c =
     (let o' = a - YDRASIL_CLINT_BASE in
      if o' = MSIP_OFFSET then (if msip c then 1 else 0)
      else if o' = MTIMECMP_LO then low_word (mtimecmp c)
      else if o' = MTIMECMP_HI then high_word (mtimecmp c)
      else if o' = MTIME_LO then low_word (mtime c)
      else if o' = MTIME_HI then high_word (mtime c)
      else 0)"

text \<open>The clock edge of a write: the counter has gone on, except for the half that is written.\<close>

definition clint_store :: "u32 \<Rightarrow> u32 \<Rightarrow> clint \<Rightarrow> clint" where
  "clint_store a v c =
     (let o' = a - YDRASIL_CLINT_BASE; c' = pass 1 c in
      if o' = MSIP_OFFSET then c'\<lparr>msip := bit v 0\<rparr>
      else if o' = MTIMECMP_LO then c'\<lparr>mtimecmp := two_words (high_word (mtimecmp c)) v\<rparr>
      else if o' = MTIMECMP_HI then c'\<lparr>mtimecmp := two_words v (low_word (mtimecmp c))\<rparr>
      else if o' = MTIME_LO then c'\<lparr>mtime := two_words (high_word (mtime c')) v\<rparr>
      else if o' = MTIME_HI then c'\<lparr>mtime := two_words v (low_word (mtime c'))\<rparr>
      else c')"

definition clint_reach :: "(nat \<Rightarrow> nat) \<Rightarrow> clint \<Rightarrow> clint" where
  "clint_reach wait c = (pass (wait (accesses c)) c)\<lparr>accesses := Suc (accesses c)\<rparr>"

definition clint_io :: "(nat \<Rightarrow> nat) \<Rightarrow> clint mmio" where
  "clint_io wait =
     \<lparr>mm_read = (\<lambda>a c. let c = clint_reach wait c in (clint_value a c, pass 1 c)),
      mm_write = (\<lambda>a v c. clint_store a v (clint_reach wait c))\<rparr>"

section \<open>The driver\<close>

definition YDRASIL_TIMER_FREQ_HZ :: u32 where [code_unfold]: "YDRASIL_TIMER_FREQ_HZ = YDRASIL_APB_FREQ_HZ"

fun mtime_read :: "nat \<Rightarrow> 'd mmio \<Rightarrow> 'd \<Rightarrow> (u64 \<times> 'd) exec" where
  "mtime_read 0 io d = Out_Of_Fuel"
| "mtime_read (Suc fuel) io d =
     (let (high_before, d) = mm_read io (YDRASIL_CLINT_BASE + MTIME_HI) d;
          (low, d) = mm_read io (YDRASIL_CLINT_BASE + MTIME_LO) d;
          (high_after, d) = mm_read io (YDRASIL_CLINT_BASE + MTIME_HI) d
      in if high_before \<noteq> high_after then mtime_read fuel io d
         else Done (two_words high_after low, d))"

definition mtimecmp_write :: "'d mmio \<Rightarrow> u64 \<Rightarrow> 'd \<Rightarrow> 'd" where
  "mtimecmp_write io v d =
     (let d = mm_write io (YDRASIL_CLINT_BASE + MTIMECMP_HI) 0xFFFFFFFF d;
          d = mm_write io (YDRASIL_CLINT_BASE + MTIMECMP_LO) (low_word v) d
      in mm_write io (YDRASIL_CLINT_BASE + MTIMECMP_HI) (high_word v) d)"

definition mtime_program_next :: "nat \<Rightarrow> 'd mmio \<Rightarrow> u64 \<Rightarrow> 'd \<Rightarrow> 'd exec" where
  "mtime_program_next fuel io tick_cycles d =
     exec_bind (mtime_read fuel io d) (\<lambda>(now, d). Done (mtimecmp_write io (now + tick_cycles) d))"

definition mtime_isr :: "nat \<Rightarrow> nat \<Rightarrow> (nat \<Rightarrow> kernel \<Rightarrow> kernel) \<Rightarrow> 'd mmio \<Rightarrow> u64 \<Rightarrow> kernel \<times> 'd \<Rightarrow> (kernel \<times> 'd) exec" where
  "mtime_isr fuel timer_fuel cb io tick_cycles = (\<lambda>(k, d).
     exec_bind (mtime_program_next fuel io tick_cycles d) (\<lambda>d.
       exec_bind (rt_tick_increase timer_fuel cb k) (\<lambda>k. Done (k, d))))"

text \<open>\<open>YDRASIL_TIMER_FREQ_HZ / RT_TICK_PER_SECOND\<close>, in 32 bits.\<close>

definition initial_tick_cycles :: u64 where
  "initial_tick_cycles = ucast (YDRASIL_TIMER_FREQ_HZ div RT_TICK_PER_SECOND)"

section \<open>Reading the time\<close>

lemma unat_words:
  "unat (low_word x) = unat x mod 4294967296" "unat (high_word x) = unat x div 4294967296"
proof -
  show "unat (low_word x) = unat x mod 4294967296"
    by (simp add: low_word_def unsigned_ucast_eq take_bit_eq_mod)
  have "unat x div 4294967296 < 4294967296" using unat_u64[of x] by (simp add: div_less_iff_less_mult)
  then show "unat (high_word x) = unat x div 4294967296"
    by (simp add: high_word_def unsigned_ucast_eq unsigned_drop_bit_eq take_bit_eq_mod drop_bit_eq_div unat_div)
qed

lemma unat_two_words: "unat (two_words hi lo) = unat hi * 4294967296 + unat lo"
proof -
  have "push_bit 32 (ucast hi :: u64) AND ucast lo = 0"
    by (rule bit_word_eqI) (auto simp: bit_simps dest: bit_imp_le_length)
  then have "two_words hi lo = push_bit 32 (ucast hi) + ucast lo" by (simp add: two_words_def disjunctive_add_eq_or)
  moreover have "unat hi * 4294967296 + unat lo < 18446744073709551616"
    using unat_u32[of hi] unat_u32[of lo] by linarith
  ultimately show ?thesis
    by (simp add: push_bit_eq_mult unat_word_ariths unsigned_ucast_eq take_bit_eq_mod)
qed

lemma two_words_id [simp]: "two_words (high_word x) (low_word x) = x"
  by (simp add: word_unat_eq_iff unat_two_words unat_words)

lemma word_of_two_words [simp]: "high_word (two_words hi lo) = hi" "low_word (two_words hi lo) = lo"
  using unat_u32[of lo] by (simp_all add: word_unat_eq_iff unat_words unat_two_words)

abbreviation time :: "clint \<Rightarrow> nat" where "time c \<equiv> unat (mtime c)"

lemma time_pass: "time c + n < 18446744073709551616 \<Longrightarrow> time (pass n c) = time c + n"
  by (simp add: pass_def unat_word_ariths unsigned_of_nat take_bit_eq_mod)

lemma pass_fields [simp]:
  "mtimecmp (pass n c) = mtimecmp c" "accesses (pass n c) = accesses c" "msip (pass n c) = msip c"
  by (simp_all add: pass_def)

lemma reach_fields [simp]:
  "mtimecmp (clint_reach wait c) = mtimecmp c" "msip (clint_reach wait c) = msip c"
  by (simp_all add: clint_reach_def)

text \<open>No access is delayed by more than \<open>W\<close> cycles.\<close>

definition prompt :: "nat \<Rightarrow> (nat \<Rightarrow> nat) \<Rightarrow> bool" where
  "prompt W wait \<longleftrightarrow> (\<forall>i. wait i \<le> W)"

lemma time_reach:
  assumes "prompt W wait" and "time c + W < 18446744073709551616"
  shows "time c \<le> time (clint_reach wait c)" and "time (clint_reach wait c) \<le> time c + W"
proof -
  have w: "wait (accesses c) \<le> W" using assms(1) by (simp add: prompt_def)
  then have "time (pass (wait (accesses c)) c) = time c + wait (accesses c)" using assms(2) by (intro time_pass) simp
  with w show "time c \<le> time (clint_reach wait c)" "time (clint_reach wait c) \<le> time c + W"
    by (simp_all add: clint_reach_def)
qed

text \<open>One read: the half of the counter at the time of the access.\<close>

lemma time_word_read:
  assumes "prompt W wait" and "time c + W + 1 < 18446744073709551616"
  obtains t c' where "time c \<le> t" "t \<le> time c + W" "time c' = Suc t" "mtimecmp c' = mtimecmp c" "msip c' = msip c"
    "mm_read (clint_io wait) (YDRASIL_CLINT_BASE + MTIME_LO) c = (of_nat (t mod 4294967296), c')"
    "mm_read (clint_io wait) (YDRASIL_CLINT_BASE + MTIME_HI) c = (of_nat (t div 4294967296), c')"
proof -
  let ?c = "clint_reach wait c"
  have "time c + W < 18446744073709551616" using assms(2) by simp
  note r = time_reach[OF assms(1) this]
  have "time (pass 1 ?c) = Suc (time ?c)" using r assms(2) by (subst time_pass) simp_all
  moreover have "low_word (mtime ?c) = of_nat (time ?c mod 4294967296)" "high_word (mtime ?c) = of_nat (time ?c div 4294967296)"
    by (simp_all flip: unat_words)
  ultimately show thesis
    using r by (intro that[of "time ?c" "pass 1 ?c"]) (simp_all add: clint_io_def clint_value_def clint_offsets Let_def)
qed

lemma same_high_time:
  fixes t1 t2 t3 :: nat
  assumes "t1 \<le> t2" and "t2 \<le> t3" and "t3 < 18446744073709551616"
    and "(of_nat (t1 div 4294967296) :: u32) = of_nat (t3 div 4294967296)"
  shows "unat (two_words (of_nat (t3 div 4294967296)) (of_nat (t2 mod 4294967296))) = t2"
proof -
  have small: "t div 4294967296 < 4294967296" if "t < 18446744073709551616" for t :: nat
    using that by (simp add: div_less_iff_less_mult)
  have "t1 div 4294967296 = t3 div 4294967296"
    using arg_cong[OF assms(4), of unat] small[of t1] small[of t3] assms(1-3) by (simp add: unsigned_of_nat take_bit_eq_mod)
  then have "t2 div 4294967296 = t3 div 4294967296"
    using div_le_mono[OF assms(1), of 4294967296] div_le_mono[OF assms(2), of 4294967296] by simp
  moreover have "t2 div 4294967296 * 4294967296 + t2 mod 4294967296 = t2" by simp
  ultimately show ?thesis
    using small[OF assms(3)] by (simp add: unat_two_words unsigned_of_nat take_bit_eq_mod)
qed

text \<open>
  The value read is the time of a cycle during the call. A carry out of the low word makes the
  loop read again, once at most when the accesses are prompt.
\<close>

lemma time_round:
  assumes "prompt W wait" and "time c + 3 * (W + 1) < 18446744073709551616"
  obtains t1 t2 t3 c' where "time c \<le> t1" "t1 < t2" "t2 < t3" "time c' = Suc t3" "time c' \<le> time c + 3 * (W + 1)"
    "mtimecmp c' = mtimecmp c" "msip c' = msip c"
    "mtime_read (Suc fuel) (clint_io wait) c =
       (if (of_nat (t1 div 4294967296) :: u32) \<noteq> of_nat (t3 div 4294967296) then mtime_read fuel (clint_io wait) c'
        else Done (two_words (of_nat (t3 div 4294967296)) (of_nat (t2 mod 4294967296)), c'))"
proof -
  have s1: "time c + W + 1 < 18446744073709551616" using assms(2) by simp
  obtain t1 c1 where 1: "time c \<le> t1" "t1 \<le> time c + W" "time c1 = Suc t1" "mtimecmp c1 = mtimecmp c" "msip c1 = msip c"
    "mm_read (clint_io wait) (YDRASIL_CLINT_BASE + MTIME_HI) c = (of_nat (t1 div 4294967296), c1)"
    using time_word_read[OF assms(1) s1] by blast
  have s2: "time c1 + W + 1 < 18446744073709551616" using assms(2) 1(2,3) by simp
  obtain t2 c2 where 2: "time c1 \<le> t2" "t2 \<le> time c1 + W" "time c2 = Suc t2" "mtimecmp c2 = mtimecmp c1" "msip c2 = msip c1"
    "mm_read (clint_io wait) (YDRASIL_CLINT_BASE + MTIME_LO) c1 = (of_nat (t2 mod 4294967296), c2)"
    using time_word_read[OF assms(1) s2] by blast
  have s3: "time c2 + W + 1 < 18446744073709551616" using assms(2) 1(2,3) 2(2,3) by simp
  obtain t3 c3 where 3: "time c2 \<le> t3" "t3 \<le> time c2 + W" "time c3 = Suc t3" "mtimecmp c3 = mtimecmp c2" "msip c3 = msip c2"
    "mm_read (clint_io wait) (YDRASIL_CLINT_BASE + MTIME_HI) c2 = (of_nat (t3 div 4294967296), c3)"
    using time_word_read[OF assms(1) s3] by blast
  show thesis
    using 1 2 3 by (intro that[of t1 t2 t3 c3]) simp_all
qed

lemma mtime_read_in_time:
  assumes p: "prompt W wait" "6 * (W + 1) \<le> 4294967296" and t: "time c + 6 * (W + 1) < 18446744073709551616"
  obtains v c' where "mtime_read (Suc (Suc fuel)) (clint_io wait) c = Done (v, c')" "time c \<le> unat v" "unat v < time c'"
    "time c' \<le> time c + 6 * (W + 1)" "mtimecmp c' = mtimecmp c" "msip c' = msip c"
proof -
  have "time c + 3 * (W + 1) < 18446744073709551616" using t by simp
  from time_round[OF p(1) this, of "Suc fuel"] obtain t1 t2 t3 c' where
    1: "time c \<le> t1" "t1 < t2" "t2 < t3" "time c' = Suc t3" "time c' \<le> time c + 3 * (W + 1)"
    "mtimecmp c' = mtimecmp c" "msip c' = msip c"
    "mtime_read (Suc (Suc fuel)) (clint_io wait) c =
       (if (of_nat (t1 div 4294967296) :: u32) \<noteq> of_nat (t3 div 4294967296) then mtime_read (Suc fuel) (clint_io wait) c'
        else Done (two_words (of_nat (t3 div 4294967296)) (of_nat (t2 mod 4294967296)), c'))" by blast
  show thesis
  proof (cases "(of_nat (t1 div 4294967296) :: u32) = of_nat (t3 div 4294967296)")
    case True
    have "t3 < 18446744073709551616" using 1(4,5) t by simp
    from same_high_time[OF _ _ this True, of t2] 1(2,3)
    obtain v where v: "v = two_words (of_nat (t3 div 4294967296)) (of_nat (t2 mod 4294967296))" "unat v = t2" by simp
    from 1(8) True have "mtime_read (Suc (Suc fuel)) (clint_io wait) c = Done (v, c')" by (simp only: v(1) if_False simp_thms)
    with 1(1-7) v(2) show thesis by (intro that[of v c']) simp_all
  next
    case False
    then have carry: "t1 div 4294967296 \<noteq> t3 div 4294967296" by auto
    have "time c' + 3 * (W + 1) < 18446744073709551616" using 1(5) t by simp
    from time_round[OF p(1) this, of fuel] obtain u1 u2 u3 c'' where
      2: "time c' \<le> u1" "u1 < u2" "u2 < u3" "time c'' = Suc u3" "time c'' \<le> time c' + 3 * (W + 1)"
      "mtimecmp c'' = mtimecmp c'" "msip c'' = msip c'"
      "mtime_read (Suc fuel) (clint_io wait) c' =
       (if (of_nat (u1 div 4294967296) :: u32) \<noteq> of_nat (u3 div 4294967296) then mtime_read fuel (clint_io wait) c''
        else Done (two_words (of_nat (u3 div 4294967296)) (of_nat (u2 mod 4294967296)), c''))" by blast
    have no_carry: "u1 div 4294967296 = u3 div 4294967296"
    proof -
      define q where "q = t3 div 4294967296"
      have "t1 div 4294967296 < q" using carry div_le_mono[of t1 t3 4294967296] 1(2,3) by (simp add: q_def)
      then have "t1 < q * 4294967296" by (simp add: div_less_iff_less_mult)
      moreover have "q * 4294967296 \<le> t3" by (simp add: q_def)
      moreover have "u3 < t1 + 4294967296" using 1 2 p(2) by linarith
      moreover have "t3 \<le> u1" "u1 \<le> u3" using 1 2 by simp_all
      ultimately have "q * 4294967296 \<le> u1" "u3 < (q + 1) * 4294967296" by simp_all
      then have "u1 div 4294967296 = q" "u3 div 4294967296 = q"
        using \<open>u1 \<le> u3\<close> by (simp_all add: div_nat_eqI)
      then show ?thesis by simp
    qed
    have "u3 < 18446744073709551616" using 2(4,5) 1(5) t by simp
    from same_high_time[OF _ _ this, of u1 u2] no_carry 2(2,3)
    obtain v where v: "v = two_words (of_nat (u3 div 4294967296)) (of_nat (u2 mod 4294967296))" "unat v = u2" by simp
    from 1(8) 2(8) no_carry False have "mtime_read (Suc (Suc fuel)) (clint_io wait) c = Done (v, c'')"
      by (simp only: v(1) if_False if_True simp_thms)
    with 1(1-7) 2(1-7) v(2) show thesis by (intro that[of v c'']) simp_all
  qed
qed

section \<open>Setting the next interrupt\<close>

lemma compare_store:
  "mm_write (clint_io wait) (YDRASIL_CLINT_BASE + MTIMECMP_HI) v c =
     (pass 1 (clint_reach wait c))\<lparr>mtimecmp := two_words v (low_word (mtimecmp c))\<rparr>"
  "mm_write (clint_io wait) (YDRASIL_CLINT_BASE + MTIMECMP_LO) v c =
     (pass 1 (clint_reach wait c))\<lparr>mtimecmp := two_words (high_word (mtimecmp c)) v\<rparr>"
  by (simp_all add: clint_io_def clint_store_def clint_offsets Let_def)

lemma time_step:
  assumes "prompt W wait" and "time c + W + 1 < 18446744073709551616"
  shows "time c < time (pass 1 (clint_reach wait c))" and "time (pass 1 (clint_reach wait c)) \<le> time c + W + 1"
proof -
  have "time c + W < 18446744073709551616" using assms(2) by simp
  note r = time_reach[OF assms(1) this]
  have "time (pass 1 (clint_reach wait c)) = Suc (time (clint_reach wait c))" using r assms(2) by (subst time_pass) simp_all
  with r show "time c < time (pass 1 (clint_reach wait c))" "time (pass 1 (clint_reach wait c)) \<le> time c + W + 1" by simp_all
qed

text \<open>
  The three writes: the comparison value never passes through one that the counter has reached.
  The high word is all ones until the low word is in place.
\<close>

lemma mtimecmp_write_steps:
  assumes p: "prompt W wait" and t: "time c + 3 * (W + 1) < 18446744069414584320"
  obtains c1 c2 where
    "c1 = mm_write (clint_io wait) (YDRASIL_CLINT_BASE + MTIMECMP_HI) 0xFFFFFFFF c"
    "c2 = mm_write (clint_io wait) (YDRASIL_CLINT_BASE + MTIMECMP_LO) (low_word v) c1"
    "mtimecmp_write (clint_io wait) v c = mm_write (clint_io wait) (YDRASIL_CLINT_BASE + MTIMECMP_HI) (high_word v) c2"
    "\<forall>n \<le> W. \<not> timer_irq (pass n c1)" "\<forall>n \<le> W. \<not> timer_irq (pass n c2)"
    "mtimecmp (mtimecmp_write (clint_io wait) v c) = v"
    "time c < time (mtimecmp_write (clint_io wait) v c)"
    "time (mtimecmp_write (clint_io wait) v c) \<le> time c + 3 * (W + 1)"
    "msip (mtimecmp_write (clint_io wait) v c) = msip c"
proof -
  define c1 where "c1 = mm_write (clint_io wait) (YDRASIL_CLINT_BASE + MTIMECMP_HI) 0xFFFFFFFF c"
  define c2 where "c2 = mm_write (clint_io wait) (YDRASIL_CLINT_BASE + MTIMECMP_LO) (low_word v) c1"
  define c3 where "c3 = mm_write (clint_io wait) (YDRASIL_CLINT_BASE + MTIMECMP_HI) (high_word v) c2"
  have t1: "time c < time c1" "time c1 \<le> time c + W + 1"
    using time_step[OF p, of c] t by (simp_all add: c1_def compare_store)
  have t2: "time c1 < time c2" "time c2 \<le> time c1 + W + 1"
    using time_step[OF p, of c1] t t1 by (simp_all add: c2_def compare_store)
  have t3: "time c2 < time c3" "time c3 \<le> time c2 + W + 1"
    using time_step[OF p, of c2] t t1 t2 by (simp_all add: c3_def compare_store)
  have m: "high_word (mtimecmp c1) = 0xFFFFFFFF" "mtimecmp c2 = two_words 0xFFFFFFFF (low_word v)" "mtimecmp c3 = v"
    by (simp_all add: c1_def c2_def c3_def compare_store)
  have far: "18446744069414584320 \<le> unat x" if "high_word x = 0xFFFFFFFF" for x
    using arg_cong[OF that, of unat] unat_words(2)[of x] div_times_less_eq_dividend[of "unat x" 4294967296] by simp
  have "\<not> timer_irq (pass n d)" if "high_word (mtimecmp d) = 0xFFFFFFFF" "time d + n < 18446744069414584320" for n d
    using far[OF that(1)] that(2) by (simp add: timer_irq_def word_le_nat_alt time_pass)
  then have "\<forall>n \<le> W. \<not> timer_irq (pass n c1)" "\<forall>n \<le> W. \<not> timer_irq (pass n c2)" using m t t1 t2 by simp_all
  moreover have "mtimecmp_write (clint_io wait) v c = c3" by (simp add: mtimecmp_write_def Let_def c1_def c2_def c3_def)
  ultimately show thesis
    using m(3) t1 t2 t3 by (intro that[of c1 c2]) (simp_all add: c1_def c2_def c3_def compare_store)
qed

lemma mtime_program_next_sets:
  assumes p: "prompt W wait" "6 * (W + 1) \<le> 4294967296"
    and t: "time c + 9 * (W + 1) + unat tc < 18446744069414584320"
  obtains now c' where "mtime_program_next (Suc (Suc fuel)) (clint_io wait) tc c = Done c'" "time c \<le> now" "now < time c'"
    "time c' \<le> time c + 9 * (W + 1)" "unat (mtimecmp c') = now + unat tc"
proof -
  have "time c + 6 * (W + 1) < 18446744073709551616" using t by simp
  from mtime_read_in_time[OF p this, of fuel] obtain v c1 where
    r: "mtime_read (Suc (Suc fuel)) (clint_io wait) c = Done (v, c1)" "time c \<le> unat v" "unat v < time c1"
      "time c1 \<le> time c + 6 * (W + 1)" by blast
  have "time c1 + 3 * (W + 1) < 18446744069414584320" using t r(4) by simp
  from mtimecmp_write_steps[OF p(1) this, of "v + tc"] obtain c2 where
    w: "c2 = mtimecmp_write (clint_io wait) (v + tc) c1" "mtimecmp c2 = v + tc" "time c1 < time c2" "time c2 \<le> time c1 + 3 * (W + 1)"
    by metis
  have "unat (v + tc) = unat v + unat tc" using r t by (simp add: unat_word_ariths)
  with r w show thesis
    by (intro that[of c2 "unat v"]) (simp_all add: mtime_program_next_def del: mtime_read.simps)
qed

section \<open>Ticks in real time\<close>

text \<open>
  A run of timer interrupts: the counter runs on until the interrupt line is up, the processor takes
  the interrupt a number of cycles later, the handler runs. The handler's reading loop has fuel for
  two rounds, the check of the timers for all of them.
\<close>

definition until_irq :: "clint \<Rightarrow> nat" where
  "until_irq c = unat (mtimecmp c) - time c"

fun tick_run :: "(nat \<Rightarrow> kernel \<Rightarrow> kernel) \<Rightarrow> (nat \<Rightarrow> nat) \<Rightarrow> nat list \<Rightarrow> kernel \<times> clint \<Rightarrow> (kernel \<times> clint) exec" where
  "tick_run cb wait [] (k, c) = Done (k, c)"
| "tick_run cb wait (l # ls) (k, c) =
     exec_bind (mtime_isr 2 (Suc (length (timer_list k))) cb (clint_io wait) initial_tick_cycles (k, pass (until_irq c + l) c))
       (tick_run cb wait ls)"

lemma initial_tick_cycles_value: "unat initial_tick_cycles = 50000"
  by (simp add: initial_tick_cycles_def YDRASIL_TIMER_FREQ_HZ_def YDRASIL_APB_FREQ_HZ_def RT_TICK_PER_SECOND_def unsigned_ucast_eq)

lemma tick_run_ticks:
  assumes p: "prompt W wait" "9 * (W + 1) \<le> 50000" and "\<forall>l\<in>set ls. l \<le> L" and "ls \<noteq> []"
    and "time c \<le> unat (mtimecmp c)"
    and "unat (mtimecmp c) + length ls * (50000 + L + 9 * (W + 1)) < 18446744069414584320"
    and "ticks (length ls) cb k = Done k'"
  shows "\<exists>c'. tick_run cb wait ls (k, c) = Done (k', c') \<and> time c' \<le> unat (mtimecmp c') \<and>
    unat (mtimecmp c) + (length ls - 1) * 50000 \<le> time c' \<and>
    time c' \<le> unat (mtimecmp c) + (length ls - 1) * (50000 + L + 9 * (W + 1)) + (L + 9 * (W + 1))"
  using assms(3-)
proof (induction ls arbitrary: k c)
  case (Cons l ls)
  define B where "B = 50000 + L + 9 * (W + 1)"
  let ?D = "unat (mtimecmp c)"
  have l: "l \<le> L" "\<forall>l\<in>set ls. l \<le> L" using Cons.prems(1) by simp_all
  have room: "?D + B + length ls * B < 18446744069414584320" using Cons.prems(4) by (simp add: B_def algebra_simps)
  obtain k1 where k1: "rt_tick_increase (Suc (length (timer_list k))) cb k = Done k1" "ticks (length ls) cb k1 = Done k'"
    using Cons.prems(5) by (auto split: exec.splits)
  let ?c = "pass (until_irq c + l) c"
  have tc: "time ?c = ?D + l" using Cons.prems(3) room l(1) by (subst time_pass) (simp_all add: until_irq_def B_def)
  have "6 * (W + 1) \<le> 4294967296" using p(2) by simp
  moreover have "time ?c + 9 * (W + 1) + unat initial_tick_cycles < 18446744069414584320"
    using room l(1) by (simp add: tc B_def initial_tick_cycles_value)
  ultimately obtain now c1 where n: "mtime_program_next (Suc (Suc 0)) (clint_io wait) initial_tick_cycles ?c = Done c1"
    "time ?c \<le> now" "now < time c1" "time c1 \<le> time ?c + 9 * (W + 1)" "unat (mtimecmp c1) = now + 50000"
    using mtime_program_next_sets[OF p(1), of ?c initial_tick_cycles 0] unfolding initial_tick_cycles_value by blast
  have step: "tick_run cb wait (l # ls) (k, c) = tick_run cb wait ls (k1, c1)"
    using n(1) k1(1) by (simp add: mtime_isr_def numeral_2_eq_2)
  show ?case
  proof (cases ls)
    case Nil
    with k1 n tc l(1) p(2) step show ?thesis by (auto simp: B_def)
  next
    case (Cons l' ls')
    have up: "unat (mtimecmp c1) \<le> ?D + B" "?D + 50000 \<le> unat (mtimecmp c1)" using n tc l(1) by (simp_all add: B_def)
    have "time c1 \<le> unat (mtimecmp c1)" using n p(2) by simp
    moreover have "unat (mtimecmp c1) + length ls * (50000 + L + 9 * (W + 1)) < 18446744069414584320"
      using up(1) room by (simp add: B_def)
    ultimately obtain c' where c': "tick_run cb wait ls (k1, c1) = Done (k', c')" "time c' \<le> unat (mtimecmp c')"
      "unat (mtimecmp c1) + (length ls - 1) * 50000 \<le> time c'"
      "time c' \<le> unat (mtimecmp c1) + (length ls - 1) * B + (L + 9 * (W + 1))"
      using Cons.IH[OF l(2) _ _ _ k1(2)] Cons unfolding B_def by blast
    have "length ls = Suc (length ls - 1)" using Cons by simp
    then have "(length (l # ls) - 1) * 50000 = 50000 + (length ls - 1) * 50000" "(length (l # ls) - 1) * B = B + (length ls - 1) * B"
      by (metis diff_Suc_1 length_Cons mult_Suc)+
    with c' up step show ?thesis unfolding B_def[symmetric] by (intro exI[of _ c']) auto
  qed
qed simp

section \<open>Properties\<close>

text \<open>C34. From the clock to the sleeper. A thread waits with a timer that expires in \<open>n + 1\<close> ticks,
  the next timer interrupt is due at time \<open>D\<close>, every interrupt is taken at most \<open>L\<close> cycles late, and
  every access to the timer takes at most \<open>W\<close> cycles. Then after \<open>n + 1\<close> interrupts the thread is ready,
  no earlier than \<open>n\<close> periods of 50000 cycles after \<open>D\<close> and no later than what \<open>n\<close> periods and the delays
  of all the interrupts add up to; after fewer interrupts it is still suspended. All handlers
  return. (The next interrupt is set from the time the handler reads, so the delays do add up.)\<close>

theorem sleep_in_real_time:
  assumes "sys_inv k" and "current_thread k \<noteq> None"
    and "timers_ordered (tick k) (\<lambda>x. timeout_tick (timers k x)) (timer_list k)"
    and "ThreadTimer t \<in> set (timer_list k)"
    and "timeout_tick (timers k (ThreadTimer t)) - tick k = of_nat (Suc n)" and "Suc n < 0x7fffffff"
    and "prompt W wait" and "9 * (W + 1) \<le> 50000" and "\<forall>l\<in>set ls. l \<le> L" and "length ls = Suc n"
    and "time c \<le> unat (mtimecmp c)"
    and "unat (mtimecmp c) + Suc n * (50000 + L + 9 * (W + 1)) < 18446744069414584320"
  shows "(\<exists>k' c'. tick_run cb wait ls (k, c) = Done (k', c') \<and>
      stat_of (threads k' t) = RT_THREAD_READY \<and> error (threads k' t) = - RT_ETIMEOUT \<and>
      unat (mtimecmp c) + n * 50000 \<le> time c' \<and>
      time c' \<le> unat (mtimecmp c) + n * (50000 + L + 9 * (W + 1)) + (L + 9 * (W + 1))) \<and>
    (\<forall>j \<le> n. \<exists>k' c'. tick_run cb wait (take j ls) (k, c) = Done (k', c') \<and> stat_of (threads k' t) = RT_THREAD_SUSPEND)"
proof -
  have "unat (tick k - tick k) + Suc n < 0x7fffffff" using assms(6) by simp
  note sleep = ticks_sleep[OF assms(1-5) this, of cb]
  have susp: "stat_of (threads k' t) = RT_THREAD_SUSPEND" if "sys_inv k'" "ThreadTimer t \<in> set (timer_list k')" for k'
    using wait_invD(6)[OF kinvD(3)[OF sys_inv_parts(1)[OF that(1)]]] kinvD(2)[OF sys_inv_parts(1)[OF that(1)]] that(2)
    by (simp add: timer_inv_def)
  note run = tick_run_ticks[OF assms(7,8)]
  from sleep obtain k' where k': "ticks (Suc n) cb k = Done k'" "stat_of (threads k' t) = RT_THREAD_READY"
    "error (threads k' t) = - RT_ETIMEOUT" by blast
  have ne: "ls \<noteq> []" using assms(10) by auto
  from run[OF assms(9) ne assms(11), of cb k k'] assms(10,12) k'
  have ready: "\<exists>k' c'. tick_run cb wait ls (k, c) = Done (k', c') \<and>
      stat_of (threads k' t) = RT_THREAD_READY \<and> error (threads k' t) = - RT_ETIMEOUT \<and>
      unat (mtimecmp c) + n * 50000 \<le> time c' \<and>
      time c' \<le> unat (mtimecmp c) + n * (50000 + L + 9 * (W + 1)) + (L + 9 * (W + 1))"
    by (auto simp del: ticks.simps)
  have "\<exists>k' c'. tick_run cb wait (take j ls) (k, c) = Done (k', c') \<and> stat_of (threads k' t) = RT_THREAD_SUSPEND"
    if j: "j \<le> n" for j
  proof -
    from sleep j obtain k' where k': "ticks j cb k = Done k'" "ThreadTimer t \<in> set (timer_list k')" "sys_inv k'" by blast
    show ?thesis
    proof (cases j)
      case 0
      with k' susp show ?thesis by auto
    next
      case (Suc i)
      have "j * (50000 + L + 9 * (W + 1)) \<le> Suc n * (50000 + L + 9 * (W + 1))" using j by (intro mult_le_mono1) simp
      then have "unat (mtimecmp c) + length (take j ls) * (50000 + L + 9 * (W + 1)) < 18446744069414584320"
        using assms(10,12) j by (simp add: min_def)
      moreover have "\<forall>l\<in>set (take j ls). l \<le> L" using assms(9) by (auto dest: in_set_takeD)
      moreover have "take j ls \<noteq> []" "ticks (length (take j ls)) cb k = Done k'"
        using Suc assms(10) j k'(1) by (auto simp: min_def simp del: ticks.simps)
      ultimately show ?thesis using run[of "take j ls" L c cb k k'] assms(11) susp k' by blast
    qed
  qed
  with ready show ?thesis by blast
qed

definition early_clint :: clint where
  "early_clint = \<lparr>msip = False, mtime = 100, mtimecmp = 50000, accesses = 0\<rparr>"

theorem sleep_in_real_time_witness:
  "(\<exists>k' c'. tick_run (\<lambda>_ k. k) (\<lambda>i. i mod 5) [30, 0, 12] (sleeping, early_clint) = Done (k', c') \<and>
      stat_of (threads k' 1) = RT_THREAD_READY \<and> error (threads k' 1) = - RT_ETIMEOUT \<and>
      150000 \<le> time c' \<and> time c' \<le> 150225) \<and>
    (\<exists>k' c'. tick_run (\<lambda>_ k. k) (\<lambda>i. i mod 5) [30, 0] (sleeping, early_clint) = Done (k', c') \<and>
      stat_of (threads k' 1) = RT_THREAD_SUSPEND)"
proof -
  have "current_thread sleeping \<noteq> None" by (simp add: sleeping_eval)
  moreover have "timers_ordered (tick sleeping) (\<lambda>x. timeout_tick (timers sleeping x)) (timer_list sleeping)"
    using sleeping_eval by (simp add: timers_ordered_def half_range)
  moreover have "ThreadTimer 1 \<in> set (timer_list sleeping)" by (simp add: sleeping_eval)
  moreover have "timeout_tick (timers sleeping (ThreadTimer 1)) - tick sleeping = of_nat (Suc 2)"
    using sleeping_eval by simp
  moreover have "Suc 2 < 0x7fffffff" by simp
  moreover have "prompt 4 (\<lambda>i. i mod 5)" unfolding prompt_def by (simp add: less_Suc_eq_le[symmetric])
  moreover have "9 * (4 + 1) \<le> (50000 :: nat)" by simp
  moreover have "\<forall>l\<in>set [30, 0, 12]. l \<le> (30 :: nat)" "length [30 :: nat, 0, 12] = Suc 2" by simp_all
  moreover have "time early_clint \<le> unat (mtimecmp early_clint)" by (simp add: early_clint_def)
  moreover have "unat (mtimecmp early_clint) + Suc 2 * (50000 + 30 + 9 * (4 + 1)) < 18446744069414584320"
    by (simp add: early_clint_def)
  ultimately have w: "(\<exists>k' c'. tick_run (\<lambda>_ k. k) (\<lambda>i. i mod 5) [30, 0, 12] (sleeping, early_clint) = Done (k', c') \<and>
      stat_of (threads k' 1) = RT_THREAD_READY \<and> error (threads k' 1) = - RT_ETIMEOUT \<and>
      unat (mtimecmp early_clint) + 2 * 50000 \<le> time c' \<and>
      time c' \<le> unat (mtimecmp early_clint) + 2 * (50000 + 30 + 9 * (4 + 1)) + (30 + 9 * (4 + 1))) \<and>
    (\<forall>j \<le> 2. \<exists>k' c'. tick_run (\<lambda>_ k. k) (\<lambda>i. i mod 5) (take j [30, 0, 12]) (sleeping, early_clint) = Done (k', c') \<and>
      stat_of (threads k' 1) = RT_THREAD_SUSPEND)"
    by (rule sleep_in_real_time[OF sys_inv_sleeping])
  have v: "unat (mtimecmp early_clint) + 2 * 50000 = 150000"
    "unat (mtimecmp early_clint) + 2 * (50000 + 30 + 9 * (4 + 1)) + (30 + 9 * (4 + 1)) = 150225"
    by (simp_all add: early_clint_def)
  have tk: "take 2 [30, 0, 12] = [30, 0 :: nat]" by simp
  from w[THEN conjunct1] w[THEN conjunct2, rule_format, of 2] show ?thesis unfolding v tk by blast
qed

end
