(* ===== verification/Board.thy ===== *)
theory Board
  imports Device Plic Clint Shell Printf
begin

text \<open>
  The board: \<^verbatim>\<open>board.c\<close>, \<^verbatim>\<open>interrupt.c\<close>, the start and the receive interrupt of
  \<^verbatim>\<open>drv_uart.c\<close>, and the input of the shell, on the SoC. The UART is modelled at the level of its
  receive FIFO (\<^verbatim>\<open>ydrasil_apb_uart.sv\<close>): bytes arrive between interrupts, and what is transmitted
  leaves at once. The interrupt controller and the timer are those of \<open>Plic\<close> and \<open>Clint\<close>.
\<close>

section \<open>The UART\<close>

record apb_uart =
  rx_fifo :: "u8 list"
  sent :: "u8 list"
  divisor_q :: u16
  ier_q :: u8
  lcr_q :: u8
  mcr_q :: u8
  scr_q :: u8
  rx_trigger_q :: u8
  overrun_error :: bool
  parity_error :: bool
  framing_error :: bool

definition FIFO_DEPTH :: nat where [code_unfold]: "FIFO_DEPTH = 16"

abbreviation dlab :: "apb_uart \<Rightarrow> bool" where "dlab u \<equiv> bit (lcr_q u) 7"

definition rx_threshold :: "apb_uart \<Rightarrow> bool" where
  "rx_threshold u \<longleftrightarrow>
     (if rx_trigger_q u = 0 then length (rx_fifo u) \<ge> 1
      else if rx_trigger_q u = 1 then length (rx_fifo u) \<ge> 4
      else if rx_trigger_q u = 2 then length (rx_fifo u) \<ge> 8
      else length (rx_fifo u) \<ge> 14)"

definition line_status_irq :: "apb_uart \<Rightarrow> bool" where
  "line_status_irq u \<longleftrightarrow> bit (ier_q u) 2 \<and> (overrun_error u \<or> parity_error u \<or> framing_error u)"

definition rx_irq :: "apb_uart \<Rightarrow> bool" where
  "rx_irq u \<longleftrightarrow> bit (ier_q u) 0 \<and> rx_threshold u"

definition tx_irq :: "apb_uart \<Rightarrow> bool" where
  "tx_irq u \<longleftrightarrow> bit (ier_q u) 1"

definition uart_irq :: "apb_uart \<Rightarrow> bool" where
  "uart_irq u \<longleftrightarrow> line_status_irq u \<or> rx_irq u \<or> tx_irq u"

definition uart_lsr :: "apb_uart \<Rightarrow> u32" where
  "uart_lsr u = 0x60 OR (if framing_error u then 8 else 0) OR (if parity_error u then 4 else 0) OR
     (if overrun_error u then 2 else 0) OR (if rx_fifo u \<noteq> [] then 1 else 0)"

definition uart_iir :: "apb_uart \<Rightarrow> u32" where
  "uart_iir u = (if line_status_irq u then 0xC6 else if rx_irq u then 0xC4 else if tx_irq u then 0xC2 else 0xC1)"

definition uart_value :: "u32 \<Rightarrow> apb_uart \<Rightarrow> u32" where
  "uart_value i u =
     (if i = 0 then (if dlab u then ucast (divisor_q u) AND 0xff else case rx_fifo u of [] \<Rightarrow> 0 | x # _ \<Rightarrow> ucast x)
      else if i = 1 then (if dlab u then drop_bit 8 (ucast (divisor_q u)) else ucast (ier_q u))
      else if i = 2 then uart_iir u
      else if i = 3 then ucast (lcr_q u)
      else if i = 4 then ucast (mcr_q u)
      else if i = 5 then uart_lsr u
      else if i = 7 then ucast (scr_q u)
      else 0)"

definition uart_after_read :: "u32 \<Rightarrow> apb_uart \<Rightarrow> apb_uart" where
  "uart_after_read i u =
     (if i = 0 \<and> \<not> dlab u then u\<lparr>rx_fifo := tl (rx_fifo u)\<rparr>
      else if i = 5 then u\<lparr>overrun_error := False, parity_error := False, framing_error := False\<rparr>
      else u)"

definition uart_after_write :: "u32 \<Rightarrow> u32 \<Rightarrow> apb_uart \<Rightarrow> apb_uart" where
  "uart_after_write i v u =
     (if i = 0 then (if dlab u then u\<lparr>divisor_q := (divisor_q u AND 0xff00) OR (ucast v AND 0xff)\<rparr> else u\<lparr>sent := sent u @ [ucast v]\<rparr>)
      else if i = 1 then (if dlab u then u\<lparr>divisor_q := (divisor_q u AND 0xff) OR push_bit 8 (ucast v)\<rparr> else u\<lparr>ier_q := ucast v\<rparr>)
      else if i = 2 then u\<lparr>rx_trigger_q := ucast (take_bit 2 (drop_bit 6 v)), rx_fifo := (if bit v 1 then [] else rx_fifo u)\<rparr>
      else if i = 3 then u\<lparr>lcr_q := ucast v\<rparr>
      else if i = 4 then u\<lparr>mcr_q := ucast v\<rparr>
      else if i = 7 then u\<lparr>scr_q := ucast v\<rparr>
      else u)"

text \<open>A received byte, with the errors the receiver found.\<close>

definition uart_arrive :: "u8 \<times> bool \<times> bool \<Rightarrow> apb_uart \<Rightarrow> apb_uart" where
  "uart_arrive = (\<lambda>(x, parity, framing) u.
     let u = u\<lparr>parity_error := (if bit (lcr_q u) 3 then parity else parity_error u), framing_error := framing\<rparr> in
     if length (rx_fifo u) < FIFO_DEPTH then u\<lparr>rx_fifo := rx_fifo u @ [x]\<rparr> else u\<lparr>overrun_error := True\<rparr>)"

section \<open>The SoC\<close>

text \<open>Beside the UART the controller sees the request lines of the other peripherals.\<close>

record peripherals =
  uart0 :: apb_uart
  other_lines :: u8

definition plic_sources :: "peripherals \<Rightarrow> u8" where
  "plic_sources x = (other_lines x AND 0xfe) OR (if uart_irq (uart0 x) then 1 else 0)"

record soc =
  soc_plic :: "peripherals plic"
  soc_clint :: clint

text \<open>The cycle of an access to the UART; the controller looks at the lines before the access.\<close>

definition uart_cycle :: "(apb_uart \<Rightarrow> apb_uart) \<Rightarrow> peripherals plic \<Rightarrow> peripherals plic" where
  "uart_cycle f p =
     (let p = plic_cycle plic_sources (\<lambda>x. x) No_Access p
      in p\<lparr>outside := (outside p)\<lparr>uart0 := f (uart0 (outside p))\<rparr>\<rparr>)"

definition register_index :: "u32 \<Rightarrow> u32" where
  "register_index a = take_bit 3 (drop_bit 2 a)"

text \<open>How many cycles pass before an access is an argument, for the controller and for the timer.\<close>

definition soc_io :: "(peripherals \<Rightarrow> nat) \<Rightarrow> (nat \<Rightarrow> nat) \<Rightarrow> soc mmio" where
  "soc_io gap wait =
     \<lparr>mm_read = (\<lambda>a s.
        if drop_bit 16 a = drop_bit 16 YDRASIL_CLINT_BASE then
          (let (v, c) = mm_read (clint_io wait) a (soc_clint s) in (v, s\<lparr>soc_clint := c\<rparr>))
        else if drop_bit 16 a = drop_bit 16 YDRASIL_PLIC_BASE then
          (let (v, p) = mm_read (plic_io plic_sources (\<lambda>x. x) gap) a (soc_plic s) in (v, s\<lparr>soc_plic := p\<rparr>))
        else if drop_bit 12 a = drop_bit 12 YDRASIL_UART0_BASE then
          (let p = plic_reach plic_sources (\<lambda>x. x) gap (soc_plic s); i = register_index a
           in (uart_value i (uart0 (outside p)), s\<lparr>soc_plic := uart_cycle (uart_after_read i) p\<rparr>))
        else (0, s)),
      mm_write = (\<lambda>a v s.
        if drop_bit 16 a = drop_bit 16 YDRASIL_CLINT_BASE then s\<lparr>soc_clint := mm_write (clint_io wait) a v (soc_clint s)\<rparr>
        else if drop_bit 16 a = drop_bit 16 YDRASIL_PLIC_BASE then
          s\<lparr>soc_plic := mm_write (plic_io plic_sources (\<lambda>x. x) gap) a v (soc_plic s)\<rparr>
        else if drop_bit 12 a = drop_bit 12 YDRASIL_UART0_BASE then
          (let p = plic_reach plic_sources (\<lambda>x. x) gap (soc_plic s)
           in s\<lparr>soc_plic := uart_cycle (uart_after_write (register_index a) v) p\<rparr>)
        else s)\<rparr>"

section \<open>The software\<close>

text \<open>
  The handlers that the code installs. \<open>klog\<close> holds the formats and arguments given to
  \<open>rt_kprintf\<close>; \<open>rx_sem\<close> is the semaphore of the shell, \<open>shell_device\<close> its device.
\<close>

datatype isr = Unhandled_Irq | Mext_Isr | Mtime_Isr
datatype plic_handler = Uart0_Irq
datatype rx_callback = Finsh_Rx_Ind

record board =
  krn :: kernel
  uart :: uart_device
  devs :: "(uart_device \<times> soc, rx_callback) devices"
  console_device :: "string option"
  vectors :: "isr list"
  plic_table :: "plic_handler irq_entry list"
  mie :: u32
  tick_cycles :: u64
  klog :: "(string \<times> c_arg list) list"
  shell_device :: "string option"
  the_shell :: finsh_shell

definition YDRASIL_IRQ_VECTOR_COUNT :: nat where [code_unfold]: "YDRASIL_IRQ_VECTOR_COUNT = 32"
definition YDRASIL_MCAUSE_MEXT :: int where [code_unfold]: "YDRASIL_MCAUSE_MEXT = 11"
definition MCAUSE_MACHINE_TIMER :: int where [code_unfold]: "MCAUSE_MACHINE_TIMER = 7"
definition MCAUSE_INTERRUPT :: u32 where [code_unfold]: "MCAUSE_INTERRUPT = 0x80000000"
definition MIE_MEIE :: u32 where [code_unfold]: "MIE_MEIE = 0x800"
definition MIE_MTIE :: u32 where [code_unfold]: "MIE_MTIE = 0x80"

definition rt_hw_interrupt_init :: "board \<Rightarrow> board" where
  "rt_hw_interrupt_init b = b\<lparr>vectors := replicate YDRASIL_IRQ_VECTOR_COUNT Unhandled_Irq\<rparr>"

definition rt_hw_interrupt_install :: "int \<Rightarrow> isr option \<Rightarrow> board \<Rightarrow> isr option \<times> board" where
  "rt_hw_interrupt_install vector h b =
     (if vector \<ge> 0 \<and> vector < int YDRASIL_IRQ_VECTOR_COUNT then
        (Some (vectors b ! nat vector),
         case h of None \<Rightarrow> b | Some h \<Rightarrow> b\<lparr>vectors := (vectors b)[nat vector := h]\<rparr>)
      else (None, b))"

definition unhandled_irq :: "int \<Rightarrow> board \<Rightarrow> board" where
  "unhandled_irq vector b = b\<lparr>klog := klog b @ [(''unhandled interrupt %d'' @ [CHR 0x0a], [CInt (word_of_int vector)])]\<rparr>"

text \<open>\<open>finsh_rx_ind\<close> and the end of \<open>uart0_irq\<close>, which calls it.\<close>

definition finsh_rx_ind :: "nat \<Rightarrow> board \<Rightarrow> int \<times> board" where
  "finsh_rx_ind rx_sem b = (RT_EOK, b\<lparr>krn := snd (rt_sem_release rx_sem (krn b))\<rparr>)"

definition uart0_indicate :: "nat \<Rightarrow> u32 \<Rightarrow> board \<Rightarrow> board" where
  "uart0_indicate rx_sem received b =
     (if received \<noteq> 0 then
        (case devs b ''uart0'' of None \<Rightarrow> b
         | Some dev \<Rightarrow> (case rx_indicate dev of None \<Rightarrow> b | Some Finsh_Rx_Ind \<Rightarrow> snd (finsh_rx_ind rx_sem b)))
      else b)"

definition plic_call :: "nat \<Rightarrow> nat \<Rightarrow> 'd mmio \<Rightarrow> plic_handler \<Rightarrow> u32 \<Rightarrow> board \<times> 'd \<Rightarrow> (board \<times> 'd) exec" where
  "plic_call rx_sem fuel io h par = (\<lambda>(b, d). case h of Uart0_Irq \<Rightarrow>
     exec_bind (uart0_irq fuel io 0 (uart b) d) (\<lambda>(received, u, d).
       Done (uart0_indicate rx_sem received (b\<lparr>uart := u\<rparr>), d)))"

text \<open>An interrupt handler of the vector table. The callbacks of the timers do nothing here.\<close>

definition run_isr :: "nat \<Rightarrow> nat \<Rightarrow> 'd mmio \<Rightarrow> isr \<Rightarrow> int \<Rightarrow> board \<times> 'd \<Rightarrow> (board \<times> 'd) exec" where
  "run_isr rx_sem fuel io h vector = (\<lambda>(b, d). case h of
       Unhandled_Irq \<Rightarrow> Done (unhandled_irq vector b, d)
     | Mext_Isr \<Rightarrow> mext_isr io (plic_call rx_sem fuel io) (plic_table b) (b, d)
     | Mtime_Isr \<Rightarrow> exec_bind (mtime_isr fuel fuel (\<lambda>_ k. k) io (tick_cycles b) (krn b, d)) (\<lambda>(k, d). Done (b\<lparr>krn := k\<rparr>, d)))"

definition rt_rv32_system_irq_handler :: "nat \<Rightarrow> nat \<Rightarrow> 'd mmio \<Rightarrow> u32 \<Rightarrow> board \<times> 'd \<Rightarrow> (board \<times> 'd) exec" where
  "rt_rv32_system_irq_handler rx_sem fuel io mcause = (\<lambda>(b, d).
     let vector = mcause AND 0x1f in
     if mcause AND MCAUSE_INTERRUPT \<noteq> 0 \<and> unat vector < YDRASIL_IRQ_VECTOR_COUNT
     then run_isr rx_sem fuel io (vectors b ! unat vector) (uint vector) (b, d)
     else Done (b\<lparr>klog := klog b @ [(''unhandled exception 0x%08x'' @ [CHR 0x0a], [CInt mcause])]\<rparr>, d))"

text \<open>The output without a console device, for a text up to its null, and the end of a simulation.\<close>

fun rt_hw_console_output :: "nat \<Rightarrow> 'd mmio \<Rightarrow> u8 list \<Rightarrow> 'd \<Rightarrow> 'd exec" where
  "rt_hw_console_output fuel io [] d = Done d"
| "rt_hw_console_output fuel io (x # xs) d =
     exec_bind (if x = 0x0a then ydrasil_console_putc fuel io 0x0d d else Done d) (\<lambda>d.
       exec_bind (ydrasil_console_putc fuel io x d) (rt_hw_console_output fuel io xs))"

definition YDRASIL_SIM_END_REG :: u32 where [code_unfold]: "YDRASIL_SIM_END_REG = 0x80200040"

definition ydrasil_sim_end :: "'d mmio \<Rightarrow> 'd \<Rightarrow> 'd" where
  "ydrasil_sim_end io d = mm_write io YDRASIL_SIM_END_REG 1 d"

section \<open>The start\<close>

text \<open>A required step that fails never returns.\<close>

definition board_require :: "int \<Rightarrow> 'a \<Rightarrow> 'a exec" where
  "board_require result x = (if result = RT_EOK then Done x else Out_Of_Fuel)"

definition ydrasil_plic_init :: "nat \<Rightarrow> 'd mmio \<Rightarrow> board \<times> 'd \<Rightarrow> (int \<times> board \<times> 'd) exec" where
  "ydrasil_plic_init fuel io = (\<lambda>(b, d).
     exec_bind (plic_reset fuel io d) (\<lambda>(table, d).
       let b = b\<lparr>plic_table := table\<rparr>; b = snd (rt_hw_interrupt_install YDRASIL_MCAUSE_MEXT (Some Mext_Isr) b)
       in Done (RT_EOK, b\<lparr>mie := mie b OR MIE_MEIE\<rparr>, d)))"

definition zero_uart :: uart_device where
  "zero_uart = \<lparr>rx_buffer = replicate UART_RX_BUFFER_SIZE 0, rx_head = 0, rx_tail = 0\<rparr>"

text \<open>Calls on the devices of the board.\<close>

definition with_devs ::
    "((uart_device \<times> soc, rx_callback) devices \<times> uart_device \<times> soc \<Rightarrow> (uart_device \<times> soc, rx_callback) devices \<times> uart_device \<times> soc) \<Rightarrow>
     board \<times> soc \<Rightarrow> board \<times> soc" where
  "with_devs f = (\<lambda>(b, d). let (ds, u, d) = f (devs b, uart b, d) in (b\<lparr>devs := ds, uart := u\<rparr>, d))"

definition ydrasil_uart0_init :: "nat \<Rightarrow> soc mmio \<Rightarrow> board \<times> soc \<Rightarrow> int \<times> board \<times> soc" where
  "ydrasil_uart0_init fuel io = (\<lambda>(b, d).
     let b = b\<lparr>uart := zero_uart\<rparr>;
         (result, ds) = rt_device_register (uart0_device fuel io) ''uart0'' uart0_flags (devs b)
     in if result \<noteq> RT_EOK then (result, b, d)
        else
          (let b = b\<lparr>devs := ds\<rparr>; dev = the (devs b ''uart0''); (result, dev, u, d) = rt_device_init (dev, uart b, d);
               b = b\<lparr>devs := (devs b)(''uart0'' \<mapsto> dev), uart := u\<rparr>
           in if result \<noteq> RT_EOK then (result, b, d)
              else (let (result, table, d) = ydrasil_plic_register io YDRASIL_IRQ_UART0 (Some Uart0_Irq) 0 (plic_table b, d)
                    in (result, b\<lparr>plic_table := table\<rparr>, d))))"

definition set_console :: "string \<Rightarrow> board \<times> soc \<Rightarrow> board \<times> soc" where
  "set_console nm = (\<lambda>(b, d).
     let (_, console, ds, u, d) = rt_console_set_device nm (console_device b, devs b, uart b, d)
     in (b\<lparr>console_device := console, devs := ds, uart := u\<rparr>, d))"

definition ydrasil_tick_init :: "nat \<Rightarrow> 'd mmio \<Rightarrow> board \<times> 'd \<Rightarrow> (board \<times> 'd) exec" where
  "ydrasil_tick_init fuel io = (\<lambda>(b, d).
     let b = b\<lparr>tick_cycles := initial_tick_cycles\<rparr>; b = snd (rt_hw_interrupt_install MCAUSE_MACHINE_TIMER (Some Mtime_Isr) b)
     in exec_bind (mtime_program_next fuel io (tick_cycles b) d) (\<lambda>d. Done (b\<lparr>mie := mie b OR MIE_MTIE\<rparr>, d)))"

text \<open>
  Without the heap, which is another part of the memory, and without \<open>rt_components_board_init\<close>, which is
  called last: it runs the entries of the table between \<open>rti_board_start\<close> and \<open>rti_board_end\<close>. No
  file of the build adds one with \<open>INIT_BOARD_EXPORT\<close>, so it runs \<open>rti_board_start\<close>, which returns 0.
\<close>

definition rt_hw_board_init :: "nat \<Rightarrow> soc mmio \<Rightarrow> board \<times> soc \<Rightarrow> (board \<times> soc) exec" where
  "rt_hw_board_init fuel io = (\<lambda>(b, d).
     let b = rt_hw_interrupt_init b in
     exec_bind (ydrasil_plic_init fuel io (b, d)) (\<lambda>(result, s).
     exec_bind (board_require result s) (\<lambda>s.
     let (result, s) = ydrasil_uart0_init fuel io s in
     exec_bind (board_require result s) (\<lambda>s.
     let s = set_console ''uart0'' s in
     exec_bind (board_require (if console_device (fst s) \<noteq> None then RT_EOK else - RT_ERROR) s) (\<lambda>s.
     ydrasil_tick_init fuel io s)))))"

section \<open>The input of the shell\<close>

definition finsh_set_device :: "string \<Rightarrow> board \<times> soc \<Rightarrow> board \<times> soc" where
  "finsh_set_device device_name = (\<lambda>(b, d).
     case rt_device_find device_name (devs b) of
       None \<Rightarrow> (b\<lparr>klog := klog b @ [(''finsh: can not find device: %s'' @ [CHR 0x0a], [CStr (Some device_name)])]\<rparr>, d)
     | Some new \<Rightarrow>
         if shell_device b = Some new then (b, d)
         else
           (let (result, dev, u, d) = rt_device_open (RT_DEVICE_OFLAG_RDWR OR RT_DEVICE_FLAG_INT_RX OR RT_DEVICE_FLAG_STREAM)
                  (the (devs b new), uart b, d);
                b = b\<lparr>devs := (devs b)(new \<mapsto> dev), uart := u\<rparr>
            in if result \<noteq> RT_EOK then (b, d)
               else
                 (let (b, d) = (case shell_device b of
                          None \<Rightarrow> (b, d)
                        | Some old \<Rightarrow> with_devs (\<lambda>s. let (ds, u, d) = on_device rt_device_close old s
                            in (ds(old := map_option (\<lambda>dev. snd (rt_device_set_rx_indicate None dev)) (ds old)), u, d)) (b, d));
                      sh = (the_shell b)\<lparr>line := replicate FINSH_CMD_SIZE NUL, line_curpos := 0, line_position := 0\<rparr>;
                      ds = (devs b)(new := map_option (\<lambda>dev. snd (rt_device_set_rx_indicate (Some Finsh_Rx_Ind) dev)) (devs b new))
                  in (b\<lparr>the_shell := sh, shell_device := Some new, devs := ds\<rparr>, d))))"

text \<open>\<open>finsh_getchar\<close> by its steps: the read, the take of the semaphore, and what follows a wait.\<close>

datatype shell_pc = Reading | Taking | Waiting

definition finsh_read :: "nat \<Rightarrow> soc mmio \<Rightarrow> board \<times> soc \<Rightarrow> (u8 option \<times> board \<times> soc) exec" where
  "finsh_read fuel io = (\<lambda>(b, d). case shell_device b of
       None \<Rightarrow> exec_bind (rt_hw_console_getchar fuel io d) (\<lambda>(x, d). Done (Some x, b, d))
     | Some nm \<Rightarrow>
         exec_bind (rt_device_read 1 (the (devs b nm), uart b, d)) (\<lambda>(r, u, d).
           Done (case r of Inr [x] \<Rightarrow> Some x | _ \<Rightarrow> None, b\<lparr>uart := u\<rparr>, d)))"

definition finsh_getchar_step :: "nat \<Rightarrow> nat \<Rightarrow> soc mmio \<Rightarrow> shell_pc \<times> board \<times> soc \<Rightarrow> (u8 option \<times> shell_pc \<times> board \<times> soc) exec" where
  "finsh_getchar_step rx_sem fuel io = (\<lambda>(pc, b, d). case pc of
       Reading \<Rightarrow> exec_bind (finsh_read fuel io (b, d)) (\<lambda>(r, b, d). Done (r, if r = None then Taking else Reading, b, d))
     | Taking \<Rightarrow>
         (let (r, k) = rt_sem_take rx_sem RT_WAITING_FOREVER (krn b)
          in Done (None, if r = Blocked then Waiting else Reading, b\<lparr>krn := k\<rparr>, d))
     | Waiting \<Rightarrow> Done (None, Reading, b, d))"

end
