(* ===== verification/Board_Console.thy ===== *)
theory Board_Console
  imports Board
begin

text \<open>
  The input of the console on the board: the receive interrupt from the trap to the ring, and the
  shell that reads the ring and waits for a semaphore when it is empty. The last part is the
  transition system of the two with the rest of the kernel.
\<close>

section \<open>Accesses to the UART\<close>

abbreviation uart_of :: "soc \<Rightarrow> apb_uart" where "uart_of s \<equiv> uart0 (outside (soc_plic s))"

text \<open>
  Nothing is forced, and what the controller holds of the other sources, it has seen all of. A source
  may be up that is not enabled.
\<close>

definition others_seen :: "peripherals plic \<Rightarrow> bool" where
  "others_seen p \<longleftrightarrow> force p = 0 \<and> (\<forall>j. j \<noteq> 0 \<longrightarrow> bit (other_lines (outside p)) j \<longrightarrow> bit (pending p) j)"

definition uart_step :: "(apb_uart \<Rightarrow> apb_uart) \<Rightarrow> peripherals plic \<Rightarrow> peripherals plic \<Rightarrow> bool" where
  "uart_step f p p' \<longleftrightarrow> others_seen p' \<and> uart0 (outside p') = f (uart0 (outside p)) \<and>
     other_lines (outside p') = other_lines (outside p) \<and> enable p' = enable p \<and>
     (\<forall>j. j \<noteq> 0 \<longrightarrow> bit (pending p') j = bit (pending p) j)"

lemma sources_bits: "bit (plic_sources x) j \<longleftrightarrow> (if j = 0 then uart_irq (uart0 x) else bit (other_lines x) j)"
proof -
  have "bit (0xfe :: u8) j \<longleftrightarrow> j \<noteq> 0 \<and> j < 8"
  proof (cases "j < 8")
    case True
    then have "j = 0 \<or> j = 1 \<or> j = 2 \<or> j = 3 \<or> j = 4 \<or> j = 5 \<or> j = 6 \<or> j = 7" by linarith
    then show ?thesis by (elim disjE) simp_all
  qed (auto dest: bit_imp_le_length)
  moreover have "bit (other_lines x) j \<Longrightarrow> j < 8" using bit_imp_le_length[of "other_lines x" j] by simp
  ultimately show ?thesis by (auto simp: plic_sources_def bit_simps)
qed

lemma quiet_cycle_step:
  assumes "others_seen p"
  shows "uart_step (\<lambda>u. u) p (plic_cycle plic_sources (\<lambda>x. x) No_Access p)"
  using assms by (auto simp: others_seen_def uart_step_def plic_cycle_def cleared_at_def Let_def bit_simps sources_bits)

lemma uart_step_trans: "uart_step f p p' \<Longrightarrow> uart_step g p' p'' \<Longrightarrow> uart_step (\<lambda>u. g (f u)) p p''"
  by (simp add: uart_step_def)

lemma uart_step_seen: "uart_step f p p' \<Longrightarrow> others_seen p'"
  by (simp add: uart_step_def)

lemma reach_step:
  assumes "others_seen p"
  shows "uart_step (\<lambda>u. u) p (plic_reach plic_sources (\<lambda>x. x) gap p)"
proof -
  have "uart_step (\<lambda>u. u) p ((plic_cycle plic_sources (\<lambda>x. x) No_Access ^^ n) p)" for n
  proof (induction n)
    case 0
    show ?case using assms by (simp add: uart_step_def)
  next
    case (Suc n)
    from uart_step_trans[OF Suc quiet_cycle_step[OF uart_step_seen[OF Suc]]] show ?case by simp
  qed
  then show ?thesis by (simp add: plic_reach_def)
qed

lemma uart_cycle_step:
  assumes "others_seen p"
  shows "uart_step f p (uart_cycle f (plic_reach plic_sources (\<lambda>x. x) gap p))"
proof -
  note r = reach_step[OF assms, of gap]
  from uart_step_trans[OF r quiet_cycle_step[OF uart_step_seen[OF r]]] show ?thesis
    by (simp add: uart_cycle_def Let_def uart_step_def others_seen_def)
qed

lemma uart_addresses:
  "drop_bit 16 (YDRASIL_UART0_BASE + r) \<noteq> drop_bit 16 YDRASIL_CLINT_BASE"
  "drop_bit 16 (YDRASIL_UART0_BASE + r) \<noteq> drop_bit 16 YDRASIL_PLIC_BASE"
  "drop_bit 12 (YDRASIL_UART0_BASE + r) = drop_bit 12 YDRASIL_UART0_BASE"
  if "r \<in> {rbr_thr_dll, ier_dlm, iir_fcr, lcr, lsr}"
  using that by (auto simp: uart_regs ydrasil_bases drop_bit_eq_div)

lemma register_indexes:
  "register_index (YDRASIL_UART0_BASE + rbr_thr_dll) = 0" "register_index (YDRASIL_UART0_BASE + ier_dlm) = 1"
  "register_index (YDRASIL_UART0_BASE + iir_fcr) = 2" "register_index (YDRASIL_UART0_BASE + lcr) = 3"
  "register_index (YDRASIL_UART0_BASE + lsr) = 5"
  by (simp_all add: register_index_def uart_regs ydrasil_bases drop_bit_eq_div take_bit_eq_mod)

lemma soc_uart_read:
  assumes "others_seen (soc_plic s)" and r: "r \<in> {rbr_thr_dll, ier_dlm, iir_fcr, lcr, lsr}"
  obtains s' where "mm_read (soc_io gap wait) (YDRASIL_UART0_BASE + r) s = (uart_value (register_index (YDRASIL_UART0_BASE + r)) (uart_of s), s')"
    "uart_step (uart_after_read (register_index (YDRASIL_UART0_BASE + r))) (soc_plic s) (soc_plic s')" "soc_clint s' = soc_clint s"
proof -
  have "uart0 (outside (plic_reach plic_sources (\<lambda>x. x) gap (soc_plic s))) = uart_of s"
    using reach_step[OF assms(1), of gap] by (simp add: uart_step_def)
  then show thesis
    using uart_cycle_step[OF assms(1), of _ gap]
    by (intro that[of "s\<lparr>soc_plic := uart_cycle (uart_after_read (register_index (YDRASIL_UART0_BASE + r)))
          (plic_reach plic_sources (\<lambda>x. x) gap (soc_plic s))\<rparr>"])
      (simp_all add: soc_io_def Let_def uart_addresses[OF r])
qed

lemma soc_uart_write:
  assumes "others_seen (soc_plic s)" and r: "r \<in> {rbr_thr_dll, ier_dlm, iir_fcr, lcr, lsr}"
  shows "uart_step (uart_after_write (register_index (YDRASIL_UART0_BASE + r)) v) (soc_plic s)
      (soc_plic (mm_write (soc_io gap wait) (YDRASIL_UART0_BASE + r) v s))"
    and "soc_clint (mm_write (soc_io gap wait) (YDRASIL_UART0_BASE + r) v s) = soc_clint s"
  using uart_cycle_step[OF assms(1), of _ gap] by (simp_all add: soc_io_def Let_def uart_addresses[OF r])

section \<open>The receive interrupt\<close>

lemma uart_ready_bit: "uart_lsr u AND UART_LSR_DATA_READY = 0 \<longleftrightarrow> rx_fifo u = []"
  by (auto simp: uart_lsr_def UART_LSR_DATA_READY_def word_ao_dist)

lemma byte_there_and_back: "ucast (ucast x :: u32) = (x :: u8)"
  by (rule bit_word_eqI) (simp add: bit_simps)

text \<open>What a ring takes of the bytes that come.\<close>

definition ring_takes :: "uart_device \<Rightarrow> u8 list \<Rightarrow> u8 list" where
  "ring_takes u xs = take (127 - uart_count u) xs"

text \<open>The handler empties the FIFO into the ring, as far as that goes, and lowers the line.\<close>

definition drained :: "apb_uart \<Rightarrow> apb_uart" where
  "drained u = u\<lparr>rx_fifo := [], overrun_error := False, parity_error := False, framing_error := False\<rparr>"

lemma uart0_irq_drains:
  assumes "others_seen (soc_plic s)" and "uart_inv u" and "\<not> dlab (uart_of s)" and "length (rx_fifo (uart_of s)) < fuel"
    and "unat r + length (rx_fifo (uart_of s)) < 2 ^ 32"
  shows "\<exists>u' s'. uart0_irq fuel (soc_io gap wait) r u s = Done (r + of_nat (length (ring_takes u (rx_fifo (uart_of s)))), u', s') \<and>
    uart_inv u' \<and> uart_contents u' = uart_contents u @ ring_takes u (rx_fifo (uart_of s)) \<and>
    uart_step drained (soc_plic s) (soc_plic s') \<and> soc_clint s' = soc_clint s"
  using assms
proof (induction fuel arbitrary: s u r)
  case (Suc fuel)
  let ?U = "uart_of s"
  obtain s1 where s1: "mm_read (soc_io gap wait) (YDRASIL_UART0_BASE + lsr) s = (uart_lsr ?U, s1)"
    "uart_step (uart_after_read 5) (soc_plic s) (soc_plic s1)" "soc_clint s1 = soc_clint s"
    using soc_uart_read[OF Suc.prems(1), of lsr gap wait] unfolding register_indexes by (auto simp: uart_value_def)
  have U1: "uart_of s1 = ?U\<lparr>overrun_error := False, parity_error := False, framing_error := False\<rparr>"
    using s1(2) by (simp add: uart_step_def uart_after_read_def)
  show ?case
  proof (cases "rx_fifo ?U")
    case Nil
    then have "uart_step drained (soc_plic s) (soc_plic s1)"
      using s1(2) by (simp add: uart_step_def uart_after_read_def drained_def)
    moreover have "uart0_irq (Suc fuel) (soc_io gap wait) r u s = Done (r, u, s1)"
      using Nil s1(1) by (simp add: uart_ready_bit)
    ultimately show ?thesis using Nil Suc.prems(2) s1(3) by (simp add: ring_takes_def)
  next
    case (Cons x xs)
    obtain s2 where s2: "mm_read (soc_io gap wait) (YDRASIL_UART0_BASE + rbr_thr_dll) s1 = (ucast x, s2)"
      "uart_step (uart_after_read 0) (soc_plic s1) (soc_plic s2)" "soc_clint s2 = soc_clint s1"
      using soc_uart_read[OF uart_step_seen[OF s1(2)], of rbr_thr_dll gap wait] Cons Suc.prems(3)
      unfolding register_indexes by (auto simp: uart_value_def U1)
    have U2: "uart_of s2 = (uart_of s1)\<lparr>rx_fifo := xs\<rparr>"
      using s2(2) Cons Suc.prems(3) by (simp add: uart_step_def uart_after_read_def U1)
    obtain stored u1 where u1: "uart_receive x u = Done (stored, u1)" "uart_inv u1"
      "uart_contents u1 = uart_contents u @ (if stored then [x] else [])" "stored \<longleftrightarrow> uart_count u < 127"
      using receive_ok[OF Suc.prems(2), of Testing x] by (auto simp: reader_ok_def)
    let ?r = "if stored then r + 1 else r"
    have "uart0_irq (Suc fuel) (soc_io gap wait) r u s = uart0_irq fuel (soc_io gap wait) ?r u1 s2"
      using s1(1) s2(1) u1(1) Cons by (simp add: uart_ready_bit byte_there_and_back)
    moreover have "unat ?r + length (rx_fifo (uart_of s2)) < 2 ^ 32"
      using Suc.prems(5) Cons by (auto simp: U2 unat_word_ariths)
    ultimately obtain u' s' where r: "uart0_irq (Suc fuel) (soc_io gap wait) r u s =
        Done (?r + of_nat (length (ring_takes u1 xs)), u', s')"
      "uart_inv u'" "uart_contents u' = uart_contents u1 @ ring_takes u1 xs" "uart_step drained (soc_plic s2) (soc_plic s')"
      "soc_clint s' = soc_clint s2"
      using Suc.IH[OF uart_step_seen[OF s2(2)] u1(2), of ?r] Suc.prems(3,4) Cons by (auto simp: U1 U2)
    have count: "uart_count u1 = uart_count u + (if stored then 1 else 0)"
      using arg_cong[OF u1(3), of length] by (simp add: uart_contents_def split: if_splits)
    have "ring_takes u (x # xs) = (if stored then [x] else []) @ ring_takes u1 xs"
      using u1(4) uart_count_facts(1)[OF Suc.prems(2)] unfolding ring_takes_def count
      by (auto simp: Suc_diff_Suc[symmetric] take_Cons' intro!: arg_cong[of _ _ "\<lambda>n. take n xs"])
    moreover have "uart_step drained (soc_plic s) (soc_plic s')"
      using uart_step_trans[OF uart_step_trans[OF s1(2) s2(2)] r(4)] s1(2) s2(2) Suc.prems(3)
      by (simp add: uart_step_def uart_after_read_def drained_def)
    ultimately show ?thesis
      using r u1(3) s1(3) s2(3) Cons by (auto simp: algebra_simps)
  qed
qed simp


section \<open>From the trap to the ring\<close>

lemma drained_empty [simp]: "rx_fifo (drained u) = []"
  by (simp add: drained_def)

text \<open>What the controller does to itself leaves the peripherals alone.\<close>

lemma plic_io_outside:
  "outside (snd (mm_read (plic_io lines (\<lambda>x. x) gap) a p)) = outside p"
  "outside (mm_write (plic_io lines (\<lambda>x. x) gap) a v p) = outside p"
proof -
  have "outside ((plic_cycle lines (\<lambda>x. x) No_Access ^^ n) p) = outside p" for n
    by (induction n) (simp_all add: plic_cycle_def Let_def)
  then show "outside (snd (mm_read (plic_io lines (\<lambda>x. x) gap) a p)) = outside p"
    "outside (mm_write (plic_io lines (\<lambda>x. x) gap) a v p) = outside p"
    by (simp_all add: plic_io_def Let_def plic_cycle_def plic_reach_def)
qed

lemma plic_claim:
  assumes "settled plic_sources p"
  obtains p' where "mm_read (plic_io plic_sources (\<lambda>x. x) gap) (YDRASIL_PLIC_BASE + 0x08) p = (claim_id p, p')"
    "pending p' = (if claim_id p = 0 then pending p else unset_bit (unat (claim_id p) - 1) (pending p))"
    "enable p' = enable p" "force p' = 0" "outside p' = outside p"
  using claim_read[of plic_sources "\<lambda>x. x", OF refl assms, of gap] plic_io_outside(1) by (metis snd_conv)

lemma plic_complete:
  assumes "settled plic_sources p" and "i < 8"
  obtains p' where "mm_write (plic_io plic_sources (\<lambda>x. x) gap) (YDRASIL_PLIC_BASE + 0x08) (of_nat (Suc i)) p = p'"
    "pending p' = unset_bit i (pending p)" "enable p' = enable p" "force p' = 0" "outside p' = outside p"
  using claim_write[of plic_sources "\<lambda>x. x", OF refl assms, of gap] plic_io_outside(2) by metis

lemma plic_addresses:
  "drop_bit 16 (YDRASIL_PLIC_BASE + r) \<noteq> drop_bit 16 YDRASIL_CLINT_BASE"
  "drop_bit 16 (YDRASIL_PLIC_BASE + r) = drop_bit 16 YDRASIL_PLIC_BASE" if "r \<in> {0x00, 0x04, 0x08, 0x0c}"
  using that by (auto simp: ydrasil_bases drop_bit_eq_div)

lemma soc_plic_access:
  assumes "r \<in> {0x00, 0x04, 0x08, 0x0c}"
  shows "mm_read (soc_io gap wait) (YDRASIL_PLIC_BASE + r) s =
      (let (v, p) = mm_read (plic_io plic_sources (\<lambda>x. x) gap) (YDRASIL_PLIC_BASE + r) (soc_plic s) in (v, s\<lparr>soc_plic := p\<rparr>))"
    and "mm_write (soc_io gap wait) (YDRASIL_PLIC_BASE + r) v s =
      s\<lparr>soc_plic := mm_write (plic_io plic_sources (\<lambda>x. x) gap) (YDRASIL_PLIC_BASE + r) v (soc_plic s)\<rparr>"
  using plic_addresses[OF assms] by (simp_all add: soc_io_def)

text \<open>The UART as \<open>uart_hw_configure\<close> sets it up, with its interrupt on.\<close>

definition listening :: "apb_uart \<Rightarrow> bool" where
  "listening u \<longleftrightarrow> ier_q u = 1 \<and> lcr_q u = 3 \<and> rx_trigger_q u = 0"

lemma listening_facts: "listening u \<Longrightarrow> \<not> dlab u" "listening u \<Longrightarrow> uart_irq u \<longleftrightarrow> rx_fifo u \<noteq> []"
  "listening (drained u) = listening u"
  by (auto simp: listening_def uart_irq_def line_status_irq_def rx_irq_def rx_threshold_def tx_irq_def drained_def Suc_le_eq)

lemma settled_seen: "settled plic_sources p \<longleftrightarrow> others_seen p \<and> (uart_irq (uart0 (outside p)) \<longrightarrow> bit (pending p) 0)"
  by (auto simp: settled_bits others_seen_def sources_bits)

text \<open>The controller of a SoC with the UART as its only enabled source, its requests all taken in.\<close>

definition uart_only :: "peripherals plic \<Rightarrow> bool" where
  "uart_only p \<longleftrightarrow> enable p = 1 \<and> settled plic_sources p \<and> listening (uart0 (outside p))"

lemma uart_only_asking: "enable p = 1 \<Longrightarrow> asking p = (if bit (pending p) 0 then [0] else [])"
  by (auto simp: asking_def bit_simps upt_rec)

text \<open>The tables, as the start leaves them.\<close>

definition wired :: "board \<Rightarrow> bool" where
  "wired b \<longleftrightarrow> vectors b ! 11 = Mext_Isr \<and> handler (plic_table b ! 0) = Some Uart0_Irq \<and> uart_inv (uart b)"

lemma mext_serves_uart:
  assumes w: "wired b" and p: "uart_only (soc_plic s)" and some: "rx_fifo (uart_of s) \<noteq> []"
    and fuel: "length (rx_fifo (uart_of s)) < fuel" and small: "length (rx_fifo (uart_of s)) < 2 ^ 32"
  shows "\<exists>u' s'. rt_rv32_system_irq_handler rx_sem fuel (soc_io gap wait) 0x8000000B (b, s) =
      Done (uart0_indicate rx_sem (of_nat (length (ring_takes (uart b) (rx_fifo (uart_of s))))) (b\<lparr>uart := u'\<rparr>), s') \<and>
    uart_inv u' \<and> uart_contents u' = uart_contents (uart b) @ ring_takes (uart b) (rx_fifo (uart_of s)) \<and>
    uart_only (soc_plic s') \<and> \<not> plic_irq (soc_plic s') \<and> uart_of s' = drained (uart_of s) \<and> soc_clint s' = soc_clint s"
proof -
  let ?p = "soc_plic s" and ?io = "soc_io gap wait" and ?pio = "plic_io plic_sources (\<lambda>x. x) gap" and ?C = "YDRASIL_PLIC_BASE + 0x08"
  have set0: "settled plic_sources ?p" "enable ?p = 1" "listening (uart_of s)" using p by (simp_all add: uart_only_def)
  have ask: "asking ?p = [0]"
    using set0 some by (simp add: uart_only_asking settled_seen listening_facts(2))
  have c1: "claim_id ?p = 1" by (simp add: claim_id_def ask)
  obtain p1 where p1: "mm_read ?pio ?C ?p = (1, p1)" "pending p1 = unset_bit 0 (pending ?p)" "enable p1 = 1" "force p1 = 0"
    "outside p1 = outside ?p"
    using plic_claim[OF set0(1), of gap thesis] set0(2) unfolding c1 by simp
  define s1 where "s1 = s\<lparr>soc_plic := p1\<rparr>"
  have U1: "uart_of s1 = uart_of s" by (simp add: s1_def p1(5))
  have seen1: "others_seen (soc_plic s1)"
    using set0(1) p1 by (auto simp: s1_def others_seen_def settled_seen bit_simps)
  have r1: "mm_read ?io ?C s = (1, s1)" by (simp add: soc_plic_access p1(1) s1_def)
  obtain u' s2 where irq: "uart0_irq fuel ?io 0 (uart b) s1 = Done (of_nat (length (ring_takes (uart b) (rx_fifo (uart_of s)))), u', s2)"
    "uart_inv u'" "uart_contents u' = uart_contents (uart b) @ ring_takes (uart b) (rx_fifo (uart_of s))"
    "uart_step drained (soc_plic s1) (soc_plic s2)" "soc_clint s2 = soc_clint s1"
    using uart0_irq_drains[OF seen1, of "uart b" fuel 0 gap wait] w fuel small set0(3) listening_facts(1)
    unfolding U1 by (auto simp: wired_def)
  have U2: "uart_of s2 = drained (uart_of s)" "enable (soc_plic s2) = 1"
    using irq(4) U1 p1(3) by (simp_all add: uart_step_def s1_def)
  have "listening (uart_of s2)" using set0(3) by (simp add: U2 listening_facts(3))
  from listening_facts(2)[OF this] have down: "\<not> uart_irq (uart_of s2)" by (simp add: U2)
  have set2: "settled plic_sources (soc_plic s2)" using uart_step_seen[OF irq(4)] down by (simp add: settled_seen)
  obtain p3 where p3: "mm_write ?pio ?C (of_nat (Suc 0)) (soc_plic s2) = p3" "pending p3 = unset_bit 0 (pending (soc_plic s2))"
    "enable p3 = 1" "force p3 = 0" "outside p3 = outside (soc_plic s2)"
    using plic_complete[OF set2, of 0 gap thesis] U2(2) by simp
  define s3 where "s3 = s2\<lparr>soc_plic := p3\<rparr>"
  have w3: "mm_write ?io ?C 1 s2 = s3" using p3(1) by (simp add: soc_plic_access s3_def)
  have set3: "settled plic_sources p3"
    using set2 p3 down by (auto simp: settled_seen others_seen_def bit_simps)
  have ask3: "asking p3 = []" using p3 by (simp add: uart_only_asking bit_simps)
  have c3: "claim_id p3 = 0" by (simp add: claim_id_def ask3)
  obtain p4 where p4: "mm_read ?pio ?C p3 = (0, p4)" "pending p4 = pending p3" "enable p4 = 1" "force p4 = 0" "outside p4 = outside p3"
    using plic_claim[OF set3, of gap thesis] p3(3) unfolding c3 by simp
  have r4: "mm_read ?io ?C s3 = (0, s3\<lparr>soc_plic := p4\<rparr>)" using p4(1) by (simp add: soc_plic_access s3_def)
  let ?b = "uart0_indicate rx_sem (of_nat (length (ring_takes (uart b) (rx_fifo (uart_of s))))) (b\<lparr>uart := u'\<rparr>)"
  have loop: "mext_isr ?io (plic_call rx_sem fuel ?io) (plic_table b) (b, s) = Done (?b, s3\<lparr>soc_plic := p4\<rparr>)"
  proof -
    have "mext_loop ?io (plic_call rx_sem fuel ?io) (plic_table b) (Suc (Suc n)) (b, s) = Done (?b, s3\<lparr>soc_plic := p4\<rparr>)" for n
      using w r1 irq(1) w3 r4 by (simp add: wired_def YDRASIL_IRQ_COUNT_def plic_call_def)
    from this[of 14] show ?thesis by (simp add: mext_isr_def YDRASIL_IRQ_COUNT_def)
  qed
  have "rt_rv32_system_irq_handler rx_sem fuel ?io 0x8000000B (b, s) = Done (?b, s3\<lparr>soc_plic := p4\<rparr>)"
    using w loop
    by (simp add: rt_rv32_system_irq_handler_def MCAUSE_INTERRUPT_def YDRASIL_IRQ_VECTOR_COUNT_def wired_def run_isr_def)
  moreover have "settled plic_sources p4" "asking p4 = []"
    using set3 p3 p4 ask3 down by (auto simp: settled_seen others_seen_def uart_only_asking split: if_splits)
  ultimately show ?thesis
    using irq p3 p4 U2 set0(3) listening_facts(3)
    by (intro exI[of _ u'] exI[of _ "s3\<lparr>soc_plic := p4\<rparr>"]) (simp add: uart_only_def plic_irq_asking s3_def s1_def)
qed


section \<open>The shell's read and the interrupt\<close>

text \<open>The console in use: the tables, the controller, the device and the kernel.\<close>

definition console_wired :: "board \<Rightarrow> bool" where
  "console_wired b \<longleftrightarrow> wired b \<and> shell_device b = Some ''uart0'' \<and>
     (\<exists>dev n io. devs b ''uart0'' = Some dev \<and> ref_count dev \<noteq> 0 \<and> rx_indicate dev = Some Finsh_Rx_Ind \<and>
        ops dev = uart_ops n io YDRASIL_UART0_BASE)"

definition console_ready :: "board \<Rightarrow> soc \<Rightarrow> bool" where
  "console_ready b s \<longleftrightarrow> kinv (krn b) \<and> ipc_inv (krn b) \<and> console_wired b \<and> uart_only (soc_plic s) \<and> rx_fifo (uart_of s) = []"

lemma console_readyD:
  assumes "console_ready b s"
  shows "kinv (krn b)" and "ipc_inv (krn b)" and "console_wired b" and "wired b" and "uart_only (soc_plic s)"
    and "rx_fifo (uart_of s) = []" and "uart_inv (uart b)"
  using assms by (simp_all add: console_ready_def console_wired_def wired_def)

lemma console_ready_uart: "console_ready b s \<Longrightarrow> uart_inv u \<Longrightarrow> console_ready (b\<lparr>uart := u\<rparr>) s"
  by (simp add: console_ready_def console_wired_def wired_def)

lemma console_ready_krn: "console_ready b s \<Longrightarrow> kinv k \<Longrightarrow> ipc_inv k \<Longrightarrow> console_ready (b\<lparr>krn := k\<rparr>) s"
  by (simp add: console_ready_def console_wired_def wired_def)

lemma finsh_read_takes:
  assumes "console_wired b"
  shows "\<exists>u. finsh_read fuel io (b, s) = Done (if uart_contents (uart b) = [] then None else Some (hd (uart_contents (uart b))), b\<lparr>uart := u\<rparr>, s) \<and>
    uart_inv u \<and> uart_contents u = tl (uart_contents (uart b))"
proof -
  obtain dev n io' where dev: "devs b ''uart0'' = Some dev" "ref_count dev \<noteq> 0" "ops dev = uart_ops n io' YDRASIL_UART0_BASE"
    using assms by (auto simp: console_wired_def)
  obtain u where u: "uart_read 1 (uart b) = Done (take 1 (uart_contents (uart b)), u)" "uart_inv u"
    "uart_contents u = drop 1 (uart_contents (uart b))"
    using uart_read_takes[of "uart b" 1] assms by (auto simp: console_wired_def wired_def)
  have "rt_device_read 1 (dev, uart b, s) = Done (Inr (take 1 (uart_contents (uart b))), u, s)"
    using dev u(1) by (simp add: rt_device_read_def uart_ops_def del: uart_read.simps One_nat_def)
  then have "finsh_read fuel io (b, s) = Done (if uart_contents (uart b) = [] then None else Some (hd (uart_contents (uart b))), b\<lparr>uart := u\<rparr>, s)"
    using assms dev(1) by (cases "uart_contents (uart b)") (simp_all add: finsh_read_def console_wired_def)
  with u show ?thesis by (auto simp: drop_Suc)
qed

text \<open>The UART receives, one byte after the other, and the controller sees the line.\<close>

definition soc_receive :: "(u8 \<times> bool \<times> bool) list \<Rightarrow> soc \<Rightarrow> soc" where
  "soc_receive xs s = s\<lparr>soc_plic := plic_cycle plic_sources (\<lambda>x. x) No_Access
     ((soc_plic s)\<lparr>outside := (outside (soc_plic s))\<lparr>uart0 := fold uart_arrive xs (uart_of s)\<rparr>\<rparr>)\<rparr>"

lemma arrive_fields:
  "ier_q (uart_arrive x u) = ier_q u" "lcr_q (uart_arrive x u) = lcr_q u" "rx_trigger_q (uart_arrive x u) = rx_trigger_q u"
  "rx_fifo (uart_arrive x u) = (if length (rx_fifo u) < FIFO_DEPTH then rx_fifo u @ [fst x] else rx_fifo u)"
  by (simp_all add: uart_arrive_def Let_def case_prod_beta)

lemma arrive_keeps:
  "ier_q (fold uart_arrive xs u) = ier_q u \<and> lcr_q (fold uart_arrive xs u) = lcr_q u \<and> rx_trigger_q (fold uart_arrive xs u) = rx_trigger_q u \<and>
   (length (rx_fifo u) \<le> FIFO_DEPTH \<longrightarrow> rx_fifo (fold uart_arrive xs u) = take FIFO_DEPTH (rx_fifo u @ map fst xs))"
proof (induction xs arbitrary: u)
  case (Cons x xs)
  show ?case using Cons.IH[of "uart_arrive x u"] by (auto simp: arrive_fields take_Cons')
qed simp

lemma soc_receive_facts:
  assumes "uart_only (soc_plic s)" and "rx_fifo (uart_of s) = []"
  shows "rx_fifo (uart_of (soc_receive xs s)) = take 16 (map fst xs)" and "uart_only (soc_plic (soc_receive xs s))"
    and "soc_clint (soc_receive xs s) = soc_clint s"
proof -
  let ?u = "fold uart_arrive xs (uart_of s)"
  let ?x = "(outside (soc_plic s))\<lparr>uart0 := ?u\<rparr>"
  let ?p = "(soc_plic s)\<lparr>outside := ?x\<rparr>"
  note k = arrive_keeps[of xs "uart_of s"]
  have f: "force (soc_plic s) = 0" "enable (soc_plic s) = 1" "listening (uart_of s)"
    using assms(1) by (simp_all add: uart_only_def settled_def)
  have out: "outside (soc_plic (soc_receive xs s)) = ?x" by (simp add: soc_receive_def plic_cycle_def Let_def)
  show "rx_fifo (uart_of (soc_receive xs s)) = take 16 (map fst xs)"
    using k assms(2) by (simp add: out FIFO_DEPTH_def)
  show "uart_only (soc_plic (soc_receive xs s))"
    using f k unfolding uart_only_def out
    by (auto simp: settled_bits listening_def out) (auto simp: soc_receive_def plic_cycle_def Let_def cleared_at_def bit_simps)
  show "soc_clint (soc_receive xs s) = soc_clint s" by (simp add: soc_receive_def)
qed

text \<open>A release that finds a waiter takes it off the list and makes it ready; otherwise the unit is kept.\<close>

lemma release_effect:
  assumes "kinv k" and "ipc_inv k" and "set (lists k (SemQ i)) \<subseteq> {t}"
  shows "lists (snd (rt_sem_release i k)) (SemQ i) = []"
    and "t \<in> set (lists k (SemQ i)) \<Longrightarrow> stat_of (threads (snd (rt_sem_release i k)) t) = RT_THREAD_READY"
    and "lists k (SemQ i) = [] \<Longrightarrow> sem_value (sems (snd (rt_sem_release i k)) i) > 0"
    and "kinv (snd (rt_sem_release i k))" and "ipc_inv (snd (rt_sem_release i k))"
proof -
  have "distinct (lists k (SemQ i))" using wait_invD(1)[OF kinvD(3)[OF assms(1)]] by simp
  with assms(3) have q: "lists k (SemQ i) = [] \<or> lists k (SemQ i) = [t]"
    by (cases "lists k (SemQ i)") (auto simp: subset_singleton_iff)
  have one: "lists (rt_ipc_list_resume (SemQ i) k) (SemQ i) = []"
    "stat_of (threads (rt_ipc_list_resume (SemQ i) k) t) = RT_THREAD_READY" if "lists k (SemQ i) = [t]"
    using list_resume_first(1,2)[OF assms(1) _ that] by simp_all
  show "lists (snd (rt_sem_release i k)) (SemQ i) = []"
    using q one(1) by (auto simp: rt_sem_release_def upd_sem_def)
  show "stat_of (threads (snd (rt_sem_release i k)) t) = RT_THREAD_READY" if "t \<in> set (lists k (SemQ i))"
    using q one(2) that by (auto simp: rt_sem_release_def)
  have up: "0 < v + 1" if "v < RT_SEM_VALUE_MAX" for v :: u16
    using that unat_inc_no_wrap[of v RT_SEM_VALUE_MAX] by (simp add: word_less_nat_alt)
  show "sem_value (sems (snd (rt_sem_release i k)) i) > 0" if "lists k (SemQ i) = []"
    using that up[of "sem_value (sems k i)"]
    by (auto simp: rt_sem_release_def upd_sem_def RT_SEM_VALUE_MAX_def not_less word_le_nat_alt word_less_nat_alt)
  show "kinv (snd (rt_sem_release i k))" "ipc_inv (snd (rt_sem_release i k))"
    using sem_release_inv[OF assms(1,2)] by simp_all
qed


text \<open>
  The shell at its steps, interrupts that bring bytes, and whatever else the kernel does that leaves
  the semaphore of the shell alone. \<open>t\<close> is the thread of the shell, \<open>i\<close> its semaphore; the first two
  components are the bytes that the ring has accepted and those that the shell got. A handler is
  entered with the bytes of the FIFO before it.
\<close>

type_synonym console_state = "u8 list \<times> u8 list \<times> shell_pc \<times> board \<times> soc"

inductive console_step :: "nat \<Rightarrow> tid \<Rightarrow> nat \<Rightarrow> soc mmio \<Rightarrow> console_state \<Rightarrow> console_state \<Rightarrow> bool" for i t fuel io where
  bytes_come: "xs \<noteq> [] \<Longrightarrow> plic_irq (soc_plic (soc_receive xs s)) \<Longrightarrow>
    rt_rv32_system_irq_handler i fuel io 0x8000000B (b, soc_receive xs s) = Done (b', s') \<Longrightarrow>
    console_step i t fuel io (acc, out, pc, b, s) (acc @ ring_takes (uart b) (rx_fifo (uart_of (soc_receive xs s))), out, pc, b', s')"
| shell_runs: "running (krn b) t \<Longrightarrow> finsh_getchar_step i fuel io (pc, b, s) = Done (r, pc', b', s') \<Longrightarrow>
    console_step i t fuel io (acc, out, pc, b, s) (acc, out @ (case r of None \<Rightarrow> [] | Some x \<Rightarrow> [x]), pc', b', s')"
| kernel_runs: "kinv k \<Longrightarrow> ipc_inv k \<Longrightarrow> sems k i = sems (krn b) i \<Longrightarrow> lists k (SemQ i) = lists (krn b) (SemQ i) \<Longrightarrow>
    console_step i t fuel io (acc, out, pc, b, s) (acc, out, pc, b\<lparr>krn := k\<rparr>, s)"

inductive console_run :: "nat \<Rightarrow> tid \<Rightarrow> nat \<Rightarrow> soc mmio \<Rightarrow> console_state \<Rightarrow> console_state \<Rightarrow> bool" for i t fuel io x where
  start: "console_run i t fuel io x x"
| step: "console_run i t fuel io x y \<Longrightarrow> console_step i t fuel io y z \<Longrightarrow> console_run i t fuel io x z"

definition console_inv :: "nat \<Rightarrow> tid \<Rightarrow> console_state \<Rightarrow> bool" where
  "console_inv i t = (\<lambda>(acc, out, pc, b, s).
     console_ready b s \<and> out @ uart_contents (uart b) = acc \<and> set (lists (krn b) (SemQ i)) \<subseteq> {t} \<and>
     (t \<in> set (lists (krn b) (SemQ i)) \<longrightarrow> pc = Waiting \<and> uart_contents (uart b) = []) \<and>
     (pc = Taking \<longrightarrow> uart_contents (uart b) \<noteq> [] \<longrightarrow> sem_value (sems (krn b) i) > 0))"

lemma bytes_handled:
  assumes inv: "console_inv i t (acc, out, pc, b, s)" and xs: "xs \<noteq> []" and fuel: "16 < fuel"
  shows "plic_irq (soc_plic (soc_receive xs s)) \<and>
    (\<exists>b' s'. rt_rv32_system_irq_handler i fuel (soc_io gap wait) 0x8000000B (b, soc_receive xs s) = Done (b', s') \<and>
      console_inv i t (acc @ ring_takes (uart b) (take 16 (map fst xs)), out, pc, b', s') \<and> \<not> plic_irq (soc_plic s') \<and>
      uart_contents (uart b') = uart_contents (uart b) @ ring_takes (uart b) (take 16 (map fst xs)) \<and>
      soc_clint s' = soc_clint s \<and>
      (t \<in> set (lists (krn b) (SemQ i)) \<longrightarrow> stat_of (threads (krn b') t) = RT_THREAD_READY))"
proof -
  let ?s = "soc_receive xs s" and ?new = "ring_takes (uart b) (take 16 (map fst xs))"
  have rdy: "console_ready b s" using inv by (simp add: console_inv_def)
  have ready: "console_ready b s" "wired b" "uart_only (soc_plic s)" "rx_fifo (uart_of s) = []" "uart_inv (uart b)"
    "kinv (krn b)" "ipc_inv (krn b)"
    using console_readyD[OF rdy] rdy by simp_all
  obtain dev n io' where dev: "devs b ''uart0'' = Some dev" "ref_count dev \<noteq> 0" "rx_indicate dev = Some Finsh_Rx_Ind"
    "ops dev = uart_ops n io' YDRASIL_UART0_BASE" using ready(1) by (auto simp: console_ready_def console_wired_def)
  note f = soc_receive_facts[OF ready(3,4), of xs]
  have some: "rx_fifo (uart_of ?s) \<noteq> []" using xs by (simp add: f(1))
  have "settled plic_sources (soc_plic ?s)" "enable (soc_plic ?s) = 1" "listening (uart_of ?s)"
    using f(2) by (simp_all add: uart_only_def)
  then have up: "plic_irq (soc_plic ?s)"
    using some by (simp add: plic_irq_asking uart_only_asking settled_seen listening_facts(2))
  have "length (rx_fifo (uart_of ?s)) < fuel" "length (rx_fifo (uart_of ?s)) < 2 ^ 32" using fuel by (simp_all add: f(1))
  from mext_serves_uart[OF ready(2) f(2) some this, of i gap wait] obtain u' s' where
    r: "rt_rv32_system_irq_handler i fuel (soc_io gap wait) 0x8000000B (b, ?s) =
        Done (uart0_indicate i (of_nat (length ?new)) (b\<lparr>uart := u'\<rparr>), s')" "uart_inv u'"
      "uart_contents u' = uart_contents (uart b) @ ?new" "uart_only (soc_plic s')" "\<not> plic_irq (soc_plic s')"
      "uart_of s' = drained (uart_of ?s)" "soc_clint s' = soc_clint ?s"
    unfolding f(1) by blast
  have q: "set (lists (krn b) (SemQ i)) \<subseteq> {t}" using inv by (simp add: console_inv_def)
  note rel = release_effect[OF ready(6,7) q]
  have ready': "console_ready (b\<lparr>uart := u'\<rparr>) s'"
    using ready(1) r(2,4,6) by (simp add: console_ready_def console_wired_def wired_def)
  show ?thesis
  proof (cases "?new = []")
    case True
    then have full: "uart_contents (uart b) \<noteq> []"
      using xs uart_contents_ne[of "uart b"] uart_count_facts(1)[OF ready(5)] by (force simp: ring_takes_def)
    have "rt_rv32_system_irq_handler i fuel (soc_io gap wait) 0x8000000B (b, ?s) = Done (b\<lparr>uart := u'\<rparr>, s')"
      using r(1) True by (simp add: uart0_indicate_def)
    moreover have "console_inv i t (acc @ ?new, out, pc, b\<lparr>uart := u'\<rparr>, s')"
      using inv ready' full r(3) True by (auto simp: console_inv_def)
    ultimately show ?thesis using up r(3,5,7) f(3) True full inv by (auto simp: console_inv_def)
  next
    case False
    let ?k = "snd (rt_sem_release i (krn b))"
    have "length ?new < 2 ^ 32" by (simp add: ring_takes_def)
    then have "unat (of_nat (length ?new) :: u32) = length ?new" by (intro unat_of_nat_small) simp
    then have "(of_nat (length ?new) :: u32) \<noteq> 0" using False by auto
    then have "uart0_indicate i (of_nat (length ?new)) (b\<lparr>uart := u'\<rparr>) = b\<lparr>uart := u', krn := ?k\<rparr>"
      using dev by (simp add: uart0_indicate_def finsh_rx_ind_def)
    with r(1) have h: "rt_rv32_system_irq_handler i fuel (soc_io gap wait) 0x8000000B (b, ?s) = Done (b\<lparr>uart := u', krn := ?k\<rparr>, s')" by simp
    have "pc \<noteq> Waiting \<Longrightarrow> lists (krn b) (SemQ i) = []"
      using inv q by (cases "lists (krn b) (SemQ i)") (auto simp: console_inv_def)
    then have "console_inv i t (acc @ ?new, out, pc, b\<lparr>uart := u', krn := ?k\<rparr>, s')"
      using inv console_ready_krn[OF ready' rel(4,5)] r(3) rel(1,3) by (auto simp: console_inv_def)
    with h up r(3,5,7) f(3) rel(2) show ?thesis by auto
  qed
qed

lemma shell_step_inv:
  assumes inv: "console_inv i t (acc, out, pc, b, s)" and run: "running (krn b) t"
    and step: "finsh_getchar_step i fuel io (pc, b, s) = Done (r, pc', b', s')"
  shows "console_inv i t (acc, out @ (case r of None \<Rightarrow> [] | Some x \<Rightarrow> [x]), pc', b', s')"
proof -
  have rdy: "console_ready b s" using inv by (simp add: console_inv_def)
  have ready: "console_ready b s" "kinv (krn b)" "ipc_inv (krn b)" "console_wired b"
    using console_readyD[OF rdy] rdy by simp_all
  have q: "set (lists (krn b) (SemQ i)) \<subseteq> {t}" using inv by (simp add: console_inv_def)
  have "stat_of (threads (krn b) t) \<noteq> RT_THREAD_SUSPEND" using run by (simp add: running_def rt_stats)
  then have none: "lists (krn b) (SemQ i) = []"
    using q wait_invD(3)[OF kinvD(3)[OF ready(2)], of "SemQ i" t] by (cases "lists (krn b) (SemQ i)") auto
  show ?thesis
  proof (cases pc)
    case Reading
    obtain u where u: "finsh_read fuel io (b, s) = Done (if uart_contents (uart b) = [] then None else Some (hd (uart_contents (uart b))), b\<lparr>uart := u\<rparr>, s)"
      "uart_inv u" "uart_contents u = tl (uart_contents (uart b))" using finsh_read_takes[OF ready(4)] by blast
    with step Reading have "r = (if uart_contents (uart b) = [] then None else Some (hd (uart_contents (uart b))))"
      "pc' = (if r = None then Taking else Reading)" "b' = b\<lparr>uart := u\<rparr>" "s' = s"
      by (auto simp: finsh_getchar_step_def)
    then show ?thesis
      using inv none u console_ready_uart[OF ready(1) u(2)] by (auto simp: console_inv_def)
  next
    case Taking
    show ?thesis
    proof (cases "sem_value (sems (krn b) i) > 0")
      case True
      let ?k = "upd_sem i (\<lambda>s. s\<lparr>sem_value := sem_value s - 1\<rparr>) (krn b)"
      have eq: "r = None" "pc' = Reading" "b' = b\<lparr>krn := ?k\<rparr>" "s' = s"
        using step Taking True by (auto simp: finsh_getchar_step_def rt_sem_take_def)
      have "kinv ?k" "ipc_inv ?k"
        using sem_take_inv[OF ready(2,3) run, of i RT_WAITING_FOREVER] True by (simp_all add: rt_sem_take_def)
      then have "console_ready (b\<lparr>krn := ?k\<rparr>) s" by (rule console_ready_krn[OF ready(1)])
      then show ?thesis using inv none eq by (simp add: console_inv_def upd_sem_def)
    next
      case False
      have v0: "sem_value (sems (krn b) i) = 0" using False by (simp add: word_gt_0)
      from rt_sem_take_waits[OF ready(2,3) run v0, of RT_WAITING_FOREVER] obtain k' where
        k': "rt_sem_take i RT_WAITING_FOREVER (krn b) = (Blocked, k')"
          "waits_in (SemQ i) t (sem_flag (sems (krn b) i)) RT_WAITING_FOREVER (upd_thread t (\<lambda>th. th\<lparr>error := RT_EOK\<rparr>) (krn b)) k'"
          "kinv k'" "ipc_inv k'" "sems k' = sems (krn b)"
        by (auto simp: RT_WAITING_FOREVER_def)
      have eq: "r = None" "pc' = Waiting" "b' = b\<lparr>krn := k'\<rparr>" "s' = s"
        using step Taking k'(1) by (auto simp: finsh_getchar_step_def)
      have "set (lists k' (SemQ i)) \<subseteq> {t}" using k'(2) none by (auto simp: waits_in_def split: if_splits)
      moreover have "uart_contents (uart b) = []" using inv Taking v0 by (auto simp: console_inv_def)
      moreover have "console_ready (b\<lparr>krn := k'\<rparr>) s" by (rule console_ready_krn[OF ready(1) k'(3,4)])
      ultimately show ?thesis using inv eq by (auto simp: console_inv_def)
    qed
  next
    case Waiting
    then have "r = None" "pc' = Reading" "b' = b" "s' = s" using step by (auto simp: finsh_getchar_step_def)
    then show ?thesis using inv none by (simp add: console_inv_def)
  qed
qed

lemma console_step_inv:
  assumes "console_step i t fuel (soc_io gap wait) x y" and "console_inv i t x" and "16 < fuel"
  shows "console_inv i t y"
  using assms
proof (cases rule: console_step.cases)
  case (bytes_come xs s b b' s' acc out pc)
  have ready: "uart_only (soc_plic s)" "rx_fifo (uart_of s) = []"
    using assms(2) bytes_come by (simp_all add: console_inv_def console_ready_def)
  note f = soc_receive_facts[OF ready, of xs]
  show ?thesis
    using bytes_handled[of i t acc out pc b s xs fuel gap wait] assms(2,3) bytes_come by (auto simp: f(1))
next
  case (shell_runs b pc s r pc' b' s' acc out)
  then show ?thesis using shell_step_inv assms(2) by blast
next
  case (kernel_runs k b acc out pc s)
  have "console_ready b s" using assms(2) kernel_runs by (simp add: console_inv_def)
  then have "console_ready (b\<lparr>krn := k\<rparr>) s" using kernel_runs by (intro console_ready_krn)
  then show ?thesis using assms(2) kernel_runs by (auto simp: console_inv_def)
qed


text \<open>\<open>finsh_getchar\<close> by itself, in at most so many steps.\<close>

fun finsh_getchar :: "nat \<Rightarrow> nat \<Rightarrow> nat \<Rightarrow> soc mmio \<Rightarrow> shell_pc \<times> board \<times> soc \<Rightarrow> (u8 \<times> board \<times> soc) exec" where
  "finsh_getchar 0 i fuel io x = Out_Of_Fuel"
| "finsh_getchar (Suc n) i fuel io x =
     exec_bind (finsh_getchar_step i fuel io x) (\<lambda>(r, pc, b, s).
       case r of Some ch \<Rightarrow> Done (ch, b, s) | None \<Rightarrow> finsh_getchar n i fuel io (pc, b, s))"

lemma getchar_finds:
  assumes "console_inv i t (acc, out, pc, b, s)" and "uart_contents (uart b) \<noteq> []"
  shows "\<exists>b' s'. finsh_getchar 2 i fuel io (pc, b, s) = Done (hd (uart_contents (uart b)), b', s')"
proof -
  have w: "console_wired b" using assms(1) by (simp add: console_inv_def console_ready_def)
  have read: "\<exists>b2 s'. finsh_getchar (Suc n) i fuel io (Reading, b1, s) = Done (hd (uart_contents (uart b)), b2, s')"
    if "console_wired b1" "uart b1 = uart b" for b1 n
    using finsh_read_takes[OF that(1), of fuel io s] assms(2) that(2) by (auto simp: finsh_getchar_step_def)
  show ?thesis
  proof (cases pc)
    case Taking
    then have "sem_value (sems (krn b) i) > 0" using assms by (simp add: console_inv_def)
    moreover have "console_wired (b\<lparr>krn := k\<rparr>)" for k using w by (simp add: console_wired_def wired_def)
    ultimately show ?thesis
      using read Taking by (simp add: finsh_getchar_step_def rt_sem_take_def numeral_2_eq_2 del: finsh_getchar.simps(2))
        (simp add: finsh_getchar_step_def rt_sem_take_def)
  next
    case Waiting
    with read[OF w refl, of 0] show ?thesis by (simp add: numeral_2_eq_2 finsh_getchar_step_def)
  next
    case Reading
    with read[OF w refl, of 1] show ?thesis by (simp add: numeral_2_eq_2)
  qed
qed

section \<open>From the key to the shell\<close>

lemma console_run_inv:
  assumes "console_run i t fuel (soc_io gap wait) x y" and "console_inv i t x" and "16 < fuel"
  shows "console_inv i t y"
  using assms by (induction rule: console_run.induct) (auto intro: console_step_inv)

text \<open>C39. The shell gets every byte that the console accepted, and does not sleep over one.
  In every state that the shell's steps, the receive interrupts and a kernel that leaves the shell's
  semaphore alone can reach from a ready console: what the shell got and what the ring holds are the
  bytes the ring accepted, in order; while the ring holds some, the shell is not in the wait list of
  its semaphore, and by itself it has the oldest of them after at most two more steps. When further
  bytes come, the trap returns with the controller quiet; the ring has then taken what it has room
  for of the bytes in the FIFO, which are the first 16; and if the shell was waiting it is ready.\<close>

theorem typed_bytes_reach_the_shell:
  assumes "console_ready b0 s0" and "lists (krn b0) (SemQ i) = []" and "16 < fuel"
    and "console_run i t fuel (soc_io gap wait) (uart_contents (uart b0), [], Reading, b0, s0) (acc, out, pc, b, s)" and "xs \<noteq> []"
  shows "out @ uart_contents (uart b) = acc \<and>
    (uart_contents (uart b) \<noteq> [] \<longrightarrow> t \<notin> set (lists (krn b) (SemQ i)) \<and>
       (\<exists>b' s'. finsh_getchar 2 i fuel (soc_io gap wait) (pc, b, s) = Done (hd (uart_contents (uart b)), b', s'))) \<and>
    (\<exists>b' s'. rt_rv32_system_irq_handler i fuel (soc_io gap wait) 0x8000000B (b, soc_receive xs s) = Done (b', s') \<and>
       \<not> plic_irq (soc_plic s') \<and>
       uart_contents (uart b') = uart_contents (uart b) @ take (127 - length (uart_contents (uart b))) (take 16 (map fst xs)) \<and>
       (t \<in> set (lists (krn b) (SemQ i)) \<longrightarrow> stat_of (threads (krn b') t) = RT_THREAD_READY))"
proof -
  have "console_inv i t (uart_contents (uart b0), [], Reading, b0, s0)"
    using assms(1,2) by (simp add: console_inv_def)
  from console_run_inv[OF assms(4) this assms(3)] have inv: "console_inv i t (acc, out, pc, b, s)" .
  have len: "length (uart_contents (uart b)) = uart_count (uart b)" by (simp add: uart_contents_def)
  from bytes_handled[OF inv assms(5,3), of gap wait] obtain b' s' where
    h: "rt_rv32_system_irq_handler i fuel (soc_io gap wait) 0x8000000B (b, soc_receive xs s) = Done (b', s')"
      "\<not> plic_irq (soc_plic s')"
      "uart_contents (uart b') = uart_contents (uart b) @ take (127 - length (uart_contents (uart b))) (take 16 (map fst xs))"
      "t \<in> set (lists (krn b) (SemQ i)) \<longrightarrow> stat_of (threads (krn b') t) = RT_THREAD_READY"
    unfolding ring_takes_def len by blast
  have "out @ uart_contents (uart b) = acc" using inv by (simp add: console_inv_def)
  moreover have "t \<notin> set (lists (krn b) (SemQ i)) \<and>
      (\<exists>b' s'. finsh_getchar 2 i fuel (soc_io gap wait) (pc, b, s) = Done (hd (uart_contents (uart b)), b', s'))"
    if "uart_contents (uart b) \<noteq> []"
    using getchar_finds[OF inv that] inv that by (auto simp: console_inv_def)
  ultimately show ?thesis using h by blast
qed

section \<open>Witnesses\<close>

definition reset_uart :: apb_uart where
  "reset_uart = \<lparr>rx_fifo = [], sent = [], divisor_q = 434, ier_q = 0, lcr_q = 3, mcr_q = 0, scr_q = 0, rx_trigger_q = 0,
     overrun_error = False, parity_error = False, framing_error = False\<rparr>"

definition reset_soc :: soc where
  "reset_soc = \<lparr>soc_plic = \<lparr>pending = 0, enable = 0, force = 0, outside = \<lparr>uart0 = reset_uart, other_lines = 0\<rparr>\<rparr>,
     soc_clint = \<lparr>msip = False, mtime = 100, mtimecmp = 18446744073709551615, accesses = 0\<rparr>\<rparr>"

text \<open>A board before its start, with the kernel that \<open>Ipc_Sem\<close> uses: thread 1 runs.\<close>

definition blank_board :: board where
  "blank_board = \<lparr>krn = two_threads, uart = zero_uart, devs = (\<lambda>_. None), console_device = None, vectors = [], plic_table = [],
     mie = 0, tick_cycles = 0, klog = [], shell_device = None, the_shell = finsh_system_init\<rparr>"

lemma reset_settled: "settled plic_sources (soc_plic reset_soc)"
  by (simp add: settled_seen others_seen_def reset_soc_def reset_uart_def uart_irq_def line_status_irq_def rx_irq_def tx_irq_def)

text \<open>The console after the start; its shell has found the ring empty and waits.\<close>

definition ready_soc :: soc where
  "ready_soc = reset_soc\<lparr>soc_plic := \<lparr>pending = 0, enable = 1, force = 0,
     outside = \<lparr>uart0 = reset_uart\<lparr>ier_q := 1\<rparr>, other_lines = 0\<rparr>\<rparr>\<rparr>"

definition ready_board :: board where
  "ready_board = blank_board\<lparr>vectors := (replicate 32 Unhandled_Irq)[11 := Mext_Isr],
     plic_table := (replicate 8 \<lparr>handler = None, parameter = 0\<rparr>)[0 := \<lparr>handler = Some Uart0_Irq, parameter = 0\<rparr>],
     shell_device := Some ''uart0'',
     devs := [''uart0'' \<mapsto> uart0_device 0 (soc_io (\<lambda>_. 3) (\<lambda>_. 0))\<lparr>dev_flag := uart0_flags OR RT_DEVICE_FLAG_ACTIVATED, ref_count := 2,
       rx_indicate := Some Finsh_Rx_Ind\<rparr>]\<rparr>"

lemma ready_board_ready: "console_ready ready_board ready_soc"
proof -
  have "uart_inv zero_uart" by (simp add: uart_inv_def zero_uart_def UART_RX_BUFFER_SIZE_def)
  moreover have "uart_only (soc_plic ready_soc)" "rx_fifo (uart_of ready_soc) = []"
    by (simp_all add: uart_only_def settled_seen others_seen_def ready_soc_def reset_uart_def listening_def uart_irq_def
        line_status_irq_def rx_irq_def tx_irq_def rx_threshold_def)
  moreover have "krn ready_board = two_threads" "uart ready_board = zero_uart" by (simp_all add: ready_board_def blank_board_def)
  moreover have "console_wired ready_board \<longleftrightarrow> uart_inv zero_uart"
    by (simp add: console_wired_def wired_def ready_board_def blank_board_def uart0_device_def) blast
  ultimately show ?thesis by (simp add: console_ready_def kinv_two_threads ipc_two_threads)
qed

lemma two_threads_take: "rt_sem_take 7 RT_WAITING_FOREVER two_threads = (Blocked, sem_waiting)"
proof -
  have "fst (rt_sem_take 7 RT_WAITING_FOREVER two_threads) = Blocked" by code_simp
  then show ?thesis by (simp add: sem_waiting_def prod_eq_iff)
qed

theorem typed_bytes_reach_the_shell_witness:
  "\<exists>b s b' s'. console_run 7 1 17 (soc_io (\<lambda>_. 3) (\<lambda>_. 0)) ([], [], Reading, ready_board, ready_soc) ([], [], Waiting, b, s) \<and>
    lists (krn b) (SemQ 7) = [1] \<and>
    rt_rv32_system_irq_handler 7 17 (soc_io (\<lambda>_. 3) (\<lambda>_. 0)) 0x8000000B (b, soc_receive [(0x68, False, False), (0x69, False, False)] s) = Done (b', s') \<and>
    \<not> plic_irq (soc_plic s') \<and> uart_contents (uart b') = [0x68, 0x69] \<and> stat_of (threads (krn b') 1) = RT_THREAD_READY"
proof -
  let ?io = "soc_io (\<lambda>_. 3) (\<lambda>_. 0)"
  have e: "uart_contents (uart ready_board) = []"
    by (simp add: ready_board_def blank_board_def zero_uart_def uart_contents_def uart_count_def)
  have k: "krn ready_board = two_threads" by (simp add: ready_board_def blank_board_def)
  obtain u where u: "finsh_read 17 ?io (ready_board, ready_soc) = Done (None, ready_board\<lparr>uart := u\<rparr>, ready_soc)"
    "uart_contents u = []"
    using finsh_read_takes[OF console_readyD(3)[OF ready_board_ready], of 17 ?io ready_soc] e by auto
  let ?b = "ready_board\<lparr>uart := u, krn := sem_waiting\<rparr>"
  have "console_step 7 1 17 ?io ([], [], Reading, ready_board, ready_soc) ([], [] @ (case None of None \<Rightarrow> [] | Some x \<Rightarrow> [x]), Taking, ready_board\<lparr>uart := u\<rparr>, ready_soc)"
    by (rule shell_runs) (simp_all add: k two_threads_running(1)[unfolded One_nat_def] finsh_getchar_step_def u(1))
  moreover have "console_step 7 1 17 ?io ([], [], Taking, ready_board\<lparr>uart := u\<rparr>, ready_soc) ([], [] @ (case None of None \<Rightarrow> [] | Some x \<Rightarrow> [x]), Waiting, ?b, ready_soc)"
    by (rule shell_runs) (simp_all add: k two_threads_running(1)[unfolded One_nat_def] finsh_getchar_step_def two_threads_take)
  ultimately have run: "console_run 7 1 17 ?io ([], [], Reading, ready_board, ready_soc) ([], [], Waiting, ?b, ready_soc)"
    by (intro console_run.step[OF console_run.step[OF console_run.start]]) simp_all
  have q: "lists (krn ready_board) (SemQ 7) = []" unfolding k by code_simp
  have w: "lists (krn ?b) (SemQ 7) = [1]" by (simp add: sem_waiting_eval)
  from typed_bytes_reach_the_shell[OF ready_board_ready q, of 17 1 "\<lambda>_. 3" "\<lambda>_. 0", unfolded e, OF _ run, of "[(0x68, False, False), (0x69, False, False)]"]
  obtain b' s' where "rt_rv32_system_irq_handler 7 17 ?io 0x8000000B (?b, soc_receive [(0x68, False, False), (0x69, False, False)] ready_soc) = Done (b', s')"
    "\<not> plic_irq (soc_plic s')" "uart_contents (uart b') = [0x68, 0x69]" "stat_of (threads (krn b') 1) = RT_THREAD_READY"
    unfolding w by (auto simp: u(2))
  with run w show ?thesis by blast
qed

end
