(* ===== verification/Board_Start.thy ===== *)
theory Board_Start
  imports Board_Console
begin

text \<open>
  The start of the board, \<^verbatim>\<open>rt_hw_board_init\<close> and \<^verbatim>\<open>finsh_set_device\<close>: it returns, and leaves
  the console in the state from which \<open>Board_Console\<close> starts.
\<close>

section \<open>The steps of the start\<close>

text \<open>Accesses that leave the requests of a settled controller as they are, and set what is enabled.\<close>

definition enabling :: "u8 \<Rightarrow> peripherals plic \<Rightarrow> peripherals plic \<Rightarrow> bool" where
  "enabling e p p' \<longleftrightarrow> pending p' = pending p \<and> enable p' = e \<and> force p' = 0 \<and> outside p' = outside p"

lemma enabling_settled: "enabling e p p' \<Longrightarrow> settled plic_sources p \<Longrightarrow> settled plic_sources p'"
  by (simp add: enabling_def settled_def)

lemma enabling_trans: "enabling e p p' \<Longrightarrow> enabling e' p' p'' \<Longrightarrow> enabling e' p p''"
  by (simp add: enabling_def)

lemma plic_registers:
  "take_bit 16 YDRASIL_PLIC_BASE = REG_PENDING" "take_bit 16 (YDRASIL_PLIC_BASE + 0x00) = REG_PENDING" "take_bit 16 (YDRASIL_PLIC_BASE + 0x04) = REG_ENABLE"
  "take_bit 16 (YDRASIL_PLIC_BASE + 0x0c) = REG_FORCE"
  by (simp_all add: YDRASIL_PLIC_BASE_def plic_offsets take_bit_eq_mod)

lemma plic_plain:
  fixes gap
  assumes "settled plic_sources p"
  defines "io \<equiv> plic_io plic_sources (\<lambda>x. x) gap"
  shows "fst (mm_read io (YDRASIL_PLIC_BASE + 0x00) p) = ucast (pending p)"
    and "enabling (enable p) p (snd (mm_read io (YDRASIL_PLIC_BASE + 0x00) p))"
    and "fst (mm_read io (YDRASIL_PLIC_BASE + 0x04) p) = ucast (enable p)"
    and "enabling (enable p) p (snd (mm_read io (YDRASIL_PLIC_BASE + 0x04) p))"
    and "enabling (ucast v) p (mm_write io (YDRASIL_PLIC_BASE + 0x04) v p)"
    and "enabling (enable p) p (mm_write io (YDRASIL_PLIC_BASE + 0x0c) 0 p)"
proof -
  note q = quiet_cycles[of plic_sources "\<lambda>x. x", OF refl assms(1), of "gap (outside p)", folded plic_reach_def]
  let ?q = "plic_reach plic_sources (\<lambda>x. x) gap p"
  have t: "pending p OR plic_sources (outside ?q) = pending p" "force p = 0" using q(4) assms(1) by (simp_all add: settled_def)
  have "outside ((plic_cycle plic_sources (\<lambda>x. x) No_Access ^^ n) p) = outside p" for n
    by (induction n) (simp_all add: plic_cycle_def Let_def)
  then have o': "outside ?q = outside p" by (simp add: plic_reach_def)
  note simps = io_def plic_io_def Let_def plic_registers plic_cycle_def cleared_at_def plic_offsets plic_value_def enabling_def
  show "fst (mm_read io (YDRASIL_PLIC_BASE + 0x00) p) = ucast (pending p)"
    "fst (mm_read io (YDRASIL_PLIC_BASE + 0x04) p) = ucast (enable p)"
    using q by (simp_all add: simps)
  show "enabling (enable p) p (snd (mm_read io (YDRASIL_PLIC_BASE + 0x00) p))"
    "enabling (enable p) p (snd (mm_read io (YDRASIL_PLIC_BASE + 0x04) p))"
    "enabling (ucast v) p (mm_write io (YDRASIL_PLIC_BASE + 0x04) v p)"
    "enabling (enable p) p (mm_write io (YDRASIL_PLIC_BASE + 0x0c) 0 p)"
    using q(1-3) t o' by (simp_all add: simps)
qed

lemma soc_plic_reset:
  assumes "settled plic_sources (soc_plic s)"
  shows "\<exists>s'. plic_reset (Suc fuel) (soc_io gap wait) s = Done (replicate 8 \<lparr>handler = None, parameter = 0\<rparr>, s') \<and>
    enabling 0 (soc_plic s) (soc_plic s') \<and> soc_clint s' = soc_clint s"
proof -
  let ?pio = "plic_io plic_sources (\<lambda>x. x) gap"
  define p1 where "p1 = mm_write ?pio (YDRASIL_PLIC_BASE + 0x04) 0 (soc_plic s)"
  define p2 where "p2 = mm_write ?pio (YDRASIL_PLIC_BASE + 0x0c) 0 p1"
  define p3 where "p3 = snd (mm_read ?pio (YDRASIL_PLIC_BASE + 0x00) p2)"
  have e1: "enabling 0 (soc_plic s) p1" using plic_plain(5)[OF assms, where v = 0] by (simp add: p1_def)
  note s1 = enabling_settled[OF e1 assms]
  have e2: "enabling 0 (soc_plic s) p2"
    using enabling_trans[OF e1 plic_plain(6)[OF s1, of gap]] e1 by (simp add: p2_def enabling_def)
  note s2 = enabling_settled[OF e2 assms]
  have e3: "enabling 0 (soc_plic s) p3"
    using enabling_trans[OF e2 plic_plain(2)[OF s2, of gap]] e2 by (simp add: p3_def enabling_def)
  note s3 = enabling_settled[OF e3 assms]
  have c3: "claim_id p3 = 0" using e3 by (simp add: claim_id_def asking_def enabling_def)
  obtain p4 where p4: "mm_read ?pio (YDRASIL_PLIC_BASE + 0x08) p3 = (0, p4)" "pending p4 = pending p3" "enable p4 = enable p3"
    "force p4 = 0" "outside p4 = outside p3"
    using plic_claim[OF s3, of gap thesis] unfolding c3 by simp
  have e4: "enabling 0 (soc_plic s) p4" using e3 p4 by (simp add: enabling_def)
  have r: "mm_read ?pio (YDRASIL_PLIC_BASE + 0x00) p2 = (ucast (pending p2), p3)"
    using plic_plain(1)[OF s2, of gap] by (simp add: p3_def prod_eq_iff)
  have acc: "mm_write (soc_io gap wait) (YDRASIL_PLIC_BASE + 0x04) 0 s = s\<lparr>soc_plic := p1\<rparr>"
    "mm_write (soc_io gap wait) (YDRASIL_PLIC_BASE + 0x0c) 0 (s\<lparr>soc_plic := p1\<rparr>) = s\<lparr>soc_plic := p2\<rparr>"
    "mm_read (soc_io gap wait) (YDRASIL_PLIC_BASE + 0x00) (s\<lparr>soc_plic := p2\<rparr>) = (ucast (pending p2), s\<lparr>soc_plic := p3\<rparr>)"
    "mm_read (soc_io gap wait) (YDRASIL_PLIC_BASE + 0x08) (s\<lparr>soc_plic := p3\<rparr>) = (0, s\<lparr>soc_plic := p4\<rparr>)"
    using r p4(1) by (simp_all only: soc_plic_access insert_iff simp_thms) (simp_all add: p1_def p2_def)
  have "plic_drain (Suc fuel) (soc_io gap wait) (s\<lparr>soc_plic := p2\<rparr>) = Done (s\<lparr>soc_plic := if ucast (pending p2) = (0 :: u32) then p3 else p4\<rparr>)"
    using acc(3,4) by simp
  then have "plic_reset (Suc fuel) (soc_io gap wait) s =
      Done (replicate 8 \<lparr>handler = None, parameter = 0\<rparr>, s\<lparr>soc_plic := if ucast (pending p2) = (0 :: u32) then p3 else p4\<rparr>)"
    using acc(1,2) by (simp add: plic_reset_def Let_def YDRASIL_IRQ_COUNT_def del: plic_drain.simps)
  with e3 e4 show ?thesis by auto
qed


lemma soc_uart_writes:
  assumes "others_seen (soc_plic s)" and "\<forall>(r, v)\<in>set rvs. r \<in> {rbr_thr_dll, ier_dlm, iir_fcr, lcr, lsr}"
  shows "uart_step (fold (\<lambda>(r, v). uart_after_write (register_index (YDRASIL_UART0_BASE + r)) v) rvs) (soc_plic s)
      (soc_plic (fold (\<lambda>(r, v). mm_write (soc_io gap wait) (YDRASIL_UART0_BASE + r) v) rvs s)) \<and>
    soc_clint (fold (\<lambda>(r, v). mm_write (soc_io gap wait) (YDRASIL_UART0_BASE + r) v) rvs s) = soc_clint s"
  using assms
proof (induction rvs arbitrary: s)
  case Nil
  then show ?case by (simp add: uart_step_def)
next
  case (Cons rv rvs)
  obtain r v where rv: "rv = (r, v)" by force
  have r: "r \<in> {rbr_thr_dll, ier_dlm, iir_fcr, lcr, lsr}" using Cons.prems(2) rv by auto
  note w = soc_uart_write[OF Cons.prems(1) r, where v = v and gap = gap and wait = wait]
  from Cons.IH[OF uart_step_seen[OF w(1)]] Cons.prems(2) uart_step_trans[OF w(1)] w(2) show ?case by (auto simp: rv)
qed

lemma uart_configured:
  assumes "others_seen (soc_plic s)"
  shows "\<exists>f. uart_step f (soc_plic s) (soc_plic (uart_hw_configure (soc_io gap wait) YDRASIL_UART0_BASE s)) \<and>
    soc_clint (uart_hw_configure (soc_io gap wait) YDRASIL_UART0_BASE s) = soc_clint s \<and> listening (f (uart_of s)) \<and> rx_fifo (f (uart_of s)) = []"
proof -
  let ?d = "(YDRASIL_APB_FREQ_HZ + YDRASIL_UART_BAUD div 2) div YDRASIL_UART_BAUD"
  let ?rvs = "[(ier_dlm, 0), (lcr, 0x80), (rbr_thr_dll, ?d AND 0xff), (ier_dlm, drop_bit 8 ?d AND 0xff), (lcr, 0x03), (iir_fcr, 0x06), (ier_dlm, 0x01)]"
  let ?f = "fold (\<lambda>(r, v). uart_after_write (register_index (YDRASIL_UART0_BASE + r)) v) ?rvs"
  have "uart_hw_configure (soc_io gap wait) YDRASIL_UART0_BASE s = fold (\<lambda>(r, v). mm_write (soc_io gap wait) (YDRASIL_UART0_BASE + r) v) ?rvs s"
    by (simp add: uart_hw_configure_def Let_def)
  moreover have "\<forall>(r, v)\<in>set ?rvs. r \<in> {rbr_thr_dll, ier_dlm, iir_fcr, lcr, lsr}" by simp
  moreover have "listening (?f (uart_of s))" "rx_fifo (?f (uart_of s)) = []"
    by (simp_all add: listening_def register_indexes uart_after_write_def)
  ultimately show ?thesis using soc_uart_writes[OF assms, of ?rvs gap wait] by (intro exI[of _ ?f]) simp
qed

lemma uart_opened:
  assumes "others_seen (soc_plic s)" and "listening (uart_of s)"
  shows "\<exists>s'. uart_open (soc_io gap wait) YDRASIL_UART0_BASE s = (RT_EOK, s') \<and> uart_step (\<lambda>u. u) (soc_plic s) (soc_plic s') \<and>
    soc_clint s' = soc_clint s"
proof -
  have u: "ier_q (uart_of s) = 1" "lcr_q (uart_of s) = 3" using assms(2) by (simp_all add: listening_def)
  obtain s1 where s1: "mm_read (soc_io gap wait) (YDRASIL_UART0_BASE + ier_dlm) s = (1, s1)"
    "uart_step (uart_after_read 1) (soc_plic s) (soc_plic s1)" "soc_clint s1 = soc_clint s"
    using soc_uart_read[OF assms(1), of ier_dlm gap wait] unfolding register_indexes by (auto simp: uart_value_def u)
  let ?s' = "mm_write (soc_io gap wait) (YDRASIL_UART0_BASE + ier_dlm) 1 s1"
  have w: "uart_step (uart_after_write 1 1) (soc_plic s1) (soc_plic ?s')" "soc_clint ?s' = soc_clint s1"
    using soc_uart_write[OF uart_step_seen[OF s1(2)], where r = ier_dlm and v = 1 and gap = gap and wait = wait] unfolding register_indexes by simp_all
  have "uart_step (\<lambda>u. u) (soc_plic s) (soc_plic ?s')"
    using uart_step_trans[OF s1(2) w(1)] u by (simp add: uart_step_def uart_after_read_def uart_after_write_def)
  moreover have "uart_open (soc_io gap wait) YDRASIL_UART0_BASE s = (RT_EOK, ?s')"
    using s1(1) by (simp add: uart_open_def mm_modify_def)
  ultimately show ?thesis using w(2) s1(3) by auto
qed

lemma settled_listening:
  "others_seen p \<Longrightarrow> listening (uart0 (outside p)) \<Longrightarrow> rx_fifo (uart0 (outside p)) = [] \<Longrightarrow> settled plic_sources p"
  by (simp add: settled_seen listening_facts(2))

text \<open>The accesses to the timer touch nothing else.\<close>

lemma clint_addresses:
  "drop_bit 16 (YDRASIL_CLINT_BASE + r) = drop_bit 16 YDRASIL_CLINT_BASE" if "r \<in> {MTIMECMP_LO, MTIMECMP_HI, MTIME_LO, MTIME_HI}"
  using that by (auto simp: clint_offsets ydrasil_bases drop_bit_eq_div)

lemma soc_clint_access:
  assumes "r \<in> {MTIMECMP_LO, MTIMECMP_HI, MTIME_LO, MTIME_HI}"
  shows "mm_read (soc_io gap wait) (YDRASIL_CLINT_BASE + r) s =
      (let (v, c) = mm_read (clint_io wait) (YDRASIL_CLINT_BASE + r) (soc_clint s) in (v, s\<lparr>soc_clint := c\<rparr>))"
    and "mm_write (soc_io gap wait) (YDRASIL_CLINT_BASE + r) v s =
      s\<lparr>soc_clint := mm_write (clint_io wait) (YDRASIL_CLINT_BASE + r) v (soc_clint s)\<rparr>"
  using clint_addresses[OF assms] by (simp_all add: soc_io_def)

lemma soc_mtime_read:
  "mtime_read fuel (soc_io gap wait) s =
     exec_bind (mtime_read fuel (clint_io wait) (soc_clint s)) (\<lambda>(v, c). Done (v, s\<lparr>soc_clint := c\<rparr>))"
proof (induction fuel arbitrary: s)
  case (Suc fuel)
  show ?case by (simp add: soc_clint_access case_prod_beta Let_def Suc.IH)
qed simp

lemma soc_mtime_program_next:
  "mtime_program_next fuel (soc_io gap wait) tc s =
     exec_bind (mtime_program_next fuel (clint_io wait) tc (soc_clint s)) (\<lambda>c. Done (s\<lparr>soc_clint := c\<rparr>))"
proof -
  have w: "mtimecmp_write (soc_io gap wait) v s = s\<lparr>soc_clint := mtimecmp_write (clint_io wait) v (soc_clint s)\<rparr>" for v s
    by (simp add: mtimecmp_write_def soc_clint_access Let_def)
  show ?thesis
    by (cases "mtime_read fuel (clint_io wait) (soc_clint s)")
      (simp_all add: mtime_program_next_def soc_mtime_read w case_prod_beta)
qed


text \<open>The steps of the start, one after the other.\<close>

lemma uart0_init_done:
  assumes "enable (soc_plic s) = 0" and "settled plic_sources (soc_plic s)" and "devs b ''uart0'' = None" and "length (plic_table b) = 8"
  shows "\<exists>dev s'. ydrasil_uart0_init fuel (soc_io gap wait) (b, s) =
      (RT_EOK, b\<lparr>uart := zero_uart, devs := (devs b)(''uart0'' \<mapsto> dev), plic_table := (plic_table b)[0 := \<lparr>handler = Some Uart0_Irq, parameter = 0\<rparr>]\<rparr>, s') \<and>
    dev = uart0_device fuel (soc_io gap wait)\<lparr>dev_name := ''uart0'', dev_flag := uart0_flags OR RT_DEVICE_FLAG_ACTIVATED\<rparr> \<and>
    uart_only (soc_plic s') \<and> rx_fifo (uart_of s') = [] \<and> soc_clint s' = soc_clint s"
proof -
  let ?io = "soc_io gap wait"
  let ?s1 = "uart_hw_configure ?io YDRASIL_UART0_BASE s"
  let ?dev = "uart0_device fuel ?io\<lparr>dev_name := ''uart0'', dev_flag := uart0_flags OR RT_DEVICE_FLAG_ACTIVATED\<rparr> :: (uart_device \<times> soc, rx_callback) rt_device"
  have seen: "others_seen (soc_plic s)" using assms(2) by (simp add: settled_seen)
  obtain f where f: "uart_step f (soc_plic s) (soc_plic ?s1)" "soc_clint ?s1 = soc_clint s" "listening (f (uart_of s))"
    "rx_fifo (f (uart_of s)) = []" using uart_configured[OF seen, of gap wait] by blast
  have u1: "listening (uart_of ?s1)" "rx_fifo (uart_of ?s1) = []" "enable (soc_plic ?s1) = 0"
    using f assms(1) by (simp_all add: uart_step_def)
  note set1 = settled_listening[OF uart_step_seen[OF f(1)] u1(1,2)]
  let ?pio = "plic_io plic_sources (\<lambda>x. x) gap"
  obtain p2 where r: "mm_read ?pio (YDRASIL_PLIC_BASE + 0x04) (soc_plic ?s1) = (0, p2)" and e2: "enabling 0 (soc_plic ?s1) p2"
    using plic_plain(3,4)[OF set1, of gap] u1(3) by (cases "mm_read ?pio (YDRASIL_PLIC_BASE + 0x04) (soc_plic ?s1)") simp
  let ?p3 = "mm_write ?pio (YDRASIL_PLIC_BASE + 0x04) 1 p2"
  have e3: "enabling 1 (soc_plic ?s1) ?p3"
    using enabling_trans[OF e2 plic_plain(5)[OF enabling_settled[OF e2 set1], of 1 gap]] by simp
  have reg: "ydrasil_plic_register ?io YDRASIL_IRQ_UART0 (Some Uart0_Irq) 0 (table, ?s1) =
      (RT_EOK, table[0 := \<lparr>handler = Some Uart0_Irq, parameter = 0\<rparr>], ?s1\<lparr>soc_plic := ?p3\<rparr>)" for table
    using r by (simp add: ydrasil_plic_register_def YDRASIL_IRQ_UART0_def YDRASIL_IRQ_COUNT_def mm_modify_def soc_plic_access Let_def)
  have init: "rt_device_init (uart0_device fuel ?io\<lparr>dev_name := ''uart0'', dev_flag := uart0_flags\<rparr>, zero_uart, s) = (RT_EOK, ?dev, zero_uart, ?s1)"
    by (simp add: rt_device_init_def uart0_device_def uart_ops_def uart_init_def uart0_flags_def device_flags zero_uart_def)
  have "rt_device_register (uart0_device fuel ?io) ''uart0'' uart0_flags (devs b) =
      (RT_EOK, (devs b)(''uart0'' \<mapsto> uart0_device fuel ?io\<lparr>dev_name := ''uart0'', dev_flag := uart0_flags\<rparr>))"
    using assms(3) by (simp add: rt_device_register_def rt_device_find_def RT_NAME_MAX_def uart0_device_def)
  then have "ydrasil_uart0_init fuel ?io (b, s) =
      (RT_EOK, b\<lparr>uart := zero_uart, devs := (devs b)(''uart0'' \<mapsto> ?dev), plic_table := (plic_table b)[0 := \<lparr>handler = Some Uart0_Irq, parameter = 0\<rparr>]\<rparr>,
       ?s1\<lparr>soc_plic := ?p3\<rparr>)"
    using init reg by (simp add: ydrasil_uart0_init_def Let_def)
  moreover have "uart_only ?p3" "rx_fifo (uart0 (outside ?p3)) = []"
    using e3 u1 enabling_settled[OF e3 set1] by (simp_all add: uart_only_def enabling_def)
  ultimately show ?thesis using f(2) by simp
qed

lemma device_opened:
  assumes "uart_only (soc_plic s)" and "rx_fifo (uart_of s) = []"
    and "dev_flag dev = uart0_flags OR RT_DEVICE_FLAG_ACTIVATED" and "ops dev = uart_ops fuel (soc_io gap wait) YDRASIL_UART0_BASE"
  shows "\<exists>s'. rt_device_open oflag (dev, u, s) =
      (RT_EOK, dev\<lparr>open_flag := open_flag dev OR RT_DEVICE_OFLAG_OPEN, ref_count := ref_count dev + 1\<rparr>, u, s') \<and>
    uart_only (soc_plic s') \<and> rx_fifo (uart_of s') = [] \<and> soc_clint s' = soc_clint s"
proof -
  have s: "others_seen (soc_plic s)" "listening (uart_of s)" "enable (soc_plic s) = 1"
    using assms(1) by (simp_all add: uart_only_def settled_seen)
  obtain s' where s': "uart_open (soc_io gap wait) YDRASIL_UART0_BASE s = (RT_EOK, s')" "uart_step (\<lambda>u. u) (soc_plic s) (soc_plic s')"
    "soc_clint s' = soc_clint s" using uart_opened[OF s(1,2), of gap wait] by blast
  have "uart_only (soc_plic s')" "rx_fifo (uart_of s') = []"
    using s s'(2) assms(2) settled_listening[OF uart_step_seen[OF s'(2)]] by (simp_all add: uart_only_def uart_step_def)
  moreover have "rt_device_open oflag (dev, u, s) =
      (RT_EOK, dev\<lparr>open_flag := open_flag dev OR RT_DEVICE_OFLAG_OPEN, ref_count := ref_count dev + 1\<rparr>, u, s')"
    using assms(3,4) s'(1) by (simp add: rt_device_open_def open_active_def uart_ops_def uart0_flags_def device_flags)
  ultimately show ?thesis using s'(3) by auto
qed

text \<open>C40. The board starts. From a controller whose requests are taken in, whatever the UART holds and
  the tables contained, \<open>rt_hw_board_init\<close> returns: the first timer interrupt is set and both interrupts
  are enabled. With \<open>finsh_set_device\<close> the console is then ready with an empty ring: the trap leads to
  the handler of the UART, the UART is the only enabled source, and its device is held by the console
  and the shell.\<close>

theorem board_starts:
  assumes "settled plic_sources (soc_plic s)" and "kinv (krn b)" and "ipc_inv (krn b)"
    and "devs b ''uart0'' = None" and "console_device b = None" and "shell_device b = None"
    and "prompt W wait" and "6 * (W + 1) \<le> 4294967296"
    and "time (soc_clint s) + 9 * (W + 1) + 50000 < 18446744069414584320"
  shows "\<exists>b1 s1 b2 s2 now. rt_hw_board_init (Suc (Suc fuel)) (soc_io gap wait) (b, s) = Done (b1, s1) \<and>
    finsh_set_device ''uart0'' (b1, s1) = (b2, s2) \<and> console_ready b2 s2 \<and> uart_contents (uart b2) = [] \<and> krn b2 = krn b \<and>
    vectors b2 ! 7 = Mtime_Isr \<and> mie b2 = mie b OR MIE_MEIE OR MIE_MTIE \<and>
    time (soc_clint s) \<le> now \<and> now < time (soc_clint s2) \<and> unat (mtimecmp (soc_clint s2)) = now + 50000 \<and>
    map_option ref_count (devs b2 ''uart0'') = Some 2"
proof -
  let ?io = "soc_io gap wait" and ?n = "Suc (Suc fuel)"
  let ?v = "(replicate 32 Unhandled_Irq)[11 := Mext_Isr]"
  obtain s1 where s1: "plic_reset ?n ?io s = Done (replicate 8 (\<lparr>handler = None, parameter = 0\<rparr> :: plic_handler irq_entry), s1)"
    "enabling 0 (soc_plic s) (soc_plic s1)" "soc_clint s1 = soc_clint s" using soc_plic_reset[OF assms(1)] by blast
  let ?b1 = "b\<lparr>vectors := ?v, plic_table := replicate 8 \<lparr>handler = None, parameter = 0\<rparr>, mie := mie b OR MIE_MEIE\<rparr>"
  have p: "ydrasil_plic_init ?n ?io (rt_hw_interrupt_init b, s) = Done (RT_EOK, ?b1, s1)"
    using s1(1) by (simp add: ydrasil_plic_init_def rt_hw_interrupt_init_def rt_hw_interrupt_install_def YDRASIL_MCAUSE_MEXT_def
        YDRASIL_IRQ_VECTOR_COUNT_def del: plic_drain.simps)
  have en: "enable (soc_plic s1) = 0" "settled plic_sources (soc_plic s1)"
    using s1(2) enabling_settled[OF s1(2) assms(1)] by (simp_all add: enabling_def)
  obtain dev s2 where s2: "ydrasil_uart0_init ?n ?io (?b1, s1) = (RT_EOK, ?b1\<lparr>uart := zero_uart, devs := (devs b)(''uart0'' \<mapsto> dev),
      plic_table := (plic_table ?b1)[0 := \<lparr>handler = Some Uart0_Irq, parameter = 0\<rparr>]\<rparr>, s2)"
    "dev = uart0_device ?n ?io\<lparr>dev_name := ''uart0'', dev_flag := uart0_flags OR RT_DEVICE_FLAG_ACTIVATED\<rparr>"
    "uart_only (soc_plic s2)" "rx_fifo (uart_of s2) = []" "soc_clint s2 = soc_clint s1"
    using uart0_init_done[OF en, of ?b1 ?n gap wait] assms(4) by auto
  let ?dev = "\<lambda>k. dev\<lparr>open_flag := RT_DEVICE_OFLAG_OPEN, ref_count := k\<rparr>"
  have d: "dev_flag dev = uart0_flags OR RT_DEVICE_FLAG_ACTIVATED" "ops dev = uart_ops ?n ?io YDRASIL_UART0_BASE"
    "open_flag dev = 0" "ref_count dev = 0" by (simp_all add: s2(2) uart0_device_def)
  let ?b2 = "?b1\<lparr>uart := zero_uart, devs := (devs b)(''uart0'' \<mapsto> ?dev 1),
      plic_table := (plic_table ?b1)[0 := \<lparr>handler = Some Uart0_Irq, parameter = 0\<rparr>], console_device := Some ''uart0''\<rparr>"
  obtain s3 where s3: "rt_device_open (RT_DEVICE_OFLAG_RDWR OR RT_DEVICE_FLAG_STREAM) (dev, zero_uart, s2) = (RT_EOK, ?dev 1, zero_uart, s3)"
    "uart_only (soc_plic s3)" "rx_fifo (uart_of s3) = []" "soc_clint s3 = soc_clint s2"
    using device_opened[OF s2(3,4) d(1,2), of "RT_DEVICE_OFLAG_RDWR OR RT_DEVICE_FLAG_STREAM" zero_uart] d(3,4) by auto
  have c: "set_console ''uart0'' (snd (ydrasil_uart0_init ?n ?io (?b1, s1))) = (?b2, s3)"
    using s2(1) s3(1) assms(5)
    by (simp add: set_console_def rt_console_set_device_def rt_device_find_def RT_NAME_MAX_def on_device_def)
  obtain now c4 where c4: "mtime_program_next ?n (clint_io wait) initial_tick_cycles (soc_clint s3) = Done c4"
    "time (soc_clint s) \<le> now" "now < time c4" "unat (mtimecmp c4) = now + 50000"
  proof -
    have c: "soc_clint s3 = soc_clint s" using s1(3) s2(5) s3(4) by simp
    have "time (soc_clint s) + 9 * (W + 1) + unat initial_tick_cycles < 18446744069414584320"
      using assms(9) by (simp add: initial_tick_cycles_value)
    from mtime_program_next_sets[OF assms(7,8) this, of fuel] that show thesis
      unfolding initial_tick_cycles_value c by blast
  qed
  let ?s4 = "s3\<lparr>soc_clint := c4\<rparr>"
  let ?b4 = "?b2\<lparr>tick_cycles := initial_tick_cycles, vectors := ?v[7 := Mtime_Isr], mie := mie b OR MIE_MEIE OR MIE_MTIE\<rparr>"
  have t: "ydrasil_tick_init ?n ?io (?b2, s3) = Done (?b4, ?s4)"
    using c4(1) by (simp add: ydrasil_tick_init_def rt_hw_interrupt_install_def MCAUSE_MACHINE_TIMER_def YDRASIL_IRQ_VECTOR_COUNT_def
        soc_mtime_program_next or.assoc del: mtime_read.simps)
  have init: "rt_hw_board_init ?n ?io (b, s) = Done (?b4, ?s4)"
    using p s2(1) c t by (simp add: rt_hw_board_init_def board_require_def del: mtime_read.simps)
  obtain s5 where s5: "rt_device_open (RT_DEVICE_OFLAG_RDWR OR RT_DEVICE_FLAG_INT_RX OR RT_DEVICE_FLAG_STREAM) (?dev 1, zero_uart, ?s4) =
      (RT_EOK, ?dev 2, zero_uart, s5)" "uart_only (soc_plic s5)" "rx_fifo (uart_of s5) = []" "soc_clint s5 = c4"
    using device_opened[of ?s4 "?dev 1" ?n gap wait "RT_DEVICE_OFLAG_RDWR OR RT_DEVICE_FLAG_INT_RX OR RT_DEVICE_FLAG_STREAM" zero_uart] s3(2,3) d(1,2)
    by auto
  let ?b5 = "?b4\<lparr>the_shell := (the_shell b)\<lparr>line := replicate FINSH_CMD_SIZE NUL, line_curpos := 0, line_position := 0\<rparr>,
      shell_device := Some ''uart0'', devs := (devs b)(''uart0'' \<mapsto> (?dev 2)\<lparr>rx_indicate := Some Finsh_Rx_Ind\<rparr>)\<rparr>"
  have f: "finsh_set_device ''uart0'' (?b4, ?s4) = (?b5, s5)"
    using s5(1) assms(6) by (simp add: finsh_set_device_def rt_device_find_def RT_NAME_MAX_def rt_device_set_rx_indicate_def Let_def)
  have z: "uart_inv zero_uart" "uart_contents zero_uart = []"
    by (simp_all add: uart_inv_def zero_uart_def UART_RX_BUFFER_SIZE_def uart_contents_def uart_count_def)
  have "console_ready ?b5 s5"
    using assms(2,3) s5(2,3) z(1) d(2) by (auto simp: console_ready_def console_wired_def wired_def)
  with init f z(2) c4 s5(4) show ?thesis by (intro exI[of _ ?b4] exI[of _ ?s4] exI[of _ ?b5] exI[of _ s5] exI[of _ now]) simp
qed


theorem board_starts_witness:
  "\<exists>b1 s1 b2 s2 now. rt_hw_board_init 2 (soc_io (\<lambda>_. 3) (\<lambda>i. i mod 5)) (blank_board, reset_soc) = Done (b1, s1) \<and>
    finsh_set_device ''uart0'' (b1, s1) = (b2, s2) \<and> console_ready b2 s2 \<and> uart_contents (uart b2) = [] \<and> krn b2 = two_threads \<and>
    vectors b2 ! 7 = Mtime_Isr \<and> mie b2 = 0x880 \<and> 100 \<le> now \<and> unat (mtimecmp (soc_clint s2)) = now + 50000 \<and>
    map_option ref_count (devs b2 ''uart0'') = Some 2"
proof -
  have "prompt 4 (\<lambda>i. i mod 5)" unfolding prompt_def by (simp add: less_Suc_eq_le[symmetric])
  moreover have "6 * (4 + 1) \<le> (4294967296 :: nat)" "time (soc_clint reset_soc) + 9 * (4 + 1) + 50000 < 18446744069414584320"
    by (simp_all add: reset_soc_def)
  moreover have "kinv (krn blank_board)" "ipc_inv (krn blank_board)" "devs blank_board ''uart0'' = None"
    "console_device blank_board = None" "shell_device blank_board = None"
    by (simp_all add: blank_board_def kinv_two_threads ipc_two_threads)
  ultimately have w: "\<exists>b1 s1 b2 s2 now. rt_hw_board_init (Suc (Suc 0)) (soc_io (\<lambda>_. 3) (\<lambda>i. i mod 5)) (blank_board, reset_soc) = Done (b1, s1) \<and>
    finsh_set_device ''uart0'' (b1, s1) = (b2, s2) \<and> console_ready b2 s2 \<and> uart_contents (uart b2) = [] \<and> krn b2 = krn blank_board \<and>
    vectors b2 ! 7 = Mtime_Isr \<and> mie b2 = mie blank_board OR MIE_MEIE OR MIE_MTIE \<and>
    time (soc_clint reset_soc) \<le> now \<and> now < time (soc_clint s2) \<and> unat (mtimecmp (soc_clint s2)) = now + 50000 \<and>
    map_option ref_count (devs b2 ''uart0'') = Some 2"
    using board_starts[OF reset_settled, of blank_board 4 "\<lambda>i. i mod 5" 0 "\<lambda>_. 3"] by blast
  have v: "krn blank_board = two_threads" "mie blank_board OR MIE_MEIE OR MIE_MTIE = 0x880" "time (soc_clint reset_soc) = 100"
    by (simp_all add: blank_board_def reset_soc_def MIE_MEIE_def MIE_MTIE_def)
  show ?thesis using w unfolding v numeral_2_eq_2 by blast
qed


end
