(* ===== verification/Spec2Isabelle.thy ===== *)
theory Spec2Isabelle
  imports Rt_List Board_Bus Kernel_Run Sensor Heap_Use Kstring Shell_Editor Board_Start
begin

text \<open>
  A verification library for the software of the Ydrasil RISC-V system on chip.

  The program. Ydrasil is an RV32 processor and SoC (\<^verbatim>\<open>hw/\<close>, SystemVerilog) with the
  software that runs on it (\<^verbatim>\<open>sw/\<close>, C): the real-time kernel RT-Thread Nano
  (\<^verbatim>\<open>sw/rt-thread-nano-3.1.5\<close>), the board support (\<^verbatim>\<open>sw/bsp\<close>), and a sensor
  monitor (\<^verbatim>\<open>sw/app\<close>) that reads attitude frames from an MS601M module over a UART and shows
  the angles on an SSD1306 display over SPI. The library models the C code of these three layers,
  and the simulated board of \<^verbatim>\<open>verif/sw/driver\<close> that the drivers are tested on.

  How the parts interact. The monitor calls the two device drivers; these call the bus interface
  \<^verbatim>\<open>monitor_bus.h\<close>, implemented once by the controllers of the SoC and once by the
  simulated board. The monitor is a thread of the kernel; threads give up the processor in the
  calls of \<^verbatim>\<open>thread.c\<close> and \<^verbatim>\<open>ipc.c\<close> and get it back through the scheduler; the timer
  interrupt drives the kernel's clock, whose timers end sleeps and waits. The console driver
  shares a ring of bytes with its receive interrupt, and formatted output goes to it. The shell is
  another thread: it reads the console as a device, waits for a semaphore that the interrupt
  releases, edits its line and executes commands, among them those of the monitor.

  Conventions. Machine integers are words of their width, and their arithmetic wraps; values of
  type \<open>int\<close> in the C code are integers, and where they can overflow, which C leaves undefined, the
  outcome is \<open>Fault\<close>. A structure is a record, a
  pointer to a kernel object is an identifier (\<open>tid\<close>, \<open>timer_id\<close>, \<open>object_id\<close>), an array is a
  list, and an access outside it is the outcome \<open>Fault\<close>. Code with loops that need not end has
  fuel, and \<open>Out_Of_Fuel\<close> when it runs out; the properties state that the outcome is \<open>Done\<close>
  for every fuel above a bound they give. The state a C function changes is its last argument,
  returned updated. A function that blocks is split where the thread switches: the first part
  ends in \<open>Blocked\<close>, and the part named \<open>..._resume\<close> is what the thread does when it runs
  again, in whatever state it then finds.

  The theories.

  \<^item> \<open>Prelude\<close>: word types, outcomes, array accesses, generic lemmas. \<open>Fifo\<close>: the contract of
    bounded queues as a locale, with its theorem on runs.
  \<^item> \<open>Rt_List\<close>: the circular lists of \<^verbatim>\<open>rtservice.h\<close> as next and previous pointers, refining
    lists; the rest of the kernel model works with lists. \<open>Rt_Def\<close>: the constants and
    structures of \<^verbatim>\<open>rtdef.h\<close>, the state \<open>kernel\<close> of the scheduler, the clock, the timers,
    the threads and the IPC objects, and the object registry (\<^verbatim>\<open>object.c\<close>). \<open>Rt_Ffs\<close>: the
    bit search of \<^verbatim>\<open>kservice.c\<close>.
  \<^item> \<open>Scheduler\<close> (\<^verbatim>\<open>scheduler.c\<close>): ready lists, priority bitmap, \<open>rt_schedule\<close>. \<open>Rt_Timer\<close> and
    \<open>Timer_Check\<close> (\<^verbatim>\<open>clock.c\<close>, \<^verbatim>\<open>timer.c\<close>): the timer list, in order of expiry modulo
    \<open>2 ^ 32\<close>, and the tick interrupt. \<open>Rt_Thread\<close> (\<^verbatim>\<open>thread.c\<close>, \<^verbatim>\<open>idle.c\<close>): life cycle,
    suspension, sleep, reaping of closed threads.
  \<^item> \<open>Ipc\<close> (semaphores, mutexes, events), \<open>Mailbox\<close> and \<open>Mqueue\<close> (\<^verbatim>\<open>ipc.c\<close>): every
    operation of the five objects. A message queue's pool is a linked list of slots, and its
    operations are split at the points where the code enables interrupts.
  \<^item> \<open>Kernel_Inv\<close>, \<open>Ipc_Inv\<close>, \<open>Ipc_Sem\<close>, \<open>Ipc_Mutex\<close>, \<open>Ipc_Event\<close>, \<open>Ipc_Queues\<close>: the invariant of
    lists, timers and threads, the invariants of the IPC objects, their preservation by every
    call, and what each call does. \<open>Kernel_Steps\<close> and \<open>Kernel_Run\<close>: the calls on threads and IPC objects,
    the tick and the idle thread as the steps of one transition system, whose only timers are those of
    the threads, as in this program; what holds in every reachable state.
  \<^item> \<open>Monitor_Bus_If\<close> (\<^verbatim>\<open>monitor_bus.h\<close>): the bus as a record of functions, and what a driver
    relies on as a locale. \<open>Ms601m\<close> (\<^verbatim>\<open>atk_ms601m.c\<close>): the frame parser and the polling loop.
    \<open>Ssd1306\<close> (\<^verbatim>\<open>ssd1306.c\<close>, \<^verbatim>\<open>font_small.c\<close>): initialisation, rendering, drawing.
    \<open>Mock_Bus\<close> (\<^verbatim>\<open>mock_monitor_bus.c\<close>): the simulated board and the drivers on it.
  \<^item> \<open>Mmio\<close>: devices as reads and writes of registers. \<open>Monitor_Bus\<close> (\<^verbatim>\<open>monitor_bus.c\<close>): the
    bus on the UART, SPI, I2C, GPIO and clock of the SoC. \<open>Board_Bus\<close>: the display driver on both
    implementations of the bus, through one locale. \<open>Sensor\<close> (\<^verbatim>\<open>sensor.c\<close>): the thread of the
    monitor and its commands, on \<open>Printf\<close> and the two drivers.
  \<^item> \<open>Printf\<close> (\<^verbatim>\<open>kservice.c\<close>): formatted output into bounded buffers and to the console.
    \<open>Kstring\<close> (\<^verbatim>\<open>kservice.c\<close>, \<^verbatim>\<open>bsp/lib/memory.c\<close>): the routines on bytes and strings, with
    their loops over words. \<open>Heap\<close> and \<open>Heap_Use\<close> (\<^verbatim>\<open>mem.c\<close>): the allocator, as a list of blocks,
    and what its clients rely on as a locale.
  \<^item> \<open>Uart\<close> (\<^verbatim>\<open>drv_uart.c\<close>): the console driver. \<open>Device\<close> (\<^verbatim>\<open>device.c\<close>): the calls on devices,
    over any driver that keeps the contract \<open>char_driver\<close>. \<open>Clint\<close> (\<^verbatim>\<open>drv_mtime.c\<close>) and \<open>Plic\<close>
    (\<^verbatim>\<open>drv_plic.c\<close>): the tick and the external interrupts, on the timer and the interrupt
    controller of \<^verbatim>\<open>hw/ip\<close>, cycle by cycle. \<open>Board\<close> (\<^verbatim>\<open>board.c\<close>, \<^verbatim>\<open>interrupt.c\<close>): the trap, the start,
    and the SoC of controller, timer and UART; \<open>Board_Console\<close> and \<open>Board_Start\<close> prove what they do.
  \<^item> \<open>Msh\<close> (\<^verbatim>\<open>msh.c\<close>): words, commands, completion. \<open>Shell\<close> (\<^verbatim>\<open>shell.c\<close>): the keys, the line and
    the history. \<open>Shell_Editor\<close>: an editor on plain strings that the shell refines.

  What the lemmas show. Parser: memory safety, soundness, acceptance of an attitude frame
  after bytes other than \<open>0x55\<close> and complete other frames whose checksum is not \<open>0x55\<close>, and its loss behind
  a frame with that checksum, the round trip through the simulated sensor, termination. Display: every
  read and write of the frame in bounds, the picture asked for is the picture shown, on both buses. Kernel: the
  scheduler runs a most urgent ready thread; timers stay ordered and the tick wakes the threads
  whose time has come, in order; semaphores, mutexes and events implement their specifications;
  mailboxes, message queues (with messages of any length, urgent ones at the head) and the console
  ring are bounded queues; in every reachable state the
  status of a thread agrees with the lists and timers it is in and the objects with their
  waiters; a sleeper wakes at its tick, and in clock cycles with the delays of the interrupts. Formatted
  output: the text of a format as a function, that the code writes as much of it as fits, and that it faults
  exactly when the text is undefined or leads the output pointer out of the address space. Monitor:
  from the frame on the wire to the picture and the console text, failures included. Heap: regions in use are aligned,
  large enough and apart, and everything comes back. Byte routines: the loops over words compute what
  the loops over bytes do. Devices: the console is counted by its holders. Interrupts: every source
  that asks is served once; a byte typed goes from the trap to the ring and wakes the shell, which
  never sleeps over one; the start of the board leads to that state. Shell: the buffer, the history and
  the terminal show what an editor on strings shows, as long as the line is not full.

  Fuel and bounds. \<open>ms601m_read_attitude\<close> needs one unit per received byte and per millisecond of
  its timeout; \<open>rt_timer_check\<close> and the loops over waiting threads need one unit per timer or
  thread in the list; the property on ticks gives the fuel as the length of the timer list. The
  time that timers may lie ahead is below \<open>2 ^ 31\<close> ticks, as the code demands. The waits of the
  console driver for its hardware have fuel because nothing bounds them; the receive interrupt needs
  one unit more than the FIFO holds, which is 16, and the reading of the time two rounds.

  Not modelled, and why. Interrupt masking appears as the atomicity of the steps it makes atomic;
  the register switch between threads (\<^verbatim>\<open>context_gcc.S\<close>, \<^verbatim>\<open>startup.S\<close>, \<^verbatim>\<open>cpuport.c\<close>) is at machine level.
  \<open>rt_hw_board_init\<close> ends with \<open>rt_components_board_init\<close>, which in this build calls one function that
  returns 0, and is left out. Timers of the application are in \<open>Rt_Timer\<close> and \<open>Timer_Check\<close>, but no step of
  \<open>Kernel_Run\<close> starts one: the program has none, and a periodic one with period 0 would keep the tick from
  ending (\<open>periodic_timer_zero_diverges\<close>). On the board, bytes arrive between the interrupts and not while a handler runs, and what is
  transmitted leaves at once: the shift registers of the UART are not modelled. Names and hooks of
  kernel objects have no effect on what is stated. Memory pools, slab and memheap are used by nothing
  else here; the shell's listings (\<^verbatim>\<open>cmd.c\<close>) only print; the commands of \<^verbatim>\<open>drv_peripherals.c\<close> test the
  hardware by hand; \<^verbatim>\<open>newlib_nano.c\<close> wraps the heap and the console for the C library; \<^verbatim>\<open>bsp/lib\<close>
  other than \<^verbatim>\<open>memory.c\<close> drives the same controllers for programs without the kernel. RT-Thread
  5.2.2 is a second kernel that the build can select instead of the default 3.1.5; \<^verbatim>\<open>encoding.h\<close> is generated;
  CoreMark, the FPGA project, the verification environment (\<^verbatim>\<open>riscv-dv\<close> and testbenches) and the rest
  of the RTL are other programs or other languages.
\<close>

end
